(* ===== verification/Prelude.thy ===== *)
theory Prelude
  imports Main
    "HOL-Library.AList"
    "HOL-Library.Word"
    "HOL-Library.Signed_Division"
    "HOL-Library.Multiset"
begin

text \<open>
  Shared vocabulary of the development: the encodings of the C++ containers and of C++
  integer division, and the generic lemmas on lists, association lists and machine words
  that the component theories use.

  \<^item> A \<^verbatim>\<open>std::unordered_map\<close> whose iteration order the code observes is an association list in
    iteration order (\<open>AList.update\<close>, \<open>AList.delete\<close>, \<open>map_of\<close>); one that is only looked up is
    a map \<open>'k \<rightharpoonup> 'v\<close>.
  \<^item> A \<^verbatim>\<open>std::unordered_set\<close> is a duplicate-free list in iteration order. The order is not fixed by
    the C++ standard, so no theorem assumes anything about it.
  \<^item> \<^verbatim>\<open>std::sort\<close> is a stable sort of a list whose own order is arbitrary: since the order of the
    input is arbitrary, every outcome an unstable sort may give to equal elements is covered.
\<close>

named_theorems range_simps \<open>index and range side conditions of the block tables\<close>
named_theorems frame_simps \<open>fields an operation does not write\<close>

type_synonym u64 = "64 word"
type_synonym u32 = "32 word"
type_synonym u16 = "16 word"
type_synonym u8 = "8 word"

subsection \<open>Unordered sets as duplicate-free lists\<close>

definition us_insert :: "'a \<Rightarrow> 'a list \<Rightarrow> 'a list" where
  "us_insert x xs = (if x \<in> set xs then xs else xs @ [x])"

definition us_erase :: "'a \<Rightarrow> 'a list \<Rightarrow> 'a list" where
  "us_erase x xs = filter (\<lambda>y. y \<noteq> x) xs"

lemma set_us_insert [simp]: "set (us_insert x xs) = insert x (set xs)"
  by (auto simp: us_insert_def)

lemma distinct_us_insert [simp]: "distinct xs \<Longrightarrow> distinct (us_insert x xs)"
  by (auto simp: us_insert_def)

lemma set_us_erase [simp]: "set (us_erase x xs) = set xs - {x}"
  by (auto simp: us_erase_def)

lemma distinct_us_erase [simp]: "distinct xs \<Longrightarrow> distinct (us_erase x xs)"
  by (auto simp: us_erase_def)

lemma us_insert_neq_Nil [simp]: "us_insert x xs \<noteq> []"
  by (cases xs) (auto simp: us_insert_def)

lemma length_us_insert: "length (us_insert x xs) = (if x \<in> set xs then length xs else Suc (length xs))"
  by (simp add: us_insert_def)

lemma us_insert_fold_set [simp]: "set (fold us_insert ys xs) = set xs \<union> set ys"
  by (induction ys arbitrary: xs) auto

lemma distinct_us_insert_fold [simp]: "distinct xs \<Longrightarrow> distinct (fold us_insert ys xs)"
  by (induction ys arbitrary: xs) auto

subsection \<open>Lists used as stacks (back of a \<^verbatim>\<open>std::vector\<close>)\<close>

lemma set_butlast_distinct:
  assumes "distinct xs" and "xs \<noteq> []"
  shows "set (butlast xs) = set xs - {last xs}"
proof -
  have "xs = butlast xs @ [last xs]" using assms(2) by simp
  then have "set xs = insert (last xs) (set (butlast xs))" and "last xs \<notin> set (butlast xs)"
    using assms(1) by (metis Un_insert_right list.set set_append sup_bot_right,
        metis distinct_append distinct_butlast disjoint_iff list.set_intros(1))
  then show ?thesis by auto
qed

subsection \<open>Writing through a pointer to the first matching element\<close>

fun update_first :: "('a \<Rightarrow> bool) \<Rightarrow> ('a \<Rightarrow> 'a) \<Rightarrow> 'a list \<Rightarrow> 'a list" where
  "update_first P f [] = []"
| "update_first P f (x # xs) = (if P x then f x # xs else x # update_first P f xs)"

lemma map_update_first: "(\<And>x. g (f x) = g x) \<Longrightarrow> map g (update_first P f xs) = map g xs"
  by (induction xs) auto

lemma update_first_cases:
  "find P xs = Some y \<Longrightarrow> \<exists>us vs. xs = us @ y # vs \<and> (\<forall>u \<in> set us. \<not> P u) \<and> update_first P f xs = us @ f y # vs"
proof (induction xs)
  case (Cons x xs)
  show ?case
  proof (cases "P x")
    case True
    then show ?thesis using Cons.prems by (intro exI [of _ "[]"] exI [of _ xs]) auto
  next
    case False
    then obtain us vs where "xs = us @ y # vs" "\<forall>u \<in> set us. \<not> P u" "update_first P f xs = us @ f y # vs"
      using Cons by auto
    then show ?thesis using False by (intro exI [of _ "x # us"] exI [of _ vs]) simp
  qed
qed simp

subsection \<open>C++ integer division on non-negative operands\<close>

lemma sdiv_nonneg: "0 \<le> a \<Longrightarrow> 0 < b \<Longrightarrow> a sdiv b = a div (b :: int)"
  by (cases "a = 0") (simp_all add: signed_divide_int_def sgn_if)

lemma smod_nonneg: "0 \<le> a \<Longrightarrow> 0 < b \<Longrightarrow> a smod b = a mod (b :: int)"
  by (cases "a = 0") (simp_all add: signed_modulo_int_def sgn_if)

lemma ceil_div_bounds:
  assumes "0 \<le> (n :: int)" and "0 < b"
  shows "n \<le> ((n + b - 1) sdiv b) * b" and "((n + b - 1) sdiv b) * b < n + b"
proof -
  have eq: "(n + b - 1) sdiv b = (n + b - 1) div b"
    using assms by (simp add: sdiv_nonneg)
  have dm: "((n + b - 1) div b) * b + (n + b - 1) mod b = n + b - 1"
    by (rule div_mult_mod_eq)
  have m1: "0 \<le> (n + b - 1) mod b" and m2: "(n + b - 1) mod b < b"
    using assms by simp_all
  show "n \<le> ((n + b - 1) sdiv b) * b" unfolding eq using dm m1 m2 by linarith
  show "((n + b - 1) sdiv b) * b < n + b" unfolding eq using dm m1 m2 by linarith
qed

subsection \<open>Association lists\<close>

declare map_of_eq_Some_iff [simp del] and Some_eq_map_of_iff [simp del]

lemma map_of_AList_update [simp]:
  "map_of (AList.update k v al) k' = (if k' = k then Some v else map_of al k')"
  by (simp add: update_conv')

lemma map_of_AList_delete [simp]:
  "map_of (AList.delete k al) k' = (if k' = k then None else map_of al k')"
  by (simp add: delete_conv')

lemma distinct_keys_AList_delete [simp]:
  "distinct (map fst al) \<Longrightarrow> distinct (map fst (AList.delete k al))"
  by (rule distinct_delete)

lemma distinct_keys_AList_update [simp]:
  "distinct (map fst al) \<Longrightarrow> distinct (map fst (AList.update k v al))"
  by (rule distinct_update)

subsection \<open>Counting occurrences\<close>

lemma length_remove1_less: "x \<in> set xs \<Longrightarrow> length (remove1 x xs) < length xs"
  using length_pos_if_in_set [of x xs] by (simp add: length_remove1)

lemma count_list_distinct: "distinct xs \<Longrightarrow> count_list xs x = (if x \<in> set xs then 1 else 0)"
  by (induction xs) auto

end
