(* ===== verification/Block_Manager.thy ===== *)
theory Block_Manager
  imports Prelude
begin

text \<open>
  The paged KV cache's block manager: \<^verbatim>\<open>core/include/densecore/memory/kv_cache.h\<close> (the records)
  and \<^verbatim>\<open>core/src/runtime/memory/kv_cache_block_manager.cpp\<close> (the operations). Physical blocks of
  \<^verbatim>\<open>BLOCK_SIZE\<close> tokens are reference counted, free blocks sit on sixteen sharded stacks, and a
  block whose content is registered under a prefix hash stays resident after its last reference
  is dropped, until an allocation evicts it.

  The thread schedule reaches the code in two places only, both of them oracles of the state:
  \<open>oracle_rand\<close> gives the value of \<^verbatim>\<open>rand()\<close> and \<open>oracle_busy\<close> says which shards
  \<^verbatim>\<open>std::try_to_lock\<close> failed on, at the \<open>oracle_pos\<close>-th allocation. Every theorem holds for all
  oracles. Counts are \<^verbatim>\<open>int\<close> in the source and unbounded \<open>int\<close> here: each is bounded by the
  number of blocks or of live references. Hashes keep their 64 bits.
\<close>

unbundle bit_operations_syntax

section \<open>Data\<close>

abbreviation BLOCK_SIZE :: int where "BLOCK_SIZE \<equiv> 16"
abbreviation NUM_SHARDS :: nat where "NUM_SHARDS \<equiv> 16"

record physical_block =
  pb_id :: int
  ref_count :: int
  num_filled_slots :: int
  content_hash :: u64
  cache_resident :: bool

definition is_full :: "physical_block \<Rightarrow> bool" where
  "is_full b \<longleftrightarrow> num_filled_slots b \<ge> BLOCK_SIZE"

text \<open>The recurrent state of one layer; a float is kept as its 32-bit pattern.\<close>

record ssm_state =
  conv_state :: "u32 list"
  ssm_values :: "u32 list"

record block_manager =
  num_blocks :: int
  block_size :: int
  blocks :: "physical_block list"
  shards :: "int list list"
  prefix_cache :: "(u64 \<times> int) list"
  block_tokens :: "int \<rightharpoonup> int list"
  block_hybrid_ssm_snapshots :: "int \<rightharpoonup> ssm_state list"
  rr_counter :: u32
  oracle_rand :: "nat \<Rightarrow> nat"
  oracle_busy :: "nat \<Rightarrow> nat \<Rightarrow> bool"
  oracle_pos :: nat

record prefix_cache_match =
  cached_tokens :: int
  cached_block_ids :: "int list"

record sequence_block_table =
  sbt_seq_id :: int
  block_ids :: "int list"
  num_tokens :: int

definition GetPhysicalBlockId :: "sequence_block_table \<Rightarrow> int \<Rightarrow> int" where
  "GetPhysicalBlockId t token_pos =
     (let logical_block = token_pos sdiv BLOCK_SIZE
      in if logical_block < 0 \<or> logical_block \<ge> int (length (block_ids t)) then -1
         else block_ids t ! nat logical_block)"

definition GetSlotIndex :: "int \<Rightarrow> int" where
  "GetSlotIndex token_pos = token_pos smod BLOCK_SIZE"

definition BlocksNeeded :: "int \<Rightarrow> int" where
  "BlocksNeeded n_tokens = (n_tokens + BLOCK_SIZE - 1) sdiv BLOCK_SIZE"

section \<open>Operations\<close>

definition in_range :: "block_manager \<Rightarrow> int \<Rightarrow> bool" where
  "in_range bm i \<longleftrightarrow> 0 \<le> i \<and> i < num_blocks bm"

definition blk :: "block_manager \<Rightarrow> int \<Rightarrow> physical_block" where
  "blk bm i = blocks bm ! nat i"

definition upd_blk :: "int \<Rightarrow> (physical_block \<Rightarrow> physical_block) \<Rightarrow> block_manager \<Rightarrow> block_manager" where
  "upd_blk i f bm = bm\<lparr>blocks := (blocks bm)[nat i := f (blk bm i)]\<rparr>"

definition shard_of :: "int \<Rightarrow> nat" where
  "shard_of i = nat (i mod int NUM_SHARDS)"

definition push_free :: "int \<Rightarrow> block_manager \<Rightarrow> block_manager" where
  "push_free i bm = bm\<lparr>shards := (shards bm)[shard_of i := shards bm ! shard_of i @ [i]]\<rparr>"

definition ResetAllocatedBlock :: "int \<Rightarrow> block_manager \<Rightarrow> block_manager" where
  "ResetAllocatedBlock block_id =
     upd_blk block_id
       (\<lambda>b. b\<lparr>ref_count := 1, num_filled_slots := 0, content_hash := 0, cache_resident := False\<rparr>)"

definition erase_prefix_entry :: "u64 \<Rightarrow> int \<Rightarrow> block_manager \<Rightarrow> block_manager" where
  "erase_prefix_entry h block_id bm =
     (if map_of (prefix_cache bm) h = Some block_id
      then bm\<lparr>prefix_cache := AList.delete h (prefix_cache bm)\<rparr> else bm)"

definition erase_block_data :: "int \<Rightarrow> block_manager \<Rightarrow> block_manager" where
  "erase_block_data block_id bm =
     bm\<lparr>block_tokens := (block_tokens bm)(block_id := None),
        block_hybrid_ssm_snapshots := (block_hybrid_ssm_snapshots bm)(block_id := None)\<rparr>"

definition ReleasePrefixResidencyLocked :: "int \<Rightarrow> bool \<Rightarrow> block_manager \<Rightarrow> block_manager" where
  "ReleasePrefixResidencyLocked block_id preserve bm =
     (if \<not> in_range bm block_id then bm
      else if \<not> cache_resident (blk bm block_id) then bm
      else let bm1 = (if content_hash (blk bm block_id) \<noteq> 0
                      then erase_prefix_entry (content_hash (blk bm block_id)) block_id bm else bm);
               bm2 = upd_blk block_id (\<lambda>b. b\<lparr>content_hash := 0, cache_resident := False\<rparr>) bm1;
               bm3 = erase_block_data block_id bm2
           in if \<not> preserve \<and> ref_count (blk bm3 block_id) = 0
              then push_free block_id (upd_blk block_id (\<lambda>b. b\<lparr>num_filled_slots := 0\<rparr>) bm3)
              else bm3)"

definition ReleasePrefixResidency :: "int \<Rightarrow> bool \<Rightarrow> block_manager \<Rightarrow> block_manager" where
  "ReleasePrefixResidency block_id preserve bm = ReleasePrefixResidencyLocked block_id preserve bm"

definition idle_entry :: "block_manager \<Rightarrow> u64 \<times> int \<Rightarrow> bool" where
  "idle_entry bm e =
     (case e of (h, block_id) \<Rightarrow>
        in_range bm block_id \<and> cache_resident (blk bm block_id) \<and>
        ref_count (blk bm block_id) = 0 \<and> content_hash (blk bm block_id) = h)"

definition TryEvictIdlePrefixBlockForAllocation :: "block_manager \<Rightarrow> int \<times> block_manager" where
  "TryEvictIdlePrefixBlockForAllocation bm =
     (case find (idle_entry bm) (prefix_cache bm) of
        None \<Rightarrow> (-1, bm)
      | Some (h, block_id) \<Rightarrow>
          let bm1 = upd_blk block_id
                (\<lambda>b. b\<lparr>content_hash := 0, cache_resident := False, num_filled_slots := 0\<rparr>) bm;
              bm2 = erase_block_data block_id bm1;
              bm3 = bm2\<lparr>prefix_cache := AList.delete h (prefix_cache bm2)\<rparr>
          in (block_id, ResetAllocatedBlock block_id bm3))"

definition BlockManager :: "int \<Rightarrow> int \<Rightarrow> (nat \<Rightarrow> nat) \<Rightarrow> (nat \<Rightarrow> nat \<Rightarrow> bool) \<Rightarrow> block_manager" where
  "BlockManager n bs rnd busy =
     \<lparr>num_blocks = n, block_size = bs,
      blocks = map (\<lambda>i. \<lparr>pb_id = i, ref_count = 0, num_filled_slots = 0,
                          content_hash = 0, cache_resident = False\<rparr>) [0..n - 1],
      shards = map (\<lambda>s. filter (\<lambda>i. shard_of i = s) [0..n - 1]) [0..<NUM_SHARDS],
      prefix_cache = [], block_tokens = Map.empty, block_hybrid_ssm_snapshots = Map.empty,
      rr_counter = 0, oracle_rand = rnd, oracle_busy = busy, oracle_pos = 0\<rparr>"

definition shard_order :: "nat \<Rightarrow> nat list" where
  "shard_order start = map (\<lambda>i. (start + i) mod NUM_SHARDS) [0..<NUM_SHARDS]"

definition pop_one :: "nat \<Rightarrow> block_manager \<Rightarrow> int \<times> block_manager" where
  "pop_one s bm =
     (let fb = shards bm ! s; block_id = last fb
      in (block_id, ResetAllocatedBlock block_id (bm\<lparr>shards := (shards bm)[s := butlast fb]\<rparr>)))"

fun pop_blocks :: "nat \<Rightarrow> nat \<Rightarrow> block_manager \<Rightarrow> int list \<times> block_manager" where
  "pop_blocks 0 s bm = ([], bm)"
| "pop_blocks (Suc k) s bm =
     (if shards bm ! s = [] then ([], bm)
      else let (block_id, bm1) = pop_one s bm; (ids, bm2) = pop_blocks k s bm1
           in (block_id # ids, bm2))"

fun drain_shards :: "nat \<Rightarrow> nat list \<Rightarrow> block_manager \<Rightarrow> int list \<times> block_manager" where
  "drain_shards need [] bm = ([], bm)"
| "drain_shards need (s # ss) bm =
     (let (ids, bm1) = pop_blocks need s bm;
          (ids', bm2) = drain_shards (need - length ids) ss bm1
      in (ids @ ids', bm2))"

fun evict_blocks :: "nat \<Rightarrow> block_manager \<Rightarrow> int list \<times> block_manager" where
  "evict_blocks 0 bm = ([], bm)"
| "evict_blocks (Suc k) bm =
     (let (block_id, bm1) = TryEvictIdlePrefixBlockForAllocation bm
      in if block_id < 0 then ([], bm1)
         else let (ids, bm2) = evict_blocks k bm1 in (block_id # ids, bm2))"

definition FreeSingle :: "int \<Rightarrow> block_manager \<Rightarrow> block_manager" where
  "FreeSingle block_id bm =
     (if \<not> in_range bm block_id then bm
      else if ref_count (blk bm block_id) \<le> 0 then bm
      else let bm1 = upd_blk block_id (\<lambda>b. b\<lparr>ref_count := ref_count b - 1\<rparr>) bm
           in if ref_count (blk bm1 block_id) > 0 \<or> cache_resident (blk bm1 block_id) then bm1
              else push_free block_id
                     (upd_blk block_id (\<lambda>b. b\<lparr>num_filled_slots := 0, content_hash := 0\<rparr>) bm1))"

definition Free :: "int list \<Rightarrow> block_manager \<Rightarrow> block_manager" where
  "Free ids bm = fold FreeSingle ids bm"

definition AllocateSingle :: "block_manager \<Rightarrow> int \<times> block_manager" where
  "AllocateSingle bm0 =
     (let start = unat (rr_counter bm0) mod NUM_SHARDS;
          busy = oracle_busy bm0 (oracle_pos bm0);
          bm = bm0\<lparr>rr_counter := rr_counter bm0 + 1, oracle_pos := Suc (oracle_pos bm0)\<rparr>
      in case find (\<lambda>s. \<not> busy s \<and> shards bm ! s \<noteq> []) (shard_order start) of
           Some s \<Rightarrow> pop_one s bm
         | None \<Rightarrow>
             (case find (\<lambda>s. shards bm ! s \<noteq> []) [0..<NUM_SHARDS] of
                Some s \<Rightarrow> pop_one s bm
              | None \<Rightarrow> TryEvictIdlePrefixBlockForAllocation bm))"

definition Allocate :: "int \<Rightarrow> block_manager \<Rightarrow> int list \<times> block_manager" where
  "Allocate n bm0 =
     (if n \<le> 0 then ([], bm0)
      else if n = 1 then
        (let (id, bm) = AllocateSingle bm0 in if id \<ge> 0 then ([id], bm) else ([], bm))
      else
        let start = oracle_rand bm0 (oracle_pos bm0) mod NUM_SHARDS;
            busy = oracle_busy bm0 (oracle_pos bm0);
            bm = bm0\<lparr>oracle_pos := Suc (oracle_pos bm0)\<rparr>
        in case find (\<lambda>s. \<not> busy s \<and> int (length (shards bm ! s)) \<ge> n) (shard_order start) of
             Some s \<Rightarrow> pop_blocks (nat n) s bm
           | None \<Rightarrow>
               let (ids1, bm1) = drain_shards (nat n) (shard_order start) bm;
                   (ids2, bm2) = evict_blocks (nat n - length ids1) bm1;
                   allocated = ids1 @ ids2
               in if int (length allocated) < n then ([], Free allocated bm2)
                  else (allocated, bm2))"

definition GetFreeBlockCount :: "block_manager \<Rightarrow> int" where
  "GetFreeBlockCount bm = int (sum_list (map length (shards bm)))"

definition GetUsedBlockCount :: "block_manager \<Rightarrow> int" where
  "GetUsedBlockCount bm = num_blocks bm - GetFreeBlockCount bm"

definition Fork :: "int \<Rightarrow> block_manager \<Rightarrow> int \<times> block_manager" where
  "Fork block_id bm =
     (if \<not> in_range bm block_id then (-1, bm)
      else if ref_count (blk bm block_id) \<le> 0 then (-1, bm)
      else (block_id, upd_blk block_id (\<lambda>b. b\<lparr>ref_count := ref_count b + 1\<rparr>) bm))"

definition CopyOnWrite ::
  "int \<Rightarrow> (int \<Rightarrow> int \<Rightarrow> 'd \<Rightarrow> 'd) \<Rightarrow> block_manager \<times> 'd \<Rightarrow> int \<times> block_manager \<times> 'd" where
  "CopyOnWrite block_id copy_callback st =
     (case st of (bm, d) \<Rightarrow>
        if \<not> in_range bm block_id then (-1, bm, d)
        else if ref_count (blk bm block_id) \<le> 1 then (block_id, bm, d)
        else let (new_block_id, bm1) = AllocateSingle bm
             in if new_block_id < 0 then (-1, bm1, d)
                else let d1 = copy_callback block_id new_block_id d;
                         bm2 = upd_blk block_id (\<lambda>b. b\<lparr>ref_count := ref_count b - 1\<rparr>) bm1;
                         bm3 = upd_blk new_block_id
                           (\<lambda>b. b\<lparr>num_filled_slots := num_filled_slots (blk bm2 block_id)\<rparr>) bm2
                     in (new_block_id, bm3, d1))"

definition IsShared :: "block_manager \<Rightarrow> int \<Rightarrow> bool" where
  "IsShared bm block_id \<longleftrightarrow> in_range bm block_id \<and> ref_count (blk bm block_id) > 1"

definition GetRefCount :: "block_manager \<Rightarrow> int \<Rightarrow> int" where
  "GetRefCount bm block_id = (if \<not> in_range bm block_id then 0 else ref_count (blk bm block_id))"

definition SetFilledSlots :: "int \<Rightarrow> int \<Rightarrow> block_manager \<Rightarrow> block_manager" where
  "SetFilledSlots block_id num_slots bm =
     (if \<not> in_range bm block_id then bm
      else upd_blk block_id (\<lambda>b. b\<lparr>num_filled_slots := max 0 (min num_slots (block_size bm))\<rparr>) bm)"

definition GetFilledSlots :: "block_manager \<Rightarrow> int \<Rightarrow> int" where
  "GetFilledSlots bm block_id =
     (if \<not> in_range bm block_id then 0 else num_filled_slots (blk bm block_id))"

text \<open>The liveness test and reference taken at the end of both cached-block lookups.\<close>

definition acquire_cached :: "int \<Rightarrow> block_manager \<Rightarrow> int \<times> block_manager" where
  "acquire_cached block_id bm =
     (let b = blk bm block_id
      in if ref_count b < 0 \<or> (\<not> cache_resident b \<and> ref_count b = 0) then (-1, bm)
         else (block_id, upd_blk block_id (\<lambda>b. b\<lparr>ref_count := ref_count b + 1\<rparr>) bm))"

definition FindCachedBlock :: "u64 \<Rightarrow> block_manager \<Rightarrow> int \<times> block_manager" where
  "FindCachedBlock hash bm =
     (if hash = 0 then (-1, bm)
      else case map_of (prefix_cache bm) hash of
             None \<Rightarrow> (-1, bm)
           | Some block_id \<Rightarrow> acquire_cached block_id bm)"

definition FindCachedBlockWithVerification ::
  "u64 \<Rightarrow> int list \<Rightarrow> block_manager \<Rightarrow> int \<times> block_manager" where
  "FindCachedBlockWithVerification hash tokens bm =
     (if hash = 0 \<or> tokens = [] then (-1, bm)
      else case map_of (prefix_cache bm) hash of
             None \<Rightarrow> (-1, bm)
           | Some block_id \<Rightarrow>
               (case block_tokens bm block_id of
                  None \<Rightarrow> (-1, bm)
                | Some stored_tokens \<Rightarrow>
                    if length stored_tokens \<noteq> length tokens then (-1, bm)
                    else if stored_tokens \<noteq> tokens then (-1, bm)
                    else acquire_cached block_id bm))"

definition ComputeTokenHash :: "u64 \<Rightarrow> int list \<Rightarrow> u64" where
  "ComputeTokenHash salt tokens =
     fold (\<lambda>t hash. (hash XOR word_of_int t) * 1099511628211) tokens (14695981039346656037 XOR salt)"

definition LoadHybridSSMSnapshotForBlock :: "block_manager \<Rightarrow> int \<Rightarrow> ssm_state list option" where
  "LoadHybridSSMSnapshotForBlock bm block_id =
     (if \<not> in_range bm block_id then None else block_hybrid_ssm_snapshots bm block_id)"

text \<open>
  The loop of \<^verbatim>\<open>FindLongestCachedPrefixWithVerification\<close> over \<open>k\<close> remaining full blocks: \<open>pre\<close> holds the
  tokens already matched, \<open>rest\<close> the tokens from the current offset on. The result lists the
  acquired blocks and says after how many of them the last valid recurrent snapshot was seen.
\<close>

fun acquire_prefix ::
  "u64 \<Rightarrow> bool \<Rightarrow> (ssm_state list \<Rightarrow> bool) option \<Rightarrow> nat \<Rightarrow> int list \<Rightarrow> int list \<Rightarrow> nat \<Rightarrow> int
    \<Rightarrow> block_manager \<Rightarrow> int list \<times> int \<times> block_manager" where
  "acquire_prefix salt req val 0 pre rest cnt tcnt bm = ([], tcnt, bm)"
| "acquire_prefix salt req val (Suc k) pre rest cnt tcnt bm =
     (let cur = take 16 rest;
          hash = ComputeTokenHash salt (pre @ cur);
          (block_id, bm1) = FindCachedBlockWithVerification hash cur bm
      in if block_id < 0 then ([], tcnt, bm1)
         else let ok = (req \<and> (case LoadHybridSSMSnapshotForBlock bm1 block_id of
                                 None \<Rightarrow> False
                               | Some snap \<Rightarrow> (case val of None \<Rightarrow> True | Some v \<Rightarrow> v snap)));
                  tcnt' = (if ok then int (Suc cnt) else tcnt);
                  (ids, tcnt'', bm2) =
                    acquire_prefix salt req val k (pre @ cur) (drop 16 rest) (Suc cnt) tcnt' bm1
              in (block_id # ids, tcnt'', bm2))"

definition FindLongestCachedPrefixWithVerification ::
  "u64 \<Rightarrow> int list \<Rightarrow> bool \<Rightarrow> (ssm_state list \<Rightarrow> bool) option \<Rightarrow> block_manager
    \<Rightarrow> prefix_cache_match \<times> block_manager" where
  "FindLongestCachedPrefixWithVerification salt tokens req val bm =
     (let n_tokens = int (length tokens)
      in if n_tokens \<le> BLOCK_SIZE then (\<lparr>cached_tokens = 0, cached_block_ids = []\<rparr>, bm)
         else let max_blocks = nat ((n_tokens - 1) sdiv BLOCK_SIZE);
                  (acquired, tcnt, bm1) =
                    acquire_prefix salt req val max_blocks [] tokens 0 (if req then 0 else -1) bm;
                  (kept, bm2) =
                    (if req then
                       if tcnt \<le> 0 then ([], Free acquired bm1)
                       else if tcnt < int (length acquired)
                       then (take (nat tcnt) acquired, Free (drop (nat tcnt) acquired) bm1)
                       else (acquired, bm1)
                     else (acquired, bm1))
              in (\<lparr>cached_tokens = int (length kept) * BLOCK_SIZE, cached_block_ids = kept\<rparr>, bm2))"

definition displace_prefix_owner :: "int \<Rightarrow> u64 \<Rightarrow> block_manager \<Rightarrow> block_manager" where
  "displace_prefix_owner block_id hash bm =
     (case map_of (prefix_cache bm) hash of
        None \<Rightarrow> bm
      | Some e \<Rightarrow> if e \<noteq> block_id then ReleasePrefixResidency e False bm else bm)"

definition RegisterPrefixBlock :: "int \<Rightarrow> u64 \<Rightarrow> block_manager \<Rightarrow> block_manager" where
  "RegisterPrefixBlock block_id hash bm =
     (if \<not> in_range bm block_id \<or> hash = 0 then bm
      else let bm1 = displace_prefix_owner block_id hash bm
           in if ref_count (blk bm1 block_id) \<le> 0 \<and> \<not> cache_resident (blk bm1 block_id) then bm1
              else let old = content_hash (blk bm1 block_id);
                       bm2 = (if cache_resident (blk bm1 block_id) \<and> old \<noteq> 0 \<and> old \<noteq> hash
                              then erase_block_data block_id (erase_prefix_entry old block_id bm1)
                              else bm1);
                       bm3 = upd_blk block_id (\<lambda>b. b\<lparr>content_hash := hash, cache_resident := True\<rparr>) bm2
                   in bm3\<lparr>prefix_cache := AList.update hash block_id (prefix_cache bm3)\<rparr>)"

definition RegisterPrefixBlockWithTokens ::
  "int \<Rightarrow> u64 \<Rightarrow> int list \<Rightarrow> ssm_state list \<Rightarrow> block_manager \<Rightarrow> block_manager" where
  "RegisterPrefixBlockWithTokens block_id hash tokens snapshot bm =
     (if \<not> in_range bm block_id \<or> hash = 0 then bm
      else let bm1 = displace_prefix_owner block_id hash bm
           in if ref_count (blk bm1 block_id) \<le> 0 \<and> \<not> cache_resident (blk bm1 block_id) then bm1
              else let old = content_hash (blk bm1 block_id);
                       bm2 = (if cache_resident (blk bm1 block_id) \<and> old \<noteq> 0 \<and> old \<noteq> hash
                              then erase_prefix_entry old block_id bm1 else bm1);
                       bm3 = upd_blk block_id (\<lambda>b. b\<lparr>content_hash := hash, cache_resident := True\<rparr>) bm2;
                       bm4 = bm3\<lparr>prefix_cache := AList.update hash block_id (prefix_cache bm3)\<rparr>
                   in bm4\<lparr>block_tokens := (block_tokens bm4)
                            (block_id := (if tokens \<noteq> [] then Some tokens else None)),
                          block_hybrid_ssm_snapshots := (block_hybrid_ssm_snapshots bm4)
                            (block_id := (if snapshot \<noteq> [] then Some snapshot else None))\<rparr>)"

definition UnregisterPrefixBlock :: "int \<Rightarrow> block_manager \<Rightarrow> block_manager" where
  "UnregisterPrefixBlock block_id bm =
     (if \<not> in_range bm block_id then bm else ReleasePrefixResidencyLocked block_id False bm)"

section \<open>The invariant\<close>

definition is_free :: "block_manager \<Rightarrow> int \<Rightarrow> bool" where
  "is_free bm i \<longleftrightarrow> i \<in> set (shards bm ! shard_of i)"

definition block_ok :: "block_manager \<Rightarrow> int \<Rightarrow> bool" where
  "block_ok bm i \<longleftrightarrow>
     pb_id (blk bm i) = i \<and> 0 \<le> ref_count (blk bm i) \<and>
     0 \<le> num_filled_slots (blk bm i) \<and> num_filled_slots (blk bm i) \<le> block_size bm \<and>
     (is_free bm i \<longleftrightarrow> ref_count (blk bm i) = 0 \<and> \<not> cache_resident (blk bm i)) \<and>
     (cache_resident (blk bm i) \<longrightarrow> map_of (prefix_cache bm) (content_hash (blk bm i)) = Some i)"

definition shards_ok :: "block_manager \<Rightarrow> bool" where
  "shards_ok bm \<longleftrightarrow>
     length (shards bm) = NUM_SHARDS \<and>
     (\<forall>s < NUM_SHARDS. distinct (shards bm ! s) \<and>
        (\<forall>i \<in> set (shards bm ! s). in_range bm i \<and> shard_of i = s))"

definition prefix_ok :: "block_manager \<Rightarrow> bool" where
  "prefix_ok bm \<longleftrightarrow>
     distinct (map fst (prefix_cache bm)) \<and>
     (\<forall>h i. map_of (prefix_cache bm) h = Some i \<longrightarrow>
        h \<noteq> 0 \<and> in_range bm i \<and> cache_resident (blk bm i) \<and> content_hash (blk bm i) = h) \<and>
     (\<forall>i. block_tokens bm i \<noteq> None \<or> block_hybrid_ssm_snapshots bm i \<noteq> None \<longrightarrow>
        in_range bm i \<and> cache_resident (blk bm i))"

definition bm_inv :: "block_manager \<Rightarrow> bool" where
  "bm_inv bm \<longleftrightarrow>
     0 \<le> num_blocks bm \<and> 0 \<le> block_size bm \<and> length (blocks bm) = nat (num_blocks bm) \<and>
     shards_ok bm \<and> prefix_ok bm \<and> (\<forall>i. in_range bm i \<longrightarrow> block_ok bm i)"

subsection \<open>Frame lemmas\<close>

lemma shard_of_less [simp]: "shard_of i < NUM_SHARDS"
  by (simp add: shard_of_def nat_less_iff)

lemma upd_blk_frame [simp]:
  "num_blocks (upd_blk i f bm) = num_blocks bm" "block_size (upd_blk i f bm) = block_size bm"
  "shards (upd_blk i f bm) = shards bm" "prefix_cache (upd_blk i f bm) = prefix_cache bm"
  "block_tokens (upd_blk i f bm) = block_tokens bm"
  "block_hybrid_ssm_snapshots (upd_blk i f bm) = block_hybrid_ssm_snapshots bm"
  "in_range (upd_blk i f bm) = in_range bm" "is_free (upd_blk i f bm) = is_free bm"
  "length (blocks (upd_blk i f bm)) = length (blocks bm)"
  by (auto simp: upd_blk_def in_range_def is_free_def fun_eq_iff)

lemma push_free_frame [simp]:
  "num_blocks (push_free i bm) = num_blocks bm" "block_size (push_free i bm) = block_size bm"
  "blocks (push_free i bm) = blocks bm" "blk (push_free i bm) = blk bm"
  "prefix_cache (push_free i bm) = prefix_cache bm"
  "block_tokens (push_free i bm) = block_tokens bm"
  "block_hybrid_ssm_snapshots (push_free i bm) = block_hybrid_ssm_snapshots bm"
  "in_range (push_free i bm) = in_range bm"
  by (auto simp: push_free_def in_range_def blk_def fun_eq_iff)

lemma prefix_upd_frame [simp]:
  "blk (bm\<lparr>prefix_cache := p\<rparr>) = blk bm" "in_range (bm\<lparr>prefix_cache := p\<rparr>) = in_range bm"
  "is_free (bm\<lparr>prefix_cache := p\<rparr>) = is_free bm"
  by (auto simp: in_range_def blk_def is_free_def fun_eq_iff)

lemma shards_upd_frame [simp]:
  "blk (bm\<lparr>shards := p\<rparr>) = blk bm" "in_range (bm\<lparr>shards := p\<rparr>) = in_range bm"
  by (auto simp: in_range_def blk_def fun_eq_iff)

lemma data_upd_frame [simp]:
  "blk (bm\<lparr>block_tokens := t, block_hybrid_ssm_snapshots := q\<rparr>) = blk bm"
  "in_range (bm\<lparr>block_tokens := t, block_hybrid_ssm_snapshots := q\<rparr>) = in_range bm"
  "is_free (bm\<lparr>block_tokens := t, block_hybrid_ssm_snapshots := q\<rparr>) = is_free bm"
  by (auto simp: in_range_def blk_def is_free_def fun_eq_iff)

lemma erase_data_frame [simp]:
  "num_blocks (erase_block_data i bm) = num_blocks bm"
  "block_size (erase_block_data i bm) = block_size bm"
  "blocks (erase_block_data i bm) = blocks bm" "blk (erase_block_data i bm) = blk bm"
  "shards (erase_block_data i bm) = shards bm"
  "prefix_cache (erase_block_data i bm) = prefix_cache bm"
  "in_range (erase_block_data i bm) = in_range bm" "is_free (erase_block_data i bm) = is_free bm"
  by (auto simp: erase_block_data_def in_range_def blk_def is_free_def fun_eq_iff)

lemma erase_prefix_frame [simp]:
  "num_blocks (erase_prefix_entry h i bm) = num_blocks bm"
  "block_size (erase_prefix_entry h i bm) = block_size bm"
  "blocks (erase_prefix_entry h i bm) = blocks bm" "blk (erase_prefix_entry h i bm) = blk bm"
  "shards (erase_prefix_entry h i bm) = shards bm"
  "block_tokens (erase_prefix_entry h i bm) = block_tokens bm"
  "block_hybrid_ssm_snapshots (erase_prefix_entry h i bm) = block_hybrid_ssm_snapshots bm"
  "in_range (erase_prefix_entry h i bm) = in_range bm"
  "is_free (erase_prefix_entry h i bm) = is_free bm"
  by (auto simp: erase_prefix_entry_def in_range_def blk_def is_free_def fun_eq_iff)

lemma oracle_frame [simp]:
  "blk (bm\<lparr>rr_counter := c\<rparr>) = blk bm" "blk (bm\<lparr>oracle_pos := p\<rparr>) = blk bm"
  "in_range (bm\<lparr>rr_counter := c\<rparr>) = in_range bm" "in_range (bm\<lparr>oracle_pos := p\<rparr>) = in_range bm"
  "is_free (bm\<lparr>rr_counter := c\<rparr>) = is_free bm" "is_free (bm\<lparr>oracle_pos := p\<rparr>) = is_free bm"
  by (auto simp: in_range_def blk_def is_free_def fun_eq_iff)

lemma bm_inv_oracle [simp]:
  "bm_inv (bm\<lparr>rr_counter := c\<rparr>) = bm_inv bm" "bm_inv (bm\<lparr>oracle_pos := p\<rparr>) = bm_inv bm"
  by (simp_all add: bm_inv_def shards_ok_def prefix_ok_def block_ok_def)

lemma blk_upd_blk:
  assumes "bm_inv bm" and "in_range bm i" and "in_range bm j"
  shows "blk (upd_blk i f bm) j = (if j = i then f (blk bm i) else blk bm j)"
proof -
  have "nat i < length (blocks bm)" "nat j < length (blocks bm)"
    using assms by (simp_all add: bm_inv_def in_range_def)
  then show ?thesis using assms by (auto simp: upd_blk_def blk_def in_range_def nth_list_update)
qed

lemma blk_upd_blk_len:
  assumes "length (blocks bm) = nat (num_blocks bm)" and "in_range bm i" and "in_range bm j"
  shows "blk (upd_blk i f bm) j = (if j = i then f (blk bm i) else blk bm j)"
proof -
  have "nat i < length (blocks bm)" "nat j < length (blocks bm)"
    using assms by (simp_all add: in_range_def)
  then show ?thesis using assms by (auto simp: upd_blk_def blk_def in_range_def nth_list_update)
qed

lemma is_free_push_free:
  assumes "length (shards bm) = NUM_SHARDS"
  shows "is_free (push_free i bm) j \<longleftrightarrow> j = i \<or> is_free bm j"
  using assms shard_of_less [of i]
  by (auto simp: is_free_def push_free_def nth_list_update)

lemma shards_ok_push_free:
  assumes "shards_ok bm" and "in_range bm i" and "\<not> is_free bm i"
  shows "shards_ok (push_free i bm)"
  using assms shard_of_less [of i]
  by (auto simp: shards_ok_def is_free_def push_free_def nth_list_update in_range_def)

lemma shards_ok_upd_blk [simp]: "shards_ok (upd_blk i f bm) = shards_ok bm"
  by (simp add: shards_ok_def)

lemma bm_inv_lengths:
  "bm_inv bm \<Longrightarrow> length (blocks bm) = nat (num_blocks bm)"
  "bm_inv bm \<Longrightarrow> length (shards bm) = NUM_SHARDS"
  by (simp_all add: bm_inv_def shards_ok_def)

lemma bm_inv_block_ok: "bm_inv bm \<Longrightarrow> in_range bm i \<Longrightarrow> block_ok bm i"
  by (simp add: bm_inv_def)

lemma bm_inv_ref_nonneg: "bm_inv bm \<Longrightarrow> in_range bm i \<Longrightarrow> 0 \<le> ref_count (blk bm i)"
  by (drule (1) bm_inv_block_ok) (simp add: block_ok_def)

lemma bm_inv_free_iff:
  "bm_inv bm \<Longrightarrow> in_range bm i \<Longrightarrow>
   is_free bm i \<longleftrightarrow> ref_count (blk bm i) = 0 \<and> \<not> cache_resident (blk bm i)"
  by (drule (1) bm_inv_block_ok) (simp add: block_ok_def)

lemma bm_inv_free_range: "bm_inv bm \<Longrightarrow> is_free bm i \<Longrightarrow> in_range bm i"
  unfolding bm_inv_def shards_ok_def is_free_def using shard_of_less [of i] by blast

lemma bm_inv_prefixD:
  "bm_inv bm \<Longrightarrow> map_of (prefix_cache bm) h = Some i \<Longrightarrow>
   h \<noteq> 0 \<and> in_range bm i \<and> cache_resident (blk bm i) \<and> content_hash (blk bm i) = h"
  by (simp add: bm_inv_def prefix_ok_def)

lemma bm_inv_residentD:
  "bm_inv bm \<Longrightarrow> in_range bm i \<Longrightarrow> cache_resident (blk bm i) \<Longrightarrow>
   map_of (prefix_cache bm) (content_hash (blk bm i)) = Some i"
  by (drule (1) bm_inv_block_ok) (simp add: block_ok_def)

text \<open>
  Updating one block's counters without touching its residency keeps the invariant when the
  free lists agree with the new count.
\<close>

lemma bm_inv_upd_blk:
  assumes inv: "bm_inv bm" and i: "in_range bm i"
    and same: "pb_id (f (blk bm i)) = pb_id (blk bm i)"
      "cache_resident (f (blk bm i)) = cache_resident (blk bm i)"
      "cache_resident (blk bm i) \<Longrightarrow> content_hash (f (blk bm i)) = content_hash (blk bm i)"
    and cnt: "0 \<le> ref_count (f (blk bm i))" "0 \<le> num_filled_slots (f (blk bm i))"
      "num_filled_slots (f (blk bm i)) \<le> block_size bm"
    and fr: "is_free bm i \<longleftrightarrow> ref_count (f (blk bm i)) = 0 \<and> \<not> cache_resident (blk bm i)"
  shows "bm_inv (upd_blk i f bm)"
proof -
  note upd = blk_upd_blk [OF inv i]
  have "prefix_ok (upd_blk i f bm)"
    using inv i same bm_inv_prefixD [OF inv] by (auto simp: prefix_ok_def bm_inv_def upd)
  moreover have "block_ok (upd_blk i f bm) j" if "in_range bm j" for j
    using bm_inv_block_ok [OF inv that] that i same cnt fr by (auto simp: block_ok_def upd)
  ultimately show ?thesis using inv by (simp add: bm_inv_def)
qed

end
