(* ===== verification/Block_Pool.thy ===== *)
theory Block_Pool
  imports Prelude
begin

text \<open>
  The contract a client of a block pool relies on, as a locale, and what follows from it for a
  client that keeps leases. Both pools of the code are interpretations: the reference-counted
  \<^verbatim>\<open>BlockManager\<close> and the raw \<^verbatim>\<open>KVBlockAllocator\<close> behind the K and V arenas.
\<close>

section \<open>A client's view: leases\<close>

text \<open>
  A client takes leases of \<open>n\<close> blocks and gives a lease back. A request that the pool cannot
  serve leaves an empty lease, as both pools answer with an empty vector.
\<close>

datatype pool_op = Take int | Give nat

fun serve ::
  "(int \<Rightarrow> 's \<Rightarrow> int list \<times> 's) \<Rightarrow> (int list \<Rightarrow> 's \<Rightarrow> 's) \<Rightarrow> pool_op \<Rightarrow> int list list \<times> 's \<Rightarrow> int list list \<times> 's" where
  "serve alloc release (Take n) (leases, s) = (let (ids, s') = alloc n s in (leases @ [ids], s'))"
| "serve alloc release (Give k) (leases, s) =
     (if k < length leases then (leases[k := []], release (leases ! k) s) else (leases, s))"

definition serve_all ::
  "(int \<Rightarrow> 's \<Rightarrow> int list \<times> 's) \<Rightarrow> (int list \<Rightarrow> 's \<Rightarrow> 's) \<Rightarrow> pool_op list \<Rightarrow> int list list \<times> 's \<Rightarrow> int list list \<times> 's" where
  "serve_all alloc release ops st = fold (serve alloc release) ops st"

definition leased :: "int list list \<Rightarrow> int list" where
  "leased leases = concat leases"

lemma leased_give:
  assumes "k < length leases"
  shows "mset (leased leases) = mset (leased (leases[k := []])) + mset (leases ! k)"
proof -
  have "leases = take k leases @ leases ! k # drop (Suc k) leases" using assms by (rule id_take_nth_drop)
  then have "mset (leased leases) = mset (concat (take k leases)) + mset (leases ! k) + mset (concat (drop (Suc k) leases))"
    by (metis (no_types, lifting) concat.simps(2) concat_append leased_def mset_append union_assoc)
  moreover have "leases[k := []] = take k leases @ [] # drop (Suc k) leases" using assms by (simp add: upd_conv_take_nth_drop)
  ultimately show ?thesis by (simp add: leased_def)
qed

section \<open>The contract\<close>

locale block_pool =
  fixes inv :: "'s \<Rightarrow> bool"
    and alloc :: "int \<Rightarrow> 's \<Rightarrow> int list \<times> 's"
    and release :: "int list \<Rightarrow> 's \<Rightarrow> 's"
    and pool :: "'s \<Rightarrow> int set"
    and refs :: "'s \<Rightarrow> int \<Rightarrow> int"
  assumes finite_pool: "inv s \<Longrightarrow> finite (pool s)"
    and refs_nonneg: "inv s \<Longrightarrow> i \<in> pool s \<Longrightarrow> 0 \<le> refs s i"
    and alloc_inv: "inv s \<Longrightarrow> inv (snd (alloc n s))"
    and alloc_pool: "inv s \<Longrightarrow> pool (snd (alloc n s)) = pool s"
    and alloc_none: "inv s \<Longrightarrow> n \<le> 0 \<or> int (card {i \<in> pool s. refs s i = 0}) < n \<Longrightarrow>
      fst (alloc n s) = [] \<and> (\<forall>i \<in> pool s. refs (snd (alloc n s)) i = refs s i)"
    and alloc_some: "inv s \<Longrightarrow> 0 < n \<Longrightarrow> n \<le> int (card {i \<in> pool s. refs s i = 0}) \<Longrightarrow>
      int (length (fst (alloc n s))) = n \<and> distinct (fst (alloc n s)) \<and>
      set (fst (alloc n s)) \<subseteq> {i \<in> pool s. refs s i = 0} \<and>
      (\<forall>i \<in> pool s. refs (snd (alloc n s)) i = (if i \<in> set (fst (alloc n s)) then 1 else refs s i))"
    and release_inv: "inv s \<Longrightarrow> inv (release ids s)"
    and release_pool: "inv s \<Longrightarrow> pool (release ids s) = pool s"
    and release_refs: "inv s \<Longrightarrow> i \<in> pool s \<Longrightarrow>
      refs (release ids s) i = max 0 (refs s i - int (count_list ids i))"
begin

lemma alloc_fresh:
  assumes "inv s"
  shows "set (fst (alloc n s)) \<subseteq> {i \<in> pool s. refs s i = 0}" "distinct (fst (alloc n s))"
    "\<forall>i \<in> pool s. refs (snd (alloc n s)) i = (if i \<in> set (fst (alloc n s)) then 1 else refs s i)"
  using alloc_none [OF assms, of n] alloc_some [OF assms, of n] by fastforce+

lemma alloc_release:
  assumes s: "inv s" and i: "i \<in> pool s"
  shows "refs (release (fst (alloc n s)) (snd (alloc n s))) i = refs s i"
proof -
  note F = alloc_fresh [OF s, of n]
  have "refs (release (fst (alloc n s)) (snd (alloc n s))) i =
      max 0 (refs (snd (alloc n s)) i - int (count_list (fst (alloc n s)) i))"
    using release_refs [OF alloc_inv [OF s]] i by (simp add: alloc_pool [OF s])
  then show ?thesis using F i refs_nonneg [OF s i] by (auto simp: count_list_distinct)
qed

lemma alloc_alloc_disjoint:
  assumes s: "inv s"
  shows "set (fst (alloc n s)) \<inter> set (fst (alloc m (snd (alloc n s)))) = {}"
  using alloc_fresh [OF s, of n] alloc_fresh(1) [OF alloc_inv [OF s], of m n] by (fastforce simp: alloc_pool [OF s])

text \<open>
  The lease invariant: no block is in two leases or twice in one, and the blocks with a
  reference are exactly the leased ones.
\<close>

lemma serve_leases:
  assumes s: "inv s" and d: "distinct (leased L)" and sub: "set (leased L) \<subseteq> pool s"
    and r: "\<And>i. i \<in> pool s \<Longrightarrow> refs s i = (if i \<in> set (leased L) then 1 else 0)"
    and st: "serve alloc release oper (L, s) = (L', s')"
  shows "inv s' \<and> pool s' = pool s \<and> distinct (leased L') \<and> set (leased L') \<subseteq> pool s' \<and>
    (\<forall>i \<in> pool s'. refs s' i = (if i \<in> set (leased L') then 1 else 0))"
proof (cases oper)
  case (Take n)
  obtain ids t where a: "alloc n s = (ids, t)" by fastforce
  have eq: "L' = L @ [ids]" "s' = t" using st a by (auto simp: Take)
  have F: "set ids \<subseteq> {i \<in> pool s. refs s i = 0}" "distinct ids"
    "\<And>i. i \<in> pool s \<Longrightarrow> refs t i = (if i \<in> set ids then 1 else refs s i)"
    using alloc_fresh [OF s, of n] a by auto
  have "set ids \<inter> set (leased L) = {}" using F(1) r by fastforce
  moreover have "inv t" "pool t = pool s" using alloc_inv [OF s, of n] alloc_pool [OF s, of n] a by auto
  ultimately show ?thesis using F d sub r by (auto simp: eq leased_def)
next
  case (Give k)
  show ?thesis
  proof (cases "k < length L")
    case True
    have eq: "L' = L[k := []]" "s' = release (L ! k) s" using st True by (auto simp: Give)
    note G = leased_give [OF True]
    have dis: "distinct (leased L' @ L ! k)"
      using d G by (metis eq(1) mset_append mset_eq_imp_distinct_iff)
    have set: "set (leased L) = set (leased L') \<union> set (L ! k)"
      using G by (metis eq(1) set_append set_mset_mset mset_append)
    have "refs s' i = (if i \<in> set (leased L') then 1 else 0)" if i: "i \<in> pool s" for i
      using release_refs [OF s i, of "L ! k"] r [OF i] dis set by (auto simp: eq(2) count_list_distinct)
    then show ?thesis using release_inv [OF s] release_pool [OF s] dis sub set by (auto simp: eq)
  qed (use st s d sub r in \<open>auto simp: Give\<close>)
qed

lemma serve_all_leases:
  assumes s: "inv s" and d: "distinct (leased L)" and sub: "set (leased L) \<subseteq> pool s"
    and r: "\<And>i. i \<in> pool s \<Longrightarrow> refs s i = (if i \<in> set (leased L) then 1 else 0)"
    and st: "serve_all alloc release opers (L, s) = (L', s')"
  shows "inv s' \<and> pool s' = pool s \<and> distinct (leased L') \<and> set (leased L') \<subseteq> pool s' \<and>
    (\<forall>i \<in> pool s'. refs s' i = (if i \<in> set (leased L') then 1 else 0))"
  using assms
proof (induction opers arbitrary: L s)
  case Nil
  then show ?case by (simp add: serve_all_def)
next
  case (Cons oper opers)
  obtain L1 s1 where 1: "serve alloc release oper (L, s) = (L1, s1)" by fastforce
  note S = serve_leases [OF Cons.prems(1-4) 1]
  have "serve_all alloc release opers (L1, s1) = (L', s')" using Cons.prems(5) 1 by (simp add: serve_all_def)
  then show ?case using Cons.IH [of s1 L1] S by metis
qed

lemma serve_all_available:
  assumes "inv s" and "\<And>i. i \<in> pool s \<Longrightarrow> refs s i = 0"
    and "serve_all alloc release opers ([], s) = (L', s')"
  shows "card {i \<in> pool s'. refs s' i = 0} + length (leased L') = card (pool s)"
proof -
  have S: "inv s' \<and> pool s' = pool s \<and> distinct (leased L') \<and> set (leased L') \<subseteq> pool s' \<and>
    (\<forall>i \<in> pool s'. refs s' i = (if i \<in> set (leased L') then 1 else 0))"
    by (rule serve_all_leases [OF assms(1) _ _ _ assms(3)]) (simp_all add: leased_def assms(2))
  then have eq: "{i \<in> pool s'. refs s' i = 0} = pool s - set (leased L')" by auto
  have fin: "finite (pool s)" by (rule finite_pool [OF assms(1)])
  have len: "length (leased L') = card (set (leased L'))" using S by (simp add: distinct_card)
  have sub: "set (leased L') \<subseteq> pool s" using S by metis
  then have "card (set (leased L')) \<le> card (pool s)" by (rule card_mono [OF fin])
  then show ?thesis unfolding eq len using card_Diff_subset [OF _ sub] by simp
qed

end

end
