(* ===== verification/Block_Manager_Laws.thy ===== *)
theory Block_Manager_Laws
  imports Block_Manager Block_Pool
begin

text \<open>
  Correctness of the block manager: every operation keeps \<open>bm_inv\<close>, allocation hands out blocks
  nobody references and fails only when there are too few of them, releasing is the inverse of
  taking a reference, and the prefix cache returns only blocks that hold exactly the tokens
  asked for.
\<close>

section \<open>Releasing references\<close>

definition same_store :: "block_manager \<Rightarrow> block_manager \<Rightarrow> bool" where
  "same_store bm bm' \<longleftrightarrow> num_blocks bm' = num_blocks bm \<and> block_size bm' = block_size bm"

lemma same_store_range: "same_store bm bm' \<Longrightarrow> in_range bm' = in_range bm"
  by (auto simp: same_store_def in_range_def fun_eq_iff)

lemma same_store_refl [simp]: "same_store bm bm"
  by (simp add: same_store_def)

lemma same_store_trans: "same_store a b \<Longrightarrow> same_store b c \<Longrightarrow> same_store a c"
  by (simp add: same_store_def)

lemma FreeSingle_frame [simp]:
  "num_blocks (FreeSingle i bm) = num_blocks bm" "block_size (FreeSingle i bm) = block_size bm"
  "prefix_cache (FreeSingle i bm) = prefix_cache bm"
  "block_tokens (FreeSingle i bm) = block_tokens bm"
  "block_hybrid_ssm_snapshots (FreeSingle i bm) = block_hybrid_ssm_snapshots bm"
  "in_range (FreeSingle i bm) = in_range bm"
  by (auto simp: FreeSingle_def Let_def)

lemma FreeSingle_blk:
  assumes "bm_inv bm" and "in_range bm j"
  shows "ref_count (blk (FreeSingle i bm) j) =
      (if j = i then max 0 (ref_count (blk bm j) - 1) else ref_count (blk bm j))"
    and "cache_resident (blk (FreeSingle i bm) j) = cache_resident (blk bm j)"
    and "j \<noteq> i \<Longrightarrow> blk (FreeSingle i bm) j = blk bm j"
  using assms bm_inv_ref_nonneg [OF assms]
  by (auto simp: FreeSingle_def Let_def blk_upd_blk_len bm_inv_lengths)

lemma FreeSingle_inv:
  assumes inv: "bm_inv bm"
  shows "bm_inv (FreeSingle i bm)"
proof (cases "in_range bm i \<and> ref_count (blk bm i) > 0")
  case False
  then show ?thesis using inv by (auto simp: FreeSingle_def)
next
  case True
  then have i: "in_range bm i" and pos: "ref_count (blk bm i) > 0" by auto
  note ok = bm_inv_block_ok [OF inv i]
  show ?thesis
  proof (cases "ref_count (blk bm i) > 1 \<or> cache_resident (blk bm i)")
    case True
    have "FreeSingle i bm = upd_blk i (\<lambda>b. b\<lparr>ref_count := ref_count b - 1\<rparr>) bm"
      using i pos True by (auto simp: FreeSingle_def Let_def blk_upd_blk_len bm_inv_lengths [OF inv])
    moreover have "bm_inv (upd_blk i (\<lambda>b. b\<lparr>ref_count := ref_count b - 1\<rparr>) bm)"
      using ok i pos True by (intro bm_inv_upd_blk inv) (auto simp: block_ok_def)
    ultimately show ?thesis by simp
  next
    case False
    define bm1 where "bm1 = upd_blk i (\<lambda>b. b\<lparr>ref_count := ref_count b - 1\<rparr>) bm"
    define bm2 where "bm2 = upd_blk i (\<lambda>b. b\<lparr>num_filled_slots := 0, content_hash := 0\<rparr>) bm1"
    have len: "length (blocks bm) = nat (num_blocks bm)" "length (blocks bm1) = nat (num_blocks bm1)"
      using bm_inv_lengths [OF inv] by (simp_all add: bm1_def)
    have r: "in_range bm1 = in_range bm" "in_range bm2 = in_range bm" by (simp_all add: bm1_def bm2_def)
    have one: "ref_count (blk bm i) = 1" and nres: "\<not> cache_resident (blk bm i)"
      using False pos by auto
    have b1: "in_range bm j \<Longrightarrow> blk bm1 j = (if j = i then (blk bm i)\<lparr>ref_count := 0\<rparr> else blk bm j)" for j
      using i one by (simp add: bm1_def blk_upd_blk_len [OF len(1)])
    have b2: "in_range bm j \<Longrightarrow> blk bm2 j = (if j = i then (blk bm i)\<lparr>ref_count := 0, num_filled_slots := 0,
        content_hash := 0\<rparr> else blk bm j)" for j
      using i by (simp add: bm2_def blk_upd_blk_len [OF len(2)] r b1)
    have eq: "FreeSingle i bm = push_free i bm2"
      using i pos nres one b1 by (simp add: FreeSingle_def Let_def bm1_def bm2_def)
    have nf: "\<not> is_free bm i" using ok one by (simp add: block_ok_def)
    have fr: "is_free bm2 = is_free bm" "shards_ok bm2 = shards_ok bm" by (simp_all add: bm1_def bm2_def)
    have same: "prefix_cache bm2 = prefix_cache bm" "block_tokens bm2 = block_tokens bm"
      "block_hybrid_ssm_snapshots bm2 = block_hybrid_ssm_snapshots bm"
      "block_size bm2 = block_size bm" "num_blocks bm2 = num_blocks bm"
      "length (blocks bm2) = length (blocks bm)"
      by (simp_all add: bm1_def bm2_def)
    have sh: "shards_ok (push_free i bm2)"
      using inv nf i by (intro shards_ok_push_free) (simp_all add: fr r bm_inv_def)
    have lens: "length (shards bm2) = NUM_SHARDS" using inv fr(2) by (simp add: bm_inv_def shards_ok_def)
    have pok: "prefix_ok (push_free i bm2)"
      using inv nres by (auto simp: bm_inv_def prefix_ok_def r b2 same)
    have bok: "block_ok (push_free i bm2) j" if j: "in_range bm j" for j
      using bm_inv_block_ok [OF inv j] j nres inv
      by (auto simp: block_ok_def b2 is_free_push_free [OF lens] fr same bm_inv_def)
    show ?thesis unfolding eq using inv sh pok bok
      by (simp add: bm_inv_def r same)
  qed
qed

lemma Free_inv: "bm_inv bm \<Longrightarrow> bm_inv (Free ids bm)"
  unfolding Free_def by (induction ids arbitrary: bm) (simp_all add: FreeSingle_inv)

lemma Free_frame [simp]:
  "num_blocks (Free ids bm) = num_blocks bm" "block_size (Free ids bm) = block_size bm"
  "prefix_cache (Free ids bm) = prefix_cache bm" "block_tokens (Free ids bm) = block_tokens bm"
  "block_hybrid_ssm_snapshots (Free ids bm) = block_hybrid_ssm_snapshots bm"
  "in_range (Free ids bm) = in_range bm"
  unfolding Free_def by (induction ids arbitrary: bm) simp_all

lemma Free_ref_count:
  "bm_inv bm \<Longrightarrow> in_range bm j \<Longrightarrow>
   ref_count (blk (Free ids bm) j) = max 0 (ref_count (blk bm j) - int (count_list ids j))"
  unfolding Free_def
proof (induction ids arbitrary: bm)
  case Nil
  then show ?case using bm_inv_ref_nonneg by simp
next
  case (Cons a ids)
  then show ?case using bm_inv_ref_nonneg [OF Cons.prems]
    by (auto simp: FreeSingle_inv FreeSingle_blk max_def)
qed

lemma Free_resident:
  "bm_inv bm \<Longrightarrow> in_range bm j \<Longrightarrow> cache_resident (blk (Free ids bm) j) = cache_resident (blk bm j)"
  unfolding Free_def by (induction ids arbitrary: bm) (simp_all add: FreeSingle_inv FreeSingle_blk)

lemma Free_blk_other:
  "bm_inv bm \<Longrightarrow> in_range bm j \<Longrightarrow> j \<notin> set ids \<Longrightarrow> blk (Free ids bm) j = blk bm j"
  unfolding Free_def by (induction ids arbitrary: bm) (simp_all add: FreeSingle_inv FreeSingle_blk)

section \<open>Taking blocks\<close>

text \<open>
  \<open>takes bm ids bm'\<close>: \<open>bm'\<close> results from \<open>bm\<close> by handing out the pairwise distinct, unreferenced
  blocks \<open>ids\<close>, each with one reference and no content, and touching no other block.
\<close>

definition takes :: "block_manager \<Rightarrow> int list \<Rightarrow> block_manager \<Rightarrow> bool" where
  "takes bm ids bm' \<longleftrightarrow>
     bm_inv bm' \<and> same_store bm bm' \<and> distinct ids \<and>
     (\<forall>i \<in> set ids. in_range bm i \<and> ref_count (blk bm i) = 0 \<and>
        ref_count (blk bm' i) = 1 \<and> num_filled_slots (blk bm' i) = 0 \<and>
        \<not> cache_resident (blk bm' i)) \<and>
     (\<forall>j. in_range bm j \<and> j \<notin> set ids \<longrightarrow> blk bm' j = blk bm j) \<and>
     (\<forall>j. j \<notin> set ids \<longrightarrow> block_tokens bm' j = block_tokens bm j \<and>
        block_hybrid_ssm_snapshots bm' j = block_hybrid_ssm_snapshots bm j)"

lemma takesD:
  assumes "takes bm ids bm'"
  shows "bm_inv bm'" "same_store bm bm'" "distinct ids"
    and "\<And>i. i \<in> set ids \<Longrightarrow> in_range bm i \<and> ref_count (blk bm i) = 0 \<and> ref_count (blk bm' i) = 1"
    and "\<And>j. in_range bm j \<Longrightarrow> j \<notin> set ids \<Longrightarrow> blk bm' j = blk bm j"
  using assms by (simp_all add: takes_def)

lemma takes_ref_count:
  "takes bm ids bm' \<Longrightarrow> in_range bm j \<Longrightarrow>
   ref_count (blk bm' j) = ref_count (blk bm j) + int (count_list ids j)"
  by (cases "j \<in> set ids") (auto simp: takes_def count_list_distinct)

lemma takes_Nil: "bm_inv bm \<Longrightarrow> takes bm [] bm"
  by (simp add: takes_def)

lemma takes_append:
  assumes t1: "takes bm ids1 bm1" and t2: "takes bm1 ids2 bm2"
  shows "takes bm (ids1 @ ids2) bm2"
proof -
  have r: "in_range bm1 = in_range bm" using takesD(2) [OF t1] by (rule same_store_range)
  have disj: "set ids1 \<inter> set ids2 = {}"
    using takesD(4) [OF t1] takesD(4) [OF t2] by fastforce
  have old: "ref_count (blk bm i) = 0" if "i \<in> set ids2" for i
    using that disj t1 takesD(4) [OF t2 that] r by (metis disjoint_iff takesD(5))
  show ?thesis
    using t1 t2 disj old r unfolding takes_def
    by (auto intro: same_store_trans)
qed

lemma takes_Cons: "takes bm [i] bm1 \<Longrightarrow> takes bm1 ids bm2 \<Longrightarrow> takes bm (i # ids) bm2"
  using takes_append [of bm "[i]" bm1 ids bm2] by simp

lemma takes_oracle [simp]:
  "takes (bm\<lparr>oracle_pos := p\<rparr>) ids bm' = takes bm ids bm'"
  "takes (bm\<lparr>rr_counter := c\<rparr>) ids bm' = takes bm ids bm'"
  by (simp_all add: takes_def same_store_def)

subsection \<open>One block from a free list\<close>

lemma bm_inv_take_block:
  assumes inv: "bm_inv bm" and i: "in_range bm i" and ref0: "ref_count (blk bm i) = 0"
    and store: "same_store bm bm'" "length (blocks bm') = length (blocks bm)"
    and sh: "shards_ok bm'"
    and fr: "\<And>j. in_range bm j \<Longrightarrow> is_free bm' j \<longleftrightarrow> is_free bm j \<and> j \<noteq> i"
    and bi: "blk bm' i = (blk bm i)\<lparr>ref_count := 1, num_filled_slots := 0, content_hash := 0,
        cache_resident := False\<rparr>"
    and bj: "\<And>j. in_range bm j \<Longrightarrow> j \<noteq> i \<Longrightarrow> blk bm' j = blk bm j"
    and pd: "distinct (map fst (prefix_cache bm'))"
    and pc: "\<And>h j. map_of (prefix_cache bm') h = Some j \<longleftrightarrow> map_of (prefix_cache bm) h = Some j \<and> j \<noteq> i"
    and dat: "block_tokens bm' = (block_tokens bm)(i := None)"
      "block_hybrid_ssm_snapshots bm' = (block_hybrid_ssm_snapshots bm)(i := None)"
  shows "takes bm [i] bm'"
proof -
  note r = same_store_range [OF store(1)]
  have dims: "num_blocks bm' = num_blocks bm" "block_size bm' = block_size bm"
    using store(1) by (simp_all add: same_store_def)
  have "prefix_ok bm'"
    using inv bj pd by (auto simp: prefix_ok_def bm_inv_def pc r dat)
  moreover have "block_ok bm' j" if j: "in_range bm j" for j
    using bm_inv_block_ok [OF inv j] j bi bj [OF j] fr [OF j] inv
    by (cases "j = i") (auto simp: block_ok_def pc dims bm_inv_def)
  ultimately have "bm_inv bm'"
    using inv sh store(2) by (simp add: bm_inv_def r dims)
  then show ?thesis using i ref0 bi bj store(1) by (simp add: takes_def dat)
qed

lemma pop_one_takes:
  assumes inv: "bm_inv bm" and s: "s < NUM_SHARDS" and ne: "shards bm ! s \<noteq> []"
  shows "takes bm [fst (pop_one s bm)] (snd (pop_one s bm))"
    and "shards (snd (pop_one s bm)) = (shards bm)[s := butlast (shards bm ! s)]"
    and "fst (pop_one s bm) \<ge> 0"
proof -
  define i where "i = last (shards bm ! s)"
  define bm0 where "bm0 = bm\<lparr>shards := (shards bm)[s := butlast (shards bm ! s)]\<rparr>"
  have lens: "length (shards bm) = NUM_SHARDS" by (rule bm_inv_lengths(2) [OF inv])
  have mem: "i \<in> set (shards bm ! s)" using ne by (simp add: i_def)
  have dist: "distinct (shards bm ! s)" and rng: "in_range bm i" and so: "shard_of i = s"
    using inv s mem by (auto simp: bm_inv_def shards_ok_def)
  have free: "is_free bm i" using mem so by (simp add: is_free_def)
  have set0: "set (butlast (shards bm ! s)) = set (shards bm ! s) - {i}"
    using dist ne by (simp add: set_butlast_distinct i_def)
  have fr0: "is_free bm0 j \<longleftrightarrow> is_free bm j \<and> j \<noteq> i" for j
    using s lens set0 so by (cases "shard_of j = s") (auto simp: is_free_def bm0_def)
  have sh0: "shards_ok bm0"
    using inv s lens set0 by (auto simp: bm_inv_def shards_ok_def bm0_def nth_list_update distinct_butlast)
  have len0: "length (blocks bm0) = nat (num_blocks bm0)"
    using bm_inv_lengths(1) [OF inv] by (simp add: bm0_def)
  have nores: "ref_count (blk bm i) = 0" "\<not> cache_resident (blk bm i)"
    using bm_inv_free_iff [OF inv rng] free by auto
  have eq: "pop_one s bm = (i, ResetAllocatedBlock i bm0)"
    by (simp add: pop_one_def i_def bm0_def Let_def)
  have upd: "blk (ResetAllocatedBlock i bm0) j = (if j = i then (blk bm i)\<lparr>ref_count := 1,
      num_filled_slots := 0, content_hash := 0, cache_resident := False\<rparr> else blk bm j)"
    if "in_range bm j" for j
    using that rng blk_upd_blk_len [OF len0]
    by (simp add: ResetAllocatedBlock_def) (simp add: bm0_def)
  have dat: "block_tokens bm i = None" "block_hybrid_ssm_snapshots bm i = None"
    using inv nores(2) by (auto simp: bm_inv_def prefix_ok_def)
  have pcn: "map_of (prefix_cache bm) h \<noteq> Some i" for h
    using bm_inv_prefixD [OF inv] nores(2) by blast
  show "takes bm [fst (pop_one s bm)] (snd (pop_one s bm))"
    unfolding eq fst_conv snd_conv
    using inv fr0 sh0 rng nores upd dat pcn
    by (intro bm_inv_take_block [OF inv])
      (auto simp: ResetAllocatedBlock_def bm0_def same_store_def bm_inv_def prefix_ok_def fun_upd_idem)
  show "shards (snd (pop_one s bm)) = (shards bm)[s := butlast (shards bm ! s)]"
    by (simp add: eq ResetAllocatedBlock_def bm0_def)
  show "fst (pop_one s bm) \<ge> 0" using rng by (simp add: eq in_range_def)
qed

subsection \<open>Several blocks from the free lists\<close>

lemma pop_blocks_takes:
  assumes "bm_inv bm" and "s < NUM_SHARDS" and "pop_blocks k s bm = (ids, bm')"
  shows "takes bm ids bm' \<and> length ids = min k (length (shards bm ! s)) \<and>
    length (shards bm' ! s) = length (shards bm ! s) - length ids \<and>
    (\<forall>t. t \<noteq> s \<longrightarrow> shards bm' ! t = shards bm ! t)"
  using assms
proof (induction k s bm arbitrary: ids bm' rule: pop_blocks.induct)
  case (1 s bm)
  then show ?case by (simp add: takes_Nil)
next
  case (2 k s bm)
  show ?case
  proof (cases "shards bm ! s = []")
    case True
    then show ?thesis using 2 by (simp add: takes_Nil)
  next
    case False
    define i where "i = fst (pop_one s bm)"
    define bm1 where "bm1 = snd (pop_one s bm)"
    obtain ids2 bm2 where rec: "pop_blocks k s bm1 = (ids2, bm2)" by fastforce
    have po: "pop_one s bm = (i, bm1)" by (simp add: i_def bm1_def)
    have t1: "takes bm [i] bm1" using pop_one_takes(1) [OF 2(2,3) False] by (simp add: i_def bm1_def)
    have sh1: "shards bm1 = (shards bm)[s := butlast (shards bm ! s)]"
      using pop_one_takes(2) [OF 2(2,3) False] by (simp add: bm1_def)
    have lens: "s < length (shards bm)" using bm_inv_lengths(2) [OF 2(2)] 2(3) by simp
    have res: "ids = i # ids2" "bm' = bm2" using 2(4) False rec by (simp_all add: po)
    have IH: "takes bm1 ids2 bm2 \<and> length ids2 = min k (length (shards bm1 ! s)) \<and>
        length (shards bm2 ! s) = length (shards bm1 ! s) - length ids2 \<and>
        (\<forall>t. t \<noteq> s \<longrightarrow> shards bm2 ! t = shards bm1 ! t)"
      using 2(1) [OF False po [symmetric] refl takesD(1) [OF t1] 2(3) rec] by simp
    obtain n where n: "length (shards bm ! s) = Suc n" using False by (cases "shards bm ! s") auto
    then have "length (shards bm1 ! s) = n" using lens by (simp add: sh1)
    then have "length ids = min (Suc k) (length (shards bm ! s))" using IH n by (simp add: res)
    then show ?thesis using IH t1 lens by (auto simp: res sh1 intro: takes_Cons)
  qed
qed

lemma drain_shards_takes:
  assumes "bm_inv bm" and "\<forall>s \<in> set ss. s < NUM_SHARDS" and "distinct ss"
    and "drain_shards need ss bm = (ids, bm')"
  shows "takes bm ids bm' \<and> length ids \<le> need \<and>
    (length ids < need \<longrightarrow> (\<forall>s \<in> set ss. shards bm' ! s = [])) \<and>
    (\<forall>t. t \<notin> set ss \<longrightarrow> shards bm' ! t = shards bm ! t)"
  using assms
proof (induction need ss bm arbitrary: ids bm' rule: drain_shards.induct)
  case (1 need bm)
  then show ?case by (simp add: takes_Nil)
next
  case (2 need s ss bm)
  obtain ids1 bm1 where p: "pop_blocks need s bm = (ids1, bm1)" by fastforce
  obtain ids2 bm2 where d: "drain_shards (need - length ids1) ss bm1 = (ids2, bm2)" by fastforce
  have res: "ids = ids1 @ ids2" "bm' = bm2" using 2(5) by (simp_all add: p d)
  have P: "takes bm ids1 bm1 \<and> length ids1 = min need (length (shards bm ! s)) \<and>
      length (shards bm1 ! s) = length (shards bm ! s) - length ids1 \<and>
      (\<forall>t. t \<noteq> s \<longrightarrow> shards bm1 ! t = shards bm ! t)"
    using 2(2,3) p by (intro pop_blocks_takes) auto
  then have "bm_inv bm1" using takesD(1) by blast
  then have D: "takes bm1 ids2 bm2 \<and> length ids2 \<le> need - length ids1 \<and>
      (length ids2 < need - length ids1 \<longrightarrow> (\<forall>s \<in> set ss. shards bm2 ! s = [])) \<and>
      (\<forall>t. t \<notin> set ss \<longrightarrow> shards bm2 ! t = shards bm1 ! t)"
    using 2(3,4) d p by (intro 2(1)) auto
  have "shards bm2 ! s = []" if "length ids1 + length ids2 < need"
  proof -
    have "length (shards bm1 ! s) = 0" using P that by simp
    moreover have "shards bm2 ! s = shards bm1 ! s" using D 2(4) by simp
    ultimately show ?thesis by simp
  qed
  then show ?case using P D by (auto simp: res intro: takes_append)
qed

lemma inj_shard_order: "inj_on (\<lambda>i. (start + i) mod NUM_SHARDS) {0..<NUM_SHARDS}"
proof -
  have "i = j" if "i \<le> j" "j < NUM_SHARDS" "(start + j) mod NUM_SHARDS = (start + i) mod NUM_SHARDS" for i j
  proof -
    have "NUM_SHARDS dvd j - i" using that mod_eq_dvd_iff_nat [of "start + i" "start + j" NUM_SHARDS] by simp
    then show ?thesis using that(1,2) by (auto dest!: dvd_imp_le)
  qed
  then show ?thesis by (intro inj_onI) (metis atLeastLessThan_iff nle_le)
qed

lemma set_shard_order: "set (shard_order start) = {0..<NUM_SHARDS}"
proof -
  have "(\<lambda>i. (start + i) mod NUM_SHARDS) ` {0..<NUM_SHARDS} = {0..<NUM_SHARDS}"
    using inj_shard_order by (intro card_subset_eq) (auto simp: card_image)
  then show ?thesis by (simp add: shard_order_def)
qed

lemma distinct_shard_order: "distinct (shard_order start)"
proof -
  have "card (set (shard_order start)) = length (shard_order start)"
    unfolding set_shard_order by (simp add: shard_order_def)
  then show ?thesis by (rule card_distinct)
qed

lemma no_free_if_shards_empty:
  "\<forall>s < NUM_SHARDS. shards bm ! s = [] \<Longrightarrow> \<not> is_free bm i"
  by (simp add: is_free_def)

subsection \<open>Evicting an idle cached block\<close>

lemma idle_entry_lookup:
  assumes "bm_inv bm" and "e \<in> set (prefix_cache bm)"
  shows "idle_entry bm e \<longleftrightarrow> ref_count (blk bm (snd e)) = 0"
proof -
  obtain h i where e: "e = (h, i)" by fastforce
  then have "map_of (prefix_cache bm) h = Some i"
    using assms by (simp add: bm_inv_def prefix_ok_def map_of_eq_Some_iff)
  then show ?thesis using bm_inv_prefixD [OF assms(1)] by (auto simp: idle_entry_def e)
qed

lemma TryEvict_takes:
  assumes inv: "bm_inv bm"
    and ev: "TryEvictIdlePrefixBlockForAllocation bm = (i, bm')"
  shows "if i < 0 then bm' = bm \<and> (\<forall>j. in_range bm j \<and> cache_resident (blk bm j) \<longrightarrow> ref_count (blk bm j) \<noteq> 0)
         else takes bm [i] bm' \<and> shards bm' = shards bm"
proof (cases "find (idle_entry bm) (prefix_cache bm)")
  case None
  have "ref_count (blk bm j) \<noteq> 0" if "in_range bm j" "cache_resident (blk bm j)" for j
  proof -
    have "(content_hash (blk bm j), j) \<in> set (prefix_cache bm)"
      using bm_inv_residentD [OF inv that] by (rule map_of_SomeD)
    moreover from None this have "\<not> idle_entry bm (content_hash (blk bm j), j)"
      by (simp add: find_None_iff)
    ultimately show ?thesis by (simp add: idle_entry_lookup [OF inv])
  qed
  then show ?thesis using ev None by (auto simp: TryEvictIdlePrefixBlockForAllocation_def)
next
  case (Some e)
  obtain h k where e: "e = (h, k)" by fastforce
  have mem: "(h, k) \<in> set (prefix_cache bm)" and idle: "idle_entry bm (h, k)"
    using Some e by (auto simp: find_Some_iff)
  have k: "in_range bm k" "cache_resident (blk bm k)" "ref_count (blk bm k) = 0" "content_hash (blk bm k) = h"
    using idle by (auto simp: idle_entry_def)
  define bm1 where "bm1 = upd_blk k
    (\<lambda>b. b\<lparr>content_hash := 0, cache_resident := False, num_filled_slots := 0\<rparr>) bm"
  define bm3 where "bm3 = (erase_block_data k bm1)\<lparr>prefix_cache := AList.delete h (prefix_cache bm)\<rparr>"
  have eq: "i = k" "bm' = ResetAllocatedBlock k bm3"
    using ev Some e by (auto simp: TryEvictIdlePrefixBlockForAllocation_def Let_def bm1_def bm3_def)
  have len: "length (blocks bm) = nat (num_blocks bm)" "length (blocks bm3) = nat (num_blocks bm3)"
    using bm_inv_lengths(1) [OF inv] by (simp_all add: bm3_def bm1_def)
  have upd: "blk bm' j = (if j = k then (blk bm k)\<lparr>ref_count := 1, num_filled_slots := 0,
      content_hash := 0, cache_resident := False\<rparr> else blk bm j)" if "in_range bm j" for j
    using that k(1) blk_upd_blk_len [OF len(2)] blk_upd_blk_len [OF len(1)]
    by (simp add: eq ResetAllocatedBlock_def) (simp add: bm3_def bm1_def)
  have same: "prefix_cache bm' = AList.delete h (prefix_cache bm)" "shards bm' = shards bm"
    "is_free bm' = is_free bm" "shards_ok bm' = shards_ok bm" "same_store bm bm'"
    "length (blocks bm') = length (blocks bm)"
    "block_tokens bm' = (block_tokens bm)(k := None)"
    "block_hybrid_ssm_snapshots bm' = (block_hybrid_ssm_snapshots bm)(k := None)"
    by (auto simp: eq ResetAllocatedBlock_def bm3_def bm1_def same_store_def erase_block_data_def
        is_free_def shards_ok_def in_range_def fun_eq_iff)
  have only: "map_of (prefix_cache bm) h' = Some k \<longleftrightarrow> h' = h" for h'
    using bm_inv_prefixD [OF inv] bm_inv_residentD [OF inv k(1,2)] k(4) by blast
  have own: "map_of (prefix_cache bm) h = Some j \<longleftrightarrow> j = k" for j using only [of h] by auto
  have nfree: "\<not> is_free bm k" using bm_inv_free_iff [OF inv k(1)] k(2) by simp
  have "takes bm [k] bm'"
    using inv k nfree by (intro bm_inv_take_block [OF inv])
      (auto simp: same upd bm_inv_def prefix_ok_def only own)
  then show ?thesis using k(1) same(2) by (simp add: eq(1) in_range_def)
qed

lemma evict_blocks_takes:
  assumes "bm_inv bm" and "evict_blocks k bm = (ids, bm')"
  shows "takes bm ids bm' \<and> length ids \<le> k \<and> shards bm' = shards bm \<and>
    (length ids < k \<longrightarrow> (\<forall>j. in_range bm j \<and> cache_resident (blk bm' j) \<longrightarrow> ref_count (blk bm' j) \<noteq> 0))"
  using assms
proof (induction k bm arbitrary: ids bm' rule: evict_blocks.induct)
  case (1 bm)
  then show ?case by (simp add: takes_Nil)
next
  case (2 k bm)
  obtain i bm1 where ev: "TryEvictIdlePrefixBlockForAllocation bm = (i, bm1)" by fastforce
  note T = TryEvict_takes [OF 2(2) ev]
  show ?case
  proof (cases "i < 0")
    case True
    then show ?thesis using 2(2,3) T by (auto simp: ev takes_Nil)
  next
    case False
    obtain ids2 bm2 where rec: "evict_blocks k bm1 = (ids2, bm2)" by fastforce
    have t1: "takes bm [i] bm1" "shards bm1 = shards bm" using T False by auto
    have r: "in_range bm1 = in_range bm" by (rule same_store_range [OF takesD(2) [OF t1(1)]])
    have res: "ids = i # ids2" "bm' = bm2" using 2(3) False rec by (simp_all add: ev)
    show ?thesis
      using 2(1) [OF ev [symmetric] refl False takesD(1) [OF t1(1)] rec] t1
      by (auto simp: res r intro: takes_Cons)
  qed
qed

section \<open>Allocate and AllocateSingle\<close>

definition available :: "block_manager \<Rightarrow> int set" where
  "available bm = {i. in_range bm i \<and> ref_count (blk bm i) = 0}"

lemma finite_available [simp]: "finite (available bm)"
  by (rule finite_subset [of _ "{0..<num_blocks bm}"]) (auto simp: available_def in_range_def)

lemma takes_available: "takes bm ids bm' \<Longrightarrow> set ids \<subseteq> available bm"
  by (auto simp: takes_def available_def)

lemma takes_card: "takes bm ids bm' \<Longrightarrow> length ids \<le> card (available bm)"
  using takes_available [of bm ids bm'] card_mono [of "available bm" "set ids"]
  by (simp add: takes_def distinct_card)

lemma takes_all:
  assumes t: "takes bm ids bm'" and none: "\<forall>j. in_range bm j \<longrightarrow> ref_count (blk bm' j) \<noteq> 0"
  shows "set ids = available bm"
proof -
  have "j \<in> set ids" if "in_range bm j" "ref_count (blk bm j) = 0" for j
    using takesD(5) [OF t] none that by metis
  then show ?thesis using takes_available [OF t] by (auto simp: available_def)
qed

lemma AllocateSingle_takes:
  assumes inv: "bm_inv bm" and al: "AllocateSingle bm = (i, bm')"
  shows "if available bm = {} then i = -1 \<and> takes bm [] bm' else i \<ge> 0 \<and> takes bm [i] bm'"
proof -
  define bm0 where "bm0 = bm\<lparr>rr_counter := rr_counter bm + 1, oracle_pos := Suc (oracle_pos bm)\<rparr>"
  have inv0: "bm_inv bm0" using inv by (simp add: bm0_def)
  have tk: "takes bm0 ids bm'' = takes bm ids bm''" for ids bm'' by (simp add: bm0_def)
  have av: "available bm0 = available bm" by (simp add: available_def bm0_def)
  show ?thesis
  proof (cases "\<exists>s < NUM_SHARDS. shards bm0 ! s \<noteq> [] \<and> (i, bm') = pop_one s bm0")
    case True
    then obtain s where s: "s < NUM_SHARDS" "shards bm0 ! s \<noteq> []" "(i, bm') = pop_one s bm0" by blast
    then have "takes bm [i] bm'" "i \<ge> 0"
      using pop_one_takes(1,3) [OF inv0 s(1,2)] tk s(3) [symmetric] by auto
    moreover then have "available bm \<noteq> {}" using takes_available by fastforce
    ultimately show ?thesis by simp
  next
    case False
    define busy where "busy = oracle_busy bm (oracle_pos bm)"
    define ord where "ord = shard_order (unat (rr_counter bm) mod NUM_SHARDS)"
    note scan = AllocateSingle_def [of bm, folded bm0_def, unfolded Let_def,
        folded bm0_def busy_def ord_def, unfolded al]
    have pick: "find P ss = Some s \<Longrightarrow> s \<in> set ss \<and> P s" for P ss and s :: nat
      by (metis find_Some_iff nth_mem)
    have f1: "find (\<lambda>s. \<not> busy s \<and> shards bm0 ! s \<noteq> []) ord = None"
    proof (rule ccontr)
      assume "\<not> ?thesis"
      then obtain s where s: "find (\<lambda>s. \<not> busy s \<and> shards bm0 ! s \<noteq> []) ord = Some s" by blast
      then show False using False scan pick [OF s] set_shard_order by (auto simp: ord_def)
    qed
    have f2: "find (\<lambda>s. shards bm0 ! s \<noteq> []) [0..<NUM_SHARDS] = None"
    proof (rule ccontr)
      assume "\<not> ?thesis"
      then obtain s where s: "find (\<lambda>s. shards bm0 ! s \<noteq> []) [0..<NUM_SHARDS] = Some s" by blast
      then show False using False scan f1 pick [OF s] by auto
    qed
    have emp: "\<forall>s < NUM_SHARDS. shards bm0 ! s = []" using f2 by (simp add: find_None_iff)
    have ev: "TryEvictIdlePrefixBlockForAllocation bm0 = (i, bm')" using scan f1 f2 by simp
    note T = TryEvict_takes [OF inv0 ev]
    have nofree: "\<not> is_free bm0 j" for j using no_free_if_shards_empty [OF emp] .
    show ?thesis
    proof (cases "i < 0")
      case True
      then have "available bm0 = {}"
        using T nofree bm_inv_free_iff [OF inv0] by (auto simp: available_def)
      moreover have "i = -1"
        using ev True TryEvict_takes [OF inv0 ev]
        by (auto simp: TryEvictIdlePrefixBlockForAllocation_def Let_def idle_entry_def in_range_def find_Some_iff
            split: option.splits)
      ultimately show ?thesis using T True av takes_Nil [OF inv0, unfolded tk] by simp
    next
      case False
      then show ?thesis using T tk takes_available [of bm "[i]" bm'] by auto
    qed
  qed
qed

text \<open>
  A failed batch: everything obtained so far is released again, so no reference count changes
  (cached content that was evicted on the way is gone).
\<close>

definition unchanged_refs :: "block_manager \<Rightarrow> block_manager \<Rightarrow> bool" where
  "unchanged_refs bm bm' \<longleftrightarrow>
     bm_inv bm' \<and> same_store bm bm' \<and>
     (\<forall>j. in_range bm j \<longrightarrow> ref_count (blk bm' j) = ref_count (blk bm j))"

lemma takes_Free_unchanged:
  assumes inv: "bm_inv bm" and t: "takes bm ids bm'"
  shows "unchanged_refs bm (Free ids bm')"
proof -
  have r: "in_range bm' = in_range bm" by (rule same_store_range [OF takesD(2) [OF t]])
  have "ref_count (blk (Free ids bm') j) = ref_count (blk bm j)" if "in_range bm j" for j
    using that Free_ref_count [OF takesD(1) [OF t]] takes_ref_count [OF t that] bm_inv_ref_nonneg [OF inv that]
    by (simp add: r)
  then show ?thesis using Free_inv [OF takesD(1) [OF t]] takesD(2) [OF t]
    by (simp add: unchanged_refs_def same_store_def)
qed

lemma takes_Nil_unchanged: "takes bm [] bm' \<Longrightarrow> unchanged_refs bm bm'"
  by (simp add: takes_def unchanged_refs_def)

lemma Allocate_batch:
  assumes inv: "bm_inv bm" and n: "2 \<le> n" and al: "Allocate n bm = (ids, bm')"
  shows "if n \<le> int (card (available bm)) then int (length ids) = n \<and> takes bm ids bm'
         else ids = [] \<and> unchanged_refs bm bm'"
proof -
  define bm0 where "bm0 = bm\<lparr>oracle_pos := Suc (oracle_pos bm)\<rparr>"
  define busy where "busy = oracle_busy bm (oracle_pos bm)"
  define ord where "ord = shard_order (oracle_rand bm (oracle_pos bm) mod NUM_SHARDS)"
  have inv0: "bm_inv bm0" using inv by (simp add: bm0_def)
  have tk: "takes bm0 ids bm'' = takes bm ids bm''" for ids bm'' by (simp add: bm0_def)
  have ordlt: "s < NUM_SHARDS" if "s \<in> set ord" for s using that set_shard_order by (simp add: ord_def)
  show ?thesis
  proof (cases "find (\<lambda>s. \<not> busy s \<and> int (length (shards bm0 ! s)) \<ge> n) ord")
    case (Some s)
    then have s: "s < NUM_SHARDS" "int (length (shards bm0 ! s)) \<ge> n"
      by (metis find_Some_iff nth_mem ordlt)+
    have "pop_blocks (nat n) s bm0 = (ids, bm')"
      using al n Some by (simp add: Allocate_def Let_def bm0_def [symmetric] busy_def [symmetric] ord_def [symmetric])
    from pop_blocks_takes [OF inv0 s(1) this] s(2) n
    have t: "takes bm ids bm'" "int (length ids) = n" by (auto simp: tk)
    then show ?thesis using takes_card [OF t(1)] by simp
  next
    case None
    obtain ids1 bm1 where d: "drain_shards (nat n) ord bm0 = (ids1, bm1)" by fastforce
    obtain ids2 bm2 where e: "evict_blocks (nat n - length ids1) bm1 = (ids2, bm2)" by fastforce
    have res: "(ids, bm') = (if int (length (ids1 @ ids2)) < n then ([], Free (ids1 @ ids2) bm2) else (ids1 @ ids2, bm2))"
      using al n None d e
      by (simp add: Allocate_def Let_def bm0_def [symmetric] busy_def [symmetric] ord_def [symmetric])
    have so: "set ord = {0..<NUM_SHARDS}" "distinct ord"
      using set_shard_order distinct_shard_order by (simp_all add: ord_def)
    have "\<forall>s \<in> set ord. s < NUM_SHARDS" by (simp add: so)
    note X = drain_shards_takes [OF inv0 this so(2) d]
    have D: "takes bm ids1 bm1" "length ids1 \<le> nat n"
      using X by (simp_all add: tk)
    have D3: "\<forall>s < NUM_SHARDS. shards bm1 ! s = []" if "length ids1 < nat n"
      using X that by (simp add: so)
    note E = evict_blocks_takes [OF takesD(1) [OF D(1)] e]
    have t: "takes bm (ids1 @ ids2) bm2" using takes_append [OF D(1)] E by blast
    show ?thesis
    proof (cases "int (length (ids1 @ ids2)) < n")
      case False
      moreover have "length ids2 \<le> nat n - length ids1" using E by simp
      ultimately have "int (length (ids1 @ ids2)) = n" using D(2) n by simp
      then show ?thesis using res False t takes_card [OF t] by simp
    next
      case True
      then have short: "length ids1 < nat n" "length ids2 < nat n - length ids1" using n by auto
      have r: "in_range bm2 = in_range bm" "in_range bm1 = in_range bm"
        using takesD(2) [OF t] takesD(2) [OF D(1)] by (simp_all add: same_store_range)
      have "\<not> is_free bm2 j" for j
        using D3 [OF short(1)] E by (intro no_free_if_shards_empty) simp
      then have "ref_count (blk bm2 j) \<noteq> 0" if "in_range bm j" for j
        using E short(2) bm_inv_free_iff [OF takesD(1) [OF t]] that by (auto simp: r)
      then have "set (ids1 @ ids2) = available bm" by (intro takes_all [OF t]) blast
      then have "card (available bm) = length (ids1 @ ids2)"
        using takesD(3) [OF t] distinct_card by metis
      then show ?thesis using res True takes_Free_unchanged [OF inv t] by simp
    qed
  qed
qed

lemma Allocate_spec:
  assumes inv: "bm_inv bm" and n: "0 < n" and al: "Allocate n bm = (ids, bm')"
  shows "if n \<le> int (card (available bm)) then int (length ids) = n \<and> takes bm ids bm'
         else ids = [] \<and> unchanged_refs bm bm'"
proof (cases "n = 1")
  case True
  obtain i bm1 where s: "AllocateSingle bm = (i, bm1)" by fastforce
  have res: "(ids, bm') = (if i \<ge> 0 then ([i], bm1) else ([], bm1))" using al True by (simp add: Allocate_def s)
  note S = AllocateSingle_takes [OF inv s]
  show ?thesis
  proof (cases "available bm = {}")
    case True
    then show ?thesis using res S \<open>n = 1\<close> takes_Nil_unchanged by auto
  next
    case False
    then have "0 < card (available bm)" by (simp add: card_gt_0_iff)
    then show ?thesis using res S False \<open>n = 1\<close> by simp
  qed
next
  case False
  then show ?thesis using Allocate_batch [OF inv _ al] n by simp
qed

lemma Allocate_inv:
  assumes "bm_inv bm"
  shows "bm_inv (snd (Allocate n bm))" "same_store bm (snd (Allocate n bm))"
proof -
  obtain ids bm' where al: "Allocate n bm = (ids, bm')" by fastforce
  show "bm_inv (snd (Allocate n bm))" "same_store bm (snd (Allocate n bm))"
  proof -
    consider "n \<le> 0" | "0 < n" by linarith
    then have "bm_inv bm' \<and> same_store bm bm'"
    proof cases
      case 1
      then show ?thesis using al assms by (auto simp: Allocate_def)
    next
      case 2
      then show ?thesis using Allocate_spec [OF assms 2 al]
        by (auto simp: takes_def unchanged_refs_def split: if_splits)
    qed
    then show "bm_inv (snd (Allocate n bm))" "same_store bm (snd (Allocate n bm))" by (simp_all add: al)
  qed
qed

section \<open>Counting\<close>

lemma GetFreeBlockCount_card:
  assumes inv: "bm_inv bm"
  shows "GetFreeBlockCount bm = int (card {i. is_free bm i})"
proof -
  have sh: "length (shards bm) = NUM_SHARDS" "\<And>s. s < NUM_SHARDS \<Longrightarrow> distinct (shards bm ! s)"
    "\<And>s i. s < NUM_SHARDS \<Longrightarrow> i \<in> set (shards bm ! s) \<Longrightarrow> shard_of i = s"
    using inv by (auto simp: bm_inv_def shards_ok_def)
  have "{i. is_free bm i} = (\<Union>s \<in> {0..<NUM_SHARDS}. set (shards bm ! s))"
    using shard_of_less sh(3) by (fastforce simp: is_free_def)
  then have "card {i. is_free bm i} = (\<Sum>s \<in> {0..<NUM_SHARDS}. card (set (shards bm ! s)))"
    using sh(3) by (simp, intro card_UN_disjoint) (simp, simp, metis atLeastLessThan_iff disjoint_iff)
  also have "\<dots> = (\<Sum>s \<in> {0..<NUM_SHARDS}. length (shards bm ! s))"
    using sh(2) by (intro sum.cong) (auto simp: distinct_card)
  also have "\<dots> = sum_list (map length (shards bm))"
    by (simp add: sum_list_sum_nth sh(1))
  finally show ?thesis by (simp add: GetFreeBlockCount_def)
qed

lemma card_range: "bm_inv bm \<Longrightarrow> {i. in_range bm i} = {0..<num_blocks bm}"
  by (auto simp: in_range_def)

lemma GetUsedBlockCount_card:
  assumes inv: "bm_inv bm"
  shows "GetUsedBlockCount bm =
    int (card {i. in_range bm i \<and> (ref_count (blk bm i) > 0 \<or> cache_resident (blk bm i))})"
proof -
  let ?used = "{i. in_range bm i \<and> (ref_count (blk bm i) > 0 \<or> cache_resident (blk bm i))}"
  have split: "{i. in_range bm i} = ?used \<union> {i. is_free bm i}" "?used \<inter> {i. is_free bm i} = {}"
    using bm_inv_free_iff [OF inv] bm_inv_free_range [OF inv] bm_inv_ref_nonneg [OF inv]
    by (auto simp: order_less_le)
  have fin: "finite {i. in_range bm i}" by (simp add: card_range [OF inv])
  have "card {i. in_range bm i} = card ?used + card {i. is_free bm i}"
    using fin split by (metis card_Un_disjoint finite_Un)
  moreover have "int (card {i. in_range bm i}) = num_blocks bm"
    using inv by (simp add: card_range [OF inv] bm_inv_def)
  ultimately show ?thesis by (simp add: GetUsedBlockCount_def GetFreeBlockCount_card [OF inv])
qed

lemma GetFreeBlockCount_le_available:
  assumes "bm_inv bm"
  shows "GetFreeBlockCount bm \<le> int (card (available bm))"
  using bm_inv_free_iff [OF assms] bm_inv_free_range [OF assms]
  by (auto simp: GetFreeBlockCount_card [OF assms] available_def intro!: card_mono finite_available [unfolded available_def])

section \<open>Sharing and copy on write\<close>

lemma add_ref_inv:
  assumes inv: "bm_inv bm" and i: "in_range bm i"
    and live: "ref_count (blk bm i) > 0 \<or> cache_resident (blk bm i)"
  shows "bm_inv (upd_blk i (\<lambda>b. b\<lparr>ref_count := ref_count b + 1\<rparr>) bm)"
  using bm_inv_block_ok [OF inv i] live by (intro bm_inv_upd_blk inv i) (auto simp: block_ok_def)

lemma Fork_inv: "bm_inv bm \<Longrightarrow> bm_inv (snd (Fork i bm))"
  by (auto simp: Fork_def intro: add_ref_inv)

lemma Fork_spec:
  assumes "bm_inv bm" and "in_range bm j"
  shows "fst (Fork i bm) = (if in_range bm i \<and> ref_count (blk bm i) > 0 then i else -1)"
    and "ref_count (blk (snd (Fork i bm)) j) =
      ref_count (blk bm j) + (if j = i \<and> ref_count (blk bm i) > 0 then 1 else 0)"
  using assms by (auto simp: Fork_def blk_upd_blk)

lemma SetFilledSlots_inv: "bm_inv bm \<Longrightarrow> bm_inv (SetFilledSlots i n bm)"
  using bm_inv_block_ok [of bm i]
  by (auto simp: SetFilledSlots_def block_ok_def bm_inv_def [of bm] intro!: bm_inv_upd_blk)

lemma CopyOnWrite_shared:
  assumes inv: "bm_inv bm" and sh: "IsShared bm i" and av: "available bm \<noteq> {}"
    and cow: "CopyOnWrite i cb (bm, d) = (k, bm', d')"
  shows "bm_inv bm' \<and> k \<noteq> i \<and> k \<in> available bm \<and> d' = cb i k d \<and>
    ref_count (blk bm' k) = 1 \<and> ref_count (blk bm' i) = ref_count (blk bm i) - 1 \<and>
    num_filled_slots (blk bm' k) = num_filled_slots (blk bm i) \<and>
    (\<forall>j. in_range bm j \<and> j \<noteq> i \<and> j \<noteq> k \<longrightarrow> blk bm' j = blk bm j)"
proof -
  have i: "in_range bm i" "ref_count (blk bm i) > 1" using sh by (auto simp: IsShared_def)
  obtain n bm1 where a: "AllocateSingle bm = (n, bm1)" by fastforce
  have t: "n \<ge> 0" "takes bm [n] bm1" using AllocateSingle_takes [OF inv a] av by auto
  have inv1: "bm_inv bm1" by (rule takesD(1) [OF t(2)])
  have r: "in_range bm1 = in_range bm" by (rule same_store_range [OF takesD(2) [OF t(2)]])
  have n: "in_range bm n" "ref_count (blk bm n) = 0" "ref_count (blk bm1 n) = 1"
    using takesD(4) [OF t(2)] by auto
  have ni: "n \<noteq> i" using n i by auto
  have same: "blk bm1 j = blk bm j" if "in_range bm j" "j \<noteq> n" for j
    using takesD(5) [OF t(2) that(1)] that(2) by simp
  define bm2 where "bm2 = upd_blk i (\<lambda>b. b\<lparr>ref_count := ref_count b - 1\<rparr>) bm1"
  define bm3 where "bm3 = upd_blk n (\<lambda>b. b\<lparr>num_filled_slots := num_filled_slots (blk bm2 i)\<rparr>) bm2"
  have res: "k = n" "bm' = bm3" "d' = cb i n d"
    using cow i a t(1) by (auto simp: CopyOnWrite_def Let_def bm2_def bm3_def)
  have inv2: "bm_inv bm2" unfolding bm2_def
    using bm_inv_block_ok [OF inv1, of i] i same [OF i(1)] ni
    by (intro bm_inv_upd_blk inv1) (auto simp: r block_ok_def)
  have r2: "in_range bm2 = in_range bm" by (simp add: bm2_def r)
  have b2: "blk bm2 j = (if j = i then (blk bm i)\<lparr>ref_count := ref_count (blk bm i) - 1\<rparr> else blk bm1 j)"
    if "in_range bm j" for j
    using that i same [OF i(1)] ni by (simp add: bm2_def blk_upd_blk [OF inv1] r)
  have inv3: "bm_inv bm3" unfolding bm3_def
    using bm_inv_block_ok [OF inv2, of n] bm_inv_block_ok [OF inv2, of i] n i
    by (intro bm_inv_upd_blk inv2) (auto simp: r2 block_ok_def)
  have b3: "blk bm3 j = (if j = n then (blk bm1 n)\<lparr>num_filled_slots := num_filled_slots (blk bm i)\<rparr> else blk bm2 j)"
    if "in_range bm j" for j
    using that n i ni b2 by (simp add: bm3_def blk_upd_blk [OF inv2] r2)
  show ?thesis using inv3 ni n i b3 b2 same by (auto simp: res available_def)
qed

lemma CopyOnWrite_unshared:
  "in_range bm i \<Longrightarrow> \<not> IsShared bm i \<Longrightarrow> CopyOnWrite i cb (bm, d) = (i, bm, d)"
  by (auto simp: CopyOnWrite_def IsShared_def)

lemma CopyOnWrite_oom:
  assumes inv: "bm_inv bm" and sh: "IsShared bm i" and av: "available bm = {}"
    and cow: "CopyOnWrite i cb (bm, d) = (k, bm', d')"
  shows "k = -1 \<and> d' = d \<and> unchanged_refs bm bm'"
proof -
  obtain n bm1 where a: "AllocateSingle bm = (n, bm1)" by fastforce
  then show ?thesis using AllocateSingle_takes [OF inv a] av cow sh takes_Nil_unchanged
    by (auto simp: CopyOnWrite_def IsShared_def)
qed

section \<open>The constructor\<close>

lemma BlockManager_blk:
  assumes "in_range (BlockManager n bs rnd busy) i"
  shows "blk (BlockManager n bs rnd busy) i =
    \<lparr>pb_id = i, ref_count = 0, num_filled_slots = 0, content_hash = 0, cache_resident = False\<rparr>"
  using assms by (simp add: BlockManager_def blk_def in_range_def nth_map)

lemma BlockManager_free:
  "in_range (BlockManager n bs rnd busy) i \<Longrightarrow> is_free (BlockManager n bs rnd busy) i"
  using shard_of_less [of i] by (auto simp: BlockManager_def is_free_def in_range_def simp del: shard_of_less)

lemma BlockManager_in_range: "in_range (BlockManager n bs rnd busy) i \<longleftrightarrow> 0 \<le> i \<and> i < n"
  by (simp add: in_range_def BlockManager_def)

lemma BlockManager_unreferenced:
  "{i. in_range (BlockManager n bs rnd busy) i \<and> ref_count (blk (BlockManager n bs rnd busy) i) = 0} = {0..<n}"
  using BlockManager_blk [of n bs rnd busy] by (auto simp: BlockManager_in_range)

lemma BlockManager_inv:
  assumes "0 \<le> n" and "0 \<le> bs"
  shows "bm_inv (BlockManager n bs rnd busy)"
proof -
  let ?bm = "BlockManager n bs rnd busy"
  have "shards_ok ?bm" by (auto simp: shards_ok_def BlockManager_def in_range_def)
  moreover have "prefix_ok ?bm" by (simp add: prefix_ok_def BlockManager_def)
  moreover have "block_ok ?bm i" if "in_range ?bm i" for i
    using BlockManager_blk [OF that] BlockManager_free [OF that] assms by (simp add: block_ok_def)
      (simp add: BlockManager_def)
  ultimately show ?thesis using assms by (simp add: bm_inv_def BlockManager_def)
qed

section \<open>The block manager is a block pool\<close>

definition bm_pool_refs :: "block_manager \<Rightarrow> int \<Rightarrow> int" where
  "bm_pool_refs bm i = ref_count (blk bm i)"

lemma Allocate_none:
  assumes inv: "bm_inv bm" and "n \<le> 0 \<or> int (card (available bm)) < n"
  shows "fst (Allocate n bm) = []" "in_range bm i \<Longrightarrow> ref_count (blk (snd (Allocate n bm)) i) = ref_count (blk bm i)"
  using assms Allocate_spec [OF inv, of n "fst (Allocate n bm)" "snd (Allocate n bm)"]
  by (cases "n \<le> 0"; simp add: Allocate_def [of n] unchanged_refs_def)+

interpretation bm_pool: block_pool bm_inv Allocate Free "\<lambda>bm. {i. in_range bm i}" bm_pool_refs
proof unfold_locales
  fix bm n assume inv: "bm_inv bm"
  show "finite {i. in_range bm i}" by (simp add: card_range [OF inv])
  show "bm_inv (snd (Allocate n bm))" by (rule Allocate_inv(1) [OF inv])
  show "{i. in_range (snd (Allocate n bm)) i} = {i. in_range bm i}"
    using same_store_range [OF Allocate_inv(2) [OF inv, of n]] by simp
  have av: "{i \<in> {i. in_range bm i}. bm_pool_refs bm i = 0} = available bm"
    by (auto simp: available_def bm_pool_refs_def)
  show "fst (Allocate n bm) = [] \<and>
      (\<forall>i \<in> {i. in_range bm i}. bm_pool_refs (snd (Allocate n bm)) i = bm_pool_refs bm i)"
    if "n \<le> 0 \<or> int (card {i \<in> {i. in_range bm i}. bm_pool_refs bm i = 0}) < n"
    using Allocate_none [OF inv that [unfolded av]] by (simp add: bm_pool_refs_def)
  show "int (length (fst (Allocate n bm))) = n \<and> distinct (fst (Allocate n bm)) \<and>
      set (fst (Allocate n bm)) \<subseteq> {i \<in> {i. in_range bm i}. bm_pool_refs bm i = 0} \<and>
      (\<forall>i \<in> {i. in_range bm i}. bm_pool_refs (snd (Allocate n bm)) i =
         (if i \<in> set (fst (Allocate n bm)) then 1 else bm_pool_refs bm i))"
    if "0 < n" "n \<le> int (card {i \<in> {i. in_range bm i}. bm_pool_refs bm i = 0})"
  proof -
    have t: "takes bm (fst (Allocate n bm)) (snd (Allocate n bm))" "int (length (fst (Allocate n bm))) = n"
      using Allocate_spec [OF inv that(1), of "fst (Allocate n bm)" "snd (Allocate n bm)"] that(2) av by auto
    then show ?thesis using takes_available [OF t(1)] takes_ref_count [OF t(1)]
      by (auto simp: av takes_def bm_pool_refs_def)
  qed
next
  fix bm ids i assume inv: "bm_inv bm"
  show "0 \<le> bm_pool_refs bm i" if "i \<in> {i. in_range bm i}"
    using bm_inv_ref_nonneg [OF inv] that by (simp add: bm_pool_refs_def)
  show "bm_inv (Free ids bm)" by (rule Free_inv [OF inv])
  show "{i. in_range (Free ids bm) i} = {i. in_range bm i}" by (simp add: in_range_def)
  show "bm_pool_refs (Free ids bm) i = max 0 (bm_pool_refs bm i - int (count_list ids i))"
    if "i \<in> {i. in_range bm i}"
    using Free_ref_count [OF inv] that by (simp add: bm_pool_refs_def)
qed

end
