(* ===== verification/Prefix_Cache_Laws.thy ===== *)
theory Prefix_Cache_Laws
  imports Block_Manager_Laws
begin

text \<open>
  The prefix cache of the block manager: registering, unregistering and looking up blocks keeps
  the invariant, lookups verify the stored tokens, and the longest-prefix search acquires exactly
  the blocks it reports.
\<close>

section \<open>Residency\<close>

lemma Release_blk:
  assumes inv: "bm_inv bm" and i: "in_range bm i" and res: "cache_resident (blk bm i)" and j: "in_range bm j"
  shows "blk (ReleasePrefixResidencyLocked i False bm) j =
    (if j = i then (blk bm i)\<lparr>content_hash := 0, cache_resident := False,
        num_filled_slots := (if ref_count (blk bm i) = 0 then 0 else num_filled_slots (blk bm i))\<rparr>
     else blk bm j)"
  using i j res bm_inv_lengths(1) [OF inv]
  by (auto simp: ReleasePrefixResidencyLocked_def Let_def blk_upd_blk_len)

lemma Release_frame:
  "same_store bm (ReleasePrefixResidencyLocked i p bm)"
  "length (blocks (ReleasePrefixResidencyLocked i p bm)) = length (blocks bm)"
  by (auto simp: ReleasePrefixResidencyLocked_def Let_def same_store_def)

lemma Release_stores:
  assumes inv: "bm_inv bm" and i: "in_range bm i" and res: "cache_resident (blk bm i)"
  shows "map_of (prefix_cache (ReleasePrefixResidencyLocked i False bm)) h =
      (if h = content_hash (blk bm i) then None else map_of (prefix_cache bm) h)"
    and "distinct (map fst (prefix_cache (ReleasePrefixResidencyLocked i False bm)))"
    and "block_tokens (ReleasePrefixResidencyLocked i False bm) = (block_tokens bm)(i := None)"
    and "block_hybrid_ssm_snapshots (ReleasePrefixResidencyLocked i False bm) =
      (block_hybrid_ssm_snapshots bm)(i := None)"
    and "is_free (ReleasePrefixResidencyLocked i False bm) j \<longleftrightarrow>
      is_free bm j \<or> (j = i \<and> ref_count (blk bm i) = 0)"
    and "shards_ok (ReleasePrefixResidencyLocked i False bm)"
proof -
  have own: "map_of (prefix_cache bm) (content_hash (blk bm i)) = Some i"
    by (rule bm_inv_residentD [OF inv i res])
  then have h0: "content_hash (blk bm i) \<noteq> 0" using bm_inv_prefixD [OF inv] by blast
  have nf: "\<not> is_free bm i" using bm_inv_free_iff [OF inv i] res by simp
  have dist: "distinct (map fst (prefix_cache bm))" using inv by (simp add: bm_inv_def prefix_ok_def)
  define bm1 where "bm1 = erase_prefix_entry (content_hash (blk bm i)) i bm"
  define bm2 where "bm2 = upd_blk i (\<lambda>b. b\<lparr>content_hash := 0, cache_resident := False\<rparr>) bm1"
  define bm3 where "bm3 = erase_block_data i bm2"
  have rel: "ReleasePrefixResidencyLocked i False bm =
      (if ref_count (blk bm3 i) = 0 then push_free i (upd_blk i (\<lambda>b. b\<lparr>num_filled_slots := 0\<rparr>) bm3) else bm3)"
    using i res h0 by (simp add: ReleasePrefixResidencyLocked_def Let_def bm1_def bm2_def bm3_def)
  have rc: "ref_count (blk bm3 i) = ref_count (blk bm i)"
    using i bm_inv_lengths(1) [OF inv] by (simp add: bm3_def bm2_def bm1_def blk_upd_blk_len)
  have st: "prefix_cache bm3 = AList.delete (content_hash (blk bm i)) (prefix_cache bm)"
    "block_tokens bm3 = (block_tokens bm)(i := None)"
    "block_hybrid_ssm_snapshots bm3 = (block_hybrid_ssm_snapshots bm)(i := None)"
    "is_free bm3 = is_free bm" "shards bm3 = shards bm" "in_range bm3 = in_range bm"
    using own by (simp_all add: bm3_def bm2_def bm1_def erase_prefix_entry_def erase_block_data_def)
  have lens: "length (shards bm3) = NUM_SHARDS" using bm_inv_lengths(2) [OF inv] by (simp add: st)
  have sok: "shards_ok bm3" using inv by (simp add: bm_inv_def shards_ok_def st)
  show "map_of (prefix_cache (ReleasePrefixResidencyLocked i False bm)) h =
      (if h = content_hash (blk bm i) then None else map_of (prefix_cache bm) h)"
    by (simp add: rel st)
  show "distinct (map fst (prefix_cache (ReleasePrefixResidencyLocked i False bm)))"
    using dist by (simp add: rel st)
  show "block_tokens (ReleasePrefixResidencyLocked i False bm) = (block_tokens bm)(i := None)"
    "block_hybrid_ssm_snapshots (ReleasePrefixResidencyLocked i False bm) =
      (block_hybrid_ssm_snapshots bm)(i := None)"
    by (simp_all add: rel st)
  show "is_free (ReleasePrefixResidencyLocked i False bm) j \<longleftrightarrow>
      is_free bm j \<or> (j = i \<and> ref_count (blk bm i) = 0)"
    using lens by (auto simp: rel rc is_free_push_free st)
  show "shards_ok (ReleasePrefixResidencyLocked i False bm)"
    using sok i nf by (simp add: rel st shards_ok_push_free)
qed

lemma ReleaseLocked_inv:
  assumes inv: "bm_inv bm"
  shows "bm_inv (ReleasePrefixResidencyLocked i False bm)"
proof (cases "in_range bm i \<and> cache_resident (blk bm i)")
  case False
  then show ?thesis using inv by (auto simp: ReleasePrefixResidencyLocked_def)
next
  case True
  then have i: "in_range bm i" and res: "cache_resident (blk bm i)" by auto
  let ?bm = "ReleasePrefixResidencyLocked i False bm"
  note st = Release_stores [OF inv i res]
  note r = same_store_range [OF Release_frame(1) [of bm i False]]
  have dims: "num_blocks ?bm = num_blocks bm" "block_size ?bm = block_size bm"
    using Release_frame(1) [of bm i False] by (simp_all add: same_store_def)
  have uniq: "map_of (prefix_cache bm) h = Some i \<Longrightarrow> h = content_hash (blk bm i)" for h
    using bm_inv_prefixD [OF inv] by blast
  have "prefix_ok ?bm"
    using inv st(2) uniq
    by (auto simp: bm_inv_def prefix_ok_def st(1,3,4) r Release_blk [OF inv i res] split: if_splits)
  moreover have "block_ok ?bm j" if j: "in_range bm j" for j
    using bm_inv_block_ok [OF inv j] bm_inv_block_ok [OF inv i] j inv res bm_inv_residentD [OF inv i res]
    by (auto simp: block_ok_def Release_blk [OF inv i res j] st(1,5) dims bm_inv_def)
  ultimately show ?thesis using inv st(6) Release_frame(2) [of i False bm] by (simp add: bm_inv_def r dims)
qed

lemma Release_ref_count:
  "bm_inv bm \<Longrightarrow> in_range bm j \<Longrightarrow>
   ref_count (blk (ReleasePrefixResidencyLocked i False bm) j) = ref_count (blk bm j)"
  by (cases "in_range bm i \<and> cache_resident (blk bm i)")
    (auto simp: Release_blk, auto simp: ReleasePrefixResidencyLocked_def)

lemma Unregister_inv: "bm_inv bm \<Longrightarrow> bm_inv (UnregisterPrefixBlock i bm)"
  by (simp add: UnregisterPrefixBlock_def ReleaseLocked_inv)

lemma displace_inv: "bm_inv bm \<Longrightarrow> bm_inv (displace_prefix_owner i h bm)"
  by (auto simp: displace_prefix_owner_def ReleasePrefixResidency_def ReleaseLocked_inv split: option.splits)

lemma displace_spec:
  assumes inv: "bm_inv bm" and i: "in_range bm i"
  shows "blk (displace_prefix_owner i h bm) i = blk bm i"
    and "same_store bm (displace_prefix_owner i h bm)"
    and "map_of (prefix_cache (displace_prefix_owner i h bm)) h \<in> {None, Some i}"
proof -
  have "blk (displace_prefix_owner i h bm) i = blk bm i \<and> same_store bm (displace_prefix_owner i h bm)
    \<and> map_of (prefix_cache (displace_prefix_owner i h bm)) h \<in> {None, Some i}"
  proof (cases "map_of (prefix_cache bm) h")
    case None
    then show ?thesis by (simp add: displace_prefix_owner_def)
  next
    case (Some e)
    then have e: "in_range bm e" "cache_resident (blk bm e)" "content_hash (blk bm e) = h"
      using bm_inv_prefixD [OF inv] by auto
    show ?thesis
      using Some e i Release_frame(1) [of bm e False] Release_blk [OF inv e(1,2) i] Release_stores(1) [OF inv e(1,2)]
      by (auto simp: displace_prefix_owner_def ReleasePrefixResidency_def)
  qed
  then show "blk (displace_prefix_owner i h bm) i = blk bm i"
    and "same_store bm (displace_prefix_owner i h bm)"
    and "map_of (prefix_cache (displace_prefix_owner i h bm)) h \<in> {None, Some i}" by auto
qed

section \<open>Registration\<close>

lemma install_inv:
  assumes inv: "bm_inv bm" and i: "in_range bm i" and h: "h \<noteq> 0"
    and live: "ref_count (blk bm i) > 0 \<or> cache_resident (blk bm i)"
    and own: "map_of (prefix_cache bm) h \<in> {None, Some i}"
    and store: "same_store bm bm'" "length (blocks bm') = length (blocks bm)" "shards bm' = shards bm"
    and b: "\<And>j. in_range bm j \<Longrightarrow> blk bm' j =
      (if j = i then (blk bm i)\<lparr>content_hash := h, cache_resident := True\<rparr> else blk bm j)"
    and pd: "distinct (map fst (prefix_cache bm'))"
    and pc: "\<And>h'. map_of (prefix_cache bm') h' =
      (if h' = h then Some i
       else if cache_resident (blk bm i) \<and> h' = content_hash (blk bm i) then None
       else map_of (prefix_cache bm) h')"
    and dat: "\<And>j. j \<noteq> i \<Longrightarrow> block_tokens bm' j = block_tokens bm j"
      "\<And>j. j \<noteq> i \<Longrightarrow> block_hybrid_ssm_snapshots bm' j = block_hybrid_ssm_snapshots bm j"
  shows "bm_inv bm'"
proof -
  note r = same_store_range [OF store(1)]
  have dims: "num_blocks bm' = num_blocks bm" "block_size bm' = block_size bm"
    using store(1) by (simp_all add: same_store_def)
  have fr: "is_free bm' = is_free bm" by (simp add: is_free_def fun_eq_iff store)
  have own_i: "map_of (prefix_cache bm) h' = Some i \<Longrightarrow> cache_resident (blk bm i) \<and> h' = content_hash (blk bm i)" for h'
    using bm_inv_prefixD [OF inv] by blast
  have entry: "h' \<noteq> 0 \<and> in_range bm j \<and> cache_resident (blk bm' j) \<and> content_hash (blk bm' j) = h'"
    if "map_of (prefix_cache bm') h' = Some j" for h' j
    using that i h b bm_inv_prefixD [OF inv, of h' j] own_i by (auto simp: pc split: if_splits)
  have data: "in_range bm j \<and> cache_resident (blk bm' j)"
    if "block_tokens bm' j \<noteq> None \<or> block_hybrid_ssm_snapshots bm' j \<noteq> None" for j
    using that i b dat inv by (cases "j = i") (auto simp: bm_inv_def prefix_ok_def)
  have "prefix_ok bm'" using pd entry data by (simp add: prefix_ok_def r)
  moreover have "block_ok bm' j" if j: "in_range bm j" for j
  proof (cases "j = i")
    case True
    then show ?thesis using bm_inv_block_ok [OF inv i] live b [OF i] pc by (auto simp: block_ok_def fr dims)
  next
    case False
    have "content_hash (blk bm j) \<noteq> h" "cache_resident (blk bm i) \<Longrightarrow> content_hash (blk bm j) \<noteq> content_hash (blk bm i)"
      if "cache_resident (blk bm j)"
      using bm_inv_residentD [OF inv j that] bm_inv_residentD [OF inv i] own False by auto
    then show ?thesis using bm_inv_block_ok [OF inv j] False b [OF j] by (auto simp: block_ok_def fr dims pc)
  qed
  ultimately show ?thesis using inv store by (simp add: bm_inv_def shards_ok_def r dims)
qed

text \<open>What registration leaves in the cache, for both entry points.\<close>

definition registered :: "int \<Rightarrow> u64 \<Rightarrow> block_manager \<Rightarrow> bool" where
  "registered i h bm \<longleftrightarrow> map_of (prefix_cache bm) h = Some i \<and> cache_resident (blk bm i) \<and> content_hash (blk bm i) = h"

lemma erase_old_entry:
  assumes inv: "bm_inv bm" and i: "in_range bm i"
  shows "map_of (prefix_cache
      (if cache_resident (blk bm i) \<and> content_hash (blk bm i) \<noteq> 0 \<and> content_hash (blk bm i) \<noteq> h
       then erase_prefix_entry (content_hash (blk bm i)) i bm else bm)) h' =
    (if h' \<noteq> h \<and> cache_resident (blk bm i) \<and> h' = content_hash (blk bm i) then None
     else map_of (prefix_cache bm) h')"
proof (cases "cache_resident (blk bm i)")
  case True
  then have "map_of (prefix_cache bm) (content_hash (blk bm i)) = Some i" "content_hash (blk bm i) \<noteq> 0"
    using bm_inv_residentD [OF inv i] bm_inv_prefixD [OF inv] by blast+
  then show ?thesis using True by (cases "content_hash (blk bm i) = h") (simp_all add: erase_prefix_entry_def)
next
  case False
  then show ?thesis by simp
qed

lemma distinct_erase_prefix_entry:
  "distinct (map fst (prefix_cache bm)) \<Longrightarrow> distinct (map fst (prefix_cache (erase_prefix_entry h i bm)))"
  by (simp add: erase_prefix_entry_def)

text \<open>
  Both registrations end in the same step, with tokens \<open>x\<close> and snapshot \<open>y\<close> stored for the block.
\<close>

definition install_prefix ::
  "int \<Rightarrow> u64 \<Rightarrow> int list option \<Rightarrow> ssm_state list option \<Rightarrow> block_manager \<Rightarrow> block_manager" where
  "install_prefix i h x y bm =
     (let old = content_hash (blk bm i);
          bm2 = (if cache_resident (blk bm i) \<and> old \<noteq> 0 \<and> old \<noteq> h then erase_prefix_entry old i bm else bm);
          bm3 = upd_blk i (\<lambda>b. b\<lparr>content_hash := h, cache_resident := True\<rparr>) bm2;
          bm4 = bm3\<lparr>prefix_cache := AList.update h i (prefix_cache bm3)\<rparr>
      in bm4\<lparr>block_tokens := (block_tokens bm4)(i := x),
             block_hybrid_ssm_snapshots := (block_hybrid_ssm_snapshots bm4)(i := y)\<rparr>)"

lemma install_prefix_spec:
  assumes inv: "bm_inv bm" and i: "in_range bm i" and h: "h \<noteq> 0"
    and live: "ref_count (blk bm i) > 0 \<or> cache_resident (blk bm i)"
    and own: "map_of (prefix_cache bm) h \<in> {None, Some i}"
  shows "bm_inv (install_prefix i h x y bm)" "registered i h (install_prefix i h x y bm)"
    and "ref_count (blk (install_prefix i h x y bm) i) = ref_count (blk bm i)"
    and "block_tokens (install_prefix i h x y bm) i = x"
    and "block_hybrid_ssm_snapshots (install_prefix i h x y bm) i = y"
    and "same_store bm (install_prefix i h x y bm)"
proof -
  define c where "c \<longleftrightarrow> cache_resident (blk bm i) \<and> content_hash (blk bm i) \<noteq> 0 \<and> content_hash (blk bm i) \<noteq> h"
  define bm2 where "bm2 = (if c then erase_prefix_entry (content_hash (blk bm i)) i bm else bm)"
  define bm3 where "bm3 = upd_blk i (\<lambda>b. b\<lparr>content_hash := h, cache_resident := True\<rparr>) bm2"
  define bm5 where "bm5 = bm3\<lparr>prefix_cache := AList.update h i (prefix_cache bm3),
      block_tokens := (block_tokens bm3)(i := x),
      block_hybrid_ssm_snapshots := (block_hybrid_ssm_snapshots bm3)(i := y)\<rparr>"
  have eq: "install_prefix i h x y bm = bm5"
    by (simp add: install_prefix_def Let_def c_def bm2_def bm3_def bm5_def)
  have len2: "length (blocks bm2) = nat (num_blocks bm2)"
    using bm_inv_lengths(1) [OF inv] by (simp add: bm2_def)
  have b5: "blk bm5 j = (if j = i then (blk bm i)\<lparr>content_hash := h, cache_resident := True\<rparr> else blk bm j)"
    if "in_range bm j" for j
  proof -
    have "blk bm5 = blk bm3" by (simp add: bm5_def blk_def fun_eq_iff)
    moreover have "in_range bm2 = in_range bm" "blk bm2 = blk bm" by (simp_all add: bm2_def)
    ultimately show ?thesis using that i blk_upd_blk_len [OF len2, of i j] by (simp add: bm3_def)
  qed
  have pd2: "distinct (map fst (prefix_cache bm2))"
    using inv by (simp add: bm2_def bm_inv_def prefix_ok_def distinct_erase_prefix_entry)
  have pc5: "map_of (prefix_cache bm5) h' = (if h' = h then Some i
      else if cache_resident (blk bm i) \<and> h' = content_hash (blk bm i) then None else map_of (prefix_cache bm) h')" for h'
    using erase_old_entry [OF inv i, of h h', folded c_def, folded bm2_def] by (simp add: bm5_def bm3_def)
  show "bm_inv (install_prefix i h x y bm)" unfolding eq
    by (rule install_inv [OF inv i h live own])
      (use pd2 in \<open>simp_all add: b5 pc5, simp_all add: bm5_def bm3_def bm2_def same_store_def\<close>)
  show "registered i h (install_prefix i h x y bm)"
    "ref_count (blk (install_prefix i h x y bm) i) = ref_count (blk bm i)"
    using b5 [OF i] pc5 by (simp_all add: eq registered_def)
  show "block_tokens (install_prefix i h x y bm) i = x"
    "block_hybrid_ssm_snapshots (install_prefix i h x y bm) i = y"
    "same_store bm (install_prefix i h x y bm)"
    by (simp_all add: eq bm5_def bm3_def bm2_def same_store_def)
qed

lemma RegisterPrefixBlock_install:
  assumes "bm_inv bm" "in_range bm i" "h \<noteq> 0" "ref_count (blk bm i) > 0 \<or> cache_resident (blk bm i)"
  shows "\<exists>x y. RegisterPrefixBlock i h bm = install_prefix i h x y (displace_prefix_owner i h bm)"
proof -
  let ?bm = "displace_prefix_owner i h bm"
  let ?c = "cache_resident (blk ?bm i) \<and> content_hash (blk ?bm i) \<noteq> 0 \<and> content_hash (blk ?bm i) \<noteq> h"
  have "RegisterPrefixBlock i h bm = install_prefix i h (if ?c then None else block_tokens ?bm i)
      (if ?c then None else block_hybrid_ssm_snapshots ?bm i) ?bm"
    using assms displace_spec(1) [OF assms(1,2), of h]
    by (auto simp: RegisterPrefixBlock_def install_prefix_def Let_def erase_block_data_def upd_blk_def
        erase_prefix_entry_def blk_def)
  then show ?thesis by blast
qed

lemma RegisterPrefixBlockWithTokens_install:
  assumes "bm_inv bm" "in_range bm i" "h \<noteq> 0" "ref_count (blk bm i) > 0 \<or> cache_resident (blk bm i)"
  shows "RegisterPrefixBlockWithTokens i h toks snap bm =
    install_prefix i h (if toks \<noteq> [] then Some toks else None) (if snap \<noteq> [] then Some snap else None)
      (displace_prefix_owner i h bm)"
  using assms displace_spec(1) [OF assms(1,2), of h]
  by (auto simp: RegisterPrefixBlockWithTokens_def install_prefix_def Let_def)

lemma live_displaced:
  assumes "bm_inv bm" "in_range bm i" "ref_count (blk bm i) > 0 \<or> cache_resident (blk bm i)"
  shows "bm_inv (displace_prefix_owner i h bm)" "in_range (displace_prefix_owner i h bm) i"
    "ref_count (blk (displace_prefix_owner i h bm) i) > 0 \<or> cache_resident (blk (displace_prefix_owner i h bm) i)"
  using assms displace_inv [OF assms(1)] displace_spec(1,2) [OF assms(1,2), of h]
  by (simp_all add: same_store_range)

lemma RegisterPrefixBlock_inv:
  assumes "bm_inv bm"
  shows "bm_inv (RegisterPrefixBlock i h bm)"
proof (cases "in_range bm i \<and> h \<noteq> 0 \<and> (ref_count (blk bm i) > 0 \<or> cache_resident (blk bm i))")
  case True
  then obtain x y where "RegisterPrefixBlock i h bm = install_prefix i h x y (displace_prefix_owner i h bm)"
    using RegisterPrefixBlock_install [OF assms] by blast
  then show ?thesis
    using True install_prefix_spec(1) live_displaced [OF assms] displace_spec(3) [OF assms] by metis
next
  case False
  then show ?thesis
    using assms displace_spec(1) [OF assms, of i h]
    by (auto simp: RegisterPrefixBlock_def Let_def displace_inv)
qed

lemma RegisterPrefixBlockWithTokens_inv:
  assumes "bm_inv bm"
  shows "bm_inv (RegisterPrefixBlockWithTokens i h toks snap bm)"
proof (cases "in_range bm i \<and> h \<noteq> 0 \<and> (ref_count (blk bm i) > 0 \<or> cache_resident (blk bm i))")
  case True
  then show ?thesis
    using RegisterPrefixBlockWithTokens_install [OF assms] install_prefix_spec(1) live_displaced [OF assms]
      displace_spec(3) [OF assms] by metis
next
  case False
  then show ?thesis
    using assms displace_spec(1) [OF assms, of i h]
    by (auto simp: RegisterPrefixBlockWithTokens_def Let_def displace_inv)
qed

section \<open>Lookup\<close>

text \<open>
  \<open>acquires bm ids bm'\<close>: one more reference on each listed block, everything else as before.
\<close>

definition acquires :: "block_manager \<Rightarrow> int list \<Rightarrow> block_manager \<Rightarrow> bool" where
  "acquires bm ids bm' \<longleftrightarrow>
     bm_inv bm' \<and> same_store bm bm' \<and> (\<forall>i \<in> set ids. in_range bm i) \<and>
     prefix_cache bm' = prefix_cache bm \<and> block_tokens bm' = block_tokens bm \<and>
     block_hybrid_ssm_snapshots bm' = block_hybrid_ssm_snapshots bm \<and>
     (\<forall>j. in_range bm j \<longrightarrow> blk bm' j =
        (blk bm j)\<lparr>ref_count := ref_count (blk bm j) + int (count_list ids j)\<rparr>)"

lemma acquires_Nil: "bm_inv bm \<Longrightarrow> acquires bm [] bm"
  by (simp add: acquires_def)

lemma acquires_Cons:
  assumes "acquires bm [i] bm1" and "acquires bm1 ids bm2"
  shows "acquires bm (i # ids) bm2"
proof -
  have r: "in_range bm1 = in_range bm" using assms(1) same_store_range by (auto simp: acquires_def)
  show ?thesis using assms unfolding acquires_def
    by (auto simp: r intro: same_store_trans)
qed

lemma acquire_cached_spec:
  assumes inv: "bm_inv bm" and i: "in_range bm i" and res: "cache_resident (blk bm i)"
  shows "fst (acquire_cached i bm) = i" "acquires bm [i] (snd (acquire_cached i bm))"
proof -
  have "acquire_cached i bm = (i, upd_blk i (\<lambda>b. b\<lparr>ref_count := ref_count b + 1\<rparr>) bm)"
    using bm_inv_ref_nonneg [OF inv i] res by (simp add: acquire_cached_def Let_def)
  then show "fst (acquire_cached i bm) = i" "acquires bm [i] (snd (acquire_cached i bm))"
    using i res add_ref_inv [OF inv i] by (auto simp: acquires_def blk_upd_blk [OF inv i] same_store_def)
qed

lemma FindVerified_spec:
  assumes inv: "bm_inv bm" and f: "FindCachedBlockWithVerification h toks bm = (i, bm')"
  shows "if i < 0 then i = -1 \<and> bm' = bm
         else map_of (prefix_cache bm) h = Some i \<and> block_tokens bm i = Some toks \<and> acquires bm [i] bm'"
proof (cases "\<exists>k. h \<noteq> 0 \<and> toks \<noteq> [] \<and> map_of (prefix_cache bm) h = Some k \<and> block_tokens bm k = Some toks")
  case True
  then obtain k where k: "h \<noteq> 0" "toks \<noteq> []" "map_of (prefix_cache bm) h = Some k" "block_tokens bm k = Some toks"
    by blast
  then have "(i, bm') = acquire_cached k bm" using f by (simp add: FindCachedBlockWithVerification_def)
  moreover have "in_range bm k" "cache_resident (blk bm k)" using bm_inv_prefixD [OF inv k(3)] by auto
  ultimately show ?thesis using acquire_cached_spec [OF inv, of k] k by (auto simp: in_range_def dest: sym)
next
  case False
  then show ?thesis using f
    by (auto simp: FindCachedBlockWithVerification_def split: if_splits option.splits)
qed

lemma FindCachedBlock_spec:
  assumes inv: "bm_inv bm" and f: "FindCachedBlock h bm = (i, bm')"
  shows "case map_of (prefix_cache bm) h of
      None \<Rightarrow> i = -1 \<and> bm' = bm | Some k \<Rightarrow> i = k \<and> acquires bm [k] bm'"
proof (cases "map_of (prefix_cache bm) h")
  case None
  then show ?thesis using f by (simp add: FindCachedBlock_def split: if_splits)
next
  case (Some k)
  then show ?thesis using f bm_inv_prefixD [OF inv Some] acquire_cached_spec [OF inv, of k]
    by (auto simp: FindCachedBlock_def dest: sym)
qed

definition snapshot_valid :: "(ssm_state list \<Rightarrow> bool) option \<Rightarrow> block_manager \<Rightarrow> int \<Rightarrow> bool" where
  "snapshot_valid val bm i \<longleftrightarrow>
     (case LoadHybridSSMSnapshotForBlock bm i of
        None \<Rightarrow> False | Some snap \<Rightarrow> (case val of None \<Rightarrow> True | Some v \<Rightarrow> v snap))"

lemma snapshot_valid_acquires: "acquires bm ids bm' \<Longrightarrow> snapshot_valid val bm' = snapshot_valid val bm"
  by (intro ext) (simp add: snapshot_valid_def LoadHybridSSMSnapshotForBlock_def acquires_def same_store_def in_range_def)

lemma acquire_prefix_spec:
  assumes "bm_inv bm" and "acquire_prefix salt req val k pre rest cnt tcnt bm = (ids, t, bm')"
  shows "acquires bm ids bm' \<and> length ids \<le> k \<and>
    (\<forall>n < length ids. block_tokens bm (ids ! n) = Some (take 16 (drop (16 * n) rest)) \<and>
       map_of (prefix_cache bm) (ComputeTokenHash salt (pre @ take (16 * Suc n) rest)) = Some (ids ! n)) \<and>
    (t = tcnt \<or> (int cnt < t \<and> t \<le> int cnt + int (length ids) \<and> req \<and>
       snapshot_valid val bm (ids ! (nat t - Suc cnt))))"
  using assms
proof (induction k arbitrary: pre rest cnt tcnt bm ids t bm')
  case 0
  then show ?case by (simp add: acquires_Nil)
next
  case (Suc k)
  let ?cur = "take 16 rest" let ?h = "ComputeTokenHash salt (pre @ take 16 rest)"
  obtain i bm1 where f: "FindCachedBlockWithVerification ?h ?cur bm = (i, bm1)" by fastforce
  note F = FindVerified_spec [OF Suc.prems(1) f]
  show ?case
  proof (cases "i < 0")
    case True
    then show ?thesis using Suc.prems F by (simp add: f acquires_Nil)
  next
    case False
    have a1: "acquires bm [i] bm1" and i: "map_of (prefix_cache bm) ?h = Some i" "block_tokens bm i = Some ?cur"
      using F False by auto
    let ?ok = "req \<and> snapshot_valid val bm1 i"
    obtain ids2 t2 bm2 where rec: "acquire_prefix salt req val k (pre @ ?cur) (drop 16 rest) (Suc cnt)
        (if ?ok then int (Suc cnt) else tcnt) bm1 = (ids2, t2, bm2)" by (metis prod_cases3)
    have res: "ids = i # ids2" "t = t2" "bm' = bm2"
      using Suc.prems(2) False f rec by (auto simp: snapshot_valid_def Let_def split: option.splits if_splits)
    have eqs: "block_tokens bm1 = block_tokens bm" "prefix_cache bm1 = prefix_cache bm" "bm_inv bm1"
      "snapshot_valid val bm1 = snapshot_valid val bm"
      using a1 snapshot_valid_acquires [OF a1] by (auto simp: acquires_def)
    note IH = Suc.IH [OF eqs(3) rec]
    have acq: "acquires bm ids bm'" using acquires_Cons [OF a1] IH by (simp add: res)
    have toks: "block_tokens bm (ids ! n) = Some (take 16 (drop (16 * n) rest)) \<and>
        map_of (prefix_cache bm) (ComputeTokenHash salt (pre @ take (16 * Suc n) rest)) = Some (ids ! n)"
      if "n < length ids" for n
    proof (cases n)
      case 0
      then show ?thesis using i by (simp add: res)
    next
      case (Suc m)
      have "drop (16 * n) rest = drop (16 * m) (drop 16 rest)" by (simp add: Suc add.commute)
      moreover have "take (16 * Suc n) rest = ?cur @ take (16 * Suc m) (drop 16 rest)"
        unfolding Suc using take_add [of 16 "16 * Suc m" rest] by (simp add: algebra_simps)
      ultimately show ?thesis using IH that by (simp add: res eqs Suc)
    qed
    have "t = tcnt \<or> (int cnt < t \<and> t \<le> int cnt + int (length ids) \<and> req \<and>
        snapshot_valid val bm (ids ! (nat t - Suc cnt)))"
    proof (cases "t2 = (if ?ok then int (Suc cnt) else tcnt)")
      case True
      then show ?thesis using eqs by (auto simp: res)
    next
      case False
      then have "int (Suc cnt) < t2" "t2 \<le> int (Suc cnt) + int (length ids2)" "req"
        "snapshot_valid val bm (ids2 ! (nat t2 - Suc (Suc cnt)))"
        using IH eqs by auto
      moreover then have "nat t2 - Suc cnt = Suc (nat t2 - Suc (Suc cnt))" by simp
      ultimately show ?thesis by (simp add: res)
    qed
    then show ?thesis using acq toks IH by (simp add: res)
  qed
qed

section \<open>Longest cached prefix\<close>

lemma FreeSingle_resident_blk:
  assumes "bm_inv bm" and "in_range bm j" and "cache_resident (blk bm i)"
  shows "blk (FreeSingle i bm) j =
    (blk bm j)\<lparr>ref_count := (if j = i then max 0 (ref_count (blk bm j) - 1) else ref_count (blk bm j))\<rparr>"
  using assms bm_inv_ref_nonneg [OF assms(1,2)]
  by (auto simp: FreeSingle_def Let_def blk_upd_blk)

lemma Free_resident_blk:
  "bm_inv bm \<Longrightarrow> in_range bm j \<Longrightarrow> \<forall>i \<in> set ids. in_range bm i \<and> cache_resident (blk bm i) \<Longrightarrow>
   blk (Free ids bm) j = (blk bm j)\<lparr>ref_count := max 0 (ref_count (blk bm j) - int (count_list ids j))\<rparr>"
  unfolding Free_def
proof (induction ids arbitrary: bm)
  case Nil
  then show ?case using bm_inv_ref_nonneg [of bm j] by simp
next
  case (Cons a ids)
  have "\<forall>i \<in> set ids. in_range (FreeSingle a bm) i \<and> cache_resident (blk (FreeSingle a bm) i)"
    using Cons.prems by (simp add: FreeSingle_blk)
  then have "blk (fold FreeSingle ids (FreeSingle a bm)) j = (blk (FreeSingle a bm) j)\<lparr>ref_count :=
      max 0 (ref_count (blk (FreeSingle a bm) j) - int (count_list ids j))\<rparr>"
    using Cons.prems by (intro Cons.IH) (simp_all add: FreeSingle_inv)
  moreover have "blk (FreeSingle a bm) j = (blk bm j)\<lparr>ref_count :=
      (if j = a then max 0 (ref_count (blk bm j) - 1) else ref_count (blk bm j))\<rparr>"
    using Cons.prems by (intro FreeSingle_resident_blk) simp_all
  ultimately show ?case using bm_inv_ref_nonneg [OF Cons.prems(1,2)] by (auto simp: max_def)
qed

lemma acquires_Free_suffix:
  assumes inv: "bm_inv bm" and a: "acquires bm (kept @ dropped) bm'"
    and res: "\<forall>i \<in> set (kept @ dropped). cache_resident (blk bm i)"
  shows "acquires bm kept (Free dropped bm')"
proof -
  have r: "in_range bm' = in_range bm" using a by (simp add: acquires_def same_store_range)
  have inv': "bm_inv bm'" using a by (simp add: acquires_def)
  have res': "\<forall>i \<in> set dropped. in_range bm' i \<and> cache_resident (blk bm' i)"
    using a res by (simp add: acquires_def r)
  have "blk (Free dropped bm') j = (blk bm j)\<lparr>ref_count := ref_count (blk bm j) + int (count_list kept j)\<rparr>"
    if "in_range bm j" for j
    using that a Free_resident_blk [OF inv' _ res', of j] bm_inv_ref_nonneg [OF inv that] by (simp add: acquires_def r)
  then show ?thesis using a Free_inv [OF inv'] by (simp add: acquires_def same_store_def)
qed

lemma FindLongest_spec:
  assumes inv: "bm_inv bm"
    and f: "FindLongestCachedPrefixWithVerification salt tokens req val bm = (m, bm')"
  shows "acquires bm (cached_block_ids m) bm' \<and>
    cached_tokens m = BLOCK_SIZE * int (length (cached_block_ids m)) \<and>
    (cached_block_ids m \<noteq> [] \<longrightarrow> cached_tokens m < int (length tokens)) \<and>
    (\<forall>n < length (cached_block_ids m).
       block_tokens bm (cached_block_ids m ! n) = Some (take 16 (drop (16 * n) tokens)) \<and>
       map_of (prefix_cache bm) (ComputeTokenHash salt (take (16 * Suc n) tokens)) = Some (cached_block_ids m ! n)) \<and>
    (req \<and> cached_block_ids m \<noteq> [] \<longrightarrow> snapshot_valid val bm (last (cached_block_ids m)))"
proof (cases "int (length tokens) \<le> BLOCK_SIZE")
  case True
  then show ?thesis using f inv by (auto simp: FindLongestCachedPrefixWithVerification_def acquires_Nil)
next
  case False
  define mb where "mb = nat ((int (length tokens) - 1) sdiv BLOCK_SIZE)"
  obtain acq t bm1 where ap: "acquire_prefix salt req val mb [] tokens 0 (if req then 0 else -1) bm = (acq, t, bm1)"
    by (metis prod_cases3)
  note A = acquire_prefix_spec [OF inv ap]
  have "(int (length tokens) - 1) sdiv BLOCK_SIZE = (int (length tokens) - 1) div BLOCK_SIZE"
    using False by (intro sdiv_nonneg) auto
  then have "int mb = (int (length tokens) - 1) div BLOCK_SIZE" using False by (simp add: mb_def)
  then have mb: "16 * int mb < int (length tokens)" by linarith
  have res: "\<forall>i \<in> set acq. cache_resident (blk bm i)"
    using A bm_inv_prefixD [OF inv] by (metis in_set_conv_nth)
  have acqA: "acquires bm acq bm1" and len: "length acq \<le> mb" using A by auto
  define n where "n = (if req then nat t else length acq)"
  have eq: "cached_block_ids m = take n acq" "bm' = Free (drop n acq) bm1"
    "cached_tokens m = BLOCK_SIZE * int (length (cached_block_ids m))"
    using f False ap by (auto simp: FindLongestCachedPrefixWithVerification_def Let_def n_def Free_def
        mb_def [symmetric] split: if_splits)
  have "acquires bm (take n acq @ drop n acq) bm1" "\<forall>i \<in> set (take n acq @ drop n acq). cache_resident (blk bm i)"
    using acqA res by simp_all
  from acquires_Free_suffix [OF inv this] have acqK: "acquires bm (take n acq) bm'" by (simp add: eq(2))
  have tcnt: "snapshot_valid val bm (last (take n acq))" if "req" "take n acq \<noteq> []"
  proof -
    have t: "0 < t" "t \<le> int (length acq)" "snapshot_valid val bm (acq ! (nat t - 1))"
      using A that by (auto simp: n_def)
    have "last (take n acq) = acq ! (nat t - 1)"
    proof -
      have "length (take n acq) = nat t" using t that(1) by (simp add: n_def)
      then show ?thesis using that(2) t by (simp add: last_conv_nth)
    qed
    then show ?thesis using t by simp
  qed
  have "int (length (take n acq)) \<le> int mb" using len by simp
  then show ?thesis using acqK eq(3) A mb tcnt by (simp add: eq(1))
qed

section \<open>Registering and finding again\<close>

lemma Register_spec:
  assumes inv: "bm_inv bm" and i: "in_range bm i" and h: "h \<noteq> 0"
    and live: "ref_count (blk bm i) > 0 \<or> cache_resident (blk bm i)"
    and bm': "bm' = RegisterPrefixBlockWithTokens i h toks snap bm"
  shows "bm_inv bm'" "same_store bm bm'" "registered i h bm'" "ref_count (blk bm' i) = ref_count (blk bm i)"
    "block_tokens bm' i = (if toks \<noteq> [] then Some toks else None)"
    "block_hybrid_ssm_snapshots bm' i = (if snap \<noteq> [] then Some snap else None)"
proof -
  note R = RegisterPrefixBlockWithTokens_install [OF inv i h live, of toks snap, folded bm']
  note L = live_displaced [OF inv i live, of h]
  have own: "map_of (prefix_cache (displace_prefix_owner i h bm)) h \<in> {None, Some i}"
    by (rule displace_spec(3) [OF inv i])
  note I = install_prefix_spec [OF L(1,2) h L(3) own]
  show "bm_inv bm'" "registered i h bm'" "ref_count (blk bm' i) = ref_count (blk bm i)"
    "block_tokens bm' i = (if toks \<noteq> [] then Some toks else None)"
    "block_hybrid_ssm_snapshots bm' i = (if snap \<noteq> [] then Some snap else None)"
    unfolding R using I displace_spec(1) [OF inv i] by simp_all
  show "same_store bm bm'" unfolding R
    using I(6) displace_spec(2) [OF inv i, of h] by (blast intro: same_store_trans)
qed

lemma FindVerified_hit:
  assumes inv: "bm_inv bm" and h: "h \<noteq> 0" and t: "toks \<noteq> []"
    and m: "map_of (prefix_cache bm) h = Some i" "block_tokens bm i = Some toks"
  shows "fst (FindCachedBlockWithVerification h toks bm) = i"
    "acquires bm [i] (snd (FindCachedBlockWithVerification h toks bm))"
proof -
  have "FindCachedBlockWithVerification h toks bm = acquire_cached i bm"
    using h t m by (simp add: FindCachedBlockWithVerification_def)
  then show "fst (FindCachedBlockWithVerification h toks bm) = i"
    "acquires bm [i] (snd (FindCachedBlockWithVerification h toks bm))"
    using acquire_cached_spec [OF inv, of i] bm_inv_prefixD [OF inv m(1)] by simp_all
qed

lemma FindVerified_other_tokens:
  assumes "map_of (prefix_cache bm) h = Some i" and "block_tokens bm i = Some toks" and "toks' \<noteq> toks"
  shows "FindCachedBlockWithVerification h toks' bm = (-1, bm)"
  using assms by (auto simp: FindCachedBlockWithVerification_def)

text \<open>A registered block keeps its entry when the last request that used it releases it, and answers only for its own tokens.\<close>

lemma Register_Free_Find:
  assumes inv: "bm_inv bm" and i: "in_range bm i" and h: "h \<noteq> 0" and t: "toks \<noteq> []"
    and live: "ref_count (blk bm i) > 0 \<or> cache_resident (blk bm i)"
    and bm': "bm' = Free ids (RegisterPrefixBlockWithTokens i h toks snap bm)"
  shows "fst (FindCachedBlockWithVerification h toks bm') = i"
    "acquires bm' [i] (snd (FindCachedBlockWithVerification h toks bm'))"
    "toks' \<noteq> toks \<Longrightarrow> FindCachedBlockWithVerification h toks' bm' = (-1, bm')"
proof -
  note R = Register_spec [OF inv i h live refl, of toks snap]
  have C: "bm_inv bm'" "map_of (prefix_cache bm') h = Some i" "block_tokens bm' i = Some toks"
    using R t Free_inv [OF R(1)] by (simp_all add: bm' registered_def)
  from FindVerified_hit [OF C(1) h t C(2,3)]
  show "fst (FindCachedBlockWithVerification h toks bm') = i"
    "acquires bm' [i] (snd (FindCachedBlockWithVerification h toks bm'))" by simp_all
  show "toks' \<noteq> toks \<Longrightarrow> FindCachedBlockWithVerification h toks' bm' = (-1, bm')"
    using C(2,3) by (rule FindVerified_other_tokens)
qed

section \<open>Reachable states\<close>

text \<open>
  Every public operation of the manager, in any order and with any arguments, from the state
  the constructor builds. The hash salt is fixed per process. The data \<^verbatim>\<open>CopyOnWrite\<close> copies does
  not influence the manager, so the step carries none.
\<close>

inductive bm_step :: "u64 \<Rightarrow> block_manager \<Rightarrow> block_manager \<Rightarrow> bool" for salt where
  step_allocate: "bm_step salt bm (snd (Allocate n bm))"
| step_allocate_single: "bm_step salt bm (snd (AllocateSingle bm))"
| step_free: "bm_step salt bm (Free ids bm)"
| step_fork: "bm_step salt bm (snd (Fork i bm))"
| step_cow: "CopyOnWrite i cb (bm, ()) = (k, bm', d') \<Longrightarrow> bm_step salt bm bm'"
| step_filled: "bm_step salt bm (SetFilledSlots i n bm)"
| step_find: "bm_step salt bm (snd (FindCachedBlock h bm))"
| step_find_verified: "bm_step salt bm (snd (FindCachedBlockWithVerification h toks bm))"
| step_find_longest: "bm_step salt bm (snd (FindLongestCachedPrefixWithVerification salt toks req val bm))"
| step_register: "bm_step salt bm (RegisterPrefixBlock i h bm)"
| step_register_tokens: "bm_step salt bm (RegisterPrefixBlockWithTokens i h toks snap bm)"
| step_unregister: "bm_step salt bm (UnregisterPrefixBlock i bm)"

inductive bm_reachable :: "u64 \<Rightarrow> block_manager \<Rightarrow> bool" for salt where
  reach_init: "0 \<le> n \<Longrightarrow> 0 \<le> bs \<Longrightarrow> bm_reachable salt (BlockManager n bs rnd busy)"
| reach_step: "bm_reachable salt bm \<Longrightarrow> bm_step salt bm bm' \<Longrightarrow> bm_reachable salt bm'"

lemma AllocateSingle_inv:
  assumes "bm_inv bm"
  shows "bm_inv (snd (AllocateSingle bm))"
  using AllocateSingle_takes [OF assms, of "fst (AllocateSingle bm)" "snd (AllocateSingle bm)"]
  by (auto dest: takesD(1) split: if_splits)

lemma CopyOnWrite_inv:
  assumes inv: "bm_inv bm" and cow: "CopyOnWrite i cb (bm, d) = (k, bm', d')"
  shows "bm_inv bm'"
proof (cases "IsShared bm i \<and> available bm \<noteq> {}")
  case True
  then show ?thesis using CopyOnWrite_shared [OF inv _ _ cow] by blast
next
  case False
  then show ?thesis using inv cow AllocateSingle_inv [OF inv] AllocateSingle_takes [OF inv]
    by (auto simp: CopyOnWrite_def IsShared_def Let_def split: if_splits prod.splits)
qed

lemma bm_step_inv: "bm_step salt bm bm' \<Longrightarrow> bm_inv bm \<Longrightarrow> bm_inv bm'"
proof (induction rule: bm_step.induct)
  case (step_find bm h)
  show ?case
    using FindCachedBlock_spec [OF step_find, of h "fst (FindCachedBlock h bm)" "snd (FindCachedBlock h bm)"] step_find
    by (auto simp: acquires_def split: option.splits)
next
  case (step_find_verified bm h toks)
  let ?r = "FindCachedBlockWithVerification h toks bm"
  show ?case using FindVerified_spec [OF step_find_verified, of h toks "fst ?r" "snd ?r"] step_find_verified
    by (auto simp: acquires_def split: if_splits)
next
  case (step_find_longest bm toks req val)
  let ?r = "FindLongestCachedPrefixWithVerification salt toks req val bm"
  show ?case using FindLongest_spec [OF step_find_longest, of salt toks req val "fst ?r" "snd ?r"]
    by (auto simp: acquires_def)
qed (simp_all add: Allocate_inv AllocateSingle_inv Free_inv Fork_inv SetFilledSlots_inv RegisterPrefixBlock_inv
    RegisterPrefixBlockWithTokens_inv Unregister_inv CopyOnWrite_inv)

lemma bm_reachable_bm_inv: "bm_reachable salt bm \<Longrightarrow> bm_inv bm"
  by (induction rule: bm_reachable.induct) (auto intro: BlockManager_inv bm_step_inv)

section \<open>A sample state\<close>

text \<open>
  Four blocks; block 0 holds the tokens \<open>0..15\<close> with a snapshot and is registered, with two
  references; block 1 has one reference.
\<close>

definition sample_tokens :: "int list" where
  "sample_tokens = [0..15]"

definition sample_bm :: block_manager where
  "sample_bm =
     snd (Fork 0 (RegisterPrefixBlockWithTokens 0 (ComputeTokenHash 7 sample_tokens) sample_tokens
        [\<lparr>conv_state = [1], ssm_values = [2]\<rparr>]
        (snd (AllocateSingle (snd (AllocateSingle (BlockManager 4 16 (\<lambda>_. 0) (\<lambda>_ _. False))))))))"

lemma sample_bm_inv: "bm_inv sample_bm"
  unfolding sample_bm_def
  by (intro Fork_inv RegisterPrefixBlockWithTokens_inv AllocateSingle_inv BlockManager_inv) simp_all

end
