(* ===== verification/Machine_Float.thy ===== *)
theory Machine_Float
  imports Complex_Main "HOL-Library.Log_Nat"
begin

text \<open>
  IEEE~754 rounding on rational numbers, as the C++ \<^verbatim>\<open>float\<close> and \<^verbatim>\<open>double\<close> operations of the
  scheduler perform it: an operation computes the exact rational result and rounds it to the
  nearest representable value, ties to even. Subnormals are covered by the lower bound on the
  exponent; overflow to infinity is not, since no value of the modelled code comes near it.
\<close>

definition round_half_even :: "rat \<Rightarrow> int" where
  "round_half_even x =
     (let f = \<lfloor>x\<rfloor>; d = x - of_int f
      in if d < 1 / 2 then f else if 1 / 2 < d then f + 1 else if even f then f else f + 1)"

definition ilog2 :: "rat \<Rightarrow> int" where
  "ilog2 x =
     (let (a, b) = quotient_of x; k = bitlen a - bitlen b
      in if 2 powi k \<le> x then k else k - 1)"

definition float_round :: "int \<Rightarrow> int \<Rightarrow> rat \<Rightarrow> rat" where
  "float_round prec emin x =
     (if x = 0 then 0
      else let e = max emin (ilog2 \<bar>x\<bar> - (prec - 1))
           in of_int (round_half_even (x / 2 powi e)) * 2 powi e)"

definition f32 :: "rat \<Rightarrow> rat" where
  "f32 = float_round 24 (-149)"

definition f64 :: "rat \<Rightarrow> rat" where
  "f64 = float_round 53 (-1074)"

lemma round_half_even_le:
  assumes "x \<le> of_int k"
  shows "round_half_even x \<le> k"
proof (cases "x = of_int k")
  case True
  then show ?thesis by (simp add: round_half_even_def)
next
  case False
  with assms have "\<lfloor>x\<rfloor> < k" by (metis floor_less_iff less_le)
  then show ?thesis by (simp add: round_half_even_def Let_def)
qed

lemma round_half_even_ge:
  assumes "of_int k \<le> x"
  shows "k \<le> round_half_even x"
proof -
  have "k \<le> \<lfloor>x\<rfloor>" using assms by (simp add: le_floor_iff)
  then show ?thesis by (simp add: round_half_even_def Let_def)
qed

lemma round_half_even_of_int [simp]: "round_half_even (of_int k) = k"
  by (simp add: round_half_even_def)

lemma float_round_0 [simp]: "float_round p m 0 = 0"
  by (simp add: float_round_def)

lemma float_round_nonneg: "0 \<le> x \<Longrightarrow> 0 \<le> float_round p m x"
  by (auto simp: float_round_def Let_def intro!: mult_nonneg_nonneg round_half_even_ge)

lemma ilog2_le_0:
  assumes "0 < x" and "x \<le> 1"
  shows "ilog2 x \<le> 0"
proof -
  obtain a b where q: "quotient_of x = (a, b)" by fastforce
  have b: "0 < b" by (rule quotient_of_denom_pos [OF q])
  have x: "x = of_int a / of_int b" by (rule quotient_of_div [OF q])
  have a: "0 < a" using assms(1) b by (simp add: x zero_less_divide_iff)
  have ab: "a \<le> b" using assms(2) b by (simp add: x)
  have bl: "bitlen a \<le> bitlen b"
  proof -
    have "a < 2 ^ nat (bitlen b)" using bitlen_bounds [of b] b ab by simp
    then show ?thesis
      using a bitlen_le_iff_power [of a "nat (bitlen b)"] bitlen_nonneg [of b] by simp
  qed
  show ?thesis using bl by (simp add: ilog2_def q Let_def)
qed

lemma powi_neg_exp: "e \<le> 0 \<Longrightarrow> 1 / (2 :: rat) powi e = of_int (2 ^ nat (- e))"
  unfolding power_int_def by (cases "e = 0") (simp_all add: power_one_over)

lemma float_round_le_1:
  assumes "0 \<le> x" and "x \<le> 1" and "1 \<le> p" and "m \<le> 0"
  shows "float_round p m x \<le> 1"
proof (cases "x = 0")
  case True
  then show ?thesis by simp
next
  case False
  define e where "e = max m (ilog2 x - (p - 1))"
  have e: "e \<le> 0" using ilog2_le_0 [of x] assms False by (simp add: e_def)
  have pos: "(0 :: rat) < 2 powi e" by simp
  have "x / 2 powi e \<le> 1 / 2 powi e" using assms(2) pos by (simp add: divide_right_mono)
  then have "x / 2 powi e \<le> of_int (2 ^ nat (- e))" using powi_neg_exp [OF e] by simp
  then have "round_half_even (x / 2 powi e) \<le> 2 ^ nat (- e)" by (rule round_half_even_le)
  then have "of_int (round_half_even (x / 2 powi e)) * 2 powi e
      \<le> (of_int (2 ^ nat (- e)) :: rat) * 2 powi e"
    using pos by (intro mult_right_mono) (simp_all only: of_int_le_iff less_imp_le)
  also have "\<dots> = 1" using powi_neg_exp [OF e] pos by (simp add: field_simps)
  finally show ?thesis using False assms(1) by (simp add: float_round_def e_def Let_def)
qed

lemma f32_unit: "0 \<le> x \<Longrightarrow> x \<le> 1 \<Longrightarrow> 0 \<le> f32 x \<and> f32 x \<le> 1"
  by (simp add: f32_def float_round_nonneg float_round_le_1)

end
