(* ===== verification/Scheduler_Types.thy ===== *)
theory Scheduler_Types
  imports Prefix_Cache_Laws Machine_Float "HOL-Library.Product_Lexorder"
begin

text \<open>
  Data of the continuous-batching scheduler (\<^verbatim>\<open>core/include/densecore/runtime/scheduler.h\<close>) and its
  mixture-of-experts policy functions (\<^verbatim>\<open>core/src/runtime/scheduler_policy.cpp\<close>).

  A \<^verbatim>\<open>steady_clock::time_point\<close> is its tick count, an \<open>int\<close>; the clock is read through a parameter
  \<open>now\<close>. A \<^verbatim>\<open>float\<close> is the rational it denotes, and every float operation rounds with \<open>f32\<close> or
  \<open>f64\<close>. Token and sequence counts are unbounded integers: each is bounded by the configured
  maxima or by a prompt length.
\<close>

unbundle bit_operations_syntax

section \<open>Enumerations and records\<close>

datatype sequence_status = WAITING | RUNNING | SWAPPED | FINISHED | CANCELLED

datatype scheduler_empty_reason =
    EmptyNone | NoFreeBlocks | PrefillBudgetZero | ContextBucketMismatch | MaxNumSeqsReached
  | MaxPrefillSeqsReached | MoeBudgetDeferred | WaitingSeqPresentButUnschedulable
  | RunningSeqPresentButDecodeUnschedulable

datatype scheduler_unschedulable_reason =
    UnschedNone | PromptExceedsBatchBudget | RequiredBlocksExceedCapacity

record sequence_group =
  request_id :: int
  sequence_ids :: "int list"
  prompt_len :: int
  max_output_len :: int
  priority :: int
  arrival_time :: int
  shared_prefix_len :: int
  shared_block_ids :: "int list"
  num_running_seqs :: int
  num_tokens_to_process :: int
  max_prefill_chunk_tokens :: int
  align_initial_prefill_for_prefix_snapshot :: bool
  generated_tokens :: int
  predicted_experts :: "int list"

definition IsPrefill :: "sequence_group \<Rightarrow> bool" where
  "IsPrefill g \<longleftrightarrow> num_tokens_to_process g > 1"

record prefix_cache_info =
  pci_seq_id :: int
  pci_cached_tokens :: int
  pci_cached_block_ids :: "int list"

record prefill_chunk_info =
  chunk_seq_id :: int
  chunk_tokens :: int

record scheduler_output =
  prefill_seq_ids :: "int list"
  decode_seq_ids :: "int list"
  preempted_seq_ids :: "int list"
  swap_in_seq_ids :: "int list"
  new_block_allocations :: "(int \<times> int list) list"
  freed_blocks :: "(int \<times> int list) list"
  prefix_cache_hits :: "prefix_cache_info list"
  prefill_chunks :: "prefill_chunk_info list"
  total_tokens :: int
  num_prefill_tokens :: int
  num_decode_tokens :: int
  batch_context_len :: int
  empty_reason :: scheduler_empty_reason
  unschedulable_reason :: scheduler_unschedulable_reason
  diagnostic_seq_id :: int

definition SchedulerOutput :: scheduler_output where
  "SchedulerOutput =
     \<lparr>prefill_seq_ids = [], decode_seq_ids = [], preempted_seq_ids = [], swap_in_seq_ids = [],
      new_block_allocations = [], freed_blocks = [], prefix_cache_hits = [], prefill_chunks = [],
      total_tokens = 0, num_prefill_tokens = 0, num_decode_tokens = 0, batch_context_len = -1,
      empty_reason = EmptyNone, unschedulable_reason = UnschedNone, diagnostic_seq_id = -1\<rparr>"

definition IsEmpty :: "scheduler_output \<Rightarrow> bool" where
  "IsEmpty out \<longleftrightarrow> prefill_seq_ids out = [] \<and> decode_seq_ids out = []"

record scheduler_config =
  max_num_seqs :: int
  max_num_batched_tokens :: int
  max_model_len :: int
  enable_priority :: bool
  priority_preempt_threshold :: int
  watermark_high :: rat
  watermark_low :: rat
  enable_chunked_prefill :: bool
  max_prefill_tokens :: int
  max_prefill_seqs :: int
  max_parallel_prefill_chunk_tokens :: int
  enable_mixed_prefill_decode :: bool
  max_mixed_prefill_tokens :: int
  enforce_homogeneous_batch_n_past :: bool
  cfg_decode_homogeneous_batch_n_past :: bool
  isolate_prefill_decode :: bool
  max_consecutive_decode_batches :: int
  fill_slots_before_first_decode :: bool
  enable_moe_clustering :: bool
  max_active_experts :: int
  moe_batch_strictness :: rat

definition SchedulerConfig :: scheduler_config where
  "SchedulerConfig =
     \<lparr>max_num_seqs = 256, max_num_batched_tokens = 2048, max_model_len = 4096,
      enable_priority = True, priority_preempt_threshold = 10,
      watermark_high = f32 (9 / 10), watermark_low = f32 (8 / 10),
      enable_chunked_prefill = True, max_prefill_tokens = 2048, max_prefill_seqs = 256,
      max_parallel_prefill_chunk_tokens = 128,
      enable_mixed_prefill_decode = False, max_mixed_prefill_tokens = 128,
      enforce_homogeneous_batch_n_past = True, cfg_decode_homogeneous_batch_n_past = False,
      isolate_prefill_decode = True, max_consecutive_decode_batches = 8,
      fill_slots_before_first_decode = False,
      enable_moe_clustering = False, max_active_experts = 8, moe_batch_strictness = 1 / 2\<rparr>"

definition CreateInteractiveConfig :: scheduler_config where
  "CreateInteractiveConfig = SchedulerConfig
     \<lparr>max_num_seqs := 4, max_num_batched_tokens := 512, max_model_len := 4096,
      enable_priority := False, enable_chunked_prefill := False\<rparr>"

definition CreateThroughputConfig :: scheduler_config where
  "CreateThroughputConfig = SchedulerConfig
     \<lparr>max_num_seqs := 256, max_num_batched_tokens := 4096, max_model_len := 8192,
      enable_priority := True, priority_preempt_threshold := 5, enable_chunked_prefill := True,
      max_prefill_tokens := 1024, enable_mixed_prefill_decode := True,
      max_mixed_prefill_tokens := 128, enable_moe_clustering := True\<rparr>"

definition CreateMemoryEfficientConfig :: scheduler_config where
  "CreateMemoryEfficientConfig = SchedulerConfig
     \<lparr>max_num_seqs := 8, max_num_batched_tokens := 256, max_model_len := 2048,
      enable_priority := False, watermark_high := f32 (7 / 10), watermark_low := 1 / 2,
      enable_chunked_prefill := True, max_prefill_tokens := 128\<rparr>"

section \<open>Names\<close>

fun SequenceStatusToString :: "sequence_status \<Rightarrow> string" where
  "SequenceStatusToString WAITING = ''WAITING''"
| "SequenceStatusToString RUNNING = ''RUNNING''"
| "SequenceStatusToString SWAPPED = ''SWAPPED''"
| "SequenceStatusToString FINISHED = ''FINISHED''"
| "SequenceStatusToString CANCELLED = ''CANCELLED''"

fun EmptyReasonName :: "scheduler_empty_reason \<Rightarrow> string" where
  "EmptyReasonName NoFreeBlocks = ''no_free_blocks''"
| "EmptyReasonName PrefillBudgetZero = ''prefill_budget_zero''"
| "EmptyReasonName ContextBucketMismatch = ''context_bucket_mismatch''"
| "EmptyReasonName MaxNumSeqsReached = ''max_num_seqs_reached''"
| "EmptyReasonName MaxPrefillSeqsReached = ''max_prefill_seqs_reached''"
| "EmptyReasonName MoeBudgetDeferred = ''moe_budget_deferred''"
| "EmptyReasonName WaitingSeqPresentButUnschedulable = ''waiting_seq_present_but_unschedulable''"
| "EmptyReasonName RunningSeqPresentButDecodeUnschedulable = ''running_seq_present_but_decode_unschedulable''"
| "EmptyReasonName EmptyNone = ''none''"

fun UnschedulableReasonName :: "scheduler_unschedulable_reason \<Rightarrow> string" where
  "UnschedulableReasonName PromptExceedsBatchBudget = ''prompt_exceeds_batch_budget''"
| "UnschedulableReasonName RequiredBlocksExceedCapacity = ''required_blocks_exceed_capacity''"
| "UnschedulableReasonName UnschedNone = ''none''"

text \<open>\<^verbatim>\<open>std::to_string\<close> on a natural number.\<close>

fun to_string :: "nat \<Rightarrow> string" where
  "to_string n = (if n < 10 then [char_of (48 + n)] else to_string (n div 10) @ [char_of (48 + n mod 10)])"

definition DescribeUnschedulableReason :: "scheduler_output \<Rightarrow> string" where
  "DescribeUnschedulableReason out =
     (if unschedulable_reason out = UnschedNone then ''none''
      else UnschedulableReasonName (unschedulable_reason out) @
        (if diagnostic_seq_id out \<ge> 0 then '' seq_id='' @ to_string (nat (diagnostic_seq_id out)) else []))"

section \<open>Policy functions\<close>

text \<open>\<^verbatim>\<open>static_cast<size_t>\<close> of an \<^verbatim>\<open>int\<close>.\<close>

definition as_size_t :: "int \<Rightarrow> int" where
  "as_size_t n = n mod 2 ^ 64"

definition tolower :: "nat \<Rightarrow> nat" where
  "tolower c = (if 65 \<le> c \<and> c \<le> 90 then c + 32 else c)"

text \<open>C strings are lists of non-zero byte codes; a null pointer is \<open>None\<close>.\<close>

fun equals_ignore_case :: "nat list \<Rightarrow> nat list \<Rightarrow> bool" where
  "equals_ignore_case (a # as) (b # bs) =
     (if tolower a \<noteq> tolower b then False else equals_ignore_case as bs)"
| "equals_ignore_case as bs = (as = [] \<and> bs = [])"

definition EqualsIgnoreCase :: "nat list option \<Rightarrow> nat list option \<Rightarrow> bool" where
  "EqualsIgnoreCase lhs rhs =
     (case (lhs, rhs) of (Some a, Some b) \<Rightarrow> equals_ignore_case a b | _ \<Rightarrow> False)"

definition MixRequestKey :: "u64 \<Rightarrow> u64" where
  "MixRequestKey v0 =
     (let v1 = v0 + 0x9e3779b97f4a7c15;
          v2 = (v1 XOR drop_bit 30 v1) * 0xbf58476d1ce4e5b9;
          v3 = (v2 XOR drop_bit 27 v2) * 0x94d049bb133111eb
      in v3 XOR drop_bit 31 v3)"

definition ScheduledSeqCount :: "scheduler_output \<Rightarrow> nat" where
  "ScheduledSeqCount out = length (prefill_seq_ids out) + length (decode_seq_ids out)"

definition CountExpertOverlap :: "int list \<Rightarrow> int list \<Rightarrow> int" where
  "CountExpertOverlap experts active_experts =
     fold (\<lambda>e overlap. if e \<in> set active_experts then overlap + 1 else overlap) experts 0"

definition CountNewExperts :: "int list \<Rightarrow> int list \<Rightarrow> int" where
  "CountNewExperts experts active_experts =
     fold (\<lambda>e new_experts. if e \<notin> set active_experts then new_experts + 1 else new_experts) experts 0"

definition ComputeMoEDeferScore :: "int \<Rightarrow> rat" where
  "ComputeMoEDeferScore request_key =
     (let mixed = MixRequestKey (ucast (word_of_int request_key :: u32));
          kScale = f64 (1 / f64 (of_int (2 ^ 64 - 1)))
      in f32 (f64 (f64 (of_int (uint mixed)) * kScale)))"

definition ShouldDeferForMoEBudget ::
  "int \<Rightarrow> int list \<Rightarrow> int list \<Rightarrow> scheduler_config \<Rightarrow> bool" where
  "ShouldDeferForMoEBudget request_key experts active_experts cfg =
     (if \<not> enable_moe_clustering cfg \<or> experts = [] then False
      else if active_experts = [] then False
      else if int (length active_experts) + CountNewExperts experts active_experts \<le> max_active_experts cfg
      then False
      else let strictness = max 0 (min (moe_batch_strictness cfg) 1)
           in if strictness \<le> 0 then False
              else if strictness \<ge> 1 then True
              else ComputeMoEDeferScore request_key < strictness)"

section \<open>Laws of the policy functions\<close>

lemma CountExpertOverlap_eq: "CountExpertOverlap es act = int (length (filter (\<lambda>e. e \<in> set act) es))"
proof -
  have "fold (\<lambda>e n. if e \<in> set act then n + 1 else n) es k = k + int (length (filter (\<lambda>e. e \<in> set act) es))" for k
    by (induction es arbitrary: k) auto
  then show ?thesis by (simp add: CountExpertOverlap_def)
qed

lemma CountNewExperts_eq: "CountNewExperts es act = int (length (filter (\<lambda>e. e \<notin> set act) es))"
proof -
  have "fold (\<lambda>e n. if e \<notin> set act then n + 1 else n) es k = k + int (length (filter (\<lambda>e. e \<notin> set act) es))" for k
    by (induction es arbitrary: k) auto
  then show ?thesis by (simp add: CountNewExperts_def)
qed

lemma CountExperts_total: "CountExpertOverlap es act + CountNewExperts es act = int (length es)"
  by (simp add: CountExpertOverlap_eq CountNewExperts_eq sum_length_filter_compl flip: of_nat_add)

lemma equals_ignore_case_iff: "equals_ignore_case as bs \<longleftrightarrow> map tolower as = map tolower bs"
  by (induction as bs rule: equals_ignore_case.induct) auto

end
