(* ===== verification/Scheduler.thy ===== *)
theory Scheduler
  imports Scheduler_Types
begin

text \<open>
  The scheduler's state and the operations of \<^verbatim>\<open>core/src/runtime/scheduler.cpp\<close> that do not build a
  batch: admission, removal, forking, progress updates, preemption. \<open>Scheduler_Queue\<close> adds the
  passes that build one and composes them into \<^verbatim>\<open>Scheduler::Schedule\<close>.

  Every public method holds the scheduler's mutex for its whole body, so a method is one
  state transformer. The block manager the scheduler points to is a field of its state.
\<close>

record scheduler =
  block_mgr :: block_manager
  config :: scheduler_config
  waiting_queue :: "sequence_group list"
  running_seqs :: "int list"
  swapped_seqs :: "int list"
  seq_status :: "int \<rightharpoonup> sequence_status"
  next_seq_id :: int
  seq_generated_tokens :: "int \<rightharpoonup> int"
  seq_context_len :: "int \<rightharpoonup> int"
  seq_priority :: "int \<rightharpoonup> int"
  seq_arrival :: "int \<rightharpoonup> int"
  seq_prompt_len :: "int \<rightharpoonup> int"
  seq_allow_chunked_prefill :: "int \<rightharpoonup> bool"
  consecutive_decode_batches :: int
  decode_homogeneous_batch_n_past :: bool
  seq_block_ids :: "int \<rightharpoonup> int list"
  seq_predicted_experts :: "int \<rightharpoonup> int list"
  last_empty_reason :: scheduler_empty_reason
  last_unschedulable_reason :: scheduler_unschedulable_reason

section \<open>Construction\<close>

definition clamp_config :: "scheduler_config \<Rightarrow> scheduler_config" where
  "clamp_config cfg =
     (let c1 = cfg\<lparr>max_prefill_tokens := min (max_prefill_tokens cfg) (max 1 (max_num_batched_tokens cfg))\<rparr>;
          c2 = c1\<lparr>max_prefill_seqs := min (max_prefill_seqs c1) (max 1 (max_num_seqs c1))\<rparr>
      in c2\<lparr>max_parallel_prefill_chunk_tokens :=
              min (max_parallel_prefill_chunk_tokens c2) (max_prefill_tokens c2)\<rparr>)"

definition Scheduler :: "block_manager \<Rightarrow> scheduler_config \<Rightarrow> scheduler" where
  "Scheduler bm cfg =
     \<lparr>block_mgr = bm, config = clamp_config cfg, waiting_queue = [], running_seqs = [], swapped_seqs = [],
      seq_status = Map.empty, next_seq_id = 1, seq_generated_tokens = Map.empty,
      seq_context_len = Map.empty, seq_priority = Map.empty, seq_arrival = Map.empty,
      seq_prompt_len = Map.empty, seq_allow_chunked_prefill = Map.empty,
      consecutive_decode_batches = 0,
      decode_homogeneous_batch_n_past = cfg_decode_homogeneous_batch_n_past cfg,
      seq_block_ids = Map.empty, seq_predicted_experts = Map.empty,
      last_empty_reason = EmptyNone, last_unschedulable_reason = UnschedNone\<rparr>"

section \<open>Lookups\<close>

definition GetSequencePriority :: "scheduler \<Rightarrow> int \<Rightarrow> int" where
  "GetSequencePriority s seq_id = (case seq_priority s seq_id of Some p \<Rightarrow> p | None \<Rightarrow> 100)"

definition GetSequenceProgress :: "scheduler \<Rightarrow> int \<Rightarrow> int" where
  "GetSequenceProgress s seq_id = (case seq_generated_tokens s seq_id of Some n \<Rightarrow> n | None \<Rightarrow> 0)"

definition GetSequenceContextLen :: "scheduler \<Rightarrow> int \<Rightarrow> int" where
  "GetSequenceContextLen s seq_id = (case seq_context_len s seq_id of Some n \<Rightarrow> n | None \<Rightarrow> 0)"

definition GetSequenceArrival :: "int \<Rightarrow> scheduler \<Rightarrow> int \<Rightarrow> int" where
  "GetSequenceArrival now s seq_id = (case seq_arrival s seq_id of Some t \<Rightarrow> t | None \<Rightarrow> now)"

definition GetStatus :: "scheduler \<Rightarrow> int \<Rightarrow> sequence_status" where
  "GetStatus s seq_id = (case seq_status s seq_id of Some st \<Rightarrow> st | None \<Rightarrow> FINISHED)"

definition has_seq :: "int \<Rightarrow> sequence_group \<Rightarrow> bool" where
  "has_seq seq_id g \<longleftrightarrow> seq_id \<in> set (sequence_ids g)"

definition FindWaitingGroupLocked :: "scheduler \<Rightarrow> int \<Rightarrow> sequence_group option" where
  "FindWaitingGroupLocked s seq_id = find (has_seq seq_id) (waiting_queue s)"

definition HasRequests :: "scheduler \<Rightarrow> bool" where
  "HasRequests s \<longleftrightarrow> waiting_queue s \<noteq> [] \<or> running_seqs s \<noteq> []"

definition GetMemoryUsage :: "scheduler \<Rightarrow> rat" where
  "GetMemoryUsage s =
     (if num_blocks (block_mgr s) = 0 then 1
      else let used = GetUsedBlockCount (block_mgr s); total = num_blocks (block_mgr s)
           in f32 (f32 (of_int used) / f32 (of_int total)))"

record scheduler_stats =
  waiting_count :: int
  running_count :: int
  swapped_count :: int
  memory_usage :: rat
  stats_empty_reason :: scheduler_empty_reason
  stats_unschedulable_reason :: scheduler_unschedulable_reason

definition GetStats :: "scheduler \<Rightarrow> scheduler_stats" where
  "GetStats s =
     \<lparr>waiting_count = int (length (waiting_queue s)), running_count = int (length (running_seqs s)),
      swapped_count = int (length (swapped_seqs s)), memory_usage = GetMemoryUsage s,
      stats_empty_reason = last_empty_reason s, stats_unschedulable_reason = last_unschedulable_reason s\<rparr>"

section \<open>Admission and removal\<close>

text \<open>
  \<open>salt\<close> is the process-wide hash salt; \<open>prefix_tokens\<close> is \<open>None\<close> for a null pointer. The code passes
  the first \<^verbatim>\<open>prompt_len\<close> tokens of the vector to the prefix cache.
\<close>

definition AddRequest ::
  "u64 \<Rightarrow> int \<Rightarrow> int \<Rightarrow> int \<Rightarrow> int \<Rightarrow> int \<Rightarrow> int list option \<Rightarrow> bool \<Rightarrow> bool \<Rightarrow> int
    \<Rightarrow> (ssm_state list \<Rightarrow> bool) option \<Rightarrow> scheduler \<Rightarrow> int \<times> scheduler" where
  "AddRequest salt now req_id plen max_out prio prefix_tokens allow_chunk require_ssm max_chunk val s =
     (if \<not> allow_chunk \<and> plen > max_num_batched_tokens (config s) then (-1, s)
      else
        let seq_id = next_seq_id s;
            has_prefix = (case prefix_tokens of None \<Rightarrow> False | Some ts \<Rightarrow> ts \<noteq> []);
            group = \<lparr>request_id = req_id, sequence_ids = [seq_id], prompt_len = plen,
                     max_output_len = max_out, priority = prio, arrival_time = now,
                     shared_prefix_len = 0, shared_block_ids = [], num_running_seqs = 0,
                     num_tokens_to_process = plen,
                     max_prefill_chunk_tokens = (if max_chunk > 0 then max_chunk else -1),
                     align_initial_prefill_for_prefix_snapshot = (allow_chunk \<and> require_ssm \<and> has_prefix),
                     generated_tokens = 0, predicted_experts = []\<rparr>;
            (group', bm') =
              (if has_prefix then
                 let (m, bm') = FindLongestCachedPrefixWithVerification salt
                       (take (nat plen) (the prefix_tokens)) require_ssm val (block_mgr s)
                 in (if cached_tokens m > 0 \<and> cached_block_ids m \<noteq> []
                     then group\<lparr>shared_prefix_len := cached_tokens m,
                                shared_block_ids := cached_block_ids m,
                                num_tokens_to_process := max 0 (plen - cached_tokens m)\<rparr>
                     else group, bm')
               else (group, block_mgr s))
        in (seq_id,
            s\<lparr>block_mgr := bm', next_seq_id := next_seq_id s + 1,
              waiting_queue := waiting_queue s @ [group'],
              seq_status := (seq_status s)(seq_id \<mapsto> WAITING),
              seq_priority := (seq_priority s)(seq_id \<mapsto> prio),
              seq_arrival := (seq_arrival s)(seq_id \<mapsto> arrival_time group'),
              seq_generated_tokens := (seq_generated_tokens s)(seq_id \<mapsto> 0),
              seq_context_len := (seq_context_len s)(seq_id \<mapsto> shared_prefix_len group'),
              seq_prompt_len := (seq_prompt_len s)(seq_id \<mapsto> plen),
              seq_allow_chunked_prefill := (seq_allow_chunked_prefill s)(seq_id \<mapsto> allow_chunk)\<rparr>))"

definition CleanupSequenceState :: "int \<Rightarrow> bool \<Rightarrow> bool \<Rightarrow> scheduler \<Rightarrow> scheduler" where
  "CleanupSequenceState seq_id erase_from_waiting free_blocks s =
     (let s1 = (if free_blocks
                then case seq_block_ids s seq_id of
                       None \<Rightarrow> s
                     | Some ids \<Rightarrow> if ids \<noteq> [] then s\<lparr>block_mgr := Free ids (block_mgr s)\<rparr> else s
                else s);
          s2 = (if erase_from_waiting
                then s1\<lparr>waiting_queue := filter (\<lambda>g. \<not> has_seq seq_id g) (waiting_queue s1)\<rparr> else s1)
      in s2\<lparr>running_seqs := us_erase seq_id (running_seqs s2),
            swapped_seqs := us_erase seq_id (swapped_seqs s2),
            seq_priority := (seq_priority s2)(seq_id := None),
            seq_arrival := (seq_arrival s2)(seq_id := None),
            seq_generated_tokens := (seq_generated_tokens s2)(seq_id := None),
            seq_context_len := (seq_context_len s2)(seq_id := None),
            seq_prompt_len := (seq_prompt_len s2)(seq_id := None),
            seq_allow_chunked_prefill := (seq_allow_chunked_prefill s2)(seq_id := None),
            seq_predicted_experts := (seq_predicted_experts s2)(seq_id := None),
            seq_block_ids := (seq_block_ids s2)(seq_id := None)\<rparr>)"

definition RemoveRequest :: "int \<Rightarrow> bool \<Rightarrow> scheduler \<Rightarrow> scheduler" where
  "RemoveRequest seq_id finished s =
     (let s1 = (if seq_status s seq_id \<noteq> None
                then s\<lparr>seq_status := (seq_status s)(seq_id \<mapsto> (if finished then FINISHED else CANCELLED))\<rparr>
                else s)
      in CleanupSequenceState seq_id True False s1)"

text \<open>The code's \<^verbatim>\<open>FreeSequence\<close> is a placeholder that only marks its parameter as used.\<close>

definition FreeSequence :: "int \<Rightarrow> scheduler \<Rightarrow> scheduler" where
  "FreeSequence seq_id s = s"

section \<open>Forking\<close>

fun fork_blocks :: "int list \<Rightarrow> block_manager \<Rightarrow> int list \<times> block_manager" where
  "fork_blocks [] bm = ([], bm)"
| "fork_blocks (b # bs) bm =
     (let (forked_id, bm1) = Fork b bm; (ids, bm2) = fork_blocks bs bm1
      in (if forked_id \<ge> 0 then forked_id # ids else ids, bm2))"

text \<open>
  \<^verbatim>\<open>operator[]\<close> on a missing key inserts the value-initialised element: status \<^verbatim>\<open>WAITING\<close>, count 0.
\<close>

definition ForkSequence :: "int \<Rightarrow> scheduler \<Rightarrow> int \<times> scheduler" where
  "ForkSequence parent s =
     (let new_seq_id = next_seq_id s;
          pstat = (case seq_status s parent of Some st \<Rightarrow> st | None \<Rightarrow> WAITING);
          s1 = s\<lparr>next_seq_id := new_seq_id + 1,
                 seq_status := (seq_status s)(parent \<mapsto> pstat, new_seq_id \<mapsto> pstat)\<rparr>;
          s2 = (case seq_block_ids s1 parent of
                  None \<Rightarrow> s1
                | Some bs \<Rightarrow>
                    let (ids, bm') = fork_blocks bs (block_mgr s1)
                    in s1\<lparr>block_mgr := bm', seq_block_ids := (seq_block_ids s1)(new_seq_id \<mapsto> ids)\<rparr>);
          s3 = (case seq_priority s2 parent of
                  None \<Rightarrow> s2 | Some p \<Rightarrow> s2\<lparr>seq_priority := (seq_priority s2)(new_seq_id \<mapsto> p)\<rparr>);
          s4 = (case seq_arrival s3 parent of
                  None \<Rightarrow> s3 | Some t \<Rightarrow> s3\<lparr>seq_arrival := (seq_arrival s3)(new_seq_id \<mapsto> t)\<rparr>);
          gen = GetSequenceProgress s4 parent
      in (new_seq_id,
          s4\<lparr>seq_generated_tokens := (seq_generated_tokens s4)(parent \<mapsto> gen, new_seq_id \<mapsto> gen),
             seq_context_len := (seq_context_len s4)(new_seq_id \<mapsto> GetSequenceContextLen s4 parent)\<rparr>))"

section \<open>Progress\<close>

definition OnPrefillChunkCompleteLocked :: "int \<Rightarrow> int \<Rightarrow> bool \<Rightarrow> scheduler \<Rightarrow> scheduler" where
  "OnPrefillChunkCompleteLocked seq_id n prefill_finished s0 =
     (if seq_id < 0 \<or> n \<le> 0 then s0
      else
        let s = s0\<lparr>seq_context_len := (seq_context_len s0)(seq_id \<mapsto> GetSequenceContextLen s0 seq_id + n)\<rparr>
        in case FindWaitingGroupLocked s seq_id of
             None \<Rightarrow>
               if prefill_finished
               then s\<lparr>running_seqs := us_insert seq_id (running_seqs s),
                      seq_status := (seq_status s)(seq_id \<mapsto> RUNNING)\<rparr>
               else s
           | Some g \<Rightarrow>
               let left = max 0 (num_tokens_to_process g - n)
               in if prefill_finished \<or> left = 0
                  then s\<lparr>waiting_queue := filter (\<lambda>g. \<not> has_seq seq_id g) (waiting_queue s),
                         running_seqs := us_insert seq_id (running_seqs s),
                         seq_status := (seq_status s)(seq_id \<mapsto> RUNNING)\<rparr>
                  else s\<lparr>waiting_queue :=
                            update_first (has_seq seq_id) (\<lambda>g. g\<lparr>num_tokens_to_process := left\<rparr>) (waiting_queue s),
                         seq_status := (seq_status s)(seq_id \<mapsto> WAITING)\<rparr>)"

definition OnPrefillChunkComplete :: "int \<Rightarrow> int \<Rightarrow> bool \<Rightarrow> scheduler \<Rightarrow> scheduler" where
  "OnPrefillChunkComplete seq_id n fin s = OnPrefillChunkCompleteLocked seq_id n fin s"

definition OnDecodeStepCompleteLocked :: "int \<Rightarrow> int \<Rightarrow> scheduler \<Rightarrow> scheduler" where
  "OnDecodeStepCompleteLocked seq_id n s =
     (if seq_id < 0 \<or> n \<le> 0 then s
      else s\<lparr>running_seqs := us_insert seq_id (running_seqs s),
             seq_status := (seq_status s)(seq_id \<mapsto> RUNNING),
             seq_generated_tokens := (seq_generated_tokens s)(seq_id \<mapsto> GetSequenceProgress s seq_id + n),
             seq_context_len := (seq_context_len s)(seq_id \<mapsto> GetSequenceContextLen s seq_id + n)\<rparr>)"

definition OnDecodeStepComplete :: "int \<Rightarrow> int \<Rightarrow> scheduler \<Rightarrow> scheduler" where
  "OnDecodeStepComplete seq_id n s = OnDecodeStepCompleteLocked seq_id n s"

definition UpdateProgress :: "int \<Rightarrow> int \<Rightarrow> scheduler \<Rightarrow> scheduler" where
  "UpdateProgress seq_id n s =
     (if n \<le> 0 then s
      else case FindWaitingGroupLocked s seq_id of
             Some g \<Rightarrow> OnPrefillChunkCompleteLocked seq_id n (num_tokens_to_process g \<le> n) s
           | None \<Rightarrow> OnDecodeStepCompleteLocked seq_id n s)"

fun UpdateProgressBatch :: "(int \<times> int) list \<Rightarrow> scheduler \<Rightarrow> scheduler" where
  "UpdateProgressBatch [] s = s"
| "UpdateProgressBatch ((seq_id, n) # us) s =
     (if seq_id < 0 \<or> n \<le> 0 then UpdateProgressBatch us s
      else UpdateProgressBatch us
        (case FindWaitingGroupLocked s seq_id of
           Some g \<Rightarrow> OnPrefillChunkCompleteLocked seq_id n (num_tokens_to_process g \<le> n) s
         | None \<Rightarrow> OnDecodeStepCompleteLocked seq_id n s))"

section \<open>Preemption\<close>

abbreviation INT_MAX :: int where "INT_MAX \<equiv> 2147483647"

record victim_scan =
  best_victim :: int
  best_priority :: int
  best_progress :: int
  best_arrival :: int

definition is_better_victim :: "bool \<Rightarrow> int \<Rightarrow> int \<Rightarrow> int \<Rightarrow> victim_scan \<Rightarrow> bool" where
  "is_better_victim prio_enabled prio progress arrival v =
     (if prio_enabled then
        if prio > best_priority v then True
        else if prio = best_priority v then
          if progress < best_progress v then True
          else if progress = best_progress v then best_victim v < 0 \<or> arrival > best_arrival v
          else False
        else False
      else
        if progress < best_progress v then True
        else if progress = best_progress v then best_victim v < 0 \<or> arrival > best_arrival v
        else False)"

definition consider_victim :: "int \<Rightarrow> scheduler \<Rightarrow> int \<Rightarrow> victim_scan \<Rightarrow> victim_scan" where
  "consider_victim now s seq_id v =
     (let prio = GetSequencePriority s seq_id; progress = GetSequenceProgress s seq_id;
          arrival = GetSequenceArrival now s seq_id
      in if is_better_victim (enable_priority (config s)) prio progress arrival v
         then \<lparr>best_victim = seq_id, best_priority = prio, best_progress = progress, best_arrival = arrival\<rparr>
         else v)"

definition SelectPreemptionVictim :: "int \<Rightarrow> scheduler \<Rightarrow> int" where
  "SelectPreemptionVictim now s =
     best_victim (fold (consider_victim now s) (running_seqs s)
       \<lparr>best_victim = -1, best_priority = -1, best_progress = INT_MAX, best_arrival = 0\<rparr>)"

definition PreemptSequences :: "int \<Rightarrow> scheduler \<times> scheduler_output \<Rightarrow> scheduler \<times> scheduler_output" where
  "PreemptSequences now st =
     (case st of (s, out) \<Rightarrow>
        if GetMemoryUsage s \<le> watermark_low (config s) \<or> running_seqs s = [] then (s, out)
        else let victim = SelectPreemptionVictim now s
             in if victim < 0 then (s, out)
                else (s\<lparr>running_seqs := us_erase victim (running_seqs s),
                        swapped_seqs := us_insert victim (swapped_seqs s),
                        seq_status := (seq_status s)(victim \<mapsto> SWAPPED),
                        seq_block_ids := (seq_block_ids s)(victim := None)\<rparr>,
                      out\<lparr>preempted_seq_ids := preempted_seq_ids out @ [victim]\<rparr>))"

end
