(* ===== verification/Scheduler_Queue.thy ===== *)
theory Scheduler_Queue
  imports Scheduler
begin

text \<open>
  The batch-building passes of \<^verbatim>\<open>core/src/runtime/scheduler_queue.cpp\<close>: decode selection
  (\<^verbatim>\<open>ScheduleRunning\<close>), prefill admission (\<^verbatim>\<open>ScheduleWaiting\<close>) and swap-in (\<^verbatim>\<open>ScheduleSwapped\<close>), each a
  function on the scheduler and the output under construction.
\<close>

section \<open>Copy on write and expert predictions\<close>

definition EnsureBlockWritable ::
  "int \<Rightarrow> int \<Rightarrow> (int \<Rightarrow> int \<Rightarrow> 'd \<Rightarrow> 'd) \<Rightarrow> scheduler \<times> 'd \<Rightarrow> int \<times> scheduler \<times> 'd" where
  "EnsureBlockWritable seq_id block_index copy_callback st =
     (case st of (s, d) \<Rightarrow>
        (case seq_block_ids s seq_id of
           None \<Rightarrow> (-1, s, d)
         | Some bs \<Rightarrow>
             if block_index < 0 \<or> block_index \<ge> int (length bs) then (-1, s, d)
             else let old_block_id = bs ! nat block_index
                  in if IsShared (block_mgr s) old_block_id then
                       let (new_block_id, bm', d') = CopyOnWrite old_block_id copy_callback (block_mgr s, d);
                           s' = s\<lparr>block_mgr := bm'\<rparr>
                       in if new_block_id \<ge> 0 \<and> new_block_id \<noteq> old_block_id
                          then (new_block_id,
                                s'\<lparr>seq_block_ids := (seq_block_ids s')(seq_id \<mapsto> bs[nat block_index := new_block_id])\<rparr>, d')
                          else (old_block_id, s', d')
                     else (old_block_id, s, d)))"

definition SetPredictedExperts :: "int \<Rightarrow> int list \<Rightarrow> scheduler \<Rightarrow> scheduler" where
  "SetPredictedExperts seq_id experts s =
     (if seq_predicted_experts s seq_id = Some experts then s
      else s\<lparr>seq_predicted_experts := (seq_predicted_experts s)(seq_id \<mapsto> experts),
             waiting_queue := update_first (has_seq seq_id) (\<lambda>g. g\<lparr>predicted_experts := experts\<rparr>) (waiting_queue s)\<rparr>)"

section \<open>Decode selection\<close>

abbreviation TIME_MAX :: int where "TIME_MAX \<equiv> 9223372036854775807"

text \<open>
  The scan over the unscheduled running sequences. The code keeps indices into the sorted list;
  here the identifiers themselves are kept, \<open>None\<close> for the index \<open>-1\<close>.
\<close>

record decode_scan =
  ds_best :: "int option"
  ds_fallback :: "int option"
  ds_priority :: int
  ds_overlap :: int
  ds_new_experts :: int
  ds_expert_count :: int
  ds_arrival :: int

definition decode_scan_init :: decode_scan where
  "decode_scan_init =
     \<lparr>ds_best = None, ds_fallback = None, ds_priority = INT_MAX, ds_overlap = -1,
      ds_new_experts = INT_MAX, ds_expert_count = INT_MAX, ds_arrival = TIME_MAX\<rparr>"

definition better_decode :: "int list \<Rightarrow> int \<Rightarrow> int \<Rightarrow> int \<Rightarrow> int \<Rightarrow> int \<Rightarrow> decode_scan \<Rightarrow> bool" where
  "better_decode active prio overlap newx cnt arrival d =
     (if ds_best d = None \<or> prio < ds_priority d then True
      else if prio = ds_priority d then
        if active \<noteq> [] \<and> overlap \<noteq> ds_overlap d then overlap > ds_overlap d
        else if active \<noteq> [] \<and> newx \<noteq> ds_new_experts d then newx < ds_new_experts d
        else if active \<noteq> [] \<and> cnt \<noteq> ds_expert_count d then cnt < ds_expert_count d
        else arrival < ds_arrival d
      else False)"

definition consider_decode :: "int \<Rightarrow> scheduler \<Rightarrow> int list \<Rightarrow> int \<Rightarrow> int \<Rightarrow> decode_scan \<Rightarrow> decode_scan" where
  "consider_decode now s active target seq_id d =
     (if decode_homogeneous_batch_n_past s \<and> target \<ge> 0 \<and> GetSequenceContextLen s seq_id \<noteq> target then d
      else
        let d1 = (if ds_fallback d = None then d\<lparr>ds_fallback := Some seq_id\<rparr> else d);
            experts = seq_predicted_experts s seq_id
        in if (case experts of None \<Rightarrow> False | Some es \<Rightarrow> ShouldDeferForMoEBudget seq_id es active (config s)) then d1
           else
             let prio = GetSequencePriority s seq_id;
                 overlap = (case experts of None \<Rightarrow> 0 | Some es \<Rightarrow> CountExpertOverlap es active);
                 newx = (case experts of None \<Rightarrow> 0 | Some es \<Rightarrow> CountNewExperts es active);
                 cnt = (case experts of None \<Rightarrow> 0 | Some es \<Rightarrow> int (length es));
                 arrival = GetSequenceArrival now s seq_id
             in if better_decode active prio overlap newx cnt arrival d1
                then d1\<lparr>ds_best := Some seq_id, ds_priority := prio, ds_overlap := overlap,
                        ds_new_experts := newx, ds_expert_count := cnt, ds_arrival := arrival\<rparr>
                else d1)"

definition pick_decode :: "int \<Rightarrow> scheduler \<Rightarrow> int list \<Rightarrow> int \<Rightarrow> int list \<Rightarrow> scheduler_output \<Rightarrow> int option" where
  "pick_decode now s active target pending out =
     (let d = fold (consider_decode now s active target) pending decode_scan_init
      in if ds_best d = None \<and> ds_fallback d \<noteq> None \<and> decode_seq_ids out = [] then ds_fallback d
         else ds_best d)"

lemma consider_decode_range:
  "ds_best (consider_decode now s active target i d) \<in> {ds_best d, Some i}"
  "ds_fallback (consider_decode now s active target i d) \<in> {ds_fallback d, Some i}"
  by (auto simp: consider_decode_def Let_def)

lemma decode_scan_range:
  "ds_best (fold (consider_decode now s active target) pending d) \<in> insert (ds_best d) (Some ` set pending)"
  "ds_fallback (fold (consider_decode now s active target) pending d) \<in> insert (ds_fallback d) (Some ` set pending)"
proof (induction pending arbitrary: d)
  case (Cons i pending)
  { case 1 show ?case using Cons(1) [of "consider_decode now s active target i d"] consider_decode_range(1) [of now s active target i d] by auto }
  { case 2 show ?case using Cons(2) [of "consider_decode now s active target i d"] consider_decode_range(2) [of now s active target i d] by auto }
qed simp_all

lemma pick_decode_pending: "pick_decode now s active target pending out = Some i \<Longrightarrow> i \<in> set pending"
  using decode_scan_range [of now s active target pending decode_scan_init]
  by (auto simp: pick_decode_def Let_def decode_scan_init_def split: if_splits)

definition admit_decode :: "scheduler \<Rightarrow> int \<Rightarrow> int \<Rightarrow> scheduler_output \<Rightarrow> scheduler_output" where
  "admit_decode s target seq_id out =
     out\<lparr>decode_seq_ids := decode_seq_ids out @ [seq_id],
         num_decode_tokens := num_decode_tokens out + 1,
         total_tokens := total_tokens out + 1,
         batch_context_len := (if target < 0 then GetSequenceContextLen s seq_id else target)\<rparr>"

text \<open>
  The \<^verbatim>\<open>while (true)\<close> loop: \<open>pending\<close> are the running sequences not yet marked scheduled, in sorted
  order. Each round either stops or schedules one of them.
\<close>

function decode_loop ::
  "int \<Rightarrow> scheduler \<Rightarrow> int list \<Rightarrow> int \<Rightarrow> int \<Rightarrow> int list \<Rightarrow> scheduler_output \<Rightarrow> scheduler_output" where
  "decode_loop now s active target budget pending out =
     (case pick_decode now s active target pending out of
        None \<Rightarrow> out
      | Some seq_id \<Rightarrow>
          if int (ScheduledSeqCount out) \<ge> as_size_t (max_num_seqs (config s)) \<or> budget \<le> 0 then out
          else decode_loop now s
                 (case seq_predicted_experts s seq_id of None \<Rightarrow> active | Some es \<Rightarrow> fold us_insert es active)
                 (if target < 0 then GetSequenceContextLen s seq_id else target)
                 (budget - 1) (remove1 seq_id pending) (admit_decode s target seq_id out))"
  by pat_completeness auto
termination
  by (relation "measure (\<lambda>(_, _, _, _, _, pending, _). length pending)")
    (simp_all add: length_remove1_less pick_decode_pending)

definition running_order :: "int \<Rightarrow> scheduler \<Rightarrow> int list \<Rightarrow> int list" where
  "running_order now s ids = sort_key (\<lambda>i. (GetSequencePriority s i, GetSequenceArrival now s i)) ids"

definition ScheduleRunning :: "int \<Rightarrow> scheduler \<Rightarrow> scheduler_output \<Rightarrow> scheduler_output" where
  "ScheduleRunning now s out =
     (let budget = max_num_batched_tokens (config s) - total_tokens out
      in if budget \<le> 0 then
           if empty_reason out = EmptyNone \<and> running_seqs s \<noteq> []
           then out\<lparr>empty_reason := RunningSeqPresentButDecodeUnschedulable\<rparr> else out
         else
           let out' = decode_loop now s [] (-1) budget (running_order now s (running_seqs s)) out
           in if decode_seq_ids out' = [] \<and> running_seqs s \<noteq> [] \<and> empty_reason out' = EmptyNone
              then out'\<lparr>empty_reason := RunningSeqPresentButDecodeUnschedulable\<rparr> else out')"

section \<open>Prefill admission\<close>

definition waiting_order :: "sequence_group list \<Rightarrow> sequence_group list" where
  "waiting_order q = sort_key (\<lambda>g. (priority g, arrival_time g)) q"

text \<open>Expert clustering: the scan for the best group, then the loop that moves it out of \<open>pending\<close>.\<close>

record cluster_scan =
  cs_best :: sequence_group
  cs_index :: nat
  cs_overlap :: int
  cs_new_experts :: int
  cs_expert_count :: int
  cs_priority :: int
  cs_arrival :: int

definition consider_cluster :: "int list \<Rightarrow> nat \<times> sequence_group \<Rightarrow> cluster_scan \<Rightarrow> cluster_scan" where
  "consider_cluster active ig c =
     (case ig of (idx, g) \<Rightarrow>
        let overlap = CountExpertOverlap (predicted_experts g) active;
            newx = CountNewExperts (predicted_experts g) active;
            cnt = int (length (predicted_experts g));
            better =
              (if priority g < cs_priority c then True
               else if priority g = cs_priority c then
                 if active \<noteq> [] \<and> overlap \<noteq> cs_overlap c then overlap > cs_overlap c
                 else if active \<noteq> [] \<and> newx \<noteq> cs_new_experts c then newx < cs_new_experts c
                 else if active \<noteq> [] \<and> cnt \<noteq> cs_expert_count c then cnt < cs_expert_count c
                 else arrival_time g < cs_arrival c
               else False)
        in if better
           then \<lparr>cs_best = g, cs_index = idx, cs_overlap = overlap, cs_new_experts = newx,
                 cs_expert_count = cnt, cs_priority = priority g, cs_arrival = arrival_time g\<rparr>
           else c)"

definition cluster_best :: "int list \<Rightarrow> sequence_group \<Rightarrow> sequence_group list \<Rightarrow> nat \<times> sequence_group" where
  "cluster_best active g gs =
     (let c = fold (consider_cluster active) (enumerate 0 (g # gs))
            \<lparr>cs_best = g, cs_index = 0, cs_overlap = -1, cs_new_experts = INT_MAX,
             cs_expert_count = INT_MAX, cs_priority = priority g, cs_arrival = arrival_time g\<rparr>
      in (cs_index c, cs_best c))"

fun cluster_loop :: "nat \<Rightarrow> int list \<Rightarrow> sequence_group list \<Rightarrow> sequence_group list" where
  "cluster_loop 0 active pending = []"
| "cluster_loop (Suc n) active [] = []"
| "cluster_loop (Suc n) active (g # gs) =
     (let (k, b) = cluster_best active g gs
      in b # cluster_loop n (fold us_insert (predicted_experts b) active)
               (take k (g # gs) @ drop (Suc k) (g # gs)))"

definition sorted_waiting :: "scheduler_config \<Rightarrow> sequence_group list \<Rightarrow> sequence_group list" where
  "sorted_waiting cfg q =
     (let sq = waiting_order q
      in if enable_moe_clustering cfg \<and> length sq > 1 then cluster_loop (length sq) [] sq else sq)"

text \<open>
  The pass over the sorted queue. \<open>wp_scheduler\<close> and \<open>wp_output\<close> are the state under change, the
  other fields the local variables of \<^verbatim>\<open>ScheduleWaiting\<close>; \<open>wp_queue_size\<close> is \<^verbatim>\<open>sorted_queue.size()\<close>.
\<close>

record waiting_pass =
  wp_scheduler :: scheduler
  wp_output :: scheduler_output
  wp_still_waiting :: "sequence_group list"
  wp_active_experts :: "int list"
  wp_target :: int
  wp_budget :: int
  wp_cap :: int
  wp_blocked :: scheduler_empty_reason
  wp_unschedulable :: scheduler_unschedulable_reason
  wp_diagnostic :: int
  wp_queue_size :: nat

definition keep_waiting :: "scheduler_empty_reason \<Rightarrow> int \<Rightarrow> sequence_group \<Rightarrow> waiting_pass \<Rightarrow> waiting_pass" where
  "keep_waiting reason diag g p =
     (let p1 = (if wp_blocked p = EmptyNone then p\<lparr>wp_blocked := reason, wp_diagnostic := diag\<rparr> else p)
      in p1\<lparr>wp_still_waiting := wp_still_waiting p1 @ [g]\<rparr>)"

definition group_diag :: "sequence_group \<Rightarrow> int" where
  "group_diag g = (if sequence_ids g = [] then -1 else hd (sequence_ids g))"

definition can_chunk :: "scheduler \<Rightarrow> int \<Rightarrow> bool" where
  "can_chunk s seq_id \<longleftrightarrow>
     enable_chunked_prefill (config s) \<and>
     (case seq_allow_chunked_prefill s seq_id of None \<Rightarrow> True | Some b \<Rightarrow> b)"

definition prefill_budget :: "bool \<Rightarrow> sequence_group \<Rightarrow> waiting_pass \<Rightarrow> int" where
  "prefill_budget chunk g p =
     (let cfg = config (wp_scheduler p);
          b1 = wp_budget p;
          b2 = (if wp_cap p \<ge> 0 then min b1 (wp_cap p) else b1)
      in if chunk then
           let b3 = min b2 (max_prefill_tokens cfg);
               b4 = (if max_prefill_seqs cfg > 1 \<and> (wp_queue_size p > 1 \<or> prefill_seq_ids (wp_output p) \<noteq> [])
                     then min b3 (max_parallel_prefill_chunk_tokens cfg) else b3)
           in if max_prefill_chunk_tokens g > 0 then min b4 (max_prefill_chunk_tokens g) else b4
         else b2)"

definition tokens_needed :: "bool \<Rightarrow> int \<Rightarrow> int \<Rightarrow> sequence_group \<Rightarrow> int" where
  "tokens_needed chunk budget ctx g =
     (let n = (if chunk then min (num_tokens_to_process g) budget else num_tokens_to_process g)
      in if chunk \<and> align_initial_prefill_for_prefix_snapshot g \<and> ctx = 0 \<and> n > BLOCK_SIZE \<and> n smod BLOCK_SIZE \<noteq> 0
         then n - n smod BLOCK_SIZE else n)"

text \<open>
  Reserving blocks for the chunk: \<open>Inl\<close> of the pass when the group has to wait, \<open>Inr\<close> of the new
  blocks and the pass otherwise. \<^verbatim>\<open>seq_block_ids_[seq_id]\<close> creates an empty entry if there is none.
\<close>

definition reserve_blocks ::
  "int \<Rightarrow> int \<Rightarrow> int \<Rightarrow> sequence_group \<Rightarrow> waiting_pass \<Rightarrow> waiting_pass + (int list \<times> waiting_pass)" where
  "reserve_blocks seq_id ctx n g p0 =
     (let s0 = wp_scheduler p0;
          old = (case seq_block_ids s0 seq_id of None \<Rightarrow> [] | Some bs \<Rightarrow> bs);
          seq_blocks = (if old = [] \<and> shared_block_ids g \<noteq> [] then shared_block_ids g else old);
          s = s0\<lparr>seq_block_ids := (seq_block_ids s0)(seq_id \<mapsto> seq_blocks)\<rparr>;
          p = p0\<lparr>wp_scheduler := s\<rparr>;
          required_blocks = BlocksNeeded (ctx + n);
          k = max 0 (required_blocks - int (length seq_blocks))
      in if k > num_blocks (block_mgr s) then
           Inl ((if wp_unschedulable p = UnschedNone
                 then p\<lparr>wp_unschedulable := RequiredBlocksExceedCapacity, wp_diagnostic := seq_id\<rparr> else p)
                \<lparr>wp_still_waiting := wp_still_waiting p @ [g]\<rparr>)
         else if k > 0 then
           if GetFreeBlockCount (block_mgr s) < k then Inl (keep_waiting NoFreeBlocks seq_id g p)
           else let (new_blocks, bm') = Allocate k (block_mgr s);
                    s' = s\<lparr>block_mgr := bm'\<rparr>
                in if int (length new_blocks) \<noteq> k
                   then Inl (keep_waiting NoFreeBlocks seq_id g (p\<lparr>wp_scheduler := s'\<rparr>))
                   else Inr (new_blocks,
                     p\<lparr>wp_scheduler := s'\<lparr>seq_block_ids := (seq_block_ids s')(seq_id \<mapsto> seq_blocks @ new_blocks)\<rparr>\<rparr>)
         else Inr ([], p))"

definition admit_prefill ::
  "int \<Rightarrow> int \<Rightarrow> int \<Rightarrow> int list \<Rightarrow> sequence_group \<Rightarrow> waiting_pass \<Rightarrow> waiting_pass" where
  "admit_prefill seq_id ctx n new_blocks g p =
     (let out = wp_output p; s = wp_scheduler p;
          target = (if wp_target p < 0 then ctx else wp_target p);
          hit = (shared_prefix_len g > 0 \<and> shared_block_ids g \<noteq> []);
          g' = (if hit then g\<lparr>shared_prefix_len := 0, shared_block_ids := []\<rparr> else g);
          out' = out\<lparr>prefill_seq_ids := prefill_seq_ids out @ [seq_id],
                     prefill_chunks := prefill_chunks out @ [\<lparr>chunk_seq_id = seq_id, chunk_tokens = n\<rparr>],
                     num_prefill_tokens := num_prefill_tokens out + n,
                     total_tokens := total_tokens out + n,
                     batch_context_len := target,
                     new_block_allocations := new_block_allocations out @
                       (if new_blocks \<noteq> [] then [(seq_id, new_blocks)] else []),
                     prefix_cache_hits := prefix_cache_hits out @
                       (if hit then [\<lparr>pci_seq_id = seq_id, pci_cached_tokens = shared_prefix_len g,
                                      pci_cached_block_ids = shared_block_ids g\<rparr>] else [])\<rparr>;
          s' = s\<lparr>seq_generated_tokens := (seq_generated_tokens s)(seq_id \<mapsto> 0),
                 seq_priority := (seq_priority s)(seq_id \<mapsto> priority g),
                 seq_arrival := (seq_arrival s)(seq_id \<mapsto> arrival_time g),
                 seq_status := (seq_status s)(seq_id \<mapsto> WAITING)\<rparr>
      in p\<lparr>wp_scheduler := s', wp_output := out', wp_target := target,
           wp_active_experts := fold us_insert (predicted_experts g) (wp_active_experts p),
           wp_budget := wp_budget p - n,
           wp_cap := (if wp_cap p \<ge> 0 then max 0 (wp_cap p - n) else wp_cap p),
           wp_still_waiting := wp_still_waiting p @ [g']\<rparr>)"

definition cancel_group :: "int \<Rightarrow> waiting_pass \<Rightarrow> waiting_pass" where
  "cancel_group seq_id p =
     (let s = wp_scheduler p;
          s1 = s\<lparr>seq_status := (seq_status s)(seq_id \<mapsto> CANCELLED)\<rparr>;
          p1 = p\<lparr>wp_scheduler := CleanupSequenceState seq_id False True s1\<rparr>
      in if wp_unschedulable p = UnschedNone
         then p1\<lparr>wp_unschedulable := PromptExceedsBatchBudget, wp_diagnostic := seq_id\<rparr> else p1)"

definition promote_group :: "int \<Rightarrow> waiting_pass \<Rightarrow> waiting_pass" where
  "promote_group seq_id p =
     (let s = wp_scheduler p
      in p\<lparr>wp_scheduler := s\<lparr>running_seqs := us_insert seq_id (running_seqs s),
                             seq_status := (seq_status s)(seq_id \<mapsto> RUNNING)\<rparr>\<rparr>)"

text \<open>The second half of the loop body: the chunk size is known and positive.\<close>

definition try_prefill :: "int \<Rightarrow> int \<Rightarrow> int \<Rightarrow> sequence_group \<Rightarrow> waiting_pass \<Rightarrow> waiting_pass" where
  "try_prefill seq_id ctx n g p =
     (let cfg = config (wp_scheduler p); out = wp_output p
      in if enforce_homogeneous_batch_n_past cfg \<and> wp_target p \<ge> 0 \<and> ctx \<noteq> wp_target p
         then keep_waiting ContextBucketMismatch seq_id g p
         else
           let deferred = (enable_moe_clustering cfg \<and> predicted_experts g \<noteq> [] \<and>
                 ShouldDeferForMoEBudget (request_id g) (predicted_experts g) (wp_active_experts p) cfg)
           in if deferred \<and> prefill_seq_ids out \<noteq> [] then keep_waiting MoeBudgetDeferred seq_id g p
              else case reserve_blocks seq_id ctx n g p of
                     Inl p' \<Rightarrow> p'
                   | Inr (new_blocks, p') \<Rightarrow> admit_prefill seq_id ctx n new_blocks g p')"

definition schedule_group :: "sequence_group \<Rightarrow> waiting_pass \<Rightarrow> waiting_pass" where
  "schedule_group g p =
     (let s = wp_scheduler p; cfg = config s; out = wp_output p
      in if int (ScheduledSeqCount out) \<ge> as_size_t (max_num_seqs cfg)
         then keep_waiting MaxNumSeqsReached (group_diag g) g p
         else if int (length (prefill_seq_ids out)) \<ge> as_size_t (max 1 (max_prefill_seqs cfg))
         then keep_waiting MaxPrefillSeqsReached (group_diag g) g p
         else
           let seq_id = hd (sequence_ids g); remaining = num_tokens_to_process g
           in if remaining \<le> 0 then promote_group seq_id p
              else
                let chunk = can_chunk s seq_id
                in if \<not> chunk \<and> remaining > max_num_batched_tokens cfg then cancel_group seq_id p
                   else
                     let budget = prefill_budget chunk g p
                     in if \<not> chunk \<and> remaining > budget then keep_waiting PrefillBudgetZero seq_id g p
                        else
                          let ctx = GetSequenceContextLen s seq_id;
                              n = tokens_needed chunk budget ctx g
                          in if n \<le> 0 then keep_waiting PrefillBudgetZero seq_id g p
                             else try_prefill seq_id ctx n g p)"

definition finish_waiting :: "waiting_pass \<Rightarrow> scheduler \<times> scheduler_output" where
  "finish_waiting p =
     (let s = (wp_scheduler p)\<lparr>waiting_queue := wp_still_waiting p\<rparr>; out = wp_output p
      in (s, if IsEmpty out \<and> waiting_queue s \<noteq> []
             then out\<lparr>empty_reason := (if wp_blocked p = EmptyNone then WaitingSeqPresentButUnschedulable else wp_blocked p),
                      unschedulable_reason := wp_unschedulable p, diagnostic_seq_id := wp_diagnostic p\<rparr>
             else out))"

definition ScheduleWaiting :: "int \<Rightarrow> scheduler \<times> scheduler_output \<Rightarrow> scheduler \<times> scheduler_output" where
  "ScheduleWaiting prefill_token_cap st =
     (case st of (s, out) \<Rightarrow>
        let sq = sorted_waiting (config s) (waiting_queue s)
        in finish_waiting (fold schedule_group sq
             \<lparr>wp_scheduler = s, wp_output = out, wp_still_waiting = [], wp_active_experts = [],
              wp_target = batch_context_len out,
              wp_budget = max_num_batched_tokens (config s) - total_tokens out,
              wp_cap = prefill_token_cap, wp_blocked = EmptyNone, wp_unschedulable = UnschedNone,
              wp_diagnostic = -1, wp_queue_size = length sq\<rparr>))"

section \<open>Swap-in\<close>

record swap_pass =
  sp_scheduler :: scheduler
  sp_output :: scheduler_output
  sp_slots :: int

definition swap_tokens :: "scheduler \<Rightarrow> int \<Rightarrow> int" where
  "swap_tokens s seq_id =
     (let total = (case seq_prompt_len s seq_id of Some n \<Rightarrow> n | None \<Rightarrow> 0) + GetSequenceProgress s seq_id
      in if total \<le> 0 then 1 else total)"

definition swap_in :: "int \<Rightarrow> swap_pass \<Rightarrow> swap_pass" where
  "swap_in seq_id p =
     (let s = sp_scheduler p; out = sp_output p
      in if sp_slots p \<le> 0 then p
         else
           let needed = BlocksNeeded (swap_tokens s seq_id)
           in if GetFreeBlockCount (block_mgr s) < needed then p
              else
                let (new_blocks, bm') = Allocate needed (block_mgr s); s1 = s\<lparr>block_mgr := bm'\<rparr>
                in if new_blocks = [] then p\<lparr>sp_scheduler := s1\<rparr>
                   else p\<lparr>sp_scheduler := s1\<lparr>seq_block_ids := (seq_block_ids s1)(seq_id \<mapsto> new_blocks),
                                             swapped_seqs := us_erase seq_id (swapped_seqs s1),
                                             running_seqs := us_insert seq_id (running_seqs s1),
                                             seq_status := (seq_status s1)(seq_id \<mapsto> RUNNING)\<rparr>,
                          sp_output := out\<lparr>swap_in_seq_ids := swap_in_seq_ids out @ [seq_id],
                                           new_block_allocations := new_block_allocations out @ [(seq_id, new_blocks)]\<rparr>,
                          sp_slots := sp_slots p - 1\<rparr>)"

definition ScheduleSwapped :: "int \<Rightarrow> scheduler \<times> scheduler_output \<Rightarrow> scheduler \<times> scheduler_output" where
  "ScheduleSwapped now st =
     (case st of (s, out) \<Rightarrow>
        if swapped_seqs s = [] then (s, out)
        else let slots = max_num_seqs (config s) - int (length (running_seqs s))
             in if slots \<le> 0 then (s, out)
                else let p = fold swap_in (running_order now s (swapped_seqs s))
                           \<lparr>sp_scheduler = s, sp_output = out, sp_slots = slots\<rparr>
                     in (sp_scheduler p, sp_output p))"

section \<open>One iteration\<close>

definition prefill_first :: "scheduler \<Rightarrow> bool" where
  "prefill_first s =
     (let cfg = config s
      in waiting_queue s \<noteq> [] \<and>
         (if running_seqs s = [] then True
          else if fill_slots_before_first_decode cfg \<and>
                  int (length (running_seqs s)) < as_size_t (max_num_seqs cfg) \<and>
                  list_all (\<lambda>g. num_tokens_to_process g \<le> max_prefill_tokens cfg \<and>
                    (max_prefill_chunk_tokens g \<le> 0 \<or> num_tokens_to_process g \<le> max_prefill_chunk_tokens g))
                    (waiting_queue s) \<and>
                  list_all (\<lambda>i. seq_generated_tokens s i = Some 0) (running_seqs s) then True
          else consecutive_decode_batches s \<ge> max_consecutive_decode_batches cfg))"

fun decode_bucket :: "scheduler \<Rightarrow> int list \<Rightarrow> int \<Rightarrow> int \<times> bool" where
  "decode_bucket s [] bucket = (bucket, True)"
| "decode_bucket s (i # ids) bucket =
     (let ctx = GetSequenceContextLen s i
      in if bucket < 0 then decode_bucket s ids ctx
         else if bucket \<noteq> ctx then (bucket, False)
         else decode_bucket s ids bucket)"

definition clear_reasons :: "scheduler \<Rightarrow> scheduler" where
  "clear_reasons s = s\<lparr>last_empty_reason := EmptyNone, last_unschedulable_reason := UnschedNone\<rparr>"

definition record_reasons :: "scheduler_output \<Rightarrow> scheduler \<Rightarrow> scheduler" where
  "record_reasons out s =
     s\<lparr>last_empty_reason := empty_reason out, last_unschedulable_reason := unschedulable_reason out\<rparr>"

definition mixed_admission :: "scheduler \<times> scheduler_output \<Rightarrow> bool \<times> scheduler \<times> scheduler_output" where
  "mixed_admission st =
     (case st of (s, out) \<Rightarrow>
        if enable_mixed_prefill_decode (config s) \<and> waiting_queue s \<noteq> [] then
          let (bucket, homogeneous) = decode_bucket s (decode_seq_ids out) (-1)
          in if homogeneous \<and> bucket \<ge> 0 then
               let remaining = max 0 (max_num_batched_tokens (config s) - total_tokens out);
                   cap = min (max_mixed_prefill_tokens (config s)) (min (max_prefill_tokens (config s)) remaining)
               in if cap > 0 then
                    let (s', out') = ScheduleWaiting cap (s, out\<lparr>batch_context_len := bucket\<rparr>)
                    in (length (prefill_seq_ids out') > length (prefill_seq_ids out), s', out')
                  else (False, s, out)
             else (False, s, out)
        else (False, s, out))"

definition isolated_decode :: "int \<Rightarrow> scheduler \<times> scheduler_output \<Rightarrow> scheduler \<times> scheduler_output" where
  "isolated_decode now st =
     (case st of (s, out0) \<Rightarrow>
        let out = ScheduleRunning now s out0
        in if decode_seq_ids out \<noteq> [] then
             let (admitted, s', out') = mixed_admission (s, out);
                 s'' = (if admitted \<and> waiting_queue s' = [] then s'\<lparr>consecutive_decode_batches := 0\<rparr>
                        else s'\<lparr>consecutive_decode_batches := consecutive_decode_batches s' + 1\<rparr>)
             in (clear_reasons s'', out')
           else
             let (s', out') = ScheduleWaiting (-1) (s, out);
                 s'' = (if prefill_seq_ids out' \<noteq> [] then s'\<lparr>consecutive_decode_batches := 0\<rparr> else s')
             in (if IsEmpty out' then record_reasons out' s'' else s'', out'))"

definition Schedule :: "int \<Rightarrow> scheduler \<Rightarrow> scheduler \<times> scheduler_output" where
  "Schedule now s0 =
     (let s1 = clear_reasons s0;
          (s2, o2) = (if GetMemoryUsage s1 > watermark_high (config s1)
                      then PreemptSequences now (s1, SchedulerOutput) else (s1, SchedulerOutput));
          (s3, o3) = ScheduleSwapped now (s2, o2)
      in if isolate_prefill_decode (config s3) then
           if prefill_first s3 then
             let (s4, o4) = ScheduleWaiting (-1) (s3, o3)
             in if prefill_seq_ids o4 \<noteq> [] then (clear_reasons (s4\<lparr>consecutive_decode_batches := 0\<rparr>), o4)
                else isolated_decode now (s4, o4)
           else isolated_decode now (s3, o3)
         else
           let (s4, o4) = ScheduleWaiting (-1) (s3, ScheduleRunning now s3 o3)
           in (if IsEmpty o4 then record_reasons o4 s4 else clear_reasons s4, o4))"

definition ScheduleStep :: "int \<Rightarrow> scheduler \<Rightarrow> bool \<times> scheduler \<times> scheduler_output" where
  "ScheduleStep now s = (let (s', out) = Schedule now s in (\<not> IsEmpty out, s', out))"

end
