(* ===== verification/Decode_Laws.thy ===== *)
theory Decode_Laws
  imports Scheduler_Queue
begin

text \<open>
  Laws of decode selection: what \<^verbatim>\<open>ScheduleRunning\<close> adds to a batch, within which limits, and, when no
  expert predictions interfere, that the selection loop is the same as taking a prefix of the
  running sequences in priority order.
\<close>

declare decode_loop.simps [simp del]

definition decode_step :: "int list \<Rightarrow> int \<Rightarrow> scheduler_output \<Rightarrow> scheduler_output" where
  "decode_step ids ctx out =
     out\<lparr>decode_seq_ids := decode_seq_ids out @ ids, num_decode_tokens := num_decode_tokens out + int (length ids),
         total_tokens := total_tokens out + int (length ids), batch_context_len := ctx\<rparr>"

text \<open>With the homogeneous-bucket option only sequences of the target context length are picked.\<close>

definition in_bucket :: "scheduler \<Rightarrow> int \<Rightarrow> int \<Rightarrow> bool" where
  "in_bucket s target i \<longleftrightarrow>
     \<not> (decode_homogeneous_batch_n_past s \<and> target \<ge> 0 \<and> GetSequenceContextLen s i \<noteq> target)"

lemma consider_decode_bucket:
  "\<not> in_bucket s target i \<Longrightarrow> consider_decode now s active target i d = d"
  by (simp add: in_bucket_def consider_decode_def)

lemma decode_scan_filter:
  "fold (consider_decode now s active target) pending d =
   fold (consider_decode now s active target) (filter (in_bucket s target) pending) d"
  by (induction pending arbitrary: d) (simp_all add: consider_decode_bucket)

lemma pick_decode_filter:
  "pick_decode now s active target pending out = pick_decode now s active target (filter (in_bucket s target) pending) out"
  using decode_scan_filter [of now s active target pending decode_scan_init] by (simp only: pick_decode_def)

lemma pick_decode_bucket:
  "pick_decode now s active target pending out = Some i \<Longrightarrow> in_bucket s target i"
  using pick_decode_pending [of now s active target "filter (in_bucket s target) pending" out i]
  by (subst (asm) pick_decode_filter) simp

lemma decode_loop_spec:
  assumes "distinct pending" and "\<forall>i \<in> set pending. 0 \<le> GetSequenceContextLen s i"
  shows "\<exists>ids ctx. decode_loop now s active target budget pending out = decode_step ids ctx out \<and>
    distinct ids \<and> set ids \<subseteq> set pending \<and> int (length ids) \<le> max 0 budget \<and>
    (ids \<noteq> [] \<longrightarrow> int (ScheduledSeqCount out + length ids) \<le> as_size_t (max_num_seqs (config s))) \<and>
    (ids = [] \<longrightarrow> ctx = batch_context_len out) \<and>
    (ids \<noteq> [] \<longrightarrow> ctx = (if target < 0 then GetSequenceContextLen s (hd ids) else target)) \<and>
    (decode_homogeneous_batch_n_past s \<longrightarrow> (\<forall>i \<in> set ids. GetSequenceContextLen s i = ctx))"
  using assms
proof (induction now s active target budget pending out rule: decode_loop.induct)
  case (1 now s active target budget pending out)
  let ?stop = "int (ScheduledSeqCount out) \<ge> as_size_t (max_num_seqs (config s)) \<or> budget \<le> 0"
  show ?case
  proof (cases "pick_decode now s active target pending out")
    case None
    then show ?thesis
      by (intro exI [of _ "[]"] exI [of _ "batch_context_len out"]) (simp add: decode_step_def decode_loop.simps)
  next
    case (Some i)
    show ?thesis
    proof (cases ?stop)
      case True
      then show ?thesis using Some
        by (intro exI [of _ "[]"] exI [of _ "batch_context_len out"]) (auto simp: decode_step_def decode_loop.simps)
    next
      case False
      let ?t = "if target < 0 then GetSequenceContextLen s i else target"
      let ?a = "case seq_predicted_experts s i of None \<Rightarrow> active | Some es \<Rightarrow> fold us_insert es active"
      have dr: "distinct (remove1 i pending)" using "1.prems"(1) by (rule distinct_remove1)
      have nn: "\<forall>j \<in> set (remove1 i pending). 0 \<le> GetSequenceContextLen s j"
        using "1.prems"(2) set_remove1_subset [of i pending] by blast
      obtain ids ctx where IH: "decode_loop now s ?a ?t (budget - 1) (remove1 i pending) (admit_decode s target i out) =
            decode_step ids ctx (admit_decode s target i out)"
          "distinct ids" "set ids \<subseteq> set (remove1 i pending)" "int (length ids) \<le> max 0 (budget - 1)"
          "ids \<noteq> [] \<longrightarrow> int (ScheduledSeqCount (admit_decode s target i out) + length ids) \<le> as_size_t (max_num_seqs (config s))"
          "ids = [] \<longrightarrow> ctx = batch_context_len (admit_decode s target i out)"
          "ids \<noteq> [] \<longrightarrow> ctx = (if ?t < 0 then GetSequenceContextLen s (hd ids) else ?t)"
          "decode_homogeneous_batch_n_past s \<longrightarrow> (\<forall>i \<in> set ids. GetSequenceContextLen s i = ctx)"
        using "1.IH" [OF Some False dr nn] by blast
      have i: "i \<in> set pending" "i \<notin> set ids"
        using pick_decode_pending [OF Some] IH(3) "1.prems" by auto
      have t: "0 \<le> ?t" using "1.prems"(2) i(1) by auto
      have hom: "decode_homogeneous_batch_n_past s \<longrightarrow> GetSequenceContextLen s i = ?t"
        using pick_decode_bucket [OF Some] by (auto simp: in_bucket_def)
      have cnt: "ScheduledSeqCount (admit_decode s target i out) = Suc (ScheduledSeqCount out)"
        by (simp add: ScheduledSeqCount_def admit_decode_def)
      have eq: "decode_loop now s active target budget pending out = decode_step (i # ids) ctx out"
        using Some False IH(1) by (subst decode_loop.simps) (simp add: decode_step_def admit_decode_def)
      show ?thesis
      proof (intro exI conjI)
        show "decode_loop now s active target budget pending out = decode_step (i # ids) ctx out" by (rule eq)
        show "distinct (i # ids)" using IH(2) i by simp
        show "set (i # ids) \<subseteq> set pending" using i IH(3) set_remove1_subset by fastforce
        show "int (length (i # ids)) \<le> max 0 budget" using IH(4) False by auto
        show "i # ids \<noteq> [] \<longrightarrow> int (ScheduledSeqCount out + length (i # ids)) \<le> as_size_t (max_num_seqs (config s))"
          using IH(5) False cnt by (cases ids) auto
        have ctx: "ctx = ?t" using IH(6,7) t by (cases ids) (auto simp: admit_decode_def)
        then show "i # ids \<noteq> [] \<longrightarrow> ctx = (if target < 0 then GetSequenceContextLen s (hd (i # ids)) else target)" by simp
        show "decode_homogeneous_batch_n_past s \<longrightarrow> (\<forall>j \<in> set (i # ids). GetSequenceContextLen s j = ctx)"
          using hom ctx IH(8) by simp
      qed simp
    qed
  qed
qed

section \<open>A runnable sequence is never passed over entirely\<close>

lemma consider_decode_fallback:
  "in_bucket s target i \<Longrightarrow> ds_fallback (consider_decode now s active target i d) \<noteq> None"
  "ds_fallback d \<noteq> None \<Longrightarrow> ds_fallback (consider_decode now s active target i d) \<noteq> None"
  by (auto simp: consider_decode_def in_bucket_def Let_def)

lemma decode_scan_fallback:
  "ds_fallback d \<noteq> None \<Longrightarrow> ds_fallback (fold (consider_decode now s active target) pending d) \<noteq> None"
proof (induction pending arbitrary: d)
  case (Cons i pending)
  show ?case using Cons.IH [OF consider_decode_fallback(2) [OF Cons.prems]] by simp
qed simp

lemma pick_decode_some:
  assumes "i \<in> set pending" and "in_bucket s target i" and "decode_seq_ids out = []"
  shows "pick_decode now s active target pending out \<noteq> None"
proof -
  obtain us vs where "pending = us @ i # vs" using assms(1) by (meson split_list)
  then have "ds_fallback (fold (consider_decode now s active target) pending decode_scan_init) \<noteq> None"
    using decode_scan_fallback [OF consider_decode_fallback(1) [OF assms(2)]] by simp
  then show ?thesis using assms(3) by (auto simp: pick_decode_def Let_def)
qed

lemma decode_loop_progress:
  assumes "distinct pending" and "\<forall>i \<in> set pending. 0 \<le> GetSequenceContextLen s i" and "pending \<noteq> []" and "0 < budget"
    and "int (ScheduledSeqCount out) < as_size_t (max_num_seqs (config s))" and "decode_seq_ids out = []"
  shows "decode_seq_ids (decode_loop now s active (-1) budget pending out) \<noteq> []"
proof -
  have "hd pending \<in> set pending" using assms(3) by simp
  then obtain i where i: "pick_decode now s active (-1) pending out = Some i"
    using pick_decode_some [of "hd pending" pending s "-1" out now active] assms(6) by (auto simp: in_bucket_def)
  let ?a = "case seq_predicted_experts s i of None \<Rightarrow> active | Some es \<Rightarrow> fold us_insert es active"
  let ?r = "decode_loop now s ?a (GetSequenceContextLen s i) (budget - 1) (remove1 i pending) (admit_decode s (-1) i out)"
  have eq: "decode_loop now s active (-1) budget pending out = ?r"
    using i assms(4,5) by (subst decode_loop.simps) simp
  have "\<exists>ids ctx. ?r = decode_step ids ctx (admit_decode s (-1) i out)"
    using decode_loop_spec [of "remove1 i pending" s now ?a "GetSequenceContextLen s i" "budget - 1" "admit_decode s (-1) i out"]
      assms(1,2) set_remove1_subset [of i pending] distinct_remove1 [OF assms(1), of i] by blast
  then show ?thesis unfolding eq by (auto simp: decode_step_def admit_decode_def)
qed

section \<open>Without expert predictions: a prefix in priority order\<close>

abbreviation decode_key :: "int \<Rightarrow> scheduler \<Rightarrow> int \<Rightarrow> int \<times> int" where
  "decode_key now s i \<equiv> (GetSequencePriority s i, GetSequenceArrival now s i)"

lemma decode_scan_keeps_best:
  assumes "\<forall>j \<in> set pending. seq_predicted_experts s j = None \<and> decode_key now s i \<le> decode_key now s j"
    and "ds_best d = Some i" "ds_priority d = GetSequencePriority s i" "ds_arrival d = GetSequenceArrival now s i"
  shows "ds_best (fold (consider_decode now s [] target) pending d) = Some i"
  using assms
proof (induction pending arbitrary: d)
  case (Cons j pending)
  have "consider_decode now s [] target j d \<in> {d, d\<lparr>ds_fallback := Some j\<rparr>}"
    using Cons.prems by (auto simp: consider_decode_def Let_def better_decode_def)
  then show ?case using Cons by auto
qed simp

lemma pick_decode_first:
  assumes "sorted (map (decode_key now s) (i # pending))" and "\<forall>j \<in> set (i # pending). seq_predicted_experts s j = None"
    and "\<not> decode_homogeneous_batch_n_past s"
  shows "pick_decode now s [] target (i # pending) out = Some i"
proof -
  have "ds_best (fold (consider_decode now s [] target) pending (consider_decode now s [] target i decode_scan_init)) = Some i"
    by (rule decode_scan_keeps_best)
      (use assms in \<open>auto simp: consider_decode_def Let_def better_decode_def decode_scan_init_def\<close>)
  then show ?thesis by (simp add: pick_decode_def Let_def)
qed

lemma decode_loop_prefix:
  assumes "sorted (map (decode_key now s) pending)" and "\<forall>j \<in> set pending. seq_predicted_experts s j = None"
    and "\<not> decode_homogeneous_batch_n_past s" and "distinct pending"
  shows "decode_seq_ids (decode_loop now s [] target budget pending out) = decode_seq_ids out @
    take (nat (min budget (as_size_t (max_num_seqs (config s)) - int (ScheduledSeqCount out)))) pending"
  using assms
proof (induction pending arbitrary: target budget out)
  case Nil
  then show ?case by (subst decode_loop.simps) (simp add: pick_decode_def decode_scan_init_def)
next
  case (Cons i pending)
  note p = pick_decode_first [OF Cons.prems(1-3), of target out]
  let ?k = "min budget (as_size_t (max_num_seqs (config s)) - int (ScheduledSeqCount out))"
  show ?case
  proof (cases "?k \<le> 0")
    case True
    then show ?thesis using p by (subst decode_loop.simps) auto
  next
    case False
    let ?out = "admit_decode s target i out"
    have cnt: "ScheduledSeqCount ?out = Suc (ScheduledSeqCount out)"
      by (simp add: ScheduledSeqCount_def admit_decode_def)
    have "decode_loop now s [] target budget (i # pending) out =
        decode_loop now s [] (if target < 0 then GetSequenceContextLen s i else target) (budget - 1) pending ?out"
      using p False Cons.prems by (subst decode_loop.simps) auto
    moreover have "nat ?k = Suc (nat (min (budget - 1) (as_size_t (max_num_seqs (config s)) - int (ScheduledSeqCount ?out))))"
      using False cnt by (auto simp: min_def)
    ultimately show ?thesis using Cons.IH [where out = ?out] Cons.prems by (simp add: admit_decode_def)
  qed
qed

section \<open>The pass as a whole\<close>

lemma set_running_order [simp]: "set (running_order now s ids) = set ids"
  by (simp add: running_order_def)

lemma distinct_running_order [simp]: "distinct (running_order now s ids) = distinct ids"
  by (simp add: running_order_def)

lemma ScheduleRunning_spec:
  assumes "distinct (running_seqs s)" and "\<forall>i \<in> set (running_seqs s). 0 \<le> GetSequenceContextLen s i"
  obtains ids ctx reason where "ScheduleRunning now s out = (decode_step ids ctx out)\<lparr>empty_reason := reason\<rparr>"
    "distinct ids" "set ids \<subseteq> set (running_seqs s)"
    "int (length ids) \<le> max 0 (max_num_batched_tokens (config s) - total_tokens out)"
    "ids \<noteq> [] \<longrightarrow> int (ScheduledSeqCount out + length ids) \<le> as_size_t (max_num_seqs (config s))"
    "ids = [] \<longrightarrow> ctx = batch_context_len out"
    "ids \<noteq> [] \<longrightarrow> ctx = GetSequenceContextLen s (hd ids)"
    "decode_homogeneous_batch_n_past s \<longrightarrow> (\<forall>i \<in> set ids. GetSequenceContextLen s i = ctx)"
proof (cases "max_num_batched_tokens (config s) - total_tokens out \<le> 0")
  case True
  then have "ScheduleRunning now s out = (decode_step [] (batch_context_len out) out)
      \<lparr>empty_reason := (if empty_reason out = EmptyNone \<and> running_seqs s \<noteq> []
         then RunningSeqPresentButDecodeUnschedulable else empty_reason out)\<rparr>"
    by (simp add: ScheduleRunning_def decode_step_def)
  then show ?thesis using that by auto
next
  case False
  let ?b = "max_num_batched_tokens (config s) - total_tokens out"
  have d: "distinct (running_order now s (running_seqs s))"
    and n: "\<forall>i \<in> set (running_order now s (running_seqs s)). 0 \<le> GetSequenceContextLen s i" using assms by simp_all
  obtain ids ctx where L: "decode_loop now s [] (-1) ?b (running_order now s (running_seqs s)) out = decode_step ids ctx out"
    "distinct ids" "set ids \<subseteq> set (running_order now s (running_seqs s))" "int (length ids) \<le> max 0 ?b"
    "ids \<noteq> [] \<longrightarrow> int (ScheduledSeqCount out + length ids) \<le> as_size_t (max_num_seqs (config s))"
    "ids = [] \<longrightarrow> ctx = batch_context_len out"
    "ids \<noteq> [] \<longrightarrow> ctx = (if (-1::int) < 0 then GetSequenceContextLen s (hd ids) else -1)"
    "decode_homogeneous_batch_n_past s \<longrightarrow> (\<forall>i \<in> set ids. GetSequenceContextLen s i = ctx)"
    using decode_loop_spec [OF d n, of now "[]" "-1" ?b out] by blast
  let ?reason = "if decode_seq_ids (decode_step ids ctx out) = [] \<and> running_seqs s \<noteq> [] \<and> empty_reason (decode_step ids ctx out) = EmptyNone
    then RunningSeqPresentButDecodeUnschedulable else empty_reason (decode_step ids ctx out)"
  have "ScheduleRunning now s out = (decode_step ids ctx out)\<lparr>empty_reason := ?reason\<rparr>"
    using False L(1) by (simp add: ScheduleRunning_def Let_def)
  then show ?thesis using that L(2-8) by simp
qed

end
