(* ===== verification/Prefill_Laws.thy ===== *)
theory Prefill_Laws
  imports Decode_Laws
begin

text \<open>
  Laws of prefill admission. \<open>schedule_group_outcome\<close> splits the loop body of \<^verbatim>\<open>ScheduleWaiting\<close> into its
  four outcomes (kept waiting, promoted to running, cancelled, admitted with a chunk); every
  property of the pass is an induction over the sorted queue with that split.
\<close>

section \<open>Well-formed groups\<close>

definition gid :: "sequence_group \<Rightarrow> int" where
  "gid g = hd (sequence_ids g)"

definition group_ok :: "sequence_group \<Rightarrow> bool" where
  "group_ok g \<longleftrightarrow> sequence_ids g = [gid g]"

lemma group_ok_has_seq [simp]: "group_ok g \<Longrightarrow> has_seq i g \<longleftrightarrow> i = gid g"
  by (simp add: group_ok_def has_seq_def)

section \<open>Reserving blocks\<close>

definition group_blocks :: "scheduler \<Rightarrow> int \<Rightarrow> sequence_group \<Rightarrow> int list" where
  "group_blocks s i g =
     (let old = (case seq_block_ids s i of None \<Rightarrow> [] | Some bs \<Rightarrow> bs)
      in if old = [] \<and> shared_block_ids g \<noteq> [] then shared_block_ids g else old)"

definition kept :: "int \<Rightarrow> sequence_group \<Rightarrow> waiting_pass \<Rightarrow> waiting_pass \<Rightarrow> bool" where
  "kept i g p p' \<longleftrightarrow>
     (\<exists>ids bl un di. ids \<in> {seq_block_ids (wp_scheduler p), (seq_block_ids (wp_scheduler p))(i \<mapsto> group_blocks (wp_scheduler p) i g)} \<and>
        p' = p\<lparr>wp_scheduler := (wp_scheduler p)\<lparr>seq_block_ids := ids\<rparr>, wp_still_waiting := wp_still_waiting p @ [g],
               wp_blocked := bl, wp_unschedulable := un, wp_diagnostic := di\<rparr>)"

definition reserved :: "int \<Rightarrow> sequence_group \<Rightarrow> int list \<Rightarrow> block_manager \<Rightarrow> waiting_pass \<Rightarrow> waiting_pass" where
  "reserved i g nb bm' p =
     p\<lparr>wp_scheduler := (wp_scheduler p)\<lparr>block_mgr := bm',
        seq_block_ids := (seq_block_ids (wp_scheduler p))(i \<mapsto> group_blocks (wp_scheduler p) i g @ nb)\<rparr>\<rparr>"

lemma kept_keep_waiting: "kept i g p (keep_waiting r d g p)"
proof -
  let ?p = "if wp_blocked p = EmptyNone then p\<lparr>wp_blocked := r, wp_diagnostic := d\<rparr> else p"
  show ?thesis unfolding kept_def
    by (intro exI [of _ "seq_block_ids (wp_scheduler p)"] exI [of _ "wp_blocked ?p"] exI [of _ "wp_unschedulable p"]
        exI [of _ "wp_diagnostic ?p"]) (simp add: keep_waiting_def Let_def)
qed

lemma kept_with_blocks:
  assumes "p1 = p\<lparr>wp_scheduler := (wp_scheduler p)\<lparr>seq_block_ids := (seq_block_ids (wp_scheduler p))(i \<mapsto> group_blocks (wp_scheduler p) i g)\<rparr>\<rparr>"
    and "wp_scheduler p' = wp_scheduler p1" and "wp_still_waiting p' = wp_still_waiting p1 @ [g]"
    and "p' = p1\<lparr>wp_still_waiting := wp_still_waiting p', wp_blocked := wp_blocked p', wp_unschedulable := wp_unschedulable p',
      wp_diagnostic := wp_diagnostic p'\<rparr>"
  shows "kept i g p p'"
  unfolding kept_def
  by (intro exI [of _ "(seq_block_ids (wp_scheduler p))(i \<mapsto> group_blocks (wp_scheduler p) i g)"] exI [of _ "wp_blocked p'"]
      exI [of _ "wp_unschedulable p'"] exI [of _ "wp_diagnostic p'"], subst assms(4)) (simp add: assms(1,3))

lemma reserve_blocks_spec:
  assumes inv: "bm_inv (block_mgr (wp_scheduler p))"
  shows "case reserve_blocks i ctx n g p of
      Inl p' \<Rightarrow> kept i g p p'
    | Inr (nb, p') \<Rightarrow> \<exists>bm'. takes (block_mgr (wp_scheduler p)) nb bm' \<and> p' = reserved i g nb bm' p \<and>
        BlocksNeeded (ctx + n) \<le> int (length (group_blocks (wp_scheduler p) i g @ nb))"
proof -
  define s where "s = (wp_scheduler p)\<lparr>seq_block_ids := (seq_block_ids (wp_scheduler p))(i \<mapsto> group_blocks (wp_scheduler p) i g)\<rparr>"
  define p1 where "p1 = p\<lparr>wp_scheduler := s\<rparr>"
  define k where "k = max 0 (BlocksNeeded (ctx + n) - int (length (group_blocks (wp_scheduler p) i g)))"
  have bm: "block_mgr s = block_mgr (wp_scheduler p)" by (simp add: s_def)
  have eq: "reserve_blocks i ctx n g p =
      (if k > num_blocks (block_mgr s) then
         Inl ((if wp_unschedulable p1 = UnschedNone
               then p1\<lparr>wp_unschedulable := RequiredBlocksExceedCapacity, wp_diagnostic := i\<rparr> else p1)
              \<lparr>wp_still_waiting := wp_still_waiting p1 @ [g]\<rparr>)
       else if k > 0 then
         if GetFreeBlockCount (block_mgr s) < k then Inl (keep_waiting NoFreeBlocks i g p1)
         else let (nb, bm') = Allocate k (block_mgr s); s' = s\<lparr>block_mgr := bm'\<rparr>
              in if int (length nb) \<noteq> k
                 then Inl (keep_waiting NoFreeBlocks i g (p1\<lparr>wp_scheduler := s'\<rparr>))
                 else Inr (nb, p1\<lparr>wp_scheduler := s'\<lparr>seq_block_ids := (seq_block_ids s')(i \<mapsto> group_blocks (wp_scheduler p) i g @ nb)\<rparr>\<rparr>)
       else Inr ([], p1))"
    unfolding reserve_blocks_def Let_def group_blocks_def s_def p1_def k_def by simp
  have keep: "kept i g p (keep_waiting NoFreeBlocks i g p1)"
    by (rule kept_with_blocks [OF p1_def [unfolded s_def]]) (simp_all add: keep_waiting_def Let_def)
  consider (big) "k > num_blocks (block_mgr s)" | (none) "k = 0"
    | (few) "\<not> k > num_blocks (block_mgr s)" "k > 0" "GetFreeBlockCount (block_mgr s) < k"
    | (alloc) "\<not> k > num_blocks (block_mgr s)" "k > 0" "\<not> GetFreeBlockCount (block_mgr s) < k"
    unfolding k_def by linarith
  then show ?thesis
  proof cases
    case big
    then show ?thesis unfolding eq
      by (simp) (intro conjI impI kept_with_blocks [OF p1_def [unfolded s_def]]; simp)
  next
    case none
    have "num_blocks (block_mgr s) \<ge> 0" using inv bm by (simp add: bm_inv_def)
    moreover have "p1 = reserved i g [] (block_mgr (wp_scheduler p)) p" by (simp add: p1_def s_def reserved_def)
    moreover have "BlocksNeeded (ctx + n) \<le> int (length (group_blocks (wp_scheduler p) i g))" using none by (simp add: k_def)
    ultimately show ?thesis unfolding eq using none takes_Nil [OF inv] by auto
  next
    case few
    then show ?thesis unfolding eq using keep by simp
  next
    case alloc
    obtain nb bm' where a: "Allocate k (block_mgr s) = (nb, bm')" by fastforce
    have "k \<le> int (card (available (block_mgr s)))"
      using alloc GetFreeBlockCount_le_available [of "block_mgr s"] inv bm by simp
    then have t: "int (length nb) = k" "takes (block_mgr s) nb bm'"
      using Allocate_spec [OF _ alloc(2) a] inv bm by auto
    have "BlocksNeeded (ctx + n) \<le> int (length (group_blocks (wp_scheduler p) i g @ nb))" using t(1) alloc(2) by (simp add: k_def)
    moreover have "reserve_blocks i ctx n g p = Inr (nb, reserved i g nb bm' p)"
      unfolding eq using alloc a t(1) by (simp add: p1_def s_def reserved_def)
    ultimately show ?thesis using t(2) bm by auto
  qed
qed

section \<open>The loop body\<close>

lemma prefill_budget_le:
  "prefill_budget chunk g p \<le> wp_budget p"
  "0 \<le> wp_cap p \<Longrightarrow> prefill_budget chunk g p \<le> wp_cap p"
  "chunk \<Longrightarrow> prefill_budget chunk g p \<le> max_prefill_tokens (config (wp_scheduler p))"
  "chunk \<Longrightarrow> 0 < max_prefill_chunk_tokens g \<Longrightarrow> prefill_budget chunk g p \<le> max_prefill_chunk_tokens g"
  unfolding prefill_budget_def Let_def by auto

lemma tokens_needed_le:
  assumes "0 < tokens_needed chunk b ctx g" and "\<not> chunk \<Longrightarrow> num_tokens_to_process g \<le> b"
  shows "tokens_needed chunk b ctx g \<le> b" "tokens_needed chunk b ctx g \<le> num_tokens_to_process g"
    "\<not> chunk \<Longrightarrow> tokens_needed chunk b ctx g = num_tokens_to_process g"
proof -
  have m: "0 \<le> x smod BLOCK_SIZE" if "BLOCK_SIZE < x" for x :: int using that by (simp add: smod_nonneg)
  show "tokens_needed chunk b ctx g \<le> b" "tokens_needed chunk b ctx g \<le> num_tokens_to_process g"
    "\<not> chunk \<Longrightarrow> tokens_needed chunk b ctx g = num_tokens_to_process g"
    using assms m [of "min (num_tokens_to_process g) b"] by (auto simp: tokens_needed_def Let_def split: if_splits)
qed

text \<open>What holds when a group is admitted with a chunk of \<open>n\<close> tokens.\<close>

definition admissible :: "sequence_group \<Rightarrow> waiting_pass \<Rightarrow> int \<Rightarrow> bool" where
  "admissible g p n \<longleftrightarrow>
     (let s = wp_scheduler p; cfg = config s; out = wp_output p; ctx = GetSequenceContextLen s (gid g)
      in 0 < n \<and> n \<le> num_tokens_to_process g \<and> n \<le> wp_budget p \<and> (0 \<le> wp_cap p \<longrightarrow> n \<le> wp_cap p) \<and>
         (if can_chunk s (gid g) then n \<le> max_prefill_tokens cfg else n = num_tokens_to_process g) \<and>
         int (ScheduledSeqCount out) < as_size_t (max_num_seqs cfg) \<and>
         int (length (prefill_seq_ids out)) < as_size_t (max 1 (max_prefill_seqs cfg)) \<and>
         (enforce_homogeneous_batch_n_past cfg \<and> 0 \<le> wp_target p \<longrightarrow> ctx = wp_target p))"

lemma try_prefill_outcome:
  assumes inv: "bm_inv (block_mgr (wp_scheduler p))"
    and adm: "enforce_homogeneous_batch_n_past (config (wp_scheduler p)) \<and> 0 \<le> wp_target p \<longrightarrow> ctx = wp_target p \<Longrightarrow> A"
  shows "kept i g p (try_prefill i ctx n g p) \<or>
    (A \<and> (\<exists>nb bm'. takes (block_mgr (wp_scheduler p)) nb bm' \<and>
      BlocksNeeded (ctx + n) \<le> int (length (group_blocks (wp_scheduler p) i g @ nb)) \<and>
      try_prefill i ctx n g p = admit_prefill i ctx n nb g (reserved i g nb bm' p)))"
proof (cases "reserve_blocks i ctx n g p")
  case (Inl p')
  then have "kept i g p p'" using reserve_blocks_spec [OF inv, where i = i and ctx = ctx and n = n and g = g] by simp
  then show ?thesis using Inl kept_keep_waiting by (simp add: try_prefill_def Let_def)
next
  case (Inr r)
  obtain nb p' where r: "r = (nb, p')" by fastforce
  from reserve_blocks_spec [OF inv, where i = i and ctx = ctx and n = n and g = g]
  obtain bm' where b: "takes (block_mgr (wp_scheduler p)) nb bm'" "p' = reserved i g nb bm' p"
    "BlocksNeeded (ctx + n) \<le> int (length (group_blocks (wp_scheduler p) i g @ nb))" by (auto simp: Inr r)
  show ?thesis
  proof (cases "kept i g p (try_prefill i ctx n g p)")
    case False
    then have h: "enforce_homogeneous_batch_n_past (config (wp_scheduler p)) \<and> 0 \<le> wp_target p \<longrightarrow> ctx = wp_target p"
      and e: "try_prefill i ctx n g p = admit_prefill i ctx n nb g p'"
      using kept_keep_waiting by (auto simp: try_prefill_def Let_def Inr r split: if_splits)
    then show ?thesis using adm [OF h] b by auto
  qed simp
qed

lemma schedule_group_outcome:
  assumes inv: "bm_inv (block_mgr (wp_scheduler p))"
  obtains (keep) "kept (gid g) g p (schedule_group g p)"
  | (promote) "num_tokens_to_process g \<le> 0" "schedule_group g p = promote_group (gid g) p"
  | (cancel) "\<not> can_chunk (wp_scheduler p) (gid g)" "max_num_batched_tokens (config (wp_scheduler p)) < num_tokens_to_process g"
      "schedule_group g p = cancel_group (gid g) p"
  | (admit) n nb bm' where "admissible g p n" "takes (block_mgr (wp_scheduler p)) nb bm'"
      "BlocksNeeded (GetSequenceContextLen (wp_scheduler p) (gid g) + n) \<le> int (length (group_blocks (wp_scheduler p) (gid g) g @ nb))"
      "schedule_group g p =
         admit_prefill (gid g) (GetSequenceContextLen (wp_scheduler p) (gid g)) n nb g (reserved (gid g) g nb bm' p)"
proof -
  let ?s = "wp_scheduler p" and ?cfg = "config (wp_scheduler p)" and ?out = "wp_output p"
  let ?chunk = "can_chunk ?s (gid g)" and ?ctx = "GetSequenceContextLen ?s (gid g)"
  let ?b = "prefill_budget ?chunk g p"
  let ?n = "tokens_needed ?chunk ?b ?ctx g"
  have hd: "hd (sequence_ids g) = gid g" by (simp add: gid_def)
  consider (full) "int (ScheduledSeqCount ?out) \<ge> as_size_t (max_num_seqs ?cfg) \<or>
        int (length (prefill_seq_ids ?out)) \<ge> as_size_t (max 1 (max_prefill_seqs ?cfg))"
    | (processed) "\<not> (int (ScheduledSeqCount ?out) \<ge> as_size_t (max_num_seqs ?cfg))"
        "\<not> int (length (prefill_seq_ids ?out)) \<ge> as_size_t (max 1 (max_prefill_seqs ?cfg))" "num_tokens_to_process g \<le> 0"
    | (over) "\<not> (int (ScheduledSeqCount ?out) \<ge> as_size_t (max_num_seqs ?cfg))"
        "\<not> int (length (prefill_seq_ids ?out)) \<ge> as_size_t (max 1 (max_prefill_seqs ?cfg))" "\<not> num_tokens_to_process g \<le> 0"
        "\<not> ?chunk \<and> max_num_batched_tokens ?cfg < num_tokens_to_process g"
    | (small) "\<not> (int (ScheduledSeqCount ?out) \<ge> as_size_t (max_num_seqs ?cfg))"
        "\<not> int (length (prefill_seq_ids ?out)) \<ge> as_size_t (max 1 (max_prefill_seqs ?cfg))" "\<not> num_tokens_to_process g \<le> 0"
        "\<not> (\<not> ?chunk \<and> max_num_batched_tokens ?cfg < num_tokens_to_process g)"
        "\<not> ?chunk \<and> ?b < num_tokens_to_process g \<or> ?n \<le> 0"
    | (go) "\<not> (int (ScheduledSeqCount ?out) \<ge> as_size_t (max_num_seqs ?cfg))"
        "\<not> int (length (prefill_seq_ids ?out)) \<ge> as_size_t (max 1 (max_prefill_seqs ?cfg))" "\<not> num_tokens_to_process g \<le> 0"
        "\<not> (\<not> ?chunk \<and> max_num_batched_tokens ?cfg < num_tokens_to_process g)"
        "\<not> (\<not> ?chunk \<and> ?b < num_tokens_to_process g)" "\<not> ?n \<le> 0"
    by blast
  then show thesis
  proof cases
    case full
    then show ?thesis by (intro keep) (auto simp: schedule_group_def Let_def kept_keep_waiting)
  next
    case processed
    then show ?thesis by (intro promote) (simp_all add: schedule_group_def Let_def hd)
  next
    case over
    then show ?thesis by (intro cancel) (simp_all add: schedule_group_def Let_def hd)
  next
    case small
    then show ?thesis by (intro keep) (auto simp: schedule_group_def Let_def hd kept_keep_waiting)
  next
    case go
    have eq: "schedule_group g p = try_prefill (gid g) ?ctx ?n g p" using go by (auto simp: schedule_group_def Let_def hd)
    have le: "?n \<le> ?b" "?n \<le> num_tokens_to_process g" "\<not> ?chunk \<Longrightarrow> ?n = num_tokens_to_process g"
      using go by (intro tokens_needed_le; auto)+
    have adm: "admissible g p ?n"
      if "enforce_homogeneous_batch_n_past ?cfg \<and> 0 \<le> wp_target p \<longrightarrow> ?ctx = wp_target p"
      using that go(1,2,6) le prefill_budget_le [where g = g and p = p and chunk = ?chunk]
      unfolding admissible_def Let_def by (auto dest: order_trans)
    show ?thesis using try_prefill_outcome [OF inv adm] keep admit unfolding eq by blast
  qed
qed

section \<open>Accounting\<close>

text \<open>The counters of an output agree with its lists.\<close>

definition out_ok :: "scheduler_output \<Rightarrow> bool" where
  "out_ok out \<longleftrightarrow>
     total_tokens out = num_prefill_tokens out + num_decode_tokens out \<and>
     num_decode_tokens out = int (length (decode_seq_ids out)) \<and>
     num_prefill_tokens out = sum_list (map chunk_tokens (prefill_chunks out)) \<and>
     map chunk_seq_id (prefill_chunks out) = prefill_seq_ids out \<and>
     (\<forall>c \<in> set (prefill_chunks out). 0 < chunk_tokens c)"

definition accounted :: "waiting_pass \<Rightarrow> waiting_pass \<Rightarrow> bool" where
  "accounted p0 p \<longleftrightarrow>
     bm_inv (block_mgr (wp_scheduler p)) \<and> config (wp_scheduler p) = config (wp_scheduler p0) \<and>
     decode_seq_ids (wp_output p) = decode_seq_ids (wp_output p0) \<and>
     preempted_seq_ids (wp_output p) = preempted_seq_ids (wp_output p0) \<and>
     swap_in_seq_ids (wp_output p) = swap_in_seq_ids (wp_output p0) \<and>
     wp_budget p + total_tokens (wp_output p) = wp_budget p0 + total_tokens (wp_output p0) \<and>
     min 0 (wp_budget p0) \<le> wp_budget p \<and> out_ok (wp_output p) \<and>
     (0 \<le> wp_cap p0 \<longrightarrow> 0 \<le> wp_cap p \<and>
        num_prefill_tokens (wp_output p) + wp_cap p = num_prefill_tokens (wp_output p0) + wp_cap p0) \<and>
     int (length (prefill_seq_ids (wp_output p))) \<le>
       max (int (length (prefill_seq_ids (wp_output p0)))) (as_size_t (max 1 (max_prefill_seqs (config (wp_scheduler p0))))) \<and>
     int (ScheduledSeqCount (wp_output p)) \<le>
       max (int (ScheduledSeqCount (wp_output p0))) (as_size_t (max_num_seqs (config (wp_scheduler p0))))"

lemma kept_frame:
  assumes "kept i g p p'"
  shows "block_mgr (wp_scheduler p') = block_mgr (wp_scheduler p)" "config (wp_scheduler p') = config (wp_scheduler p)"
    "wp_output p' = wp_output p" "wp_budget p' = wp_budget p" "wp_cap p' = wp_cap p" "wp_target p' = wp_target p"
    "wp_still_waiting p' = wp_still_waiting p @ [g]" "wp_queue_size p' = wp_queue_size p"
    "running_seqs (wp_scheduler p') = running_seqs (wp_scheduler p)"
    "swapped_seqs (wp_scheduler p') = swapped_seqs (wp_scheduler p)"
    "seq_status (wp_scheduler p') = seq_status (wp_scheduler p)"
    "seq_context_len (wp_scheduler p') = seq_context_len (wp_scheduler p)"
    "next_seq_id (wp_scheduler p') = next_seq_id (wp_scheduler p)"
    "consecutive_decode_batches (wp_scheduler p') = consecutive_decode_batches (wp_scheduler p)"
    "j \<noteq> i \<Longrightarrow> seq_block_ids (wp_scheduler p') j = seq_block_ids (wp_scheduler p) j"
  using assms by (auto simp: kept_def)

lemma promote_frame [simp]:
  "wp_output (promote_group i p) = wp_output p" "wp_budget (promote_group i p) = wp_budget p"
  "wp_cap (promote_group i p) = wp_cap p" "wp_target (promote_group i p) = wp_target p"
  "wp_still_waiting (promote_group i p) = wp_still_waiting p"
  "block_mgr (wp_scheduler (promote_group i p)) = block_mgr (wp_scheduler p)"
  "config (wp_scheduler (promote_group i p)) = config (wp_scheduler p)"
  "running_seqs (wp_scheduler (promote_group i p)) = us_insert i (running_seqs (wp_scheduler p))"
  "swapped_seqs (wp_scheduler (promote_group i p)) = swapped_seqs (wp_scheduler p)"
  "seq_status (wp_scheduler (promote_group i p)) = (seq_status (wp_scheduler p))(i \<mapsto> RUNNING)"
  "seq_context_len (wp_scheduler (promote_group i p)) = seq_context_len (wp_scheduler p)"
  "seq_block_ids (wp_scheduler (promote_group i p)) = seq_block_ids (wp_scheduler p)"
  "next_seq_id (wp_scheduler (promote_group i p)) = next_seq_id (wp_scheduler p)"
  "consecutive_decode_batches (wp_scheduler (promote_group i p)) = consecutive_decode_batches (wp_scheduler p)"
  by (simp_all add: promote_group_def Let_def)

lemma Cleanup_frame [simp]:
  "config (CleanupSequenceState i e f s) = config s"
  "seq_status (CleanupSequenceState i e f s) = seq_status s"
  "next_seq_id (CleanupSequenceState i e f s) = next_seq_id s"
  "running_seqs (CleanupSequenceState i e f s) = us_erase i (running_seqs s)"
  "swapped_seqs (CleanupSequenceState i e f s) = us_erase i (swapped_seqs s)"
  "waiting_queue (CleanupSequenceState i e f s) = (if e then filter (\<lambda>g. \<not> has_seq i g) (waiting_queue s) else waiting_queue s)"
  "seq_context_len (CleanupSequenceState i e f s) = (seq_context_len s)(i := None)"
  "seq_block_ids (CleanupSequenceState i e f s) = (seq_block_ids s)(i := None)"
  "consecutive_decode_batches (CleanupSequenceState i e f s) = consecutive_decode_batches s"
  by (auto simp: CleanupSequenceState_def Let_def split: option.split)

lemma Cleanup_block_mgr:
  "block_mgr (CleanupSequenceState i e f s) =
    (if f then Free (case seq_block_ids s i of None \<Rightarrow> [] | Some ids \<Rightarrow> ids) (block_mgr s) else block_mgr s)"
  by (auto simp: CleanupSequenceState_def Let_def Free_def split: option.split)

lemma cancel_frame [simp]:
  "wp_output (cancel_group i p) = wp_output p" "wp_budget (cancel_group i p) = wp_budget p"
  "wp_cap (cancel_group i p) = wp_cap p" "wp_target (cancel_group i p) = wp_target p"
  "wp_still_waiting (cancel_group i p) = wp_still_waiting p"
  "config (wp_scheduler (cancel_group i p)) = config (wp_scheduler p)"
  "block_mgr (wp_scheduler (cancel_group i p)) =
    Free (case seq_block_ids (wp_scheduler p) i of None \<Rightarrow> [] | Some ids \<Rightarrow> ids) (block_mgr (wp_scheduler p))"
  "running_seqs (wp_scheduler (cancel_group i p)) = us_erase i (running_seqs (wp_scheduler p))"
  "swapped_seqs (wp_scheduler (cancel_group i p)) = us_erase i (swapped_seqs (wp_scheduler p))"
  "seq_status (wp_scheduler (cancel_group i p)) = (seq_status (wp_scheduler p))(i \<mapsto> CANCELLED)"
  "seq_context_len (wp_scheduler (cancel_group i p)) = (seq_context_len (wp_scheduler p))(i := None)"
  "seq_block_ids (wp_scheduler (cancel_group i p)) = (seq_block_ids (wp_scheduler p))(i := None)"
  "next_seq_id (wp_scheduler (cancel_group i p)) = next_seq_id (wp_scheduler p)"
  "consecutive_decode_batches (wp_scheduler (cancel_group i p)) = consecutive_decode_batches (wp_scheduler p)"
  by (simp_all add: cancel_group_def Let_def Cleanup_block_mgr)

lemma admit_frame [simp]:
  "wp_budget (admit_prefill i ctx n nb g p) = wp_budget p - n"
  "wp_cap (admit_prefill i ctx n nb g p) = (if wp_cap p \<ge> 0 then max 0 (wp_cap p - n) else wp_cap p)"
  "wp_target (admit_prefill i ctx n nb g p) = (if wp_target p < 0 then ctx else wp_target p)"
  "config (wp_scheduler (admit_prefill i ctx n nb g p)) = config (wp_scheduler p)"
  "block_mgr (wp_scheduler (admit_prefill i ctx n nb g p)) = block_mgr (wp_scheduler p)"
  "running_seqs (wp_scheduler (admit_prefill i ctx n nb g p)) = running_seqs (wp_scheduler p)"
  "swapped_seqs (wp_scheduler (admit_prefill i ctx n nb g p)) = swapped_seqs (wp_scheduler p)"
  "seq_status (wp_scheduler (admit_prefill i ctx n nb g p)) = (seq_status (wp_scheduler p))(i \<mapsto> WAITING)"
  "seq_context_len (wp_scheduler (admit_prefill i ctx n nb g p)) = seq_context_len (wp_scheduler p)"
  "seq_block_ids (wp_scheduler (admit_prefill i ctx n nb g p)) = seq_block_ids (wp_scheduler p)"
  "next_seq_id (wp_scheduler (admit_prefill i ctx n nb g p)) = next_seq_id (wp_scheduler p)"
  "consecutive_decode_batches (wp_scheduler (admit_prefill i ctx n nb g p)) = consecutive_decode_batches (wp_scheduler p)"
  by (simp_all add: admit_prefill_def Let_def)

lemma admit_output [simp]:
  "decode_seq_ids (wp_output (admit_prefill i ctx n nb g p)) = decode_seq_ids (wp_output p)"
  "num_decode_tokens (wp_output (admit_prefill i ctx n nb g p)) = num_decode_tokens (wp_output p)"
  "preempted_seq_ids (wp_output (admit_prefill i ctx n nb g p)) = preempted_seq_ids (wp_output p)"
  "swap_in_seq_ids (wp_output (admit_prefill i ctx n nb g p)) = swap_in_seq_ids (wp_output p)"
  "prefill_seq_ids (wp_output (admit_prefill i ctx n nb g p)) = prefill_seq_ids (wp_output p) @ [i]"
  "prefill_chunks (wp_output (admit_prefill i ctx n nb g p)) =
     prefill_chunks (wp_output p) @ [\<lparr>chunk_seq_id = i, chunk_tokens = n\<rparr>]"
  "num_prefill_tokens (wp_output (admit_prefill i ctx n nb g p)) = num_prefill_tokens (wp_output p) + n"
  "total_tokens (wp_output (admit_prefill i ctx n nb g p)) = total_tokens (wp_output p) + n"
  "batch_context_len (wp_output (admit_prefill i ctx n nb g p)) = (if wp_target p < 0 then ctx else wp_target p)"
  "new_block_allocations (wp_output (admit_prefill i ctx n nb g p)) =
     new_block_allocations (wp_output p) @ (if nb \<noteq> [] then [(i, nb)] else [])"
  by (simp_all add: admit_prefill_def Let_def)

lemma reserved_frame [simp]:
  "wp_output (reserved i g nb bm' p) = wp_output p" "wp_budget (reserved i g nb bm' p) = wp_budget p"
  "wp_cap (reserved i g nb bm' p) = wp_cap p" "wp_target (reserved i g nb bm' p) = wp_target p"
  "wp_still_waiting (reserved i g nb bm' p) = wp_still_waiting p"
  "config (wp_scheduler (reserved i g nb bm' p)) = config (wp_scheduler p)"
  "block_mgr (wp_scheduler (reserved i g nb bm' p)) = bm'"
  "running_seqs (wp_scheduler (reserved i g nb bm' p)) = running_seqs (wp_scheduler p)"
  "swapped_seqs (wp_scheduler (reserved i g nb bm' p)) = swapped_seqs (wp_scheduler p)"
  "seq_status (wp_scheduler (reserved i g nb bm' p)) = seq_status (wp_scheduler p)"
  "seq_context_len (wp_scheduler (reserved i g nb bm' p)) = seq_context_len (wp_scheduler p)"
  "seq_block_ids (wp_scheduler (reserved i g nb bm' p)) =
     (seq_block_ids (wp_scheduler p))(i \<mapsto> group_blocks (wp_scheduler p) i g @ nb)"
  "next_seq_id (wp_scheduler (reserved i g nb bm' p)) = next_seq_id (wp_scheduler p)"
  "consecutive_decode_batches (wp_scheduler (reserved i g nb bm' p)) = consecutive_decode_batches (wp_scheduler p)"
  by (simp_all add: reserved_def)

lemma schedule_group_accounted:
  assumes a: "accounted p0 p"
  shows "accounted p0 (schedule_group g p)"
proof -
  have inv: "bm_inv (block_mgr (wp_scheduler p))" using a by (simp add: accounted_def)
  from inv show ?thesis
  proof (cases rule: schedule_group_outcome [where g = g])
    case keep
    then show ?thesis using a by (simp add: accounted_def kept_frame [OF keep])
  next
    case promote
    then show ?thesis using a by (simp add: accounted_def)
  next
    case cancel
    then show ?thesis using a by (simp add: accounted_def Free_inv)
  next
    case (admit n nb bm')
    have "bm_inv bm'" by (rule takesD(1) [OF admit(2)])
    then show ?thesis using a admit(1) unfolding accounted_def admit(4)
      by (auto simp: admissible_def Let_def out_ok_def ScheduledSeqCount_def)
  qed
qed

lemma waiting_accounted:
  assumes "accounted p0 p"
  shows "accounted p0 (fold schedule_group gs p)"
  by (rule fold_invariant [where Q = "\<lambda>_. True"]) (simp_all add: assms schedule_group_accounted)

end
