(* ===== verification/Waiting_Laws.thy ===== *)
theory Waiting_Laws
  imports Prefill_Laws
begin

text \<open>
  What a whole prefill pass does to the queues and to the sequences it admits: every waiting group
  ends up waiting, running or cancelled; each admitted chunk has its blocks; one context bucket.
\<close>

section \<open>Induction over the pass\<close>

lemma pass_induct [consumes 1, case_names start step]:
  assumes "distinct (map gid gs)"
    and "P [] p0"
    and "\<And>xs g p. P xs p \<Longrightarrow> set (xs @ [g]) \<subseteq> set gs \<Longrightarrow> gid g \<notin> gid ` set xs \<Longrightarrow> P (xs @ [g]) (schedule_group g p)"
  shows "P gs (fold schedule_group gs p0)"
proof -
  have "set xs \<subseteq> set gs \<Longrightarrow> distinct (map gid xs) \<Longrightarrow> P xs (fold schedule_group xs p0)" for xs
  proof (induction xs rule: rev_induct)
    case Nil
    then show ?case using assms(2) by simp
  next
    case (snoc g xs)
    then show ?case using assms(3) [of xs "fold schedule_group xs p0" g] by simp
  qed
  then show ?thesis using assms(1) by blast
qed

section \<open>No group is lost\<close>

definition queue_track :: "waiting_pass \<Rightarrow> sequence_group list \<Rightarrow> waiting_pass \<Rightarrow> bool" where
  "queue_track p0 xs p \<longleftrightarrow>
     bm_inv (block_mgr (wp_scheduler p)) \<and>
     distinct (map gid (wp_still_waiting p)) \<and> gid ` set (wp_still_waiting p) \<subseteq> gid ` set xs \<and>
     (\<forall>g \<in> set (wp_still_waiting p). group_ok g) \<and>
     distinct (running_seqs (wp_scheduler p)) \<and>
     set (running_seqs (wp_scheduler p)) \<subseteq> set (running_seqs (wp_scheduler p0)) \<union> gid ` set xs \<and>
     set (running_seqs (wp_scheduler p0)) \<subseteq> set (running_seqs (wp_scheduler p)) \<and>
     set (running_seqs (wp_scheduler p)) \<inter> gid ` set (wp_still_waiting p) = {} \<and>
     swapped_seqs (wp_scheduler p) = swapped_seqs (wp_scheduler p0) \<and>
     next_seq_id (wp_scheduler p) = next_seq_id (wp_scheduler p0) \<and>
     consecutive_decode_batches (wp_scheduler p) = consecutive_decode_batches (wp_scheduler p0) \<and>
     (\<forall>g \<in> set xs. gid g \<in> gid ` set (wp_still_waiting p) \<or>
        gid g \<in> set (running_seqs (wp_scheduler p)) \<and> seq_status (wp_scheduler p) (gid g) = Some RUNNING \<or>
        seq_status (wp_scheduler p) (gid g) = Some CANCELLED \<and> gid g \<notin> set (running_seqs (wp_scheduler p)))"

lemma us_erase_notin: "x \<notin> set xs \<Longrightarrow> us_erase x xs = xs"
  by (auto simp: us_erase_def intro: filter_True)

lemma admit_still:
  "\<exists>g'. wp_still_waiting (admit_prefill i ctx n nb g p) = wp_still_waiting p @ [g'] \<and>
     g' \<in> {g, g\<lparr>shared_prefix_len := 0, shared_block_ids := []\<rparr>}"
  by (simp add: admit_prefill_def Let_def)

lemma gid_cleared [simp]: "gid (g\<lparr>shared_prefix_len := a, shared_block_ids := b\<rparr>) = gid g"
  by (simp add: gid_def)

lemma group_ok_cleared [simp]: "group_ok (g\<lparr>shared_prefix_len := a, shared_block_ids := b\<rparr>) = group_ok g"
  by (simp add: group_ok_def)

lemma queue_track_step:
  assumes q: "queue_track p0 xs p" and new: "gid g \<notin> gid ` set xs" and ok: "group_ok g"
    and out: "gid g \<notin> set (running_seqs (wp_scheduler p0))" "gid g \<notin> set (swapped_seqs (wp_scheduler p0))"
  shows "queue_track p0 (xs @ [g]) (schedule_group g p)"
proof -
  have inv: "bm_inv (block_mgr (wp_scheduler p))" using q by (simp add: queue_track_def)
  have nr: "gid g \<notin> set (running_seqs (wp_scheduler p))" and ns: "gid g \<notin> gid ` set (wp_still_waiting p)"
    using q new out(1) unfolding queue_track_def by blast+
  have nw: "gid g \<notin> set (swapped_seqs (wp_scheduler p))" using q out(2) by (simp add: queue_track_def)
  have ne: "gid x \<noteq> gid g" if "x \<in> set xs" for x using new that by (metis imageI)
  from inv show ?thesis
  proof (cases rule: schedule_group_outcome [where g = g])
    case keep
    then show ?thesis using q nr ns ok unfolding queue_track_def kept_frame [OF keep] by auto
  next
    case promote
    then show ?thesis using q nr ns ne unfolding queue_track_def promote by auto
  next
    case cancel
    then show ?thesis using q nr ns nw ne unfolding queue_track_def cancel
      by (auto simp: us_erase_notin Free_inv)
  next
    case (admit n nb bm')
    have "bm_inv bm'" by (rule takesD(1) [OF admit(2)])
    moreover obtain g' where g': "wp_still_waiting (schedule_group g p) = wp_still_waiting p @ [g']" "gid g' = gid g" "group_ok g'"
      using admit_still [of "gid g" "GetSequenceContextLen (wp_scheduler p) (gid g)" n nb g "reserved (gid g) g nb bm' p"] ok
      unfolding admit(4) by auto
    moreover have "running_seqs (wp_scheduler (schedule_group g p)) = running_seqs (wp_scheduler p)"
      "swapped_seqs (wp_scheduler (schedule_group g p)) = swapped_seqs (wp_scheduler p)"
      "seq_status (wp_scheduler (schedule_group g p)) = (seq_status (wp_scheduler p))(gid g \<mapsto> WAITING)"
      "next_seq_id (wp_scheduler (schedule_group g p)) = next_seq_id (wp_scheduler p)"
      "consecutive_decode_batches (wp_scheduler (schedule_group g p)) = consecutive_decode_batches (wp_scheduler p)"
      "block_mgr (wp_scheduler (schedule_group g p)) = bm'"
      unfolding admit(4) by simp_all
    ultimately show ?thesis using q nr ns ne unfolding queue_track_def by auto
  qed
qed

section \<open>Admitted chunks\<close>

lemma BlocksNeeded_cover:
  assumes "0 \<le> n" and "BlocksNeeded n \<le> k"
  shows "n \<le> BLOCK_SIZE * k"
proof -
  have "n \<le> BlocksNeeded n * BLOCK_SIZE" using ceil_div_bounds(1) [of n BLOCK_SIZE] assms(1) by (simp add: BlocksNeeded_def)
  also have "\<dots> \<le> k * BLOCK_SIZE" using assms(2) by simp
  finally show ?thesis by simp
qed

definition chunk_ok :: "scheduler \<Rightarrow> int \<Rightarrow> sequence_group list \<Rightarrow> prefill_chunk_info \<Rightarrow> bool" where
  "chunk_ok s target xs c \<longleftrightarrow>
     (\<exists>bs. seq_block_ids s (chunk_seq_id c) = Some bs \<and>
        GetSequenceContextLen s (chunk_seq_id c) + chunk_tokens c \<le> BLOCK_SIZE * int (length bs)) \<and>
     (enforce_homogeneous_batch_n_past (config s) \<longrightarrow> GetSequenceContextLen s (chunk_seq_id c) = target) \<and>
     (\<exists>g \<in> set xs. gid g = chunk_seq_id c \<and> chunk_tokens c \<le> num_tokens_to_process g)"

definition chunk_track :: "waiting_pass \<Rightarrow> sequence_group list \<Rightarrow> waiting_pass \<Rightarrow> bool" where
  "chunk_track p0 xs p \<longleftrightarrow>
     bm_inv (block_mgr (wp_scheduler p)) \<and> config (wp_scheduler p) = config (wp_scheduler p0) \<and>
     (\<forall>j. j \<notin> gid ` set xs \<longrightarrow> GetSequenceContextLen (wp_scheduler p) j = GetSequenceContextLen (wp_scheduler p0) j) \<and>
     (0 \<le> wp_target p0 \<longrightarrow> wp_target p = wp_target p0) \<and>
     (\<exists>new. prefill_chunks (wp_output p) = prefill_chunks (wp_output p0) @ new \<and>
        distinct (map chunk_seq_id new) \<and>
        (if new = [] then wp_target p = wp_target p0 \<and> batch_context_len (wp_output p) = batch_context_len (wp_output p0)
         else 0 \<le> wp_target p \<and> batch_context_len (wp_output p) = wp_target p) \<and>
        (\<forall>c \<in> set new. chunk_ok (wp_scheduler p) (wp_target p) xs c))"

lemma chunk_ok_step:
  assumes "chunk_ok s target xs c" and "chunk_seq_id c \<noteq> i" and "config s' = config s"
    and "\<And>j. j \<noteq> i \<Longrightarrow> seq_block_ids s' j = seq_block_ids s j"
    and "\<And>j. j \<noteq> i \<Longrightarrow> seq_context_len s' j = seq_context_len s j"
  shows "chunk_ok s' target (xs @ ys) c"
  using assms unfolding chunk_ok_def GetSequenceContextLen_def by auto

lemma chunk_ok_id: "chunk_ok s target xs c \<Longrightarrow> chunk_seq_id c \<in> gid ` set xs"
  unfolding chunk_ok_def by (metis imageI)

lemma chunk_track_same_output:
  assumes c: "chunk_track p0 xs p" and new: "gid g \<notin> gid ` set xs"
    and p': "bm_inv (block_mgr (wp_scheduler p'))" "config (wp_scheduler p') = config (wp_scheduler p)"
      "wp_output p' = wp_output p" "wp_target p' = wp_target p"
    and loc: "\<And>j. j \<noteq> gid g \<Longrightarrow> seq_block_ids (wp_scheduler p') j = seq_block_ids (wp_scheduler p) j"
      "\<And>j. j \<noteq> gid g \<Longrightarrow> seq_context_len (wp_scheduler p') j = seq_context_len (wp_scheduler p) j"
  shows "chunk_track p0 (xs @ [g]) p'"
proof -
  obtain cs where cs: "prefill_chunks (wp_output p) = prefill_chunks (wp_output p0) @ cs" "distinct (map chunk_seq_id cs)"
    "if cs = [] then wp_target p = wp_target p0 \<and> batch_context_len (wp_output p) = batch_context_len (wp_output p0)
     else 0 \<le> wp_target p \<and> batch_context_len (wp_output p) = wp_target p"
    "\<forall>c \<in> set cs. chunk_ok (wp_scheduler p) (wp_target p) xs c" using c by (auto simp: chunk_track_def)
  have "chunk_ok (wp_scheduler p') (wp_target p') (xs @ [g]) d" if d: "d \<in> set cs" for d
  proof -
    have ok: "chunk_ok (wp_scheduler p) (wp_target p) xs d" using cs(4) d by blast
    then have "chunk_seq_id d \<noteq> gid g" using chunk_ok_id new by metis
    then show ?thesis using chunk_ok_step [OF ok _ p'(2) loc] p'(4) by simp
  qed
  moreover have "GetSequenceContextLen (wp_scheduler p') j = GetSequenceContextLen (wp_scheduler p0) j"
    if "j \<notin> gid ` set (xs @ [g])" for j
    using that c loc(2) [of j] by (auto simp: chunk_track_def GetSequenceContextLen_def)
  ultimately show ?thesis using c p' cs(1-3) unfolding chunk_track_def by auto
qed

lemma chunk_track_admit:
  assumes c: "chunk_track p0 xs p" and new: "gid g \<notin> gid ` set xs"
    and nn: "0 \<le> GetSequenceContextLen (wp_scheduler p0) (gid g)"
    and adm: "admissible g p n" "takes (block_mgr (wp_scheduler p)) nb bm'"
      "BlocksNeeded (GetSequenceContextLen (wp_scheduler p) (gid g) + n) \<le> int (length (group_blocks (wp_scheduler p) (gid g) g @ nb))"
    and p': "p' = admit_prefill (gid g) (GetSequenceContextLen (wp_scheduler p) (gid g)) n nb g (reserved (gid g) g nb bm' p)"
  shows "chunk_track p0 (xs @ [g]) p'"
proof -
  let ?i = "gid g" and ?ctx = "GetSequenceContextLen (wp_scheduler p) (gid g)"
  have ctx: "0 \<le> ?ctx" using c new nn by (simp add: chunk_track_def)
  obtain cs where cs: "prefill_chunks (wp_output p) = prefill_chunks (wp_output p0) @ cs" "distinct (map chunk_seq_id cs)"
    "if cs = [] then wp_target p = wp_target p0 \<and> batch_context_len (wp_output p) = batch_context_len (wp_output p0)
     else 0 \<le> wp_target p \<and> batch_context_len (wp_output p) = wp_target p"
    "\<forall>c \<in> set cs. chunk_ok (wp_scheduler p) (wp_target p) xs c" using c by (auto simp: chunk_track_def)
  let ?d = "\<lparr>chunk_seq_id = ?i, chunk_tokens = n\<rparr>"
  have t': "wp_target p' = (if wp_target p < 0 then ?ctx else wp_target p)" "0 \<le> wp_target p'"
    using ctx by (simp_all add: p')
  have ctx': "seq_context_len (wp_scheduler p') = seq_context_len (wp_scheduler p)" by (simp add: p')
  have n: "0 < n" "n \<le> num_tokens_to_process g" using adm(1) by (simp_all add: admissible_def Let_def)
  have old: "chunk_ok (wp_scheduler p') (wp_target p') (xs @ [g]) d \<and> chunk_seq_id d \<noteq> ?i" if d: "d \<in> set cs" for d
  proof -
    have ok: "chunk_ok (wp_scheduler p) (wp_target p) xs d" using cs(4) d by blast
    then have ne: "chunk_seq_id d \<noteq> ?i" using chunk_ok_id new by metis
    have "wp_target p' = wp_target p" using cs(3) d t'(1) by (cases cs) auto
    then show ?thesis using chunk_ok_step [OF ok ne, of "wp_scheduler p'" "[g]"] ne by (simp add: p')
  qed
  have "?ctx + n \<le> BLOCK_SIZE * int (length (group_blocks (wp_scheduler p) ?i g @ nb))"
    by (rule BlocksNeeded_cover) (use adm(3) ctx n in simp_all)
  moreover have "GetSequenceContextLen (wp_scheduler p') ?i = ?ctx" by (simp add: GetSequenceContextLen_def ctx')
  moreover have "enforce_homogeneous_batch_n_past (config (wp_scheduler p')) \<longrightarrow> ?ctx = wp_target p'"
    using adm(1) t'(1) by (auto simp: admissible_def Let_def p')
  ultimately have d_ok: "chunk_ok (wp_scheduler p') (wp_target p') (xs @ [g]) ?d" using n
    unfolding chunk_ok_def by (simp add: p')
  have "?i \<notin> chunk_seq_id ` set cs" using old by (metis imageE)
  then have "distinct (map chunk_seq_id (cs @ [?d]))" using cs(2) by simp
  moreover have "prefill_chunks (wp_output p') = prefill_chunks (wp_output p0) @ (cs @ [?d])" using cs(1) by (simp add: p')
  moreover have "batch_context_len (wp_output p') = wp_target p'" by (simp add: p')
  moreover have "\<forall>c \<in> set (cs @ [?d]). chunk_ok (wp_scheduler p') (wp_target p') (xs @ [g]) c" using old d_ok by auto
  moreover have "0 \<le> wp_target p0 \<longrightarrow> wp_target p' = wp_target p0" using c t'(1) by (auto simp: chunk_track_def)
  moreover have "bm_inv (block_mgr (wp_scheduler p'))" using takesD(1) [OF adm(2)] by (simp add: p')
  moreover have "config (wp_scheduler p') = config (wp_scheduler p0)" using c by (simp add: p' chunk_track_def)
  moreover have "\<forall>j. j \<notin> gid ` set (xs @ [g]) \<longrightarrow> GetSequenceContextLen (wp_scheduler p') j = GetSequenceContextLen (wp_scheduler p0) j"
    using c by (simp add: chunk_track_def GetSequenceContextLen_def ctx')
  ultimately show ?thesis using t'(2) unfolding chunk_track_def by (metis append_is_Nil_conv list.distinct(1))
qed

lemma chunk_track_step:
  assumes c: "chunk_track p0 xs p" and new: "gid g \<notin> gid ` set xs"
    and nn: "0 \<le> GetSequenceContextLen (wp_scheduler p0) (gid g)"
  shows "chunk_track p0 (xs @ [g]) (schedule_group g p)"
proof -
  have inv: "bm_inv (block_mgr (wp_scheduler p))" using c by (simp add: chunk_track_def)
  from inv show ?thesis
  proof (cases rule: schedule_group_outcome [where g = g])
    case keep
    show ?thesis by (rule chunk_track_same_output [OF c new]) (use inv in \<open>simp_all add: kept_frame [OF keep]\<close>)
  next
    case promote
    show ?thesis unfolding promote by (rule chunk_track_same_output [OF c new]) (use inv in simp_all)
  next
    case cancel
    show ?thesis unfolding cancel by (rule chunk_track_same_output [OF c new]) (use inv in \<open>simp_all add: Free_inv\<close>)
  next
    case (admit n nb bm')
    show ?thesis by (rule chunk_track_admit [OF c new nn admit])
  qed
qed

section \<open>The order of the queue\<close>

lemma cluster_scan_index:
  assumes "cs_index c < length gs" and "cs_best c = gs ! cs_index c" and "set igs \<subseteq> set (enumerate 0 gs)"
  shows "cs_index (fold (consider_cluster active) igs c) < length gs \<and>
    cs_best (fold (consider_cluster active) igs c) = gs ! cs_index (fold (consider_cluster active) igs c)"
  using assms
proof (induction igs arbitrary: c)
  case (Cons ig igs)
  obtain k g where ig: "ig = (k, g)" by fastforce
  then have "k < length gs" "g = gs ! k" using Cons.prems(3) by (auto simp: in_set_enumerate_eq)
  then have "cs_index (consider_cluster active ig c) < length gs \<and>
      cs_best (consider_cluster active ig c) = gs ! cs_index (consider_cluster active ig c)"
    using Cons.prems(1,2) by (simp add: consider_cluster_def ig Let_def)
  then show ?case using Cons.IH Cons.prems(3) by simp
qed simp

lemma cluster_best_index:
  "fst (cluster_best active g gs) < Suc (length gs) \<and> snd (cluster_best active g gs) = (g # gs) ! fst (cluster_best active g gs)"
  using cluster_scan_index [where gs = "g # gs" and igs = "enumerate 0 (g # gs)" and active = active]
  by (simp add: cluster_best_def Let_def)

lemma mset_cluster_loop: "n = length gs \<Longrightarrow> mset (cluster_loop n active gs) = mset gs"
proof (induction n active gs rule: cluster_loop.induct)
  case (3 n active g gs)
  obtain k b where kb: "cluster_best active g gs = (k, b)" by fastforce
  then have k: "k < length (g # gs)" "b = (g # gs) ! k" using cluster_best_index [of active g gs] by simp_all
  let ?rest = "take k (g # gs) @ drop (Suc k) (g # gs)"
  have "mset (g # gs) = mset (take k (g # gs) @ (g # gs) ! k # drop (Suc k) (g # gs))" using id_take_nth_drop [OF k(1)] by metis
  then have m: "mset (g # gs) = add_mset b (mset ?rest)" by (simp add: k(2) del: take_Suc_Cons drop_Suc_Cons nth_Cons_Suc)
  then have "size (mset ?rest) = n" using "3.prems" by (metis length_Cons nat.inject size_add_mset size_mset)
  then have "mset (cluster_loop n (fold us_insert (predicted_experts b) active) ?rest) = mset ?rest"
    using "3.IH" [OF kb [symmetric] refl] by (metis size_mset)
  then show ?case using m kb by simp
qed simp_all

lemma mset_sorted_waiting: "mset (sorted_waiting cfg q) = mset q"
  by (simp add: sorted_waiting_def Let_def mset_cluster_loop waiting_order_def)

lemma sorted_waiting_ids:
  "set (sorted_waiting cfg q) = set q" "distinct (map gid (sorted_waiting cfg q)) = distinct (map gid q)"
  using mset_sorted_waiting [of cfg q]
  by (metis set_mset_mset, metis mset_map mset_eq_imp_distinct_iff)

section \<open>The scheduler's invariant\<close>

definition sched_inv :: "scheduler \<Rightarrow> bool" where
  "sched_inv s \<longleftrightarrow>
     bm_inv (block_mgr s) \<and>
     (\<forall>g \<in> set (waiting_queue s). group_ok g) \<and> distinct (map gid (waiting_queue s)) \<and>
     distinct (running_seqs s) \<and> distinct (swapped_seqs s) \<and>
     set (running_seqs s) \<inter> set (swapped_seqs s) = {} \<and>
     gid ` set (waiting_queue s) \<inter> (set (running_seqs s) \<union> set (swapped_seqs s)) = {} \<and>
     (\<forall>i \<in> gid ` set (waiting_queue s) \<union> set (running_seqs s) \<union> set (swapped_seqs s). 0 < i \<and> i < next_seq_id s) \<and>
     0 < next_seq_id s \<and> (\<forall>i. 0 \<le> GetSequenceContextLen s i)"

definition start_pass :: "int \<Rightarrow> scheduler \<Rightarrow> scheduler_output \<Rightarrow> waiting_pass" where
  "start_pass cap s out =
     \<lparr>wp_scheduler = s, wp_output = out, wp_still_waiting = [], wp_active_experts = [],
      wp_target = batch_context_len out, wp_budget = max_num_batched_tokens (config s) - total_tokens out,
      wp_cap = cap, wp_blocked = EmptyNone, wp_unschedulable = UnschedNone, wp_diagnostic = -1,
      wp_queue_size = length (sorted_waiting (config s) (waiting_queue s))\<rparr>"

lemma start_pass_sel [simp]:
  "wp_scheduler (start_pass cap s out) = s" "wp_output (start_pass cap s out) = out"
  "wp_still_waiting (start_pass cap s out) = []" "wp_target (start_pass cap s out) = batch_context_len out"
  "wp_budget (start_pass cap s out) = max_num_batched_tokens (config s) - total_tokens out"
  "wp_cap (start_pass cap s out) = cap"
  by (simp_all add: start_pass_def)

definition end_pass :: "int \<Rightarrow> scheduler \<Rightarrow> scheduler_output \<Rightarrow> waiting_pass" where
  "end_pass cap s out = fold schedule_group (sorted_waiting (config s) (waiting_queue s)) (start_pass cap s out)"

lemma ScheduleWaiting_end_pass: "ScheduleWaiting cap (s, out) = finish_waiting (end_pass cap s out)"
  by (simp add: ScheduleWaiting_def end_pass_def start_pass_def Let_def)

lemma finish_scheduler: "fst (finish_waiting p) = (wp_scheduler p)\<lparr>waiting_queue := wp_still_waiting p\<rparr>"
  by (simp add: finish_waiting_def Let_def)

lemma finish_output [simp]:
  "prefill_seq_ids (snd (finish_waiting p)) = prefill_seq_ids (wp_output p)"
  "decode_seq_ids (snd (finish_waiting p)) = decode_seq_ids (wp_output p)"
  "preempted_seq_ids (snd (finish_waiting p)) = preempted_seq_ids (wp_output p)"
  "swap_in_seq_ids (snd (finish_waiting p)) = swap_in_seq_ids (wp_output p)"
  "new_block_allocations (snd (finish_waiting p)) = new_block_allocations (wp_output p)"
  "prefix_cache_hits (snd (finish_waiting p)) = prefix_cache_hits (wp_output p)"
  "prefill_chunks (snd (finish_waiting p)) = prefill_chunks (wp_output p)"
  "total_tokens (snd (finish_waiting p)) = total_tokens (wp_output p)"
  "num_prefill_tokens (snd (finish_waiting p)) = num_prefill_tokens (wp_output p)"
  "num_decode_tokens (snd (finish_waiting p)) = num_decode_tokens (wp_output p)"
  "batch_context_len (snd (finish_waiting p)) = batch_context_len (wp_output p)"
  by (simp_all add: finish_waiting_def Let_def)

lemma end_pass_accounted:
  assumes "bm_inv (block_mgr s)" and "out_ok out"
  shows "accounted (start_pass cap s out) (end_pass cap s out)"
  unfolding end_pass_def
  by (rule waiting_accounted) (use assms in \<open>simp add: accounted_def start_pass_def\<close>)

lemma sched_inv_groups:
  assumes "sched_inv s" and "set xs \<subseteq> set (sorted_waiting (config s) (waiting_queue s))" and "g \<in> set xs"
  shows "group_ok g" "gid g \<notin> set (running_seqs s)" "gid g \<notin> set (swapped_seqs s)" "0 \<le> GetSequenceContextLen s (gid g)"
proof -
  have "g \<in> set (waiting_queue s)" using assms(2,3) sorted_waiting_ids(1) by blast
  then show "group_ok g" "gid g \<notin> set (running_seqs s)" "gid g \<notin> set (swapped_seqs s)" "0 \<le> GetSequenceContextLen s (gid g)"
    using assms(1) by (auto simp: sched_inv_def)
qed

lemma end_pass_queue:
  assumes "sched_inv s"
  shows "queue_track (start_pass cap s out) (sorted_waiting (config s) (waiting_queue s)) (end_pass cap s out)"
proof -
  have d: "distinct (map gid (sorted_waiting (config s) (waiting_queue s)))"
    using assms by (simp add: sorted_waiting_ids sched_inv_def)
  show ?thesis unfolding end_pass_def using d
  proof (induction rule: pass_induct)
    case start
    then show ?case using assms by (simp add: queue_track_def start_pass_def sched_inv_def)
  next
    case (step xs g p)
    show ?case by (rule queue_track_step [OF step(1,3)])
        (use sched_inv_groups [OF assms step(2)] in \<open>simp_all add: start_pass_def\<close>)
  qed
qed

lemma end_pass_chunks:
  assumes "sched_inv s"
  shows "chunk_track (start_pass cap s out) (sorted_waiting (config s) (waiting_queue s)) (end_pass cap s out)"
proof -
  have d: "distinct (map gid (sorted_waiting (config s) (waiting_queue s)))"
    using assms by (simp add: sorted_waiting_ids sched_inv_def)
  show ?thesis unfolding end_pass_def using d
  proof (induction rule: pass_induct)
    case start
    have "chunk_track (start_pass cap s out) [] (start_pass cap s out) = bm_inv (block_mgr s)"
      by (simp add: chunk_track_def start_pass_def)
    then show ?case using assms by (simp add: sched_inv_def)
  next
    case (step xs g p)
    show ?case by (rule chunk_track_step [OF step(1,3)])
        (use sched_inv_groups [OF assms step(2)] in \<open>simp add: start_pass_def\<close>)
  qed
qed

section \<open>Context lengths and fresh blocks\<close>

lemma schedule_group_context:
  assumes "bm_inv (block_mgr (wp_scheduler p))"
  shows "bm_inv (block_mgr (wp_scheduler (schedule_group g p))) \<and>
    (seq_context_len (wp_scheduler (schedule_group g p)) = seq_context_len (wp_scheduler p) \<or>
     seq_context_len (wp_scheduler (schedule_group g p)) = (seq_context_len (wp_scheduler p))(gid g := None))"
  using assms
proof (cases rule: schedule_group_outcome [where g = g])
  case keep
  then show ?thesis using assms by (simp add: kept_frame [OF keep])
next
  case promote
  then show ?thesis using assms by simp
next
  case cancel
  then show ?thesis using assms by (simp add: Free_inv)
next
  case (admit n nb bm')
  then show ?thesis using takesD(1) [OF admit(2)] by simp
qed

lemma end_pass_context:
  assumes "bm_inv (block_mgr s)" and "\<forall>i. 0 \<le> GetSequenceContextLen s i"
  shows "0 \<le> GetSequenceContextLen (wp_scheduler (end_pass cap s out)) i"
proof -
  let ?P = "\<lambda>p. bm_inv (block_mgr (wp_scheduler p)) \<and> (\<forall>i. 0 \<le> GetSequenceContextLen (wp_scheduler p) i)"
  have "?P (fold schedule_group gs (start_pass cap s out))" for gs
  proof (rule fold_invariant [where P = ?P and Q = "\<lambda>_. True"])
    show "?P (start_pass cap s out)" using assms by (simp add: start_pass_def)
    show "?P (schedule_group g p)" if "?P p" for g p
      using that schedule_group_context [of p g] by (auto simp: GetSequenceContextLen_def)
  qed simp
  then show ?thesis by (simp add: end_pass_def)
qed

text \<open>
  When no waiting prompt has to be cancelled, the pass only takes blocks: the blocks it reports as
  new are exactly the ones taken, pairwise distinct and unreferenced before.
\<close>

definition no_cancel :: "scheduler \<Rightarrow> bool" where
  "no_cancel s \<longleftrightarrow>
     (\<forall>g \<in> set (waiting_queue s). can_chunk s (gid g) \<or> num_tokens_to_process g \<le> max_num_batched_tokens (config s))"

definition fresh_track :: "waiting_pass \<Rightarrow> waiting_pass \<Rightarrow> bool" where
  "fresh_track p0 p \<longleftrightarrow>
     config (wp_scheduler p) = config (wp_scheduler p0) \<and>
     seq_allow_chunked_prefill (wp_scheduler p) = seq_allow_chunked_prefill (wp_scheduler p0) \<and>
     (\<exists>new. new_block_allocations (wp_output p) = new_block_allocations (wp_output p0) @ new \<and>
        takes (block_mgr (wp_scheduler p0)) (concat (map snd new)) (block_mgr (wp_scheduler p)))"

lemma fresh_track_step:
  assumes f: "fresh_track p0 p"
    and nc: "can_chunk (wp_scheduler p0) (gid g) \<or> num_tokens_to_process g \<le> max_num_batched_tokens (config (wp_scheduler p0))"
  shows "fresh_track p0 (schedule_group g p)"
proof -
  obtain new where new: "new_block_allocations (wp_output p) = new_block_allocations (wp_output p0) @ new"
    "takes (block_mgr (wp_scheduler p0)) (concat (map snd new)) (block_mgr (wp_scheduler p))"
    using f by (auto simp: fresh_track_def)
  have fr: "config (wp_scheduler p) = config (wp_scheduler p0)"
    "seq_allow_chunked_prefill (wp_scheduler p) = seq_allow_chunked_prefill (wp_scheduler p0)"
    using f by (simp_all add: fresh_track_def)
  have "can_chunk (wp_scheduler p) (gid g) = can_chunk (wp_scheduler p0) (gid g)" by (simp add: can_chunk_def fr)
  then have nc': "can_chunk (wp_scheduler p) (gid g) \<or> num_tokens_to_process g \<le> max_num_batched_tokens (config (wp_scheduler p))"
    using nc fr by simp
  have inv: "bm_inv (block_mgr (wp_scheduler p))" by (rule takesD(1) [OF new(2)])
  from inv show ?thesis
  proof (cases rule: schedule_group_outcome [where g = g])
    case keep
    moreover have "seq_allow_chunked_prefill (wp_scheduler (schedule_group g p)) = seq_allow_chunked_prefill (wp_scheduler p)"
      using keep by (auto simp: kept_def)
    ultimately show ?thesis using new fr by (simp add: fresh_track_def kept_frame [OF keep])
  next
    case promote
    then show ?thesis using new fr by (simp add: fresh_track_def) (simp add: promote_group_def Let_def)
  next
    case cancel
    then show ?thesis using nc' by simp
  next
    case (admit n nb bm')
    have "takes (block_mgr (wp_scheduler p0)) (concat (map snd (new @ (if nb \<noteq> [] then [(gid g, nb)] else [])))) bm'"
      using takes_append [OF new(2) admit(2)] by (cases "nb = []") simp_all
    moreover have "seq_allow_chunked_prefill (wp_scheduler (schedule_group g p)) = seq_allow_chunked_prefill (wp_scheduler p)"
      by (simp add: admit(4) admit_prefill_def reserved_def Let_def)
    moreover have "new_block_allocations (wp_output (schedule_group g p)) =
        new_block_allocations (wp_output p0) @ (new @ (if nb \<noteq> [] then [(gid g, nb)] else []))"
      using new(1) by (simp add: admit(4))
    moreover have "block_mgr (wp_scheduler (schedule_group g p)) = bm'" "config (wp_scheduler (schedule_group g p)) = config (wp_scheduler p)"
      by (simp_all add: admit(4))
    ultimately show ?thesis using fr unfolding fresh_track_def by metis
  qed
qed

lemma end_pass_fresh:
  assumes "bm_inv (block_mgr s)" and "no_cancel s"
  shows "fresh_track (start_pass cap s out) (end_pass cap s out)"
  unfolding end_pass_def
proof (rule fold_invariant [where Q = "\<lambda>g. g \<in> set (waiting_queue s)"])
  show "fresh_track (start_pass cap s out) (start_pass cap s out)"
    using takes_Nil [OF assms(1)] by (simp add: fresh_track_def start_pass_def)
  show "fresh_track (start_pass cap s out) (schedule_group g p)"
    if "g \<in> set (waiting_queue s)" "fresh_track (start_pass cap s out) p" for g p
    by (rule fresh_track_step [OF that(2)]) (use assms(2) that(1) in \<open>simp add: no_cancel_def start_pass_def\<close>)
qed (simp add: sorted_waiting_ids)

section \<open>The pass as a whole\<close>

lemma ScheduleWaiting_inv:
  assumes inv: "sched_inv s" and r: "ScheduleWaiting cap (s, out) = (s', out')"
  shows "sched_inv s'" "config s' = config s" "swapped_seqs s' = swapped_seqs s"
    "set (running_seqs s) \<subseteq> set (running_seqs s')" "consecutive_decode_batches s' = consecutive_decode_batches s"
    "next_seq_id s' = next_seq_id s"
    "g \<in> set (waiting_queue s) \<Longrightarrow> gid g \<in> gid ` set (waiting_queue s') \<or>
       gid g \<in> set (running_seqs s') \<and> seq_status s' (gid g) = Some RUNNING \<or> seq_status s' (gid g) = Some CANCELLED"
proof -
  let ?p = "end_pass cap s out" and ?gs = "sorted_waiting (config s) (waiting_queue s)"
  have s': "s' = (wp_scheduler ?p)\<lparr>waiting_queue := wp_still_waiting ?p\<rparr>"
    using finish_scheduler [of ?p] r by (simp add: ScheduleWaiting_end_pass)
  note Q = end_pass_queue [OF inv, of cap out, unfolded queue_track_def start_pass_sel sorted_waiting_ids(1)]
  let ?w = "gid ` set (wp_still_waiting ?p)" and ?r = "set (running_seqs (wp_scheduler ?p))"
  have sub: "?w \<subseteq> gid ` set (waiting_queue s)" "?r \<subseteq> set (running_seqs s) \<union> gid ` set (waiting_queue s)"
    "?r \<inter> ?w = {}" "set (running_seqs s) \<subseteq> ?r"
    and eqs: "swapped_seqs (wp_scheduler ?p) = swapped_seqs s" "next_seq_id (wp_scheduler ?p) = next_seq_id s"
      "consecutive_decode_batches (wp_scheduler ?p) = consecutive_decode_batches s"
    and dist: "distinct (map gid (wp_still_waiting ?p))" "distinct (running_seqs (wp_scheduler ?p))"
      "\<forall>g \<in> set (wp_still_waiting ?p). group_ok g" "bm_inv (block_mgr (wp_scheduler ?p))"
    and lost: "\<forall>g \<in> set (waiting_queue s). gid g \<in> ?w \<or>
        gid g \<in> ?r \<and> seq_status (wp_scheduler ?p) (gid g) = Some RUNNING \<or>
        seq_status (wp_scheduler ?p) (gid g) = Some CANCELLED \<and> gid g \<notin> ?r"
    using Q by blast+
  have ctx: "0 \<le> GetSequenceContextLen s' i" for i
    using end_pass_context [of s cap out i] inv by (simp add: s' sched_inv_def GetSequenceContextLen_def)
  show "config s' = config s"
    using end_pass_chunks [OF inv, of cap out] by (simp add: s' chunk_track_def)
  show "swapped_seqs s' = swapped_seqs s" "set (running_seqs s) \<subseteq> set (running_seqs s')"
    "consecutive_decode_batches s' = consecutive_decode_batches s" "next_seq_id s' = next_seq_id s"
    using eqs sub(4) by (simp_all add: s')
  show "gid g \<in> gid ` set (waiting_queue s') \<or>
       gid g \<in> set (running_seqs s') \<and> seq_status s' (gid g) = Some RUNNING \<or> seq_status s' (gid g) = Some CANCELLED"
    if "g \<in> set (waiting_queue s)" using lost that by (auto simp: s')
  have old: "gid ` set (waiting_queue s) \<inter> (set (running_seqs s) \<union> set (swapped_seqs s)) = {}"
    "set (running_seqs s) \<inter> set (swapped_seqs s) = {}"
    "\<forall>i \<in> gid ` set (waiting_queue s) \<union> set (running_seqs s) \<union> set (swapped_seqs s). 0 < i \<and> i < next_seq_id s"
    using inv by (simp_all add: sched_inv_def)
  have "?r \<inter> set (swapped_seqs s) = {}" using sub(2) old(1,2) by blast
  moreover have "?w \<inter> (?r \<union> set (swapped_seqs s)) = {}" using sub(1,3) old(1) by blast
  moreover have U: "?w \<union> ?r \<union> set (swapped_seqs s) \<subseteq> gid ` set (waiting_queue s) \<union> set (running_seqs s) \<union> set (swapped_seqs s)"
    using sub(1,2) by blast
  moreover have "\<forall>i \<in> ?w \<union> ?r \<union> set (swapped_seqs s). 0 < i \<and> i < next_seq_id s"
    by (rule ballI) (rule bspec [OF old(3) subsetD [OF U]])
  ultimately show "sched_inv s'" using dist eqs ctx inv unfolding sched_inv_def s' by simp
qed

lemma ScheduleWaiting_accounted:
  assumes inv: "sched_inv s" and ok: "out_ok out" and r: "ScheduleWaiting cap (s, out) = (s', out')"
  shows "out_ok out'" "decode_seq_ids out' = decode_seq_ids out" "preempted_seq_ids out' = preempted_seq_ids out"
    "swap_in_seq_ids out' = swap_in_seq_ids out"
    "total_tokens out' \<le> max (total_tokens out) (max_num_batched_tokens (config s))"
    "0 \<le> cap \<Longrightarrow> num_prefill_tokens out' \<le> num_prefill_tokens out + cap"
    "int (length (prefill_seq_ids out')) \<le> max (int (length (prefill_seq_ids out))) (as_size_t (max 1 (max_prefill_seqs (config s))))"
    "int (ScheduledSeqCount out') \<le> max (int (ScheduledSeqCount out)) (as_size_t (max_num_seqs (config s)))"
proof -
  let ?p = "end_pass cap s out"
  have out': "out' = snd (finish_waiting ?p)" using r by (simp add: ScheduleWaiting_end_pass)
  have "accounted (start_pass cap s out) ?p" using inv ok by (intro end_pass_accounted) (simp_all add: sched_inv_def)
  then show "out_ok out'" "decode_seq_ids out' = decode_seq_ids out" "preempted_seq_ids out' = preempted_seq_ids out"
    "swap_in_seq_ids out' = swap_in_seq_ids out"
    "total_tokens out' \<le> max (total_tokens out) (max_num_batched_tokens (config s))"
    "0 \<le> cap \<Longrightarrow> num_prefill_tokens out' \<le> num_prefill_tokens out + cap"
    "int (length (prefill_seq_ids out')) \<le> max (int (length (prefill_seq_ids out))) (as_size_t (max 1 (max_prefill_seqs (config s))))"
    "int (ScheduledSeqCount out') \<le> max (int (ScheduledSeqCount out)) (as_size_t (max_num_seqs (config s)))"
    unfolding accounted_def out' by (auto simp: start_pass_def out_ok_def ScheduledSeqCount_def)
qed

lemma ScheduleWaiting_chunks:
  assumes inv: "sched_inv s" and r: "ScheduleWaiting cap (s, out) = (s', out')"
  obtains new where "prefill_chunks out' = prefill_chunks out @ new" "distinct (map chunk_seq_id new)"
    "new = [] \<longrightarrow> batch_context_len out' = batch_context_len out"
    "0 \<le> batch_context_len out \<longrightarrow> batch_context_len out' = batch_context_len out"
    "\<forall>c \<in> set new. chunk_ok s' (batch_context_len out') (waiting_queue s) c"
proof -
  let ?p = "end_pass cap s out"
  have out': "out' = snd (finish_waiting ?p)" and s': "s' = (wp_scheduler ?p)\<lparr>waiting_queue := wp_still_waiting ?p\<rparr>"
    using r finish_scheduler [of ?p] by (simp_all add: ScheduleWaiting_end_pass)
  obtain new where new: "prefill_chunks (wp_output ?p) = prefill_chunks out @ new" "distinct (map chunk_seq_id new)"
    "if new = [] then wp_target ?p = batch_context_len out \<and> batch_context_len (wp_output ?p) = batch_context_len out
     else 0 \<le> wp_target ?p \<and> batch_context_len (wp_output ?p) = wp_target ?p"
    "\<forall>c \<in> set new. chunk_ok (wp_scheduler ?p) (wp_target ?p) (sorted_waiting (config s) (waiting_queue s)) c"
    "0 \<le> batch_context_len out \<longrightarrow> wp_target ?p = batch_context_len out"
    using end_pass_chunks [OF inv, of cap out] unfolding chunk_track_def start_pass_sel by blast
  have "chunk_ok s' (batch_context_len out') (waiting_queue s) c" if c: "c \<in> set new" for c
  proof -
    have "batch_context_len out' = wp_target ?p" using new(3) c by (cases new) (auto simp: out')
    then show ?thesis using new(4) c by (auto simp: chunk_ok_def s' sorted_waiting_ids(1) GetSequenceContextLen_def)
  qed
  moreover have "0 \<le> batch_context_len out \<longrightarrow> batch_context_len out' = batch_context_len out"
    using new(3,5) by (auto simp: out' split: if_splits)
  ultimately show ?thesis using that [of new] new(1-3) by (auto simp: out' split: if_splits)
qed

lemma schedule_group_local:
  assumes "bm_inv (block_mgr (wp_scheduler p))"
  shows "bm_inv (block_mgr (wp_scheduler (schedule_group g p)))"
    "j \<noteq> gid g \<Longrightarrow> seq_status (wp_scheduler (schedule_group g p)) j = seq_status (wp_scheduler p) j"
    "\<exists>gs. wp_still_waiting (schedule_group g p) = wp_still_waiting p @ gs \<and>
       (\<forall>h \<in> set gs. gid h = gid g \<and> num_tokens_to_process h = num_tokens_to_process g)"
proof -
  have "bm_inv (block_mgr (wp_scheduler (schedule_group g p))) \<and>
    (\<forall>j. j \<noteq> gid g \<longrightarrow> seq_status (wp_scheduler (schedule_group g p)) j = seq_status (wp_scheduler p) j) \<and>
    (\<exists>gs. wp_still_waiting (schedule_group g p) = wp_still_waiting p @ gs \<and>
       (\<forall>h \<in> set gs. gid h = gid g \<and> num_tokens_to_process h = num_tokens_to_process g))"
    using assms
  proof (cases rule: schedule_group_outcome [where g = g])
    case keep
    then show ?thesis using assms by (simp add: kept_frame [OF keep])
  next
    case promote
    then show ?thesis using assms by simp
  next
    case cancel
    then show ?thesis using assms by (simp add: Free_inv)
  next
    case (admit n nb bm')
    then show ?thesis
      using takesD(1) [OF admit(2)] admit_still [of "gid g" "GetSequenceContextLen (wp_scheduler p) (gid g)" n nb g "reserved (gid g) g nb bm' p"]
      by auto
  qed
  then show "bm_inv (block_mgr (wp_scheduler (schedule_group g p)))"
    "j \<noteq> gid g \<Longrightarrow> seq_status (wp_scheduler (schedule_group g p)) j = seq_status (wp_scheduler p) j"
    "\<exists>gs. wp_still_waiting (schedule_group g p) = wp_still_waiting p @ gs \<and>
       (\<forall>h \<in> set gs. gid h = gid g \<and> num_tokens_to_process h = num_tokens_to_process g)" by blast+
qed

lemma ScheduleWaiting_local:
  assumes inv: "sched_inv s" and r: "ScheduleWaiting cap (s, out) = (s', out')"
  shows "j \<notin> gid ` set (waiting_queue s) \<Longrightarrow> seq_status s' j = seq_status s j"
    "h \<in> set (waiting_queue s') \<Longrightarrow>
      \<exists>g \<in> set (waiting_queue s). gid h = gid g \<and> num_tokens_to_process h = num_tokens_to_process g"
proof -
  let ?p = "end_pass cap s out"
  let ?P = "\<lambda>p. bm_inv (block_mgr (wp_scheduler p)) \<and>
    (\<forall>j. j \<notin> gid ` set (waiting_queue s) \<longrightarrow> seq_status (wp_scheduler p) j = seq_status s j) \<and>
    (\<forall>h \<in> set (wp_still_waiting p). \<exists>g \<in> set (waiting_queue s). gid h = gid g \<and> num_tokens_to_process h = num_tokens_to_process g)"
  have "?P ?p" unfolding end_pass_def
  proof (rule fold_invariant [where P = ?P and Q = "\<lambda>g. g \<in> set (waiting_queue s)"])
    show "?P (start_pass cap s out)" using inv by (simp add: sched_inv_def)
    show "?P (schedule_group g p)" if g: "g \<in> set (waiting_queue s)" and p: "?P p" for g p
    proof -
      have b: "bm_inv (block_mgr (wp_scheduler p))" using p by blast
      note L = schedule_group_local [OF b, where g = g]
      obtain gs where gs: "wp_still_waiting (schedule_group g p) = wp_still_waiting p @ gs"
        "\<forall>h \<in> set gs. gid h = gid g \<and> num_tokens_to_process h = num_tokens_to_process g" using L(3) by blast
      have "seq_status (wp_scheduler (schedule_group g p)) j = seq_status s j" if "j \<notin> gid ` set (waiting_queue s)" for j
      proof -
        have "j \<noteq> gid g" using that g by (metis imageI)
        then show ?thesis using L(2) p that by simp
      qed
      moreover have "\<exists>k \<in> set (waiting_queue s). gid h = gid k \<and> num_tokens_to_process h = num_tokens_to_process k"
        if "h \<in> set (wp_still_waiting (schedule_group g p))" for h
        using that p gs g by (metis Un_iff set_append)
      ultimately show ?thesis using L(1) p by blast
    qed
  qed (simp add: sorted_waiting_ids)
  moreover have "s' = (wp_scheduler ?p)\<lparr>waiting_queue := wp_still_waiting ?p\<rparr>"
    using finish_scheduler [of ?p] r by (simp add: ScheduleWaiting_end_pass)
  ultimately show "j \<notin> gid ` set (waiting_queue s) \<Longrightarrow> seq_status s' j = seq_status s j"
    "h \<in> set (waiting_queue s') \<Longrightarrow>
      \<exists>g \<in> set (waiting_queue s). gid h = gid g \<and> num_tokens_to_process h = num_tokens_to_process g" by simp_all
qed

lemma ScheduleWaiting_fresh:
  assumes inv: "sched_inv s" and nc: "no_cancel s" and r: "ScheduleWaiting cap (s, out) = (s', out')"
  shows "no_cancel s'" "\<exists>new. new_block_allocations out' = new_block_allocations out @ new \<and>
    takes (block_mgr s) (concat (map snd new)) (block_mgr s')"
proof -
  let ?p = "end_pass cap s out"
  have F: "fresh_track (start_pass cap s out) ?p"
    by (rule end_pass_fresh) (use inv nc in \<open>simp_all add: sched_inv_def\<close>)
  have s': "s' = (wp_scheduler ?p)\<lparr>waiting_queue := wp_still_waiting ?p\<rparr>" and out': "out' = snd (finish_waiting ?p)"
    using finish_scheduler [of ?p] r by (simp_all add: ScheduleWaiting_end_pass)
  have c: "can_chunk s' i = can_chunk s i" "config s' = config s" for i
    using F by (simp_all add: fresh_track_def s' can_chunk_def)
  show "no_cancel s'" using ScheduleWaiting_local(2) [OF inv r] nc unfolding no_cancel_def c by metis
  show "\<exists>new. new_block_allocations out' = new_block_allocations out @ new \<and>
    takes (block_mgr s) (concat (map snd new)) (block_mgr s')"
    using F by (simp add: fresh_track_def s' out')
qed

end
