(* ===== verification/Schedule_Laws.thy ===== *)
theory Schedule_Laws
  imports Waiting_Laws
begin

text \<open>
  Laws of preemption, swap-in and of \<^verbatim>\<open>Scheduler::Schedule\<close> as a whole.
\<close>

section \<open>Preemption\<close>

text \<open>The order in which running sequences are sacrificed: \<open>victim_key\<close> is maximal for the victim.\<close>

definition victim_key :: "int \<Rightarrow> scheduler \<Rightarrow> int \<Rightarrow> int \<times> int \<times> int" where
  "victim_key now s i =
     ((if enable_priority (config s) then GetSequencePriority s i else 0), - GetSequenceProgress s i, GetSequenceArrival now s i)"

definition scan_of :: "int \<Rightarrow> scheduler \<Rightarrow> int \<Rightarrow> victim_scan" where
  "scan_of now s i =
     \<lparr>best_victim = i, best_priority = GetSequencePriority s i, best_progress = GetSequenceProgress s i,
      best_arrival = GetSequenceArrival now s i\<rparr>"

lemma consider_victim_step:
  assumes "0 \<le> i"
  shows "consider_victim now s j (scan_of now s i) =
    (if victim_key now s i < victim_key now s j then scan_of now s j else scan_of now s i)"
  using assms
  by (auto simp: consider_victim_def scan_of_def Let_def is_better_victim_def victim_key_def less_prod_def')

lemma victim_fold:
  assumes "0 \<le> i" and "\<forall>j \<in> set xs. 0 \<le> j"
  shows "\<exists>k \<in> insert i (set xs). fold (consider_victim now s) xs (scan_of now s i) = scan_of now s k \<and>
    (\<forall>j \<in> insert i (set xs). victim_key now s j \<le> victim_key now s k)"
  using assms
proof (induction xs arbitrary: i)
  case (Cons j xs)
  let ?i = "if victim_key now s i < victim_key now s j then j else i"
  obtain k where k: "k \<in> insert ?i (set xs)" "fold (consider_victim now s) xs (scan_of now s ?i) = scan_of now s k"
    "\<forall>j \<in> insert ?i (set xs). victim_key now s j \<le> victim_key now s k"
  proof -
    have "0 \<le> ?i" "\<forall>j \<in> set xs. 0 \<le> j" using Cons.prems by simp_all
    then show thesis using Cons.IH that by blast
  qed
  have "fold (consider_victim now s) (j # xs) (scan_of now s i) = scan_of now s k"
    using consider_victim_step [OF Cons.prems(1)] k(2) by (simp split: if_splits)
  moreover have "k \<in> insert i (set (j # xs))" using k(1) by (auto split: if_splits)
  moreover have "victim_key now s i \<le> victim_key now s k" "victim_key now s j \<le> victim_key now s k"
    using k(3) by (auto split: if_splits intro: order_trans less_imp_le)
  ultimately show ?case using k(3) by (intro bexI [of _ k]) auto
qed simp

text \<open>
  The scan starts from priority \<open>-1\<close> and progress \<^verbatim>\<open>INT_MAX\<close>. With a sequence that beats this start,
  the victim is a running sequence with the worst priority, among those the least progress, and
  among those the latest arrival.
\<close>

lemma SelectPreemptionVictim_best:
  assumes ne: "running_seqs s \<noteq> []" and ids: "\<forall>i \<in> set (running_seqs s). 0 \<le> i \<and> GetSequenceProgress s i \<le> INT_MAX \<and> 0 \<le> GetSequencePriority s i"
  shows "SelectPreemptionVictim now s \<in> set (running_seqs s) \<and>
    (\<forall>j \<in> set (running_seqs s). victim_key now s j \<le> victim_key now s (SelectPreemptionVictim now s))"
proof -
  obtain i xs where r: "running_seqs s = i # xs" using ne by (cases "running_seqs s") auto
  have "consider_victim now s i \<lparr>best_victim = -1, best_priority = -1, best_progress = INT_MAX, best_arrival = 0\<rparr> = scan_of now s i"
    using ids r by (auto simp: consider_victim_def Let_def is_better_victim_def scan_of_def)
  moreover obtain k where "k \<in> insert i (set xs)" "fold (consider_victim now s) xs (scan_of now s i) = scan_of now s k"
    "\<forall>j \<in> insert i (set xs). victim_key now s j \<le> victim_key now s k"
    using victim_fold [of i xs now s] ids r by auto
  ultimately have "SelectPreemptionVictim now s = k \<and> k \<in> set (running_seqs s) \<and>
      (\<forall>j \<in> set (running_seqs s). victim_key now s j \<le> victim_key now s k)"
    by (simp add: SelectPreemptionVictim_def r scan_of_def)
  then show ?thesis by simp
qed

lemma victim_scan_range: "best_victim (fold (consider_victim now s) xs v) \<in> insert (best_victim v) (set xs)"
proof (induction xs arbitrary: v)
  case (Cons i xs)
  have "best_victim (consider_victim now s i v) \<in> {best_victim v, i}" by (simp add: consider_victim_def Let_def)
  then show ?case using Cons.IH [of "consider_victim now s i v"] by auto
qed simp

lemma SelectPreemptionVictim_running:
  "0 \<le> SelectPreemptionVictim now s \<Longrightarrow> SelectPreemptionVictim now s \<in> set (running_seqs s)"
  using victim_scan_range [of now s "running_seqs s"] unfolding SelectPreemptionVictim_def
  by (metis insertE neg_0_le_iff_le not_one_le_zero victim_scan.select_convs(1))

definition preempted :: "int \<Rightarrow> scheduler \<Rightarrow> scheduler" where
  "preempted v s =
     s\<lparr>running_seqs := us_erase v (running_seqs s), swapped_seqs := us_insert v (swapped_seqs s),
       seq_status := (seq_status s)(v \<mapsto> SWAPPED), seq_block_ids := (seq_block_ids s)(v := None)\<rparr>"

lemma PreemptSequences_cases:
  assumes r: "PreemptSequences now (s, out) = (s', out')"
  obtains (none) "s' = s" "out' = out"
  | (victim) v where "v \<in> set (running_seqs s)" "v = SelectPreemptionVictim now s" "s' = preempted v s"
      "out' = out\<lparr>preempted_seq_ids := preempted_seq_ids out @ [v]\<rparr>"
proof -
  let ?v = "SelectPreemptionVictim now s"
  let ?stay = "(GetMemoryUsage s \<le> watermark_low (config s) \<or> running_seqs s = []) \<or> ?v < 0"
  have eq: "PreemptSequences now (s, out) = (if ?stay then (s, out)
      else (preempted ?v s, out\<lparr>preempted_seq_ids := preempted_seq_ids out @ [?v]\<rparr>))"
    by (simp add: PreemptSequences_def Let_def preempted_def)
  show thesis
  proof (cases ?stay)
    case True
    have "(s, out) = (s', out')" using r unfolding eq if_P [OF True] .
    then show ?thesis using none by simp
  next
    case False
    have "(preempted ?v s, out\<lparr>preempted_seq_ids := preempted_seq_ids out @ [?v]\<rparr>) = (s', out')"
      using r unfolding eq if_not_P [OF False] .
    moreover have "?v \<in> set (running_seqs s)" using SelectPreemptionVictim_running False by simp
    ultimately show ?thesis using victim by simp
  qed
qed

lemma PreemptSequences_inv:
  assumes inv: "sched_inv s" and r: "PreemptSequences now (s, out) = (s', out')"
  shows "sched_inv s'" "config s' = config s" "block_mgr s' = block_mgr s" "waiting_queue s' = waiting_queue s"
    "consecutive_decode_batches s' = consecutive_decode_batches s"
    "\<exists>v. set v \<subseteq> set (running_seqs s) \<and> length v \<le> 1 \<and> out' = out\<lparr>preempted_seq_ids := preempted_seq_ids out @ v\<rparr>"
proof -
  show "config s' = config s" "block_mgr s' = block_mgr s" "waiting_queue s' = waiting_queue s"
    "consecutive_decode_batches s' = consecutive_decode_batches s"
    using r by (cases rule: PreemptSequences_cases; simp add: preempted_def)+
  show "\<exists>v. set v \<subseteq> set (running_seqs s) \<and> length v \<le> 1 \<and> out' = out\<lparr>preempted_seq_ids := preempted_seq_ids out @ v\<rparr>"
  using r proof (cases rule: PreemptSequences_cases)
    case none
    then show ?thesis by (intro exI [of _ "[]"]) simp
  next
    case (victim v)
    then show ?thesis by (intro exI [of _ "[v]"]) simp
  qed
  show "sched_inv s'"
  using r proof (cases rule: PreemptSequences_cases)
    case none
    then show ?thesis using inv by simp
  next
    case (victim v)
    have ctx: "GetSequenceContextLen s' = GetSequenceContextLen s"
      by (simp add: victim(3) preempted_def GetSequenceContextLen_def fun_eq_iff)
    show ?thesis using inv victim(1) unfolding sched_inv_def ctx by (auto simp: victim(3) preempted_def)
  qed
qed

section \<open>Swap-in\<close>

definition swap_track :: "scheduler \<Rightarrow> scheduler_output \<Rightarrow> swap_pass \<Rightarrow> bool" where
  "swap_track s out p \<longleftrightarrow>
     sched_inv (sp_scheduler p) \<and> config (sp_scheduler p) = config s \<and> waiting_queue (sp_scheduler p) = waiting_queue s \<and>
     consecutive_decode_batches (sp_scheduler p) = consecutive_decode_batches s \<and>
     set (running_seqs s) \<subseteq> set (running_seqs (sp_scheduler p)) \<and>
     set (running_seqs (sp_scheduler p)) \<union> set (swapped_seqs (sp_scheduler p)) = set (running_seqs s) \<union> set (swapped_seqs s) \<and>
     sp_slots p + int (length (running_seqs (sp_scheduler p))) = max_num_seqs (config s) \<and> 0 \<le> sp_slots p \<and>
     (\<exists>ids new. sp_output p = out\<lparr>swap_in_seq_ids := swap_in_seq_ids out @ ids, new_block_allocations := new_block_allocations out @ new\<rparr> \<and>
        map fst new = ids \<and> takes (block_mgr s) (concat (map snd new)) (block_mgr (sp_scheduler p)))"

lemma sched_inv_takes:
  assumes "sched_inv s" and "takes (block_mgr s) ids bm'"
  shows "sched_inv (s\<lparr>block_mgr := bm'\<rparr>)"
  using assms takesD(1) by (auto simp: sched_inv_def GetSequenceContextLen_def)

lemma swap_in_track:
  assumes t: "swap_track s out p" and i: "i \<in> set (swapped_seqs (sp_scheduler p))"
  shows "swap_track s out (swap_in i p) \<and>
    (\<forall>j. j \<noteq> i \<and> j \<in> set (swapped_seqs (sp_scheduler p)) \<longrightarrow> j \<in> set (swapped_seqs (sp_scheduler (swap_in i p))))"
proof -
  let ?s = "sp_scheduler p" and ?n = "BlocksNeeded (swap_tokens (sp_scheduler p) i)"
  have inv: "sched_inv ?s" using t unfolding swap_track_def by blast
  then have inv: "sched_inv ?s" "bm_inv (block_mgr ?s)" by (simp_all add: sched_inv_def)
  show ?thesis
  proof (cases "sp_slots p \<le> 0 \<or> GetFreeBlockCount (block_mgr ?s) < ?n")
    case True
    then have "swap_in i p = p" by (auto simp: swap_in_def Let_def)
    then show ?thesis using t by simp
  next
    case False
    have pos: "0 < ?n"
    proof -
      have "1 \<le> swap_tokens ?s i" by (simp add: swap_tokens_def Let_def)
      then have "swap_tokens ?s i \<le> ?n * BLOCK_SIZE" using ceil_div_bounds(1) [of "swap_tokens ?s i" BLOCK_SIZE] by (simp add: BlocksNeeded_def)
      then show ?thesis using \<open>1 \<le> swap_tokens ?s i\<close> by linarith
    qed
    obtain nb bm' where a: "Allocate ?n (block_mgr ?s) = (nb, bm')" by fastforce
    have "?n \<le> int (card (available (block_mgr ?s)))" using False GetFreeBlockCount_le_available [OF inv(2)] by simp
    then have tk: "int (length nb) = ?n" "takes (block_mgr ?s) nb bm'" using Allocate_spec [OF inv(2) pos a] by auto
    then have ne: "nb \<noteq> []" using pos by auto
    define p' where "p' = swap_in i p"
    have eq: "sp_scheduler p' = ?s\<lparr>block_mgr := bm', seq_block_ids := (seq_block_ids ?s)(i \<mapsto> nb),
          swapped_seqs := us_erase i (swapped_seqs ?s), running_seqs := us_insert i (running_seqs ?s),
          seq_status := (seq_status ?s)(i \<mapsto> RUNNING)\<rparr>"
      "sp_output p' = (sp_output p)\<lparr>swap_in_seq_ids := swap_in_seq_ids (sp_output p) @ [i],
          new_block_allocations := new_block_allocations (sp_output p) @ [(i, nb)]\<rparr>" "sp_slots p' = sp_slots p - 1"
      using False a ne by (simp_all add: p'_def swap_in_def Let_def)
    have "sched_inv (sp_scheduler p')"
      using sched_inv_takes [OF inv(1) tk(2)] i by (auto simp: eq sched_inv_def GetSequenceContextLen_def)
    moreover have nr: "i \<notin> set (running_seqs ?s)" using inv(1) i by (auto simp: sched_inv_def)
    moreover obtain ids new where new: "sp_output p = out\<lparr>swap_in_seq_ids := swap_in_seq_ids out @ ids, new_block_allocations := new_block_allocations out @ new\<rparr>"
        "map fst new = ids" "takes (block_mgr s) (concat (map snd new)) (block_mgr ?s)"
      using t unfolding swap_track_def by blast
    have "takes (block_mgr s) (concat (map snd (new @ [(i, nb)]))) bm'" using takes_append [OF new(3) tk(2)] by simp
    then have "\<exists>ids new. sp_output p' = out\<lparr>swap_in_seq_ids := swap_in_seq_ids out @ ids, new_block_allocations := new_block_allocations out @ new\<rparr> \<and>
        map fst new = ids \<and> takes (block_mgr s) (concat (map snd new)) (block_mgr (sp_scheduler p'))"
      using new(1,2) by (intro exI [of _ "ids @ [i]"] exI [of _ "new @ [(i, nb)]"]) (simp add: eq)
    moreover have "length (running_seqs (sp_scheduler p')) = Suc (length (running_seqs ?s))" using nr by (simp add: eq length_us_insert)
    ultimately have "swap_track s out p'" using t False i unfolding swap_track_def by (auto simp: eq)
    then show ?thesis by (auto simp: p'_def [symmetric] eq)
  qed
qed

lemma ScheduleSwapped_track:
  assumes inv: "sched_inv s" and slots: "int (length (running_seqs s)) \<le> max_num_seqs (config s)"
    and r: "ScheduleSwapped now (s, out) = (s', out')"
  shows "swap_track s out \<lparr>sp_scheduler = s', sp_output = out', sp_slots = max_num_seqs (config s) - int (length (running_seqs s'))\<rparr>"
proof -
  let ?p0 = "\<lparr>sp_scheduler = s, sp_output = out, sp_slots = max_num_seqs (config s) - int (length (running_seqs s))\<rparr>"
  have t0: "swap_track s out ?p0" using inv slots takes_Nil [of "block_mgr s"]
    by (auto simp: swap_track_def sched_inv_def intro: exI [of _ "[]"])
  have fold: "swap_track s out (fold swap_in xs p)"
    if "swap_track s out p" "distinct xs" "set xs \<subseteq> set (swapped_seqs (sp_scheduler p))" for xs p
    using that
  proof (induction xs arbitrary: p)
    case (Cons i xs)
    have "swap_track s out (swap_in i p)" "\<forall>j. j \<noteq> i \<and> j \<in> set (swapped_seqs (sp_scheduler p)) \<longrightarrow> j \<in> set (swapped_seqs (sp_scheduler (swap_in i p)))"
      using swap_in_track [OF Cons.prems(1), of i] Cons.prems(3) by simp_all
    moreover then have "set xs \<subseteq> set (swapped_seqs (sp_scheduler (swap_in i p)))"
      using Cons.prems(2,3) by fastforce
    ultimately show ?case using Cons.IH [of "swap_in i p"] Cons.prems(2) by simp
  qed simp
  show ?thesis
  proof (cases "swapped_seqs s = [] \<or> max_num_seqs (config s) - int (length (running_seqs s)) \<le> 0")
    case True
    then have "ScheduleSwapped now (s, out) = (s, out)" by (auto simp: ScheduleSwapped_def Let_def)
    then show ?thesis using r t0 by simp
  next
    case False
    let ?p = "fold swap_in (running_order now s (swapped_seqs s)) ?p0"
    have p: "swap_track s out ?p" by (rule fold [OF t0]) (use inv in \<open>simp_all add: sched_inv_def\<close>)
    have "s' = sp_scheduler ?p" "out' = sp_output ?p" using r False by (simp_all add: ScheduleSwapped_def Let_def)
    moreover have "sp_slots ?p = max_num_seqs (config s) - int (length (running_seqs (sp_scheduler ?p)))"
      using p by (simp add: swap_track_def)
    ultimately show ?thesis using p by (simp add: swap_track_def)
  qed
qed

lemma ScheduleSwapped_spec:
  assumes inv: "sched_inv s" and r: "ScheduleSwapped now (s, out) = (s', out')"
  shows "sched_inv s' \<and> config s' = config s \<and> waiting_queue s' = waiting_queue s \<and>
    consecutive_decode_batches s' = consecutive_decode_batches s \<and> set (running_seqs s) \<subseteq> set (running_seqs s') \<and>
    set (running_seqs s') \<union> set (swapped_seqs s') = set (running_seqs s) \<union> set (swapped_seqs s) \<and>
    int (length (running_seqs s')) \<le> max (int (length (running_seqs s))) (max_num_seqs (config s)) \<and>
    (\<exists>new. out' = out\<lparr>swap_in_seq_ids := swap_in_seq_ids out @ map fst new, new_block_allocations := new_block_allocations out @ new\<rparr> \<and>
       takes (block_mgr s) (concat (map snd new)) (block_mgr s'))"
proof (cases "int (length (running_seqs s)) \<le> max_num_seqs (config s)")
  case True
  have "swap_track s out \<lparr>sp_scheduler = s', sp_output = out', sp_slots = max_num_seqs (config s) - int (length (running_seqs s'))\<rparr>"
    by (rule ScheduleSwapped_track [OF inv True r])
  then show ?thesis unfolding swap_track_def by auto
next
  case False
  then have e: "ScheduleSwapped now (s, out) = (s, out)" by (simp add: ScheduleSwapped_def)
  have "bm_inv (block_mgr s)" using inv by (simp add: sched_inv_def)
  then have "\<exists>new. out = out\<lparr>swap_in_seq_ids := swap_in_seq_ids out @ map fst new, new_block_allocations := new_block_allocations out @ new\<rparr> \<and>
       takes (block_mgr s) (concat (map snd new)) (block_mgr s)"
    using takes_Nil by (intro exI [of _ "[]"]) simp
  then show ?thesis using r e inv by simp
qed

section \<open>Before the phase decision\<close>

text \<open>An output under construction to which neither pass has added anything.\<close>

definition base_out :: "scheduler_output \<Rightarrow> bool" where
  "base_out out \<longleftrightarrow>
     out_ok out \<and> prefill_seq_ids out = [] \<and> decode_seq_ids out = [] \<and> batch_context_len out = -1 \<and>
     length (preempted_seq_ids out) \<le> 1"

definition before_phase :: "int \<Rightarrow> scheduler \<Rightarrow> scheduler \<times> scheduler_output" where
  "before_phase now s =
     (let s1 = clear_reasons s
      in ScheduleSwapped now
           (if GetMemoryUsage s1 > watermark_high (config s1)
            then PreemptSequences now (s1, SchedulerOutput) else (s1, SchedulerOutput)))"

lemma Schedule_before_phase:
  "Schedule now s =
     (let (s3, o3) = before_phase now s
      in if isolate_prefill_decode (config s3) then
           if prefill_first s3 then
             let (s4, o4) = ScheduleWaiting (-1) (s3, o3)
             in if prefill_seq_ids o4 \<noteq> [] then (clear_reasons (s4\<lparr>consecutive_decode_batches := 0\<rparr>), o4)
                else isolated_decode now (s4, o4)
           else isolated_decode now (s3, o3)
         else
           let (s4, o4) = ScheduleWaiting (-1) (s3, ScheduleRunning now s3 o3)
           in (if IsEmpty o4 then record_reasons o4 s4 else clear_reasons s4, o4))"
  by (simp add: Schedule_def before_phase_def Let_def case_prod_unfold split: if_split)

lemma sched_inv_reasons [simp]:
  "sched_inv (clear_reasons s) = sched_inv s" "sched_inv (record_reasons out s) = sched_inv s"
  "sched_inv (s\<lparr>consecutive_decode_batches := k\<rparr>) = sched_inv s"
  by (simp_all add: sched_inv_def clear_reasons_def record_reasons_def GetSequenceContextLen_def)

lemma reasons_frame [simp]:
  "config (clear_reasons s) = config s" "config (record_reasons out s) = config s"
  "waiting_queue (clear_reasons s) = waiting_queue s" "waiting_queue (record_reasons out s) = waiting_queue s"
  "running_seqs (clear_reasons s) = running_seqs s" "running_seqs (record_reasons out s) = running_seqs s"
  "swapped_seqs (clear_reasons s) = swapped_seqs s" "swapped_seqs (record_reasons out s) = swapped_seqs s"
  "seq_status (clear_reasons s) = seq_status s" "seq_status (record_reasons out s) = seq_status s"
  "block_mgr (clear_reasons s) = block_mgr s" "block_mgr (record_reasons out s) = block_mgr s"
  "seq_block_ids (clear_reasons s) = seq_block_ids s" "seq_block_ids (record_reasons out s) = seq_block_ids s"
  "consecutive_decode_batches (clear_reasons s) = consecutive_decode_batches s"
  "consecutive_decode_batches (record_reasons out s) = consecutive_decode_batches s"
  "GetSequenceContextLen (clear_reasons s) = GetSequenceContextLen s"
  "GetSequenceContextLen (record_reasons out s) = GetSequenceContextLen s"
  by (simp_all add: clear_reasons_def record_reasons_def GetSequenceContextLen_def fun_eq_iff)

lemma before_phase_spec:
  assumes inv: "sched_inv s" and r: "before_phase now s = (s3, o3)"
  shows "sched_inv s3" "config s3 = config s" "waiting_queue s3 = waiting_queue s"
    "consecutive_decode_batches s3 = consecutive_decode_batches s"
    "set (running_seqs s3) \<union> set (swapped_seqs s3) = set (running_seqs s) \<union> set (swapped_seqs s)"
    "base_out o3" "total_tokens o3 = 0"
    "takes (block_mgr s) (concat (map snd (new_block_allocations o3))) (block_mgr s3)"
    "set (preempted_seq_ids o3) \<subseteq> set (running_seqs s)"
proof -
  let ?s1 = "clear_reasons s"
  obtain s2 o2 where p: "(s2, o2) = (if GetMemoryUsage ?s1 > watermark_high (config ?s1)
      then PreemptSequences now (?s1, SchedulerOutput) else (?s1, SchedulerOutput))" by (metis surj_pair)
  have inv1: "sched_inv ?s1" using inv by simp
  have S2: "sched_inv s2 \<and> config s2 = config s \<and> waiting_queue s2 = waiting_queue s \<and> block_mgr s2 = block_mgr s \<and>
      consecutive_decode_batches s2 = consecutive_decode_batches s \<and>
      set (running_seqs s2) \<union> set (swapped_seqs s2) = set (running_seqs s) \<union> set (swapped_seqs s) \<and>
      (\<exists>v. set v \<subseteq> set (running_seqs s) \<and> length v \<le> 1 \<and> o2 = SchedulerOutput\<lparr>preempted_seq_ids := v\<rparr>)"
  proof (cases "GetMemoryUsage ?s1 > watermark_high (config ?s1)")
    case False
    then show ?thesis using p inv by (auto simp: SchedulerOutput_def intro: exI [of _ "[]"])
  next
    case True
    then have pr: "PreemptSequences now (?s1, SchedulerOutput) = (s2, o2)" using p by simp
    have "set (running_seqs s2) \<union> set (swapped_seqs s2) = set (running_seqs s) \<union> set (swapped_seqs s)"
      using pr by (cases rule: PreemptSequences_cases) (auto simp: preempted_def)
    then show ?thesis using PreemptSequences_inv [OF inv1 pr] by (simp add: SchedulerOutput_def)
  qed
  then obtain v where v: "set v \<subseteq> set (running_seqs s)" "length v \<le> 1" "o2 = SchedulerOutput\<lparr>preempted_seq_ids := v\<rparr>" by blast
  have sw: "ScheduleSwapped now (s2, o2) = (s3, o3)" using r p by (simp add: before_phase_def Let_def)
  have "sched_inv s2" using S2 by blast
  note W = ScheduleSwapped_spec [OF this sw]
  obtain new where new: "o3 = o2\<lparr>swap_in_seq_ids := swap_in_seq_ids o2 @ map fst new, new_block_allocations := new_block_allocations o2 @ new\<rparr>"
    "takes (block_mgr s2) (concat (map snd new)) (block_mgr s3)" using W by blast
  show "sched_inv s3" "config s3 = config s" "waiting_queue s3 = waiting_queue s"
    "consecutive_decode_batches s3 = consecutive_decode_batches s"
    "set (running_seqs s3) \<union> set (swapped_seqs s3) = set (running_seqs s) \<union> set (swapped_seqs s)"
    using W S2 by simp_all
  show "base_out o3" "total_tokens o3 = 0" "takes (block_mgr s) (concat (map snd (new_block_allocations o3))) (block_mgr s3)"
    "set (preempted_seq_ids o3) \<subseteq> set (running_seqs s)"
    using new v S2 by (simp_all add: base_out_def out_ok_def SchedulerOutput_def)
qed

section \<open>Limits of a batch\<close>

definition within_limits :: "scheduler_config \<Rightarrow> scheduler_output \<Rightarrow> bool" where
  "within_limits cfg out \<longleftrightarrow>
     out_ok out \<and> total_tokens out \<le> max 0 (max_num_batched_tokens cfg) \<and>
     int (length (prefill_seq_ids out)) \<le> as_size_t (max 1 (max_prefill_seqs cfg)) \<and>
     int (ScheduledSeqCount out) \<le> as_size_t (max_num_seqs cfg) \<and>
     length (preempted_seq_ids out) \<le> 1 \<and> distinct (decode_seq_ids out)"

lemma as_size_t_nonneg [simp]: "0 \<le> as_size_t n"
  by (simp add: as_size_t_def)

lemma as_size_t_id: "0 \<le> n \<Longrightarrow> n \<le> INT_MAX \<Longrightarrow> as_size_t n = n"
  by (simp add: as_size_t_def)

lemma out_ok_base: "out_ok out \<Longrightarrow> prefill_seq_ids out = [] \<Longrightarrow> decode_seq_ids out = [] \<Longrightarrow> total_tokens out = 0 \<and> prefill_chunks out = []"
  by (auto simp: out_ok_def)

lemma base_within_limits: "base_out out \<Longrightarrow> within_limits cfg out"
  using out_ok_base by (auto simp: base_out_def within_limits_def ScheduledSeqCount_def)

lemma running_batch:
  assumes inv: "sched_inv s" and w: "within_limits (config s) out" and d: "decode_seq_ids out = []"
    and r: "out' = ScheduleRunning now s out"
  shows "within_limits (config s) out'" "set (decode_seq_ids out') \<subseteq> set (running_seqs s)"
    "prefill_seq_ids out' = prefill_seq_ids out" "prefill_chunks out' = prefill_chunks out"
    "new_block_allocations out' = new_block_allocations out" "preempted_seq_ids out' = preempted_seq_ids out"
    "num_prefill_tokens out' = num_prefill_tokens out"
    "decode_seq_ids out' = [] \<longrightarrow> batch_context_len out' = batch_context_len out"
    "decode_seq_ids out' \<noteq> [] \<longrightarrow> batch_context_len out' = GetSequenceContextLen s (hd (decode_seq_ids out'))"
    "decode_homogeneous_batch_n_past s \<longrightarrow> (\<forall>i \<in> set (decode_seq_ids out'). GetSequenceContextLen s i = batch_context_len out')"
proof -
  have "distinct (running_seqs s)" "\<forall>i \<in> set (running_seqs s). 0 \<le> GetSequenceContextLen s i"
    using inv by (simp_all add: sched_inv_def)
  then obtain ids ctx reason where R: "out' = (decode_step ids ctx out)\<lparr>empty_reason := reason\<rparr>"
    "distinct ids" "set ids \<subseteq> set (running_seqs s)"
    "int (length ids) \<le> max 0 (max_num_batched_tokens (config s) - total_tokens out)"
    "ids \<noteq> [] \<longrightarrow> int (ScheduledSeqCount out + length ids) \<le> as_size_t (max_num_seqs (config s))"
    "ids = [] \<longrightarrow> ctx = batch_context_len out"
    "ids \<noteq> [] \<longrightarrow> ctx = GetSequenceContextLen s (hd ids)"
    "decode_homogeneous_batch_n_past s \<longrightarrow> (\<forall>i \<in> set ids. GetSequenceContextLen s i = ctx)"
    unfolding r by (rule ScheduleRunning_spec [where now = now and out = out])
  have dec: "decode_seq_ids out' = ids" "batch_context_len out' = ctx" using d by (simp_all add: R(1) decode_step_def)
  show "set (decode_seq_ids out') \<subseteq> set (running_seqs s)"
    "decode_seq_ids out' = [] \<longrightarrow> batch_context_len out' = batch_context_len out"
    "decode_seq_ids out' \<noteq> [] \<longrightarrow> batch_context_len out' = GetSequenceContextLen s (hd (decode_seq_ids out'))"
    "decode_homogeneous_batch_n_past s \<longrightarrow> (\<forall>i \<in> set (decode_seq_ids out'). GetSequenceContextLen s i = batch_context_len out')"
    using R(3,6,7,8) by (simp_all add: dec)
  show "prefill_seq_ids out' = prefill_seq_ids out" "prefill_chunks out' = prefill_chunks out"
    "new_block_allocations out' = new_block_allocations out" "preempted_seq_ids out' = preempted_seq_ids out"
    "num_prefill_tokens out' = num_prefill_tokens out"
    by (simp_all add: R(1) decode_step_def)
  have cnt: "ScheduledSeqCount out' = ScheduledSeqCount out + length ids"
    by (simp add: R(1) decode_step_def ScheduledSeqCount_def)
  have "out_ok out'" "total_tokens out' = total_tokens out + int (length ids)"
    using w by (simp_all add: R(1) decode_step_def within_limits_def out_ok_def)
  moreover have "int (ScheduledSeqCount out') \<le> as_size_t (max_num_seqs (config s))"
    using R(5) w cnt by (cases "ids = []") (simp_all add: within_limits_def)
  moreover have "distinct (decode_seq_ids out')" using R(2) by (simp add: dec)
  moreover have "length (preempted_seq_ids out') \<le> 1" "prefill_seq_ids out' = prefill_seq_ids out"
    using w by (simp_all add: R(1) decode_step_def within_limits_def)
  ultimately show "within_limits (config s) out'" using w R(4) by (auto simp: within_limits_def)
qed

lemma waiting_batch:
  assumes inv: "sched_inv s" and w: "within_limits (config s) out"
    and r: "ScheduleWaiting cap (s, out\<lparr>batch_context_len := b\<rparr>) = (s', out')"
  shows "within_limits (config s) out'"
proof -
  have "out_ok (out\<lparr>batch_context_len := b\<rparr>)" using w by (simp add: within_limits_def out_ok_def)
  note A = ScheduleWaiting_accounted [OF inv this r]
  show ?thesis using A(1-5,7,8) w by (auto simp: within_limits_def ScheduledSeqCount_def)
qed

lemma waiting_batch_plain:
  assumes "sched_inv s" and "within_limits (config s) out" and "ScheduleWaiting cap (s, out) = (s', out')"
  shows "within_limits (config s) out'"
  using waiting_batch [OF assms(1,2), of cap "batch_context_len out"] assms(3) by simp

lemma waiting_empty_base:
  assumes inv: "sched_inv s" and b: "base_out out" and r: "ScheduleWaiting cap (s, out) = (s', out')" and e: "prefill_seq_ids out' = []"
  shows "base_out out'"
proof -
  have ok: "out_ok out" using b by (simp add: base_out_def)
  note A = ScheduleWaiting_accounted [OF inv ok r]
  have "prefill_chunks out' = []" using A(1) e by (auto simp: out_ok_def)
  then have "batch_context_len out' = batch_context_len out"
    using ScheduleWaiting_chunks [OF inv r] by (metis append_is_Nil_conv)
  then show ?thesis using A(1-4) b e by (simp add: base_out_def)
qed

section \<open>The decode branch\<close>

lemma mixed_admission_cases:
  assumes r: "mixed_admission (s, out) = (adm, s', out')"
  obtains (none) "s' = s" "out' = out" "\<not> adm"
  | (mixed) cap b where "enable_mixed_prefill_decode (config s)" "0 < cap"
      "cap \<le> max_mixed_prefill_tokens (config s)" "cap \<le> max_prefill_tokens (config s)"
      "decode_bucket s (decode_seq_ids out) (-1) = (b, True)" "0 \<le> b"
      "ScheduleWaiting cap (s, out\<lparr>batch_context_len := b\<rparr>) = (s', out')"
      "adm \<longleftrightarrow> length (prefill_seq_ids out') > length (prefill_seq_ids out)"
proof -
  obtain b h where bh: "decode_bucket s (decode_seq_ids out) (-1) = (b, h)" by fastforce
  define cap where "cap = min (max_mixed_prefill_tokens (config s)) (min (max_prefill_tokens (config s))
      (max 0 (max_num_batched_tokens (config s) - total_tokens out)))"
  have le: "cap \<le> max_mixed_prefill_tokens (config s)" "cap \<le> max_prefill_tokens (config s)" by (simp_all add: cap_def)
  obtain s1 o1 where w: "ScheduleWaiting cap (s, out\<lparr>batch_context_len := b\<rparr>) = (s1, o1)" by fastforce
  have eq: "mixed_admission (s, out) =
      (if (enable_mixed_prefill_decode (config s) \<and> waiting_queue s \<noteq> []) \<and> (h \<and> b \<ge> 0) \<and> cap > 0
       then (length (prefill_seq_ids o1) > length (prefill_seq_ids out), s1, o1) else (False, s, out))"
    unfolding mixed_admission_def Let_def prod.case bh cap_def [symmetric] by (simp add: w)
  show thesis
  proof (cases "(enable_mixed_prefill_decode (config s) \<and> waiting_queue s \<noteq> []) \<and> (h \<and> b \<ge> 0) \<and> cap > 0")
    case True
    have "(length (prefill_seq_ids o1) > length (prefill_seq_ids out), s1, o1) = (adm, s', out')" using r unfolding eq if_P [OF True] .
    then have e: "s' = s1" "out' = o1" "adm \<longleftrightarrow> length (prefill_seq_ids o1) > length (prefill_seq_ids out)" by auto
    show ?thesis by (rule mixed [of cap b]) (use True bh w le in \<open>simp_all add: e\<close>)
  next
    case False
    have "(False, s, out) = (adm, s', out')" using r unfolding eq if_not_P [OF False] .
    then show ?thesis using none by simp
  qed
qed

lemma decode_bucket_homogeneous:
  "decode_bucket s ids b0 = (b, True) \<Longrightarrow> \<forall>i \<in> set ids. 0 \<le> GetSequenceContextLen s i \<Longrightarrow>
   (\<forall>i \<in> set ids. GetSequenceContextLen s i = b) \<and> (0 \<le> b0 \<longrightarrow> b = b0)"
proof (induction ids arbitrary: b0)
  case (Cons i ids)
  let ?c = "GetSequenceContextLen s i"
  have c: "0 \<le> ?c" using Cons.prems(2) by simp
  have same: "0 \<le> b0 \<longrightarrow> b0 = ?c"
  proof (rule ccontr)
    assume "\<not> ?thesis"
    then show False using Cons.prems(1) by (simp add: Let_def)
  qed
  then have "decode_bucket s ids ?c = (b, True)"
    using Cons.prems(1) by (cases "b0 < 0") (simp_all add: Let_def)
  then have ih: "\<forall>j \<in> set ids. GetSequenceContextLen s j = b" "b = ?c" using Cons.IH [of ?c] Cons.prems(2) c by (metis list.set_intros(2))+
  have "\<forall>j \<in> set (i # ids). GetSequenceContextLen s j = b" using ih by (metis set_ConsD)
  moreover have "0 \<le> b0 \<longrightarrow> b = b0" using same ih(2) by metis
  ultimately show ?case ..
qed simp

text \<open>
  The end of an isolated iteration. Either nothing could be decoded and a plain prefill pass
  follows, or the decode batch stands and a bounded prefill chunk may join it.
\<close>

lemma isolated_decode_cases:
  assumes r: "isolated_decode now (s, out0) = (s', out')"
  obtains (decode) s1 adm where "decode_seq_ids (ScheduleRunning now s out0) \<noteq> []"
      "mixed_admission (s, ScheduleRunning now s out0) = (adm, s1, out')"
      "s' = clear_reasons (s1\<lparr>consecutive_decode_batches :=
         (if adm \<and> waiting_queue s1 = [] then 0 else consecutive_decode_batches s1 + 1)\<rparr>)"
  | (prefill) s1 k where "decode_seq_ids (ScheduleRunning now s out0) = []"
      "ScheduleWaiting (-1) (s, ScheduleRunning now s out0) = (s1, out')"
      "k = (if prefill_seq_ids out' \<noteq> [] then 0 else consecutive_decode_batches s1)"
      "s' = (if IsEmpty out' then record_reasons out' (s1\<lparr>consecutive_decode_batches := k\<rparr>) else s1\<lparr>consecutive_decode_batches := k\<rparr>)"
proof (cases "decode_seq_ids (ScheduleRunning now s out0) = []")
  case True
  obtain s1 o1 where w: "ScheduleWaiting (-1) (s, ScheduleRunning now s out0) = (s1, o1)" by fastforce
  let ?k = "if prefill_seq_ids o1 \<noteq> [] then 0 else consecutive_decode_batches s1"
  have eq: "isolated_decode now (s, out0) =
      (if IsEmpty o1 then record_reasons o1 (s1\<lparr>consecutive_decode_batches := ?k\<rparr>) else s1\<lparr>consecutive_decode_batches := ?k\<rparr>, o1)"
    using True w by (simp add: isolated_decode_def Let_def)
  note e = arg_cong [OF r, of snd, unfolded eq snd_conv, symmetric] arg_cong [OF r, of fst, unfolded eq fst_conv, symmetric]
  show ?thesis by (rule prefill [of s1 ?k]) (use True w e in simp_all)
next
  case False
  obtain adm s1 o1 where m: "mixed_admission (s, ScheduleRunning now s out0) = (adm, s1, o1)" by (metis prod_cases3)
  have eq: "isolated_decode now (s, out0) = (clear_reasons (s1\<lparr>consecutive_decode_batches :=
         (if adm \<and> waiting_queue s1 = [] then 0 else consecutive_decode_batches s1 + 1)\<rparr>), o1)"
    using False m by (simp add: isolated_decode_def Let_def)
  note e = arg_cong [OF r, of snd, unfolded eq snd_conv, symmetric] arg_cong [OF r, of fst, unfolded eq fst_conv, symmetric]
  show ?thesis by (rule decode [of adm s1]) (use False m e in simp_all)
qed

section \<open>The shape of an iteration\<close>

definition strip_stats :: "scheduler \<Rightarrow> scheduler" where
  "strip_stats s = s\<lparr>consecutive_decode_batches := 0, last_empty_reason := EmptyNone, last_unschedulable_reason := UnschedNone\<rparr>"

lemma strip_stats_simps [simp]:
  "strip_stats (clear_reasons s) = strip_stats s" "strip_stats (record_reasons out s) = strip_stats s"
  "strip_stats (s\<lparr>consecutive_decode_batches := k\<rparr>) = strip_stats s"
  by (simp_all add: strip_stats_def clear_reasons_def record_reasons_def)

lemma strip_stats_sel:
  assumes "strip_stats s' = strip_stats s"
  shows "sched_inv s' = sched_inv s" "waiting_queue s' = waiting_queue s" "running_seqs s' = running_seqs s"
    "swapped_seqs s' = swapped_seqs s" "seq_status s' = seq_status s" "block_mgr s' = block_mgr s"
    "seq_block_ids s' = seq_block_ids s" "config s' = config s" "GetSequenceContextLen s' = GetSequenceContextLen s"
proof -
  have "waiting_queue (strip_stats s) = waiting_queue s" "running_seqs (strip_stats s) = running_seqs s"
    "swapped_seqs (strip_stats s) = swapped_seqs s" "seq_status (strip_stats s) = seq_status s"
    "block_mgr (strip_stats s) = block_mgr s" "seq_block_ids (strip_stats s) = seq_block_ids s"
    "config (strip_stats s) = config s" "GetSequenceContextLen (strip_stats s) = GetSequenceContextLen s"
    "sched_inv (strip_stats s) = sched_inv s" for s
    by (simp_all add: strip_stats_def GetSequenceContextLen_def fun_eq_iff sched_inv_def)
  then show "sched_inv s' = sched_inv s" "waiting_queue s' = waiting_queue s" "running_seqs s' = running_seqs s"
    "swapped_seqs s' = swapped_seqs s" "seq_status s' = seq_status s" "block_mgr s' = block_mgr s"
    "seq_block_ids s' = seq_block_ids s" "config s' = config s" "GetSequenceContextLen s' = GetSequenceContextLen s"
    using assms by metis+
qed

text \<open>
  Every iteration ends in one of two ways: with a prefill pass over \<open>oB\<close>, the output before it, or with
  the decode batch. \<open>sA\<close> is the state at that point, \<open>oA\<close> the output to which no pass has contributed.
\<close>

definition reaches :: "int \<Rightarrow> scheduler \<Rightarrow> scheduler \<Rightarrow> scheduler_output \<Rightarrow> bool" where
  "reaches now s sA oA \<longleftrightarrow>
     (\<exists>s3 o3. before_phase now s = (s3, o3) \<and>
        ((sA, oA) = (s3, o3) \<or>
         isolate_prefill_decode (config s) \<and> prefill_first s3 \<and>
         ScheduleWaiting (-1) (s3, o3) = (sA, oA) \<and> prefill_seq_ids oA = []))"

lemma reaches_inv:
  assumes inv: "sched_inv s" and r: "reaches now s sA oA"
  shows "sched_inv sA" "config sA = config s" "base_out oA"
    "consecutive_decode_batches sA = consecutive_decode_batches s"
proof -
  obtain s3 o3 where b: "before_phase now s = (s3, o3)"
    and alt: "(sA, oA) = (s3, o3) \<or> ScheduleWaiting (-1) (s3, o3) = (sA, oA) \<and> prefill_seq_ids oA = []"
    using r unfolding reaches_def by blast
  note B = before_phase_spec [OF inv b]
  have "sched_inv sA \<and> config sA = config s \<and> base_out oA \<and> consecutive_decode_batches sA = consecutive_decode_batches s"
  proof (cases "(sA, oA) = (s3, o3)")
    case True
    then show ?thesis using B by simp
  next
    case False
    then have w: "ScheduleWaiting (-1) (s3, o3) = (sA, oA)" "prefill_seq_ids oA = []" using alt by blast+
    show ?thesis using ScheduleWaiting_inv [OF B(1) w(1)] waiting_empty_base [OF B(1,6) w] B(2,4) by simp
  qed
  then show "sched_inv sA" "config sA = config s" "base_out oA"
    "consecutive_decode_batches sA = consecutive_decode_batches s" by simp_all
qed

lemma Schedule_shape:
  assumes r: "Schedule now s = (s', out)" and inv: "sched_inv s"
  obtains (prefill_only) sA oA sB where "reaches now s sA oA" "isolate_prefill_decode (config s)"
      "ScheduleWaiting (-1) (sA, oA) = (sB, out)" "strip_stats s' = strip_stats sB" "prefill_seq_ids out \<noteq> []"
      "consecutive_decode_batches s' = 0"
  | (fallback) sA oA sB where "reaches now s sA oA" "isolate_prefill_decode (config s)"
      "decode_seq_ids (ScheduleRunning now sA oA) = []" "ScheduleWaiting (-1) (sA, ScheduleRunning now sA oA) = (sB, out)"
      "strip_stats s' = strip_stats sB"
  | (decode) sA oA where "reaches now s sA oA" "isolate_prefill_decode (config s)"
      "out = ScheduleRunning now sA oA" "decode_seq_ids out \<noteq> []" "strip_stats s' = strip_stats sA"
      "consecutive_decode_batches s' = consecutive_decode_batches s + 1"
  | (mixed) sA oA sB cap b where "reaches now s sA oA" "isolate_prefill_decode (config s)"
      "enable_mixed_prefill_decode (config s)" "decode_seq_ids (ScheduleRunning now sA oA) \<noteq> []"
      "0 < cap" "cap \<le> max_mixed_prefill_tokens (config s)" "cap \<le> max_prefill_tokens (config s)"
      "decode_bucket sA (decode_seq_ids (ScheduleRunning now sA oA)) (-1) = (b, True)" "0 \<le> b"
      "ScheduleWaiting cap (sA, (ScheduleRunning now sA oA)\<lparr>batch_context_len := b\<rparr>) = (sB, out)"
      "strip_stats s' = strip_stats sB"
  | (legacy) sA oA sB where "reaches now s sA oA" "\<not> isolate_prefill_decode (config s)"
      "ScheduleWaiting (-1) (sA, ScheduleRunning now sA oA) = (sB, out)" "strip_stats s' = strip_stats sB"
proof -
  note outcome = that
  obtain s3 o3 where b: "before_phase now s = (s3, o3)" by fastforce
  note B = before_phase_spec [OF inv b]
  have c3: "config s3 = config s" by (rule B(2))
  have iso: thesis if i: "isolate_prefill_decode (config s)" and re: "reaches now s sA oA"
    and d: "isolated_decode now (sA, oA) = (s', out)" for sA oA
    using d
  proof (cases rule: isolated_decode_cases)
    case (decode s1 adm)
    note D = decode
    have cA: "config sA = config s" "consecutive_decode_batches sA = consecutive_decode_batches s" by (rule reaches_inv [OF inv re])+
    show thesis using D(2)
    proof (cases rule: mixed_admission_cases)
      case none
      show thesis by (rule outcome(3) [OF re i])
          (use D none cA in \<open>simp_all\<close>)
    next
      case (mixed cap b)
      show thesis by (rule outcome(4) [OF re i]) (use D mixed cA in \<open>simp_all\<close>)
    qed
  next
    case (prefill s1 k)
    show thesis by (rule outcome(2) [OF re i prefill(1,2)]) (simp add: prefill(4))
  qed
  have re3: "reaches now s s3 o3" using b by (simp add: reaches_def)
  show thesis
  proof (cases "isolate_prefill_decode (config s)")
    case False
    obtain s4 o4 where w: "ScheduleWaiting (-1) (s3, ScheduleRunning now s3 o3) = (s4, o4)" by fastforce
    have eq: "Schedule now s = (if IsEmpty o4 then record_reasons o4 s4 else clear_reasons s4, o4)"
      using False w c3 by (simp add: Schedule_before_phase b)
    note e = arg_cong [OF r, of snd, unfolded eq snd_conv, symmetric] arg_cong [OF r, of fst, unfolded eq fst_conv, symmetric]
    show thesis by (rule outcome(5) [OF re3 False w [folded e(1)]]) (simp add: e(2))
  next
    case i: True
    show thesis
    proof (cases "prefill_first s3")
      case False
      have "isolated_decode now (s3, o3) = (s', out)" using r i False c3 by (simp add: Schedule_before_phase b)
      then show thesis by (rule iso [OF i re3])
    next
      case pf: True
      obtain s4 o4 where w: "ScheduleWaiting (-1) (s3, o3) = (s4, o4)" by fastforce
      show thesis
      proof (cases "prefill_seq_ids o4 = []")
        case True
        have "reaches now s s4 o4" using b i pf w True by (simp add: reaches_def)
        moreover have "isolated_decode now (s4, o4) = (s', out)" using r i pf c3 w True by (simp add: Schedule_before_phase b)
        ultimately show thesis by (rule iso [OF i])
      next
        case False
        have eq: "Schedule now s = (clear_reasons (s4\<lparr>consecutive_decode_batches := 0\<rparr>), o4)"
          using i pf c3 w False by (simp add: Schedule_before_phase b)
        note e = arg_cong [OF r, of snd, unfolded eq snd_conv, symmetric] arg_cong [OF r, of fst, unfolded eq fst_conv, symmetric]
        show thesis by (rule outcome(1) [OF re3 i w [folded e(1)]]) (use e False in simp_all)
      qed
    qed
  qed
qed

section \<open>Consequences for every iteration\<close>

lemma Schedule_limits:
  assumes inv: "sched_inv s" and r: "Schedule now s = (s', out)"
  shows "sched_inv s' \<and> config s' = config s \<and> within_limits (config s) out \<and> set (decode_seq_ids out) \<subseteq> set (running_seqs s')"
proof -
  have run: "within_limits (config s) (ScheduleRunning now sA oA) \<and> set (decode_seq_ids (ScheduleRunning now sA oA)) \<subseteq> set (running_seqs sA)"
    if re: "reaches now s sA oA" for sA oA
  proof -
    note A = reaches_inv [OF inv re]
    have "decode_seq_ids oA = []" using A(3) by (simp add: base_out_def)
    from running_batch(1,2) [OF A(1) base_within_limits [OF A(3)] this refl] show ?thesis using A(2) by simp
  qed
  have wait: "sched_inv s' \<and> config s' = config s \<and> within_limits (config s) out \<and> set (decode_seq_ids out) \<subseteq> set (running_seqs s')"
    if re: "reaches now s sA oA" and w: "ScheduleWaiting cap (sA, oB\<lparr>batch_context_len := b\<rparr>) = (sB, out)"
      and st: "strip_stats s' = strip_stats sB" and lim: "within_limits (config s) oB" and sub: "set (decode_seq_ids oB) \<subseteq> set (running_seqs sA)"
    for sA oA oB cap b sB
  proof -
    note A = reaches_inv [OF inv re]
    have ok: "out_ok (oB\<lparr>batch_context_len := b\<rparr>)" using lim by (simp add: within_limits_def out_ok_def)
    have "decode_seq_ids out = decode_seq_ids oB" using ScheduleWaiting_accounted(2) [OF A(1) ok w] by simp
    moreover have "within_limits (config s) out" using waiting_batch [OF A(1) _ w] lim A(2) by simp
    moreover have "sched_inv sB" "config sB = config s" "set (running_seqs sA) \<subseteq> set (running_seqs sB)"
      using ScheduleWaiting_inv(1,2,4) [OF A(1) w] A(2) by simp_all
    ultimately show ?thesis using sub strip_stats_sel [OF st] by auto
  qed
  from r inv show ?thesis
  proof (cases rule: Schedule_shape)
    case (prefill_only sA oA sB)
    note A = reaches_inv [OF inv prefill_only(1)]
    have w: "ScheduleWaiting (-1) (sA, oA\<lparr>batch_context_len := batch_context_len oA\<rparr>) = (sB, out)" using prefill_only(3) by simp
    show ?thesis by (rule wait [OF prefill_only(1) w prefill_only(4) base_within_limits [OF A(3)]])
        (use A(3) in \<open>simp add: base_out_def\<close>)
  next
    case (fallback sA oA sB)
    show ?thesis by (rule wait [where oB = "ScheduleRunning now sA oA" and b = "batch_context_len (ScheduleRunning now sA oA)", OF fallback(1)])
        (use fallback run [OF fallback(1)] in simp_all)
  next
    case (decode sA oA)
    note A = reaches_inv [OF inv decode(1)]
    show ?thesis using run [OF decode(1)] A strip_stats_sel [OF decode(5)] decode(3) by simp
  next
    case (mixed sA oA sB cap b)
    show ?thesis by (rule wait [OF mixed(1,10,11)]) (use run [OF mixed(1)] in simp_all)
  next
    case (legacy sA oA sB)
    show ?thesis by (rule wait [where oB = "ScheduleRunning now sA oA" and b = "batch_context_len (ScheduleRunning now sA oA)", OF legacy(1)])
        (use legacy run [OF legacy(1)] in simp_all)
  qed
qed

lemma Schedule_isolation:
  assumes inv: "sched_inv s" and r: "Schedule now s = (s', out)" and i: "isolate_prefill_decode (config s)"
  shows "if enable_mixed_prefill_decode (config s)
    then decode_seq_ids out \<noteq> [] \<longrightarrow> num_prefill_tokens out \<le> max 0 (min (max_mixed_prefill_tokens (config s)) (max_prefill_tokens (config s)))
    else prefill_seq_ids out = [] \<or> decode_seq_ids out = []"
proof -
  have ok: "out_ok oA" "prefill_seq_ids oA = []" "decode_seq_ids oA = []" if "reaches now s sA oA" for sA oA
    using reaches_inv(3) [OF inv that] by (simp_all add: base_out_def)
  have run: "out_ok (ScheduleRunning now sA oA)" "prefill_seq_ids (ScheduleRunning now sA oA) = []" "num_prefill_tokens (ScheduleRunning now sA oA) = 0"
    if re: "reaches now s sA oA" for sA oA
  proof -
    note A = reaches_inv [OF inv re]
    note R = running_batch [OF A(1) base_within_limits [OF A(3)] ok(3) [OF re] refl]
    show p: "prefill_seq_ids (ScheduleRunning now sA oA) = []" using R(3) ok(2) [OF re] by simp
    show o: "out_ok (ScheduleRunning now sA oA)" using R(1) by (simp add: within_limits_def)
    show "num_prefill_tokens (ScheduleRunning now sA oA) = 0" using o p by (auto simp: out_ok_def)
  qed
  from r inv show ?thesis
  proof (cases rule: Schedule_shape)
    case (prefill_only sA oA sB)
    have "decode_seq_ids out = []"
      using ScheduleWaiting_accounted(2) [OF reaches_inv(1) [OF inv prefill_only(1)] ok(1) [OF prefill_only(1)] prefill_only(3)] ok(3) [OF prefill_only(1)] by simp
    then show ?thesis by simp
  next
    case (fallback sA oA sB)
    have "decode_seq_ids out = []"
      using ScheduleWaiting_accounted(2) [OF reaches_inv(1) [OF inv fallback(1)] run(1) [OF fallback(1)] fallback(4)] fallback(3) by simp
    then show ?thesis by simp
  next
    case (decode sA oA)
    then show ?thesis using run(2,3) [OF decode(1)] by simp
  next
    case (mixed sA oA sB cap b)
    have "out_ok ((ScheduleRunning now sA oA)\<lparr>batch_context_len := b\<rparr>)" using run(1) [OF mixed(1)] by (simp add: out_ok_def)
    from ScheduleWaiting_accounted(6) [OF reaches_inv(1) [OF inv mixed(1)] this mixed(10)]
    have "num_prefill_tokens out \<le> cap" using run(3) [OF mixed(1)] mixed(5) by simp
    then show ?thesis using mixed(3,6,7) by (auto simp: min_def max_def)
  next
    case (legacy sA oA sB)
    then show ?thesis using i by simp
  qed
qed

text \<open>The admitted chunks: blocks for the whole chunk, and one context bucket.\<close>

lemma Schedule_chunks:
  assumes inv: "sched_inv s" and r: "Schedule now s = (s', out)" and c: "c \<in> set (prefill_chunks out)"
  shows "(\<exists>bs. seq_block_ids s' (chunk_seq_id c) = Some bs \<and>
      GetSequenceContextLen s' (chunk_seq_id c) + chunk_tokens c \<le> BLOCK_SIZE * int (length bs)) \<and>
    (enforce_homogeneous_batch_n_past (config s) \<longrightarrow> GetSequenceContextLen s' (chunk_seq_id c) = batch_context_len out)"
proof -
  have wait: ?thesis
    if re: "reaches now s sA oA" and w: "ScheduleWaiting cap (sA, oB) = (sB, out)"
      and st: "strip_stats s' = strip_stats sB" and pc: "prefill_chunks oB = []" for sA oA oB cap sB
  proof -
    note A = reaches_inv [OF inv re]
    obtain new where "prefill_chunks out = prefill_chunks oB @ new" "\<forall>c \<in> set new. chunk_ok sB (batch_context_len out) (waiting_queue sA) c"
      using ScheduleWaiting_chunks [OF A(1) w] by metis
    then have "chunk_ok sB (batch_context_len out) (waiting_queue sA) c" using c pc by simp
    moreover have "config sB = config s" using ScheduleWaiting_inv(2) [OF A(1) w] A(2) by simp
    ultimately show ?thesis using strip_stats_sel [OF st] by (auto simp: chunk_ok_def)
  qed
  have base: "prefill_chunks oA = []" "prefill_chunks (ScheduleRunning now sA oA) = []" if re: "reaches now s sA oA" for sA oA
  proof -
    note A = reaches_inv [OF inv re]
    show "prefill_chunks oA = []" using A(3) out_ok_base by (simp add: base_out_def)
    moreover have "decode_seq_ids oA = []" using A(3) by (simp add: base_out_def)
    ultimately show "prefill_chunks (ScheduleRunning now sA oA) = []"
      using running_batch(4) [OF A(1) base_within_limits [OF A(3)] _ refl] by simp
  qed
  from r inv show ?thesis
  proof (cases rule: Schedule_shape)
    case (prefill_only sA oA sB)
    then show ?thesis using wait base by blast
  next
    case (fallback sA oA sB)
    then show ?thesis using wait base by blast
  next
    case (decode sA oA)
    then show ?thesis using c base by simp
  next
    case (mixed sA oA sB cap b)
    show ?thesis by (rule wait [OF mixed(1,10,11)]) (use base(2) [OF mixed(1)] in simp)
  next
    case (legacy sA oA sB)
    then show ?thesis using wait base by blast
  qed
qed

text \<open>No request is dropped: waiting groups stay waiting, become running, or are cancelled.\<close>

definition tracked :: "scheduler \<Rightarrow> int \<Rightarrow> bool" where
  "tracked s i \<longleftrightarrow> i \<in> gid ` set (waiting_queue s) \<or> i \<in> set (running_seqs s) \<or> i \<in> set (swapped_seqs s) \<or> seq_status s i = Some CANCELLED"

lemma tracked_waiting:
  assumes inv: "sched_inv s" and r: "ScheduleWaiting cap (s, out) = (s', out')" and t: "tracked s i"
  shows "tracked s' i"
proof (cases "i \<in> gid ` set (waiting_queue s)")
  case True
  then show ?thesis using ScheduleWaiting_inv(7) [OF inv r] by (auto simp: tracked_def)
next
  case False
  then show ?thesis using t ScheduleWaiting_inv(3,4) [OF inv r] ScheduleWaiting_local(1) [OF inv r False] by (auto simp: tracked_def)
qed

lemma tracked_strip:
  assumes "strip_stats s' = strip_stats s"
  shows "tracked s' i = tracked s i"
  unfolding tracked_def strip_stats_sel [OF assms] ..

lemma Schedule_tracked:
  assumes inv: "sched_inv s" and r: "Schedule now s = (s', out)"
    and t: "i \<in> gid ` set (waiting_queue s) \<union> set (running_seqs s) \<union> set (swapped_seqs s)"
  shows "tracked s' i"
proof -
  have re: "tracked sA i" if h: "reaches now s sA oA" for sA oA
  proof -
    obtain s3 o3 where b: "before_phase now s = (s3, o3)" and alt: "(sA, oA) = (s3, o3) \<or> ScheduleWaiting (-1) (s3, o3) = (sA, oA)"
      using h unfolding reaches_def by blast
    have "tracked s3 i" using t before_phase_spec(3,5) [OF inv b] by (auto simp: tracked_def)
    then show ?thesis using alt tracked_waiting [OF before_phase_spec(1) [OF inv b]] by blast
  qed
  have w: "tracked s' i" if "reaches now s sA oA" "ScheduleWaiting cap (sA, oB) = (sB, out)" "strip_stats s' = strip_stats sB" for sA oA oB sB cap
    using tracked_waiting [OF reaches_inv(1) [OF inv that(1)] that(2) re [OF that(1)]] tracked_strip [OF that(3)] by simp
  from r inv show ?thesis
  proof (cases rule: Schedule_shape)
    case (decode sA oA)
    then show ?thesis using re [OF decode(1)] tracked_strip [OF decode(5)] by simp
  qed (rule w; assumption)+
qed

text \<open>Without cancellations the blocks an iteration reports as new are exactly the ones it takes.\<close>

lemma swap_in_allow: "seq_allow_chunked_prefill (sp_scheduler (swap_in i p)) = seq_allow_chunked_prefill (sp_scheduler p)"
  by (simp add: swap_in_def Let_def case_prod_unfold)

lemma fold_swap_in_allow: "seq_allow_chunked_prefill (sp_scheduler (fold swap_in xs p)) = seq_allow_chunked_prefill (sp_scheduler p)"
  by (induction xs arbitrary: p) (simp_all add: swap_in_allow)

lemma before_phase_no_cancel:
  assumes inv: "sched_inv s" and r: "before_phase now s = (s3, o3)" and nc: "no_cancel s"
  shows "no_cancel s3"
proof -
  let ?s1 = "clear_reasons s"
  obtain s2 o2 where p: "(s2, o2) = (if GetMemoryUsage ?s1 > watermark_high (config ?s1)
      then PreemptSequences now (?s1, SchedulerOutput) else (?s1, SchedulerOutput))" by (metis surj_pair)
  have a2: "seq_allow_chunked_prefill s2 = seq_allow_chunked_prefill s"
  proof (cases "GetMemoryUsage ?s1 > watermark_high (config ?s1)")
    case True
    then have "PreemptSequences now (?s1, SchedulerOutput) = (s2, o2)" using p by simp
    then show ?thesis by (cases rule: PreemptSequences_cases) (simp_all add: preempted_def clear_reasons_def)
  qed (use p in \<open>simp add: clear_reasons_def\<close>)
  have "ScheduleSwapped now (s2, o2) = (s3, o3)" using r p by (simp add: before_phase_def Let_def)
  then have "s3 = fst (ScheduleSwapped now (s2, o2))" by simp
  then have "seq_allow_chunked_prefill s3 = seq_allow_chunked_prefill s2"
    by (simp add: ScheduleSwapped_def Let_def fold_swap_in_allow)
  then have "can_chunk s3 i = can_chunk s i" for i using before_phase_spec(2) [OF inv r] a2 by (simp add: can_chunk_def)
  then show ?thesis using nc before_phase_spec(2,3) [OF inv r] by (simp add: no_cancel_def)
qed

lemma Schedule_fresh:
  assumes inv: "sched_inv s" and nc: "no_cancel s" and r: "Schedule now s = (s', out)"
  shows "takes (block_mgr s) (concat (map snd (new_block_allocations out))) (block_mgr s')"
proof -
  let ?T = "\<lambda>s1 o1. no_cancel s1 \<and> takes (block_mgr s) (concat (map snd (new_block_allocations o1))) (block_mgr s1)"
  have step: "?T s2 o2" if h1: "sched_inv s1" and h2: "?T s1 o1" and h3: "ScheduleWaiting cap (s1, o1) = (s2, o2)" for s1 o1 s2 o2 cap
  proof -
    have nc1: "no_cancel s1" using h2 by blast
    obtain new where "new_block_allocations o2 = new_block_allocations o1 @ new" "takes (block_mgr s1) (concat (map snd new)) (block_mgr s2)"
      using ScheduleWaiting_fresh(2) [OF h1 nc1 h3] by blast
    then show ?thesis using takes_append h2 ScheduleWaiting_fresh(1) [OF h1 nc1 h3] by fastforce
  qed
  have re: "?T sA oA" if h: "reaches now s sA oA" for sA oA
  proof -
    obtain s3 o3 where b: "before_phase now s = (s3, o3)" and alt: "(sA, oA) = (s3, o3) \<or> ScheduleWaiting (-1) (s3, o3) = (sA, oA)"
      using h unfolding reaches_def by blast
    have "?T s3 o3" using before_phase_spec(8) [OF inv b] before_phase_no_cancel [OF inv b nc] by simp
    then show ?thesis using alt step [OF before_phase_spec(1) [OF inv b]] by blast
  qed
  have run: "?T sA (ScheduleRunning now sA oA)" if h: "reaches now s sA oA" for sA oA
  proof -
    note A = reaches_inv [OF inv h]
    have "decode_seq_ids oA = []" using A(3) by (simp add: base_out_def)
    from running_batch(5) [OF A(1) base_within_limits [OF A(3)] this refl] show ?thesis using re [OF h] by simp
  qed
  have w: ?thesis if "reaches now s sA oA" "ScheduleWaiting cap (sA, oB) = (sB, out)" "strip_stats s' = strip_stats sB" "?T sA oB" for sA oA oB sB cap
    using step [OF reaches_inv(1) [OF inv that(1)] that(4,2)] strip_stats_sel(6) [OF that(3)] by simp
  from r inv show ?thesis
  proof (cases rule: Schedule_shape)
    case (prefill_only sA oA sB)
    then show ?thesis using w re by blast
  next
    case (fallback sA oA sB)
    then show ?thesis using w run by blast
  next
    case (decode sA oA)
    then show ?thesis using run [OF decode(1)] strip_stats_sel(6) [OF decode(5)] by simp
  next
    case (mixed sA oA sB cap b)
    show ?thesis by (rule w [OF mixed(1,10,11)]) (use run [OF mixed(1)] in simp)
  next
    case (legacy sA oA sB)
    then show ?thesis using w run by blast
  qed
qed

text \<open>An iteration with runnable sequences never comes back empty.\<close>

lemma ScheduleRunning_progress:
  assumes inv: "sched_inv s" and ne: "running_seqs s \<noteq> []" and out: "base_out out"
    and lim: "0 < max_num_batched_tokens (config s)" "0 < as_size_t (max_num_seqs (config s))"
  shows "decode_seq_ids (ScheduleRunning now s out) \<noteq> []"
proof -
  have b: "total_tokens out = 0" "ScheduledSeqCount out = 0" "decode_seq_ids out = []"
    using out out_ok_base by (simp_all add: base_out_def ScheduledSeqCount_def)
  have "decode_seq_ids (decode_loop now s [] (-1) (max_num_batched_tokens (config s)) (running_order now s (running_seqs s)) out) \<noteq> []"
  proof (rule decode_loop_progress)
    show "running_order now s (running_seqs s) \<noteq> []" using ne by (metis set_empty set_running_order)
  qed (use inv b lim in \<open>simp_all add: sched_inv_def\<close>)
  then show ?thesis using lim(1) b(1) by (simp add: ScheduleRunning_def Let_def)
qed

lemma Schedule_progress:
  assumes inv: "sched_inv s" and r: "Schedule now s = (s', out)" and b: "before_phase now s = (s3, o3)" and ne: "running_seqs s3 \<noteq> []"
    and lim: "0 < max_num_batched_tokens (config s)" "0 < as_size_t (max_num_seqs (config s))"
  shows "\<not> IsEmpty out"
proof -
  have run: "decode_seq_ids (ScheduleRunning now sA oA) \<noteq> [] \<and> out_ok (ScheduleRunning now sA oA)" if h: "reaches now s sA oA" for sA oA
  proof -
    note A = reaches_inv [OF inv h]
    have "sA = s3 \<or> ScheduleWaiting (-1) (s3, o3) = (sA, oA)" using h b unfolding reaches_def by fastforce
    then have "set (running_seqs s3) \<subseteq> set (running_seqs sA)"
      using ScheduleWaiting_inv(4) [OF before_phase_spec(1) [OF inv b]] by blast
    then have "running_seqs sA \<noteq> []" using ne by auto
    then have "decode_seq_ids (ScheduleRunning now sA oA) \<noteq> []" using ScheduleRunning_progress [OF A(1) _ A(3)] lim A(2) by simp
    moreover have "decode_seq_ids oA = []" using A(3) by (simp add: base_out_def)
    ultimately show ?thesis using running_batch(1) [OF A(1) base_within_limits [OF A(3)] _ refl, of now] by (simp add: within_limits_def)
  qed
  from r inv show ?thesis
  proof (cases rule: Schedule_shape)
    case (mixed sA oA sB cap b)
    have "out_ok ((ScheduleRunning now sA oA)\<lparr>batch_context_len := b\<rparr>)" using run [OF mixed(1)] by (simp add: out_ok_def)
    from ScheduleWaiting_accounted(2) [OF reaches_inv(1) [OF inv mixed(1)] this mixed(10)]
    show ?thesis using mixed(4) by (simp add: IsEmpty_def)
  next
    case (legacy sA oA sB)
    have ok: "out_ok (ScheduleRunning now sA oA)" using run [OF legacy(1)] by simp
    from ScheduleWaiting_accounted(2) [OF reaches_inv(1) [OF inv legacy(1)] ok legacy(3)]
    show ?thesis using run [OF legacy(1)] by (simp add: IsEmpty_def)
  qed (use run in \<open>auto simp: IsEmpty_def\<close>)
qed

text \<open>
  Fairness between the phases: after the configured number of decode batches a waiting prompt that
  can be admitted goes first.
\<close>

lemma Schedule_fair:
  assumes inv: "sched_inv s" and r: "Schedule now s = (s', out)" and b: "before_phase now s = (s3, o3)"
    and i: "isolate_prefill_decode (config s)" and w: "waiting_queue s \<noteq> []"
    and streak: "max_consecutive_decode_batches (config s) \<le> consecutive_decode_batches s"
    and adm: "prefill_seq_ids (snd (ScheduleWaiting (-1) (s3, o3))) \<noteq> []"
  shows "out = snd (ScheduleWaiting (-1) (s3, o3)) \<and> decode_seq_ids out = [] \<and> consecutive_decode_batches s' = 0"
proof -
  note B = before_phase_spec [OF inv b]
  obtain s4 o4 where sw: "ScheduleWaiting (-1) (s3, o3) = (s4, o4)" by fastforce
  have "prefill_first s3" using B(2,3,4) w streak by (simp add: prefill_first_def Let_def)
  then have eq: "Schedule now s = (clear_reasons (s4\<lparr>consecutive_decode_batches := 0\<rparr>), o4)"
    using i B(2) sw adm by (simp add: Schedule_before_phase b)
  have "out_ok o3" "decode_seq_ids o3 = []" using B(6) by (simp_all add: base_out_def)
  then have "decode_seq_ids o4 = []" using ScheduleWaiting_accounted(2) [OF B(1) _ sw] by simp
  moreover have "out = o4" "s' = clear_reasons (s4\<lparr>consecutive_decode_batches := 0\<rparr>)"
    using arg_cong [OF r, of snd, unfolded eq] arg_cong [OF r, of fst, unfolded eq] by simp_all
  ultimately show ?thesis using sw by simp
qed

end
