(* ===== verification/Scheduler_Reach.thy ===== *)
theory Scheduler_Reach
  imports Schedule_Laws
begin

text \<open>
  The life of a scheduler: every public method as a step, and the invariant of every reachable
  state. Progress reports are constrained as the worker makes them: a report concerns an identifier
  that was handed out and is not swapped out, and a decode report one that is not waiting.
\<close>

section \<open>Methods keep the invariant\<close>

lemma Scheduler_inv: "bm_inv bm \<Longrightarrow> sched_inv (Scheduler bm cfg)"
  by (simp add: Scheduler_def sched_inv_def GetSequenceContextLen_def)

lemma sched_inv_bm: "sched_inv s \<Longrightarrow> bm_inv bm \<Longrightarrow> sched_inv (s\<lparr>block_mgr := bm\<rparr>)"
  by (simp add: sched_inv_def GetSequenceContextLen_def)

lemma AddRequest_rejected:
  assumes "\<not> allow_chunk" "plen > max_num_batched_tokens (config s)"
  shows "AddRequest salt now req_id plen max_out prio toks allow_chunk ssm mc val s = (-1, s)"
  using assms by (simp add: AddRequest_def)

definition fresh_group :: "int \<Rightarrow> int \<Rightarrow> int \<Rightarrow> int \<Rightarrow> int \<Rightarrow> int list option \<Rightarrow> bool \<Rightarrow> bool \<Rightarrow> int \<Rightarrow> int \<Rightarrow> sequence_group" where
  "fresh_group now req_id plen max_out prio toks allow_chunk ssm mc seq_id =
     \<lparr>request_id = req_id, sequence_ids = [seq_id], prompt_len = plen, max_output_len = max_out, priority = prio, arrival_time = now,
      shared_prefix_len = 0, shared_block_ids = [], num_running_seqs = 0, num_tokens_to_process = plen,
      max_prefill_chunk_tokens = (if mc > 0 then mc else -1),
      align_initial_prefill_for_prefix_snapshot = (allow_chunk \<and> ssm \<and> (case toks of None \<Rightarrow> False | Some ts \<Rightarrow> ts \<noteq> [])),
      generated_tokens = 0, predicted_experts = []\<rparr>"

definition enqueue :: "int \<Rightarrow> bool \<Rightarrow> sequence_group \<Rightarrow> block_manager \<Rightarrow> scheduler \<Rightarrow> scheduler" where
  "enqueue prio allow_chunk g bm s =
     (let i = next_seq_id s in
      s\<lparr>block_mgr := bm, next_seq_id := i + 1, waiting_queue := waiting_queue s @ [g],
        seq_status := (seq_status s)(i \<mapsto> WAITING), seq_priority := (seq_priority s)(i \<mapsto> prio),
        seq_arrival := (seq_arrival s)(i \<mapsto> arrival_time g), seq_generated_tokens := (seq_generated_tokens s)(i \<mapsto> 0),
        seq_context_len := (seq_context_len s)(i \<mapsto> shared_prefix_len g), seq_prompt_len := (seq_prompt_len s)(i \<mapsto> prompt_len g),
        seq_allow_chunked_prefill := (seq_allow_chunked_prefill s)(i \<mapsto> allow_chunk)\<rparr>)"

lemma AddRequest_enqueue:
  assumes "allow_chunk \<or> plen \<le> max_num_batched_tokens (config s)" and "toks = Some ts" "ts \<noteq> []"
    and "FindLongestCachedPrefixWithVerification salt (take (nat plen) ts) ssm val (block_mgr s) = (m, bm')"
  shows "AddRequest salt now req_id plen max_out prio toks allow_chunk ssm mc val s =
    (next_seq_id s, enqueue prio allow_chunk
       (let g = fresh_group now req_id plen max_out prio toks allow_chunk ssm mc (next_seq_id s)
        in if cached_tokens m > 0 \<and> cached_block_ids m \<noteq> []
           then g\<lparr>shared_prefix_len := cached_tokens m, shared_block_ids := cached_block_ids m,
                  num_tokens_to_process := max 0 (plen - cached_tokens m)\<rparr> else g) bm' s)"
proof -
  have no: "(\<not> allow_chunk \<and> plen > max_num_batched_tokens (config s)) = False" using assms(1) by auto
  have ts: "(case toks of None \<Rightarrow> False | Some ts \<Rightarrow> ts \<noteq> []) = True" "the toks = ts" using assms(2,3) by simp_all
  show ?thesis unfolding AddRequest_def no if_False Let_def ts if_True assms(4) prod.case
    by (simp only: enqueue_def Let_def fresh_group_def ts prod.inject) (cases "cached_tokens m > 0 \<and> cached_block_ids m \<noteq> []"; simp)
qed

lemma AddRequest_enqueue_plain:
  assumes "allow_chunk \<or> plen \<le> max_num_batched_tokens (config s)" and "\<not> (case toks of None \<Rightarrow> False | Some ts \<Rightarrow> ts \<noteq> [])"
  shows "AddRequest salt now req_id plen max_out prio toks allow_chunk ssm mc val s =
    (next_seq_id s, enqueue prio allow_chunk (fresh_group now req_id plen max_out prio toks allow_chunk ssm mc (next_seq_id s)) (block_mgr s) s)"
proof -
  have no: "(\<not> allow_chunk \<and> plen > max_num_batched_tokens (config s)) = False" using assms(1) by auto
  show ?thesis unfolding AddRequest_def no if_False using assms(2) by (simp add: enqueue_def fresh_group_def Let_def)
qed

text \<open>An accepted request: one group at the back of the queue, under a fresh identifier.\<close>

definition enqueued :: "scheduler \<Rightarrow> int \<Rightarrow> int \<Rightarrow> int list option \<Rightarrow> int \<Rightarrow> sequence_group \<Rightarrow> scheduler \<Rightarrow> bool" where
  "enqueued s now plen toks i g s' \<longleftrightarrow>
     i = next_seq_id s \<and> next_seq_id s' = next_seq_id s + 1 \<and> config s' = config s \<and>
     waiting_queue s' = waiting_queue s @ [g] \<and> running_seqs s' = running_seqs s \<and> swapped_seqs s' = swapped_seqs s \<and>
     sequence_ids g = [i] \<and> prompt_len g = plen \<and> arrival_time g = now \<and> seq_status s' = (seq_status s)(i \<mapsto> WAITING) \<and>
     seq_context_len s' = (seq_context_len s)(i \<mapsto> shared_prefix_len g) \<and> seq_block_ids s' = seq_block_ids s \<and>
     acquires (block_mgr s) (shared_block_ids g) (block_mgr s') \<and>
     shared_prefix_len g = BLOCK_SIZE * int (length (shared_block_ids g)) \<and>
     num_tokens_to_process g = plen - shared_prefix_len g \<and>
     (shared_block_ids g = [] \<or> shared_prefix_len g < plen \<and>
      (\<forall>n < length (shared_block_ids g).
         block_tokens (block_mgr s) (shared_block_ids g ! n) = Some (take 16 (drop (16 * n) (take (nat plen) (the toks))))))"

lemma AddRequest_accepted:
  assumes inv: "sched_inv s" and ok: "allow_chunk \<or> plen \<le> max_num_batched_tokens (config s)"
    and r: "AddRequest salt now req_id plen max_out prio toks allow_chunk ssm mc val s = (i, s')"
  shows "\<exists>g. enqueued s now plen toks i g s'"
proof -
  have bm: "bm_inv (block_mgr s)" using inv by (simp add: sched_inv_def)
  let ?g = "fresh_group now req_id plen max_out prio toks allow_chunk ssm mc (next_seq_id s)"
  show ?thesis
  proof (cases "case toks of None \<Rightarrow> False | Some ts \<Rightarrow> ts \<noteq> []")
    case False
    have e: "i = next_seq_id s" "s' = enqueue prio allow_chunk ?g (block_mgr s) s"
      using AddRequest_enqueue_plain [OF ok False] r by auto
    have "enqueued s now plen toks i ?g s'" unfolding enqueued_def by (simp add: e enqueue_def Let_def fresh_group_def acquires_Nil bm)
    then show ?thesis ..
  next
    case True
    then obtain ts where ts: "toks = Some ts" "ts \<noteq> []" by (auto split: option.splits)
    obtain m bm' where f: "FindLongestCachedPrefixWithVerification salt (take (nat plen) ts) ssm val (block_mgr s) = (m, bm')" by fastforce
    note F = FindLongest_spec [OF bm f]
    define g where "g = (if cached_tokens m > 0 \<and> cached_block_ids m \<noteq> []
       then ?g\<lparr>shared_prefix_len := cached_tokens m, shared_block_ids := cached_block_ids m, num_tokens_to_process := max 0 (plen - cached_tokens m)\<rparr> else ?g)"
    have e: "i = next_seq_id s" "s' = enqueue prio allow_chunk g bm' s"
      using AddRequest_enqueue [OF ok ts f] r by (auto simp: g_def Let_def)
    have fields: "sequence_ids g = [next_seq_id s]" "prompt_len g = plen" "arrival_time g = now" by (simp_all add: g_def fresh_group_def)
    show ?thesis
    proof (cases "cached_block_ids m = []")
      case True
      then have g: "shared_block_ids g = []" "shared_prefix_len g = 0" "num_tokens_to_process g = plen" by (simp_all add: g_def fresh_group_def)
      have "enqueued s now plen toks i g s'" using F True unfolding enqueued_def by (simp add: e enqueue_def Let_def fields g)
      then show ?thesis ..
    next
      case False
      then have pos: "0 < cached_tokens m" using F by (cases "cached_block_ids m") auto
      have lt: "cached_tokens m < int (length (take (nat plen) ts))" using F False by simp
      then have lt': "cached_tokens m < plen" using pos by auto
      have g: "shared_block_ids g = cached_block_ids m" "shared_prefix_len g = cached_tokens m" "num_tokens_to_process g = plen - cached_tokens m"
        using pos False lt' by (simp_all add: g_def)
      have "enqueued s now plen toks i g s'" using F lt' unfolding enqueued_def by (simp add: e enqueue_def Let_def fields g ts(1))
      then show ?thesis ..
    qed
  qed
qed

lemma AddRequest_inv:
  assumes inv: "sched_inv s" and r: "AddRequest salt now req_id plen max_out prio toks allow_chunk ssm mc val s = (i, s')"
  shows "sched_inv s'"
proof (cases "allow_chunk \<or> plen \<le> max_num_batched_tokens (config s)")
  case True
  obtain g where "enqueued s now plen toks i g s'" using AddRequest_accepted [OF inv True r] ..
  note e = this [unfolded enqueued_def]
  have w: "waiting_queue s' = waiting_queue s @ [g]" and fr: "running_seqs s' = running_seqs s" "swapped_seqs s' = swapped_seqs s"
    "next_seq_id s' = next_seq_id s + 1" and bm: "bm_inv (block_mgr s')" using e by (simp_all add: acquires_def)
  have g: "gid g = next_seq_id s" "group_ok g" using e by (simp_all add: gid_def group_ok_def)
  have "\<And>j. 0 \<le> GetSequenceContextLen s j" using inv by (simp add: sched_inv_def)
  then have ctx: "\<forall>j. 0 \<le> GetSequenceContextLen s' j" using e by (simp add: GetSequenceContextLen_def)
  have range: "0 < j \<and> j < next_seq_id s" if "j \<in> gid ` set (waiting_queue s) \<union> set (running_seqs s) \<union> set (swapped_seqs s)" for j
    using inv that by (simp add: sched_inv_def)
  have new: "next_seq_id s \<notin> gid ` set (waiting_queue s)" "next_seq_id s \<notin> set (running_seqs s)" "next_seq_id s \<notin> set (swapped_seqs s)"
    using range [of "next_seq_id s"] by blast+
  have pos: "0 < next_seq_id s" using inv by (simp add: sched_inv_def)
  have range': "\<forall>j \<in> gid ` set (waiting_queue s @ [g]) \<union> set (running_seqs s) \<union> set (swapped_seqs s). 0 < j \<and> j < next_seq_id s + 1"
    using range g(1) pos by fastforce
  have I: "\<forall>g \<in> set (waiting_queue s). group_ok g" "distinct (map gid (waiting_queue s))" "distinct (running_seqs s)" "distinct (swapped_seqs s)"
    "set (running_seqs s) \<inter> set (swapped_seqs s) = {}" "gid ` set (waiting_queue s) \<inter> (set (running_seqs s) \<union> set (swapped_seqs s)) = {}"
    using inv unfolding sched_inv_def by blast+
  show ?thesis unfolding sched_inv_def w fr
  proof (intro conjI)
    show "\<forall>g \<in> set (waiting_queue s @ [g]). group_ok g" using I(1) g(2) by simp
    show "distinct (map gid (waiting_queue s @ [g]))" using I(2) g(1) new(1) by simp
    show "gid ` set (waiting_queue s @ [g]) \<inter> (set (running_seqs s) \<union> set (swapped_seqs s)) = {}" using I(6) g(1) new(2,3) by simp
    show "\<forall>j \<in> gid ` set (waiting_queue s @ [g]) \<union> set (running_seqs s) \<union> set (swapped_seqs s). 0 < j \<and> j < next_seq_id s + 1" by (rule range')
    show "\<forall>j. 0 \<le> GetSequenceContextLen s' j" by (rule ctx)
  qed (use I bm pos in simp_all)
next
  case False
  then have "s' = s" using arg_cong [OF r, of snd] by (simp add: AddRequest_rejected)
  then show ?thesis using inv by simp
qed

lemma sched_inv_shrink:
  assumes inv: "sched_inv s" and bm: "bm_inv (block_mgr s')" and w: "waiting_queue s' = filter P (waiting_queue s)"
    and r: "running_seqs s' = us_erase i (running_seqs s)" and sw: "swapped_seqs s' = us_erase i (swapped_seqs s)"
    and n: "next_seq_id s' = next_seq_id s" and c: "\<And>j. 0 \<le> GetSequenceContextLen s' j"
  shows "sched_inv s'"
proof -
  have "distinct (map gid (filter P (waiting_queue s)))" using inv by (simp add: sched_inv_def distinct_map_filter)
  then show ?thesis using inv bm c unfolding sched_inv_def w r sw n by auto
qed

lemma CleanupSequenceState_inv:
  assumes inv: "sched_inv s"
  shows "sched_inv (CleanupSequenceState i w f s)"
proof -
  have bm: "bm_inv (block_mgr s)" and c: "\<And>j. 0 \<le> GetSequenceContextLen s j" using inv by (simp_all add: sched_inv_def)
  let ?P = "\<lambda>g. w \<longrightarrow> \<not> has_seq i g"
  have "GetSequenceContextLen (CleanupSequenceState i w f s) j = (if j = i then 0 else GetSequenceContextLen s j)" for j
    by (simp add: CleanupSequenceState_def Let_def GetSequenceContextLen_def split: option.splits)
  then have "0 \<le> GetSequenceContextLen (CleanupSequenceState i w f s) j" for j using c by simp
  then show ?thesis
    by (intro sched_inv_shrink [OF inv, where P = ?P and i = i])
      (use bm in \<open>auto simp: CleanupSequenceState_def Let_def Free_inv split: option.splits\<close>)
qed

lemma sched_inv_status [simp]: "sched_inv (s\<lparr>seq_status := st\<rparr>) = sched_inv s"
  by (simp add: sched_inv_def GetSequenceContextLen_def)

lemma RemoveRequest_inv: "sched_inv s \<Longrightarrow> sched_inv (RemoveRequest i fin s)"
  by (simp add: RemoveRequest_def Let_def CleanupSequenceState_inv)

section \<open>Forking and copy on write\<close>

lemma fork_blocks_inv: "bm_inv bm \<Longrightarrow> bm_inv (snd (fork_blocks bs bm))"
proof (induction bs arbitrary: bm)
  case (Cons b bs)
  have "bm_inv (snd (Fork b bm))" using Cons.prems by (rule Fork_inv)
  then show ?case using Cons.IH [of "snd (Fork b bm)"] by (simp add: Let_def case_prod_unfold)
qed simp

lemma sched_inv_frame:
  assumes "sched_inv s" and "bm_inv (block_mgr s')" "waiting_queue s' = waiting_queue s" "running_seqs s' = running_seqs s"
    "swapped_seqs s' = swapped_seqs s" "next_seq_id s \<le> next_seq_id s'" "\<And>j. 0 \<le> GetSequenceContextLen s' j"
  shows "sched_inv s'"
proof -
  have "\<forall>i \<in> gid ` set (waiting_queue s) \<union> set (running_seqs s) \<union> set (swapped_seqs s). 0 < i \<and> i < next_seq_id s'"
    "0 < next_seq_id s'" using assms(1) order_less_le_trans [OF _ assms(6)] unfolding sched_inv_def by blast+
  then show ?thesis unfolding sched_inv_def assms(3-5) using assms(1,2,7) by (simp add: sched_inv_def)
qed

lemma ForkSequence_fields:
  "waiting_queue (snd (ForkSequence i s)) = waiting_queue s" "running_seqs (snd (ForkSequence i s)) = running_seqs s"
  "swapped_seqs (snd (ForkSequence i s)) = swapped_seqs s" "next_seq_id (snd (ForkSequence i s)) = next_seq_id s + 1"
  "config (snd (ForkSequence i s)) = config s" "fst (ForkSequence i s) = next_seq_id s"
  "seq_context_len (snd (ForkSequence i s)) = (seq_context_len s)(next_seq_id s \<mapsto> GetSequenceContextLen s i)"
  "block_mgr (snd (ForkSequence i s)) = (case seq_block_ids s i of None \<Rightarrow> block_mgr s | Some bs \<Rightarrow> snd (fork_blocks bs (block_mgr s)))"
  "seq_block_ids (snd (ForkSequence i s)) = (case seq_block_ids s i of None \<Rightarrow> seq_block_ids s
     | Some bs \<Rightarrow> (seq_block_ids s)(next_seq_id s \<mapsto> fst (fork_blocks bs (block_mgr s))))"
  by (cases "seq_block_ids s i"; cases "seq_priority s i"; cases "seq_arrival s i";
      simp add: ForkSequence_def Let_def case_prod_unfold GetSequenceContextLen_def)+

lemma ForkSequence_inv:
  assumes inv: "sched_inv s"
  shows "sched_inv (snd (ForkSequence i s))"
proof -
  have bm: "bm_inv (block_mgr s)" and c: "\<And>j. 0 \<le> GetSequenceContextLen s j" using inv by (simp_all add: sched_inv_def)
  have "0 \<le> GetSequenceContextLen (snd (ForkSequence i s)) j" for j
    using c [of j] c [of i] by (simp add: GetSequenceContextLen_def ForkSequence_fields)
  moreover have "bm_inv (block_mgr (snd (ForkSequence i s)))"
    using bm fork_blocks_inv by (cases "seq_block_ids s i") (simp_all add: ForkSequence_fields)
  ultimately show ?thesis by (intro sched_inv_frame [OF inv]) (simp_all add: ForkSequence_fields)
qed

lemma EnsureBlockWritable_inv:
  assumes inv: "sched_inv s"
  shows "sched_inv (fst (snd (EnsureBlockWritable i k cb (s, d))))"
proof (cases "seq_block_ids s i")
  case None
  then show ?thesis using inv by (simp add: EnsureBlockWritable_def)
next
  case (Some bs)
  obtain new bm' d' where cow: "CopyOnWrite (bs ! nat k) cb (block_mgr s, d) = (new, bm', d')" by (metis surj_pair)
  have bm: "bm_inv (block_mgr s)" and c: "\<And>j. 0 \<le> GetSequenceContextLen s j" using inv by (simp_all add: sched_inv_def)
  have "bm_inv bm'" by (rule CopyOnWrite_inv [OF bm cow])
  then have "sched_inv (s\<lparr>block_mgr := bm'\<rparr>)" "sched_inv (s\<lparr>block_mgr := bm', seq_block_ids := f\<rparr>)" for f
    using c by (auto intro!: sched_inv_frame [OF inv] simp: GetSequenceContextLen_def)
  then show ?thesis using inv by (simp add: EnsureBlockWritable_def Some cow Let_def)
qed

section \<open>Progress reports\<close>

lemma FindWaiting_None: "(\<forall>g \<in> set (waiting_queue s). group_ok g) \<Longrightarrow> FindWaitingGroupLocked s i = None \<longleftrightarrow> i \<notin> gid ` set (waiting_queue s)"
  by (auto simp: FindWaitingGroupLocked_def find_None_iff)

lemma sched_inv_run:
  assumes inv: "sched_inv s" and i: "0 < i" "i < next_seq_id s" "i \<notin> set (swapped_seqs s)"
    and w: "waiting_queue s' = filter (\<lambda>g. \<not> has_seq i g) (waiting_queue s)" and r: "running_seqs s' = us_insert i (running_seqs s)"
    and fr: "swapped_seqs s' = swapped_seqs s" "next_seq_id s' = next_seq_id s" "block_mgr s' = block_mgr s"
    and c: "\<And>j. 0 \<le> GetSequenceContextLen s' j"
  shows "sched_inv s'"
proof -
  have ok: "\<forall>g \<in> set (waiting_queue s). group_ok g" using inv by (simp add: sched_inv_def)
  have ids: "gid ` set (waiting_queue s') = gid ` set (waiting_queue s) - {i}" using ok by (auto simp: w)
  have d: "distinct (map gid (waiting_queue s'))" using inv by (simp add: sched_inv_def w distinct_map_filter)
  have ok': "\<forall>g \<in> set (waiting_queue s'). group_ok g" using ok by (simp add: w)
  show ?thesis unfolding sched_inv_def ids r fr using inv i ok' d c by (simp add: sched_inv_def) blast
qed

lemma sched_inv_relabel:
  assumes inv: "sched_inv s" and w: "map sequence_ids (waiting_queue s') = map sequence_ids (waiting_queue s)"
    and fr: "running_seqs s' = running_seqs s" "swapped_seqs s' = swapped_seqs s" "next_seq_id s' = next_seq_id s" "block_mgr s' = block_mgr s"
    and c: "\<And>j. 0 \<le> GetSequenceContextLen s' j"
  shows "sched_inv s'"
proof -
  have q: "sequence_ids ` set (waiting_queue s') = sequence_ids ` set (waiting_queue s)" using arg_cong [OF w, of set] by simp
  have "(\<lambda>x. hd x) ` sequence_ids ` set (waiting_queue s') = (\<lambda>x. hd x) ` sequence_ids ` set (waiting_queue s)" unfolding q ..
  then have ids: "gid ` set (waiting_queue s') = gid ` set (waiting_queue s)" by (simp add: gid_def image_image)
  have "map hd (map sequence_ids (waiting_queue s')) = map hd (map sequence_ids (waiting_queue s))" unfolding w ..
  then have "map gid (waiting_queue s') = map gid (waiting_queue s)" by (simp add: gid_def [abs_def] comp_def)
  moreover have "\<forall>x \<in> sequence_ids ` set (waiting_queue s'). x = [hd x]" using inv unfolding q by (simp add: sched_inv_def group_ok_def gid_def)
  ultimately show ?thesis unfolding sched_inv_def ids fr using inv c by (simp add: sched_inv_def group_ok_def gid_def)
qed

lemma OnPrefillChunkComplete_inv:
  assumes inv: "sched_inv s" and i: "0 < i" "i < next_seq_id s" "i \<notin> set (swapped_seqs s)"
  shows "sched_inv (OnPrefillChunkComplete i n fin s)"
proof (cases "i < 0 \<or> n \<le> 0")
  case True
  then show ?thesis using inv by (simp add: OnPrefillChunkComplete_def OnPrefillChunkCompleteLocked_def)
next
  case False
  let ?s = "s\<lparr>seq_context_len := (seq_context_len s)(i \<mapsto> GetSequenceContextLen s i + n)\<rparr>"
  have c: "0 \<le> GetSequenceContextLen s j" for j using inv by (simp add: sched_inv_def)
  have ctx: "0 \<le> GetSequenceContextLen ?s j" for j using c [of j] c [of i] False by (simp add: GetSequenceContextLen_def)
  have inv1: "sched_inv ?s" using ctx inv by (intro sched_inv_frame [OF inv]) (simp_all add: sched_inv_def)
  have ctx': "0 \<le> GetSequenceContextLen (?s\<lparr>waiting_queue := a, running_seqs := b, seq_status := d\<rparr>) j"
    "0 \<le> GetSequenceContextLen (?s\<lparr>waiting_queue := a, seq_status := d\<rparr>) j"
    "0 \<le> GetSequenceContextLen (?s\<lparr>running_seqs := b, seq_status := d\<rparr>) j" for a b d j
    using ctx [of j] by (simp_all add: GetSequenceContextLen_def)
  have fw: "FindWaitingGroupLocked ?s i = FindWaitingGroupLocked s i" by (simp add: FindWaitingGroupLocked_def)
  show ?thesis
  proof (cases "FindWaitingGroupLocked s i")
    case None
    then have "filter (\<lambda>g. \<not> has_seq i g) (waiting_queue s) = waiting_queue s"
      by (simp add: FindWaitingGroupLocked_def find_None_iff)
    then have "sched_inv (?s\<lparr>running_seqs := us_insert i (running_seqs s), seq_status := d\<rparr>)" for d
      using i ctx' by (intro sched_inv_run [OF inv1, of i]) simp_all
    then show ?thesis using inv1 False None fw by (simp add: OnPrefillChunkComplete_def OnPrefillChunkCompleteLocked_def Let_def)
  next
    case (Some g)
    have "sched_inv (?s\<lparr>waiting_queue := filter (\<lambda>g. \<not> has_seq i g) (waiting_queue s), running_seqs := us_insert i (running_seqs s), seq_status := d\<rparr>)" for d
      using i ctx' by (intro sched_inv_run [OF inv1, of i]) simp_all
    moreover have "sched_inv (?s\<lparr>waiting_queue := update_first (has_seq i) (\<lambda>g. g\<lparr>num_tokens_to_process := k\<rparr>) (waiting_queue s), seq_status := d\<rparr>)" for k d
      using ctx' by (intro sched_inv_relabel [OF inv1]) (simp_all add: map_update_first)
    ultimately show ?thesis using False Some fw by (simp add: OnPrefillChunkComplete_def OnPrefillChunkCompleteLocked_def Let_def)
  qed
qed

lemma OnDecodeStepComplete_inv:
  assumes inv: "sched_inv s" and i: "0 < i" "i < next_seq_id s" "i \<notin> set (swapped_seqs s)" "i \<notin> gid ` set (waiting_queue s)"
  shows "sched_inv (OnDecodeStepComplete i n s)"
proof (cases "n \<le> 0")
  case True
  then show ?thesis using inv by (simp add: OnDecodeStepComplete_def OnDecodeStepCompleteLocked_def)
next
  case False
  have c: "0 \<le> GetSequenceContextLen s j" for j using inv by (simp add: sched_inv_def)
  have ok: "\<forall>g \<in> set (waiting_queue s). group_ok g" using inv by (simp add: sched_inv_def)
  then have "filter (\<lambda>g. \<not> has_seq i g) (waiting_queue s) = waiting_queue s" using i(4) by (auto simp: filter_id_conv)
  moreover have "0 \<le> GetSequenceContextLen (OnDecodeStepComplete i n s) j" for j
    using c [of j] c [of i] False i by (simp add: GetSequenceContextLen_def OnDecodeStepComplete_def OnDecodeStepCompleteLocked_def)
  ultimately show ?thesis using i False
    by (intro sched_inv_run [OF inv, of i]) (simp_all add: OnDecodeStepComplete_def OnDecodeStepCompleteLocked_def)
qed

lemma UpdateProgress_inv:
  assumes inv: "sched_inv s" and i: "0 < i" "i < next_seq_id s" "i \<notin> set (swapped_seqs s)"
  shows "sched_inv (UpdateProgress i n s)"
proof (cases "FindWaitingGroupLocked s i")
  case None
  then have "i \<notin> gid ` set (waiting_queue s)" using inv FindWaiting_None by (simp add: sched_inv_def)
  then show ?thesis using None inv OnDecodeStepComplete_inv [OF inv i] by (simp add: UpdateProgress_def OnDecodeStepComplete_def)
next
  case (Some g)
  then show ?thesis using inv OnPrefillChunkComplete_inv [OF inv i] by (simp add: UpdateProgress_def OnPrefillChunkComplete_def)
qed

lemma SetPredictedExperts_inv: "sched_inv s \<Longrightarrow> sched_inv (SetPredictedExperts i e s)"
proof (cases "seq_predicted_experts s i = Some e")
  case False
  assume inv: "sched_inv s"
  then have "\<And>j. 0 \<le> GetSequenceContextLen s j" by (simp add: sched_inv_def)
  then show ?thesis
    by (intro sched_inv_relabel [OF inv]) (simp_all add: SetPredictedExperts_def map_update_first GetSequenceContextLen_def)
qed (simp add: SetPredictedExperts_def)

section \<open>Reachable schedulers\<close>

inductive sched_step :: "scheduler \<Rightarrow> scheduler \<Rightarrow> bool" where
  step_add: "AddRequest salt now req_id plen max_out prio toks allow_chunk ssm mc val s = (i, s') \<Longrightarrow> sched_step s s'"
| step_remove: "sched_step s (RemoveRequest i fin s)"
| step_fork_seq: "sched_step s (snd (ForkSequence i s))"
| step_schedule: "Schedule now s = (s', out) \<Longrightarrow> sched_step s s'"
| step_prefill_done: "0 < i \<Longrightarrow> i < next_seq_id s \<Longrightarrow> i \<notin> set (swapped_seqs s) \<Longrightarrow> sched_step s (OnPrefillChunkComplete i n fin s)"
| step_decode_done: "0 < i \<Longrightarrow> i < next_seq_id s \<Longrightarrow> i \<notin> set (swapped_seqs s) \<Longrightarrow> FindWaitingGroupLocked s i = None \<Longrightarrow>
    sched_step s (OnDecodeStepComplete i n s)"
| step_progress: "0 < i \<Longrightarrow> i < next_seq_id s \<Longrightarrow> i \<notin> set (swapped_seqs s) \<Longrightarrow> sched_step s (UpdateProgress i n s)"
| step_experts: "sched_step s (SetPredictedExperts i e s)"
| step_writable: "EnsureBlockWritable i k (cb :: int \<Rightarrow> int \<Rightarrow> unit \<Rightarrow> unit) (s, ()) = (b, s', d) \<Longrightarrow> sched_step s s'"
| step_blocks: "bm_step salt (block_mgr s) bm \<Longrightarrow> sched_step s (s\<lparr>block_mgr := bm\<rparr>)"

inductive sched_reachable :: "scheduler \<Rightarrow> bool" where
  reach_start: "0 \<le> n \<Longrightarrow> 0 \<le> k \<Longrightarrow> sched_reachable (Scheduler (BlockManager n k rand lock) cfg)"
| reach_step: "sched_reachable s \<Longrightarrow> sched_step s s' \<Longrightarrow> sched_reachable s'"

lemma sched_step_inv: "sched_step s s' \<Longrightarrow> sched_inv s \<Longrightarrow> sched_inv s'"
proof (induction rule: sched_step.induct)
  case (step_decode_done i s n)
  then show ?case using FindWaiting_None by (intro OnDecodeStepComplete_inv) (simp_all add: sched_inv_def)
next
  case (step_writable i k cb s b s' d)
  then show ?case using EnsureBlockWritable_inv [of s i k cb "()"] by simp
next
  case (step_schedule now s s' out)
  then show ?case using Schedule_limits by blast
next
  case (step_add salt now req_id plen max_out prio toks allow_chunk ssm mc val s i s')
  then show ?case using AddRequest_inv by blast
next
  case (step_blocks salt s bm)
  then show ?case using bm_step_inv sched_inv_bm by (simp add: sched_inv_def)
qed (simp_all add: RemoveRequest_inv ForkSequence_inv OnPrefillChunkComplete_inv UpdateProgress_inv SetPredictedExperts_inv)

lemma sched_reachable_sched_inv: "sched_reachable s \<Longrightarrow> sched_inv s"
  by (induction rule: sched_reachable.induct) (auto intro: Scheduler_inv BlockManager_inv sched_step_inv)

section \<open>A prompt in chunks\<close>

lemma OnPrefill_chunk:
  assumes g: "FindWaitingGroupLocked s i = Some g" and i: "0 < i" and n: "0 < n"
  shows "GetSequenceContextLen (OnPrefillChunkComplete i n False s) i = GetSequenceContextLen s i + n"
    and "n < num_tokens_to_process g \<Longrightarrow>
      FindWaitingGroupLocked (OnPrefillChunkComplete i n False s) i = Some (g\<lparr>num_tokens_to_process := num_tokens_to_process g - n\<rparr>)"
    and "num_tokens_to_process g \<le> n \<Longrightarrow>
      FindWaitingGroupLocked (OnPrefillChunkComplete i n False s) i = None \<and> i \<in> set (running_seqs (OnPrefillChunkComplete i n False s)) \<and>
      seq_status (OnPrefillChunkComplete i n False s) i = Some RUNNING"
proof -
  let ?s = "OnPrefillChunkComplete i n False s"
  let ?s1 = "s\<lparr>seq_context_len := (seq_context_len s)(i \<mapsto> GetSequenceContextLen s i + n)\<rparr>"
  have f: "FindWaitingGroupLocked ?s1 i = Some g" using g by (simp add: FindWaitingGroupLocked_def)
  have eq: "?s = (let left = max 0 (num_tokens_to_process g - n) in
     if left = 0 then ?s1\<lparr>waiting_queue := filter (\<lambda>g. \<not> has_seq i g) (waiting_queue s), running_seqs := us_insert i (running_seqs s), seq_status := (seq_status s)(i \<mapsto> RUNNING)\<rparr>
     else ?s1\<lparr>waiting_queue := update_first (has_seq i) (\<lambda>g. g\<lparr>num_tokens_to_process := left\<rparr>) (waiting_queue s), seq_status := (seq_status s)(i \<mapsto> WAITING)\<rparr>)"
    using f i n by (simp add: OnPrefillChunkComplete_def OnPrefillChunkCompleteLocked_def Let_def)
  show "GetSequenceContextLen ?s i = GetSequenceContextLen s i + n"
    unfolding eq by (simp add: GetSequenceContextLen_def Let_def)
  show "FindWaitingGroupLocked ?s i = Some (g\<lparr>num_tokens_to_process := num_tokens_to_process g - n\<rparr>)" if "n < num_tokens_to_process g"
  proof -
    obtain us vs where u: "waiting_queue s = us @ g # vs" "\<forall>u \<in> set us. \<not> has_seq i u"
      "update_first (has_seq i) (\<lambda>g. g\<lparr>num_tokens_to_process := num_tokens_to_process g - n\<rparr>) (waiting_queue s)
        = us @ g\<lparr>num_tokens_to_process := num_tokens_to_process g - n\<rparr> # vs"
      using update_first_cases [of "has_seq i" "waiting_queue s" g] g unfolding FindWaitingGroupLocked_def by blast
    have hg: "has_seq i g" using g by (auto simp: FindWaitingGroupLocked_def find_Some_iff)
    have "update_first (has_seq i) (\<lambda>h. h\<lparr>num_tokens_to_process := num_tokens_to_process g - n\<rparr>) (us @ g # vs)
        = us @ g\<lparr>num_tokens_to_process := num_tokens_to_process g - n\<rparr> # vs" if "\<forall>u \<in> set us. \<not> has_seq i u" for us
      using that hg by (induction us) simp_all
    moreover have "find (has_seq i) (us @ x # vs) = Some x" if "has_seq i x" "\<forall>u \<in> set us. \<not> has_seq i u" for us x
      using that by (induction us) simp_all
    ultimately show ?thesis unfolding eq FindWaitingGroupLocked_def using that u(1,2) hg by (simp add: Let_def has_seq_def)
  qed
  show "FindWaitingGroupLocked ?s i = None \<and> i \<in> set (running_seqs ?s) \<and> seq_status ?s i = Some RUNNING" if "num_tokens_to_process g \<le> n"
    unfolding eq FindWaitingGroupLocked_def using that by (simp add: Let_def find_None_iff)
qed

lemma prefill_chunks_complete:
  assumes "FindWaitingGroupLocked s i = Some g" "0 < i" "\<forall>n \<in> set ns. 0 < n" "sum_list ns = num_tokens_to_process g" "ns \<noteq> []"
  shows "let s' = fold (\<lambda>n. OnPrefillChunkComplete i n False) ns s in
    FindWaitingGroupLocked s' i = None \<and> i \<in> set (running_seqs s') \<and> seq_status s' i = Some RUNNING \<and>
    GetSequenceContextLen s' i = GetSequenceContextLen s i + num_tokens_to_process g"
  using assms
proof (induction ns arbitrary: s g)
  case (Cons n ns)
  note C = OnPrefill_chunk [OF Cons.prems(1,2), of n]
  show ?case
  proof (cases "ns = []")
    case True
    then show ?thesis using C Cons.prems by (simp add: Let_def)
  next
    case False
    have "0 < sum_list ns" using False Cons.prems(3) by (cases ns) (auto intro!: add_pos_nonneg sum_list_nonneg)
    then show ?thesis using C Cons.IH [OF C(2)] Cons.prems False by (simp add: Let_def)
  qed
qed simp

section \<open>Batched reports\<close>

lemma UpdateProgressBatch_fold: "UpdateProgressBatch us s = fold (\<lambda>(i, n). UpdateProgress i n) us s"
proof (induction us arbitrary: s)
  case (Cons u us)
  obtain i n where u: "u = (i, n)" by fastforce
  have "UpdateProgress i n s = s" if "i < 0 \<or> n \<le> 0"
    using that by (elim disjE) (simp_all add: UpdateProgress_def OnPrefillChunkCompleteLocked_def OnDecodeStepCompleteLocked_def split: option.splits)
  then show ?case by (simp add: u Cons.IH) (simp add: UpdateProgress_def)
qed simp

end
