(* ===== verification/Scheduler_Progress.thy ===== *)
theory Scheduler_Progress
  imports Scheduler_Reach
begin

text \<open>
  What becomes of a request over an iteration and over many: which requests an iteration may drop from the queues, how the
  count of consecutive decode batches follows the batches really scheduled, and when the first waiting prompt is admitted.
\<close>

section \<open>Requests stay queued\<close>

text \<open>\<open>fits s i\<close>: if request \<open>i\<close> waits, its prompt may be cut into chunks or is within the token budget of an iteration.\<close>

definition fits :: "scheduler \<Rightarrow> int \<Rightarrow> bool" where
  "fits s i \<longleftrightarrow> (\<forall>g \<in> set (waiting_queue s). gid g = i \<longrightarrow> can_chunk s i \<or> num_tokens_to_process g \<le> max_num_batched_tokens (config s))"

definition queued :: "scheduler \<Rightarrow> int \<Rightarrow> bool" where
  "queued s i \<longleftrightarrow> i \<in> gid ` set (waiting_queue s) \<or> i \<in> set (running_seqs s) \<or> i \<in> set (swapped_seqs s)"

lemma schedule_group_keeps:
  assumes "bm_inv (block_mgr (wp_scheduler p))"
  shows "config (wp_scheduler (schedule_group g p)) = config (wp_scheduler p)"
    and "i \<noteq> gid g \<or> can_chunk (wp_scheduler p) i \<or> num_tokens_to_process g \<le> max_num_batched_tokens (config (wp_scheduler p)) \<Longrightarrow>
      seq_allow_chunked_prefill (wp_scheduler (schedule_group g p)) i = seq_allow_chunked_prefill (wp_scheduler p) i"
    and "i \<noteq> gid g \<or> can_chunk (wp_scheduler p) i \<or> num_tokens_to_process g \<le> max_num_batched_tokens (config (wp_scheduler p)) \<Longrightarrow>
      i = gid g \<or> i \<in> gid ` set (wp_still_waiting p) \<or> i \<in> set (running_seqs (wp_scheduler p)) \<Longrightarrow>
      i \<in> gid ` set (wp_still_waiting (schedule_group g p)) \<or> i \<in> set (running_seqs (wp_scheduler (schedule_group g p)))"
proof -
  have "config (wp_scheduler (schedule_group g p)) = config (wp_scheduler p) \<and>
    (i \<noteq> gid g \<or> can_chunk (wp_scheduler p) i \<or> num_tokens_to_process g \<le> max_num_batched_tokens (config (wp_scheduler p)) \<longrightarrow>
      seq_allow_chunked_prefill (wp_scheduler (schedule_group g p)) i = seq_allow_chunked_prefill (wp_scheduler p) i \<and>
      (i = gid g \<or> i \<in> gid ` set (wp_still_waiting p) \<or> i \<in> set (running_seqs (wp_scheduler p)) \<longrightarrow>
      i \<in> gid ` set (wp_still_waiting (schedule_group g p)) \<or> i \<in> set (running_seqs (wp_scheduler (schedule_group g p)))))"
    using assms
  proof (cases rule: schedule_group_outcome [where g = g])
    case keep
    then have "seq_allow_chunked_prefill (wp_scheduler (schedule_group g p)) = seq_allow_chunked_prefill (wp_scheduler p)"
      by (auto simp: kept_def)
    then show ?thesis by (auto simp: kept_frame [OF keep])
  next
    case promote
    then show ?thesis by (auto simp: promote_group_def Let_def)
  next
    case cancel
    have "seq_allow_chunked_prefill (wp_scheduler (cancel_group (gid g) p)) = (seq_allow_chunked_prefill (wp_scheduler p))(gid g := None)"
      by (simp add: cancel_group_def CleanupSequenceState_def Let_def split: option.splits)
    then show ?thesis using cancel by auto
  next
    case (admit n nb bm')
    obtain g' where g': "wp_still_waiting (schedule_group g p) = wp_still_waiting p @ [g']" "gid g' = gid g"
      using admit_still [of "gid g" "GetSequenceContextLen (wp_scheduler p) (gid g)" n nb g "reserved (gid g) g nb bm' p"]
      unfolding admit(4) by auto
    have "seq_allow_chunked_prefill (wp_scheduler (schedule_group g p)) = seq_allow_chunked_prefill (wp_scheduler p)"
      by (simp add: admit(4) admit_prefill_def reserved_def Let_def)
    moreover have "running_seqs (wp_scheduler (schedule_group g p)) = running_seqs (wp_scheduler p)"
      "config (wp_scheduler (schedule_group g p)) = config (wp_scheduler p)" unfolding admit(4) by simp_all
    ultimately show ?thesis using g' by auto
  qed
  then show "config (wp_scheduler (schedule_group g p)) = config (wp_scheduler p)"
    "i \<noteq> gid g \<or> can_chunk (wp_scheduler p) i \<or> num_tokens_to_process g \<le> max_num_batched_tokens (config (wp_scheduler p)) \<Longrightarrow>
      seq_allow_chunked_prefill (wp_scheduler (schedule_group g p)) i = seq_allow_chunked_prefill (wp_scheduler p) i"
    "i \<noteq> gid g \<or> can_chunk (wp_scheduler p) i \<or> num_tokens_to_process g \<le> max_num_batched_tokens (config (wp_scheduler p)) \<Longrightarrow>
      i = gid g \<or> i \<in> gid ` set (wp_still_waiting p) \<or> i \<in> set (running_seqs (wp_scheduler p)) \<Longrightarrow>
      i \<in> gid ` set (wp_still_waiting (schedule_group g p)) \<or> i \<in> set (running_seqs (wp_scheduler (schedule_group g p)))"
    by blast+
qed

lemma ScheduleWaiting_queued:
  assumes inv: "sched_inv s" and r: "ScheduleWaiting cap (s, out) = (s', out')" and f: "fits s i" and q: "queued s i"
  shows "queued s' i" and "fits s' i"
proof -
  let ?p = "end_pass cap s out" and ?gs = "sorted_waiting (config s) (waiting_queue s)"
  have d: "distinct (map gid ?gs)" using inv by (simp add: sorted_waiting_ids sched_inv_def)
  let ?P = "\<lambda>xs p. bm_inv (block_mgr (wp_scheduler p)) \<and> config (wp_scheduler p) = config s \<and>
    seq_allow_chunked_prefill (wp_scheduler p) i = seq_allow_chunked_prefill s i \<and>
    (i \<in> gid ` set xs \<or> i \<in> set (running_seqs s) \<longrightarrow>
      i \<in> gid ` set (wp_still_waiting p) \<or> i \<in> set (running_seqs (wp_scheduler p)))"
  have P: "?P ?gs ?p" unfolding end_pass_def using d
  proof (induction rule: pass_induct)
    case start
    then show ?case using inv by (simp add: sched_inv_def)
  next
    case (step xs g p)
    have b: "bm_inv (block_mgr (wp_scheduler p))" using step(1) by blast
    have "g \<in> set (waiting_queue s)" using step(2) sorted_waiting_ids(1) [of "config s" "waiting_queue s"] by auto
    moreover have "can_chunk (wp_scheduler p) i = can_chunk s i" using step(1) by (simp add: can_chunk_def)
    ultimately have ok: "i \<noteq> gid g \<or> can_chunk (wp_scheduler p) i \<or> num_tokens_to_process g \<le> max_num_batched_tokens (config (wp_scheduler p))"
      using f step(1) by (auto simp: fits_def)
    show ?case using step(1) schedule_group_keeps(1) [OF b, where g = g] schedule_group_keeps(2,3) [OF b ok] schedule_group_local(1) [OF b, where g = g] by auto
  qed
  have s': "s' = (wp_scheduler ?p)\<lparr>waiting_queue := wp_still_waiting ?p\<rparr>"
    using finish_scheduler [of ?p] r by (simp add: ScheduleWaiting_end_pass)
  have c: "can_chunk s' i = can_chunk s i" using P by (simp add: s' can_chunk_def)
  show "queued s' i" using P q ScheduleWaiting_inv(3) [OF inv r] by (auto simp: queued_def s' sorted_waiting_ids(1))
  have "config s' = config s" using P by (simp add: s')
  then show "fits s' i" using f c ScheduleWaiting_local(2) [OF inv r] unfolding fits_def by metis
qed


lemma before_phase_queued:
  assumes inv: "sched_inv s" and r: "before_phase now s = (s3, o3)"
  shows "queued s3 i = queued s i" and "fits s3 i = fits s i"
proof -
  let ?s1 = "clear_reasons s"
  obtain s2 o2 where p: "(s2, o2) = (if GetMemoryUsage ?s1 > watermark_high (config ?s1)
      then PreemptSequences now (?s1, SchedulerOutput) else (?s1, SchedulerOutput))" by (metis surj_pair)
  have a2: "seq_allow_chunked_prefill s2 = seq_allow_chunked_prefill s"
  proof (cases "GetMemoryUsage ?s1 > watermark_high (config ?s1)")
    case True
    then have "PreemptSequences now (?s1, SchedulerOutput) = (s2, o2)" using p by simp
    then show ?thesis by (cases rule: PreemptSequences_cases) (simp_all add: preempted_def clear_reasons_def)
  qed (use p in \<open>simp add: clear_reasons_def\<close>)
  have "ScheduleSwapped now (s2, o2) = (s3, o3)" using r p by (simp add: before_phase_def Let_def)
  then have "s3 = fst (ScheduleSwapped now (s2, o2))" by simp
  then have "seq_allow_chunked_prefill s3 = seq_allow_chunked_prefill s2"
    by (simp add: ScheduleSwapped_def Let_def fold_swap_in_allow)
  then have "can_chunk s3 i = can_chunk s i" for i using before_phase_spec(2) [OF inv r] a2 by (simp add: can_chunk_def)
  then show "fits s3 i = fits s i" using before_phase_spec(2,3) [OF inv r] by (simp add: fits_def)
  show "queued s3 i = queued s i" using before_phase_spec(3,5) [OF inv r] by (auto simp: queued_def)
qed

lemma Schedule_queued:
  assumes inv: "sched_inv s" and r: "Schedule now s = (s', out)" and f: "fits s i" and q: "queued s i"
  shows "queued s' i"
proof -
  have re: "queued sA i \<and> fits sA i" if h: "reaches now s sA oA" for sA oA
  proof -
    obtain s3 o3 where b: "before_phase now s = (s3, o3)" and alt: "(sA, oA) = (s3, o3) \<or> ScheduleWaiting (-1) (s3, o3) = (sA, oA)"
      using h unfolding reaches_def by blast
    show ?thesis using alt f q ScheduleWaiting_queued [OF before_phase_spec(1) [OF inv b]] before_phase_queued [OF inv b] by blast
  qed
  have st: "queued s' i = queued t i" if "strip_stats s' = strip_stats t" for t
    unfolding queued_def strip_stats_sel [OF that] ..
  have w: "queued s' i" if "reaches now s sA oA" "ScheduleWaiting cap (sA, oB) = (sB, out)" "strip_stats s' = strip_stats sB" for sA oA oB sB cap
    using ScheduleWaiting_queued(1) [OF reaches_inv(1) [OF inv that(1)] that(2)] re [OF that(1)] st [OF that(3)] by blast
  from r inv show ?thesis
  proof (cases rule: Schedule_shape)
    case (decode sA oA)
    then show ?thesis using re [OF decode(1)] st [OF decode(5)] by simp
  qed (rule w; assumption)+
qed

section \<open>Decode streaks\<close>

lemma schedule_group_output:
  assumes "bm_inv (block_mgr (wp_scheduler p))"
  shows "\<exists>xs. prefill_seq_ids (wp_output (schedule_group g p)) = prefill_seq_ids (wp_output p) @ xs"
    and "decode_seq_ids (wp_output (schedule_group g p)) = decode_seq_ids (wp_output p)"
proof -
  have "(\<exists>xs. prefill_seq_ids (wp_output (schedule_group g p)) = prefill_seq_ids (wp_output p) @ xs) \<and>
    decode_seq_ids (wp_output (schedule_group g p)) = decode_seq_ids (wp_output p)"
    using assms
  proof (cases rule: schedule_group_outcome [where g = g])
    case keep
    then show ?thesis by (simp add: kept_frame [OF keep])
  next
    case promote
    then show ?thesis by (simp add: promote_group_def Let_def)
  next
    case cancel
    then show ?thesis by (simp add: cancel_group_def Let_def)
  next
    case (admit n nb bm')
    then show ?thesis by (simp add: admit_prefill_def reserved_def Let_def)
  qed
  then show "\<exists>xs. prefill_seq_ids (wp_output (schedule_group g p)) = prefill_seq_ids (wp_output p) @ xs"
    "decode_seq_ids (wp_output (schedule_group g p)) = decode_seq_ids (wp_output p)" by blast+
qed

lemma waiting_pass_output:
  assumes "bm_inv (block_mgr (wp_scheduler p))"
  shows "(\<exists>xs. prefill_seq_ids (wp_output (fold schedule_group gs p)) = prefill_seq_ids (wp_output p) @ xs) \<and>
    decode_seq_ids (wp_output (fold schedule_group gs p)) = decode_seq_ids (wp_output p)"
  using assms
proof (induction gs arbitrary: p)
  case (Cons g gs)
  show ?case using Cons.IH [OF schedule_group_local(1) [OF Cons.prems, where g = g]] schedule_group_output [OF Cons.prems, where g = g] by auto
qed simp

lemma ScheduleWaiting_decodes:
  assumes inv: "sched_inv s" and r: "ScheduleWaiting cap (s, out) = (s', out')"
  shows "decode_seq_ids out' = decode_seq_ids out"
proof -
  have "out' = snd (finish_waiting (end_pass cap s out))" using r by (simp add: ScheduleWaiting_end_pass)
  then show ?thesis using waiting_pass_output [of "start_pass cap s out"] inv by (simp add: end_pass_def sched_inv_def)
qed

lemma isolated_decode_count:
  assumes inv: "sched_inv s" and r: "isolated_decode now (s, out0) = (s', out)"
  shows "prefill_seq_ids out = [] \<Longrightarrow>
      consecutive_decode_batches s' = consecutive_decode_batches s + (if decode_seq_ids out = [] then 0 else 1)"
    and "consecutive_decode_batches s' \<in> {0, consecutive_decode_batches s, consecutive_decode_batches s + 1}"
proof -
  have "(prefill_seq_ids out = [] \<longrightarrow>
      consecutive_decode_batches s' = consecutive_decode_batches s + (if decode_seq_ids out = [] then 0 else 1)) \<and>
    consecutive_decode_batches s' \<in> {0, consecutive_decode_batches s, consecutive_decode_batches s + 1}"
    using r
  proof (cases rule: isolated_decode_cases)
    case (decode s1 adm)
    note D = decode
    show ?thesis using D(2)
    proof (cases rule: mixed_admission_cases)
      case none
      then show ?thesis using D by (simp add: clear_reasons_def)
    next
      case (mixed cap b)
      have "consecutive_decode_batches s1 = consecutive_decode_batches s" by (rule ScheduleWaiting_inv(5) [OF inv mixed(7)])
      then show ?thesis using D mixed(8) ScheduleWaiting_decodes [OF inv mixed(7)] by (simp add: clear_reasons_def)
    qed
  next
    case (prefill s1 k)
    have "consecutive_decode_batches s1 = consecutive_decode_batches s" by (rule ScheduleWaiting_inv(5) [OF inv prefill(2)])
    then show ?thesis using prefill ScheduleWaiting_decodes [OF inv prefill(2)] by (simp add: record_reasons_def)
  qed
  then show "prefill_seq_ids out = [] \<Longrightarrow>
      consecutive_decode_batches s' = consecutive_decode_batches s + (if decode_seq_ids out = [] then 0 else 1)"
    "consecutive_decode_batches s' \<in> {0, consecutive_decode_batches s, consecutive_decode_batches s + 1}" by blast+
qed

lemma Schedule_count:
  assumes inv: "sched_inv s" and r: "Schedule now s = (s', out)"
  shows "isolate_prefill_decode (config s) \<Longrightarrow> prefill_seq_ids out = [] \<Longrightarrow>
      consecutive_decode_batches s' = consecutive_decode_batches s + (if decode_seq_ids out = [] then 0 else 1)"
    and "consecutive_decode_batches s' \<in> {0, consecutive_decode_batches s, consecutive_decode_batches s + 1}"
proof -
  obtain s3 o3 where b: "before_phase now s = (s3, o3)" by fastforce
  note B = before_phase_spec [OF inv b]
  obtain s4 o4 where w: "ScheduleWaiting (-1) (s3, o3) = (s4, o4)" by fastforce
  note W = ScheduleWaiting_inv(1,5) [OF B(1) w]
  obtain s5 o5 where v: "ScheduleWaiting (-1) (s3, ScheduleRunning now s3 o3) = (s5, o5)" by fastforce
  note V = ScheduleWaiting_inv(5) [OF B(1) v]
  have "(isolate_prefill_decode (config s) \<longrightarrow> prefill_seq_ids out = [] \<longrightarrow>
      consecutive_decode_batches s' = consecutive_decode_batches s + (if decode_seq_ids out = [] then 0 else 1)) \<and>
    consecutive_decode_batches s' \<in> {0, consecutive_decode_batches s, consecutive_decode_batches s + 1}"
  proof (cases "isolate_prefill_decode (config s)")
    case False
    then have "s' = (if IsEmpty o5 then record_reasons o5 s5 else clear_reasons s5)"
      using r B(2) v by (auto simp: Schedule_before_phase b)
    then show ?thesis using False V B(4) by (simp add: record_reasons_def clear_reasons_def)
  next
    case i: True
    consider (first) "prefill_first s3" "prefill_seq_ids o4 \<noteq> []" "s' = clear_reasons (s4\<lparr>consecutive_decode_batches := 0\<rparr>)" "out = o4"
      | (second) "isolated_decode now (s4, o4) = (s', out)" | (third) "isolated_decode now (s3, o3) = (s', out)"
    proof (cases "prefill_first s3")
      case False
      have "isolated_decode now (s3, o3) = (s', out)" using r i B(2) False by (simp add: Schedule_before_phase b)
      then show thesis by (rule third)
    next
      case pf: True
      show thesis
      proof (cases "prefill_seq_ids o4 = []")
        case True
        have "isolated_decode now (s4, o4) = (s', out)" using r i B(2) pf w True by (simp add: Schedule_before_phase b)
        then show thesis by (rule second)
      next
        case False
        have eq: "Schedule now s = (clear_reasons (s4\<lparr>consecutive_decode_batches := 0\<rparr>), o4)"
          using i pf B(2) w False by (simp add: Schedule_before_phase b)
        show thesis by (rule first [OF pf False])
            (use arg_cong [OF r, of fst, unfolded eq] arg_cong [OF r, of snd, unfolded eq] in simp_all)
      qed
    qed
    then show ?thesis
    proof cases
      case first
      then show ?thesis by (simp add: clear_reasons_def)
    next
      case second
      then show ?thesis using isolated_decode_count [OF W(1) second] W(2) B(4) by simp
    next
      case third
      then show ?thesis using isolated_decode_count [OF B(1) third] B(4) by simp
    qed
  qed
  then show "isolate_prefill_decode (config s) \<Longrightarrow> prefill_seq_ids out = [] \<Longrightarrow>
      consecutive_decode_batches s' = consecutive_decode_batches s + (if decode_seq_ids out = [] then 0 else 1)"
    "consecutive_decode_batches s' \<in> {0, consecutive_decode_batches s, consecutive_decode_batches s + 1}" by blast+
qed

text \<open>Every other public method leaves the count and the configuration alone.\<close>

lemma sched_step_count:
  assumes "sched_step s s'" and "sched_inv s"
  shows "config s' = config s" and "(\<exists>now out. Schedule now s = (s', out)) \<or> consecutive_decode_batches s' = consecutive_decode_batches s"
proof -
  have "config s' = config s \<and> ((\<exists>now out. Schedule now s = (s', out)) \<or> consecutive_decode_batches s' = consecutive_decode_batches s)"
    using assms
  proof (induction rule: sched_step.induct)
    case (step_add salt now req_id plen max_out prio toks allow_chunk ssm mc val s i s')
    have "s' = snd (AddRequest salt now req_id plen max_out prio toks allow_chunk ssm mc val s)" using step_add(1) by simp
    then show ?case by (simp add: AddRequest_def Let_def case_prod_unfold)
  next
    case (step_remove s i fin)
    then show ?case by (simp add: RemoveRequest_def CleanupSequenceState_def Let_def split: option.splits)
  next
    case (step_fork_seq s i)
    then show ?case by (simp add: ForkSequence_fields)
        (simp add: ForkSequence_def Let_def case_prod_unfold split: option.splits)
  next
    case (step_schedule now s s' out)
    then show ?case using Schedule_limits by blast
  next
    case (step_prefill_done i s n fin)
    then show ?case by (simp add: OnPrefillChunkComplete_def OnPrefillChunkCompleteLocked_def Let_def split: option.splits)
  next
    case (step_decode_done i s n)
    then show ?case by (simp add: OnDecodeStepComplete_def OnDecodeStepCompleteLocked_def Let_def split: option.splits)
  next
    case (step_progress i s n)
    then show ?case by (simp add: UpdateProgress_def OnPrefillChunkCompleteLocked_def OnDecodeStepCompleteLocked_def Let_def split: option.splits)
  next
    case (step_experts s i e)
    then show ?case by (simp add: SetPredictedExperts_def)
  next
    case (step_writable i k cb s b s' d)
    have "s' = fst (snd (EnsureBlockWritable i k cb (s, ())))" using step_writable(1) by simp
    then show ?case by (simp add: EnsureBlockWritable_def Let_def case_prod_unfold split: option.splits)
  next
    case (step_blocks salt s bm)
    then show ?case by simp
  qed
  then show "config s' = config s" "(\<exists>now out. Schedule now s = (s', out)) \<or> consecutive_decode_batches s' = consecutive_decode_batches s"
    by blast+
qed

lemma reachable_count_nonneg: "sched_reachable s \<Longrightarrow> 0 \<le> consecutive_decode_batches s"
proof (induction rule: sched_reachable.induct)
  case (reach_start n k rand lock cfg)
  then show ?case by (simp add: Scheduler_def)
next
  case (reach_step s s')
  have inv: "sched_inv s" using reach_step(1) by (rule sched_reachable_sched_inv)
  show ?case using sched_step_count(2) [OF reach_step(2) inv] Schedule_count(2) [OF inv] reach_step(3) by fastforce
qed

text \<open>
  \<open>decode_streak n s\<close>: since some reachable state, \<open>n\<close> decode batches were scheduled and no prefill batch, with any other public
  calls in between.
\<close>

inductive decode_streak :: "nat \<Rightarrow> scheduler \<Rightarrow> bool" where
  streak_start: "sched_reachable s \<Longrightarrow> decode_streak 0 s"
| streak_decode: "decode_streak n s \<Longrightarrow> Schedule now s = (s', out) \<Longrightarrow> decode_seq_ids out \<noteq> [] \<Longrightarrow> prefill_seq_ids out = [] \<Longrightarrow>
    decode_streak (Suc n) s'"
| streak_other: "decode_streak n s \<Longrightarrow> sched_step s s' \<Longrightarrow> (\<And>now out. Schedule now s = (s', out) \<Longrightarrow> prefill_seq_ids out = []) \<Longrightarrow>
    decode_streak n s'"

lemma decode_streak_count:
  "decode_streak n s \<Longrightarrow> sched_reachable s \<and> (isolate_prefill_decode (config s) \<longrightarrow> int n \<le> consecutive_decode_batches s)"
proof (induction rule: decode_streak.induct)
  case (streak_start s)
  then show ?case using reachable_count_nonneg by simp
next
  case (streak_decode n s now s' out)
  have inv: "sched_inv s" using streak_decode by (simp add: sched_reachable_sched_inv)
  have "config s' = config s" using Schedule_limits [OF inv streak_decode(2)] by simp
  then show ?case using streak_decode Schedule_count(1) [OF inv streak_decode(2)] by (auto intro: reach_step step_schedule)
next
  case (streak_other n s s')
  have inv: "sched_inv s" using streak_other by (simp add: sched_reachable_sched_inv)
  have "consecutive_decode_batches s \<le> consecutive_decode_batches s'" if i: "isolate_prefill_decode (config s)"
    using sched_step_count(2) [OF streak_other(2) inv]
  proof
    assume "\<exists>now out. Schedule now s = (s', out)"
    then obtain now out where sc: "Schedule now s = (s', out)" by blast
    show ?thesis using Schedule_count(1) [OF inv sc i streak_other(3) [OF sc]] by simp
  qed simp
  then show ?case using streak_other sched_step_count(1) [OF streak_other(2) inv] by (auto intro: reach_step)
qed

section \<open>Admission of the first group\<close>

lemma GetFreeBlockCount_le_blocks:
  assumes inv: "bm_inv bm"
  shows "GetFreeBlockCount bm \<le> num_blocks bm"
proof -
  have "GetFreeBlockCount bm \<le> int (card (available bm))" by (rule GetFreeBlockCount_le_available [OF inv])
  also have "\<dots> \<le> int (card {i. in_range bm i})"
    using card_range [OF inv] by (intro of_nat_mono card_mono) (auto simp: available_def in_range_def)
  also have "\<dots> = num_blocks bm" using inv by (simp add: card_range [OF inv] bm_inv_def)
  finally show ?thesis .
qed

lemma reserve_blocks_ok:
  assumes inv: "bm_inv (block_mgr (wp_scheduler p))"
    and free: "BlocksNeeded (ctx + n) \<le> GetFreeBlockCount (block_mgr (wp_scheduler p))"
  shows "\<exists>nb p'. reserve_blocks i ctx n g p = Inr (nb, p') \<and> wp_output p' = wp_output p"
proof -
  let ?bm = "block_mgr (wp_scheduler p)" and ?bs = "group_blocks (wp_scheduler p) i g"
  let ?k = "max 0 (BlocksNeeded (ctx + n) - int (length ?bs))"
  have le: "?k \<le> GetFreeBlockCount ?bm" using free GetFreeBlockCount_card [OF inv] by simp
  then have nb: "?k \<le> num_blocks ?bm" using GetFreeBlockCount_le_blocks [OF inv] by linarith
  show ?thesis
  proof (cases "?k > 0")
    case False
    then show ?thesis using nb by (simp add: reserve_blocks_def Let_def group_blocks_def)
  next
    case True
    obtain ids bm' where a: "Allocate ?k ?bm = (ids, bm')" by fastforce
    have "?k \<le> int (card (available ?bm))" using le GetFreeBlockCount_le_available [OF inv] by linarith
    then have "int (length ids) = ?k" using Allocate_spec [OF inv True a] by auto
    then show ?thesis using True le nb a by (simp add: reserve_blocks_def Let_def group_blocks_def)
  qed
qed

definition first_admissible :: "scheduler \<Rightarrow> sequence_group \<Rightarrow> bool" where
  "first_admissible s g \<longleftrightarrow>
     0 < num_tokens_to_process g \<and>
     (if can_chunk s (gid g)
      then 0 < max_prefill_tokens (config s) \<and> (max_prefill_seqs (config s) \<le> 1 \<or> 0 < max_parallel_prefill_chunk_tokens (config s))
      else num_tokens_to_process g \<le> max_num_batched_tokens (config s)) \<and>
     BlocksNeeded (GetSequenceContextLen s (gid g) + num_tokens_to_process g) \<le> GetFreeBlockCount (block_mgr s)"

lemma BlocksNeeded_mono: "0 \<le> a \<Longrightarrow> a \<le> b \<Longrightarrow> BlocksNeeded a \<le> BlocksNeeded b"
  by (simp add: BlocksNeeded_def sdiv_nonneg zdiv_mono1)

lemma schedule_group_first:
  assumes inv: "bm_inv (block_mgr (wp_scheduler p))" and ctx: "0 \<le> GetSequenceContextLen (wp_scheduler p) (gid g)"
    and out: "prefill_seq_ids (wp_output p) = []" "decode_seq_ids (wp_output p) = []" "wp_target p < 0" "wp_cap p < 0"
      "wp_budget p = max_num_batched_tokens (config (wp_scheduler p))"
    and lim: "0 < as_size_t (max_num_seqs (config (wp_scheduler p)))" "0 < as_size_t (max 1 (max_prefill_seqs (config (wp_scheduler p))))"
      "0 < max_num_batched_tokens (config (wp_scheduler p))"
    and adm: "first_admissible (wp_scheduler p) g"
  shows "prefill_seq_ids (wp_output (schedule_group g p)) = [gid g]"
proof -
  let ?s = "wp_scheduler p"
  let ?chunk = "can_chunk ?s (gid g)" and ?ctx = "GetSequenceContextLen ?s (gid g)"
  let ?b = "prefill_budget ?chunk g p"
  let ?n = "tokens_needed ?chunk ?b ?ctx g"
  have pos: "0 < num_tokens_to_process g" using adm by (simp add: first_admissible_def)
  have hd: "hd (sequence_ids g) = gid g" by (simp add: gid_def)
  have b: "0 < ?b" "\<not> ?chunk \<Longrightarrow> num_tokens_to_process g \<le> ?b"
    using adm lim(3) out by (auto simp: first_admissible_def prefill_budget_def Let_def split: if_splits)
  have n: "0 < ?n"
  proof -
    have m: "0 < x - x smod BLOCK_SIZE" if "BLOCK_SIZE < x" for x :: int using that by (simp add: smod_nonneg)
    have q: "0 < (if chunk then min (num_tokens_to_process g) bb else num_tokens_to_process g)" if "0 < bb" for chunk bb using that pos by simp
    have r: "0 < (if A \<and> B \<and> C \<and> x > BLOCK_SIZE \<and> D then x - x smod BLOCK_SIZE else x)" if "0 < x" for A B C D and x :: int
      using m [of x] that by presburger
    show ?thesis unfolding tokens_needed_def Let_def by (rule r [OF q [OF b(1)]])
  qed
  have "?n \<le> num_tokens_to_process g" using tokens_needed_le(2) [OF n] b(2) by simp
  then have "BlocksNeeded (?ctx + ?n) \<le> BlocksNeeded (?ctx + num_tokens_to_process g)" using ctx n by (intro BlocksNeeded_mono) simp_all
  then have "BlocksNeeded (?ctx + ?n) \<le> GetFreeBlockCount (block_mgr ?s)" using adm by (simp add: first_admissible_def)
  then obtain nb p' where rb: "reserve_blocks (gid g) ?ctx ?n g p = Inr (nb, p')" "wp_output p' = wp_output p"
    using reserve_blocks_ok [OF inv] by blast
  have "schedule_group g p = admit_prefill (gid g) ?ctx ?n nb g p'"
    using lim out(1,2,3) pos n b adm rb by (auto simp: schedule_group_def Let_def hd ScheduledSeqCount_def try_prefill_def first_admissible_def)
  then show ?thesis using out(1) rb(2) by (simp add: admit_prefill_def Let_def)
qed

lemma ScheduleWaiting_first:
  assumes inv: "sched_inv s" and q: "sorted_waiting (config s) (waiting_queue s) = g # gs" and adm: "first_admissible s g"
    and lim: "0 < as_size_t (max_num_seqs (config s))" "0 < as_size_t (max 1 (max_prefill_seqs (config s)))" "0 < max_num_batched_tokens (config s)"
    and r: "ScheduleWaiting (-1) (s, SchedulerOutput) = (s', out)"
  shows "\<exists>xs. prefill_seq_ids out = gid g # xs"
proof -
  let ?p = "start_pass (-1) s SchedulerOutput"
  have bm: "bm_inv (block_mgr (wp_scheduler ?p))" using inv by (simp add: sched_inv_def)
  have "prefill_seq_ids (wp_output (schedule_group g ?p)) = [gid g]"
    by (rule schedule_group_first) (use inv lim adm bm in \<open>simp_all add: SchedulerOutput_def sched_inv_def\<close>)
  moreover have "out = snd (finish_waiting (fold schedule_group gs (schedule_group g ?p)))"
    using r q by (simp add: ScheduleWaiting_end_pass end_pass_def)
  ultimately show ?thesis using waiting_pass_output [OF schedule_group_local(1) [OF bm, where g = g], of gs] by auto
qed

end
