(* ===== verification/Scheduler_Properties.thy ===== *)
theory Scheduler_Properties
  imports Scheduler_Progress
begin

text \<open>
  What the scheduler guarantees, over every state it can reach, with concrete runs as witnesses.
\<close>

section \<open>Sample schedulers\<close>

text \<open>One request with 20 prompt tokens; the same after its prefill; two running sequences in a small pool.\<close>

definition sample_sched :: scheduler where
  "sample_sched = snd (AddRequest 7 5 100 20 8 1 None True False 0 None
     (Scheduler (BlockManager 8 16 (\<lambda>_. 0) (\<lambda>_ _. False)) SchedulerConfig))"

definition sample_running :: scheduler where
  "sample_running = OnPrefillChunkComplete 1 20 True (fst (Schedule 6 sample_sched))"

definition tight_running :: scheduler where
  "tight_running =
     (let s0 = Scheduler (BlockManager 4 16 (\<lambda>_. 0) (\<lambda>_ _. False)) CreateMemoryEfficientConfig;
          s1 = snd (AddRequest 7 1 100 32 8 1 None True False 0 None s0);
          s2 = snd (AddRequest 7 2 101 16 8 1 None True False 0 None s1)
      in OnPrefillChunkComplete 2 16 True (OnPrefillChunkComplete 1 32 True (fst (Schedule 4 s2))))"

definition idle_cache :: block_manager where
  "idle_cache =
     (let (ids, bm) = Allocate 2 (BlockManager 2 16 (\<lambda>_. 0) (\<lambda>_ _. False))
      in Free ids (RegisterPrefixBlockWithTokens 1 (ComputeTokenHash 7 [0..31]) [16..31] []
           (RegisterPrefixBlockWithTokens 0 (ComputeTokenHash 7 [0..15]) [0..15] [] bm)))"

lemma reach_add: "sched_reachable s \<Longrightarrow> sched_reachable (snd (AddRequest salt now req_id plen max_out prio toks allow_chunk ssm mc val s))"
  by (rule sched_reachable.reach_step, assumption, rule step_add, rule surjective_pairing)

lemma reach_schedule: "sched_reachable s \<Longrightarrow> sched_reachable (fst (Schedule now s))"
  by (rule sched_reachable.reach_step, assumption, rule step_schedule, rule surjective_pairing)

lemma reach_prefilled:
  "sched_reachable s \<Longrightarrow> 0 < i \<Longrightarrow> i < next_seq_id s \<Longrightarrow> i \<notin> set (swapped_seqs s) \<Longrightarrow> sched_reachable (OnPrefillChunkComplete i n fin s)"
  by (rule sched_reachable.reach_step, assumption, rule step_prefill_done)

lemma sample_sched_reachable: "sched_reachable sample_sched"
  unfolding sample_sched_def by (intro reach_add reach_start) simp_all

lemma sample_running_reachable: "sched_reachable sample_running"
proof -
  have "1 < next_seq_id (fst (Schedule 6 sample_sched))" "1 \<notin> set (swapped_seqs (fst (Schedule 6 sample_sched)))" by code_simp+
  then show ?thesis unfolding sample_running_def by (intro reach_prefilled reach_schedule sample_sched_reachable) simp_all
qed

lemma sample_pair: "Schedule 6 sample_sched = (fst (Schedule 6 sample_sched), snd (Schedule 6 sample_sched))"
  "Schedule 7 sample_running = (fst (Schedule 7 sample_running), snd (Schedule 7 sample_running))"
  by simp_all

section \<open>The invariant\<close>

text \<open>C9: In every reachable scheduler a sequence is in at most one of the waiting queue, the running set and the
  swapped set, every identifier was handed out by the scheduler, and the block manager it drives is consistent.\<close>

theorem sched_reachable_inv:
  assumes "sched_reachable s"
  shows "bm_inv (block_mgr s) \<and> distinct (map gid (waiting_queue s) @ running_seqs s @ swapped_seqs s) \<and>
    (\<forall>i \<in> set (map gid (waiting_queue s) @ running_seqs s @ swapped_seqs s). 0 < i \<and> i < next_seq_id s) \<and>
    (\<forall>i. 0 \<le> GetSequenceContextLen s i)"
proof -
  have i: "sched_inv s" using assms by (rule sched_reachable_sched_inv)
  then have "set (map gid (waiting_queue s)) \<inter> (set (running_seqs s) \<union> set (swapped_seqs s)) = {}" by (simp add: sched_inv_def)
  then show ?thesis using i unfolding sched_inv_def by (simp add: Int_Un_distrib)
qed

theorem sched_reachable_inv_witness:
  "map gid (waiting_queue sample_sched) = [1] \<and> bm_inv (block_mgr sample_sched) \<and>
   distinct (map gid (waiting_queue sample_sched) @ running_seqs sample_sched @ swapped_seqs sample_sched)"
proof -
  have "map gid (waiting_queue sample_sched) = [1]" by code_simp
  then show ?thesis using sched_reachable_inv [OF sample_sched_reachable] by blast
qed

section \<open>Every batch\<close>

text \<open>C10: Whatever the load, a scheduled batch respects the configuration: the tokens of its prefill chunks and decode
  steps stay within the token budget, its sequences within the sequence limit and its prompts within the prefill limit;
  the counters of the output are the sums of its parts, and no sequence is decoded twice.\<close>

theorem schedule_within_limits:
  assumes "sched_reachable s" and "Schedule now s = (s', out)" and "0 \<le> max_num_seqs (config s)" "max_num_seqs (config s) \<le> INT_MAX"
    and "max_prefill_seqs (config s) \<le> INT_MAX"
  shows "sum_list (map chunk_tokens (prefill_chunks out)) + int (length (decode_seq_ids out)) = total_tokens out \<and>
    total_tokens out \<le> max 0 (max_num_batched_tokens (config s)) \<and>
    int (length (prefill_seq_ids out) + length (decode_seq_ids out)) \<le> max_num_seqs (config s) \<and>
    int (length (prefill_seq_ids out)) \<le> max 1 (max_prefill_seqs (config s)) \<and>
    map chunk_seq_id (prefill_chunks out) = prefill_seq_ids out \<and> (\<forall>c \<in> set (prefill_chunks out). 0 < chunk_tokens c) \<and>
    distinct (decode_seq_ids out) \<and> set (decode_seq_ids out) \<subseteq> set (running_seqs s') \<and>
    length (preempted_seq_ids out) \<le> 1"
proof -
  note L = Schedule_limits [OF sched_reachable_sched_inv [OF assms(1)] assms(2)]
  have "as_size_t (max_num_seqs (config s)) = max_num_seqs (config s)"
    "as_size_t (max 1 (max_prefill_seqs (config s))) = max 1 (max_prefill_seqs (config s))"
    using assms(3-5) by (simp_all add: as_size_t_id)
  then show ?thesis using L by (simp add: within_limits_def out_ok_def ScheduledSeqCount_def)
qed

theorem schedule_within_limits_witness:
  "prefill_chunks (snd (Schedule 6 sample_sched)) = [\<lparr>chunk_seq_id = 1, chunk_tokens = 20\<rparr>] \<and>
   total_tokens (snd (Schedule 6 sample_sched)) \<le> 2048"
proof -
  have c: "max_num_seqs (config sample_sched) = 256" "max_prefill_seqs (config sample_sched) = 256"
    "max_num_batched_tokens (config sample_sched) = 2048" by code_simp+
  have "prefill_chunks (snd (Schedule 6 sample_sched)) = [\<lparr>chunk_seq_id = 1, chunk_tokens = 20\<rparr>]" by code_simp
  then show ?thesis using schedule_within_limits [OF sample_sched_reachable sample_pair(1)] by (simp add: c)
qed

text \<open>C11: With phase isolation a batch is either prefill or decode; when mixed batches are enabled, the prefill part
  that rides along with a decode batch is capped by the mixed budget.\<close>

theorem schedule_phase_isolation:
  assumes "sched_reachable s" and "Schedule now s = (s', out)" and "isolate_prefill_decode (config s)"
  shows "if enable_mixed_prefill_decode (config s)
    then decode_seq_ids out = [] \<or> num_prefill_tokens out \<le> max 0 (min (max_mixed_prefill_tokens (config s)) (max_prefill_tokens (config s)))
    else prefill_seq_ids out = [] \<or> decode_seq_ids out = []"
  using Schedule_isolation [OF sched_reachable_sched_inv [OF assms(1)] assms(2,3)] by auto

theorem schedule_phase_isolation_witness:
  "decode_seq_ids (snd (Schedule 7 sample_running)) = [1] \<and> prefill_seq_ids (snd (Schedule 7 sample_running)) = []"
proof -
  have c: "isolate_prefill_decode (config sample_running)" "\<not> enable_mixed_prefill_decode (config sample_running)" by code_simp+
  have d: "decode_seq_ids (snd (Schedule 7 sample_running)) = [1]" by code_simp
  show ?thesis using schedule_phase_isolation [OF sample_running_reachable sample_pair(2) c(1)] c(2) d by simp
qed

text \<open>C12: Every admitted prefill chunk is backed by memory and matches the batch: the sequence owns enough blocks for its
  context and the whole chunk, and with homogeneous batches every chunk starts at the context length of the batch.\<close>

theorem schedule_chunks_backed:
  assumes "sched_reachable s" and "Schedule now s = (s', out)" and "c \<in> set (prefill_chunks out)"
  shows "(\<exists>bs. seq_block_ids s' (chunk_seq_id c) = Some bs \<and>
      GetSequenceContextLen s' (chunk_seq_id c) + chunk_tokens c \<le> 16 * int (length bs)) \<and>
    (enforce_homogeneous_batch_n_past (config s) \<longrightarrow> GetSequenceContextLen s' (chunk_seq_id c) = batch_context_len out)"
  using Schedule_chunks [OF sched_reachable_sched_inv [OF assms(1)] assms(2,3)] by simp

theorem schedule_chunks_backed_witness:
  "seq_block_ids (fst (Schedule 6 sample_sched)) 1 = Some [0, 1] \<and>
   GetSequenceContextLen (fst (Schedule 6 sample_sched)) 1 + 20 \<le> 16 * 2"
proof -
  have b: "seq_block_ids (fst (Schedule 6 sample_sched)) 1 = Some [0, 1]" by code_simp
  have "prefill_chunks (snd (Schedule 6 sample_sched)) = [\<lparr>chunk_seq_id = 1, chunk_tokens = 20\<rparr>]" by code_simp
  then show ?thesis using schedule_chunks_backed [OF sample_sched_reachable sample_pair(1), of "\<lparr>chunk_seq_id = 1, chunk_tokens = 20\<rparr>"] b
    by (simp del: One_nat_def)
qed

text \<open>C13: No iteration loses a request: whatever was waiting, running or swapped out is afterwards still in one of those
  queues, unless it was a waiting prompt that may not be chunked and is longer than the token budget of an iteration, which is
  cancelled.\<close>

theorem schedule_loses_no_request:
  assumes "sched_reachable s" and "Schedule now s = (s', out)"
    and "i \<in> set (map gid (waiting_queue s) @ running_seqs s @ swapped_seqs s)"
  shows "i \<in> set (map gid (waiting_queue s') @ running_seqs s' @ swapped_seqs s') \<or>
    GetStatus s' i = CANCELLED \<and> \<not> can_chunk s i \<and>
    (\<exists>g \<in> set (waiting_queue s). sequence_ids g = [i] \<and> max_num_batched_tokens (config s) < num_tokens_to_process g)"
proof (cases "fits s i")
  case True
  have "queued s i" using assms(3) by (auto simp: queued_def)
  from Schedule_queued [OF sched_reachable_sched_inv [OF assms(1)] assms(2) True this] show ?thesis by (auto simp: queued_def)
next
  case False
  then obtain g where g: "g \<in> set (waiting_queue s)" "gid g = i" "\<not> can_chunk s i" "max_num_batched_tokens (config s) < num_tokens_to_process g"
    by (auto simp: fits_def)
  have "group_ok g" using g(1) sched_reachable_sched_inv [OF assms(1)] by (simp add: sched_inv_def)
  then have "sequence_ids g = [i]" using g(2) by (simp add: group_ok_def)
  then show ?thesis using g Schedule_tracked [OF sched_reachable_sched_inv [OF assms(1)] assms(2), of i] assms(3)
    by (auto simp: tracked_def GetStatus_def)
qed

text \<open>A prompt of 20 tokens under a budget of 10 with chunking switched off: it is accepted and then cancelled.\<close>

definition long_sched :: scheduler where
  "long_sched = snd (AddRequest 7 5 100 20 8 1 None True False 0 None
     (Scheduler (BlockManager 8 16 (\<lambda>_. 0) (\<lambda>_ _. False))
       (SchedulerConfig\<lparr>enable_chunked_prefill := False, max_num_batched_tokens := 10\<rparr>)))"

theorem schedule_loses_no_request_witness:
  "1 \<in> set (map gid (waiting_queue long_sched) @ running_seqs long_sched @ swapped_seqs long_sched) \<and>
   GetStatus (fst (Schedule 6 long_sched)) 1 = CANCELLED"
proof -
  let ?s' = "fst (Schedule 6 long_sched)"
  have r: "sched_reachable long_sched" unfolding long_sched_def by (intro reach_add reach_start) simp_all
  have q: "1 \<in> set (map gid (waiting_queue long_sched) @ running_seqs long_sched @ swapped_seqs long_sched)" by code_simp
  have "\<not> 1 \<in> set (map gid (waiting_queue ?s') @ running_seqs ?s' @ swapped_seqs ?s')" by code_simp
  then show ?thesis using schedule_loses_no_request [OF r surjective_pairing q] q by blast
qed

text \<open>The blocks an iteration hands to sequences are pairwise distinct and belonged to nobody: each had no reference
  before and has one afterwards, and no other block's reference count moves.\<close>

theorem schedule_blocks_fresh:
  assumes "sched_reachable s" and "Schedule now s = (s', out)"
    and "\<forall>g \<in> set (waiting_queue s). can_chunk s (gid g) \<or> num_tokens_to_process g \<le> max_num_batched_tokens (config s)"
  shows "distinct (concat (map snd (new_block_allocations out))) \<and>
    (\<forall>b. in_range (block_mgr s) b \<longrightarrow> (if b \<in> set (concat (map snd (new_block_allocations out)))
       then ref_count (blk (block_mgr s) b) = 0 \<and> ref_count (blk (block_mgr s') b) = 1
       else ref_count (blk (block_mgr s') b) = ref_count (blk (block_mgr s) b)))"
proof -
  have "no_cancel s" using assms(3) by (simp add: no_cancel_def)
  note T = Schedule_fresh [OF sched_reachable_sched_inv [OF assms(1)] this assms(2)]
  show ?thesis using takesD(3) [OF T] takesD(4) [OF T] takesD(5) [OF T] by simp
qed

theorem schedule_blocks_fresh_witness:
  "new_block_allocations (snd (Schedule 6 sample_sched)) = [(1, [0, 1])] \<and>
   ref_count (blk (block_mgr (fst (Schedule 6 sample_sched))) 1) = 1"
proof -
  have w: "\<forall>g \<in> set (waiting_queue sample_sched). can_chunk sample_sched (gid g) \<or>
      num_tokens_to_process g \<le> max_num_batched_tokens (config sample_sched)" by code_simp
  have n: "new_block_allocations (snd (Schedule 6 sample_sched)) = [(1, [0, 1])]" by code_simp
  have r: "in_range (block_mgr sample_sched) 1" by code_simp
  show ?thesis using schedule_blocks_fresh [OF sample_sched_reachable sample_pair(1) w] n r by (simp del: One_nat_def)
qed

section \<open>Liveness and fairness\<close>











section \<open>Ordering\<close>

text \<open>C16: Without expert predictions and context bucketing the decode batch is exactly the best prefix of the running
  sequences, by priority and then arrival, that fits the token budget and the sequence limit: the optimised scan of the code
  selects what a sort would.\<close>

theorem decode_selects_sorted_prefix:
  assumes "distinct (running_seqs s)" and "\<forall>j \<in> set (running_seqs s). seq_predicted_experts s j = None"
    and "\<not> decode_homogeneous_batch_n_past s" and "total_tokens out < max_num_batched_tokens (config s)"
  shows "decode_seq_ids (ScheduleRunning now s out) = decode_seq_ids out @
    take (nat (min (max_num_batched_tokens (config s) - total_tokens out) (as_size_t (max_num_seqs (config s)) - int (ScheduledSeqCount out))))
      (sort_key (\<lambda>i. (GetSequencePriority s i, GetSequenceArrival now s i)) (running_seqs s))"
proof -
  have "sorted (map (decode_key now s) (running_order now s (running_seqs s)))" by (simp add: running_order_def)
  from decode_loop_prefix [OF this, of "-1" "max_num_batched_tokens (config s) - total_tokens out" out] assms
  show ?thesis by (simp add: ScheduleRunning_def Let_def) (simp add: running_order_def)
qed

theorem decode_selects_sorted_prefix_witness:
  "decode_seq_ids (ScheduleRunning 9 (sample_running\<lparr>running_seqs := [3, 2, 1], seq_priority := [1 \<mapsto> 5, 2 \<mapsto> 0, 3 \<mapsto> 5],
     seq_arrival := [1 \<mapsto> 1, 2 \<mapsto> 2, 3 \<mapsto> 3]\<rparr>) SchedulerOutput) = [2, 1, 3]"
proof -
  let ?s = "sample_running\<lparr>running_seqs := [3, 2, 1], seq_priority := [1 \<mapsto> 5, 2 \<mapsto> 0, 3 \<mapsto> 5], seq_arrival := [1 \<mapsto> 1, 2 \<mapsto> 2, 3 \<mapsto> 3]\<rparr>"
  have h: "distinct (running_seqs ?s)" "\<forall>j \<in> set (running_seqs ?s). seq_predicted_experts ?s j = None"
    "\<not> decode_homogeneous_batch_n_past ?s" "total_tokens SchedulerOutput < max_num_batched_tokens (config ?s)" by code_simp+
  show ?thesis unfolding decode_selects_sorted_prefix [OF h] by code_simp
qed

text \<open>The preemption victim is a running sequence that is maximal in the documented order: worst priority first (when
  priorities are on), then least progress, then latest arrival.\<close>

theorem victim_is_worst:
  assumes "running_seqs s \<noteq> []"
    and "\<forall>i \<in> set (running_seqs s). 0 \<le> i \<and> GetSequenceProgress s i \<le> INT_MAX \<and> 0 \<le> GetSequencePriority s i"
  shows "SelectPreemptionVictim now s \<in> set (running_seqs s) \<and>
    (\<forall>j \<in> set (running_seqs s).
       ((if enable_priority (config s) then GetSequencePriority s j else 0), - GetSequenceProgress s j, GetSequenceArrival now s j) \<le>
       ((if enable_priority (config s) then GetSequencePriority s (SelectPreemptionVictim now s) else 0),
        - GetSequenceProgress s (SelectPreemptionVictim now s), GetSequenceArrival now s (SelectPreemptionVictim now s)))"
  using SelectPreemptionVictim_best [OF assms, of now] unfolding victim_key_def by blast

theorem victim_is_worst_witness:
  "SelectPreemptionVictim 9 (sample_running\<lparr>running_seqs := [1, 2], seq_priority := [1 \<mapsto> 5, 2 \<mapsto> 0]\<rparr>) \<in> {1, 2}"
proof -
  let ?s = "sample_running\<lparr>running_seqs := [1, 2], seq_priority := [1 \<mapsto> 5, 2 \<mapsto> 0]\<rparr>"
  have h: "running_seqs ?s \<noteq> []" "\<forall>i \<in> set (running_seqs ?s). 0 \<le> i \<and> GetSequenceProgress ?s i \<le> INT_MAX \<and> 0 \<le> GetSequencePriority ?s i"
    by code_simp+
  have "set (running_seqs ?s) = {1, 2}" by simp
  then show ?thesis using conjunct1 [OF victim_is_worst [OF h, of 9]] by (simp only:)
qed

section \<open>Requests\<close>

text \<open>An accepted request gets the next identifier and one group at the back of the queue. The blocks of its cached prefix
  hold exactly the leading tokens of the prompt, each gains one reference, at least one token is left to process, and what is
  left plus the cached prefix is the whole prompt.\<close>

theorem add_request_enqueues:
  assumes "sched_reachable s" and "allow_chunk \<or> plen \<le> max_num_batched_tokens (config s)"
    and "AddRequest salt now req_id plen max_out prio (Some toks) allow_chunk ssm mc val s = (i, s')"
  shows "\<exists>g. i = next_seq_id s \<and> waiting_queue s' = waiting_queue s @ [g] \<and> sequence_ids g = [i] \<and> GetStatus s' i = WAITING \<and>
    num_tokens_to_process g + shared_prefix_len g = plen \<and> GetSequenceContextLen s' i = shared_prefix_len g \<and>
    shared_prefix_len g = 16 * int (length (shared_block_ids g)) \<and>
    (shared_block_ids g = [] \<or> 0 < num_tokens_to_process g) \<and>
    (\<forall>n < length (shared_block_ids g). block_tokens (block_mgr s) (shared_block_ids g ! n) = Some (take 16 (drop (16 * n) (take (nat plen) toks)))) \<and>
    (\<forall>b. in_range (block_mgr s) b \<longrightarrow>
       ref_count (blk (block_mgr s') b) = ref_count (blk (block_mgr s) b) + int (count_list (shared_block_ids g) b))"
proof -
  obtain g where "enqueued s now plen (Some toks) i g s'"
    using AddRequest_accepted [OF sched_reachable_sched_inv [OF assms(1)] assms(2,3)] ..
  note e = this [unfolded enqueued_def]
  have "GetStatus s' i = WAITING" "GetSequenceContextLen s' i = shared_prefix_len g" using e by (simp_all add: GetStatus_def GetSequenceContextLen_def)
  moreover have "\<forall>b. in_range (block_mgr s) b \<longrightarrow>
      ref_count (blk (block_mgr s') b) = ref_count (blk (block_mgr s) b) + int (count_list (shared_block_ids g) b)"
    using e by (simp add: acquires_def)
  moreover have "shared_block_ids g = [] \<or> 0 < num_tokens_to_process g"
    "\<forall>n < length (shared_block_ids g). block_tokens (block_mgr s) (shared_block_ids g ! n) = Some (take 16 (drop (16 * n) (take (nat plen) toks)))"
    using e by auto
  ultimately show ?thesis using e by (intro exI [of _ g] conjI) simp_all
qed

lemma idle_cache_reachable: "sched_reachable (Scheduler idle_cache SchedulerConfig)"
proof -
  let ?b = "BlockManager 2 16 (\<lambda>_. 0) (\<lambda>_ _. False)"
  have s: "sched_reachable (Scheduler ?b SchedulerConfig)" by (rule reach_start) simp_all
  have step: "sched_reachable (Scheduler bm' SchedulerConfig)" if "sched_reachable (Scheduler bm SchedulerConfig)" "bm_step 7 bm bm'" for bm bm'
    using sched_reachable.reach_step [OF that(1) step_blocks [of 7 _ bm']] that(2) by (simp add: Scheduler_def)
  show ?thesis unfolding idle_cache_def Let_def case_prod_unfold
    by (rule step [OF step [OF step [OF step [OF s step_allocate] step_register_tokens] step_register_tokens] step_free])
qed

theorem add_request_enqueues_witness:
  "\<exists>g. waiting_queue (snd (AddRequest 7 1 100 40 8 1 (Some [0..39]) True False 0 None (Scheduler idle_cache SchedulerConfig))) = [g] \<and>
     num_tokens_to_process g + shared_prefix_len g = 40"
proof -
  have "waiting_queue (Scheduler idle_cache SchedulerConfig) = []" by (simp add: Scheduler_def)
  then show ?thesis
    using add_request_enqueues [OF idle_cache_reachable _ surjective_pairing, of True 40 7 1 100 8 1 "[0..39]" False 0 None] by auto
qed

text \<open>A prompt processed in any chunks that add up to what is left of it becomes runnable exactly then: it has left the
  waiting queue, is in the running set with status RUNNING, and its context length has grown by exactly that many tokens.\<close>

theorem chunked_prefill_completes:
  assumes "FindWaitingGroupLocked s i = Some g" and "0 < i" and "\<forall>n \<in> set ns. 0 < n" and "ns \<noteq> []"
    and "sum_list ns = num_tokens_to_process g"
  shows "let s' = fold (\<lambda>n. OnPrefillChunkComplete i n False) ns s in
    FindWaitingGroupLocked s' i = None \<and> i \<in> set (running_seqs s') \<and> GetStatus s' i = RUNNING \<and>
    GetSequenceContextLen s' i = GetSequenceContextLen s i + num_tokens_to_process g"
  using prefill_chunks_complete [OF assms(1-3,5,4)] by (simp add: Let_def GetStatus_def)

theorem chunked_prefill_completes_witness:
  "1 \<in> set (running_seqs (fold (\<lambda>n. OnPrefillChunkComplete 1 n False) [16, 3, 1] sample_sched)) \<and>
   GetSequenceContextLen (fold (\<lambda>n. OnPrefillChunkComplete 1 n False) [16, 3, 1] sample_sched) 1 = 20"
proof -
  obtain g where g: "FindWaitingGroupLocked sample_sched 1 = Some g" "num_tokens_to_process g = 20"
  proof -
    have "map_option num_tokens_to_process (FindWaitingGroupLocked sample_sched 1) = Some 20" by code_simp
    then show ?thesis using that by auto
  qed
  have c: "GetSequenceContextLen sample_sched 1 = 0" by code_simp
  have ns: "\<forall>n \<in> set [16, 3, 1]. 0 < (n :: int)" "[16, 3, 1] \<noteq> ([] :: int list)" "sum_list [16, 3, 1] = num_tokens_to_process g"
    using g(2) by simp_all
  show ?thesis using chunked_prefill_completes [OF g(1) zero_less_one ns] c g(2) unfolding Let_def by presburger
qed

text \<open>Reporting a batch of progress updates under one lock is the same as reporting them one by one.\<close>

theorem update_progress_batch:
  "UpdateProgressBatch us s = fold (\<lambda>(i, n). UpdateProgress i n) us s"
  by (rule UpdateProgressBatch_fold)

section \<open>Forks\<close>

lemma fork_blocks_spec:
  assumes "bm_inv bm" and "\<forall>b \<in> set bs. in_range bm b \<and> 0 < ref_count (blk bm b)"
  shows "fst (fork_blocks bs bm) = bs \<and>
    (\<forall>j. in_range bm j \<longrightarrow> ref_count (blk (snd (fork_blocks bs bm)) j) = ref_count (blk bm j) + int (count_list bs j))"
  using assms
proof (induction bs arbitrary: bm)
  case (Cons b bs)
  have inv: "bm_inv (snd (Fork b bm))" using Cons.prems(1) by (rule Fork_inv)
  have b: "in_range bm b" "0 < ref_count (blk bm b)" using Cons.prems(2) by simp_all
  have rng: "in_range (snd (Fork b bm)) j = in_range bm j" for j
    by (simp add: Fork_def)
  have ref: "ref_count (blk (snd (Fork b bm)) j) = ref_count (blk bm j) + (if j = b then 1 else 0)" if "in_range bm j" for j
    using Fork_spec(2) [OF Cons.prems(1) that, of b] b(2) by simp
  have "\<forall>x \<in> set bs. in_range (snd (Fork b bm)) x \<and> 0 < ref_count (blk (snd (Fork b bm)) x)" using Cons.prems(2) rng ref by simp
  note IH = Cons.IH [OF inv this]
  have f: "fst (Fork b bm) = b" "0 \<le> b" using Fork_spec(1) [OF Cons.prems(1) b(1), of b] b by (simp_all add: in_range_def)
  show ?case using IH f ref rng by (simp add: Let_def case_prod_unfold)
qed simp

text \<open>A forked sequence shares its parent's memory: it owns the same blocks, every one of them gains a reference and is
  therefore copied before either writes to it, and it starts at the parent's context length.\<close>

theorem fork_shares_blocks:
  assumes "sched_reachable s" and "seq_block_ids s parent = Some bs"
    and "\<forall>b \<in> set bs. in_range (block_mgr s) b \<and> 0 < ref_count (blk (block_mgr s) b)" and "ForkSequence parent s = (i, s')"
  shows "i = next_seq_id s \<and> seq_block_ids s' i = Some bs \<and> GetSequenceContextLen s' i = GetSequenceContextLen s parent \<and>
    (\<forall>b \<in> set bs. IsShared (block_mgr s') b) \<and>
    (\<forall>b. in_range (block_mgr s) b \<longrightarrow> ref_count (blk (block_mgr s') b) = ref_count (blk (block_mgr s) b) + int (count_list bs b))"
proof -
  have bm: "bm_inv (block_mgr s)" using sched_reachable_sched_inv [OF assms(1)] by (simp add: sched_inv_def)
  have e: "i = fst (ForkSequence parent s)" "s' = snd (ForkSequence parent s)" using assms(4) by simp_all
  note F = fork_blocks_spec [OF bm assms(3)]
  have b: "block_mgr s' = snd (fork_blocks bs (block_mgr s))" by (simp add: e ForkSequence_fields assms(2))
  have rng: "in_range (block_mgr s') j = in_range (block_mgr s) j" for j
  proof -
    have "num_blocks (snd (fork_blocks xs bm)) = num_blocks bm" for xs bm
      by (induction xs arbitrary: bm) (simp_all add: Let_def case_prod_unfold Fork_def)
    then show ?thesis by (simp add: b in_range_def)
  qed
  have cnt: "0 < count_list bs j" if "j \<in> set bs" for j using that count_list_0_iff [of bs j] by (cases "count_list bs j") auto
  have "IsShared (block_mgr s') j" if j: "j \<in> set bs" for j
  proof -
    have "in_range (block_mgr s) j" "0 < ref_count (blk (block_mgr s) j)" using assms(3) j by blast+
    then show ?thesis using F cnt [OF j] rng [of j] by (simp add: IsShared_def b)
  qed
  then show ?thesis using F by (simp add: e b ForkSequence_fields assms(2) GetSequenceContextLen_def)
qed

theorem fork_shares_blocks_witness:
  "seq_block_ids (snd (ForkSequence 1 sample_running)) 2 = Some [0, 1] \<and> IsShared (block_mgr (snd (ForkSequence 1 sample_running))) 0"
proof -
  have h: "seq_block_ids sample_running 1 = Some [0, 1]" "next_seq_id sample_running = 2"
    "\<forall>b \<in> set [0, 1]. in_range (block_mgr sample_running) b \<and> 0 < ref_count (blk (block_mgr sample_running) b)" by code_simp+
  show ?thesis using fork_shares_blocks [OF sample_running_reachable h(1,3) surjective_pairing] h(2) by (simp add: ForkSequence_fields)
qed

section \<open>What the code does not do\<close>

text \<open>C17: Removing a waiting request that was matched with cached blocks gives none of them back: the queue is as before the
  request arrived, no sequence owns the blocks, and each keeps the reference the request acquired, so it can never be evicted.\<close>

theorem remove_request_leaks_prefix:
  assumes "sched_reachable s" and "allow_chunk \<or> plen \<le> max_num_batched_tokens (config s)"
    and "AddRequest salt now req_id plen max_out prio (Some toks) allow_chunk ssm mc val s = (i, s1)"
    and "waiting_queue s1 = waiting_queue s @ [g]" and "s2 = RemoveRequest i finished s1"
  shows "waiting_queue s2 = waiting_queue s \<and> seq_block_ids s2 = (seq_block_ids s)(i := None) \<and>
    (\<forall>b. in_range (block_mgr s) b \<longrightarrow>
       ref_count (blk (block_mgr s2) b) = ref_count (blk (block_mgr s) b) + int (count_list (shared_block_ids g) b))"
proof -
  have inv: "sched_inv s" by (rule sched_reachable_sched_inv [OF assms(1)])
  obtain h where "enqueued s now plen (Some toks) i h s1" using AddRequest_accepted [OF inv assms(2,3)] ..
  note e = this [unfolded enqueued_def]
  have h: "h = g" using e assms(4) by simp
  have "i \<notin> gid ` set (waiting_queue s)" "\<forall>g \<in> set (waiting_queue s). group_ok g" using inv e by (auto simp: sched_inv_def)
  then have keep: "filter (\<lambda>g. \<not> has_seq i g) (waiting_queue s) = waiting_queue s" by (auto simp: filter_id_conv)
  have "has_seq i g" using e h by (simp add: has_seq_def)
  then have "waiting_queue s2 = waiting_queue s" using e assms(4,5) keep by (simp add: RemoveRequest_def CleanupSequenceState_def Let_def)
  moreover have "seq_block_ids s2 = (seq_block_ids s)(i := None)" "block_mgr s2 = block_mgr s1"
    using e assms(5) by (simp_all add: RemoveRequest_def CleanupSequenceState_def Let_def)
  moreover have "acquires (block_mgr s) (shared_block_ids g) (block_mgr s1)" using e h by blast
  ultimately show ?thesis by (simp add: acquires_def)
qed

theorem remove_request_leaks_prefix_witness:
  "let s1 = snd (AddRequest 7 1 100 40 8 1 (Some [0..39]) True False 0 None (Scheduler idle_cache SchedulerConfig))
   in waiting_queue (RemoveRequest 1 False s1) = [] \<and> ref_count (blk (block_mgr (RemoveRequest 1 False s1)) 0) = 1"
proof -
  let ?s = "Scheduler idle_cache SchedulerConfig"
  let ?r = "AddRequest 7 1 100 40 8 1 (Some [0..39]) True False 0 None ?s"
  have w: "waiting_queue (snd ?r) = waiting_queue ?s @ [hd (waiting_queue (snd ?r))]" "fst ?r = 1"
    "shared_block_ids (hd (waiting_queue (snd ?r))) = [0, 1]" "waiting_queue ?s = []" "in_range (block_mgr ?s) 0" "ref_count (blk (block_mgr ?s) 0) = 0"
    by code_simp+
  show ?thesis using remove_request_leaks_prefix [OF idle_cache_reachable _ surjective_pairing w(1) refl, of False] w(2-) by (simp add: Let_def)
qed

definition refused_sched :: scheduler where
  "refused_sched = snd (AddRequest 7 1 100 16 8 1 None True False 0 None (Scheduler idle_cache SchedulerConfig))"

text \<open>Admission counts only the free lists. In a reachable scheduler whose two blocks are both idle cache entries, the
  block manager can satisfy a request for two blocks by evicting them, yet a waiting prompt that needs one block is refused for
  lack of free blocks, and nothing else is scheduled.\<close>

theorem admission_ignores_evictable_blocks:
  "sched_reachable refused_sched \<and> fst (Allocate 2 (block_mgr refused_sched)) = [0, 1] \<and>
   IsEmpty (snd (Schedule 6 refused_sched)) \<and> empty_reason (snd (Schedule 6 refused_sched)) = NoFreeBlocks"
proof (intro conjI)
  show "sched_reachable refused_sched" unfolding refused_sched_def by (rule reach_add [OF idle_cache_reachable])
qed code_simp+

lemma tight_running_reachable: "sched_reachable tight_running"
proof -
  let ?s0 = "Scheduler (BlockManager 4 16 (\<lambda>_. 0) (\<lambda>_ _. False)) CreateMemoryEfficientConfig"
  let ?s2 = "snd (AddRequest 7 2 101 16 8 1 None True False 0 None (snd (AddRequest 7 1 100 32 8 1 None True False 0 None ?s0)))"
  let ?s3 = "fst (Schedule 4 ?s2)"
  have n: "next_seq_id ?s3 = 3" "swapped_seqs ?s3 = []" "next_seq_id (OnPrefillChunkComplete 1 32 True ?s3) = 3"
    "swapped_seqs (OnPrefillChunkComplete 1 32 True ?s3) = []" by code_simp+
  have "sched_reachable ?s3" by (intro reach_schedule reach_add reach_start) simp_all
  then have "sched_reachable (OnPrefillChunkComplete 1 32 True ?s3)" by (rule reach_prefilled) (simp_all only: n, simp_all)
  then have "sched_reachable (OnPrefillChunkComplete 2 16 True (OnPrefillChunkComplete 1 32 True ?s3))"
    by (rule reach_prefilled) (simp_all only: n, simp_all)
  then show ?thesis unfolding tight_running_def Let_def .
qed

text \<open>One iteration can preempt a sequence and swap the same sequence back in, so that the output names it in both lists
  together with new blocks, while its old blocks are in no table of the scheduler.\<close>

theorem preempted_and_swapped_in:
  "sched_reachable tight_running \<and> seq_block_ids tight_running 2 = Some [2] \<and>
   (let (s, out) = Schedule 6 tight_running
    in preempted_seq_ids out = [2] \<and> swap_in_seq_ids out = [2] \<and> new_block_allocations out = [(2, [3])] \<and>
       decode_seq_ids out = [1, 2] \<and> seq_block_ids s 2 = Some [3])"
proof (intro conjI)
  show "sched_reachable tight_running" by (rule tight_running_reachable)
qed code_simp+

text \<open>A scheduler whose only sequences are swapped out reports that it has no requests.\<close>

lemma has_requests_ignores_swapped:
  assumes "waiting_queue s = []" and "running_seqs s = []" and "swapped_seqs s \<noteq> []"
  shows "\<not> HasRequests s \<and> 0 < swapped_count (GetStats s)"
  using assms by (simp add: HasRequests_def GetStats_def)

end
