(* ===== verification/KV_Block_Allocator.thy ===== *)
theory KV_Block_Allocator
  imports Block_Pool
begin

text \<open>
  The arena allocator behind the K, V and index tensors of the paged cache:
  \<^verbatim>\<open>core/include/densecore/memory/block_allocator.h\<close>, class \<^verbatim>\<open>KVBlockAllocator\<close>. It hands out the
  blocks of one contiguous arena from a LIFO free list and detects double frees with a bitmap.

  \<^verbatim>\<open>size_t\<close> values are 64-bit words, so \<^verbatim>\<open>AlignUp\<close>, the arena size and the block addresses wrap as
  in the code. What the operating system answers to the four ways of obtaining the arena is a
  parameter of the constructor (address 0 is \<^verbatim>\<open>nullptr\<close>). Indexing \<^verbatim>\<open>allocated_\<close> outside its size
  is undefined behaviour in C++ and is the value \<open>None\<close> here.
\<close>

unbundle bit_operations_syntax

datatype allocation_type = Aligned | Numa | Mmap

record kv_block_allocator =
  arena :: u64
  arena_size :: u64
  kvb_num_blocks :: u64
  block_stride :: u64
  alignment :: u64
  numa_node :: int
  alloc_type :: allocation_type
  use_hugepages :: bool
  strict_numa :: bool
  free_list :: "int list"
  allocated :: "bool list"

record arena_outcome =
  hugepage_arena :: u64
  hugepage_bytes :: u64
  numa_arena :: u64
  mmap_arena :: u64
  aligned_arena :: u64

definition AlignUp :: "u64 \<Rightarrow> u64 \<Rightarrow> u64" where
  "AlignUp sz algn = (sz + algn - 1) AND NOT (algn - 1)"

definition acquire_numa :: "arena_outcome \<Rightarrow> kv_block_allocator \<Rightarrow> kv_block_allocator" where
  "acquire_numa out a =
     (let a1 = (if use_hugepages a \<and> hugepage_arena out \<noteq> 0
                then a\<lparr>arena := hugepage_arena out, alloc_type := Mmap,
                       arena_size := (if hugepage_bytes out > 0 then hugepage_bytes out else arena_size a)\<rparr>
                else a)
      in if arena a1 = 0 \<and> numa_arena out \<noteq> 0
         then a1\<lparr>arena := numa_arena out, alloc_type := Numa\<rparr> else a1)"

definition acquire_arena :: "arena_outcome \<Rightarrow> kv_block_allocator \<Rightarrow> kv_block_allocator" where
  "acquire_arena out a1 =
     (let a2 = (if numa_node a1 \<ge> 0 then acquire_numa out a1 else a1)
      in if numa_node a1 \<ge> 0 \<and> arena a2 = 0 \<and> strict_numa a2 then a2
         else let a3 = (if arena a2 = 0 \<and> mmap_arena out \<noteq> 0
                        then a2\<lparr>arena := mmap_arena out, alloc_type := Mmap\<rparr> else a2)
              in if arena a3 = 0
                 then a3\<lparr>arena := aligned_arena out, alloc_type := Aligned\<rparr> else a3)"

definition init_free_list :: "kv_block_allocator \<Rightarrow> kv_block_allocator" where
  "init_free_list a =
     a\<lparr>free_list := rev [0..sint (ucast (kvb_num_blocks a) :: u32) - 1],
       allocated := replicate (unat (kvb_num_blocks a)) False\<rparr>"

definition KVBlockAllocator ::
  "u64 \<Rightarrow> u64 \<Rightarrow> u64 \<Rightarrow> int \<Rightarrow> bool \<Rightarrow> bool \<Rightarrow> arena_outcome \<Rightarrow> kv_block_allocator" where
  "KVBlockAllocator n stride algn node hugep strict out =
     (let a0 = \<lparr>arena = 0, arena_size = 0, kvb_num_blocks = n, block_stride = AlignUp stride algn,
                alignment = algn, numa_node = node, alloc_type = Aligned, use_hugepages = hugep,
                strict_numa = strict, free_list = [], allocated = []\<rparr>
      in if n = 0 \<or> stride = 0 then a0
         else let a = acquire_arena out (a0\<lparr>arena_size := n * block_stride a0\<rparr>)
              in if arena a = 0 then a else init_free_list a)"

definition IsValid :: "kv_block_allocator \<Rightarrow> bool" where
  "IsValid a \<longleftrightarrow> arena a \<noteq> 0 \<and> kvb_num_blocks a > 0"

definition kvb_in_range :: "kv_block_allocator \<Rightarrow> int \<Rightarrow> bool" where
  "kvb_in_range a block_id \<longleftrightarrow> 0 \<le> block_id \<and> block_id < uint (kvb_num_blocks a)"

definition KVB_Allocate :: "kv_block_allocator \<Rightarrow> int \<times> kv_block_allocator" where
  "KVB_Allocate a =
     (if free_list a = [] then (-1, a)
      else let block_id = last (free_list a)
           in (block_id, a\<lparr>free_list := butlast (free_list a),
                           allocated := (allocated a)[nat block_id := True]\<rparr>))"

fun kvb_pop :: "nat \<Rightarrow> kv_block_allocator \<Rightarrow> int list \<times> kv_block_allocator" where
  "kvb_pop 0 a = ([], a)"
| "kvb_pop (Suc n) a =
     (let (block_id, a1) = KVB_Allocate a; (ids, a2) = kvb_pop n a1 in (block_id # ids, a2))"

definition KVB_AllocateN :: "nat \<Rightarrow> kv_block_allocator \<Rightarrow> int list \<times> kv_block_allocator" where
  "KVB_AllocateN n a = (if length (free_list a) < n then ([], a) else kvb_pop n a)"

definition KVB_Free :: "int \<Rightarrow> kv_block_allocator \<Rightarrow> (bool \<times> kv_block_allocator) option" where
  "KVB_Free block_id a =
     (if \<not> kvb_in_range a block_id then Some (False, a)
      else if length (allocated a) \<le> nat block_id then None
      else if \<not> allocated a ! nat block_id then Some (False, a)
      else Some (True, a\<lparr>allocated := (allocated a)[nat block_id := False],
                         free_list := free_list a @ [block_id]\<rparr>))"

fun KVB_FreeN :: "int list \<Rightarrow> kv_block_allocator \<Rightarrow> (nat \<times> kv_block_allocator) option" where
  "KVB_FreeN [] a = Some (0, a)"
| "KVB_FreeN (block_id # ids) a =
     (case KVB_Free block_id a of
        None \<Rightarrow> None
      | Some (ok, a1) \<Rightarrow>
          (case KVB_FreeN ids a1 of
             None \<Rightarrow> None
           | Some (cnt, a2) \<Rightarrow> Some ((if ok then Suc cnt else cnt), a2)))"

definition GetBlockPtr :: "kv_block_allocator \<Rightarrow> int \<Rightarrow> u64" where
  "GetBlockPtr a block_id =
     (if \<not> kvb_in_range a block_id then 0 else arena a + word_of_int block_id * block_stride a)"

definition FreeCount :: "kv_block_allocator \<Rightarrow> nat" where
  "FreeCount a = length (free_list a)"

definition AllocatedCount :: "kv_block_allocator \<Rightarrow> u64" where
  "AllocatedCount a = kvb_num_blocks a - of_nat (length (free_list a))"

definition IsAllocated :: "kv_block_allocator \<Rightarrow> int \<Rightarrow> bool option" where
  "IsAllocated a block_id =
     (if \<not> kvb_in_range a block_id then Some False
      else if length (allocated a) \<le> nat block_id then None
      else Some (allocated a ! nat block_id))"

section \<open>The invariant\<close>

definition kvb_inv :: "kv_block_allocator \<Rightarrow> bool" where
  "kvb_inv a \<longleftrightarrow>
     length (allocated a) = unat (kvb_num_blocks a) \<and> distinct (free_list a) \<and>
     (\<forall>i. i \<in> set (free_list a) \<longleftrightarrow> kvb_in_range a i \<and> \<not> allocated a ! nat i)"

lemma kvb_in_range_nat: "kvb_in_range a i \<Longrightarrow> nat i < unat (kvb_num_blocks a)"
  by (simp add: kvb_in_range_def) (metis nat_mono_iff int_nat_eq nat_less_iff unat_eq_nat_uint uint_nonnegative)

lemma kvb_in_range_cong: "kvb_num_blocks a' = kvb_num_blocks a \<Longrightarrow> kvb_in_range a' = kvb_in_range a"
  by (simp add: kvb_in_range_def fun_eq_iff)

lemma kvb_range_eq: "{i. kvb_in_range a i} = {0..<uint (kvb_num_blocks a)}"
  by (auto simp: kvb_in_range_def)

lemma ucast_small:
  assumes "unat (n :: u64) < 2 ^ 31"
  shows "sint (ucast n :: u32) = uint n"
proof -
  have "int (unat n) < int (2 ^ 31)" using assms by (simp only: of_nat_less_iff)
  then have u: "uint n < 2 ^ 31" by simp
  have "sint (ucast n :: u32) = signed_take_bit 31 (uint n)"
    by (simp add: signed_ucast_eq)
  also have "\<dots> = uint n" using u uint_nonnegative [of n] by (intro signed_take_bit_int_eq_self) linarith+
  finally show ?thesis .
qed

lemma acquire_frame [simp]:
  "kvb_num_blocks (acquire_arena out a) = kvb_num_blocks a" "block_stride (acquire_arena out a) = block_stride a"
  "free_list (acquire_arena out a) = free_list a" "allocated (acquire_arena out a) = allocated a"
  by (simp_all add: acquire_arena_def acquire_numa_def Let_def)

lemma KVBlockAllocator_fields:
  "kvb_num_blocks (KVBlockAllocator n stride algn node hugep strict out) = n"
  "block_stride (KVBlockAllocator n stride algn node hugep strict out) = AlignUp stride algn"
  by (simp_all add: KVBlockAllocator_def Let_def init_free_list_def)

lemma KVBlockAllocator_lists:
  assumes "a = KVBlockAllocator n stride algn node hugep strict out"
  shows "if IsValid a
    then free_list a = rev [0..sint (ucast n :: u32) - 1] \<and> allocated a = replicate (unat n) False
    else free_list a = [] \<and> allocated a = []"
  using assms
  by (cases "n = 0 \<or> stride = 0")
    (auto simp: KVBlockAllocator_def Let_def init_free_list_def IsValid_def word_gt_0 split: if_splits)

lemma KVBlockAllocator_inv:
  assumes "IsValid (KVBlockAllocator n stride algn node hugep strict out)" and "unat n < 2 ^ 31"
  shows "kvb_inv (KVBlockAllocator n stride algn node hugep strict out)"
proof -
  let ?a = "KVBlockAllocator n stride algn node hugep strict out"
  note C = KVBlockAllocator_fields [of n stride algn node hugep strict out]
  have fl: "set (free_list ?a) = {0..uint n - 1}" "distinct (free_list ?a)" "allocated ?a = replicate (unat n) False"
    using KVBlockAllocator_lists [OF refl [of ?a]] assms(1) ucast_small [OF assms(2)] by simp_all
  have "\<not> allocated ?a ! nat i" if "kvb_in_range ?a i" for i
    using kvb_in_range_nat [OF that] C(1) fl(3) by simp
  then show ?thesis using fl C(1) by (auto simp: kvb_inv_def kvb_in_range_def)
qed

section \<open>Laws\<close>

lemma KVB_Allocate_spec:
  assumes inv: "kvb_inv a" and ne: "free_list a \<noteq> []" and al: "KVB_Allocate a = (i, a')"
  shows "kvb_inv a' \<and> kvb_num_blocks a' = kvb_num_blocks a \<and> kvb_in_range a i \<and> i \<in> set (free_list a) \<and>
    free_list a' = butlast (free_list a) \<and> allocated a' = (allocated a)[nat i := True]"
proof -
  have eq: "i = last (free_list a)" "free_list a' = butlast (free_list a)"
    "allocated a' = (allocated a)[nat i := True]" "kvb_num_blocks a' = kvb_num_blocks a"
    using al ne by (auto simp: KVB_Allocate_def Let_def)
  have i: "i \<in> set (free_list a)" using ne eq(1) by simp
  then have r: "kvb_in_range a i" using inv by (simp add: kvb_inv_def)
  have "set (free_list a') = set (free_list a) - {i}"
    using inv ne eq by (simp add: kvb_inv_def set_butlast_distinct)
  moreover have "j = i" if "nat j = nat i" "kvb_in_range a j" for j using that r by (auto simp: kvb_in_range_def)
  ultimately have "kvb_inv a'" using inv kvb_in_range_nat [OF r] kvb_in_range_cong [OF eq(4)]
    by (auto simp: kvb_inv_def eq distinct_butlast nth_list_update)
  then show ?thesis using i r eq by simp
qed

lemma kvb_pop_spec:
  assumes "kvb_inv a" and "n \<le> length (free_list a)" and "kvb_pop n a = (ids, a')"
  shows "kvb_inv a' \<and> kvb_num_blocks a' = kvb_num_blocks a \<and> length ids = n \<and> distinct ids \<and>
    set ids \<subseteq> set (free_list a) \<and> set (free_list a') = set (free_list a) - set ids"
  using assms
proof (induction n arbitrary: a ids)
  case (Suc n)
  obtain i a1 where 1: "KVB_Allocate a = (i, a1)" by fastforce
  obtain ids' where 2: "kvb_pop n a1 = (ids', a')" "ids = i # ids'"
    using Suc.prems(3) 1 by (auto simp: Let_def split: prod.splits)
  have ne: "free_list a \<noteq> []" using Suc.prems(2) by auto
  note A = KVB_Allocate_spec [OF Suc.prems(1) ne 1]
  have "n \<le> length (free_list a1)" using A Suc.prems(2) by simp
  note IH = Suc.IH [OF conjunct1 [OF A] this 2(1)]
  have "i = last (free_list a)" using 1 ne by (auto simp: KVB_Allocate_def Let_def)
  then have "set (free_list a1) = set (free_list a) - {i}"
    using A Suc.prems(1) ne by (simp add: kvb_inv_def set_butlast_distinct)
  then show ?case using IH A 2(2) by auto
qed simp

lemma KVB_Free_spec:
  assumes inv: "kvb_inv a"
  shows "\<exists>ok a'. KVB_Free i a = Some (ok, a') \<and> kvb_inv a' \<and> kvb_num_blocks a' = kvb_num_blocks a \<and>
    (ok \<longleftrightarrow> kvb_in_range a i \<and> allocated a ! nat i) \<and>
    (\<forall>j. kvb_in_range a j \<longrightarrow> allocated a' ! nat j = (allocated a ! nat j \<and> j \<noteq> i))"
proof (cases "kvb_in_range a i \<and> allocated a ! nat i")
  case True
  then have n: "nat i < length (allocated a)" using inv kvb_in_range_nat by (simp add: kvb_inv_def)
  define a' where "a' = a\<lparr>allocated := (allocated a)[nat i := False], free_list := free_list a @ [i]\<rparr>"
  have eq: "KVB_Free i a = Some (True, a')" using True n by (simp add: KVB_Free_def a'_def)
  have c: "kvb_in_range a' = kvb_in_range a" by (simp add: a'_def kvb_in_range_def fun_eq_iff)
  have inj: "nat j = nat i \<longleftrightarrow> j = i" if "kvb_in_range a j" for j using that True by (auto simp: kvb_in_range_def)
  have al: "allocated a' ! nat j = (allocated a ! nat j \<and> j \<noteq> i)" if "kvb_in_range a j" for j
    using n inj [OF that] by (auto simp: a'_def nth_list_update)
  have "i \<notin> set (free_list a)" using inv True by (simp add: kvb_inv_def)
  then have "kvb_inv a'" using inv True al c unfolding kvb_inv_def by (auto simp: a'_def)
  then show ?thesis using True eq al by (auto simp: a'_def)
next
  case False
  then show ?thesis using inv kvb_in_range_nat [of a i]
    by (auto simp: KVB_Free_def kvb_inv_def)
qed

definition kvb_refs :: "kv_block_allocator \<Rightarrow> int \<Rightarrow> int" where
  "kvb_refs a i = (if allocated a ! nat i then 1 else 0)"

definition kvb_release :: "int list \<Rightarrow> kv_block_allocator \<Rightarrow> kv_block_allocator" where
  "kvb_release ids a = (case KVB_FreeN ids a of None \<Rightarrow> a | Some (n, a') \<Rightarrow> a')"

lemma KVB_FreeN_spec:
  "kvb_inv a \<Longrightarrow> \<exists>n a'. KVB_FreeN ids a = Some (n, a') \<and> kvb_inv a' \<and> kvb_num_blocks a' = kvb_num_blocks a \<and>
    n + length (free_list a) = length (free_list a') \<and>
    (\<forall>j. kvb_in_range a j \<longrightarrow> kvb_refs a' j = max 0 (kvb_refs a j - int (count_list ids j)))"
proof (induction ids arbitrary: a)
  case Nil
  then show ?case by (simp add: kvb_refs_def)
next
  case (Cons i ids)
  obtain ok a1 where 1: "KVB_Free i a = Some (ok, a1)" "kvb_inv a1" "kvb_num_blocks a1 = kvb_num_blocks a"
    "\<And>j. kvb_in_range a j \<Longrightarrow> allocated a1 ! nat j = (allocated a ! nat j \<and> j \<noteq> i)"
    using KVB_Free_spec [OF Cons.prems, of i] by blast
  have len: "length (free_list a1) = length (free_list a) + (if ok then 1 else 0)"
    using 1(1) by (auto simp: KVB_Free_def split: if_splits)
  obtain n a2 where 2: "KVB_FreeN ids a1 = Some (n, a2)" "kvb_inv a2" "kvb_num_blocks a2 = kvb_num_blocks a1"
    "n + length (free_list a1) = length (free_list a2)"
    "\<And>j. kvb_in_range a1 j \<Longrightarrow> kvb_refs a2 j = max 0 (kvb_refs a1 j - int (count_list ids j))"
    using Cons.IH [OF 1(2)] by blast
  have "kvb_refs a2 j = max 0 (kvb_refs a j - int (count_list (i # ids) j))" if "kvb_in_range a j" for j
    using 2(5) [of j] 1(4) [OF that] that kvb_in_range_cong [OF 1(3)] by (auto simp: kvb_refs_def)
  then show ?case using 1 2 len by auto
qed

lemma kvb_free_set: "kvb_inv a \<Longrightarrow> {i \<in> {i. kvb_in_range a i}. kvb_refs a i = 0} = set (free_list a)"
  by (auto simp: kvb_inv_def kvb_refs_def)

lemma kvb_free_card: "kvb_inv a \<Longrightarrow> card (set (free_list a)) = length (free_list a)"
  by (simp add: kvb_inv_def distinct_card)

interpretation kvb_pool: block_pool kvb_inv "\<lambda>n. KVB_AllocateN (nat n)" kvb_release
  "\<lambda>a. {i. kvb_in_range a i}" kvb_refs
proof unfold_locales
  fix a n assume inv: "kvb_inv a"
  let ?r = "KVB_AllocateN (nat n) a"
  note P = kvb_pop_spec [OF inv, of "nat n" "fst (kvb_pop (nat n) a)" "snd (kvb_pop (nat n) a)"]
  note F = kvb_free_set [OF inv] kvb_free_card [OF inv]
  show "finite {i. kvb_in_range a i}" by (simp add: kvb_range_eq)
  show i: "kvb_inv (snd ?r)" using P inv by (auto simp: KVB_AllocateN_def)
  have nb: "kvb_num_blocks (snd ?r) = kvb_num_blocks a" using P by (auto simp: KVB_AllocateN_def)
  then show "{i. kvb_in_range (snd ?r) i} = {i. kvb_in_range a i}" by (simp add: kvb_in_range_def)
  show "fst ?r = [] \<and> (\<forall>i \<in> {i. kvb_in_range a i}. kvb_refs (snd ?r) i = kvb_refs a i)"
    if "n \<le> 0 \<or> int (card {i \<in> {i. kvb_in_range a i}. kvb_refs a i = 0}) < n"
    using that unfolding F by (auto simp: KVB_AllocateN_def)
  show "int (length (fst ?r)) = n \<and> distinct (fst ?r) \<and>
      set (fst ?r) \<subseteq> {i \<in> {i. kvb_in_range a i}. kvb_refs a i = 0} \<and>
      (\<forall>i \<in> {i. kvb_in_range a i}. kvb_refs (snd ?r) i = (if i \<in> set (fst ?r) then 1 else kvb_refs a i))"
    if "0 < n" "n \<le> int (card {i \<in> {i. kvb_in_range a i}. kvb_refs a i = 0})"
  proof -
    have le: "nat n \<le> length (free_list a)" using that unfolding F by simp
    then have r: "?r = kvb_pop (nat n) a" by (simp add: KVB_AllocateN_def)
    have Q: "int (length (fst ?r)) = n \<and> distinct (fst ?r) \<and> set (fst ?r) \<subseteq> set (free_list a) \<and>
        set (free_list (snd ?r)) = set (free_list a) - set (fst ?r)"
      using P [OF le] that(1) by (simp add: r)
    have c: "allocated b ! nat j \<longleftrightarrow> j \<notin> set (free_list b)" if "kvb_inv b" "kvb_in_range b j" for b j
      using that by (simp add: kvb_inv_def)
    have "kvb_refs (snd ?r) j = (if j \<in> set (fst ?r) then 1 else kvb_refs a j)" if j: "kvb_in_range a j" for j
      using Q c [OF i, of j] c [OF inv j] j kvb_in_range_cong [OF nb] by (auto simp: kvb_refs_def)
    then show ?thesis unfolding F(1) using Q by blast
  qed
next
  fix a ids i assume inv: "kvb_inv a"
  obtain m a' where R: "KVB_FreeN ids a = Some (m, a')" "kvb_inv a'" "kvb_num_blocks a' = kvb_num_blocks a"
    "\<And>j. kvb_in_range a j \<Longrightarrow> kvb_refs a' j = max 0 (kvb_refs a j - int (count_list ids j))"
    using KVB_FreeN_spec [OF inv, of ids] by blast
  show "0 \<le> kvb_refs a i" by (simp add: kvb_refs_def)
  show "kvb_inv (kvb_release ids a)" using R by (simp add: kvb_release_def)
  show "{i. kvb_in_range (kvb_release ids a) i} = {i. kvb_in_range a i}"
    using R by (simp add: kvb_release_def kvb_in_range_def)
  show "kvb_refs (kvb_release ids a) i = max 0 (kvb_refs a i - int (count_list ids i))"
    if "i \<in> {i. kvb_in_range a i}" using R that by (simp add: kvb_release_def)
qed

text \<open>The size of the arena, in wrapping arithmetic, or as the huge-page allocator reports it.\<close>

lemma KVBlockAllocator_arena_size:
  assumes "n \<noteq> 0" and "stride \<noteq> 0"
  shows "arena_size (KVBlockAllocator n stride algn node hugep strict out) =
    (if 0 \<le> node \<and> hugep \<and> hugepage_arena out \<noteq> 0 \<and> 0 < hugepage_bytes out then hugepage_bytes out else n * AlignUp stride algn)"
  using assms by (auto simp: KVBlockAllocator_def acquire_arena_def acquire_numa_def init_free_list_def Let_def)

text \<open>A release of any identifiers frees exactly those that are held, each of them once.\<close>

lemma kvb_refs_IsAllocated:
  "kvb_inv a \<Longrightarrow> kvb_in_range a i \<Longrightarrow> IsAllocated a i = Some (kvb_refs a i = 1)"
  using kvb_in_range_nat [of a i] by (auto simp: IsAllocated_def kvb_inv_def kvb_refs_def)

lemma KVB_FreeN_exact:
  assumes inv: "kvb_inv a" and L: "\<And>i. kvb_in_range a i \<Longrightarrow> kvb_refs a i = (if i \<in> L then 1 else 0)" and sub: "L \<subseteq> {i. kvb_in_range a i}"
  shows "\<exists>a'. KVB_FreeN ids a = Some (card (set ids \<inter> L), a') \<and> kvb_inv a' \<and>
    FreeCount a' = FreeCount a + card (set ids \<inter> L) \<and>
    (\<forall>i. kvb_in_range a i \<longrightarrow> IsAllocated a' i = Some (i \<in> L - set ids))"
proof -
  obtain n a' where R: "KVB_FreeN ids a = Some (n, a')" "kvb_inv a'" "kvb_num_blocks a' = kvb_num_blocks a"
    "n + length (free_list a) = length (free_list a')"
    "\<And>j. kvb_in_range a j \<Longrightarrow> kvb_refs a' j = max 0 (kvb_refs a j - int (count_list ids j))"
    using KVB_FreeN_spec [OF inv, of ids] by blast
  have r: "kvb_in_range a' = kvb_in_range a" by (rule kvb_in_range_cong [OF R(3)])
  have pos: "0 < count_list ids j \<longleftrightarrow> j \<in> set ids" for j by (metis bot_nat_0.not_eq_extremum count_list_0_iff)
  have refs: "kvb_refs a' j = (if j \<in> L - set ids then 1 else 0)" if "kvb_in_range a j" for j
    using R(5) [OF that] L [OF that] pos [of j] by (auto simp: max_def)
  have fin: "finite {i. kvb_in_range a i}" by (simp add: kvb_range_eq)
  have F: "set (free_list a) = {i. kvb_in_range a i} - L" "set (free_list a') = {i. kvb_in_range a i} - (L - set ids)"
    using L refs unfolding kvb_free_set [OF inv, symmetric] kvb_free_set [OF R(2), symmetric] r by auto
  have "{i. kvb_in_range a i} - (L - set ids) = ({i. kvb_in_range a i} - L) \<union> (set ids \<inter> L)" using sub by blast
  moreover have "card (({i. kvb_in_range a i} - L) \<union> (set ids \<inter> L)) = card ({i. kvb_in_range a i} - L) + card (set ids \<inter> L)"
    using fin by (intro card_Un_disjoint) auto
  ultimately have "length (free_list a') = length (free_list a) + card (set ids \<inter> L)"
    using kvb_free_card [OF inv] kvb_free_card [OF R(2)] F by simp
  then have n: "n = card (set ids \<inter> L)" using R(4) by simp
  then have "FreeCount a' = FreeCount a + card (set ids \<inter> L)" using R(4) by (simp add: FreeCount_def)
  moreover have "IsAllocated a' i = Some (i \<in> L - set ids)" if "kvb_in_range a i" for i
    using kvb_refs_IsAllocated [OF R(2)] refs [OF that] that by (simp add: r)
  ultimately show ?thesis using R(1,2) n by blast
qed

section \<open>Strides and addresses\<close>

lemma and_not_mask: "(x :: u64) AND NOT (mask k) = x - take_bit k x"
proof -
  have "x AND NOT (mask k) = x AND NOT (take_bit k x)" by (rule bit_word_eqI) (auto simp: bit_simps)
  also have "\<dots> = x - take_bit k x"
    by (rule disjunctive_diff_eq_and_not [symmetric], rule bit_word_eqI) (auto simp: bit_simps)
  finally show ?thesis .
qed

lemma AlignUp_eq:
  "AlignUp sz (2 ^ k) = (sz + 2 ^ k - 1) - take_bit k (sz + 2 ^ k - 1)"
  unfolding AlignUp_def mask_eq_exp_minus_1 [symmetric] and_not_mask ..

lemma uint_AlignUp:
  assumes "uint sz + 2 ^ k \<le> 2 ^ 64"
  shows "uint (AlignUp sz (2 ^ k)) = ((uint sz + 2 ^ k - 1) div 2 ^ k) * 2 ^ k"
proof -
  have nn: "0 \<le> uint sz + 2 ^ k - 1" using uint_nonnegative [of sz] by (simp add: add_nonneg_pos le_diff_eq add_increasing)
  have "sz + 2 ^ k - 1 = word_of_int (uint sz + 2 ^ k - 1)" by simp
  then have x: "uint (sz + 2 ^ k - 1) = uint sz + 2 ^ k - 1"
    using assms nn by (simp only: uint_word_of_int) simp
  have "uint (AlignUp sz (2 ^ k)) = uint ((sz + 2 ^ k - 1) - take_bit k (sz + 2 ^ k - 1))"
    by (simp add: AlignUp_eq)
  also have "\<dots> = uint (sz + 2 ^ k - 1) - uint (take_bit k (sz + 2 ^ k - 1))"
    by (rule uint_minus_simple_alt [THEN iffD1])
      (simp add: word_le_def unsigned_take_bit_eq take_bit_int_less_eq_self_iff)
  also have "\<dots> = (uint sz + 2 ^ k - 1) - (uint sz + 2 ^ k - 1) mod 2 ^ k"
    by (simp only: unsigned_take_bit_eq x) (simp only: take_bit_eq_mod)
  also have "\<dots> = ((uint sz + 2 ^ k - 1) div 2 ^ k) * 2 ^ k"
    by (simp add: minus_mod_eq_div_mult)
  finally show ?thesis .
qed

lemma AlignUp_bounds:
  assumes "uint sz + 2 ^ k \<le> 2 ^ 64"
  shows "uint sz \<le> uint (AlignUp sz (2 ^ k))" "uint (AlignUp sz (2 ^ k)) < uint sz + 2 ^ k"
    "2 ^ k dvd uint (AlignUp sz (2 ^ k))"
proof -
  have p: "(0 :: int) < 2 ^ k" by simp
  have e: "(uint sz + 2 ^ k - 1) sdiv 2 ^ k = (uint sz + 2 ^ k - 1) div 2 ^ k"
    using uint_nonnegative [of sz] p by (intro sdiv_nonneg) linarith+
  note c = ceil_div_bounds [OF uint_nonnegative [of sz] p, unfolded e]
  show "uint sz \<le> uint (AlignUp sz (2 ^ k))" "uint (AlignUp sz (2 ^ k)) < uint sz + 2 ^ k"
    using c by (simp_all only: uint_AlignUp [OF assms])
  show "2 ^ k dvd uint (AlignUp sz (2 ^ k))" by (simp only: uint_AlignUp [OF assms] dvd_triv_right)
qed

lemma uint_GetBlockPtr:
  assumes "kvb_in_range a i"
    and "uint (arena a) + uint (kvb_num_blocks a) * uint (block_stride a) < 2 ^ 64"
  shows "uint (GetBlockPtr a i) = uint (arena a) + i * uint (block_stride a)"
proof -
  have i: "0 \<le> i" "i < uint (kvb_num_blocks a)" using assms(1) by (auto simp: kvb_in_range_def)
  have "i * uint (block_stride a) \<le> uint (kvb_num_blocks a) * uint (block_stride a)"
    using i by (intro mult_right_mono) auto
  then have b: "0 \<le> uint (arena a) + i * uint (block_stride a)" "uint (arena a) + i * uint (block_stride a) < 2 ^ 64"
    using assms(2) i by simp_all
  have "GetBlockPtr a i = word_of_int (uint (arena a) + i * uint (block_stride a))"
    using assms(1) by (simp add: GetBlockPtr_def)
  then show ?thesis using b by (simp only: uint_word_of_int) simp
qed

end
