(* ===== verification/Request_Queue.thy ===== *)
theory Request_Queue
  imports Prelude
begin

text \<open>
  The request queues of \<^verbatim>\<open>core/include/densecore/runtime/lockfree_queue.h\<close>: the tagged pointer, the
  Michael-Scott style lock-free queue with its atomic accesses as single steps, and the
  mutex-protected tiered queue the engine uses. A client of either sees a service order; the locale
  \<open>service_queue\<close> states that contract and both queues are instances of it.
\<close>

unbundle bit_operations_syntax

section \<open>The contract\<close>

text \<open>
  \<open>rep q xs\<close>: the queue \<open>q\<close> will serve \<open>xs\<close>, in this order. A null pointer is \<open>None\<close>.
\<close>

locale service_queue =
  fixes rep :: "'q \<Rightarrow> 'a list \<Rightarrow> bool"
    and pop :: "'q \<Rightarrow> 'a option \<times> 'q"
  assumes pop_empty: "rep q [] \<Longrightarrow> fst (pop q) = None \<and> rep (snd (pop q)) []"
    and pop_first: "rep q (x # xs) \<Longrightarrow> fst (pop q) = Some x \<and> rep (snd (pop q)) xs"
begin

primrec drain :: "nat \<Rightarrow> 'q \<Rightarrow> 'a list \<times> 'q" where
  "drain 0 q = ([], q)"
| "drain (Suc n) q =
     (case pop q of (None, q') \<Rightarrow> ([], q') | (Some x, q') \<Rightarrow> let (xs, q'') = drain n q' in (x # xs, q''))"

lemma drain_serves: "rep q xs \<Longrightarrow> fst (drain n q) = take n xs \<and> rep (snd (drain n q)) (drop n xs)"
proof (induction n arbitrary: q xs)
  case (Suc n)
  show ?case
  proof (cases xs)
    case Nil
    then show ?thesis using pop_empty [of q] Suc.prems by (cases "pop q") (simp split: option.split)
  next
    case (Cons y ys)
    then have p: "fst (pop q) = Some y" "rep (snd (pop q)) ys" using pop_first Suc.prems by blast+
    obtain q' where e: "pop q = (Some y, q')" using p(1) by (cases "pop q") simp
    show ?thesis using Suc.IH [of q' ys] p(2) Cons by (simp add: e case_prod_unfold Let_def)
  qed
qed simp

end

section \<open>Tagged pointers\<close>


definition PTR_MASK :: u64 where "PTR_MASK = 0x0000FFFFFFFFFFFF"

definition SIGN_BITS :: u64 where "SIGN_BITS = 0xFFFF000000000000"

definition Pack :: "u64 \<Rightarrow> u16 \<Rightarrow> u64" where
  "Pack ptr tag = push_bit 48 (ucast tag) OR (ptr AND PTR_MASK)"

definition TP_Ptr :: "u64 \<Rightarrow> u64" where
  "TP_Ptr packed =
     (let addr = packed AND PTR_MASK
      in if addr AND push_bit 47 1 \<noteq> 0 then addr OR SIGN_BITS else addr)"

definition TP_Tag :: "u64 \<Rightarrow> u16" where
  "TP_Tag packed = ucast (drop_bit 48 packed)"

text \<open>A canonical x86-64 address: the upper 16 bits repeat bit 47.\<close>

definition canonical :: "u64 \<Rightarrow> bool" where
  "canonical a \<longleftrightarrow> (\<forall>i \<in> {48..<64}. bit a i = bit a 47)"

lemma bit_PTR_MASK [simp]: "bit PTR_MASK i \<longleftrightarrow> i < 48"
proof -
  have e: "PTR_MASK = mask 48" by (simp add: PTR_MASK_def mask_eq_exp_minus_1)
  show ?thesis unfolding e bit_mask_iff by auto
qed

lemma bit_SIGN_BITS [simp]: "bit SIGN_BITS i \<longleftrightarrow> 48 \<le> i \<and> i < 64"
proof -
  have e: "SIGN_BITS = push_bit 48 (mask 16)" by (simp add: SIGN_BITS_def mask_eq_exp_minus_1 push_bit_eq_mult)
  show ?thesis unfolding e bit_push_bit_iff bit_mask_iff by auto
qed

lemma bit_47_test: "(a :: u64) AND push_bit 47 1 \<noteq> 0 \<longleftrightarrow> bit a 47"
proof -
  have "bit (a AND push_bit 47 1) i \<longleftrightarrow> i = 47 \<and> bit a 47" for i
    by (simp only: bit_and_iff bit_push_bit_iff bit_1_iff) auto
  then show ?thesis by (metis bit_0_eq bot_apply bit_eqI bot_boolE)
qed

lemma TP_Tag_Pack [simp]: "TP_Tag (Pack p t) = t"
  by (rule bit_word_eqI) (auto simp: TP_Tag_def Pack_def bit_simps)

lemma TP_Ptr_Pack: "canonical p \<Longrightarrow> TP_Ptr (Pack p t) = p"
  unfolding TP_Ptr_def Let_def bit_47_test
  by (rule bit_word_eqI) (auto simp add: Pack_def bit_or_iff bit_and_iff bit_push_bit_iff canonical_def)

lemma canonical_low: "drop_bit 47 a = 0 \<Longrightarrow> canonical a"
proof -
  assume "drop_bit 47 a = 0"
  then have "\<not> bit a (47 + i)" for i using bit_drop_bit_eq [of 47 a] by (simp add: fun_eq_iff) 
  then have "\<not> bit a i" if "47 \<le> i" for i using that by (metis le_Suc_ex)
  then show ?thesis by (simp add: canonical_def)
qed

lemma canonical_TP_Ptr: "canonical (TP_Ptr p)"
  unfolding TP_Ptr_def Let_def bit_47_test canonical_def
  by (cases "bit p 47") (auto simp: bit_or_iff bit_and_iff)

lemma TP_Ptr_Pack_Ptr [simp]: "TP_Ptr (Pack (TP_Ptr p) t) = TP_Ptr p"
  by (rule TP_Ptr_Pack [OF canonical_TP_Ptr])

section \<open>The lock-free queue\<close>

text \<open>
  Nodes live in a store; an address without a node is unallocated or already freed. The head and the
  tail are tagged pointers. Each load, store and compare-and-swap of the code is one step of its
  thread, and the program counter carries the thread's locals. A step that dereferences an
  address without a node is a use after free, the result \<open>None\<close>. \<open>spurious\<close> is the freedom of
  \<^verbatim>\<open>compare_exchange_weak\<close> to fail.
\<close>

record 'a lf_node =
  node_data :: "'a option"
  node_next :: u64

record 'a lf_queue =
  lf_store :: "u64 \<rightharpoonup> 'a lf_node"
  lf_head :: u64
  lf_tail :: u64

definition LockFreeQueue :: "u64 \<Rightarrow> 'a lf_queue" where
  "LockFreeQueue dummy =
     \<lparr>lf_store = [dummy \<mapsto> \<lparr>node_data = None, node_next = Pack 0 0\<rparr>], lf_head = Pack dummy 0, lf_tail = Pack dummy 0\<rparr>"

definition new_node :: "u64 \<Rightarrow> 'a \<Rightarrow> 'a lf_queue \<Rightarrow> 'a lf_queue" where
  "new_node a x q = q\<lparr>lf_store := (lf_store q)(a \<mapsto> \<lparr>node_data = Some x, node_next = Pack 0 0\<rparr>)\<rparr>"

datatype push_pc = PushLoadTail | PushLoadNext u64 | PushCheck u64 u64 | PushLink u64 u64 | PushSwing u64 | PushHelp u64 u64 | PushReturn

fun push_step :: "bool \<Rightarrow> u64 \<Rightarrow> push_pc \<Rightarrow> 'a lf_queue \<Rightarrow> (push_pc \<times> 'a lf_queue) option" where
  "push_step spurious a PushLoadTail q = Some (PushLoadNext (lf_tail q), q)"
| "push_step spurious a (PushLoadNext tail) q =
     (case lf_store q (TP_Ptr tail) of None \<Rightarrow> None | Some n \<Rightarrow> Some (PushCheck tail (node_next n), q))"
| "push_step spurious a (PushCheck tail next) q =
     Some (if tail = lf_tail q then if TP_Ptr next = 0 then PushLink tail next else PushHelp tail next
           else PushLoadTail, q)"
| "push_step spurious a (PushLink tail next) q =
     (case lf_store q (TP_Ptr tail) of
        None \<Rightarrow> None
      | Some n \<Rightarrow>
          if \<not> spurious \<and> node_next n = next
          then Some (PushSwing tail, q\<lparr>lf_store := (lf_store q)(TP_Ptr tail \<mapsto> n\<lparr>node_next := Pack a (TP_Tag next + 1)\<rparr>)\<rparr>)
          else Some (PushLoadTail, q))"
| "push_step spurious a (PushSwing tail) q =
     Some (PushReturn, if lf_tail q = tail then q\<lparr>lf_tail := Pack a (TP_Tag tail + 1)\<rparr> else q)"
| "push_step spurious a (PushHelp tail next) q =
     Some (PushLoadTail, if lf_tail q = tail then q\<lparr>lf_tail := Pack (TP_Ptr next) (TP_Tag tail + 1)\<rparr> else q)"
| "push_step spurious a PushReturn q = Some (PushReturn, q)"

datatype 'a pop_pc = PopLoadHead | PopLoadTail u64 | PopLoadNext u64 u64 | PopCheck u64 u64 u64 | PopHelp u64 u64
  | PopRead u64 u64 | PopSwing u64 u64 "'a option" | PopDelete u64 "'a option" | PopReturn "'a option"

fun pop_step :: "bool \<Rightarrow> 'a pop_pc \<Rightarrow> 'a lf_queue \<Rightarrow> ('a pop_pc \<times> 'a lf_queue) option" where
  "pop_step spurious PopLoadHead q = Some (PopLoadTail (lf_head q), q)"
| "pop_step spurious (PopLoadTail head) q = Some (PopLoadNext head (lf_tail q), q)"
| "pop_step spurious (PopLoadNext head tail) q =
     (case lf_store q (TP_Ptr head) of None \<Rightarrow> None | Some n \<Rightarrow> Some (PopCheck head tail (node_next n), q))"
| "pop_step spurious (PopCheck head tail next) q =
     Some (if head = lf_head q then
             if TP_Ptr head = TP_Ptr tail then if TP_Ptr next = 0 then PopReturn None else PopHelp tail next
             else PopRead head next
           else PopLoadHead, q)"
| "pop_step spurious (PopHelp tail next) q =
     Some (PopLoadHead, if lf_tail q = tail then q\<lparr>lf_tail := Pack (TP_Ptr next) (TP_Tag tail + 1)\<rparr> else q)"
| "pop_step spurious (PopRead head next) q =
     (case lf_store q (TP_Ptr next) of None \<Rightarrow> None | Some n \<Rightarrow> Some (PopSwing head next (node_data n), q))"
| "pop_step spurious (PopSwing head next result) q =
     Some (if \<not> spurious \<and> lf_head q = head
           then (PopDelete head result, q\<lparr>lf_head := Pack (TP_Ptr next) (TP_Tag head + 1)\<rparr>)
           else (PopLoadHead, q))"
| "pop_step spurious (PopDelete head result) q = Some (PopReturn result, q\<lparr>lf_store := (lf_store q)(TP_Ptr head := None)\<rparr>)"
| "pop_step spurious (PopReturn result) q = Some (PopReturn result, q)"

definition LFQ_Empty :: "'a lf_queue \<Rightarrow> bool option" where
  "LFQ_Empty q =
     (case lf_store q (TP_Ptr (lf_head q)) of
        None \<Rightarrow> None
      | Some n \<Rightarrow> Some (TP_Ptr (lf_head q) = TP_Ptr (lf_tail q) \<and> TP_Ptr (node_next n) = 0))"

subsection \<open>A thread running alone\<close>

text \<open>
  Without interference and without spurious failures, nine steps complete a push and eleven a pop:
  at most one round of helping and one round of work.
\<close>

fun run_push :: "nat \<Rightarrow> u64 \<Rightarrow> push_pc \<Rightarrow> 'a lf_queue \<Rightarrow> 'a lf_queue option" where
  "run_push 0 a pc q = (if pc = PushReturn then Some q else None)"
| "run_push (Suc n) a pc q =
     (if pc = PushReturn then Some q
      else case push_step False a pc q of None \<Rightarrow> None | Some (pc', q') \<Rightarrow> run_push n a pc' q')"

definition LFQ_Push :: "u64 \<Rightarrow> 'a \<Rightarrow> 'a lf_queue \<Rightarrow> 'a lf_queue option" where
  "LFQ_Push a x q = run_push 9 a PushLoadTail (new_node a x q)"

fun run_pop :: "nat \<Rightarrow> 'a pop_pc \<Rightarrow> 'a lf_queue \<Rightarrow> ('a option \<times> 'a lf_queue) option" where
  "run_pop n (PopReturn r) q = Some (r, q)"
| "run_pop 0 pc q = None"
| "run_pop (Suc n) pc q = (case pop_step False pc q of None \<Rightarrow> None | Some (pc', q') \<Rightarrow> run_pop n pc' q')"

definition LFQ_Pop :: "'a lf_queue \<Rightarrow> ('a option \<times> 'a lf_queue) option" where
  "LFQ_Pop q = run_pop 12 PopLoadHead q"

text \<open>\<open>links\<close>: the nodes behind address \<open>a\<close>, up to the node without a successor.\<close>

fun links :: "(u64 \<rightharpoonup> 'a lf_node) \<Rightarrow> u64 \<Rightarrow> u64 list \<Rightarrow> bool" where
  "links h a [] = (\<exists>n. h a = Some n \<and> TP_Ptr (node_next n) = 0)"
| "links h a (b # bs) = (\<exists>n. h a = Some n \<and> TP_Ptr (node_next n) = b \<and> b \<noteq> 0 \<and> links h b bs)"

definition lf_rep :: "'a lf_queue \<Rightarrow> 'a list \<Rightarrow> bool" where
  "lf_rep q xs \<longleftrightarrow>
     (\<exists>as. links (lf_store q) (TP_Ptr (lf_head q)) as \<and> distinct (TP_Ptr (lf_head q) # as) \<and>
        map (\<lambda>b. node_data (the (lf_store q b))) as = map Some xs \<and>
        (TP_Ptr (lf_tail q) = last (TP_Ptr (lf_head q) # as) \<or>
         as \<noteq> [] \<and> TP_Ptr (lf_tail q) = last (TP_Ptr (lf_head q) # butlast as)))"

lemma links_store: "links h a as \<Longrightarrow> b \<in> set (a # as) \<Longrightarrow> h b \<noteq> None"
  by (induction as arbitrary: a) auto

lemma links_cong: "links h a as \<Longrightarrow> (\<And>b. b \<in> set (a # as) \<Longrightarrow> h' b = h b) \<Longrightarrow> links h' a as"
  by (induction as arbitrary: a) auto

lemma TP_Ptr_null [simp]: "TP_Ptr (Pack 0 t) = 0"
  by (rule TP_Ptr_Pack) (simp add: canonical_def)

lemma links_last: "links h a as \<Longrightarrow> \<exists>n. h (last (a # as)) = Some n \<and> TP_Ptr (node_next n) = 0"
  by (induction as arbitrary: a) auto

lemma links_before_last:
  "links h a as \<Longrightarrow> as \<noteq> [] \<Longrightarrow> \<exists>n. h (last (a # butlast as)) = Some n \<and> TP_Ptr (node_next n) = last as \<and> last as \<noteq> 0"
  by (induction as arbitrary: a) (auto split: if_splits)

lemma links_snoc:
  assumes "links h a as" "distinct (a # as)" "h (last (a # as)) = Some n" "TP_Ptr p = c" "c \<noteq> 0" "c \<notin> set (a # as)"
    "h' = h(last (a # as) \<mapsto> n\<lparr>node_next := p\<rparr>)" "h' c = Some m" "TP_Ptr (node_next m) = 0"
  shows "links h' a (as @ [c])"
  using assms(1-3,6,7)
proof (induction as arbitrary: a)
  case Nil
  then show ?case using assms(4,5,8,9) by simp
next
  case (Cons b bs)
  obtain k where k: "h a = Some k" "TP_Ptr (node_next k) = b" "b \<noteq> 0" "links h b bs" using Cons.prems(1) by auto
  have "last (a # b # bs) = last (b # bs)" by simp
  then have "links h' b (bs @ [c])" using Cons.IH [OF k(4)] Cons.prems by simp
  moreover have "h' a = Some k"
  proof -
    have "last (b # bs) \<in> set (b # bs)" by (rule last_in_set) simp
    then have "a \<noteq> last (a # b # bs)" using Cons.prems(2) by auto
    then show ?thesis using Cons.prems(5) k(1) by simp
  qed
  ultimately show ?case using k(2,3) by simp
qed

lemma push_at_end:
  assumes "lf_store q (TP_Ptr (lf_tail q)) = Some n" "TP_Ptr (node_next n) = 0"
  shows "run_push (k + 5) a PushLoadTail q =
    Some (q\<lparr>lf_store := (lf_store q)(TP_Ptr (lf_tail q) \<mapsto> n\<lparr>node_next := Pack a (TP_Tag (node_next n) + 1)\<rparr>),
            lf_tail := Pack a (TP_Tag (lf_tail q) + 1)\<rparr>)"
  using assms by (cases k) (simp_all add: numeral_eq_Suc)

lemma push_helping:
  assumes "lf_store q (TP_Ptr (lf_tail q)) = Some n" "TP_Ptr (node_next n) \<noteq> 0"
  shows "run_push (k + 4) a PushLoadTail q =
    run_push k a PushLoadTail (q\<lparr>lf_tail := Pack (TP_Ptr (node_next n)) (TP_Tag (lf_tail q) + 1)\<rparr>)"
  using assms by (simp add: numeral_eq_Suc)

lemma push_end_rep:
  assumes l: "links (lf_store q) (TP_Ptr (lf_head q)) as" and d: "distinct (TP_Ptr (lf_head q) # as)"
    and v: "map (\<lambda>b. node_data (the (lf_store q b))) as = map Some xs" and t: "TP_Ptr (lf_tail q) = last (TP_Ptr (lf_head q) # as)"
    and a: "canonical a" "a \<noteq> 0" "a \<notin> set (TP_Ptr (lf_head q) # as)"
    and m: "lf_store q a = Some \<lparr>node_data = Some x, node_next = Pack 0 0\<rparr>"
  shows "\<exists>q'. run_push (k + 5) a PushLoadTail q = Some q' \<and> lf_rep q' (xs @ [x])"
proof -
  let ?h = "TP_Ptr (lf_head q)" and ?e = "last (TP_Ptr (lf_head q) # as)"
  obtain n where n: "lf_store q ?e = Some n" "TP_Ptr (node_next n) = 0" using links_last [OF l] by blast
  define q' where "q' = q\<lparr>lf_store := (lf_store q)(?e \<mapsto> n\<lparr>node_next := Pack a (TP_Tag (node_next n) + 1)\<rparr>), lf_tail := Pack a (TP_Tag (lf_tail q) + 1)\<rparr>"
  have run: "run_push (k + 5) a PushLoadTail q = Some q'" using push_at_end [of q n k a] n t by (simp add: q'_def)
  have e: "?e \<in> set (?h # as)" by (rule last_in_set) simp
  have ea: "?e \<noteq> a" using e a(3) by metis
  have "links (lf_store q') ?h (as @ [a])"
  proof (rule links_snoc [OF l d n(1) TP_Ptr_Pack [OF a(1)] a(2,3)])
    show "lf_store q' = (lf_store q)(?e \<mapsto> n\<lparr>node_next := Pack a (TP_Tag (node_next n) + 1)\<rparr>)" by (simp add: q'_def)
    show "lf_store q' a = Some \<lparr>node_data = Some x, node_next = Pack 0 0\<rparr>" using m ea by (simp add: q'_def)
  qed simp
  moreover have "map (\<lambda>b. node_data (the (lf_store q' b))) as = map (\<lambda>b. node_data (the (lf_store q b))) as"
    using n(1) by (auto simp: q'_def split: if_splits)
  then have "map (\<lambda>b. node_data (the (lf_store q' b))) (as @ [a]) = map Some (xs @ [x])" using v m ea by (simp add: q'_def)
  moreover have "lf_head q' = lf_head q" "TP_Ptr (lf_tail q') = a" using a(1) by (simp_all add: q'_def TP_Ptr_Pack)
  ultimately have "lf_rep q' (xs @ [x])" unfolding lf_rep_def using d a(3) by (intro exI [of _ "as @ [a]"]) auto
  then show ?thesis using run by blast
qed

text \<open>A push by a thread running alone appends, also when it finds the tail lagging.\<close>

lemma LFQ_Push_rep:
  assumes r: "lf_rep q xs" and a: "canonical a" "a \<noteq> 0" "lf_store q a = None"
  shows "\<exists>q'. LFQ_Push a x q = Some q' \<and> lf_rep q' (xs @ [x])"
proof -
  obtain as where l: "links (lf_store q) (TP_Ptr (lf_head q)) as" and d: "distinct (TP_Ptr (lf_head q) # as)"
    and v: "map (\<lambda>b. node_data (the (lf_store q b))) as = map Some xs"
    and t: "TP_Ptr (lf_tail q) = last (TP_Ptr (lf_head q) # as) \<or> as \<noteq> [] \<and> TP_Ptr (lf_tail q) = last (TP_Ptr (lf_head q) # butlast as)"
    using r unfolding lf_rep_def by blast
  have new: "a \<notin> set (TP_Ptr (lf_head q) # as)" using links_store [OF l] a(3) by blast
  let ?q = "new_node a x q"
  have s: "lf_store ?q b = lf_store q b" if "b \<in> set (TP_Ptr (lf_head q) # as)" for b using that new by (auto simp: new_node_def)
  have hd: "lf_head ?q = lf_head q" "lf_tail ?q = lf_tail q" "lf_store ?q a = Some \<lparr>node_data = Some x, node_next = Pack 0 0\<rparr>" by (simp_all add: new_node_def)
  have l': "links (lf_store ?q) (TP_Ptr (lf_head ?q)) as" using links_cong [OF l s] hd by simp
  have v': "map (\<lambda>b. node_data (the (lf_store ?q b))) as = map Some xs"
  proof -
    have "map (\<lambda>b. node_data (the (lf_store ?q b))) as = map (\<lambda>b. node_data (the (lf_store q b))) as" using s by simp
    then show ?thesis using v by simp
  qed
  show ?thesis
  proof (cases "TP_Ptr (lf_tail q) = last (TP_Ptr (lf_head q) # as)")
    case True
    have "\<exists>q'. run_push (4 + 5) a PushLoadTail ?q = Some q' \<and> lf_rep q' (xs @ [x])"
      by (rule push_end_rep [OF l' _ v' _ a(1,2)]) (use d True new hd in simp_all)
    then show ?thesis by (simp add: LFQ_Push_def)
  next
    case False
    then have t': "as \<noteq> []" "TP_Ptr (lf_tail ?q) = last (TP_Ptr (lf_head ?q) # butlast as)" using t hd by auto
    obtain n where n: "lf_store ?q (TP_Ptr (lf_tail ?q)) = Some n" "TP_Ptr (node_next n) = last as" "last as \<noteq> 0"
      using links_before_last [OF l' t'(1)] t'(2) by auto
    let ?q2 = "?q\<lparr>lf_tail := Pack (TP_Ptr (node_next n)) (TP_Tag (lf_tail ?q) + 1)\<rparr>"
    have hlp: "run_push (5 + 4) a PushLoadTail ?q = run_push 5 a PushLoadTail ?q2" using push_helping [OF n(1), of 5 a] n(2,3) by simp
    have "\<exists>q'. run_push (0 + 5) a PushLoadTail ?q2 = Some q' \<and> lf_rep q' (xs @ [x])"
    proof (rule push_end_rep [where as = as, OF _ _ _ _ a(1,2)])
      show "TP_Ptr (lf_tail ?q2) = last (TP_Ptr (lf_head ?q2) # as)" using t'(1) by (simp flip: n(2))
    qed (use l' v' d new hd in simp_all)
    then show ?thesis using hlp by (simp add: LFQ_Push_def)
  qed
qed

lemma pop_nothing:
  assumes "lf_store q (TP_Ptr (lf_head q)) = Some n" "TP_Ptr (lf_head q) = TP_Ptr (lf_tail q)" "TP_Ptr (node_next n) = 0"
  shows "run_pop (k + 4) PopLoadHead q = Some (None, q)"
  using assms by (simp add: numeral_eq_Suc)

lemma pop_helping:
  assumes "lf_store q (TP_Ptr (lf_head q)) = Some n" "TP_Ptr (lf_head q) = TP_Ptr (lf_tail q)" "TP_Ptr (node_next n) \<noteq> 0"
  shows "run_pop (k + 5) PopLoadHead q =
    run_pop k PopLoadHead (q\<lparr>lf_tail := Pack (TP_Ptr (node_next n)) (TP_Tag (lf_tail q) + 1)\<rparr>)"
  using assms by (simp add: numeral_eq_Suc)

lemma pop_work:
  assumes "lf_store q (TP_Ptr (lf_head q)) = Some n" "TP_Ptr (lf_head q) \<noteq> TP_Ptr (lf_tail q)" "lf_store q (TP_Ptr (node_next n)) = Some m"
  shows "run_pop (k + 7) PopLoadHead q =
    Some (node_data m, q\<lparr>lf_head := Pack (TP_Ptr (node_next n)) (TP_Tag (lf_head q) + 1), lf_store := (lf_store q)(TP_Ptr (lf_head q) := None)\<rparr>)"
  using assms by (simp add: numeral_eq_Suc)

lemma pop_work_rep:
  assumes l: "links (lf_store q) (TP_Ptr (lf_head q)) (b # bs)" and d: "distinct (TP_Ptr (lf_head q) # b # bs)"
    and v: "map (\<lambda>b. node_data (the (lf_store q b))) (b # bs) = map Some (x # xs)"
    and t: "TP_Ptr (lf_tail q) = last (b # bs) \<or> bs \<noteq> [] \<and> TP_Ptr (lf_tail q) = last (b # butlast bs)"
  shows "\<exists>q'. run_pop (k + 7) PopLoadHead q = Some (Some x, q') \<and> lf_rep q' xs"
proof -
  let ?h = "TP_Ptr (lf_head q)"
  obtain n where n: "lf_store q ?h = Some n" "TP_Ptr (node_next n) = b" "links (lf_store q) b bs" using l by auto
  obtain m where m: "lf_store q b = Some m" using links_store [OF l, of b] by auto
  have "TP_Ptr (lf_tail q) \<in> set (b # bs)"
    using t last_in_set [of "b # bs"] last_in_set [of "b # butlast bs"] in_set_butlastD by fastforce
  then have ne: "?h \<noteq> TP_Ptr (lf_tail q)" using d by auto
  define q' where "q' = q\<lparr>lf_head := Pack b (TP_Tag (lf_head q) + 1), lf_store := (lf_store q)(?h := None)\<rparr>"
  have run: "run_pop (k + 7) PopLoadHead q = Some (node_data m, q')" using pop_work [OF n(1) ne, of m k] m n(2) by (simp add: q'_def)
  have hb: "TP_Ptr (lf_head q') = b" using n(2) by (auto simp: q'_def)
  have same: "lf_store q' c = lf_store q c" if "c \<in> set (b # bs)" for c using that d by (auto simp: q'_def)
  have "links (lf_store q') b bs" by (rule links_cong [OF n(3) same])
  moreover have "map (\<lambda>b. node_data (the (lf_store q' b))) bs = map Some xs"
  proof -
    have "map (\<lambda>b. node_data (the (lf_store q' b))) bs = map (\<lambda>b. node_data (the (lf_store q b))) bs"
      by (rule map_cong) (simp_all add: same)
    then show ?thesis using v by (simp only: list.map list.inject)
  qed
  moreover have "TP_Ptr (lf_tail q') = TP_Ptr (lf_tail q)" by (simp add: q'_def)
  ultimately have "lf_rep q' xs" unfolding lf_rep_def hb using d t by (intro exI [of _ bs]) simp
  moreover have "node_data m = Some x" using v m by simp
  ultimately show ?thesis using run by auto
qed

lemma LFQ_Pop_rep:
  assumes r: "lf_rep q xs"
  shows "\<exists>q'. LFQ_Pop q = Some (case xs of [] \<Rightarrow> None | x # _ \<Rightarrow> Some x, q') \<and> lf_rep q' (tl xs)"
proof -
  let ?h = "TP_Ptr (lf_head q)"
  obtain as where l: "links (lf_store q) ?h as" and d: "distinct (?h # as)"
    and v: "map (\<lambda>b. node_data (the (lf_store q b))) as = map Some xs"
    and t: "TP_Ptr (lf_tail q) = last (?h # as) \<or> as \<noteq> [] \<and> TP_Ptr (lf_tail q) = last (?h # butlast as)"
    using r unfolding lf_rep_def by blast
  show ?thesis
  proof (cases as)
    case Nil
    then have xs: "xs = []" and tl: "?h = TP_Ptr (lf_tail q)" using v t by simp_all
    obtain n where "lf_store q ?h = Some n" "TP_Ptr (node_next n) = 0" using l Nil by auto
    then have "run_pop (8 + 4) PopLoadHead q = Some (None, q)" using pop_nothing [of q n 8] tl by blast
    then show ?thesis using r xs by (simp add: LFQ_Pop_def)
  next
    case (Cons b bs)
    obtain x ys where xs: "xs = x # ys" using v Cons by (cases xs) auto
    have lc: "links (lf_store q) ?h (b # bs)" and dc: "distinct (?h # b # bs)"
      and vc: "map (\<lambda>b. node_data (the (lf_store q b))) (b # bs) = map Some (x # ys)" using l d v Cons xs by simp_all
    show ?thesis
    proof (cases "?h = TP_Ptr (lf_tail q)")
      case False
      have "TP_Ptr (lf_tail q) = last (b # bs) \<or> bs \<noteq> [] \<and> TP_Ptr (lf_tail q) = last (b # butlast bs)"
        using t False Cons by (auto split: if_splits)
      then have "\<exists>q'. run_pop (5 + 7) PopLoadHead q = Some (Some x, q') \<and> lf_rep q' ys" by (rule pop_work_rep [OF lc dc vc])
      then show ?thesis using xs by (simp add: LFQ_Pop_def)
    next
      case True
      have bs: "bs = []"
      proof (rule ccontr)
        assume "bs \<noteq> []"
        then have "TP_Ptr (lf_tail q) \<in> set (b # bs)"
          using t Cons last_in_set [of "b # bs"] last_in_set [of "b # butlast bs"] in_set_butlastD by fastforce
        then show False using True dc by auto
      qed
      obtain n where n: "lf_store q ?h = Some n" "TP_Ptr (node_next n) = b" "b \<noteq> 0" using lc by auto
      let ?q = "q\<lparr>lf_tail := Pack b (TP_Tag (lf_tail q) + 1)\<rparr>"
      have hlp: "run_pop (7 + 5) PopLoadHead q = run_pop 7 PopLoadHead ?q" using pop_helping [OF n(1) True, of 7] n(2,3) by simp
      have "TP_Ptr (lf_tail ?q) = b" using n(2) by auto
      then have "\<exists>q'. run_pop (0 + 7) PopLoadHead ?q = Some (Some x, q') \<and> lf_rep q' ys"
        by (intro pop_work_rep [of ?q b bs]) (use lc dc vc bs in simp_all)
      then show ?thesis using hlp xs by (simp add: LFQ_Pop_def)
    qed
  qed
qed

lemma LockFreeQueue_rep: "canonical dummy \<Longrightarrow> lf_rep (LockFreeQueue dummy) []"
  unfolding lf_rep_def by (intro exI [of _ "[]"]) (simp add: LockFreeQueue_def TP_Ptr_Pack)

interpretation lfq: service_queue lf_rep "\<lambda>q. the (LFQ_Pop q)"
proof
  show "fst (the (LFQ_Pop q)) = None \<and> lf_rep (snd (the (LFQ_Pop q))) []" if "lf_rep q []" for q :: "'a lf_queue"
    using LFQ_Pop_rep [OF that] by auto
  show "fst (the (LFQ_Pop q)) = Some x \<and> lf_rep (snd (the (LFQ_Pop q))) xs" if "lf_rep q (x # xs)" for q :: "'a lf_queue" and x xs
    using LFQ_Pop_rep [OF that] by auto
qed

subsection \<open>Two producers and the consumer\<close>

text \<open>
  The system of the documented threading contract, with two producers and one consumer. A producer
  allocates its node first. \<open>Fault\<close> names the thread that dereferenced a freed node.
\<close>

datatype lf_thread = Producer1 | Producer2 | Consumer

record 'a lf_system =
  sys_queue :: "'a lf_queue"
  producer1 :: "u64 \<times> push_pc"
  producer2 :: "u64 \<times> push_pc"
  consumer :: "'a pop_pc"

fun lf_sched :: "lf_thread list \<Rightarrow> 'a lf_system \<Rightarrow> lf_thread + 'a lf_system" where
  "lf_sched [] s = Inr s"
| "lf_sched (Producer1 # ts) s =
     (case push_step False (fst (producer1 s)) (snd (producer1 s)) (sys_queue s) of
        None \<Rightarrow> Inl Producer1
      | Some (pc, q) \<Rightarrow> lf_sched ts (s\<lparr>sys_queue := q, producer1 := (fst (producer1 s), pc)\<rparr>))"
| "lf_sched (Producer2 # ts) s =
     (case push_step False (fst (producer2 s)) (snd (producer2 s)) (sys_queue s) of
        None \<Rightarrow> Inl Producer2
      | Some (pc, q) \<Rightarrow> lf_sched ts (s\<lparr>sys_queue := q, producer2 := (fst (producer2 s), pc)\<rparr>))"
| "lf_sched (Consumer # ts) s =
     (case pop_step False (consumer s) (sys_queue s) of
        None \<Rightarrow> Inl Consumer
      | Some (pc, q) \<Rightarrow> lf_sched ts (s\<lparr>sys_queue := q, consumer := pc\<rparr>))"

definition lf_start :: "u64 \<Rightarrow> u64 \<Rightarrow> u64 \<Rightarrow> 'a \<Rightarrow> 'a \<Rightarrow> 'a lf_system" where
  "lf_start dummy a b x y =
     \<lparr>sys_queue = new_node b y (new_node a x (LockFreeQueue dummy)), producer1 = (a, PushLoadTail), producer2 = (b, PushLoadTail),
      consumer = PopLoadHead\<rparr>"

section \<open>The tiered queue\<close>

text \<open>Every method holds the mutex. The size counter is a \<^verbatim>\<open>size_t\<close>.\<close>

record 'a sharded_queue =
  premium :: "'a list"
  standard :: "'a list"
  batch :: "'a list"
  sq_size :: u64

definition ShardedPriorityQueue :: "'a sharded_queue" where
  "ShardedPriorityQueue = \<lparr>premium = [], standard = [], batch = [], sq_size = 0\<rparr>"

definition SPQ_Push :: "'a \<Rightarrow> string \<Rightarrow> 'a sharded_queue \<Rightarrow> 'a sharded_queue" where
  "SPQ_Push item tier q =
     (let q' = (if tier = ''premium'' then q\<lparr>premium := premium q @ [item]\<rparr>
                else if tier = ''batch'' then q\<lparr>batch := batch q @ [item]\<rparr>
                else q\<lparr>standard := standard q @ [item]\<rparr>)
      in q'\<lparr>sq_size := sq_size q' + 1\<rparr>)"

definition SPQ_Pop :: "'a sharded_queue \<Rightarrow> 'a option \<times> 'a sharded_queue" where
  "SPQ_Pop q =
     (case premium q of
        x # xs \<Rightarrow> (Some x, q\<lparr>premium := xs, sq_size := sq_size q - 1\<rparr>)
      | [] \<Rightarrow> case standard q of
          x # xs \<Rightarrow> (Some x, q\<lparr>standard := xs, sq_size := sq_size q - 1\<rparr>)
        | [] \<Rightarrow> case batch q of
            x # xs \<Rightarrow> (Some x, q\<lparr>batch := xs, sq_size := sq_size q - 1\<rparr>)
          | [] \<Rightarrow> (None, q))"

fun remove_first :: "('a \<Rightarrow> bool) \<Rightarrow> 'a list \<Rightarrow> 'a list" where
  "remove_first P [] = []"
| "remove_first P (x # xs) = (if P x then xs else x # remove_first P xs)"

definition PopMatching :: "('a \<Rightarrow> bool) \<Rightarrow> 'a sharded_queue \<Rightarrow> 'a option \<times> 'a sharded_queue" where
  "PopMatching matches q =
     (case find matches (premium q) of
        Some x \<Rightarrow> (Some x, q\<lparr>premium := remove_first matches (premium q), sq_size := sq_size q - 1\<rparr>)
      | None \<Rightarrow> case find matches (standard q) of
          Some x \<Rightarrow> (Some x, q\<lparr>standard := remove_first matches (standard q), sq_size := sq_size q - 1\<rparr>)
        | None \<Rightarrow> case find matches (batch q) of
            Some x \<Rightarrow> (Some x, q\<lparr>batch := remove_first matches (batch q), sq_size := sq_size q - 1\<rparr>)
          | None \<Rightarrow> (None, q))"

definition SPQ_Empty :: "'a sharded_queue \<Rightarrow> bool" where
  "SPQ_Empty q \<longleftrightarrow> premium q = [] \<and> standard q = [] \<and> batch q = []"

definition SPQ_Size :: "'a sharded_queue \<Rightarrow> u64" where
  "SPQ_Size q = sq_size q"

text \<open>\<open>spq_rep\<close>: the service order is the tiers one after the other, and the counter counts them.\<close>

definition spq_rep :: "'a sharded_queue \<Rightarrow> 'a list \<Rightarrow> bool" where
  "spq_rep q xs \<longleftrightarrow> xs = premium q @ standard q @ batch q \<and> sq_size q = of_nat (length xs)"

lemma SPQ_Push_rep:
  assumes "spq_rep q xs"
  shows "\<exists>ys. spq_rep (SPQ_Push x tier q) ys \<and> mset ys = add_mset x (mset xs)"
  using assms by (auto simp: spq_rep_def SPQ_Push_def Let_def)

lemma find_remove_first: "find P xs = Some x \<Longrightarrow> \<exists>us vs. xs = us @ x # vs \<and> P x \<and> (\<forall>u \<in> set us. \<not> P u) \<and> remove_first P xs = us @ vs"
proof (induction xs)
  case (Cons y ys)
  show ?case
  proof (cases "P y")
    case True
    then show ?thesis using Cons.prems by (intro exI [of _ "[]"] exI [of _ ys]) simp
  next
    case False
    then obtain us vs where "ys = us @ x # vs" "P x" "\<forall>u \<in> set us. \<not> P u" "remove_first P ys = us @ vs" using Cons by auto
    then show ?thesis using False by (intro exI [of _ "y # us"] exI [of _ vs]) simp
  qed
qed simp

definition matching_spec :: "('a \<Rightarrow> bool) \<Rightarrow> 'a list \<Rightarrow> 'a sharded_queue \<Rightarrow> 'a option \<times> 'a sharded_queue \<Rightarrow> bool" where
  "matching_spec P xs q r \<longleftrightarrow>
     (case r of
        (None, q') \<Rightarrow> q' = q \<and> (\<forall>y \<in> set xs. \<not> P y)
      | (Some x, q') \<Rightarrow> \<exists>us vs. xs = us @ x # vs \<and> P x \<and> (\<forall>u \<in> set us. \<not> P u) \<and> spq_rep q' (us @ vs))"

lemma matching_hit:
  "r = (Some x, q') \<Longrightarrow> xs = us @ x # vs \<Longrightarrow> P x \<Longrightarrow> (\<And>u. u \<in> set us \<Longrightarrow> \<not> P u) \<Longrightarrow> spq_rep q' (us @ vs) \<Longrightarrow> matching_spec P xs q r"
  unfolding matching_spec_def by auto

lemma PopMatching_rep:
  assumes r: "spq_rep q xs"
  shows "matching_spec P xs q (PopMatching P q)"
proof (cases "find P (premium q)")
  case (Some x)
  obtain us vs where u: "premium q = us @ x # vs" "P x" "\<forall>u \<in> set us. \<not> P u" "remove_first P (premium q) = us @ vs"
    using find_remove_first [OF Some] by blast
  have e: "PopMatching P q = (Some x, q\<lparr>premium := us @ vs, sq_size := sq_size q - 1\<rparr>)" using Some u(4) by (simp add: PopMatching_def)
  show ?thesis using r u by (intro matching_hit [OF e, where us = us and vs = "vs @ standard q @ batch q"]) (simp_all add: spq_rep_def)
next
  case p: None
  then have np: "\<forall>y \<in> set (premium q). \<not> P y" by (simp add: find_None_iff)
  show ?thesis
  proof (cases "find P (standard q)")
    case (Some x)
    obtain us vs where u: "standard q = us @ x # vs" "P x" "\<forall>u \<in> set us. \<not> P u" "remove_first P (standard q) = us @ vs"
      using find_remove_first [OF Some] by blast
    have e: "PopMatching P q = (Some x, q\<lparr>standard := us @ vs, sq_size := sq_size q - 1\<rparr>)" using Some p u(4) by (simp add: PopMatching_def)
    show ?thesis using r u np by (intro matching_hit [OF e, where us = "premium q @ us" and vs = "vs @ batch q"]) (auto simp: spq_rep_def)
  next
    case st: None
    then have ns: "\<forall>y \<in> set (standard q). \<not> P y" by (simp add: find_None_iff)
    show ?thesis
    proof (cases "find P (batch q)")
      case (Some x)
      obtain us vs where u: "batch q = us @ x # vs" "P x" "\<forall>u \<in> set us. \<not> P u" "remove_first P (batch q) = us @ vs"
        using find_remove_first [OF Some] by blast
      have e: "PopMatching P q = (Some x, q\<lparr>batch := us @ vs, sq_size := sq_size q - 1\<rparr>)" using Some p st u(4) by (simp add: PopMatching_def)
      show ?thesis using r u np ns by (intro matching_hit [OF e, where us = "premium q @ standard q @ us" and vs = vs]) (auto simp: spq_rep_def)
    next
      case None
      then have "PopMatching P q = (None, q)" using p st by (simp add: PopMatching_def)
      then show ?thesis using r None np ns by (auto simp: spq_rep_def find_None_iff matching_spec_def)
    qed
  qed
qed

interpretation spq: service_queue spq_rep SPQ_Pop
proof
  show "fst (SPQ_Pop q) = None \<and> spq_rep (snd (SPQ_Pop q)) []" if "spq_rep q []" for q :: "'a sharded_queue"
    using that by (simp add: spq_rep_def SPQ_Pop_def)
  show "fst (SPQ_Pop q) = Some x \<and> spq_rep (snd (SPQ_Pop q)) xs" if "spq_rep q (x # xs)" for q :: "'a sharded_queue" and x xs
    using that by (cases "premium q"; cases "standard q"; cases "batch q") (auto simp: spq_rep_def SPQ_Pop_def)
qed

section \<open>Properties\<close>

text \<open>The tag and the pointer of a packed word come back unchanged for every canonical x86-64 address, user or kernel half,
  and every 16-bit tag; so a compare-and-swap on the packed word compares both.\<close>

theorem tagged_pointer_roundtrip:
  assumes "canonical p"
  shows "TP_Ptr (Pack p t) = p \<and> TP_Tag (Pack p t) = t"
  using assms by (simp add: TP_Ptr_Pack)

theorem tagged_pointer_roundtrip_witness:
  "TP_Ptr (Pack 0xFFFF800000001000 0xFFFF) = 0xFFFF800000001000 \<and> TP_Tag (Pack 0xFFFF800000001000 0xFFFF) = 0xFFFF"
  by (rule tagged_pointer_roundtrip) code_simp

text \<open>C18: A thread that runs alone completes every operation of the lock-free queue within a bounded number of steps and without
  touching freed memory, also when it finds the tail lagging: a push appends, and pops serve the items first in, first out.\<close>

theorem lockfree_sequential_fifo:
  assumes "lf_rep q xs" and "canonical a" and "a \<noteq> 0" and "lf_store q a = None"
  shows "\<exists>q'. LFQ_Push a x q = Some q' \<and> lf_rep q' (xs @ [x]) \<and>
    (\<forall>n. fst (lfq.drain n q') = take n (xs @ [x]))"
  using LFQ_Push_rep [OF assms] lfq.drain_serves by blast

theorem lockfree_sequential_fifo_witness:
  "\<exists>q'. LFQ_Push 64 (7 :: int) (LockFreeQueue 128) = Some q' \<and> fst (lfq.drain 1 q') = [7]"
proof -
  have c: "canonical 64" "canonical 128" by (rule canonical_low, simp)+
  have "lf_store (LockFreeQueue 128) 64 = (None :: int lf_node option)" by (simp add: LockFreeQueue_def)
  from lockfree_sequential_fifo [OF LockFreeQueue_rep [OF c(2)] c(1) _ this, of 7]
  obtain q' where q': "LFQ_Push 64 (7 :: int) (LockFreeQueue 128) = Some q'" "\<forall>n. fst (lfq.drain n q') = take n [7]" by auto
  have "fst (lfq.drain 1 q') = [7]" using spec [OF q'(2), of 1] by (simp only: One_nat_def take_Suc_Cons take0)
  then show ?thesis using q'(1) by blast
qed

text \<open>C19: The lock-free queue is not memory safe under its own threading contract. With two producers and one consumer there is
  an interleaving in which a producer that has read the tail is overtaken: the other producer appends, the consumer dequeues and
  deletes the node, and the first producer then dereferences the deleted node. The tags do not prevent it.\<close>

theorem lockfree_use_after_free:
  assumes "canonical d" "canonical a" "canonical b" and "distinct [0, d, a, b]"
  shows "lf_sched ([Producer1] @ replicate 5 Producer2 @ replicate 7 Consumer @ [Producer1]) (lf_start d a b x y) = Inl Producer1"
  using assms by (simp add: numeral_eq_Suc lf_start_def new_node_def LockFreeQueue_def TP_Ptr_Pack)

theorem lockfree_use_after_free_witness:
  "lf_sched ([Producer1] @ replicate 5 Producer2 @ replicate 7 Consumer @ [Producer1]) (lf_start 64 128 192 (1 :: int) 2) = Inl Producer1"
  by (rule lockfree_use_after_free; (rule canonical_low)?) simp_all

text \<open>The tiered queue serves every premium item before every standard item before every batch item, first in first out
  within a tier, and loses and invents nothing; its size counter is the number of queued items.\<close>

theorem sharded_queue_service_order:
  assumes "spq_rep q xs"
  shows "fst (spq.drain (length xs) q) = premium q @ standard q @ batch q \<and> SPQ_Size q = of_nat (length xs) \<and>
    (\<exists>ys. spq_rep (SPQ_Push x tier q) ys \<and> mset ys = add_mset x (mset xs) \<and>
       ys = (if tier = ''premium'' then premium q @ x # standard q @ batch q
             else if tier = ''batch'' then premium q @ standard q @ batch q @ [x]
             else premium q @ standard q @ x # batch q))"
proof -
  have "fst (spq.drain (length xs) q) = xs" using spq.drain_serves [OF assms, of "length xs"] by simp
  moreover have "\<exists>ys. spq_rep (SPQ_Push x tier q) ys \<and> mset ys = add_mset x (mset xs) \<and>
       ys = (if tier = ''premium'' then premium q @ x # standard q @ batch q
             else if tier = ''batch'' then premium q @ standard q @ batch q @ [x]
             else premium q @ standard q @ x # batch q)"
    using assms by (auto simp: spq_rep_def SPQ_Push_def Let_def)
  moreover have "SPQ_Size q = of_nat (length xs)" "xs = premium q @ standard q @ batch q" using assms by (simp_all add: spq_rep_def SPQ_Size_def)
  ultimately show ?thesis by (intro conjI) (blast | simp only:)+
qed

theorem sharded_queue_service_order_witness:
  "fst (spq.drain 3 (SPQ_Push 3 ''premium'' (SPQ_Push 2 ''standard'' (SPQ_Push (1 :: int) ''batch'' ShardedPriorityQueue)))) = [3, 2, 1]"
proof -
  let ?q = "SPQ_Push 3 ''premium'' (SPQ_Push 2 ''standard'' (SPQ_Push (1 :: int) ''batch'' ShardedPriorityQueue))"
  have "spq_rep ?q [3, 2, 1]" by (simp add: spq_rep_def SPQ_Push_def ShardedPriorityQueue_def)
  from conjunct1 [OF sharded_queue_service_order [OF this, of 0 "[]"]]
  have "fst (spq.drain 3 ?q) = premium ?q @ standard ?q @ batch ?q" by (simp only: list.size One_nat_def numeral_3_eq_3 add_Suc_right add_0_right)
  then show ?thesis by (simp only: SPQ_Push_def ShardedPriorityQueue_def Let_def) simp
qed

text \<open>Retiring a cancelled request removes exactly the first matching item in service order and keeps the order of all
  others; without a match the queue is unchanged.\<close>

theorem pop_matching_keeps_order:
  assumes "spq_rep q xs"
  shows "case PopMatching P q of
    (None, q') \<Rightarrow> q' = q \<and> (\<forall>y \<in> set xs. \<not> P y)
  | (Some x, q') \<Rightarrow> \<exists>us vs. xs = us @ x # vs \<and> P x \<and> (\<forall>u \<in> set us. \<not> P u) \<and> spq_rep q' (us @ vs)"
  using PopMatching_rep [OF assms, of P] by (simp add: matching_spec_def)

theorem pop_matching_keeps_order_witness:
  "\<exists>q'. PopMatching even (SPQ_Push 4 ''batch'' (SPQ_Push (3 :: int) ''batch'' ShardedPriorityQueue)) = (Some 4, q') \<and> spq_rep q' [3]"
proof -
  let ?q = "SPQ_Push 4 ''batch'' (SPQ_Push (3 :: int) ''batch'' ShardedPriorityQueue)"
  have r: "spq_rep ?q [3, 4]" by (simp add: spq_rep_def SPQ_Push_def ShardedPriorityQueue_def)
  have p: "fst (PopMatching even ?q) = Some 4" by code_simp
  obtain q' where q': "PopMatching even ?q = (Some 4, q')" using p by (cases "PopMatching even ?q") simp
  obtain us vs where "[3, 4] = us @ 4 # vs" "spq_rep q' (us @ vs)" using pop_matching_keeps_order [OF r, of even] q' by auto
  moreover from this(1) have "us @ vs = [3]" by (cases us; cases "tl us") auto
  ultimately show ?thesis using q' by auto
qed

end
