(* ===== verification/Float_Laws.thy ===== *)
theory Float_Laws
  imports Machine_Float
begin

text \<open>Rounding is exact on small integers and never crosses one.\<close>

lemma ilog2_lower:
  assumes "0 < x"
  shows "2 powi ilog2 x \<le> x"
proof -
  obtain a b where q: "quotient_of x = (a, b)" by fastforce
  have b: "0 < b" by (rule quotient_of_denom_pos [OF q])
  have x: "x = of_int a / of_int b" by (rule quotient_of_div [OF q])
  have a: "0 < a" using assms b by (simp add: x zero_less_divide_iff)
  define i where "i = nat (bitlen a - 1)"
  define j where "j = nat (bitlen b)"
  have "2 ^ i \<le> a" "b < 2 ^ j" using bitlen_bounds [OF a] bitlen_bounds [OF b] by (simp_all add: i_def j_def)
  then have ai: "(2 :: rat) ^ i \<le> of_int a" and bj: "of_int b \<le> (2 :: rat) ^ j"
    by (metis of_int_le_iff of_int_numeral of_int_power, metis of_int_le_iff of_int_numeral of_int_power less_imp_le)
  have "(2 :: rat) ^ i / 2 ^ j \<le> of_int a / of_int b" using ai bj a b by (intro frac_le) simp_all
  moreover have "bitlen a = int i + 1" "bitlen b = int j" using a b bitlen_eq_zero_iff [of a] bitlen_nonneg [of a] bitlen_nonneg [of b] by (simp_all add: i_def j_def)
  then have "(2 :: rat) powi (bitlen a - bitlen b - 1) = 2 ^ i / 2 ^ j"
    by (simp add: power_int_diff)
  ultimately have low: "2 powi (bitlen a - bitlen b - 1) \<le> x" by (simp add: x)
  then show ?thesis by (simp add: ilog2_def q Let_def)
qed

lemma ilog2_less:
  assumes "0 < x" "x < 2 ^ n"
  shows "ilog2 x < int n"
proof (rule ccontr)
  assume "\<not> ilog2 x < int n"
  then have "(2 :: rat) powi int n \<le> 2 powi ilog2 x" by (intro power_int_increasing) simp_all
  then show False using ilog2_lower [OF assms(1)] assms(2) by simp
qed

lemma float_round_int_bounds:
  assumes x: "of_int j \<le> x" "x \<le> of_int k" and j: "0 \<le> j" and k: "k < 2 ^ p" and m: "m \<le> 0"
  shows "of_int j \<le> float_round (int p) m x \<and> float_round (int p) m x \<le> of_int k"
proof (cases "x = 0")
  case True
  then show ?thesis using x by simp
next
  case False
  have x0: "0 < x" using x(1) j False by (metis of_int_0_le_iff order.trans order_le_less)
  define e where "e = max m (ilog2 x - (int p - 1))"
  have "(of_int k :: rat) < 2 ^ p" using k by (metis of_int_less_iff of_int_numeral of_int_power)
  then have "ilog2 x < int p" using ilog2_less [OF x0] order_le_less_trans [OF x(2)] by blast
  then have e: "e \<le> 0" using m by (simp add: e_def)
  have pos: "(0 :: rat) < 2 powi e" by simp
  have scale: "of_int i / 2 powi e = (of_int (i * 2 ^ nat (- e)) :: rat)" for i
    using powi_neg_exp [OF e] by (simp add: divide_inverse)
  have up: "round_half_even (x / 2 powi e) \<le> k * 2 ^ nat (- e)"
  proof (rule round_half_even_le)
    have "x / 2 powi e \<le> of_int k / 2 powi e" using x(2) pos by (simp add: divide_right_mono)
    then show "x / 2 powi e \<le> of_int (k * 2 ^ nat (- e))" by (simp only: scale)
  qed
  have lo: "j * 2 ^ nat (- e) \<le> round_half_even (x / 2 powi e)"
  proof (rule round_half_even_ge)
    have "of_int j / 2 powi e \<le> x / 2 powi e" using x(1) pos by (simp add: divide_right_mono)
    then show "of_int (j * 2 ^ nat (- e)) \<le> x / 2 powi e" by (simp only: scale)
  qed
  have undo_scale: "(of_int (i * 2 ^ nat (- e)) :: rat) * 2 powi e = of_int i" for i using scale [of i] pos by (simp add: field_simps)
  have "(of_int j :: rat) \<le> of_int (round_half_even (x / 2 powi e)) * 2 powi e"
    unfolding undo_scale [of j, symmetric] using lo pos by (intro mult_right_mono) (simp_all only: of_int_le_iff less_imp_le)
  moreover have "of_int (round_half_even (x / 2 powi e)) * 2 powi e \<le> (of_int k :: rat)"
    unfolding undo_scale [of k, symmetric] using up pos by (intro mult_right_mono) (simp_all only: of_int_le_iff less_imp_le)
  ultimately show ?thesis using x0 False by (simp add: float_round_def e_def Let_def)
qed

lemma f32_int_bounds:
  assumes "of_int j \<le> x" "x \<le> of_int k" "0 \<le> j" "k < 2 ^ 24"
  shows "of_int j \<le> f32 x \<and> f32 x \<le> of_int k"
  using float_round_int_bounds [of j x k 24 "-149"] assms by (simp add: f32_def)

lemma f32_of_int: "0 \<le> k \<Longrightarrow> k < 2 ^ 24 \<Longrightarrow> f32 (of_int k) = of_int k"
  using f32_int_bounds [of k "of_int k" k] by simp

end
