(* ===== verification/Action_Chunker.thy ===== *)
theory Action_Chunker
  imports Float_Laws Prelude
begin

text \<open>
  The action queue of \<^verbatim>\<open>core/src/runtime/action_chunker.cpp\<close> for robotics control loops: predicted
  chunks are resampled to the control rate and served one step at a time. A \<^verbatim>\<open>float\<close> is the rational
  it denotes and every operation rounds to binary32. A pointer argument is an optional list.
  Every queue operation holds the mutex. \<^verbatim>\<open>int\<close> sums and products wrap at 32 bits (the compiled two's complement
  arithmetic); a limit that wrapped to a negative number would make \<^verbatim>\<open>EnforcePendingLimitLocked\<close> pop an empty deque, so the laws
  name the condition that it does not.
\<close>

record action_chunker_config =
  action_dim :: int
  control_hz :: int
  inference_hz :: int
  expected_chunk_steps :: int
  linear_interpolation :: bool
  max_pending_chunks :: int

definition ActionChunkerConfig :: action_chunker_config where
  "ActionChunkerConfig =
     \<lparr>action_dim = 0, control_hz = 50, inference_hz = 5, expected_chunk_steps = 0, linear_interpolation = True, max_pending_chunks = 8\<rparr>"

record action_chunker =
  ac_config :: action_chunker_config
  expected_steps :: int
  pending_steps :: "rat list list"

definition ComputeExpectedSteps :: "action_chunker_config \<Rightarrow> int" where
  "ComputeExpectedSteps cfg =
     (if expected_chunk_steps cfg > 0 then expected_chunk_steps cfg
      else if control_hz cfg \<le> 0 \<or> inference_hz cfg \<le> 0 then 0
      else max 1 (signed_take_bit 31 (control_hz cfg + inference_hz cfg - 1) sdiv inference_hz cfg))"

definition ActionChunker :: "action_chunker_config \<Rightarrow> action_chunker" where
  "ActionChunker cfg =
     \<lparr>ac_config = (if max_pending_chunks cfg \<le> 0 then cfg\<lparr>max_pending_chunks := 1\<rparr> else cfg),
      expected_steps = ComputeExpectedSteps cfg, pending_steps = []\<rparr>"

definition IsConfigured :: "action_chunker \<Rightarrow> bool" where
  "IsConfigured c \<longleftrightarrow> action_dim (ac_config c) > 0 \<and> expected_steps c > 0"

definition ActionDim :: "action_chunker \<Rightarrow> int" where
  "ActionDim c = action_dim (ac_config c)"

definition ExpectedControlStepsPerChunk :: "action_chunker \<Rightarrow> int" where
  "ExpectedControlStepsPerChunk c = expected_steps c"

text \<open>The \<open>d\<close> values at step \<open>t\<close> of a flattened chunk.\<close>

definition chunk_row :: "int \<Rightarrow> rat list \<Rightarrow> int \<Rightarrow> rat list" where
  "chunk_row d actions t = take (nat d) (drop (nat t * nat d) actions)"

definition nearest_step :: "int \<Rightarrow> int \<Rightarrow> int \<Rightarrow> int" where
  "nearest_step chunk_steps target_steps t =
     (if chunk_steps = 1 \<or> target_steps = 1 then 0 else (t * (chunk_steps - 1)) sdiv (target_steps - 1))"

definition source_position :: "int \<Rightarrow> int \<Rightarrow> int \<Rightarrow> rat" where
  "source_position chunk_steps target_steps t =
     (let src_max = f32 (of_int (chunk_steps - 1)); dst_max = f32 (of_int (target_steps - 1))
      in if dst_max > 0 then f32 (f32 (f32 (of_int t) * src_max) / dst_max) else 0)"

definition interpolate_row :: "int \<Rightarrow> rat list \<Rightarrow> int \<Rightarrow> int \<Rightarrow> int \<Rightarrow> rat list" where
  "interpolate_row d actions chunk_steps target_steps t =
     (let src_pos = source_position chunk_steps target_steps t;
          i0 = \<lfloor>src_pos\<rfloor>; i1 = min (chunk_steps - 1) (i0 + 1);
          alpha = f32 (src_pos - f32 (of_int i0))
      in map2 (\<lambda>a b. f32 (a + f32 (alpha * f32 (b - a)))) (chunk_row d actions i0) (chunk_row d actions i1))"

definition resample_rows :: "action_chunker \<Rightarrow> rat list \<Rightarrow> int \<Rightarrow> rat list list" where
  "resample_rows c actions chunk_steps =
     (let d = action_dim (ac_config c); target = expected_steps c
      in if \<not> linear_interpolation (ac_config c) \<or> target = chunk_steps \<or> chunk_steps = 1 \<or> target = 1
         then map (\<lambda>t. chunk_row d actions (nearest_step chunk_steps target t)) [0..target - 1]
         else map (interpolate_row d actions chunk_steps target) [0..target - 1])"

definition ResampleChunk :: "action_chunker \<Rightarrow> rat list option \<Rightarrow> int \<Rightarrow> rat list option" where
  "ResampleChunk c actions chunk_steps =
     (case actions of
        None \<Rightarrow> None
      | Some xs \<Rightarrow>
          if chunk_steps \<le> 0 \<or> action_dim (ac_config c) \<le> 0 \<or> expected_steps c \<le> 0 then None
          else Some (concat (resample_rows c xs chunk_steps)))"

fun drop_oldest :: "int \<Rightarrow> 'a list \<Rightarrow> 'a list" where
  "drop_oldest n [] = []"
| "drop_oldest n (x # xs) = (if signed_take_bit 31 (int (length (x # xs))) > n then drop_oldest n xs else x # xs)"

definition max_pending_steps :: "action_chunker \<Rightarrow> int" where
  "max_pending_steps c = signed_take_bit 31 (max 1 (max_pending_chunks (ac_config c)) * max 1 (expected_steps c))"

definition EnforcePendingLimitLocked :: "action_chunker \<Rightarrow> action_chunker" where
  "EnforcePendingLimitLocked c = c\<lparr>pending_steps := drop_oldest (max_pending_steps c) (pending_steps c)\<rparr>"

definition SubmitChunk :: "rat list option \<Rightarrow> int \<Rightarrow> action_chunker \<Rightarrow> bool \<times> action_chunker" where
  "SubmitChunk actions chunk_steps c =
     (if \<not> IsConfigured c then (False, c)
      else if actions = None \<or> chunk_steps \<le> 0 then (False, c)
      else case ResampleChunk c actions chunk_steps of
             None \<Rightarrow> (False, c)
           | Some resampled \<Rightarrow>
               (True, EnforcePendingLimitLocked (c\<lparr>pending_steps := pending_steps c @
                  map (chunk_row (action_dim (ac_config c)) resampled) [0..expected_steps c - 1]\<rparr>)))"

definition SubmitChunkVector :: "rat list \<Rightarrow> int \<Rightarrow> action_chunker \<Rightarrow> bool \<times> action_chunker" where
  "SubmitChunkVector actions chunk_steps c =
     (if chunk_steps \<le> 0 \<or> action_dim (ac_config c) \<le> 0 \<or> int (length actions) \<noteq> chunk_steps * action_dim (ac_config c)
      then (False, c) else SubmitChunk (Some actions) chunk_steps c)"

definition NextAction :: "action_chunker \<Rightarrow> rat list option \<times> action_chunker" where
  "NextAction c =
     (if \<not> IsConfigured c then (None, c)
      else case pending_steps c of
             [] \<Rightarrow> (None, c)
           | front # rest \<Rightarrow> (Some (take (nat (action_dim (ac_config c))) front), c\<lparr>pending_steps := rest\<rparr>))"

text \<open>The overload for a vector resets it to zeros first, which a successful call overwrites.\<close>

definition NextActionVector :: "rat list \<Rightarrow> action_chunker \<Rightarrow> bool \<times> rat list \<times> action_chunker" where
  "NextActionVector out c =
     (if \<not> IsConfigured c then (False, out, c)
      else let zeros = replicate (nat (action_dim (ac_config c))) 0
           in case NextAction c of
                (None, c') \<Rightarrow> (False, zeros, c')
              | (Some a, c') \<Rightarrow> (True, a, c'))"

definition PendingSteps :: "action_chunker \<Rightarrow> int" where
  "PendingSteps c = signed_take_bit 31 (int (length (pending_steps c)))"

definition ac_Clear :: "action_chunker \<Rightarrow> action_chunker" where
  "ac_Clear c = c\<lparr>pending_steps := []\<rparr>"

section \<open>Laws\<close>

lemma small_int: "0 \<le> k \<Longrightarrow> k < 2147483648 \<Longrightarrow> signed_take_bit 31 (k :: int) = k"
  by (simp add: signed_take_bit_int_eq_self)

lemma drop_oldest_drop: "length xs < 2147483648 \<Longrightarrow> drop_oldest n xs = drop (length xs - nat n) xs"
proof (induction xs)
  case (Cons x xs)
  have w: "signed_take_bit 31 (int (length (x # xs))) = int (length (x # xs))" using Cons.prems by (intro small_int) simp_all
  show ?case
  proof (cases "int (length (x # xs)) > n")
    case True
    then have "length (x # xs) - nat n = Suc (length xs - nat n)" by (cases "n < 0") auto
    then show ?thesis using True Cons w by simp
  next
    case False
    then have "length (x # xs) - nat n = 0" by auto
    then show ?thesis using False w by simp
  qed
qed simp

lemma chunk_row_length: "0 \<le> t \<Longrightarrow> t < n \<Longrightarrow> 0 \<le> d \<Longrightarrow> int (length xs) = n * d \<Longrightarrow> length (chunk_row d xs t) = nat d"
proof -
  assume a: "0 \<le> t" "t < n" "0 \<le> d" "int (length xs) = n * d"
  have "(t + 1) * d \<le> n * d" using a by (intro mult_right_mono) auto
  moreover have "int (nat t * nat d + nat d) = (t + 1) * d" using a by (simp add: algebra_simps)
  ultimately have "nat t * nat d + nat d \<le> length xs" using a(4) by linarith
  then show ?thesis by (simp add: chunk_row_def)
qed

lemma concat_rows:
  assumes "\<And>r. r \<in> set rs \<Longrightarrow> length r = d"
  shows "k < length rs \<Longrightarrow> take d (drop (k * d) (concat rs)) = rs ! k"
  using assms
proof (induction rs arbitrary: k)
  case (Cons r rs)
  then show ?case by (cases k) simp_all
qed simp

lemma rows_of_concat:
  assumes "\<And>r. r \<in> set rs \<Longrightarrow> length r = nat d" and "length rs = nat n"
  shows "map (chunk_row d (concat rs)) [0..n - 1] = rs"
proof (rule nth_equalityI)
  show "length (map (chunk_row d (concat rs)) [0..n - 1]) = length rs" using assms(2) by simp
  fix k assume "k < length (map (chunk_row d (concat rs)) [0..n - 1])"
  then have k: "k < length rs" "int k < n" using assms(2) by simp_all
  then show "map (chunk_row d (concat rs)) [0..n - 1] ! k = rs ! k"
    using concat_rows [OF assms(1) k(1)] by (simp add: chunk_row_def)
qed

text \<open>The steps a chunk is read at are steps of the chunk.\<close>

lemma nearest_step_range:
  assumes "0 \<le> t" "t < target" "0 < chunk"
  shows "0 \<le> nearest_step chunk target t \<and> nearest_step chunk target t < chunk"
proof (cases "chunk = 1 \<or> target = 1")
  case False
  then have pos: "0 < target - 1" "0 \<le> t * (chunk - 1)" using assms by auto
  have "t * (chunk - 1) \<le> (target - 1) * (chunk - 1)" using assms by (intro mult_right_mono) auto
  then have "t * (chunk - 1) div (target - 1) \<le> (target - 1) * (chunk - 1) div (target - 1)" using pos by (intro zdiv_mono1)
  also have "\<dots> = chunk - 1" using pos by simp
  finally show ?thesis using False pos by (simp add: nearest_step_def sdiv_nonneg pos_imp_zdiv_nonneg_iff)
qed (use assms in \<open>simp add: nearest_step_def\<close>)

lemma source_position_range:
  assumes t: "0 \<le> t" "t < target" and c: "1 < chunk" "1 < target" "chunk \<le> 4096" "target \<le> 4096"
  shows "0 \<le> source_position chunk target t \<and> source_position chunk target t \<le> of_int (chunk - 1)"
proof -
  let ?s = "chunk - 1" and ?d = "target - 1"
  have f: "f32 (of_int ?s) = of_int ?s" "f32 (of_int ?d) = of_int ?d" "f32 (of_int t) = of_int t" using t c by (auto intro!: f32_of_int simp del: of_int_diff)
  have le: "t * ?s \<le> ?d * ?s" using t c by (intro mult_right_mono) auto
  have "?d * ?s \<le> 4095 * 4095" using c by (intro mult_mono) auto
  then have "t * ?s < 2 ^ 24" using le by simp
  then have "f32 (of_int (t * ?s)) = of_int (t * ?s)" using t c by (intro f32_of_int) simp_all
  then have e: "f32 (of_int t * of_int ?s) = of_int (t * ?s)" by (simp only: of_int_mult)
  have d0: "(0 :: rat) < of_int ?d" using c by simp
  have "(of_int (t * ?s) :: rat) \<le> of_int ?s * of_int ?d" using le by (simp only: of_int_mult [symmetric] of_int_le_iff mult.commute)
  then have "of_int (t * ?s) / of_int ?d \<le> (of_int ?s :: rat)" using d0 by (simp only: pos_divide_le_eq)
  moreover have "of_int 0 \<le> (of_int (t * ?s) / of_int ?d :: rat)" using t c d0 by (simp add: divide_nonneg_pos)
  ultimately have "of_int 0 \<le> f32 (of_int (t * ?s) / of_int ?d) \<and> f32 (of_int (t * ?s) / of_int ?d) \<le> of_int ?s"
    using c by (intro f32_int_bounds) auto
  then show ?thesis using d0 unfolding source_position_def Let_def f e by simp
qed

lemma interpolate_row_length:
  assumes "0 \<le> t" "t < target" "1 < chunk" "1 < target" "chunk \<le> 4096" "target \<le> 4096" "0 \<le> d" "int (length xs) = chunk * d"
  shows "length (interpolate_row d xs chunk target t) = nat d"
proof -
  let ?p = "source_position chunk target t"
  have r: "0 \<le> \<lfloor>?p\<rfloor>" "\<lfloor>?p\<rfloor> \<le> chunk - 1" using source_position_range [OF assms(1-6)] by (simp_all add: floor_le_iff) linarith
  then have "length (chunk_row d xs \<lfloor>?p\<rfloor>) = nat d" "length (chunk_row d xs (min (chunk - 1) (\<lfloor>?p\<rfloor> + 1))) = nat d"
    using assms by (intro chunk_row_length [of _ chunk]; simp)+
  then show ?thesis by (simp add: interpolate_row_def Let_def)
qed

lemma resample_rows_shape:
  assumes n: "0 < chunk" "0 < action_dim (ac_config c)" "0 < expected_steps c" and l: "int (length xs) = chunk * action_dim (ac_config c)"
    and s: "chunk \<le> 4096" "expected_steps c \<le> 4096"
  shows "length (resample_rows c xs chunk) = nat (expected_steps c) \<and> (\<forall>r \<in> set (resample_rows c xs chunk). length r = nat (action_dim (ac_config c)))"
proof -
  have near: "length (chunk_row (action_dim (ac_config c)) xs (nearest_step chunk (expected_steps c) t)) = nat (action_dim (ac_config c))"
    if "0 \<le> t" "t \<le> expected_steps c - 1" for t
    using nearest_step_range [of t "expected_steps c" chunk] that n l by (intro chunk_row_length [of _ chunk]) auto
  have lin: "length (interpolate_row (action_dim (ac_config c)) xs chunk (expected_steps c) t) = nat (action_dim (ac_config c))"
    if "0 \<le> t" "t \<le> expected_steps c - 1" "chunk \<noteq> 1" "expected_steps c \<noteq> 1" for t
    using that n l s by (intro interpolate_row_length) auto
  show ?thesis using near lin by (auto simp: resample_rows_def Let_def)
qed

text \<open>Well-formed chunkers: every pending step has one value per dimension, and the queue is bounded.\<close>

definition ac_inv :: "action_chunker \<Rightarrow> bool" where
  "ac_inv c \<longleftrightarrow>
     (\<forall>r \<in> set (pending_steps c). length r = nat (action_dim (ac_config c))) \<and>
     int (length (pending_steps c)) \<le> max_pending_steps c"

text \<open>The configured limit is within the range of \<^verbatim>\<open>int\<close>, with room for one more chunk.\<close>

definition limit_fits :: "action_chunker \<Rightarrow> bool" where
  "limit_fits c \<longleftrightarrow> max 1 (max_pending_chunks (ac_config c)) * max 1 (expected_steps c) + 4096 \<le> 2147483647"

lemma max_pending_steps_eq:
  assumes "limit_fits c"
  shows "max_pending_steps c = max 1 (max_pending_chunks (ac_config c)) * max 1 (expected_steps c)" and "1 \<le> max_pending_steps c"
    and "max_pending_steps c + 4096 \<le> 2147483647"
proof -
  have "1 * 1 \<le> max 1 (max_pending_chunks (ac_config c)) * max 1 (expected_steps c)" by (intro mult_mono) auto
  then show "max_pending_steps c = max 1 (max_pending_chunks (ac_config c)) * max 1 (expected_steps c)" "1 \<le> max_pending_steps c"
    "max_pending_steps c + 4096 \<le> 2147483647"
    using assms by (simp_all add: max_pending_steps_def limit_fits_def small_int)
qed

lemma SubmitChunk_pending:
  assumes n: "IsConfigured c" "0 < chunk" and l: "int (length xs) = chunk * action_dim (ac_config c)" and s: "chunk \<le> 4096" "expected_steps c \<le> 4096"
  shows "SubmitChunk (Some xs) chunk c = (True, c\<lparr>pending_steps := drop_oldest (max_pending_steps c) (pending_steps c @ resample_rows c xs chunk)\<rparr>)"
proof -
  have n': "0 < action_dim (ac_config c)" "0 < expected_steps c" using n(1) by (simp_all add: IsConfigured_def)
  note R = resample_rows_shape [OF n(2) n' l s]
  have "map (chunk_row (action_dim (ac_config c)) (concat (resample_rows c xs chunk))) [0..expected_steps c - 1] = resample_rows c xs chunk"
    using R by (intro rows_of_concat) auto
  then show ?thesis using n n' by (simp add: SubmitChunk_def ResampleChunk_def EnforcePendingLimitLocked_def max_pending_steps_def)
qed

lemma queue_with_chunk_small:
  assumes "ac_inv c" "IsConfigured c" "0 < chunk" "int (length xs) = chunk * action_dim (ac_config c)" "chunk \<le> 4096" "expected_steps c \<le> 4096" "limit_fits c"
  shows "length (pending_steps c @ resample_rows c xs chunk) < 2147483648"
proof -
  have "length (resample_rows c xs chunk) = nat (expected_steps c)"
    using resample_rows_shape [of chunk c xs] assms by (simp add: IsConfigured_def)
  moreover have "int (length (pending_steps c)) + 4096 \<le> 2147483647" using assms(1) max_pending_steps_eq(3) [OF assms(7)] by (simp add: ac_inv_def)
  ultimately have "int (length (pending_steps c @ resample_rows c xs chunk)) < 2147483648" using assms(6) by simp
  then show ?thesis by linarith
qed

section \<open>Properties\<close>

text \<open>Through every accepted or rejected submission and every read, the queue of pending control steps stays within the
  configured number of chunks and every step carries one value per action dimension. Chunks and targets are assumed to have at
  most 4096 steps, so that binary32 represents every step index product exactly.\<close>

lemma action_queue_kept:
  assumes "ac_inv c" and "expected_steps c \<le> 4096" and "chunk \<le> 4096" and "limit_fits c"
  shows "ac_inv (snd (SubmitChunkVector xs chunk c)) \<and> ac_inv (snd (NextAction c)) \<and> ac_inv (ac_Clear c)"
proof (intro conjI)
  show "ac_inv (snd (SubmitChunkVector xs chunk c))"
  proof (cases "chunk \<le> 0 \<or> action_dim (ac_config c) \<le> 0 \<or> int (length xs) \<noteq> chunk * action_dim (ac_config c) \<or> \<not> IsConfigured c")
    case True
    then show ?thesis using assms(1) by (auto simp: SubmitChunkVector_def SubmitChunk_def)
  next
    case False
    then have h: "IsConfigured c" "0 < chunk" "int (length xs) = chunk * action_dim (ac_config c)" by auto
    note S = SubmitChunk_pending [OF h assms(3,2)]
    have sm: "length (pending_steps c @ resample_rows c xs chunk) < 2147483648"
      by (rule queue_with_chunk_small [OF assms(1) h assms(3,2,4)])
    have "\<forall>r \<in> set (resample_rows c xs chunk). length r = nat (action_dim (ac_config c))"
      using resample_rows_shape [OF h(2) _ _ h(3) assms(3,2)] h(1) by (simp add: IsConfigured_def)
    then have "\<forall>r \<in> set (drop_oldest (max_pending_steps c) (pending_steps c @ resample_rows c xs chunk)). length r = nat (action_dim (ac_config c))"
      using assms(1) by (auto simp: ac_inv_def drop_oldest_drop [OF sm] dest!: in_set_dropD)
    moreover have "int (length (drop_oldest (max_pending_steps c) (pending_steps c @ resample_rows c xs chunk))) \<le> max_pending_steps c"
      using max_pending_steps_eq(2) [OF assms(4)] by (simp add: drop_oldest_drop [OF sm])
    ultimately show ?thesis using S False by (simp add: SubmitChunkVector_def ac_inv_def max_pending_steps_def)
  qed
  show "ac_inv (snd (NextAction c))" using assms(1) by (auto simp: NextAction_def ac_inv_def max_pending_steps_def split: list.split)
  show "ac_inv (ac_Clear c)" using max_pending_steps_eq(2) [OF assms(4)] by (simp add: ac_Clear_def ac_inv_def max_pending_steps_def del: signed_take_bit_nonnegative_iff)
qed

definition sample_chunker :: action_chunker where
  "sample_chunker = ActionChunker (ActionChunkerConfig\<lparr>action_dim := 1, expected_chunk_steps := 4\<rparr>)"

text \<open>A consumer that asks for \<open>n\<close> actions in a row.\<close>

fun read_actions :: "nat \<Rightarrow> action_chunker \<Rightarrow> rat list option list" where
  "read_actions 0 c = []"
| "read_actions (Suc n) c = fst (NextAction c) # read_actions n (snd (NextAction c))"

lemma read_actions_pending:
  assumes "IsConfigured c" and "\<forall>r \<in> set (pending_steps c). length r = nat (action_dim (ac_config c))"
  shows "read_actions n c = map Some (take n (pending_steps c)) @ replicate (n - length (pending_steps c)) None"
  using assms
proof (induction n arbitrary: c)
  case (Suc n)
  show ?case
  proof (cases "pending_steps c")
    case Nil
    then show ?thesis using Suc by (simp add: NextAction_def)
  next
    case (Cons r rs)
    have "read_actions n (c\<lparr>pending_steps := rs\<rparr>) = map Some (take n rs) @ replicate (n - length rs) None"
      using Suc.IH [of "c\<lparr>pending_steps := rs\<rparr>"] Suc.prems Cons by (simp add: IsConfigured_def)
    then show ?thesis using Suc.prems Cons by (simp add: NextAction_def)
  qed
qed simp

lemma resample_rows_identity:
  assumes "0 < expected_steps c" "0 \<le> action_dim (ac_config c)" and "int (length xs) = expected_steps c * action_dim (ac_config c)"
  shows "concat (resample_rows c xs (expected_steps c)) = xs"
proof -
  let ?d = "action_dim (ac_config c)" and ?n = "expected_steps c"
  have "nearest_step ?n ?n t = t" if "0 \<le> t" "t \<le> ?n - 1" for t
    using that by (auto simp: nearest_step_def sdiv_nonneg)
  then have r: "resample_rows c xs ?n = map (chunk_row ?d xs) [0..?n - 1]" by (simp add: resample_rows_def Let_def)
  have "concat (map (chunk_row ?d xs) [0..int n - 1]) = take (n * nat ?d) xs" for n
  proof (induction n)
    case (Suc n)
    have "[0..int (Suc n) - 1] = [0..int n - 1] @ [int n]" by (simp add: upto_rec2)
    moreover have "Suc n * nat ?d = n * nat ?d + nat ?d" by simp
    ultimately show ?case using Suc by (simp only: map_append concat_append list.map concat.simps append_Nil2 chunk_row_def nat_int take_add)
  qed simp
  from this [of "nat ?n"] have "concat (map (chunk_row ?d xs) [0..?n - 1]) = take (nat ?n * nat ?d) xs" using assms(1) by simp
  moreover have "int (nat ?n * nat ?d) = int (length xs)" using assms by simp
  then have "length xs = nat ?n * nat ?d" by linarith
  ultimately show ?thesis unfolding r by simp
qed

text \<open>C21: Actions are served in the order they were predicted. After a well-formed submission to a well-formed chunker, a
  consumer reads exactly the steps that were pending, oldest first, then the steps of the new chunk in their order, and then
  nothing; beyond the limit (pending chunks times steps per chunk) it is the oldest steps that are missing. A chunk that already
  has the control rate is served unchanged, whether or not interpolation is on. Chunks and targets have at most 4096 steps, and the
  limit is within the range of \<^verbatim>\<open>int\<close>.\<close>

theorem action_queue_fifo:
  assumes "ac_inv c" and "IsConfigured c" and "0 < chunk" and "int (length xs) = chunk * action_dim (ac_config c)"
    and "chunk \<le> 4096" and "expected_steps c \<le> 4096" and "limit_fits c"
    and "served = (let all = pending_steps c @ resample_rows c xs chunk
      in drop (length all - nat (max 1 (max_pending_chunks (ac_config c)) * expected_steps c)) all)"
  shows "fst (SubmitChunkVector xs chunk c) \<and>
    read_actions n (snd (SubmitChunkVector xs chunk c)) = map Some (take n served) @ replicate (n - length served) None \<and>
    (chunk = expected_steps c \<longrightarrow> concat (resample_rows c xs chunk) = xs)"
proof -
  have d: "0 < action_dim (ac_config c)" "0 < expected_steps c" using assms(2) by (simp_all add: IsConfigured_def)
  let ?all = "pending_steps c @ resample_rows c xs chunk" and ?c' = "snd (SubmitChunkVector xs chunk c)"
  have S: "SubmitChunkVector xs chunk c = (True, c\<lparr>pending_steps := drop_oldest (max_pending_steps c) ?all\<rparr>)"
    using SubmitChunk_pending [OF assms(2-6)] assms(3,4) d by (simp add: SubmitChunkVector_def)
  have "length ?all < 2147483648"
    by (rule queue_with_chunk_small [OF assms(1-7)])
  then have p: "pending_steps ?c' = served"
    using d by (simp add: S drop_oldest_drop assms(8) Let_def max_pending_steps_eq(1) [OF assms(7)] max_def)
  have conf: "IsConfigured ?c'" using assms(2) by (simp add: S IsConfigured_def)
  have "ac_inv ?c'" using action_queue_kept [OF assms(1,6,5,7)] by blast
  then have "read_actions n ?c' = map Some (take n served) @ replicate (n - length served) None"
    using read_actions_pending [of ?c' n] conf unfolding ac_inv_def p by blast
  then show ?thesis using resample_rows_identity d assms(4) by (auto simp: S)
qed

theorem action_queue_fifo_witness:
  "read_actions 5 (snd (SubmitChunkVector [1, 2, 3, 4] 4 sample_chunker)) = [Some [1], Some [2], Some [3], Some [4], None]"
proof -
  have h: "ac_inv sample_chunker" "IsConfigured sample_chunker" "int (length [1, 2, 3, 4 :: rat]) = 4 * action_dim (ac_config sample_chunker)"
    "expected_steps sample_chunker \<le> 4096" "limit_fits sample_chunker" by code_simp+
  have v: "pending_steps sample_chunker = []" "resample_rows sample_chunker [1, 2, 3, 4] 4 = [[1], [2], [3], [4]]"
    "max 1 (max_pending_chunks (ac_config sample_chunker)) * expected_steps sample_chunker = 32" by code_simp+
  show ?thesis using action_queue_fifo [OF h(1,2) _ h(3) _ h(4,5) refl, of 5] by (simp add: v Let_def numeral_eq_Suc)
qed

text \<open>Interpolation never reads outside the submitted chunk: for every control step the two source steps are steps of the
  chunk and the blend factor lies between 0 and 1, with every operation rounded to binary32.\<close>

theorem interpolation_in_range:
  assumes "0 \<le> t" "t < target" "1 < chunk" "1 < target" "chunk \<le> 4096" "target \<le> 4096"
  shows "let p = source_position chunk target t; i0 = \<lfloor>p\<rfloor>; i1 = min (chunk - 1) (i0 + 1); alpha = f32 (p - f32 (of_int i0))
    in 0 \<le> i0 \<and> i0 < chunk \<and> 0 \<le> i1 \<and> i1 < chunk \<and> 0 \<le> alpha \<and> alpha \<le> 1"
proof -
  let ?p = "source_position chunk target t"
  have p: "0 \<le> ?p" "?p \<le> of_int (chunk - 1)" using source_position_range [OF assms] by blast+
  then have i0: "0 \<le> \<lfloor>?p\<rfloor>" "\<lfloor>?p\<rfloor> \<le> chunk - 1" by (simp_all add: floor_le_iff) linarith
  have "f32 (of_int \<lfloor>?p\<rfloor>) = of_int \<lfloor>?p\<rfloor>" using order_le_less_trans [OF i0(2), of "2 ^ 24"] i0(1) assms(5) by (intro f32_of_int) simp_all
  then have "0 \<le> ?p - f32 (of_int \<lfloor>?p\<rfloor>)" "?p - f32 (of_int \<lfloor>?p\<rfloor>) \<le> 1" by (simp_all, linarith+)
  from f32_unit [OF this] show ?thesis using i0 assms(3) by (simp add: Let_def)
qed

theorem interpolation_in_range_witness:
  "source_position 2 4 3 = 1 \<and> \<lfloor>source_position 2 4 3\<rfloor> < 2"
proof -
  have "source_position 2 4 3 = 1" by code_simp
  then show ?thesis using interpolation_in_range [of 3 4 2] by (simp add: Let_def)
qed

end
