(* ===== verification/Tensor.thy ===== *)
theory Tensor
  imports Prelude
begin

text \<open>
  Tensor descriptors and the registry of vendor devices, from
  \<^verbatim>\<open>core/include/densecore/hal/tensor.h\<close>. A \<^verbatim>\<open>DeviceType\<close> is its underlying byte, since vendors use values
  outside the enumerators. A pointer is its address, 0 for null. Shapes and strides are arrays of
  four \<^verbatim>\<open>int64_t\<close>, kept as unbounded integers; sizes in bytes are 64-bit words.
\<close>

section \<open>Element types, layouts, devices\<close>

datatype dtype = F32 | F16 | BF16 | INT8 | INT4 | INT32 | DTypeUnknown

datatype tensor_layout = LayoutUnknown | NCHW | NHWC | SEQ | PATCH

type_synonym device_type = u8

abbreviation DeviceCPU :: device_type where "DeviceCPU \<equiv> 0"
abbreviation DeviceCUSTOM_START :: device_type where "DeviceCUSTOM_START \<equiv> 100"
abbreviation DeviceUNKNOWN :: device_type where "DeviceUNKNOWN \<equiv> 255"

fun TensorLayoutName :: "tensor_layout \<Rightarrow> string" where
  "TensorLayoutName NCHW = ''NCHW''"
| "TensorLayoutName NHWC = ''NHWC''"
| "TensorLayoutName SEQ = ''SEQ''"
| "TensorLayoutName PATCH = ''PATCH''"
| "TensorLayoutName LayoutUnknown = ''UNKNOWN''"

fun DTypeSizeBytes :: "dtype \<Rightarrow> u64" where
  "DTypeSizeBytes F32 = 4"
| "DTypeSizeBytes F16 = 2"
| "DTypeSizeBytes BF16 = 2"
| "DTypeSizeBytes INT8 = 1"
| "DTypeSizeBytes INT4 = 0"
| "DTypeSizeBytes INT32 = 4"
| "DTypeSizeBytes DTypeUnknown = 0"

definition IsPackedDType :: "dtype \<Rightarrow> bool" where
  "IsPackedDType t \<longleftrightarrow> t = INT4"

definition PackedDTypeSizeBytes :: "dtype \<Rightarrow> int \<Rightarrow> u64" where
  "PackedDTypeSizeBytes t num_elements =
     (if num_elements \<le> 0 then 0
      else if t = INT4 then of_int ((num_elements + 1) sdiv 2)
      else of_int num_elements * DTypeSizeBytes t)"

fun DTypeName :: "dtype \<Rightarrow> string" where
  "DTypeName F32 = ''F32''"
| "DTypeName F16 = ''F16''"
| "DTypeName BF16 = ''BF16''"
| "DTypeName INT8 = ''INT8''"
| "DTypeName INT4 = ''INT4''"
| "DTypeName INT32 = ''INT32''"
| "DTypeName DTypeUnknown = ''UNKNOWN''"

section \<open>The registry of custom devices\<close>

record custom_device_info =
  device_id :: u8
  device_name :: string

record custom_device_registry =
  names_by_id :: "u8 \<Rightarrow> string"
  ids_by_name :: "string \<rightharpoonup> u8"

definition CustomDeviceRegistry :: custom_device_registry where
  "CustomDeviceRegistry = \<lparr>names_by_id = (\<lambda>_. ''''), ids_by_name = Map.empty\<rparr>"

definition IsCustomDeviceId :: "u8 \<Rightarrow> bool" where
  "IsCustomDeviceId i \<longleftrightarrow> DeviceCUSTOM_START \<le> i \<and> i < DeviceUNKNOWN"

definition RegisterCustomDevice :: "custom_device_info \<Rightarrow> custom_device_registry \<Rightarrow> bool \<times> custom_device_registry" where
  "RegisterCustomDevice info r =
     (let i = device_id info
      in if \<not> IsCustomDeviceId i \<or> device_name info = '''' then (False, r)
         else if names_by_id r i \<noteq> '''' \<and> names_by_id r i \<noteq> device_name info then (False, r)
         else if (case ids_by_name r (device_name info) of None \<Rightarrow> False | Some j \<Rightarrow> j \<noteq> i) then (False, r)
         else (True, r\<lparr>names_by_id := (names_by_id r)(i := device_name info),
                       ids_by_name := (ids_by_name r)(device_name info \<mapsto> i)\<rparr>))"

definition RegisterCustomDeviceName :: "u8 \<Rightarrow> string \<Rightarrow> custom_device_registry \<Rightarrow> bool \<times> custom_device_registry" where
  "RegisterCustomDeviceName i nm r =
     (if nm = '''' then (False, r) else RegisterCustomDevice \<lparr>device_id = i, device_name = nm\<rparr> r)"

definition GetCustomDeviceByName :: "string \<Rightarrow> custom_device_registry \<Rightarrow> device_type" where
  "GetCustomDeviceByName nm r =
     (if nm = '''' then DeviceUNKNOWN else case ids_by_name r nm of None \<Rightarrow> DeviceUNKNOWN | Some i \<Rightarrow> i)"

definition LookupCustomDeviceName :: "device_type \<Rightarrow> custom_device_registry \<Rightarrow> string" where
  "LookupCustomDeviceName d r = (if \<not> IsCustomDeviceId d then '''' else names_by_id r d)"

definition DeviceTypeName :: "device_type \<Rightarrow> custom_device_registry \<Rightarrow> string" where
  "DeviceTypeName d r =
     (if d = 0 then ''CPU'' else if d = 1 then ''METAL'' else if d = 2 then ''NPU'' else if d = 3 then ''ASIC''
      else if d = DeviceCUSTOM_START then ''CUSTOM'' else if d = DeviceUNKNOWN then ''UNKNOWN''
      else if 100 \<le> d \<and> d < 255
      then let custom_name = LookupCustomDeviceName d r in if custom_name \<noteq> '''' then custom_name else ''CUSTOM''
      else ''UNKNOWN'')"

text \<open>The two tables are inverse to each other on the custom identifiers.\<close>

definition registry_inv :: "custom_device_registry \<Rightarrow> bool" where
  "registry_inv r \<longleftrightarrow>
     (\<forall>nm i. ids_by_name r nm = Some i \<longleftrightarrow> nm \<noteq> '''' \<and> names_by_id r i = nm) \<and>
     (\<forall>i. names_by_id r i \<noteq> '''' \<longrightarrow> IsCustomDeviceId i)"

lemma CustomDeviceRegistry_inv: "registry_inv CustomDeviceRegistry"
  by (auto simp: registry_inv_def CustomDeviceRegistry_def)

definition register_conflict :: "custom_device_info \<Rightarrow> custom_device_registry \<Rightarrow> bool" where
  "register_conflict info r \<longleftrightarrow>
     \<not> IsCustomDeviceId (device_id info) \<or> device_name info = '''' \<or>
     names_by_id r (device_id info) \<notin> {'''', device_name info} \<or>
     ids_by_name r (device_name info) \<notin> {None, Some (device_id info)}"

lemma RegisterCustomDevice_rejected: "register_conflict info r \<Longrightarrow> RegisterCustomDevice info r = (False, r)"
  by (cases "ids_by_name r (device_name info)") (auto simp: register_conflict_def RegisterCustomDevice_def Let_def)

lemma RegisterCustomDevice_accepted:
  "\<not> register_conflict info r \<Longrightarrow>
   RegisterCustomDevice info r = (True, r\<lparr>names_by_id := (names_by_id r)(device_id info := device_name info),
       ids_by_name := (ids_by_name r)(device_name info \<mapsto> device_id info)\<rparr>)"
  by (cases "ids_by_name r (device_name info)") (auto simp: register_conflict_def RegisterCustomDevice_def Let_def)

lemma registry_invD:
  assumes "registry_inv r"
  shows "ids_by_name r nm = Some i \<longleftrightarrow> nm \<noteq> '''' \<and> names_by_id r i = nm"
    and "names_by_id r i \<noteq> '''' \<Longrightarrow> IsCustomDeviceId i"
  using assms by (simp_all add: registry_inv_def)

lemma RegisterCustomDevice_inv:
  assumes inv: "registry_inv r"
  shows "registry_inv (snd (RegisterCustomDevice info r))"
proof (cases "register_conflict info r")
  case True
  then show ?thesis using inv by (simp add: RegisterCustomDevice_rejected)
next
  case False
  note ids = registry_invD(1) [OF inv] and custom = registry_invD(2) [OF inv]
  have ok: "IsCustomDeviceId (device_id info)" "device_name info \<noteq> ''''"
    "names_by_id r (device_id info) = '''' \<or> names_by_id r (device_id info) = device_name info"
    "ids_by_name r (device_name info) = None \<or> ids_by_name r (device_name info) = Some (device_id info)"
    using False by (auto simp: register_conflict_def)
  have uniq: "names_by_id r i \<noteq> device_name info" if "i \<noteq> device_id info" for i
    using ids [of "device_name info" i] ok(2,4) that by auto
  have own: "ids_by_name r nm \<noteq> Some (device_id info)" if "nm \<noteq> device_name info" for nm
    using ids [of nm "device_id info"] ok(3) that by auto
  have "(if nm = device_name info then Some (device_id info) else ids_by_name r nm) = Some i \<longleftrightarrow>
      nm \<noteq> '''' \<and> (if i = device_id info then device_name info else names_by_id r i) = nm" for nm i
  proof (cases "nm = device_name info")
    case True
    then show ?thesis using ok(2) uniq [of i] by (cases "i = device_id info") simp_all
  next
    case False
    then show ?thesis using ids [of nm i] own [of nm] by (cases "i = device_id info") simp_all
  qed
  then show ?thesis
    unfolding RegisterCustomDevice_accepted [OF False] registry_inv_def using custom ok(1) by simp
qed

text \<open>A sequence of registrations and its result.\<close>

definition register_all :: "custom_device_info list \<Rightarrow> custom_device_registry" where
  "register_all infos = fold (\<lambda>info r. snd (RegisterCustomDevice info r)) infos CustomDeviceRegistry"

lemma register_all_inv: "registry_inv (register_all infos)"
proof -
  have "registry_inv r \<Longrightarrow> registry_inv (fold (\<lambda>info r. snd (RegisterCustomDevice info r)) infos r)" for r
    by (induction infos arbitrary: r) (simp_all add: RegisterCustomDevice_inv)
  then show ?thesis by (simp add: register_all_def CustomDeviceRegistry_inv)
qed

lemma UNKNOWN_not_custom [simp]: "\<not> IsCustomDeviceId DeviceUNKNOWN"
  by (simp add: IsCustomDeviceId_def)

lemma registry_bijection:
  assumes inv: "registry_inv r" and d: "d \<noteq> DeviceUNKNOWN" and nm: "nm \<noteq> ''''"
  shows "GetCustomDeviceByName nm r = d \<longleftrightarrow> LookupCustomDeviceName d r = nm"
proof (cases "ids_by_name r nm")
  case None
  then have "names_by_id r d \<noteq> nm" using registry_invD(1) [OF inv, of nm d] nm by simp
  then show ?thesis using None d nm by (auto simp: GetCustomDeviceByName_def LookupCustomDeviceName_def)
next
  case (Some i)
  then have i: "names_by_id r i = nm" "IsCustomDeviceId i" using registry_invD [OF inv] nm by auto
  moreover have "names_by_id r d = nm \<Longrightarrow> d = i" using registry_invD(1) [OF inv, of nm d] Some nm by simp
  ultimately show ?thesis using Some nm by (auto simp: GetCustomDeviceByName_def LookupCustomDeviceName_def)
qed

section \<open>Tensors\<close>

record tensor =
  t_data :: u64
  t_shape :: "int list"
  t_stride :: "int list"
  t_ndim :: int
  t_dtype :: dtype
  t_device_type :: device_type
  t_device :: u64
  t_allocator :: u64
  t_layout :: tensor_layout

definition Tensor :: tensor where
  "Tensor =
     \<lparr>t_data = 0, t_shape = [0, 0, 0, 0], t_stride = [0, 0, 0, 0], t_ndim = 0, t_dtype = F32, t_device_type = DeviceCPU,
      t_device = 0, t_allocator = 0, t_layout = LayoutUnknown\<rparr>"

definition Make1D :: "u64 \<Rightarrow> int \<Rightarrow> dtype \<Rightarrow> device_type \<Rightarrow> tensor" where
  "Make1D p n t d = Tensor\<lparr>t_data := p, t_shape := [n, 0, 0, 0], t_stride := [1, 0, 0, 0], t_ndim := 1, t_dtype := t, t_device_type := d\<rparr>"

definition Make2D :: "u64 \<Rightarrow> int \<Rightarrow> int \<Rightarrow> dtype \<Rightarrow> device_type \<Rightarrow> tensor" where
  "Make2D p rows cols t d =
     Tensor\<lparr>t_data := p, t_shape := [rows, cols, 0, 0], t_stride := [cols, 1, 0, 0], t_ndim := 2, t_dtype := t, t_device_type := d\<rparr>"

definition Make3D :: "u64 \<Rightarrow> int \<Rightarrow> int \<Rightarrow> int \<Rightarrow> dtype \<Rightarrow> device_type \<Rightarrow> tensor" where
  "Make3D p d0 d1 d2 t d =
     Tensor\<lparr>t_data := p, t_shape := [d0, d1, d2, 0], t_stride := [d1 * d2, d2, 1, 0], t_ndim := 3, t_dtype := t, t_device_type := d\<rparr>"

definition Make4D :: "u64 \<Rightarrow> int \<Rightarrow> int \<Rightarrow> int \<Rightarrow> int \<Rightarrow> dtype \<Rightarrow> device_type \<Rightarrow> tensor" where
  "Make4D p d0 d1 d2 d3 t d =
     Tensor\<lparr>t_data := p, t_shape := [d0, d1, d2, d3], t_stride := [d1 * d2 * d3, d2 * d3, d3, 1], t_ndim := 4, t_dtype := t,
            t_device_type := d\<rparr>"

text \<open>The loop of \<^verbatim>\<open>Wrap\<close> runs from the innermost dimension outwards, \<open>n\<close> dimensions left.\<close>

primrec wrap_loop :: "nat \<Rightarrow> int list \<Rightarrow> int \<Rightarrow> tensor \<Rightarrow> tensor" where
  "wrap_loop 0 shape current_stride t = t"
| "wrap_loop (Suc i) shape current_stride t =
     wrap_loop i shape (current_stride * shape ! i)
       (t\<lparr>t_shape := (t_shape t)[i := shape ! i], t_stride := (t_stride t)[i := current_stride]\<rparr>)"

definition Wrap :: "u64 \<Rightarrow> int list \<Rightarrow> dtype \<Rightarrow> device_type \<Rightarrow> tensor" where
  "Wrap p shape t d =
     (let n = min 4 (length shape)
      in (wrap_loop n shape 1 (Tensor\<lparr>t_data := p, t_ndim := int n\<rparr>))\<lparr>t_dtype := t, t_device_type := d\<rparr>)"

definition NumElements :: "tensor \<Rightarrow> int" where
  "NumElements t = (if t_ndim t \<le> 0 then 0 else prod_list (take (nat (t_ndim t)) (t_shape t)))"

definition SizeBytes :: "tensor \<Rightarrow> u64" where
  "SizeBytes t = PackedDTypeSizeBytes (t_dtype t) (NumElements t)"

definition HasValidShape :: "tensor \<Rightarrow> bool" where
  "HasValidShape t \<longleftrightarrow> 0 < t_ndim t \<and> t_ndim t \<le> 4 \<and> list_all (\<lambda>n. 0 < n) (take (nat (t_ndim t)) (t_shape t))"

definition Tensor_IsValid :: "tensor \<Rightarrow> bool" where
  "Tensor_IsValid t \<longleftrightarrow> t_data t \<noteq> 0 \<and> HasValidShape t"

text \<open>References to dense or quantized tensors; a null pointer is \<open>None\<close>, a thrown \<^verbatim>\<open>logic_error\<close> is \<open>Inl\<close>.\<close>

datatype 'q unified_tensor_ref = Dense "tensor option" | Quantized "'q option"

definition FromDense :: "tensor option \<Rightarrow> 'q unified_tensor_ref" where
  "FromDense t = Dense t"

definition FromQuantized :: "'q option \<Rightarrow> 'q unified_tensor_ref" where
  "FromQuantized q = Quantized q"

fun AsDense :: "'q unified_tensor_ref \<Rightarrow> string + tensor" where
  "AsDense (Dense (Some t)) = Inr t"
| "AsDense _ = Inl ''UnifiedTensorRef::AsDense requires Kind::Dense and non-null tensor''"

fun AsQuantized :: "'q unified_tensor_ref \<Rightarrow> string + 'q" where
  "AsQuantized (Quantized (Some q)) = Inr q"
| "AsQuantized _ = Inl ''UnifiedTensorRef::AsQuantized requires Kind::Quantized and non-null tensor''"

fun TryAsDense :: "'q unified_tensor_ref \<Rightarrow> tensor option" where
  "TryAsDense (Dense t) = t"
| "TryAsDense (Quantized _) = None"

fun TryAsQuantized :: "'q unified_tensor_ref \<Rightarrow> 'q option" where
  "TryAsQuantized (Quantized q) = q"
| "TryAsQuantized (Dense _) = None"

fun Ref_IsValid :: "'q unified_tensor_ref \<Rightarrow> bool" where
  "Ref_IsValid (Dense t) = (case t of None \<Rightarrow> False | Some x \<Rightarrow> Tensor_IsValid x)"
| "Ref_IsValid (Quantized q) = (q \<noteq> None)"

definition IsDense :: "'q unified_tensor_ref \<Rightarrow> bool" where
  "IsDense r = (case r of Dense _ \<Rightarrow> True | Quantized _ \<Rightarrow> False)"

definition IsQuantized :: "'q unified_tensor_ref \<Rightarrow> bool" where
  "IsQuantized r = (case r of Dense _ \<Rightarrow> False | Quantized _ \<Rightarrow> True)"

section \<open>Row-major layout\<close>

primrec row_major :: "int list \<Rightarrow> int list" where
  "row_major [] = []"
| "row_major (n # ns) = prod_list ns # row_major ns"

definition tensor_offset :: "int list \<Rightarrow> int list \<Rightarrow> int" where
  "tensor_offset stride idx = (\<Sum>(s, i)\<leftarrow>zip stride idx. s * i)"

definition in_shape :: "int list \<Rightarrow> int list \<Rightarrow> bool" where
  "in_shape idx shape \<longleftrightarrow> list_all2 (\<lambda>i n. 0 \<le> i \<and> i < n) idx shape"

lemma in_shape_simps [simp]:
  "in_shape [] []" "\<not> in_shape (i # idx) []" "\<not> in_shape [] (n # ns)"
  "in_shape (i # idx) (n # ns) \<longleftrightarrow> 0 \<le> i \<and> i < n \<and> in_shape idx ns"
  by (auto simp: in_shape_def)

lemma tensor_offset_simps [simp]:
  "tensor_offset [] idx = 0" "tensor_offset ss [] = 0"
  "tensor_offset (s # ss) (i # idx) = s * i + tensor_offset ss idx"
  by (simp_all add: tensor_offset_def)

lemma tensor_offset_take: "tensor_offset (take (length idx) ss) idx = tensor_offset ss idx"
proof (induction idx arbitrary: ss)
  case (Cons i idx)
  then show ?case by (cases ss) simp_all
qed simp

lemma prod_list_pos: "list_all (\<lambda>n. 0 < n) ns \<Longrightarrow> 0 < prod_list (ns :: int list)"
  by (induction ns) simp_all

lemma tensor_offset_bounds:
  "in_shape idx ns \<Longrightarrow> 0 \<le> tensor_offset (row_major ns) idx \<and> tensor_offset (row_major ns) idx < prod_list ns"
proof (induction ns arbitrary: idx)
  case Nil
  then show ?case by simp
next
  case (Cons n ns)
  then obtain i js where idx: "idx = i # js" and i: "0 \<le> i" "i < n" and js: "in_shape js ns"
    by (cases idx) auto
  let ?P = "prod_list ns" and ?o = "tensor_offset (row_major ns) js"
  have o: "0 \<le> ?o" "?o < ?P" using Cons.IH [OF js] by simp_all
  have "?P * i + ?o < ?P * (i + 1)" using o by (simp add: algebra_simps)
  also have "\<dots> \<le> ?P * n" using i o by (intro mult_left_mono) linarith+
  finally show ?case using i o by (simp add: idx mult.commute)
qed

lemma tensor_offset_inj:
  "\<lbrakk>in_shape xs ns; in_shape ys ns; tensor_offset (row_major ns) xs = tensor_offset (row_major ns) ys\<rbrakk> \<Longrightarrow> xs = ys"
proof (induction ns arbitrary: xs ys)
  case Nil
  then show ?case by (cases xs; cases ys) auto
next
  case (Cons n ns)
  then obtain x xs' y ys' where e: "xs = x # xs'" "ys = y # ys'" and s: "in_shape xs' ns" "in_shape ys' ns"
    by (cases xs; cases ys) auto
  let ?P = "prod_list ns" and ?o = "tensor_offset (row_major ns)"
  have b: "0 \<le> ?o xs'" "?o xs' < ?P" "0 \<le> ?o ys'" "?o ys' < ?P" using tensor_offset_bounds s by auto
  have eq: "?P * x + ?o xs' = ?P * y + ?o ys'" using Cons.prems(3) by (simp add: e)
  have "x = (?P * x + ?o xs') div ?P" using b by simp
  also have "\<dots> = y" unfolding eq using b by simp
  finally show ?case using eq Cons.IH [OF s] by (simp add: e)
qed

lemma tensor_offset_surj:
  "\<lbrakk>list_all (\<lambda>n. 0 < n) ns; 0 \<le> k; k < prod_list ns\<rbrakk> \<Longrightarrow> \<exists>idx. in_shape idx ns \<and> tensor_offset (row_major ns) idx = k"
proof (induction ns arbitrary: k)
  case Nil
  then show ?case by (intro exI [of _ "[]"]) simp
next
  case (Cons n ns)
  let ?P = "prod_list ns"
  have P: "0 < ?P" using Cons.prems(1) by (simp add: prod_list_pos)
  obtain js where js: "in_shape js ns" "tensor_offset (row_major ns) js = k mod ?P"
    using Cons.IH [of "k mod ?P"] Cons.prems(1) P by auto
  have "k div ?P * ?P \<le> k" using P pos_mod_sign [of ?P k] by (simp add: minus_mod_eq_div_mult [symmetric])
  then have "k div ?P * ?P < n * ?P" using Cons.prems(3) by simp
  then have "k div ?P < n" using P by simp
  then show ?case using js Cons.prems(2) P by (intro exI [of _ "(k div ?P) # js"]) (simp add: pos_imp_zdiv_nonneg_iff)
qed

lemma offset_bij:
  "list_all (\<lambda>n. 0 < n) ns \<Longrightarrow> bij_betw (tensor_offset (row_major ns)) {idx. in_shape idx ns} {0..<prod_list ns}"
  using tensor_offset_bounds [of _ ns] tensor_offset_inj [of _ ns] tensor_offset_surj [of ns]
  by (auto simp: bij_betw_def inj_on_def image_iff) metis

lemma Wrap_simps:
  "Wrap p [] t d = Tensor\<lparr>t_data := p, t_dtype := t, t_device_type := d\<rparr>"
  "Wrap p [a] t d = Make1D p a t d"
  "Wrap p [a, b] t d = Make2D p a b t d"
  "Wrap p [a, b, c] t d = Make3D p a b c t d"
  "Wrap p (a # b # c # e # rest) t d = Make4D p a b c e t d"
  by (simp_all add: Wrap_def Tensor_def Make1D_def Make2D_def Make3D_def Make4D_def Let_def numeral_eq_Suc algebra_simps)

lemma Wrap_fields:
  assumes "0 < length shape" "length shape \<le> 4"
  shows "t_ndim (Wrap p shape t d) = int (length shape)" "t_data (Wrap p shape t d) = p" "t_dtype (Wrap p shape t d) = t"
    "take (length shape) (t_shape (Wrap p shape t d)) = shape"
    "take (length shape) (t_stride (Wrap p shape t d)) = row_major shape"
proof -
  consider a where "shape = [a]" | a b where "shape = [a, b]" | a b c where "shape = [a, b, c]"
    | a b c e where "shape = [a, b, c, e]"
    using assms by (auto simp: numeral_eq_Suc le_Suc_eq length_Suc_conv)
  then show "t_ndim (Wrap p shape t d) = int (length shape)" "t_data (Wrap p shape t d) = p" "t_dtype (Wrap p shape t d) = t"
    "take (length shape) (t_shape (Wrap p shape t d)) = shape"
    "take (length shape) (t_stride (Wrap p shape t d)) = row_major shape"
    by (cases; simp add: Wrap_simps Make1D_def Make2D_def Make3D_def Make4D_def Tensor_def)+
qed

section \<open>Properties\<close>

text \<open>C31: after any sequence of registrations, an accepted registration makes the device's name and identifier
  find each other, and keeps every other name's and identifier's answer; a rejected one changes nothing; and for
  every name and every identifier but \<^verbatim>\<open>UNKNOWN\<close> the two lookups are inverse to each other.\<close>

theorem device_registry_roundtrip:
  assumes "r = register_all infos" and "RegisterCustomDevice \<lparr>device_id = i, device_name = nm\<rparr> r = (ok, r')"
  shows "(ok \<longrightarrow> LookupCustomDeviceName i r' = nm \<and> GetCustomDeviceByName nm r' = i) \<and>
    (\<forall>j. j \<noteq> i \<longrightarrow> LookupCustomDeviceName j r' = LookupCustomDeviceName j r) \<and>
    (\<forall>m. m \<noteq> nm \<longrightarrow> GetCustomDeviceByName m r' = GetCustomDeviceByName m r) \<and>
    (\<not> ok \<longrightarrow> r' = r) \<and>
    (\<forall>d m. d \<noteq> DeviceUNKNOWN \<longrightarrow> m \<noteq> '''' \<longrightarrow> (GetCustomDeviceByName m r' = d \<longleftrightarrow> LookupCustomDeviceName d r' = m))"
proof -
  let ?info = "\<lparr>device_id = i, device_name = nm\<rparr>"
  have inv: "registry_inv r'" using RegisterCustomDevice_inv [OF register_all_inv, of ?info infos] assms by simp
  have "(ok \<longrightarrow> LookupCustomDeviceName i r' = nm \<and> GetCustomDeviceByName nm r' = i) \<and>
    (\<forall>j. j \<noteq> i \<longrightarrow> LookupCustomDeviceName j r' = LookupCustomDeviceName j r) \<and>
    (\<forall>m. m \<noteq> nm \<longrightarrow> GetCustomDeviceByName m r' = GetCustomDeviceByName m r) \<and> (\<not> ok \<longrightarrow> r' = r)"
  proof (cases "register_conflict ?info r")
    case True
    then show ?thesis using assms(2) RegisterCustomDevice_rejected by simp
  next
    case False
    then have "ok" "r' = r\<lparr>names_by_id := (names_by_id r)(i := nm), ids_by_name := (ids_by_name r)(nm \<mapsto> i)\<rparr>"
      using assms(2) RegisterCustomDevice_accepted [OF False] by simp_all
    then show ?thesis using False by (simp add: LookupCustomDeviceName_def GetCustomDeviceByName_def register_conflict_def)
  qed
  then show ?thesis using registry_bijection [OF inv] by simp
qed

theorem device_registry_roundtrip_witness:
  "LookupCustomDeviceName 100 (snd (RegisterCustomDevice \<lparr>device_id = 100, device_name = ''Groq''\<rparr> (register_all []))) = ''Groq''"
proof -
  let ?i = "\<lparr>device_id = 100, device_name = ''Groq''\<rparr>"
  obtain ok r' where e: "RegisterCustomDevice ?i (register_all []) = (ok, r')" by fastforce
  have "ok" using e by (simp add: RegisterCustomDevice_def register_all_def CustomDeviceRegistry_def IsCustomDeviceId_def Let_def)
  then show ?thesis using device_registry_roundtrip [OF refl e] e by simp
qed

text \<open>C32: a tensor wrapped over one to four positive dimensions is valid when its data pointer is, and its strides
  place the elements without gap or overlap: index tuples inside the shape correspond one to one to the offsets
  below \<^verbatim>\<open>NumElements\<close>, which is the product of the dimensions; the fixed-rank factories agree with \<^verbatim>\<open>Wrap\<close>.\<close>

theorem wrap_row_major:
  assumes "0 < length shape" "length shape \<le> 4" "list_all (\<lambda>n. 0 < n) shape" "p \<noteq> 0"
  shows "Tensor_IsValid (Wrap p shape t d) \<and> NumElements (Wrap p shape t d) = prod_list shape \<and>
    bij_betw (tensor_offset (t_stride (Wrap p shape t d))) {idx. in_shape idx shape} {0..<NumElements (Wrap p shape t d)} \<and>
    Wrap p [a] t d = Make1D p a t d \<and> Wrap p [a, b] t d = Make2D p a b t d \<and>
    Wrap p [a, b, c] t d = Make3D p a b c t d \<and> Wrap p [a, b, c, e] t d = Make4D p a b c e t d"
proof -
  note f = Wrap_fields [OF assms(1,2), of p t d]
  have n: "NumElements (Wrap p shape t d) = prod_list shape" using assms(1) f by (simp add: NumElements_def)
  have "tensor_offset (t_stride (Wrap p shape t d)) idx = tensor_offset (row_major shape) idx" if "in_shape idx shape" for idx
  proof -
    have "length idx = length shape" using that by (simp add: in_shape_def list_all2_lengthD)
    then show ?thesis using f(5) by (metis tensor_offset_take)
  qed
  then have "bij_betw (tensor_offset (t_stride (Wrap p shape t d))) {idx. in_shape idx shape} {0..<NumElements (Wrap p shape t d)}"
    using offset_bij [OF assms(3)] by (subst bij_betw_cong [where g = "tensor_offset (row_major shape)"]) (simp_all add: n)
  then show ?thesis using assms f n by (simp add: Tensor_IsValid_def HasValidShape_def Wrap_simps)
qed

theorem wrap_row_major_witness: "NumElements (Wrap 4096 [2, 3, 4] F32 DeviceCPU) = 24"
  using wrap_row_major [of "[2, 3, 4]" 4096 F32 DeviceCPU 1 1 1 1] by simp

text \<open>The size of a valid tensor covers all its elements: half a byte each for INT4, rounded up, the element
  size each otherwise, as long as the count stays below \<open>2 ^ 60\<close>.\<close>

theorem tensor_size_bytes:
  assumes "Tensor_IsValid x" "NumElements x < 2 ^ 60"
  shows "uint (SizeBytes x) = (if IsPackedDType (t_dtype x) then (NumElements x + 1) div 2
                               else NumElements x * uint (DTypeSizeBytes (t_dtype x)))"
proof -
  let ?n = "NumElements x"
  have n: "0 < ?n" using assms(1) prod_list_pos [of "take (nat (t_ndim x)) (t_shape x)"]
    by (simp add: Tensor_IsValid_def HasValidShape_def NumElements_def)
  have small: "uint (of_int k :: u64) = k" if "0 \<le> k" "k < 2 ^ 62" for k :: int
    using that by (simp add: unsigned_of_int take_bit_int_eq_self)
  have m: "uint (of_int ?n * c :: u64) = ?n * uint c" if "uint c \<le> 4" for c :: u64
  proof -
    have "?n * uint c \<le> ?n * 4" using n that by (intro mult_left_mono) simp_all
    moreover have "?n * 4 < 2 ^ 62" using assms(2) by simp
    ultimately have "?n * uint c < 2 ^ 62" by (rule le_less_trans)
    then have "uint (of_int (?n * uint c) :: u64) = ?n * uint c" using n assms(2) by (intro small) simp_all
    then show ?thesis by simp
  qed
  have "uint (DTypeSizeBytes (t_dtype x)) \<le> 4" by (cases "t_dtype x") simp_all
  then show ?thesis using n assms(2) m small [of "(?n + 1) div 2"]
    by (simp add: SizeBytes_def PackedDTypeSizeBytes_def IsPackedDType_def sdiv_nonneg)
qed

theorem tensor_size_bytes_witness: "uint (SizeBytes (Make2D 4096 3 5 INT4 DeviceCPU)) = 8"
  using tensor_size_bytes [of "Make2D 4096 3 5 INT4 DeviceCPU"]
  by (simp add: Tensor_IsValid_def HasValidShape_def NumElements_def Make2D_def Tensor_def IsPackedDType_def)

end
