(* ===== verification/Layer_KV_Cache.thy ===== *)
theory Layer_KV_Cache
  imports Tensor KV_Block_Allocator
begin

unbundle bit_operations_syntax

text \<open>
  The contiguous key and value caches of the encoder-decoder models, from
  \<^verbatim>\<open>core/src/runtime/memory/kv_cache_decoder.cpp\<close> and \<^verbatim>\<open>kv_cache_encoder.cpp\<close>. The heap maps the address
  of a live buffer to its bytes. The C library's \<^verbatim>\<open>aligned_alloc\<close> is the parameter \<open>alloc\<close>, which answers an address for
  a heap and a size, 0 when it fails; what the code relies on is that an address it answers is not that of a
  live buffer. A copy outside a buffer is undefined behaviour, the value \<open>None\<close>.
\<close>

type_synonym heap = "u64 \<rightharpoonup> u8 list"

definition fresh_alloc :: "(heap \<Rightarrow> u64 \<Rightarrow> u64) \<Rightarrow> bool" where
  "fresh_alloc alloc \<longleftrightarrow> (\<forall>h n. alloc h n \<noteq> 0 \<longrightarrow> h (alloc h n) = None)"

definition memcpy :: "u64 \<Rightarrow> u64 \<Rightarrow> u8 list \<Rightarrow> u64 \<Rightarrow> heap \<Rightarrow> heap option" where
  "memcpy p off src n h =
     (case h p of None \<Rightarrow> None
      | Some buf \<Rightarrow>
          if unat off + unat n \<le> length buf \<and> unat n \<le> length src
          then Some (h(p \<mapsto> take (unat off) buf @ take (unat n) src @ drop (unat off + unat n) buf))
          else None)"

section \<open>Allocation of the layers\<close>

definition tensor_bytes :: "tensor \<Rightarrow> u64" where
  "tensor_bytes t = foldl (\<lambda>n s. n * of_int s) 1 (take (nat (t_ndim t)) (t_shape t)) * DTypeSizeBytes (t_dtype t)"

definition padded_bytes :: "tensor \<Rightarrow> u64" where
  "padded_bytes t = (tensor_bytes t + 63) AND NOT 63"

definition dk_AllocateTensor :: "(heap \<Rightarrow> u64 \<Rightarrow> u64) \<Rightarrow> tensor \<Rightarrow> heap \<Rightarrow> heap \<times> (string + tensor)" where
  "dk_AllocateTensor alloc t h =
     (let aligned_size = padded_bytes t; p = alloc h aligned_size
      in if p = 0 then (h, Inl ''DecoderKVCache: Failed to allocate memory'')
         else (h(p \<mapsto> replicate (unat aligned_size) 0),
               Inr (t\<lparr>t_data := p,
                      t_stride := [t_shape t ! 1 * t_shape t ! 2 * t_shape t ! 3, t_shape t ! 2 * t_shape t ! 3,
                                   t_shape t ! 3, 1]\<rparr>)))"

definition ek_AllocateTensor :: "(heap \<Rightarrow> u64 \<Rightarrow> u64) \<Rightarrow> tensor \<Rightarrow> heap \<Rightarrow> heap \<times> (string + tensor)" where
  "ek_AllocateTensor alloc t h =
     (let aligned_size = padded_bytes t; p = alloc h aligned_size
      in if p = 0 then (h, Inl ''EncoderKVCache: Failed to allocate aligned memory'')
         else (h(p \<mapsto> replicate (unat aligned_size) 0), Inr (t\<lparr>t_data := p\<rparr>)))"

definition FreeTensor :: "tensor \<Rightarrow> heap \<Rightarrow> heap \<times> tensor" where
  "FreeTensor t h = (if t_data t \<noteq> 0 then (h(t_data t := None), t\<lparr>t_data := 0\<rparr>) else (h, t))"

text \<open>The loop of both constructors: \<open>n\<close> layers are left, each allocates its keys and then its values. A failed
  allocation throws out of the constructor, so the buffers allocated before stay on the heap.\<close>

primrec alloc_layers ::
  "(tensor \<Rightarrow> heap \<Rightarrow> heap \<times> (string + tensor)) \<Rightarrow> tensor \<Rightarrow> nat \<Rightarrow> heap \<Rightarrow> heap \<times> (string + tensor list \<times> tensor list)" where
  "alloc_layers A t 0 h = (h, Inr ([], []))"
| "alloc_layers A t (Suc n) h =
     (case A t h of
        (h1, Inl e) \<Rightarrow> (h1, Inl e)
      | (h1, Inr k) \<Rightarrow>
          (case A t h1 of
             (h2, Inl e) \<Rightarrow> (h2, Inl e)
           | (h2, Inr v) \<Rightarrow>
               (case alloc_layers A t n h2 of
                  (h3, Inl e) \<Rightarrow> (h3, Inl e)
                | (h3, Inr (ks, vs)) \<Rightarrow> (h3, Inr (k # ks, v # vs)))))"

definition layer_proto :: "int \<Rightarrow> int \<Rightarrow> int \<Rightarrow> int \<Rightarrow> dtype \<Rightarrow> tensor" where
  "layer_proto batch_size seq_len n_head head_dim t =
     Tensor\<lparr>t_dtype := t, t_layout := SEQ, t_ndim := 4, t_shape := [batch_size, seq_len, n_head, head_dim]\<rparr>"

section \<open>Decoder cache\<close>

record decoder_cache =
  dk_n_layers :: int
  dk_batch_size :: int
  dk_max_seq_len :: int
  dk_n_head :: int
  dk_head_dim :: int
  dk_dtype :: dtype
  dk_current_seq_len :: int
  dk_keys :: "tensor list"
  dk_values :: "tensor list"

definition DecoderKVCache ::
  "(heap \<Rightarrow> u64 \<Rightarrow> u64) \<Rightarrow> int \<Rightarrow> int \<Rightarrow> int \<Rightarrow> int \<Rightarrow> int \<Rightarrow> dtype \<Rightarrow> heap \<Rightarrow> heap \<times> (string + decoder_cache)" where
  "DecoderKVCache alloc n_layers batch_size max_seq_len n_head head_dim t h =
     (case alloc_layers (dk_AllocateTensor alloc) (layer_proto batch_size max_seq_len n_head head_dim t) (nat n_layers) h of
        (h', Inl e) \<Rightarrow> (h', Inl e)
      | (h', Inr (ks, vs)) \<Rightarrow>
          (h', Inr \<lparr>dk_n_layers = n_layers, dk_batch_size = batch_size, dk_max_seq_len = max_seq_len, dk_n_head = n_head,
                    dk_head_dim = head_dim, dk_dtype = t, dk_current_seq_len = 0, dk_keys = ks, dk_values = vs\<rparr>))"

definition dk_Destroy :: "decoder_cache \<Rightarrow> heap \<Rightarrow> heap" where
  "dk_Destroy c h = fold (\<lambda>t h. fst (FreeTensor t h)) (dk_keys c @ dk_values c) h"

definition AddToken :: "int \<Rightarrow> int \<Rightarrow> u8 list \<Rightarrow> u8 list \<Rightarrow> decoder_cache \<Rightarrow> heap \<Rightarrow> heap option" where
  "AddToken layer batch_idx k_new v_new c h =
     (if layer < 0 \<or> dk_n_layers c \<le> layer then Some h
      else if dk_max_seq_len c \<le> dk_current_seq_len c then Some h
      else let elem = DTypeSizeBytes (dk_dtype c);
               head_dim_bytes = of_int (dk_head_dim c) * elem;
               entry_size = of_int (dk_n_head c) * head_dim_bytes;
               key = dk_keys c ! nat layer; val = dk_values c ! nat layer;
               offset = of_int (batch_idx * t_stride key ! 0 + dk_current_seq_len c * t_stride key ! 1)
           in case memcpy (t_data key) (offset * elem) k_new entry_size h of
                None \<Rightarrow> None
              | Some h1 \<Rightarrow> memcpy (t_data val) (offset * elem) v_new entry_size h1)"

definition dk_Step :: "decoder_cache \<Rightarrow> decoder_cache" where
  "dk_Step c = (if dk_current_seq_len c < dk_max_seq_len c
                then c\<lparr>dk_current_seq_len := dk_current_seq_len c + 1\<rparr> else c)"

definition committed_view :: "decoder_cache \<Rightarrow> tensor \<Rightarrow> tensor" where
  "committed_view c t =
     (let valid_count = (if dk_max_seq_len c < dk_current_seq_len c then dk_max_seq_len c else dk_current_seq_len c)
      in t\<lparr>t_shape := (t_shape t)[1 := valid_count]\<rparr>)"

definition GetCurrentKey :: "int \<Rightarrow> decoder_cache \<Rightarrow> tensor option" where
  "GetCurrentKey layer c =
     (if 0 \<le> layer \<and> nat layer < length (dk_keys c) then Some (committed_view c (dk_keys c ! nat layer)) else None)"

definition GetCurrentValue :: "int \<Rightarrow> decoder_cache \<Rightarrow> tensor option" where
  "GetCurrentValue layer c =
     (if 0 \<le> layer \<and> nat layer < length (dk_values c) then Some (committed_view c (dk_values c ! nat layer)) else None)"

definition dk_Reset :: "decoder_cache \<Rightarrow> decoder_cache" where
  "dk_Reset c = c\<lparr>dk_current_seq_len := 0\<rparr>"

text \<open>The product of the four \<^verbatim>\<open>int\<close> members is an \<^verbatim>\<open>int\<close>: it wraps at 32 bits before the widening.\<close>

definition dk_GetMemoryUsage :: "decoder_cache \<Rightarrow> u64" where
  "dk_GetMemoryUsage c =
     (let per_tensor = of_int (signed_take_bit 31 (dk_batch_size c * dk_max_seq_len c * dk_n_head c * dk_head_dim c))
                       * DTypeSizeBytes (dk_dtype c)
      in of_int (dk_n_layers c * 2) * per_tensor)"

section \<open>Encoder cache\<close>

record encoder_cache =
  ek_n_layers :: int
  ek_batch_size :: int
  ek_seq_len :: int
  ek_n_head :: int
  ek_head_dim :: int
  ek_dtype :: dtype
  ek_keys :: "tensor list"
  ek_values :: "tensor list"

definition EncoderKVCache ::
  "(heap \<Rightarrow> u64 \<Rightarrow> u64) \<Rightarrow> int \<Rightarrow> int \<Rightarrow> int \<Rightarrow> int \<Rightarrow> int \<Rightarrow> dtype \<Rightarrow> heap \<Rightarrow> heap \<times> (string + encoder_cache)" where
  "EncoderKVCache alloc n_layers batch_size seq_len n_head head_dim t h =
     (case alloc_layers (ek_AllocateTensor alloc) (layer_proto batch_size seq_len n_head head_dim t) (nat n_layers) h of
        (h', Inl e) \<Rightarrow> (h', Inl e)
      | (h', Inr (ks, vs)) \<Rightarrow>
          (h', Inr \<lparr>ek_n_layers = n_layers, ek_batch_size = batch_size, ek_seq_len = seq_len, ek_n_head = n_head,
                    ek_head_dim = head_dim, ek_dtype = t, ek_keys = ks, ek_values = vs\<rparr>))"

definition ek_Destroy :: "encoder_cache \<Rightarrow> heap \<Rightarrow> heap" where
  "ek_Destroy c h = fold (\<lambda>t h. fst (FreeTensor t h)) (ek_keys c @ ek_values c) h"

definition ek_GetKey :: "int \<Rightarrow> encoder_cache \<Rightarrow> tensor option" where
  "ek_GetKey layer c = (if layer < 0 \<or> ek_n_layers c \<le> layer then None else Some (ek_keys c ! nat layer))"

definition ek_GetValue :: "int \<Rightarrow> encoder_cache \<Rightarrow> tensor option" where
  "ek_GetValue layer c = (if layer < 0 \<or> ek_n_layers c \<le> layer then None else Some (ek_values c ! nat layer))"

definition ek_GetMemoryUsage :: "encoder_cache \<Rightarrow> u64" where
  "ek_GetMemoryUsage c =
     (let element_size = DTypeSizeBytes (ek_dtype c);
          elements_per_tensor = of_int (ek_batch_size c) * of_int (ek_seq_len c) * of_int (ek_n_head c) * of_int (ek_head_dim c)
      in of_int (ek_n_layers c * 2) * elements_per_tensor * element_size)"

section \<open>What the constructors allocate\<close>

text \<open>The interface both constructors rely on: an allocation answers a live, zeroed buffer at a new address or leaves
  the heap alone.\<close>

locale tensor_allocator =
  fixes A :: "(heap \<Rightarrow> u64 \<Rightarrow> u64) \<Rightarrow> tensor \<Rightarrow> heap \<Rightarrow> heap \<times> (string + tensor)"
    and place :: "tensor \<Rightarrow> u64 \<Rightarrow> tensor"
    and msg :: string
  assumes alloc_fails: "alloc h (padded_bytes t) = 0 \<Longrightarrow> A alloc t h = (h, Inl msg)"
    and alloc_works: "alloc h (padded_bytes t) = p \<Longrightarrow> p \<noteq> 0 \<Longrightarrow>
      A alloc t h = (h(p \<mapsto> replicate (unat (padded_bytes t)) 0), Inr (place t p))"
    and data_place [simp]: "t_data (place t p) = p"
begin

lemma alloc_cases:
  assumes "fresh_alloc alloc"
  obtains "A alloc t h = (h, Inl msg)"
  | p where "p \<noteq> 0" "h p = None" "A alloc t h = (h(p \<mapsto> replicate (unat (padded_bytes t)) 0), Inr (place t p))"
proof (cases "alloc h (padded_bytes t) = 0")
  case True
  then show ?thesis using that(1) alloc_fails by blast
next
  case False
  then have "h (alloc h (padded_bytes t)) = None" using assms by (simp add: fresh_alloc_def)
  then show ?thesis using that(2) alloc_works [of alloc h t, OF refl False] False by blast
qed

lemma layers_fail: "fresh_alloc alloc \<Longrightarrow> alloc_layers (A alloc) t n h = (h', Inl e) \<Longrightarrow> e = msg \<and> h \<subseteq>\<^sub>m h'"
proof (induction n arbitrary: h)
  case (Suc n)
  note fresh = Suc.prems(1)
  show ?case
  proof (cases rule: alloc_cases [OF fresh, of t h])
    case 1
    then show ?thesis using Suc.prems(2) by simp
  next
    case (2 p)
    let ?h1 = "h(p \<mapsto> replicate (unat (padded_bytes t)) 0)"
    have h1: "h \<subseteq>\<^sub>m ?h1" using 2 by (auto simp: map_le_def dom_def)
    show ?thesis
    proof (cases rule: alloc_cases [OF fresh, of t ?h1])
      case 1
      then show ?thesis using Suc.prems(2) 2 h1 by simp
    next
      case (2 q)
      let ?h2 = "?h1(q \<mapsto> replicate (unat (padded_bytes t)) 0)"
      have "h \<subseteq>\<^sub>m ?h2" using h1 \<open>?h1 q = None\<close> by (auto simp: map_le_def dom_def split: if_splits)
      moreover have "alloc_layers (A alloc) t n ?h2 = (h', Inl e)"
        using Suc.prems(2) \<open>A alloc t h = _\<close> \<open>A alloc t ?h1 = _\<close> by (auto split: prod.splits sum.splits)
      ultimately show ?thesis using Suc.IH [OF fresh] map_le_trans by blast
    qed
  qed
qed simp

definition layers_at :: "tensor \<Rightarrow> nat \<Rightarrow> heap \<Rightarrow> heap \<Rightarrow> tensor list \<Rightarrow> tensor list \<Rightarrow> bool" where
  "layers_at t n h h' ks vs \<longleftrightarrow> length ks = n \<and> length vs = n \<and> distinct (map t_data (ks @ vs)) \<and>
     (\<forall>x \<in> set (ks @ vs). t_data x \<noteq> 0 \<and> h (t_data x) = None \<and> x = place t (t_data x) \<and>
        h' (t_data x) = Some (replicate (unat (padded_bytes t)) 0)) \<and>
     (\<forall>p. p \<notin> t_data ` set (ks @ vs) \<longrightarrow> h' p = h p)"

lemma layers_at_Cons:
  assumes pq: "p \<noteq> 0" "h p = None" "q \<noteq> 0" "q \<noteq> p" "h q = None"
    and h2: "h2 = h(p \<mapsto> replicate (unat (padded_bytes t)) 0, q \<mapsto> replicate (unat (padded_bytes t)) 0)"
    and IH: "layers_at t n h2 h' ks vs"
  shows "layers_at t (Suc n) h h' (place t p # ks) (place t q # vs)"
proof -
  have live: "h2 (t_data x) = None" if "x \<in> set (ks @ vs)" for x using IH that by (auto simp: layers_at_def)
  have "h2 p \<noteq> None" "h2 q \<noteq> None" using h2 pq by simp_all
  then have new: "p \<notin> t_data ` set (ks @ vs)" "q \<notin> t_data ` set (ks @ vs)" using live by (metis imageE)+
  have old: "h (t_data x) = None" if "x \<in> set (ks @ vs)" for x
    using live [OF that] new that h2 by (auto split: if_splits)
  have "h' p = h2 p" "h' q = h2 q" using IH new by (auto simp: layers_at_def)
  then have "h' p = Some (replicate (unat (padded_bytes t)) 0)" "h' q = Some (replicate (unat (padded_bytes t)) 0)"
    using h2 pq by simp_all
  then show ?thesis using IH new old pq h2 unfolding layers_at_def by auto
qed

lemma layers_ok: "fresh_alloc alloc \<Longrightarrow> alloc_layers (A alloc) t n h = (h', Inr (ks, vs)) \<Longrightarrow> layers_at t n h h' ks vs"
proof (induction n arbitrary: h ks vs)
  case 0
  then show ?case by (simp add: layers_at_def)
next
  case (Suc n)
  note fresh = Suc.prems(1)
  show ?case
  proof (cases rule: alloc_cases [OF fresh, of t h])
    case 1
    then show ?thesis using Suc.prems(2) by simp
  next
    case p: (2 p)
    let ?h1 = "h(p \<mapsto> replicate (unat (padded_bytes t)) 0)"
    show ?thesis
    proof (cases rule: alloc_cases [OF fresh, of t ?h1])
      case 1
      then show ?thesis using Suc.prems(2) p by simp
    next
      case q: (2 q)
      let ?h2 = "?h1(q \<mapsto> replicate (unat (padded_bytes t)) 0)"
      obtain ks' vs' where r: "alloc_layers (A alloc) t n ?h2 = (h', Inr (ks', vs'))"
        "ks = place t p # ks'" "vs = place t q # vs'"
        using Suc.prems(2) p(3) q(3) by (auto split: prod.splits sum.splits)
      have "q \<noteq> p" "h q = None" using q(2) by (auto split: if_splits)
      then show ?thesis unfolding r(2,3) using p(1,2) q(1) by (intro layers_at_Cons [OF _ _ _ _ _ refl Suc.IH [OF fresh r(1)]])
    qed
  qed
qed

end

interpretation dk: tensor_allocator dk_AllocateTensor
  "\<lambda>t p. t\<lparr>t_data := p, t_stride := [t_shape t ! 1 * t_shape t ! 2 * t_shape t ! 3, t_shape t ! 2 * t_shape t ! 3,
                                   t_shape t ! 3, 1]\<rparr>" "''DecoderKVCache: Failed to allocate memory''"
  by unfold_locales (simp_all add: dk_AllocateTensor_def Let_def)

interpretation ek: tensor_allocator ek_AllocateTensor "\<lambda>t p. t\<lparr>t_data := p\<rparr>"
  "''EncoderKVCache: Failed to allocate aligned memory''"
  by unfold_locales (simp_all add: ek_AllocateTensor_def Let_def)

text \<open>Freeing the buffers of a list of tensors.\<close>

lemma free_all:
  "fold (\<lambda>t h. fst (FreeTensor t h)) ts h p = (if p \<noteq> 0 \<and> p \<in> t_data ` set ts then None else h p)"
  by (induction ts arbitrary: h) (auto simp: FreeTensor_def)

section \<open>Invariant of the decoder cache\<close>

definition dk_elems :: "decoder_cache \<Rightarrow> int" where
  "dk_elems c = dk_batch_size c * dk_max_seq_len c * dk_n_head c * dk_head_dim c"

definition dk_entry :: "decoder_cache \<Rightarrow> nat" where
  "dk_entry c = nat (dk_n_head c * dk_head_dim c) * unat (DTypeSizeBytes (dk_dtype c))"

definition dk_geometry :: "decoder_cache \<Rightarrow> bool" where
  "dk_geometry c \<longleftrightarrow> 0 < dk_batch_size c \<and> 0 < dk_max_seq_len c \<and> 0 < dk_n_head c \<and> 0 < dk_head_dim c \<and>
     dk_elems c * uint (DTypeSizeBytes (dk_dtype c)) + 64 \<le> 2 ^ 64"

definition dk_inv :: "decoder_cache \<Rightarrow> heap \<Rightarrow> bool" where
  "dk_inv c h \<longleftrightarrow> dk_geometry c \<and> 0 \<le> dk_current_seq_len c \<and> dk_current_seq_len c \<le> dk_max_seq_len c \<and>
     length (dk_keys c) = nat (dk_n_layers c) \<and> length (dk_values c) = nat (dk_n_layers c) \<and>
     distinct (map t_data (dk_keys c @ dk_values c)) \<and>
     (\<forall>x \<in> set (dk_keys c @ dk_values c).
        t_stride x = [dk_max_seq_len c * dk_n_head c * dk_head_dim c, dk_n_head c * dk_head_dim c, dk_head_dim c, 1] \<and>
        (\<exists>buf. h (t_data x) = Some buf \<and> nat (dk_batch_size c * dk_max_seq_len c) * dk_entry c \<le> length buf))"

text \<open>The bytes an attention kernel reads for position \<open>s\<close> of batch row \<open>b\<close> through the strides of a view.\<close>

definition read_entry :: "decoder_cache \<Rightarrow> tensor \<Rightarrow> int \<Rightarrow> int \<Rightarrow> heap \<Rightarrow> u8 list option" where
  "read_entry c x b s h =
     map_option (\<lambda>buf. take (dk_entry c)
       (drop (nat (tensor_offset (t_stride x) [b, s, 0, 0]) * unat (DTypeSizeBytes (dk_dtype c))) buf)) (h (t_data x))"

lemma uint_small: "0 \<le> x \<Longrightarrow> x < 2 ^ 64 \<Longrightarrow> uint (of_int x :: u64) = x"
  by (simp add: unsigned_of_int take_bit_int_eq_self)

lemma unat_small: "0 \<le> x \<Longrightarrow> x < 2 ^ 64 \<Longrightarrow> unat (of_int x :: u64) = nat x"
  by (simp add: uint_small nat_uint_eq [symmetric])

lemma block_write:
  assumes "i * E + E \<le> length buf" "j * E + E \<le> length buf" "length k = E"
  shows "take E (drop (j * E) (take (i * E) buf @ k @ drop (i * E + E) buf)) =
    (if j = i then k else take E (drop (j * E) buf))"
proof -
  consider "j = i" | "Suc j \<le> i" | "Suc i \<le> j" by linarith
  then show ?thesis
  proof cases
    case 1
    then show ?thesis using assms by simp
  next
    case 2
    then have "Suc j * E \<le> i * E" by (rule mult_le_mono1)
    then show ?thesis using assms 2 by (intro nth_equalityI) (auto simp: nth_append)
  next
    case 3
    then have "Suc i * E \<le> j * E" by (rule mult_le_mono1)
    then show ?thesis using assms 3 by (intro nth_equalityI) (auto simp: nth_append)
  qed
qed

lemma slot_bounds:
  assumes "0 \<le> b" "b < B" "0 \<le> s" "s < (S :: int)"
  shows "b * S + s < B * S" "0 \<le> b * S + s"
proof -
  have "b * S + s < (b + 1) * S" using assms by (simp add: algebra_simps)
  also have "\<dots> \<le> B * S" using assms by (intro mult_right_mono) simp_all
  finally show "b * S + s < B * S" .
  show "0 \<le> b * S + s" using assms by simp
qed

lemma slot_inj:
  assumes "0 \<le> s" "s < S" "0 \<le> s'" "s' < (S :: int)" "b * S + s = b' * S + s'"
  shows "b = b' \<and> s = s'"
proof -
  have "b = (b * S + s) div S" using assms(1,2) by simp
  also have "\<dots> = b'" unfolding assms(5) using assms(3,4) by simp
  finally show ?thesis using assms(5) by simp
qed

text \<open>Where the entry of row \<open>b\<close>, position \<open>s\<close> lies: slot \<open>b * max_seq_len + s\<close> of size \<open>dk_entry\<close>.\<close>

definition dk_slot :: "decoder_cache \<Rightarrow> int \<Rightarrow> int \<Rightarrow> nat" where
  "dk_slot c b s = nat (b * dk_max_seq_len c + s)"

lemma dk_slot_fits:
  assumes "dk_geometry c" "0 \<le> b" "b < dk_batch_size c" "0 \<le> s" "s < dk_max_seq_len c"
    and "nat (dk_batch_size c * dk_max_seq_len c) * dk_entry c \<le> n"
  shows "dk_slot c b s * dk_entry c + dk_entry c \<le> n"
proof -
  have "Suc (dk_slot c b s) \<le> nat (dk_batch_size c * dk_max_seq_len c)"
    using slot_bounds [OF assms(2-5)] by (simp add: dk_slot_def Suc_nat_eq_nat_zadd1)
  then have "Suc (dk_slot c b s) * dk_entry c \<le> nat (dk_batch_size c * dk_max_seq_len c) * dk_entry c"
    by (rule mult_le_mono1)
  then show ?thesis using assms(6) by simp
qed

lemma dk_words:
  assumes g: "dk_geometry c" and bs: "0 \<le> b" "b < dk_batch_size c" "0 \<le> s" "s < dk_max_seq_len c"
    and st: "t_stride x = [dk_max_seq_len c * dk_n_head c * dk_head_dim c, dk_n_head c * dk_head_dim c, dk_head_dim c, 1]"
  defines "e \<equiv> DTypeSizeBytes (dk_dtype c)"
  shows "unat (of_int (b * t_stride x ! 0 + s * t_stride x ! 1) * e) = dk_slot c b s * dk_entry c"
    and "unat (of_int (dk_n_head c) * (of_int (dk_head_dim c) * e)) = dk_entry c"
    and "nat (tensor_offset (t_stride x) [b, s, 0, 0]) * unat e = dk_slot c b s * dk_entry c"
proof -
  let ?S = "dk_max_seq_len c" and ?HD = "dk_n_head c * dk_head_dim c"
  have HD: "0 < ?HD" using g by (simp add: dk_geometry_def)
  have off: "b * t_stride x ! 0 + s * t_stride x ! 1 = (b * ?S + s) * ?HD" by (simp add: st algebra_simps)
  note slot = slot_bounds [OF bs]
  have e: "0 \<le> uint e" by simp
  have lt: "(b * ?S + s) * ?HD * uint e + ?HD * uint e \<le> dk_elems c * uint e"
  proof -
    have "(b * ?S + s + 1) * (?HD * uint e) \<le> dk_batch_size c * ?S * (?HD * uint e)"
      using slot HD by (intro mult_right_mono) simp_all
    then show ?thesis by (simp add: dk_elems_def algebra_simps)
  qed
  have nn: "0 \<le> (b * ?S + s) * ?HD * uint e" "0 \<le> ?HD * uint e" using slot(2) HD by simp_all
  have le: "dk_elems c * uint e < 2 ^ 64" using g by (simp add: dk_geometry_def e_def)
  have big: "unat (of_int ((b * ?S + s) * ?HD * uint e) :: u64) = nat ((b * ?S + s) * ?HD * uint e)"
    "unat (of_int (?HD * uint e) :: u64) = nat (?HD * uint e)"
    using nn lt le by (intro unat_small; linarith)+
  have ent: "dk_entry c = nat (?HD * uint e)" using HD by (simp add: dk_entry_def e_def nat_mult_distrib)
  have split: "nat ((b * ?S + s) * ?HD * uint e) = dk_slot c b s * dk_entry c"
    using slot(2) by (simp add: ent dk_slot_def nat_mult_distrib [symmetric] mult.assoc)
  show "unat (of_int (b * t_stride x ! 0 + s * t_stride x ! 1) * e) = dk_slot c b s * dk_entry c"
    unfolding off split [symmetric] big(1) [symmetric] by simp
  show "unat (of_int (dk_n_head c) * (of_int (dk_head_dim c) * e)) = dk_entry c"
    unfolding ent big(2) [symmetric] by (simp add: mult.assoc)
  have "tensor_offset (t_stride x) [b, s, 0, 0] = (b * ?S + s) * ?HD" by (simp add: st algebra_simps)
  then show "nat (tensor_offset (t_stride x) [b, s, 0, 0]) * unat e = dk_slot c b s * dk_entry c"
    unfolding split [symmetric] using slot(2) HD by (simp add: nat_mult_distrib)
qed

section \<open>Adding a token\<close>

lemma dk_inv_tensor:
  assumes "dk_inv c h" "x \<in> set (dk_keys c) \<union> set (dk_values c)"
  obtains buf where "h (t_data x) = Some buf" "nat (dk_batch_size c * dk_max_seq_len c) * dk_entry c \<le> length buf"
    "t_stride x = [dk_max_seq_len c * dk_n_head c * dk_head_dim c, dk_n_head c * dk_head_dim c, dk_head_dim c, 1]"
proof -
  have "\<forall>x \<in> set (dk_keys c) \<union> set (dk_values c).
    t_stride x = [dk_max_seq_len c * dk_n_head c * dk_head_dim c, dk_n_head c * dk_head_dim c, dk_head_dim c, 1] \<and>
    (\<exists>buf. h (t_data x) = Some buf \<and> nat (dk_batch_size c * dk_max_seq_len c) * dk_entry c \<le> length buf)"
    using assms(1) unfolding dk_inv_def set_append by blast
  then show ?thesis using assms(2) that by blast
qed

lemma dk_inv_geometry: "dk_inv c h \<Longrightarrow> dk_geometry c"
  by (simp add: dk_inv_def)

lemma read_entry_block:
  assumes inv: "dk_inv c h" and x: "x \<in> set (dk_keys c) \<union> set (dk_values c)"
    and bs: "0 \<le> b" "b < dk_batch_size c" "0 \<le> s" "s < dk_max_seq_len c"
  shows "read_entry c x b s h' = map_option (\<lambda>buf. take (dk_entry c) (drop (dk_slot c b s * dk_entry c) buf)) (h' (t_data x))"
proof -
  obtain buf where "t_stride x = [dk_max_seq_len c * dk_n_head c * dk_head_dim c, dk_n_head c * dk_head_dim c, dk_head_dim c, 1]"
    using dk_inv_tensor [OF inv x] by blast
  note dk_words(3) [OF dk_inv_geometry [OF inv] bs this]
  then show ?thesis by (simp only: read_entry_def)
qed

text \<open>One of the two copies of \<^verbatim>\<open>AddToken\<close>.\<close>

lemma copy_entry:
  assumes inv: "dk_inv c h" and x: "x \<in> set (dk_keys c) \<union> set (dk_values c)"
    and bs: "0 \<le> b" "b < dk_batch_size c" "0 \<le> s" "s < dk_max_seq_len c" and k: "length k = dk_entry c"
    and off: "unat off = dk_slot c b s * dk_entry c" and n: "unat n = dk_entry c"
  obtains h' where "memcpy (t_data x) off k n h = Some h'" "dk_inv c h'" "\<And>p. p \<noteq> t_data x \<Longrightarrow> h' p = h p"
    "\<And>b' s'. \<lbrakk>0 \<le> b'; b' < dk_batch_size c; 0 \<le> s'; s' < dk_max_seq_len c\<rbrakk> \<Longrightarrow>
       read_entry c x b' s' h' = (if b' = b \<and> s' = s then Some k else read_entry c x b' s' h)"
proof -
  let ?E = "dk_entry c" and ?i = "dk_slot c b s"
  note g = dk_inv_geometry [OF inv]
  obtain buf where buf: "h (t_data x) = Some buf" "nat (dk_batch_size c * dk_max_seq_len c) * ?E \<le> length buf"
    using dk_inv_tensor [OF inv x] by blast
  let ?buf = "take (?i * ?E) buf @ k @ drop (?i * ?E + ?E) buf"
  let ?h = "h(t_data x \<mapsto> ?buf)"
  have fit: "?i * ?E + ?E \<le> length buf" by (rule dk_slot_fits [OF g bs buf(2)])
  then have len: "length ?buf = length buf" using k by simp
  have inv': "dk_inv c ?h" using inv buf len unfolding dk_inv_def by (auto simp del: length_append)
  show ?thesis
  proof (rule that [of ?h])
    show "memcpy (t_data x) off k n h = Some ?h" using buf fit k by (simp add: memcpy_def off n)
    show "dk_inv c ?h" by (rule inv')
    fix b' s' assume bs': "0 \<le> b'" "b' < dk_batch_size c" "0 \<le> s'" "s' < dk_max_seq_len c"
    have "dk_slot c b' s' = ?i \<longleftrightarrow> b' = b \<and> s' = s"
      using slot_inj [OF bs'(3,4) bs(3,4), of b' b] slot_bounds [OF bs'] slot_bounds [OF bs] by (auto simp: dk_slot_def)
    then show "read_entry c x b' s' ?h = (if b' = b \<and> s' = s then Some k else read_entry c x b' s' h)"
      using block_write [OF fit dk_slot_fits [OF g bs' buf(2)] k] buf(1)
      by (simp add: read_entry_block [OF inv x bs'])
  qed simp
qed

lemma dk_addr_inj:
  assumes "dk_inv c h" "i < nat (dk_n_layers c)" "j < nat (dk_n_layers c)"
  shows "t_data (dk_keys c ! i) = t_data (dk_keys c ! j) \<longleftrightarrow> i = j"
    "t_data (dk_values c ! i) = t_data (dk_values c ! j) \<longleftrightarrow> i = j"
    "t_data (dk_keys c ! i) \<noteq> t_data (dk_values c ! j)"
proof -
  have len: "length (dk_keys c) = nat (dk_n_layers c)" "length (dk_values c) = nat (dk_n_layers c)"
    and d: "distinct (map t_data (dk_keys c))" "distinct (map t_data (dk_values c))"
      "t_data ` set (dk_keys c) \<inter> t_data ` set (dk_values c) = {}"
    using assms(1) by (auto simp: dk_inv_def)
  show "t_data (dk_keys c ! i) = t_data (dk_keys c ! j) \<longleftrightarrow> i = j"
    using nth_eq_iff_index_eq [OF d(1), of i j] assms(2,3) len by simp
  show "t_data (dk_values c ! i) = t_data (dk_values c ! j) \<longleftrightarrow> i = j"
    using nth_eq_iff_index_eq [OF d(2), of i j] assms(2,3) len by simp
  show "t_data (dk_keys c ! i) \<noteq> t_data (dk_values c ! j)" using d(3) assms(2,3) len by (metis disjoint_iff image_eqI nth_mem)
qed

lemma read_entry_frame: "h' (t_data x) = h (t_data x) \<Longrightarrow> read_entry c x b s h' = read_entry c x b s h"
  by (simp add: read_entry_def)

lemma AddToken_writes:
  assumes inv: "dk_inv c h" and l: "0 \<le> layer" "layer < dk_n_layers c" and b: "0 \<le> b" "b < dk_batch_size c"
    and room: "dk_current_seq_len c < dk_max_seq_len c" and kv: "length k = dk_entry c" "length v = dk_entry c"
  obtains h' where "AddToken layer b k v c h = Some h'" "dk_inv c h'"
    "\<And>l' b' s'. \<lbrakk>0 \<le> l'; l' < dk_n_layers c; 0 \<le> b'; b' < dk_batch_size c; 0 \<le> s'; s' < dk_max_seq_len c\<rbrakk> \<Longrightarrow>
      read_entry c (dk_keys c ! nat l') b' s' h' =
        (if l' = layer \<and> b' = b \<and> s' = dk_current_seq_len c then Some k else read_entry c (dk_keys c ! nat l') b' s' h) \<and>
      read_entry c (dk_values c ! nat l') b' s' h' =
        (if l' = layer \<and> b' = b \<and> s' = dk_current_seq_len c then Some v else read_entry c (dk_values c ! nat l') b' s' h)"
    "\<And>p. p \<notin> t_data ` set (dk_keys c @ dk_values c) \<Longrightarrow> h' p = h p"
proof -
  let ?K = "dk_keys c ! nat layer" and ?V = "dk_values c ! nat layer" and ?s = "dk_current_seq_len c"
  let ?e = "DTypeSizeBytes (dk_dtype c)"
  have n: "nat layer < nat (dk_n_layers c)" using l by simp
  have lens: "length (dk_keys c) = nat (dk_n_layers c)" "length (dk_values c) = nat (dk_n_layers c)" "0 \<le> ?s"
    using inv by (simp_all add: dk_inv_def)
  have K: "?K \<in> set (dk_keys c) \<union> set (dk_values c)" and V: "?V \<in> set (dk_keys c) \<union> set (dk_values c)" using n lens by simp_all
  obtain buf where st: "t_stride ?K = [dk_max_seq_len c * dk_n_head c * dk_head_dim c, dk_n_head c * dk_head_dim c, dk_head_dim c, 1]"
    using dk_inv_tensor [OF inv K] by blast
  let ?off = "of_int (b * t_stride ?K ! 0 + ?s * t_stride ?K ! 1) * ?e"
  let ?n = "of_int (dk_n_head c) * (of_int (dk_head_dim c) * ?e)"
  note w = dk_words(1,2) [OF dk_inv_geometry [OF inv] b lens(3) room st]
  obtain h1 where h1: "memcpy (t_data ?K) ?off k ?n h = Some h1" "dk_inv c h1" "\<And>p. p \<noteq> t_data ?K \<Longrightarrow> h1 p = h p"
    "\<And>b' s'. \<lbrakk>0 \<le> b'; b' < dk_batch_size c; 0 \<le> s'; s' < dk_max_seq_len c\<rbrakk> \<Longrightarrow>
       read_entry c ?K b' s' h1 = (if b' = b \<and> s' = ?s then Some k else read_entry c ?K b' s' h)"
    by (rule copy_entry [OF inv K b lens(3) room kv(1) w]) blast
  obtain h2 where h2: "memcpy (t_data ?V) ?off v ?n h1 = Some h2" "dk_inv c h2" "\<And>p. p \<noteq> t_data ?V \<Longrightarrow> h2 p = h1 p"
    "\<And>b' s'. \<lbrakk>0 \<le> b'; b' < dk_batch_size c; 0 \<le> s'; s' < dk_max_seq_len c\<rbrakk> \<Longrightarrow>
       read_entry c ?V b' s' h2 = (if b' = b \<and> s' = ?s then Some v else read_entry c ?V b' s' h1)"
    by (rule copy_entry [OF h1(2) V b lens(3) room kv(2) w]) blast
  have add: "AddToken layer b k v c h = Some h2"
    using l room h1(1) h2(1) by (simp add: AddToken_def Let_def)
  have reads: "read_entry c (dk_keys c ! nat l') b' s' h2 =
        (if l' = layer \<and> b' = b \<and> s' = ?s then Some k else read_entry c (dk_keys c ! nat l') b' s' h) \<and>
      read_entry c (dk_values c ! nat l') b' s' h2 =
        (if l' = layer \<and> b' = b \<and> s' = ?s then Some v else read_entry c (dk_values c ! nat l') b' s' h)"
    if r: "0 \<le> l'" "l' < dk_n_layers c" "0 \<le> b'" "b' < dk_batch_size c" "0 \<le> s'" "s' < dk_max_seq_len c" for l' b' s'
  proof -
    have n': "nat l' < nat (dk_n_layers c)" "nat l' = nat layer \<longleftrightarrow> l' = layer" using r l by auto
    note inj = dk_addr_inj [OF inv n'(1) n, unfolded n'(2)]
    have k2: "h2 (t_data (dk_keys c ! nat l')) = h1 (t_data (dk_keys c ! nat l'))" using h2(3) inj(3) by simp
    have v1: "h1 (t_data (dk_values c ! nat l')) = h (t_data (dk_values c ! nat l'))"
      using h1(3) dk_addr_inj(3) [OF inv n n'(1)] by simp
    show ?thesis
    proof (cases "l' = layer")
      case True
      then show ?thesis using h1(4) h2(4) r read_entry_frame [of h2 ?K h1, OF k2 [unfolded True]]
          read_entry_frame [of h1 ?V h, OF v1 [unfolded True]] by simp
    next
      case False
      then have "h1 (t_data (dk_keys c ! nat l')) = h (t_data (dk_keys c ! nat l'))"
        "h2 (t_data (dk_values c ! nat l')) = h1 (t_data (dk_values c ! nat l'))" using h1(3) h2(3) inj by simp_all
      then show ?thesis using False k2 v1 by (simp add: read_entry_def)
    qed
  qed
  have frame: "h2 p = h p" if "p \<notin> t_data ` set (dk_keys c @ dk_values c)" for p
    using that h1(3) h2(3) n lens by (metis Un_iff image_eqI nth_mem set_append)
  show ?thesis by (rule that [OF add h2(2) reads frame])
qed

lemma AddToken_refused:
  "layer < 0 \<or> dk_n_layers c \<le> layer \<or> dk_max_seq_len c \<le> dk_current_seq_len c \<Longrightarrow> AddToken layer b k v c h = Some h"
  by (auto simp: AddToken_def)

section \<open>Reachable decoder caches\<close>

lemma foldl_of_int: "foldl (\<lambda>n s. n * of_int s) a ns = (a :: u64) * of_int (prod_list ns)"
  by (induction ns arbitrary: a) (simp_all add: mult.assoc)

lemma padded_bytes_bound:
  assumes "prod_list (take (nat (t_ndim t)) (t_shape t)) * uint (DTypeSizeBytes (t_dtype t)) + 64 \<le> 2 ^ 64"
    and "0 \<le> prod_list (take (nat (t_ndim t)) (t_shape t))"
  shows "prod_list (take (nat (t_ndim t)) (t_shape t)) * uint (DTypeSizeBytes (t_dtype t)) \<le> uint (padded_bytes t)"
proof -
  let ?n = "prod_list (take (nat (t_ndim t)) (t_shape t)) * uint (DTypeSizeBytes (t_dtype t))"
  have "tensor_bytes t = of_int ?n" by (simp add: tensor_bytes_def foldl_of_int)
  then have u: "uint (tensor_bytes t) = ?n" using assms uint_small [of ?n] by simp
  have "padded_bytes t = AlignUp (tensor_bytes t) (2 ^ 6)" by (simp add: padded_bytes_def AlignUp_def add.commute)
  then show ?thesis using AlignUp_bounds(1) [of "tensor_bytes t" 6] assms(1) u by simp
qed

lemma DecoderKVCache_inv:
  assumes fresh: "fresh_alloc alloc"
    and ok: "DecoderKVCache alloc n_layers batch_size max_seq_len n_head head_dim t h = (h', Inr c)"
    and g: "dk_geometry c"
  shows "dk_inv c h'"
proof -
  let ?t = "layer_proto batch_size max_seq_len n_head head_dim t"
  obtain ks vs where al: "alloc_layers (dk_AllocateTensor alloc) ?t (nat n_layers) h = (h', Inr (ks, vs))"
    and c: "c = \<lparr>dk_n_layers = n_layers, dk_batch_size = batch_size, dk_max_seq_len = max_seq_len, dk_n_head = n_head,
                    dk_head_dim = head_dim, dk_dtype = t, dk_current_seq_len = 0, dk_keys = ks, dk_values = vs\<rparr>"
    using ok by (auto simp: DecoderKVCache_def split: prod.splits sum.splits)
  note L = dk.layers_ok [OF fresh al, unfolded dk.layers_at_def]
  have pos: "0 < batch_size" "0 < max_seq_len" "0 < n_head" "0 < head_dim"
    and fits: "batch_size * max_seq_len * n_head * head_dim * uint (DTypeSizeBytes t) + 64 \<le> 2 ^ 64"
    using g by (simp_all add: dk_geometry_def dk_elems_def c)
  have "batch_size * max_seq_len * n_head * head_dim * uint (DTypeSizeBytes t) \<le> uint (padded_bytes ?t)"
    using padded_bytes_bound [of ?t] pos fits by (simp add: layer_proto_def mult.assoc)
  then have "nat (batch_size * max_seq_len * n_head * head_dim * uint (DTypeSizeBytes t)) \<le> unat (padded_bytes ?t)"
    unfolding unat_eq_nat_uint by (rule nat_mono)
  then have size: "nat (batch_size * max_seq_len) * dk_entry c \<le> unat (padded_bytes ?t)"
    using pos by (simp add: dk_entry_def c nat_mult_distrib mult.assoc)
  have "t_stride x = [max_seq_len * n_head * head_dim, n_head * head_dim, head_dim, 1] \<and>
      (\<exists>buf. h' (t_data x) = Some buf \<and> nat (batch_size * max_seq_len) * dk_entry c \<le> length buf)"
    if "x \<in> set (ks @ vs)" for x
  proof -
    have x: "x = ?t\<lparr>t_data := t_data x, t_stride := [t_shape ?t ! 1 * t_shape ?t ! 2 * t_shape ?t ! 3,
        t_shape ?t ! 2 * t_shape ?t ! 3, t_shape ?t ! 3, 1]\<rparr>"
      and buf: "h' (t_data x) = Some (replicate (unat (padded_bytes ?t)) 0)" using L that by blast+
    have "t_stride x = [max_seq_len * n_head * head_dim, n_head * head_dim, head_dim, 1]"
      by (subst x) (simp add: layer_proto_def numeral_eq_Suc)
    then show ?thesis using size buf by simp
  qed
  then show ?thesis using L g pos by (simp add: dk_inv_def c)
qed

inductive dk_reachable :: "(heap \<Rightarrow> u64 \<Rightarrow> u64) \<Rightarrow> decoder_cache \<Rightarrow> heap \<Rightarrow> bool" for alloc where
  dk_new: "DecoderKVCache alloc n_layers batch_size max_seq_len n_head head_dim t h = (h', Inr c) \<Longrightarrow> dk_geometry c \<Longrightarrow>
    dk_reachable alloc c h'"
| dk_add: "dk_reachable alloc c h \<Longrightarrow> 0 \<le> b \<Longrightarrow> b < dk_batch_size c \<Longrightarrow> length k = dk_entry c \<Longrightarrow> length v = dk_entry c \<Longrightarrow>
    AddToken layer b k v c h = Some h' \<Longrightarrow> dk_reachable alloc c h'"
| dk_step: "dk_reachable alloc c h \<Longrightarrow> dk_reachable alloc (dk_Step c) h"
| dk_reset: "dk_reachable alloc c h \<Longrightarrow> dk_reachable alloc (dk_Reset c) h"

lemma dk_entry_len [simp]: "dk_entry (c\<lparr>dk_current_seq_len := n\<rparr>) = dk_entry c"
  "dk_geometry (c\<lparr>dk_current_seq_len := n\<rparr>) = dk_geometry c" "read_entry (c\<lparr>dk_current_seq_len := n\<rparr>) = read_entry c"
  by (simp_all add: dk_entry_def dk_geometry_def dk_elems_def read_entry_def fun_eq_iff)

lemma dk_reachable_inv: "dk_reachable alloc c h \<Longrightarrow> fresh_alloc alloc \<Longrightarrow> dk_inv c h"
proof (induction rule: dk_reachable.induct)
  case (dk_new n_layers batch_size max_seq_len n_head head_dim t h h' c)
  then show ?case using DecoderKVCache_inv by blast
next
  case (dk_add c h b k v layer h')
  then have inv: "dk_inv c h" by simp
  show ?case
  proof (cases "layer < 0 \<or> dk_n_layers c \<le> layer \<or> dk_max_seq_len c \<le> dk_current_seq_len c")
    case True
    then show ?thesis using AddToken_refused [OF True] dk_add.hyps inv by simp
  next
    case False
    then show ?thesis using AddToken_writes [OF inv _ _ dk_add.hyps(2,3) _ dk_add.hyps(4,5), of layer] dk_add.hyps(6)
      by (metis not_le option.inject)
  qed
next
  case (dk_step c h)
  then show ?case by (simp add: dk_Step_def dk_inv_def)
next
  case (dk_reset c h)
  then show ?case by (simp add: dk_Reset_def dk_inv_def)
qed

lemma layers_freed:
  assumes "\<forall>x \<in> set ts. t_data x \<noteq> 0 \<and> h (t_data x) = None" "\<forall>p. p \<notin> t_data ` set ts \<longrightarrow> h' p = h p"
  shows "fold (\<lambda>t h. fst (FreeTensor t h)) ts h' = h"
proof
  fix p
  have "0 \<notin> t_data ` set ts" using assms(1) by auto
  then show "fold (\<lambda>t h. fst (FreeTensor t h)) ts h' p = h p" using assms by (cases "p \<in> t_data ` set ts") (auto simp: free_all)
qed

lemma dk_Destroy_restores:
  assumes "fresh_alloc alloc" "DecoderKVCache alloc n_layers batch_size max_seq_len n_head head_dim t h = (h', Inr c)"
    and "\<forall>p. p \<notin> t_data ` set (dk_keys c @ dk_values c) \<longrightarrow> h'' p = h' p"
  shows "dk_Destroy c h'' = h"
proof -
  let ?t = "layer_proto batch_size max_seq_len n_head head_dim t"
  obtain ks vs where al: "alloc_layers (dk_AllocateTensor alloc) ?t (nat n_layers) h = (h', Inr (ks, vs))"
    and c: "dk_keys c = ks" "dk_values c = vs"
    using assms(2) by (auto simp: DecoderKVCache_def split: prod.splits sum.splits)
  show ?thesis unfolding dk_Destroy_def c
    using dk.layers_ok [OF assms(1) al, unfolded dk.layers_at_def] assms(3)[unfolded c] by (intro layers_freed) simp_all
qed

lemma EncoderKVCache_layers:
  assumes "fresh_alloc alloc" "EncoderKVCache alloc n_layers batch_size seq_len n_head head_dim t h = (h', Inr c)"
  shows "ek.layers_at (layer_proto batch_size seq_len n_head head_dim t) (nat n_layers) h h' (ek_keys c) (ek_values c)"
    "ek_n_layers c = n_layers"
  using assms(2) ek.layers_ok [OF assms(1)] by (auto simp: EncoderKVCache_def split: prod.splits sum.splits)

lemma ek_Destroy_restores:
  assumes "fresh_alloc alloc" "EncoderKVCache alloc n_layers batch_size seq_len n_head head_dim t h = (h', Inr c)"
  shows "ek_Destroy c h' = h"
  unfolding ek_Destroy_def
  using EncoderKVCache_layers(1) [OF assms, unfolded ek.layers_at_def] by (intro layers_freed) simp_all

lemma EncoderKVCache_fails:
  assumes "fresh_alloc alloc" "EncoderKVCache alloc n_layers batch_size seq_len n_head head_dim t h = (h', Inl e)"
  shows "h \<subseteq>\<^sub>m h'"
  using assms(2) ek.layers_fail [OF assms(1)] by (auto simp: EncoderKVCache_def split: prod.splits sum.splits)

lemma DecoderKVCache_fails:
  assumes "fresh_alloc alloc" "DecoderKVCache alloc n_layers batch_size max_seq_len n_head head_dim t h = (h', Inl e)"
  shows "h \<subseteq>\<^sub>m h'"
  using assms(2) dk.layers_fail [OF assms(1)] by (auto simp: DecoderKVCache_def split: prod.splits sum.splits)

text \<open>An allocator that has room for two buffers, at the addresses 64 and 128.\<close>

definition two_slots :: "heap \<Rightarrow> u64 \<Rightarrow> u64" where
  "two_slots h n = (if h 64 = None then 64 else if h 128 = None then 128 else 0)"

lemma fresh_two_slots: "fresh_alloc two_slots"
  by (simp add: fresh_alloc_def two_slots_def)

definition tiny_cache :: decoder_cache where
  "tiny_cache =
     \<lparr>dk_n_layers = 1, dk_batch_size = 1, dk_max_seq_len = 2, dk_n_head = 1, dk_head_dim = 1, dk_dtype = INT8,
      dk_current_seq_len = 0,
      dk_keys = [(layer_proto 1 2 1 1 INT8)\<lparr>t_data := 64, t_stride := [2, 1, 1, 1]\<rparr>],
      dk_values = [(layer_proto 1 2 1 1 INT8)\<lparr>t_data := 128, t_stride := [2, 1, 1, 1]\<rparr>]\<rparr>"

definition tiny_heap :: heap where
  "tiny_heap = [64 \<mapsto> replicate 64 0, 128 \<mapsto> replicate 64 0]"

lemma padded_tiny: "padded_bytes (layer_proto 1 2 1 1 INT8) = 64"
  by (simp add: padded_bytes_def tensor_bytes_def layer_proto_def numeral_eq_Suc)

lemma tiny_cache_new: "DecoderKVCache two_slots 1 1 2 1 1 INT8 Map.empty = (tiny_heap, Inr tiny_cache)"
  by (simp add: DecoderKVCache_def dk_AllocateTensor_def padded_tiny two_slots_def tiny_cache_def tiny_heap_def Let_def)
    (simp add: layer_proto_def numeral_eq_Suc)

lemma leaking_constructor:
  "\<exists>e hl. DecoderKVCache two_slots 2 1 2 1 1 INT8 Map.empty = (hl, Inl e) \<and> hl 64 \<noteq> None \<and> hl 128 \<noteq> None"
proof -
  have two: "nat 2 = Suc (Suc 0)" by simp
  show ?thesis unfolding DecoderKVCache_def two
    by (simp add: dk_AllocateTensor_def padded_tiny two_slots_def Let_def)
qed

lemma tiny_cache_reachable: "dk_reachable two_slots tiny_cache tiny_heap"
  by (rule dk_new [OF tiny_cache_new]) (simp add: dk_geometry_def dk_elems_def tiny_cache_def)

section \<open>Properties\<close>

text \<open>C20: in every cache the code can reach, adding a token for a layer and batch row of the cache, while there is room,
  stores the token's keys and values at the current position of that row, where a read through the view's strides finds
  them, and leaves every other position of every layer and every buffer outside the cache as it was; with an unknown
  layer or a full cache nothing is written.\<close>

theorem decoder_cache_roundtrip:
  assumes "dk_reachable alloc c h" "fresh_alloc alloc"
    and "0 \<le> b" "b < dk_batch_size c" "length k = dk_entry c" "length v = dk_entry c"
  shows "\<exists>h'. AddToken layer b k v c h = Some h' \<and> dk_reachable alloc c h' \<and>
    (if layer < 0 \<or> dk_n_layers c \<le> layer \<or> dk_current_seq_len c = dk_max_seq_len c then h' = h
     else (\<forall>l' b' s'. 0 \<le> l' \<longrightarrow> l' < dk_n_layers c \<longrightarrow> 0 \<le> b' \<longrightarrow> b' < dk_batch_size c \<longrightarrow> 0 \<le> s' \<longrightarrow> s' < dk_max_seq_len c \<longrightarrow>
        read_entry c (dk_keys c ! nat l') b' s' h' =
          (if l' = layer \<and> b' = b \<and> s' = dk_current_seq_len c then Some k else read_entry c (dk_keys c ! nat l') b' s' h) \<and>
        read_entry c (dk_values c ! nat l') b' s' h' =
          (if l' = layer \<and> b' = b \<and> s' = dk_current_seq_len c then Some v else read_entry c (dk_values c ! nat l') b' s' h)) \<and>
      (\<forall>p. p \<notin> t_data ` set (dk_keys c @ dk_values c) \<longrightarrow> h' p = h p))"
proof -
  have inv: "dk_inv c h" by (rule dk_reachable_inv [OF assms(1,2)])
  then have le: "dk_current_seq_len c \<le> dk_max_seq_len c" by (simp add: dk_inv_def)
  show ?thesis
  proof (cases "layer < 0 \<or> dk_n_layers c \<le> layer \<or> dk_current_seq_len c = dk_max_seq_len c")
    case True
    then show ?thesis using AddToken_refused [of layer c b k v h] assms(1) by (intro exI [of _ h]) auto
  next
    case False
    then have r: "0 \<le> layer" "layer < dk_n_layers c" "dk_current_seq_len c < dk_max_seq_len c" using le by auto
    obtain h' where h': "AddToken layer b k v c h = Some h'"
      "\<And>l' b' s'. \<lbrakk>0 \<le> l'; l' < dk_n_layers c; 0 \<le> b'; b' < dk_batch_size c; 0 \<le> s'; s' < dk_max_seq_len c\<rbrakk> \<Longrightarrow>
        read_entry c (dk_keys c ! nat l') b' s' h' =
          (if l' = layer \<and> b' = b \<and> s' = dk_current_seq_len c then Some k else read_entry c (dk_keys c ! nat l') b' s' h) \<and>
        read_entry c (dk_values c ! nat l') b' s' h' =
          (if l' = layer \<and> b' = b \<and> s' = dk_current_seq_len c then Some v else read_entry c (dk_values c ! nat l') b' s' h)"
      "\<And>p. p \<notin> t_data ` set (dk_keys c @ dk_values c) \<Longrightarrow> h' p = h p"
      by (rule AddToken_writes [OF inv r(1,2) assms(3,4) r(3) assms(5,6)]) blast
    have "dk_reachable alloc c h'" by (rule dk_add [OF assms(1,3-6) h'(1)])
    then show ?thesis unfolding if_not_P [OF False] using h' by blast
  qed
qed

theorem decoder_cache_roundtrip_witness:
  "\<exists>h'. AddToken 0 0 [7] [9] tiny_cache tiny_heap = Some h' \<and> read_entry tiny_cache (dk_keys tiny_cache ! 0) 0 0 h' = Some [7]"
proof -
  have e: "dk_entry tiny_cache = 1" by (simp add: dk_entry_def tiny_cache_def)
  have g: "dk_n_layers tiny_cache = 1" "dk_batch_size tiny_cache = 1" "dk_max_seq_len tiny_cache = 2"
    "dk_current_seq_len tiny_cache = 0" by (simp_all add: tiny_cache_def)
  obtain h' where a: "AddToken 0 0 [7] [9] tiny_cache tiny_heap = Some h'"
    and r: "\<forall>l' b' s'. 0 \<le> l' \<longrightarrow> l' < 1 \<longrightarrow> 0 \<le> b' \<longrightarrow> b' < 1 \<longrightarrow> 0 \<le> s' \<longrightarrow> s' < 2 \<longrightarrow>
      read_entry tiny_cache (dk_keys tiny_cache ! nat l') b' s' h' =
        (if l' = 0 \<and> b' = 0 \<and> s' = 0 then Some [7] else read_entry tiny_cache (dk_keys tiny_cache ! nat l') b' s' tiny_heap)"
    using decoder_cache_roundtrip [OF tiny_cache_reachable fresh_two_slots, of 0 "[7]" "[9]" 0] by (auto simp: e g)
  show ?thesis using a r [THEN spec [of _ 0], THEN spec [of _ 0], THEN spec [of _ 0]] by (intro exI [of _ h']) simp
qed

text \<open>destroying a cache that was constructed gives back the heap it was constructed in, for the encoder cache and for
  the decoder cache after any writes to its own buffers; but a constructor that fails midway keeps the heap it
  found and can leave buffers behind that nobody frees.\<close>

theorem cache_lifecycle:
  assumes fresh: "fresh_alloc alloc"
  shows "(\<forall>h'' c. DecoderKVCache alloc n B S H D t h = (h', Inr c) \<longrightarrow>
        (\<forall>p. p \<notin> t_data ` set (dk_keys c @ dk_values c) \<longrightarrow> h'' p = h' p) \<longrightarrow> dk_Destroy c h'' = h) \<and>
    (\<forall>c. EncoderKVCache alloc n B S H D t h = (h', Inr c) \<longrightarrow> ek_Destroy c h' = h) \<and>
    (\<forall>e. DecoderKVCache alloc n B S H D t h = (h', Inl e) \<or> EncoderKVCache alloc n B S H D t h = (h', Inl e) \<longrightarrow> h \<subseteq>\<^sub>m h') \<and>
    (\<exists>e hl. DecoderKVCache two_slots 2 1 2 1 1 INT8 Map.empty = (hl, Inl e) \<and> hl 64 \<noteq> None \<and> hl 128 \<noteq> None)"
proof (intro conjI allI impI)
  show "dk_Destroy c h'' = h" if "DecoderKVCache alloc n B S H D t h = (h', Inr c)"
    "\<forall>p. p \<notin> t_data ` set (dk_keys c @ dk_values c) \<longrightarrow> h'' p = h' p" for h'' c by (rule dk_Destroy_restores [OF fresh that])
  show "ek_Destroy c h' = h" if "EncoderKVCache alloc n B S H D t h = (h', Inr c)" for c by (rule ek_Destroy_restores [OF fresh that])
  show "h \<subseteq>\<^sub>m h'" if "DecoderKVCache alloc n B S H D t h = (h', Inl e) \<or> EncoderKVCache alloc n B S H D t h = (h', Inl e)" for e
    using that DecoderKVCache_fails [OF fresh] EncoderKVCache_fails [OF fresh] by blast
  show "\<exists>e hl. DecoderKVCache two_slots 2 1 2 1 1 INT8 Map.empty = (hl, Inl e) \<and> hl 64 \<noteq> None \<and> hl 128 \<noteq> None"
    by (rule leaking_constructor)
qed

theorem cache_lifecycle_witness: "dk_Destroy tiny_cache tiny_heap = Map.empty"
  using cache_lifecycle [OF fresh_two_slots, of 1 1 2 1 1 INT8 Map.empty tiny_heap] tiny_cache_new by simp

text \<open>The memory usage a decoder cache reports is the size of its tensors while the element count of one tensor
  fits an \<^verbatim>\<open>int\<close>; at \<open>2 ^ 31\<close> elements the product wraps and the report is wrong, where the encoder cache of
  the same geometry still reports the size.\<close>

theorem decoder_memory_usage:
  assumes "dk_geometry c" "0 \<le> dk_n_layers c" "dk_elems c < 2 ^ 31"
    and "dk_n_layers c * 2 * dk_elems c * uint (DTypeSizeBytes (dk_dtype c)) < 2 ^ 64"
  shows "uint (dk_GetMemoryUsage c) = dk_n_layers c * 2 * dk_elems c * uint (DTypeSizeBytes (dk_dtype c)) \<and>
    uint (dk_GetMemoryUsage (c\<lparr>dk_n_layers := 1, dk_batch_size := 1, dk_max_seq_len := 2 ^ 17, dk_n_head := 2 ^ 6,
      dk_head_dim := 2 ^ 8, dk_dtype := F16\<rparr>)) = 2 ^ 64 - 2 ^ 33 \<and>
    ek_GetMemoryUsage \<lparr>ek_n_layers = 1, ek_batch_size = 1, ek_seq_len = 2 ^ 17, ek_n_head = 2 ^ 6, ek_head_dim = 2 ^ 8,
      ek_dtype = F16, ek_keys = [], ek_values = []\<rparr> = 2 ^ 33"
proof (intro conjI)
  let ?n = "dk_n_layers c * 2 * dk_elems c * uint (DTypeSizeBytes (dk_dtype c))"
  have pos: "0 \<le> dk_elems c" using assms(1) by (simp add: dk_geometry_def dk_elems_def)
  have "signed_take_bit 31 (dk_elems c) = dk_elems c" using assms(3) pos by (simp add: signed_take_bit_int_eq_self)
  then have "dk_GetMemoryUsage c = of_int (dk_n_layers c * 2) * (of_int (dk_elems c) * DTypeSizeBytes (dk_dtype c))"
    unfolding dk_GetMemoryUsage_def Let_def dk_elems_def by simp
  then have "dk_GetMemoryUsage c = of_int ?n" by (simp add: mult.assoc)
  then show "uint (dk_GetMemoryUsage c) = ?n" using assms(2,4) pos uint_small [of ?n] by simp
qed (simp_all add: dk_GetMemoryUsage_def ek_GetMemoryUsage_def Let_def signed_take_bit_int_eq_self_iff)

theorem decoder_memory_usage_witness: "uint (dk_GetMemoryUsage tiny_cache) = 4"
  using decoder_memory_usage [of tiny_cache] by (simp add: dk_geometry_def dk_elems_def tiny_cache_def)

end
