(* ===== verification/Operation_Graph.thy ===== *)
theory Operation_Graph
  imports Tensor Machine_Float
begin

text \<open>
  Captured operation graphs, from \<^verbatim>\<open>core/include/densecore/hal/operation_graph.h\<close> and
  \<^verbatim>\<open>core/src/hal/operation_graph.cpp\<close>: the graph container, its sequential execution on the CPU, the
  Add/RMSNorm fusion and the buffer-reuse analysis. The numeric kernels a node dispatches to are parameters:
  a kernel sees the descriptors and the contents of its operands and the descriptor of its output. The contents
  are kept in a store by data pointer, so tensors with the same pointer alias. An index outside a
  table is undefined behaviour, a \<^verbatim>\<open>std::get\<close> on the wrong alternative throws.
\<close>

section \<open>Operations and their parameters\<close>

datatype (plugins only: code) op_type =
    Op_MatMul | Op_MatMulTransB | Op_GemmInt4 | Op_Add | Op_RMSNorm | Op_AddRMSNorm | Op_LayerNorm | Op_Softmax | Op_SiLU
  | Op_GELU | Op_SiLUMul | Op_RoPE | Op_FlashAttention | Op_FusedQKVProjection | Op_Copy | Op_Quantize | Op_Dequantize
  | Op_Embedding | Op_CrossAttention | Op_PatchEmbed2D | Op_PatchEmbed3D | Op_RoPE2D | Op_WindowAttention
  | Op_PosInterpolation | Op_RGBToFloat | Op_YUV422ToFloat | Op_Conv2D | Op_Upsample2D | Op_QuickGELU | Op_AdaLN
  | Op_GroupNorm | Op_TimestepEmbed | Op_Patchify | Op_Unpatchify | Op_TemporalAttention | Op_NoiseSchedule
  | Op_TemporalRoPE | Op_PointCloudPatchify | Op_PointCloudUnpatchify | Op_DeformableAttention | Op_GridSample
  | Op_BEVQuery | Op_ScatterReduce | Op_PointAttention | Op_FarthestPointSampling | Op_KNNQuery | Op_BallQuery
  | Op_NeRFPositionalEncoding | Op_GaussianFourierFeatures | Op_MoEGating | Op_MoEScatter | Op_MoEGather | Op_MoEForward
  | Op_MelSpectrogram | Op_AudioConv1D | Op_PairRepresentation | Op_TriangularAttention | Op_InvariantPointAttention
  | Op_TriangularMultUpdate | Op_AttentionWithPairBias | Op_Custom

primrec OpTypeName :: "op_type \<Rightarrow> string" where
  "OpTypeName Op_MatMul = ''MatMul''"
| "OpTypeName Op_MatMulTransB = ''MatMulTransB''"
| "OpTypeName Op_GemmInt4 = ''GemmInt4''"
| "OpTypeName Op_Add = ''Add''"
| "OpTypeName Op_RMSNorm = ''RMSNorm''"
| "OpTypeName Op_AddRMSNorm = ''AddRMSNorm''"
| "OpTypeName Op_LayerNorm = ''LayerNorm''"
| "OpTypeName Op_Softmax = ''Softmax''"
| "OpTypeName Op_SiLU = ''SiLU''"
| "OpTypeName Op_GELU = ''GELU''"
| "OpTypeName Op_SiLUMul = ''SiLUMul''"
| "OpTypeName Op_RoPE = ''RoPE''"
| "OpTypeName Op_FlashAttention = ''FlashAttention''"
| "OpTypeName Op_FusedQKVProjection = ''FusedQKVProjection''"
| "OpTypeName Op_Copy = ''Copy''"
| "OpTypeName Op_Quantize = ''Quantize''"
| "OpTypeName Op_Dequantize = ''Dequantize''"
| "OpTypeName Op_Embedding = ''Embedding''"
| "OpTypeName Op_CrossAttention = ''CrossAttention''"
| "OpTypeName Op_PatchEmbed2D = ''PatchEmbed2D''"
| "OpTypeName Op_PatchEmbed3D = ''PatchEmbed3D''"
| "OpTypeName Op_RoPE2D = ''RoPE2D''"
| "OpTypeName Op_WindowAttention = ''WindowAttention''"
| "OpTypeName Op_PosInterpolation = ''PosInterpolation''"
| "OpTypeName Op_RGBToFloat = ''RGBToFloat''"
| "OpTypeName Op_YUV422ToFloat = ''YUV422ToFloat''"
| "OpTypeName Op_Conv2D = ''Conv2D''"
| "OpTypeName Op_Upsample2D = ''Upsample2D''"
| "OpTypeName Op_QuickGELU = ''QuickGELU''"
| "OpTypeName Op_AdaLN = ''AdaLN''"
| "OpTypeName Op_GroupNorm = ''GroupNorm''"
| "OpTypeName Op_TimestepEmbed = ''TimestepEmbed''"
| "OpTypeName Op_Patchify = ''Patchify''"
| "OpTypeName Op_Unpatchify = ''Unpatchify''"
| "OpTypeName Op_TemporalAttention = ''TemporalAttention''"
| "OpTypeName Op_NoiseSchedule = ''Unknown''"
| "OpTypeName Op_TemporalRoPE = ''Unknown''"
| "OpTypeName Op_PointCloudPatchify = ''PointCloudPatchify''"
| "OpTypeName Op_PointCloudUnpatchify = ''PointCloudUnpatchify''"
| "OpTypeName Op_DeformableAttention = ''DeformableAttention''"
| "OpTypeName Op_GridSample = ''GridSample''"
| "OpTypeName Op_BEVQuery = ''BEVQuery''"
| "OpTypeName Op_ScatterReduce = ''ScatterReduce''"
| "OpTypeName Op_PointAttention = ''PointAttention''"
| "OpTypeName Op_FarthestPointSampling = ''FarthestPointSampling''"
| "OpTypeName Op_KNNQuery = ''KNNQuery''"
| "OpTypeName Op_BallQuery = ''BallQuery''"
| "OpTypeName Op_NeRFPositionalEncoding = ''NeRFPositionalEncoding''"
| "OpTypeName Op_GaussianFourierFeatures = ''GaussianFourierFeatures''"
| "OpTypeName Op_MoEGating = ''MoEGating''"
| "OpTypeName Op_MoEScatter = ''MoEScatter''"
| "OpTypeName Op_MoEGather = ''MoEGather''"
| "OpTypeName Op_MoEForward = ''MoEForward''"
| "OpTypeName Op_MelSpectrogram = ''MelSpectrogram''"
| "OpTypeName Op_AudioConv1D = ''AudioConv1D''"
| "OpTypeName Op_PairRepresentation = ''PairRepresentation''"
| "OpTypeName Op_TriangularAttention = ''TriangularAttention''"
| "OpTypeName Op_InvariantPointAttention = ''InvariantPointAttention''"
| "OpTypeName Op_TriangularMultUpdate = ''TriangularMultUpdate''"
| "OpTypeName Op_AttentionWithPairBias = ''AttentionWithPairBias''"
| "OpTypeName Op_Custom = ''Custom''"

datatype quant_type = QT_FP32 | QT_FP16 | QT_BF16 | QT_INT8 | QT_Q4_0 | QT_Q4_K

record rms_norm_params =
  rms_eps :: rat
  rms_fused_add :: bool

datatype (plugins only: code) op_params =
    Monostate
  | MatMulParams bool bool rat rat int
  | RMSNormParams rms_norm_params
  | LayerNormParams rat bool int
  | RoPEParams int bool
  | FlashAttentionParams rat bool int int int int int rat u32
  | TriangularAttentionParams int bool rat int int int int int
  | QuantizeParams quant_type int
  | TriangularMultUpdateParams bool bool int int int int int
  | AttentionWithPairBiasParams int int rat int
  | PatchEmbedParams int int bool bool
  | AdaLNParams rat bool
  | GroupNormParams int rat bool
  | TimestepEmbedParams int int
  | DeformableAttentionParams int int int rat
  | CrossAttentionParams rat int int bool
  | MoEParams int int bool int int
  | MelSpectrogramParams int int int int rat rat
  | AudioConv1DParams int int int int int
  | Conv2DParams int int int int
  | Upsample2DParams int bool
  | FarthestPointSamplingParams int
  | KNNQueryParams int
  | BallQueryParams rat int
  | NeRFPositionalEncodingParams int bool
  | GaussianFourierFeaturesParams
  | PointCloudPatchifyParams int int rat

section \<open>The graph container\<close>

record graph_node =
  gn_op :: op_type
  gn_inputs :: "nat list"
  gn_outputs :: "nat list"
  gn_params :: op_params
  gn_name :: string

record operation_graph =
  og_nodes :: "graph_node list"
  og_tensors :: "tensor list"
  og_output_indices :: "nat list"
  og_compiled :: bool

definition OperationGraph :: operation_graph where
  "OperationGraph = \<lparr>og_nodes = [], og_tensors = [], og_output_indices = [], og_compiled = False\<rparr>"

definition RegisterTensor :: "tensor \<Rightarrow> operation_graph \<Rightarrow> nat \<times> operation_graph" where
  "RegisterTensor t g = (length (og_tensors g), g\<lparr>og_tensors := og_tensors g @ [t]\<rparr>)"

definition AddTensor :: "tensor \<Rightarrow> operation_graph \<Rightarrow> nat \<times> operation_graph" where
  "AddTensor t g = RegisterTensor t g"

definition AddNode :: "graph_node \<Rightarrow> operation_graph \<Rightarrow> operation_graph" where
  "AddNode n g = g\<lparr>og_nodes := og_nodes g @ [n]\<rparr>"

definition AddNodeOp :: "op_type \<Rightarrow> nat list \<Rightarrow> nat list \<Rightarrow> string \<Rightarrow> op_params \<Rightarrow> operation_graph \<Rightarrow> operation_graph" where
  "AddNodeOp op inputs outputs name params g =
     g\<lparr>og_nodes := og_nodes g @
        [\<lparr>gn_op = op, gn_inputs = inputs, gn_outputs = outputs, gn_params = params, gn_name = name\<rparr>]\<rparr>"

definition MarkOutput :: "nat \<Rightarrow> operation_graph \<Rightarrow> operation_graph" where
  "MarkOutput i g = g\<lparr>og_output_indices := og_output_indices g @ [i]\<rparr>"

definition NodeCount :: "operation_graph \<Rightarrow> nat" where "NodeCount g = length (og_nodes g)"

definition TensorCount :: "operation_graph \<Rightarrow> nat" where "TensorCount g = length (og_tensors g)"

definition og_Compile :: "operation_graph \<Rightarrow> operation_graph" where "og_Compile g = g\<lparr>og_compiled := True\<rparr>"

definition og_Clear :: "operation_graph \<Rightarrow> operation_graph" where
  "og_Clear g = g\<lparr>og_nodes := [], og_tensors := [], og_compiled := False\<rparr>"

definition ReplaceNodes :: "graph_node list \<Rightarrow> operation_graph \<Rightarrow> operation_graph" where
  "ReplaceNodes nodes g = g\<lparr>og_nodes := nodes\<rparr>"

section \<open>Execution\<close>

type_synonym 'v operand = "tensor \<times> 'v"

record 'v kernels =
  k_AddF32 :: "'v operand \<Rightarrow> 'v operand \<Rightarrow> tensor \<Rightarrow> 'v"
  k_MatMul :: "'v operand \<Rightarrow> 'v operand \<Rightarrow> tensor \<Rightarrow> 'v"
  k_RMSNorm :: "rat \<Rightarrow> 'v operand \<Rightarrow> 'v operand \<Rightarrow> tensor \<Rightarrow> 'v"
  k_AddRMSNorm :: "rat \<Rightarrow> 'v operand \<Rightarrow> 'v operand \<Rightarrow> 'v operand \<Rightarrow> tensor \<Rightarrow> 'v"
  k_SiLU :: "'v operand \<Rightarrow> tensor \<Rightarrow> 'v"
  k_GELU :: "'v operand \<Rightarrow> tensor \<Rightarrow> 'v"
  k_SoftmaxF32 :: "'v operand \<Rightarrow> tensor \<Rightarrow> 'v"
  k_Copy :: "'v operand \<Rightarrow> tensor \<Rightarrow> 'v"

type_synonym 'v store = "u64 \<Rightarrow> 'v"

datatype exec_error = OutOfRange | BadVariantAccess

text \<open>Input \<open>k\<close> and output 0 of a node.\<close>

definition node_input :: "graph_node \<Rightarrow> tensor list \<Rightarrow> 'v store \<Rightarrow> nat \<Rightarrow> 'v operand" where
  "node_input n ts s k = (let t = ts ! (gn_inputs n ! k) in (t, s (t_data t)))"

definition node_output :: "graph_node \<Rightarrow> tensor list \<Rightarrow> tensor" where
  "node_output n ts = ts ! (gn_outputs n ! 0)"

definition has_operands :: "nat \<Rightarrow> graph_node \<Rightarrow> tensor list \<Rightarrow> bool" where
  "has_operands k n ts \<longleftrightarrow> k \<le> length (gn_inputs n) \<and> gn_outputs n \<noteq> [] \<and>
     list_all (\<lambda>i. i < length ts) (take k (gn_inputs n)) \<and> gn_outputs n ! 0 < length ts"

definition run_kernel :: "nat \<Rightarrow> graph_node \<Rightarrow> tensor list \<Rightarrow> (tensor \<Rightarrow> 'v) \<Rightarrow> 'v store \<Rightarrow> exec_error + 'v store" where
  "run_kernel k n ts f s =
     (if has_operands k n ts then Inr (s(t_data (node_output n ts) := f (node_output n ts))) else Inl OutOfRange)"

definition ExecuteNode :: "'v kernels \<Rightarrow> graph_node \<Rightarrow> tensor list \<Rightarrow> 'v store \<Rightarrow> exec_error + 'v store" where
  "ExecuteNode K n ts s =
     (let x = node_input n ts s
      in case gn_op n of
           Op_Add \<Rightarrow>
             if 2 \<le> length (gn_inputs n) \<and> 1 \<le> length (gn_outputs n) then run_kernel 2 n ts (k_AddF32 K (x 0) (x 1)) s else Inr s
         | Op_MatMul \<Rightarrow> run_kernel 2 n ts (k_MatMul K (x 0) (x 1)) s
         | Op_RMSNorm \<Rightarrow>
             (case gn_params n of
                RMSNormParams p \<Rightarrow> run_kernel 2 n ts (k_RMSNorm K (rms_eps p) (x 0) (x 1)) s
              | _ \<Rightarrow> Inl BadVariantAccess)
         | Op_AddRMSNorm \<Rightarrow>
             (case gn_params n of
                RMSNormParams p \<Rightarrow> run_kernel 3 n ts (k_AddRMSNorm K (rms_eps p) (x 0) (x 1) (x 2)) s
              | _ \<Rightarrow> Inl BadVariantAccess)
         | Op_SiLU \<Rightarrow> run_kernel 1 n ts (k_SiLU K (x 0)) s
         | Op_GELU \<Rightarrow> run_kernel 1 n ts (k_GELU K (x 0)) s
         | Op_Softmax \<Rightarrow> run_kernel 1 n ts (k_SoftmaxF32 K (x 0)) s
         | Op_Copy \<Rightarrow> run_kernel 1 n ts (k_Copy K (x 0)) s
         | _ \<Rightarrow> Inr s)"

fun execute_nodes :: "'v kernels \<Rightarrow> tensor list \<Rightarrow> graph_node list \<Rightarrow> 'v store \<Rightarrow> exec_error + 'v store" where
  "execute_nodes K ts [] s = Inr s"
| "execute_nodes K ts (n # ns) s = (case ExecuteNode K n ts s of Inl e \<Rightarrow> Inl e | Inr s' \<Rightarrow> execute_nodes K ts ns s')"

definition ExecuteGraph :: "'v kernels \<Rightarrow> operation_graph \<Rightarrow> 'v store \<Rightarrow> exec_error + 'v store" where
  "ExecuteGraph K g s = execute_nodes K (og_tensors g) (og_nodes g) s"

section \<open>Fusion of Add and RMSNorm\<close>

definition tensor_use_count :: "operation_graph \<Rightarrow> nat list" where
  "tensor_use_count g =
     fold (\<lambda>i c. if i < length c then c[i := c ! i + 1] else c) (concat (map gn_inputs (og_nodes g))) (replicate (TensorCount g) 0)"

definition fusible :: "nat list \<Rightarrow> graph_node \<Rightarrow> graph_node \<Rightarrow> bool" where
  "fusible uses a r \<longleftrightarrow> gn_op a = Op_Add \<and> gn_op r = Op_RMSNorm \<and> length (gn_outputs a) = 1 \<and> 2 \<le> length (gn_inputs r) \<and>
     length (gn_outputs r) = 1 \<and> gn_inputs r ! 0 = gn_outputs a ! 0 \<and>
     gn_outputs a ! 0 < length uses \<and> uses ! (gn_outputs a ! 0) = 1 \<and> 2 \<le> length (gn_inputs a)"

definition fused_node :: "graph_node \<Rightarrow> graph_node \<Rightarrow> graph_node" where
  "fused_node a r =
     \<lparr>gn_op = Op_AddRMSNorm, gn_inputs = [gn_inputs a ! 0, gn_inputs a ! 1, gn_inputs r ! 1], gn_outputs = gn_outputs r,
      gn_params = (case gn_params r of RMSNormParams p \<Rightarrow> RMSNormParams (p\<lparr>rms_fused_add := True\<rparr>) | other \<Rightarrow> other),
      gn_name = (if gn_name r = '''' then ''AddRMSNorm_fused'' else gn_name r)\<rparr>"

fun fuse_loop :: "nat list \<Rightarrow> graph_node list \<Rightarrow> graph_node list \<times> bool" where
  "fuse_loop uses [] = ([], False)"
| "fuse_loop uses [n] = ([n], False)"
| "fuse_loop uses (a # r # ns) =
     (if fusible uses a r then (fused_node a r # fst (fuse_loop uses ns), True)
      else (a # fst (fuse_loop uses (r # ns)), snd (fuse_loop uses (r # ns))))"

definition FuseAddRMSNorm :: "operation_graph \<Rightarrow> bool \<times> operation_graph" where
  "FuseAddRMSNorm g =
     (if NodeCount g < 2 then (False, g)
      else let (new_nodes, modified) = fuse_loop (tensor_use_count g) (og_nodes g)
           in (modified, if modified then ReplaceNodes new_nodes g else g))"

section \<open>Buffer reuse\<close>

definition last_use :: "operation_graph \<Rightarrow> nat list" where
  "last_use g =
     fold (\<lambda>(k, n) lu. fold (\<lambda>i lu. lu[i := k]) (gn_inputs n) lu) (enumerate 0 (og_nodes g)) (replicate (TensorCount g) 0)"

text \<open>The input whose buffer an output of node \<open>k\<close> takes over: the first one not used later and large enough.\<close>

definition reusable_input :: "operation_graph \<Rightarrow> nat list \<Rightarrow> nat \<Rightarrow> graph_node \<Rightarrow> nat \<Rightarrow> nat option" where
  "reusable_input g lu k n out =
     find (\<lambda>i. lu ! i = k \<and> SizeBytes (og_tensors g ! out) \<le> SizeBytes (og_tensors g ! i)) (gn_inputs n)"

definition reuse_node :: "operation_graph \<Rightarrow> nat list \<Rightarrow> nat \<times> graph_node \<Rightarrow> int list \<Rightarrow> int list" where
  "reuse_node g lu = (\<lambda>(k, n). fold (\<lambda>out m. case reusable_input g lu k n out of None \<Rightarrow> m | Some i \<Rightarrow> m[out := int i]) (gn_outputs n))"

definition AnalyzeBufferReuse :: "operation_graph \<Rightarrow> int list" where
  "AnalyzeBufferReuse g = fold (reuse_node g (last_use g)) (enumerate 0 (og_nodes g)) (replicate (TensorCount g) (- 1))"

end
