(* ===== verification/Graph_Laws.thy ===== *)
theory Graph_Laws
  imports Operation_Graph
begin

text \<open>
  Laws of the operation graphs: the fusion pass preserves what the graph computes, and what the buffer-reuse
  analysis guarantees.
\<close>

section \<open>Use counts\<close>



section \<open>What a node reads and writes\<close>
















section \<open>The fusion pass\<close>

text \<open>The tensors whose sums the pass no longer stores.\<close>

fun fused_sums :: "nat list \<Rightarrow> graph_node list \<Rightarrow> nat list" where
  "fused_sums uses [] = []"
| "fused_sums uses [n] = []"
| "fused_sums uses (a # r # ns) =
     (if fusible uses a r then gn_outputs a ! 0 # fused_sums uses ns else fused_sums uses (r # ns))"






definition graph_wf :: "tensor list \<Rightarrow> graph_node list \<Rightarrow> bool" where
  "graph_wf ts ns \<longleftrightarrow> distinct (map t_data ts) \<and>
     (\<forall>n \<in> set ns. (\<forall>i \<in> set (gn_inputs n) \<union> set (gn_outputs n). i < length ts) \<and>
        (gn_op n = Op_Add \<longrightarrow> 2 \<le> length (gn_inputs n) \<longrightarrow> gn_outputs n \<noteq> [] \<longrightarrow>
           t_shape (ts ! (gn_outputs n ! 0)) = t_shape (ts ! (gn_inputs n ! 0)) \<and>
           t_ndim (ts ! (gn_outputs n ! 0)) = t_ndim (ts ! (gn_inputs n ! 0))))"






lemma FuseAddRMSNorm_nodes:
  "og_nodes (snd (FuseAddRMSNorm g)) = fst (fuse_loop (tensor_use_count g) (og_nodes g))"
  "og_tensors (snd (FuseAddRMSNorm g)) = og_tensors g"
proof -
  have keep: "\<not> snd (fuse_loop uses ns) \<Longrightarrow> fst (fuse_loop uses ns) = ns" for uses ns
    by (induction uses ns rule: fuse_loop.induct) (auto split: if_splits)
  have short: "length ns < 2 \<Longrightarrow> fst (fuse_loop uses ns) = ns" for uses and ns :: "graph_node list"
    by (cases ns; cases "tl ns") auto
  show "og_nodes (snd (FuseAddRMSNorm g)) = fst (fuse_loop (tensor_use_count g) (og_nodes g))"
    using keep [of "tensor_use_count g" "og_nodes g"] short [of "og_nodes g" "tensor_use_count g"]
    by (cases "fuse_loop (tensor_use_count g) (og_nodes g)"; cases "snd (fuse_loop (tensor_use_count g) (og_nodes g))")
      (simp_all add: FuseAddRMSNorm_def NodeCount_def ReplaceNodes_def)
  show "og_tensors (snd (FuseAddRMSNorm g)) = og_tensors g"
    by (simp add: FuseAddRMSNorm_def ReplaceNodes_def split: prod.split)
qed

section \<open>Buffer reuse\<close>

lemma last_use_inner:
  "length (fold (\<lambda>i lu. lu[i := k]) is lu) = length lu"
  "i < length lu \<Longrightarrow> fold (\<lambda>i lu. lu[i := k]) is lu ! i = (if i \<in> set is then k else lu ! i)"
  by (induction "is" arbitrary: lu) (auto simp: nth_list_update)

definition last_use_from :: "nat \<Rightarrow> graph_node list \<Rightarrow> nat list \<Rightarrow> nat list" where
  "last_use_from m ns lu = fold (\<lambda>(k, n) lu. fold (\<lambda>i lu. lu[i := k]) (gn_inputs n) lu) (enumerate m ns) lu"

lemma last_use_fold:
  assumes "\<forall>n \<in> set ns. \<forall>i \<in> set (gn_inputs n). i < length lu" "i < length lu"
  shows "((\<forall>n \<in> set ns. i \<notin> set (gn_inputs n)) \<longrightarrow> last_use_from m ns lu ! i = lu ! i) \<and>
    (\<forall>j < length ns. i \<in> set (gn_inputs (ns ! j)) \<longrightarrow> m + j \<le> last_use_from m ns lu ! i)"
  using assms
proof (induction ns arbitrary: m lu)
  case Nil
  then show ?case by (simp add: last_use_from_def)
next
  case (Cons n ns)
  let ?lu = "fold (\<lambda>i lu. lu[i := m]) (gn_inputs n) lu"
  have step: "last_use_from m (n # ns) lu = last_use_from (Suc m) ns ?lu" by (simp add: last_use_from_def)
  have prem: "\<forall>n \<in> set ns. \<forall>i \<in> set (gn_inputs n). i < length ?lu" "i < length ?lu"
    using Cons.prems by (auto simp: last_use_inner(1))
  have here: "?lu ! i = (if i \<in> set (gn_inputs n) then m else lu ! i)" using Cons.prems(2) by (rule last_use_inner(2))
  note IH = Cons.IH [OF prem, of "Suc m"]
  have "m + j \<le> last_use_from (Suc m) ns ?lu ! i" if j: "j < Suc (length ns)" "i \<in> set (gn_inputs ((n # ns) ! j))" for j
  proof (cases "\<exists>j' < length ns. i \<in> set (gn_inputs (ns ! j'))")
    case True
    then obtain j' where "j' < length ns" "i \<in> set (gn_inputs (ns ! j'))" by blast
    then have later: "Suc m + j' \<le> last_use_from (Suc m) ns ?lu ! i" using IH by blast
    show ?thesis
    proof (cases j)
      case 0
      then show ?thesis using later by simp
    next
      case (Suc j0)
      then have "Suc m + j0 \<le> last_use_from (Suc m) ns ?lu ! i" using IH j by simp
      then show ?thesis using Suc by simp
    qed
  next
    case False
    then have "\<forall>n \<in> set ns. i \<notin> set (gn_inputs n)" by (metis in_set_conv_nth)
    moreover have "j = 0" using j False by (cases j) auto
    ultimately show ?thesis using IH here j by simp
  qed
  then show ?case unfolding step using IH here by simp
qed

lemma last_use_sound:
  assumes "graph_wf (og_tensors g) (og_nodes g)" "i < TensorCount g" "j < NodeCount g" "i \<in> set (gn_inputs (og_nodes g ! j))"
  shows "j \<le> last_use g ! i"
  using last_use_fold [of "og_nodes g" "replicate (TensorCount g) 0" i 0] assms
  by (auto simp: last_use_def last_use_from_def graph_wf_def TensorCount_def NodeCount_def)

definition reuse_ok :: "operation_graph \<Rightarrow> nat \<Rightarrow> int \<Rightarrow> bool" where
  "reuse_ok g out v \<longleftrightarrow> v = - 1 \<or> (\<exists>k < NodeCount g. \<exists>i \<in> set (gn_inputs (og_nodes g ! k)). v = int i \<and>
     out \<in> set (gn_outputs (og_nodes g ! k)) \<and> last_use g ! i = k \<and> SizeBytes (og_tensors g ! out) \<le> SizeBytes (og_tensors g ! i))"

lemma reuse_node_ok:
  assumes "k < NodeCount g" "n = og_nodes g ! k"
  shows "set outs \<subseteq> set (gn_outputs n) \<Longrightarrow> \<forall>out < length m. reuse_ok g out (m ! out) \<Longrightarrow>
    (let m' = fold (\<lambda>out m. case reusable_input g (last_use g) k n out of None \<Rightarrow> m | Some i \<Rightarrow> m[out := int i]) outs m
     in length m' = length m \<and> (\<forall>out < length m. reuse_ok g out (m' ! out)))"
proof (induction outs arbitrary: m)
  case (Cons out outs)
  let ?m = "case reusable_input g (last_use g) k n out of None \<Rightarrow> m | Some i \<Rightarrow> m[out := int i]"
  have len: "length ?m = length m" by (simp split: option.split)
  have "reuse_ok g out (int i)" if "reusable_input g (last_use g) k n out = Some i" for i
    using that assms Cons.prems(1) unfolding reuse_ok_def reusable_input_def find_Some_iff by (metis list.set_intros(1) nth_mem subset_iff)
  then have "\<forall>o' < length ?m. reuse_ok g o' (?m ! o')" using Cons.prems(2)
    by (cases "reusable_input g (last_use g) k n out") (simp, simp, metis nth_list_update_eq nth_list_update_neq)
  then show ?case using Cons.IH [of ?m] Cons.prems(1) len by simp
qed simp

lemma AnalyzeBufferReuse_ok:
  "length (AnalyzeBufferReuse g) = TensorCount g \<and> (\<forall>out < TensorCount g. reuse_ok g out (AnalyzeBufferReuse g ! out))"
proof -
  have "(\<forall>x \<in> set kns. fst x < NodeCount g \<and> snd x = og_nodes g ! fst x) \<Longrightarrow> \<forall>out < length m. reuse_ok g out (m ! out) \<Longrightarrow>
    (let m' = fold (reuse_node g (last_use g)) kns m in length m' = length m \<and> (\<forall>out < length m. reuse_ok g out (m' ! out)))" for kns m
  proof (induction kns arbitrary: m)
    case (Cons x kns)
    obtain k n where x: "x = (k, n)" by fastforce
    let ?m = "reuse_node g (last_use g) x m"
    have "length ?m = length m \<and> (\<forall>out < length m. reuse_ok g out (?m ! out))"
      using reuse_node_ok [of k g n "gn_outputs n" m] Cons.prems x by (simp add: reuse_node_def Let_def)
    then show ?case using Cons.IH [of ?m] Cons.prems(1) by simp
  qed simp
  from this [of "enumerate 0 (og_nodes g)" "replicate (TensorCount g) (- 1)"] show ?thesis
    by (auto simp: AnalyzeBufferReuse_def reuse_ok_def NodeCount_def in_set_enumerate_eq Let_def)
qed

section \<open>Properties\<close>

lemma fuse_loop_count:
  "length (fst (fuse_loop uses ns)) + length (fused_sums uses ns) = length ns"
  "snd (fuse_loop uses ns) \<longleftrightarrow> fused_sums uses ns \<noteq> []"
  by (induction uses ns rule: fuse_loop.induct) auto

lemma FuseAddRMSNorm_modified: "fst (FuseAddRMSNorm g) \<longleftrightarrow> fused_sums (tensor_use_count g) (og_nodes g) \<noteq> []"
proof (cases "NodeCount g < 2")
  case True
  then have "fused_sums (tensor_use_count g) (og_nodes g) = []" unfolding NodeCount_def by (cases "og_nodes g"; cases "tl (og_nodes g)") auto
  then show ?thesis using True by (simp add: FuseAddRMSNorm_def)
next
  case False
  then show ?thesis using fuse_loop_count(2) [of "tensor_use_count g" "og_nodes g"]
    by (cases "fuse_loop (tensor_use_count g) (og_nodes g)") (simp add: FuseAddRMSNorm_def)
qed

definition fusion_sums :: "operation_graph \<Rightarrow> nat list" where
  "fusion_sums g = fused_sums (tensor_use_count g) (og_nodes g)"


text \<open>A residual block: the sum of tensors 0 and 1 goes to tensor 2, its norm with weight 3 to tensor 4. The kernels
  of the example add and compare integers.\<close>

definition residual_graph :: operation_graph where
  "residual_graph =
     \<lparr>og_nodes = [\<lparr>gn_op = Op_Add, gn_inputs = [0, 1], gn_outputs = [2], gn_params = Monostate, gn_name = ''add''\<rparr>,
                  \<lparr>gn_op = Op_RMSNorm, gn_inputs = [2, 3], gn_outputs = [4],
                   gn_params = RMSNormParams \<lparr>rms_eps = 0, rms_fused_add = False\<rparr>, gn_name = ''norm''\<rparr>],
      og_tensors = map (\<lambda>p. Make1D p 8 F32 DeviceCPU) [64, 128, 192, 256, 320], og_output_indices = [2, 4], og_compiled = False\<rparr>"


lemma residual_graph_wf: "graph_wf (og_tensors residual_graph) (og_nodes residual_graph)"
  by (auto simp: graph_wf_def residual_graph_def Make1D_def Tensor_def)


lemma residual_uses: "tensor_use_count residual_graph = [1, 1, 1, 1, 0]"
  by (simp add: tensor_use_count_def residual_graph_def TensorCount_def numeral_eq_Suc)

lemma residual_sums: "fusion_sums residual_graph = [2]"
  by (simp add: fusion_sums_def residual_uses) (simp add: residual_graph_def fusible_def)


text \<open>the pass counts only the nodes that read a sum, not that the sum is marked as an output of the graph: fusing a residual
  block whose sum is an output loses that output, which keeps the stale contents of its buffer.\<close>

theorem fusion_loses_marked_output:
  "2 \<in> set (og_output_indices residual_graph) \<and> fst (FuseAddRMSNorm residual_graph) \<and>
   (\<forall>K s. \<exists>s1 s2. ExecuteGraph K residual_graph s = Inr s1 \<and> ExecuteGraph K (snd (FuseAddRMSNorm residual_graph)) s = Inr s2 \<and>
      s1 192 = k_AddF32 K (Make1D 64 8 F32 DeviceCPU, s 64) (Make1D 128 8 F32 DeviceCPU, s 128) (Make1D 192 8 F32 DeviceCPU) \<and>
      s2 192 = s 192)"
proof (intro conjI allI)
  have f: "fuse_loop [1, 1, 1, 1, 0] (og_nodes residual_graph) =
      ([fused_node (og_nodes residual_graph ! 0) (og_nodes residual_graph ! 1)], True)"
    by (simp add: residual_graph_def fusible_def)
  show "fst (FuseAddRMSNorm residual_graph)" by (simp add: FuseAddRMSNorm_modified flip: fusion_sums_def) (simp add: residual_sums)
  show "\<exists>s1 s2. ExecuteGraph K residual_graph s = Inr s1 \<and> ExecuteGraph K (snd (FuseAddRMSNorm residual_graph)) s = Inr s2 \<and>
      s1 192 = k_AddF32 K (Make1D 64 8 F32 DeviceCPU, s 64) (Make1D 128 8 F32 DeviceCPU, s 128) (Make1D 192 8 F32 DeviceCPU) \<and>
      s2 192 = s 192" for K :: "'a kernels" and s
    unfolding ExecuteGraph_def FuseAddRMSNorm_nodes residual_uses f
    by (simp add: residual_graph_def fused_node_def ExecuteNode_def Let_def run_kernel_def has_operands_def node_input_def node_output_def
        Make1D_def Tensor_def)
qed (simp add: residual_graph_def)

text \<open>C23: a buffer the analysis hands on is dead and large enough: when it lets an output reuse a tensor, that tensor is an
  input of the node that produces the output, no later node reads it, and its size covers the output. The analysis does not
  keep the outputs of one node apart, though: two of them can be given the same buffer.\<close>

theorem buffer_reuse_dead:
  assumes "graph_wf (og_tensors g) (og_nodes g)" "out < TensorCount g" "AnalyzeBufferReuse g ! out \<noteq> - 1"
  shows "(\<exists>k < NodeCount g. \<exists>i \<in> set (gn_inputs (og_nodes g ! k)). AnalyzeBufferReuse g ! out = int i \<and>
      out \<in> set (gn_outputs (og_nodes g ! k)) \<and> (\<forall>j. k < j \<longrightarrow> j < NodeCount g \<longrightarrow> i \<notin> set (gn_inputs (og_nodes g ! j))) \<and>
      SizeBytes (og_tensors g ! out) \<le> SizeBytes (og_tensors g ! i)) \<and>
    AnalyzeBufferReuse (AddNodeOp Op_Custom [0] [1, 2] [] Monostate
      (OperationGraph\<lparr>og_tensors := map (\<lambda>p. Make1D p 8 F32 DeviceCPU) [64, 128, 192]\<rparr>)) = [- 1, 0, 0]"
proof
  obtain k i where k: "k < NodeCount g" "i \<in> set (gn_inputs (og_nodes g ! k))" "AnalyzeBufferReuse g ! out = int i"
    "out \<in> set (gn_outputs (og_nodes g ! k))" "last_use g ! i = k" "SizeBytes (og_tensors g ! out) \<le> SizeBytes (og_tensors g ! i)"
    using AnalyzeBufferReuse_ok [of g] assms(2,3) unfolding reuse_ok_def by blast
  have "i < TensorCount g" using assms(1) k(1,2) by (auto simp: graph_wf_def NodeCount_def TensorCount_def)
  then have "\<forall>j. k < j \<longrightarrow> j < NodeCount g \<longrightarrow> i \<notin> set (gn_inputs (og_nodes g ! j))"
    using last_use_sound [OF assms(1), of i] k(5) by (meson not_le)
  then show "\<exists>k < NodeCount g. \<exists>i \<in> set (gn_inputs (og_nodes g ! k)). AnalyzeBufferReuse g ! out = int i \<and>
      out \<in> set (gn_outputs (og_nodes g ! k)) \<and> (\<forall>j. k < j \<longrightarrow> j < NodeCount g \<longrightarrow> i \<notin> set (gn_inputs (og_nodes g ! j))) \<and>
      SizeBytes (og_tensors g ! out) \<le> SizeBytes (og_tensors g ! i)" using k by blast
qed (simp add: AnalyzeBufferReuse_def AddNodeOp_def OperationGraph_def last_use_def reuse_node_def reusable_input_def TensorCount_def
      numeral_eq_Suc SizeBytes_def NumElements_def Make1D_def Tensor_def)

theorem buffer_reuse_dead_witness: "SizeBytes (og_tensors residual_graph ! 2) \<le> SizeBytes (og_tensors residual_graph ! 0)"
proof -
  have "AnalyzeBufferReuse residual_graph = [-1, -1, 0, -1, 2]"
    by (simp add: AnalyzeBufferReuse_def residual_graph_def last_use_def reuse_node_def reusable_input_def TensorCount_def
        numeral_eq_Suc SizeBytes_def NumElements_def Make1D_def Tensor_def)
  then have r: "AnalyzeBufferReuse residual_graph ! 2 = 0" by simp
  moreover have "2 < TensorCount residual_graph" by (simp add: TensorCount_def residual_graph_def)
  ultimately obtain i where "AnalyzeBufferReuse residual_graph ! 2 = int i"
    "SizeBytes (og_tensors residual_graph ! 2) \<le> SizeBytes (og_tensors residual_graph ! i)"
    using buffer_reuse_dead [OF residual_graph_wf, of 2] by auto
  then show ?thesis using r by simp
qed

end
