(* ===== verification/Runtime_Env.thy ===== *)
theory Runtime_Env
  imports Prelude
begin

text \<open>
  Environment-variable access, from \<^verbatim>\<open>core/src/runtime/runtime_env.h\<close>. The process environment is a map from
  names to values (\<^verbatim>\<open>std::getenv\<close>, no value contains a NUL). \<^verbatim>\<open>std::strtol\<close> with base 10 is modelled as the C standard has
  it: white space, an optional sign, decimal digits, saturation at the bounds of \<^verbatim>\<open>long\<close>, and the rest of the
  string.
\<close>

type_synonym environment = "string \<rightharpoonup> string"

datatype runtime_toggle_mode = ToggleOff | ToggleAuto | ToggleOn

definition c_tolower :: "char \<Rightarrow> char" where
  "c_tolower c = (if 65 \<le> (of_char c :: nat) \<and> (of_char c :: nat) \<le> 90 then char_of ((of_char c :: nat) + 32) else c)"

definition AsciiLowerCopy :: "string option \<Rightarrow> string" where
  "AsciiLowerCopy value = (case value of None \<Rightarrow> [] | Some s \<Rightarrow> map c_tolower s)"

definition c_isspace :: "char \<Rightarrow> bool" where
  "c_isspace c \<longleftrightarrow> (of_char c :: nat) \<in> {9, 10, 11, 12, 13, 32}"

definition c_isdigit :: "char \<Rightarrow> bool" where
  "c_isdigit c \<longleftrightarrow> 48 \<le> (of_char c :: nat) \<and> (of_char c :: nat) \<le> 57"

definition digits_value :: "string \<Rightarrow> int" where
  "digits_value ds = foldl (\<lambda>v c. 10 * v + int (of_char c - 48)) 0 ds"

abbreviation LONG_MAX :: int where "LONG_MAX \<equiv> 2 ^ 63 - 1"
abbreviation INT32_MAX :: int where "INT32_MAX \<equiv> 2 ^ 31 - 1"

definition strtol10 :: "string \<Rightarrow> int \<times> string" where
  "strtol10 s =
     (let s1 = dropWhile c_isspace s;
          neg = (s1 \<noteq> [] \<and> hd s1 = CHR ''-'');
          s2 = (if s1 \<noteq> [] \<and> hd s1 \<in> {CHR ''-'', CHR ''+''} then tl s1 else s1);
          ds = takeWhile c_isdigit s2
      in if ds = [] then (0, s)
         else (max (- LONG_MAX - 1) (min LONG_MAX (if neg then - digits_value ds else digits_value ds)), dropWhile c_isdigit s2))"

definition ParseBoolEnv :: "environment \<Rightarrow> string \<Rightarrow> bool \<Rightarrow> bool" where
  "ParseBoolEnv env name default_value =
     (case env name of
        None \<Rightarrow> default_value
      | Some value \<Rightarrow>
          if value = '''' then default_value
          else let lowered = AsciiLowerCopy (Some value)
               in if lowered \<in> {''1'', ''true'', ''yes'', ''on''} then True
                  else if lowered \<in> {''0'', ''false'', ''no'', ''off''} then False
                  else default_value)"

text \<open>In both integer parsers \<^verbatim>\<open>end == env\<close> means that there was no digit and \<^verbatim>\<open>*end\<close> is the end of the string.\<close>

definition ParsePositiveEnvInt :: "environment \<Rightarrow> string \<Rightarrow> int \<Rightarrow> int" where
  "ParsePositiveEnvInt env name default_value =
     (case env name of
        None \<Rightarrow> default_value
      | Some value \<Rightarrow>
          if value = '''' then default_value
          else let (parsed, rest) = strtol10 value
               in if rest \<noteq> [] \<or> parsed \<le> 0 \<or> INT32_MAX < parsed then default_value else parsed)"

definition ParseIntEnv :: "environment \<Rightarrow> string \<Rightarrow> int \<Rightarrow> int" where
  "ParseIntEnv env name default_value =
     (case env name of
        None \<Rightarrow> default_value
      | Some value \<Rightarrow>
          if value = '''' then default_value
          else let (parsed, rest) = strtol10 value
               in if rest \<noteq> [] then default_value
                  else if parsed < - INT32_MAX - 1 \<or> INT32_MAX < parsed then default_value else parsed)"

definition ParseRuntimeToggleModeValue :: "string option \<Rightarrow> runtime_toggle_mode \<Rightarrow> runtime_toggle_mode" where
  "ParseRuntimeToggleModeValue value default_mode =
     (case value of
        None \<Rightarrow> default_mode
      | Some v \<Rightarrow>
          if v = '''' then default_mode
          else let mode = AsciiLowerCopy (Some v)
               in if mode \<in> {''off'', ''0'', ''false'', ''no''} then ToggleOff
                  else if mode \<in> {''on'', ''1'', ''true'', ''yes'', ''force''} then ToggleOn
                  else if mode = ''auto'' then ToggleAuto
                  else default_mode)"

definition ParseRuntimeToggleMode :: "environment \<Rightarrow> string \<Rightarrow> runtime_toggle_mode \<Rightarrow> runtime_toggle_mode" where
  "ParseRuntimeToggleMode env name default_mode = ParseRuntimeToggleModeValue (env name) default_mode"

text \<open>The diagnostic accessors: \<open>on\<close> is the build constant \<^verbatim>\<open>kDiagnosticEnvEnabled\<close>.\<close>

definition ParseDiagnosticEnv :: "bool \<Rightarrow> environment \<Rightarrow> string \<Rightarrow> bool \<Rightarrow> bool" where
  "ParseDiagnosticEnv on env name default_value = (if on then ParseBoolEnv env name default_value else default_value)"

definition ParseDiagnosticEnvInt :: "bool \<Rightarrow> environment \<Rightarrow> string \<Rightarrow> int \<Rightarrow> int" where
  "ParseDiagnosticEnvInt on env name default_value = (if on then ParseIntEnv env name default_value else default_value)"

definition ParseDiagnosticPositiveEnvInt :: "bool \<Rightarrow> environment \<Rightarrow> string \<Rightarrow> int \<Rightarrow> int" where
  "ParseDiagnosticPositiveEnvInt on env name default_value =
     (if on then ParsePositiveEnvInt env name default_value else default_value)"

definition GetDiagnosticEnv :: "bool \<Rightarrow> environment \<Rightarrow> string \<Rightarrow> string option" where
  "GetDiagnosticEnv on env name = (if on then env name else None)"

section \<open>Decimal numerals\<close>

definition digit :: "nat \<Rightarrow> char" where
  "digit d = char_of (48 + d)"

fun decimal :: "nat \<Rightarrow> string" where
  "decimal n = (if n < 10 then [digit n] else decimal (n div 10) @ [digit (n mod 10)])"

declare decimal.simps [simp del]

lemma of_char_digit: "d < 10 \<Longrightarrow> (of_char (digit d) :: nat) = 48 + d"
  by (simp add: digit_def)

lemma digit_class: "d < 10 \<Longrightarrow> c_isdigit (digit d)" "d < 10 \<Longrightarrow> \<not> c_isspace (digit d)"
  by (simp_all add: c_isdigit_def c_isspace_def of_char_digit)

lemma decimal_digits: "list_all c_isdigit (decimal n) \<and> decimal n \<noteq> [] \<and> \<not> c_isspace (hd (decimal n))"
proof (induction n rule: decimal.induct)
  case (1 n)
  then show ?case by (subst (1 2 3) decimal.simps) (auto simp: digit_class)
qed

lemma digits_value_decimal: "digits_value (decimal n) = int n"
proof (induction n rule: decimal.induct)
  case (1 n)
  show ?case
  proof (cases "n < 10")
    case True
    then show ?thesis by (subst decimal.simps) (simp add: digits_value_def of_char_digit)
  next
    case False
    then show ?thesis using 1 by (subst decimal.simps) (simp add: digits_value_def of_char_digit zdiv_int zmod_int)
  qed
qed

lemma sign_not_digit: "c_isdigit c \<Longrightarrow> c \<noteq> CHR ''-'' \<and> c \<noteq> CHR ''+''"
  by (auto simp: c_isdigit_def)

lemma strtol10_decimal:
  assumes "int n \<le> LONG_MAX"
  shows "strtol10 (decimal n) = (int n, '''')"
proof -
  let ?s = "decimal n"
  have s: "?s \<noteq> []" "\<not> c_isspace (hd ?s)" "\<forall>c \<in> set ?s. c_isdigit c" using decimal_digits [of n] by (simp_all add: list_all_iff)
  then have sp: "dropWhile c_isspace ?s = ?s" by (cases ?s) simp_all
  have sg: "hd ?s \<noteq> CHR ''-''" "hd ?s \<noteq> CHR ''+''" using s sign_not_digit by (metis hd_in_set)+
  have dg: "takeWhile c_isdigit ?s = ?s" "dropWhile c_isdigit ?s = []" using s(3) by simp_all
  show ?thesis using assms s(1) by (simp add: strtol10_def Let_def digits_value_decimal sp sg dg)
qed

section \<open>Properties\<close>

text \<open>A positive integer that fits an \<^verbatim>\<open>int\<close> is read back from its decimal spelling, by both integer parsers; and whatever
  the variable holds, the positive parser returns its default or a value between 1 and \<^verbatim>\<open>INT_MAX\<close>.\<close>

theorem env_int_roundtrip:
  assumes "env name = Some (decimal n)" "0 < n" "int n \<le> INT32_MAX"
  shows "ParsePositiveEnvInt env name d = int n \<and> ParseIntEnv env name d = int n \<and>
    (ParsePositiveEnvInt env' name' d' = d' \<or> (0 < ParsePositiveEnvInt env' name' d' \<and> ParsePositiveEnvInt env' name' d' \<le> INT32_MAX))"
proof -
  have "decimal n \<noteq> []" using decimal_digits [of n] by simp
  moreover have "strtol10 (decimal n) = (int n, '''')" using assms(3) by (intro strtol10_decimal) simp
  ultimately have "ParsePositiveEnvInt env name d = int n" "ParseIntEnv env name d = int n"
    using assms by (simp_all add: ParsePositiveEnvInt_def ParseIntEnv_def)
  moreover have "ParsePositiveEnvInt env' name' d' = d' \<or> (0 < ParsePositiveEnvInt env' name' d' \<and> ParsePositiveEnvInt env' name' d' \<le> INT32_MAX)"
    by (simp add: ParsePositiveEnvInt_def split: option.split prod.split)
  ultimately show ?thesis by blast
qed

theorem env_int_roundtrip_witness: "ParsePositiveEnvInt [''CHUNK'' \<mapsto> ''384''] ''CHUNK'' 128 = 384"
proof -
  have "decimal 384 = ''384''" by code_simp
  then show ?thesis using env_int_roundtrip [of "[''CHUNK'' \<mapsto> ''384'']" "''CHUNK''" 384 128] by simp
qed

end
