(* ===== verification/Prefill_Policy.thy ===== *)
theory Prefill_Policy
  imports Prefix_Cache_Laws Runtime_Env
begin

text \<open>
  How the worker admits a prompt: the prefix-cache policy of \<^verbatim>\<open>core/src/runtime/worker_prefix_cache_policy.inl\<close> and
  the choice of the prefill chunk of \<^verbatim>\<open>worker_prefill_chunking.inl\<close>. Of a model and a request the records keep what these
  functions read. A model's variant and whether its execution contract has MoE layers are computed by the model code
  and are fields here; the graph-memory estimate (\<^verbatim>\<open>EngineState::EstimateGraphContextSize\<close>), the MoE repacking reserve
  (\<^verbatim>\<open>EstimateMoEQ4KRepackedFutureReserveBytes\<close>) and the memory the system reports available are parameters. Byte counts are
  64-bit words. A null pointer is \<open>None\<close>.
\<close>

section \<open>Models and requests\<close>

datatype model_variant =
    MV_UNKNOWN | MV_LLAMA | MV_QWEN2 | MV_QWEN3 | MV_QWEN3NEXT | MV_QWEN35 | MV_QWEN36 | MV_QWEN38 | MV_LFM2MOE | MV_GLM4_MOE
  | MV_GLM5_DSA | MV_MISTRAL | MV_GEMMA | MV_GEMMA4 | MV_PHI | MV_BERT | MV_VIT | MV_CLIP_VISION | MV_SIGLIP | MV_WHISPER | MV_LLAVA
  | MV_QWEN_VL

record layer_view =
  ly_is_moe :: bool
  ly_experts :: nat
  ly_tensor_names :: "string list"

record model_view =
  mv_variant :: model_variant
  mv_is_hybrid_ssm :: bool
  mv_is_lfm2_shortconv :: bool
  mv_is_gemma4 :: bool
  mv_n_experts :: int
  mv_n_embd :: int
  mv_decoder_spec_has_moe :: "bool option"
  mv_contract_has_moe :: bool
  mv_layers :: "layer_view list"
  mv_lfm2_conv_kernel :: int
  mv_ssm_inner_size :: int
  mv_ssm_group_count :: int
  mv_ssm_state_size :: int
  mv_ssm_time_step_rank :: int
  mv_ssm_conv_kernel :: int

record worker_config =
  prefix_cache_reuse_disabled :: bool
  hybrid_ssm_snapshot_restore_disabled :: bool
  qwen36_prefix_cache_reuse_enabled :: bool
  qwen36_hybrid_ssm_snapshot_restore_enabled :: bool

record request_view =
  rq_tokens :: "int list"
  rq_prompt_tokens_for_cache :: "int list"
  rq_original_prompt_tokens_for_cache :: "int list"
  rq_sequence_tokens_for_prefix_cache :: "int list"
  rq_prompt_token_count :: int
  rq_prefix_cache_allowed :: bool
  rq_prefix_cache_skip_reason :: string
  rq_ssm_runtime_states :: "ssm_state list"
  graph_ctx_requested_mb :: u64
  graph_ctx_available_mb :: u64
  graph_ctx_safety_margin_mb :: u64
  graph_ctx_downgraded_chunk_tokens :: int
  graph_ctx_fail_reason :: string

section \<open>Prefix-cache policy\<close>

definition is_variant_hybrid :: "model_variant \<Rightarrow> model_view option \<Rightarrow> bool" where
  "is_variant_hybrid v model = (case model of None \<Rightarrow> False | Some m \<Rightarrow> mv_is_hybrid_ssm m \<and> mv_variant m = v)"

abbreviation "IsQwen36HybridSSMModel \<equiv> is_variant_hybrid MV_QWEN36"
abbreviation "IsQwen35HybridSSMModel \<equiv> is_variant_hybrid MV_QWEN35"
abbreviation "IsQwen38HybridSSMModel \<equiv> is_variant_hybrid MV_QWEN38"

definition IsQwenHybridSSMModel :: "model_view option \<Rightarrow> bool" where
  "IsQwenHybridSSMModel model =
     (case model of None \<Rightarrow> False | Some m \<Rightarrow> mv_is_hybrid_ssm m \<and> mv_variant m \<in> {MV_QWEN35, MV_QWEN36, MV_QWEN38})"

definition IsPrefixCacheAllowedForModel :: "worker_config \<Rightarrow> model_view option \<Rightarrow> bool" where
  "IsPrefixCacheAllowedForModel cfg model =
     (if prefix_cache_reuse_disabled cfg then False
      else if IsQwen36HybridSSMModel model \<and> \<not> qwen36_prefix_cache_reuse_enabled cfg then False
      else if IsQwen35HybridSSMModel model then False
      else if IsQwen38HybridSSMModel model then False
      else True)"

definition PrefixCacheSkipReasonForModel :: "worker_config \<Rightarrow> model_view option \<Rightarrow> string" where
  "PrefixCacheSkipReasonForModel cfg model =
     (if prefix_cache_reuse_disabled cfg then ''disabled_by_env''
      else if IsQwen36HybridSSMModel model \<and> \<not> qwen36_prefix_cache_reuse_enabled cfg then ''qwen36_prefix_cache_disabled''
      else if IsQwen35HybridSSMModel model then ''qwen35_prefix_cache_unqualified''
      else if IsQwen38HybridSSMModel model then ''qwen38_prefix_cache_unqualified''
      else ''none'')"

definition ModelRequiresPrefixStateSnapshot :: "model_view option \<Rightarrow> bool" where
  "ModelRequiresPrefixStateSnapshot model =
     (case model of None \<Rightarrow> False | Some m \<Rightarrow> mv_is_hybrid_ssm m \<or> mv_is_lfm2_shortconv m)"

definition ResolveRecurrentPrefixSnapshotPrefillTokens :: "model_view option \<Rightarrow> bool \<Rightarrow> int \<Rightarrow> int \<Rightarrow> int" where
  "ResolveRecurrentPrefixSnapshotPrefillTokens model prefix_cache_allowed n_past requested_tokens =
     (if \<not> prefix_cache_allowed \<or> \<not> ModelRequiresPrefixStateSnapshot model \<or> n_past \<noteq> 0 \<or> requested_tokens \<le> BLOCK_SIZE
      then requested_tokens
      else let trailing_tokens = requested_tokens smod BLOCK_SIZE
           in if trailing_tokens = 0 then requested_tokens else requested_tokens - trailing_tokens)"

definition IsHybridSSMSnapshotRestoreAllowedForModel :: "worker_config \<Rightarrow> model_view option \<Rightarrow> bool" where
  "IsHybridSSMSnapshotRestoreAllowedForModel cfg model =
     (if hybrid_ssm_snapshot_restore_disabled cfg then False
      else if IsQwen36HybridSSMModel model \<and> \<not> qwen36_hybrid_ssm_snapshot_restore_enabled cfg then False
      else if IsQwen35HybridSSMModel model then False
      else if IsQwen38HybridSSMModel model then False
      else True)"

definition ExpectedConvStateElements :: "int \<Rightarrow> int \<Rightarrow> u64" where
  "ExpectedConvStateElements conv_channels kernel_size = of_int conv_channels * of_int (max 0 (kernel_size - 1))"

definition ExpectedStateElements :: "int \<Rightarrow> int \<Rightarrow> int \<Rightarrow> u64" where
  "ExpectedStateElements n_heads head_dim_k head_dim_v = of_int n_heads * of_int head_dim_k * of_int head_dim_v"

definition expected_elems :: "model_view \<Rightarrow> u64 \<times> u64" where
  "expected_elems m =
     (if mv_is_lfm2_shortconv m then (ExpectedConvStateElements (mv_n_embd m) (mv_lfm2_conv_kernel m), 0)
      else let expected_conv = mv_ssm_inner_size m + 2 * mv_ssm_group_count m * mv_ssm_state_size m;
               expected_head_dim = mv_ssm_inner_size m sdiv max 1 (mv_ssm_time_step_rank m)
           in (ExpectedConvStateElements expected_conv (mv_ssm_conv_kernel m),
               ExpectedStateElements (mv_ssm_time_step_rank m) expected_head_dim (mv_ssm_state_size m)))"

definition BuildHybridSSMSnapshotValidatorForRequest ::
  "model_view option \<Rightarrow> request_view option \<Rightarrow> (ssm_state list \<Rightarrow> bool) option" where
  "BuildHybridSSMSnapshotValidatorForRequest model req =
     (case (model, req) of
        (Some m, Some r) \<Rightarrow>
          if \<not> ModelRequiresPrefixStateSnapshot model \<or> rq_ssm_runtime_states r = [] then None
          else Some (\<lambda>states. length states = length (rq_ssm_runtime_states r) \<and>
                 list_all (\<lambda>s. of_nat (length (conv_state s)) = fst (expected_elems m) \<and>
                               of_nat (length (ssm_values s)) = snd (expected_elems m)) states)
      | _ \<Rightarrow> None)"

definition InitializeRequestPrefixCacheState :: "worker_config \<Rightarrow> model_view option \<Rightarrow> request_view \<Rightarrow> request_view" where
  "InitializeRequestPrefixCacheState cfg model r =
     (let r1 = (if rq_original_prompt_tokens_for_cache r = [] then r\<lparr>rq_original_prompt_tokens_for_cache := rq_tokens r\<rparr> else r);
          r2 = (if rq_prompt_tokens_for_cache r1 = []
                then r1\<lparr>rq_prompt_tokens_for_cache := rq_original_prompt_tokens_for_cache r1\<rparr> else r1);
          r3 = (if rq_sequence_tokens_for_prefix_cache r2 = []
                then r2\<lparr>rq_sequence_tokens_for_prefix_cache := rq_original_prompt_tokens_for_cache r2\<rparr> else r2);
          r4 = (if rq_prompt_token_count r3 \<le> 0
                then r3\<lparr>rq_prompt_token_count := int (length (rq_original_prompt_tokens_for_cache r3))\<rparr> else r3);
          r5 = r4\<lparr>rq_prefix_cache_allowed := IsPrefixCacheAllowedForModel cfg model\<rparr>
      in if \<not> rq_prefix_cache_allowed r5 then r5\<lparr>rq_prefix_cache_skip_reason := PrefixCacheSkipReasonForModel cfg model\<rparr>
         else if rq_prefix_cache_skip_reason r5 = '''' then r5\<lparr>rq_prefix_cache_skip_reason := ''none''\<rparr> else r5)"

definition ProbeReusablePrefixCacheForRequest ::
  "u64 \<Rightarrow> model_view option \<Rightarrow> request_view option \<Rightarrow> block_manager option \<Rightarrow> prefix_cache_match \<times> block_manager option" where
  "ProbeReusablePrefixCacheForRequest salt model req bm =
     (case (bm, req) of
        (Some b, Some r) \<Rightarrow>
          if \<not> rq_prefix_cache_allowed r \<or> rq_original_prompt_tokens_for_cache r = []
          then (\<lparr>cached_tokens = 0, cached_block_ids = []\<rparr>, Some b)
          else let require_snapshot = ModelRequiresPrefixStateSnapshot model;
                   snapshot_validator = BuildHybridSSMSnapshotValidatorForRequest model req;
                   (match, b1) = FindLongestCachedPrefixWithVerification salt (rq_original_prompt_tokens_for_cache r)
                                   require_snapshot snapshot_validator b
               in (match, Some (if cached_block_ids match \<noteq> [] then Free (cached_block_ids match) b1 else b1))
      | _ \<Rightarrow> (\<lparr>cached_tokens = 0, cached_block_ids = []\<rparr>, bm))"

section \<open>Prefill chunk size\<close>

datatype target_arch = X86 | ARM64 | OtherArch

definition RequestPromptTokenCountForChunking :: "request_view option \<Rightarrow> int" where
  "RequestPromptTokenCountForChunking req =
     (case req of
        None \<Rightarrow> 0
      | Some r \<Rightarrow>
          if rq_original_prompt_tokens_for_cache r \<noteq> [] then int (length (rq_original_prompt_tokens_for_cache r))
          else if rq_prompt_tokens_for_cache r \<noteq> [] then int (length (rq_prompt_tokens_for_cache r))
          else if 0 < rq_prompt_token_count r then rq_prompt_token_count r
          else int (length (rq_tokens r)))"

definition ResolveQwen36PrefillChunkTokensImpl ::
  "target_arch \<Rightarrow> environment \<Rightarrow> model_view option \<Rightarrow> request_view option \<Rightarrow> int" where
  "ResolveQwen36PrefillChunkTokensImpl arch env model req =
     (case (model, req) of
        (Some m, Some r) \<Rightarrow>
          if mv_variant m \<notin> {MV_QWEN35, MV_QWEN36, MV_QWEN38} then -1
          else
            let qwen38 = (mv_variant m = MV_QWEN38);
                qwen35_dense = (mv_variant m = MV_QWEN35 \<and> mv_n_experts m \<le> 0);
                qwen35_moe = (mv_variant m = MV_QWEN35 \<and> 0 < mv_n_experts m);
                qwen_hybrid_ssm = mv_is_hybrid_ssm m;
                hybrid_ssm_chunk_tokens = (if arch = ARM64 then 192 else 2048);
                base_chunk_tokens = (if qwen38 then 128 else if qwen35_dense then 768
                                     else if qwen35_moe \<or> qwen_hybrid_ssm then hybrid_ssm_chunk_tokens else 192);
                base_auto_min_tokens = (if qwen38 then 128 else if qwen35_dense then 1024
                                        else if qwen35_moe \<or> qwen_hybrid_ssm then 1280 else 1536);
                base_fail_closed_min_tokens = base_auto_min_tokens;
                chunk_env = (if qwen38 then ''DENSECORE_QWEN38_PREFILL_CHUNK_TOKENS'' else ''DENSECORE_QWEN36_PREFILL_CHUNK_TOKENS'');
                default_env = (if qwen38 then ''DENSECORE_QWEN38_PREFILL_CHUNK_DEFAULT_TOKENS''
                               else ''DENSECORE_QWEN36_PREFILL_CHUNK_DEFAULT_TOKENS'');
                auto_min_env = (if qwen38 then ''DENSECORE_QWEN38_PREFILL_CHUNK_AUTO_MIN_TOKENS''
                                else ''DENSECORE_QWEN36_PREFILL_CHUNK_AUTO_MIN_TOKENS'');
                configured_default_chunk_tokens = ParsePositiveEnvInt env default_env base_chunk_tokens;
                default_chunk_tokens = min configured_default_chunk_tokens base_chunk_tokens;
                explicit_tokens = ParsePositiveEnvInt env chunk_env 0;
                lowered = AsciiLowerCopy (env chunk_env);
                prompt_tokens = RequestPromptTokenCountForChunking req
            in if 0 < explicit_tokens then explicit_tokens
               else if lowered \<in> {''off'', ''false'', ''no''}
               then if qwen_hybrid_ssm \<and> ParsePositiveEnvInt env auto_min_env base_fail_closed_min_tokens \<le> prompt_tokens
                    then default_chunk_tokens else -1
               else if lowered \<in> {''on'', ''true'', ''yes'', ''force''} then default_chunk_tokens
               else if prompt_tokens \<le> 0 then default_chunk_tokens
               else if ParsePositiveEnvInt env auto_min_env base_auto_min_tokens \<le> prompt_tokens then default_chunk_tokens else -1
      | _ \<Rightarrow> -1)"

definition ResolveGemma4PrefillChunkTokensImpl :: "environment \<Rightarrow> model_view option \<Rightarrow> request_view option \<Rightarrow> int" where
  "ResolveGemma4PrefillChunkTokensImpl env model req =
     (case (model, req) of
        (Some m, Some r) \<Rightarrow>
          if mv_variant m \<noteq> MV_GEMMA4 \<or> mv_n_experts m \<le> 0 then -1
          else
            let chunk_env = ''DENSECORE_GEMMA4_PREFILL_CHUNK_TOKENS'';
                default_env = ''DENSECORE_GEMMA4_PREFILL_CHUNK_DEFAULT_TOKENS'';
                auto_min_env = ''DENSECORE_GEMMA4_PREFILL_CHUNK_AUTO_MIN_TOKENS'';
                explicit_tokens = ParsePositiveEnvInt env chunk_env 0;
                manual_default = ParsePositiveEnvInt env default_env 128;
                lowered = AsciiLowerCopy (env chunk_env);
                explicit_auto = (lowered \<in> {''0'', ''auto''});
                mode = ParseRuntimeToggleMode env chunk_env ToggleAuto;
                prompt_tokens = RequestPromptTokenCountForChunking req
            in if 0 < explicit_tokens then explicit_tokens
               else if lowered \<in> {''off'', ''false'', ''no''} then -1
               else if lowered \<in> {''on'', ''true'', ''yes'', ''force''} then manual_default
               else if \<not> explicit_auto \<and> mode = ToggleOff then -1
               else if \<not> explicit_auto \<and> mode = ToggleOn then manual_default
               else if prompt_tokens \<le> 0 then manual_default
               else if prompt_tokens < ParsePositiveEnvInt env auto_min_env 1024 then -1
               else if 0 < ParsePositiveEnvInt env default_env 0 then manual_default
               else -1
      | _ \<Rightarrow> -1)"

definition ResolveModelPrefillChunkTokens :: "target_arch \<Rightarrow> environment \<Rightarrow> model_view option \<Rightarrow> request_view option \<Rightarrow> int" where
  "ResolveModelPrefillChunkTokens arch env model req =
     (let qwen36_tokens = ResolveQwen36PrefillChunkTokensImpl arch env model req
      in if qwen36_tokens \<noteq> -1 then qwen36_tokens else ResolveGemma4PrefillChunkTokensImpl env model req)"

section \<open>Graph memory and the admitted chunk\<close>

abbreviation MB :: u64 where "MB \<equiv> 1024 * 1024"

definition AlignUpBytes :: "u64 \<Rightarrow> u64 \<Rightarrow> u64" where
  "AlignUpBytes value alignment =
     (if alignment = 0 then value
      else let remainder = value mod alignment
           in if remainder = 0 then value
              else let padding = alignment - remainder in if - 1 - value < padding then - 1 else value + padding)"

definition has_substring :: "string \<Rightarrow> string \<Rightarrow> bool" where
  "has_substring pat s \<longleftrightarrow> list_ex (\<lambda>k. take (length pat) (drop k s) = pat) [0..<Suc (length s)]"

definition ModelHasMoEGraphLayers :: "model_view option \<Rightarrow> bool" where
  "ModelHasMoEGraphLayers model =
     (case model of
        None \<Rightarrow> False
      | Some m \<Rightarrow>
          if 0 < mv_n_experts m then True
          else if mv_decoder_spec_has_moe m = Some True then True
          else if mv_contract_has_moe m then True
          else list_ex (\<lambda>l. ly_is_moe l \<or> 0 < ly_experts l \<or>
                 list_ex (\<lambda>n. has_substring ''ffn_gate_up_exps'' n \<or> has_substring ''ffn_down_exps'' n \<or> has_substring ''experts.'' n)
                   (ly_tensor_names l)) (mv_layers m))"

record graph_estimate =
  ge_total_bytes :: u64
  ge_long_context_safety_pad_bytes :: u64

text \<open>What the code calls besides: the graph estimate for a prompt and chunk, and the MoE reserve for the tokens active
  at once and the available memory.\<close>

record memory_oracle =
  mo_estimate :: "u64 \<Rightarrow> u64 \<Rightarrow> graph_estimate"
  mo_moe_reserve :: "u64 \<Rightarrow> u64 \<Rightarrow> u64"

definition EstimatePrefillGraphContextReservationBytes :: "memory_oracle \<Rightarrow> model_view option \<Rightarrow> u64 \<Rightarrow> u64 \<Rightarrow> u64" where
  "EstimatePrefillGraphContextReservationBytes mo model prompt_tokens chunk_tokens =
     (let estimate = mo_estimate mo prompt_tokens chunk_tokens; bytes = ge_total_bytes estimate
      in case model of
           None \<Rightarrow> bytes
         | Some m \<Rightarrow>
             if 0 < bytes \<and> (mv_is_hybrid_ssm m \<or> mv_is_gemma4 m \<or> 0 < mv_n_experts m)
             then let object_pool_margin =
                        max (64 * MB) (max (bytes div 32) (ge_long_context_safety_pad_bytes estimate div 4))
                  in AlignUpBytes (bytes + object_pool_margin) (64 * MB)
             else bytes)"

definition GraphContextSafetyMarginBytes :: u64 where
  "GraphContextSafetyMarginBytes = 256 * MB"

definition GraphContextPrefillAdmissionBaseMarginBytes :: "target_arch \<Rightarrow> model_view option \<Rightarrow> u64 \<Rightarrow> u64 \<Rightarrow> u64" where
  "GraphContextPrefillAdmissionBaseMarginBytes arch model active_prefill_tokens available_bytes =
     (let configured_margin_bytes = GraphContextSafetyMarginBytes
      in case model of
           None \<Rightarrow> configured_margin_bytes
         | Some m \<Rightarrow>
             if arch = X86 \<and> 0 < active_prefill_tokens \<and> 0 < available_bytes \<and> mv_is_hybrid_ssm m \<and> ModelHasMoEGraphLayers model \<and>
                mv_variant m \<in> {MV_QWEN35, MV_QWEN36}
             then let dynamic_margin_bytes = max (min (32 * MB) configured_margin_bytes) (available_bytes div 128)
                  in min configured_margin_bytes dynamic_margin_bytes
             else configured_margin_bytes)"

definition EstimateQwenMoEQ4KPrefillFutureReserveBytes :: "memory_oracle \<Rightarrow> model_view option \<Rightarrow> u64 \<Rightarrow> u64 \<Rightarrow> u64" where
  "EstimateQwenMoEQ4KPrefillFutureReserveBytes mo model active_prefill_tokens available_bytes =
     (case model of
        None \<Rightarrow> 0
      | Some m \<Rightarrow> if mv_variant m \<notin> {MV_QWEN35, MV_QWEN36} then 0 else mo_moe_reserve mo active_prefill_tokens available_bytes)"

definition EstimateLFM2MoEQ4KDecodeCacheFloorBytes :: "memory_oracle \<Rightarrow> model_view option \<Rightarrow> u64 \<Rightarrow> u64 \<Rightarrow> u64" where
  "EstimateLFM2MoEQ4KDecodeCacheFloorBytes mo model active_prefill_tokens available_bytes =
     (case model of
        None \<Rightarrow> 0
      | Some m \<Rightarrow> if mv_variant m \<noteq> MV_LFM2MOE \<or> \<not> mv_is_lfm2_shortconv m then 0
                else mo_moe_reserve mo active_prefill_tokens available_bytes)"

definition GraphContextPrefillAdmissionMarginBytes :: "target_arch \<Rightarrow> memory_oracle \<Rightarrow> model_view option \<Rightarrow> u64 \<Rightarrow> u64 \<Rightarrow> u64" where
  "GraphContextPrefillAdmissionMarginBytes arch mo model active_prefill_tokens available_bytes =
     GraphContextPrefillAdmissionBaseMarginBytes arch model active_prefill_tokens available_bytes +
     EstimateQwenMoEQ4KPrefillFutureReserveBytes mo model active_prefill_tokens available_bytes"

definition upgrade_candidates :: "target_arch \<Rightarrow> bool \<Rightarrow> int list" where
  "upgrade_candidates arch gemma4_moe =
     (if gemma4_moe then [448, 384, 320, 288, 256, 224, 192, 160, 128]
      else (if arch = ARM64 then [192, 160] else [2048, 1536, 1024, 768, 512, 384, 320, 256, 192, 160]) @ [128, 96, 64, 48, 32])"

definition SelectLargestModelPrefillChunkThatFits ::
  "target_arch \<Rightarrow> memory_oracle \<Rightarrow> model_view option \<Rightarrow> u64 \<Rightarrow> u64 \<Rightarrow> u64 \<Rightarrow> int \<Rightarrow> int" where
  "SelectLargestModelPrefillChunkThatFits arch mo model prompt_tokens available_bytes safety_margin_bytes current_chunk_tokens =
     (case model of
        None \<Rightarrow> current_chunk_tokens
      | Some m \<Rightarrow>
          if prompt_tokens = 0 \<or> available_bytes = 0 \<or> current_chunk_tokens \<le> 1 then current_chunk_tokens
          else
            let model_has_moe = ModelHasMoEGraphLayers model;
                qwen35_moe = (mv_variant m = MV_QWEN35 \<and> model_has_moe);
                qwen36_moe = (mv_variant m = MV_QWEN36 \<and> model_has_moe);
                gemma4_moe = (mv_variant m = MV_GEMMA4 \<and> model_has_moe)
            in if \<not> qwen35_moe \<and> \<not> qwen36_moe \<and> \<not> mv_is_hybrid_ssm m \<and> \<not> gemma4_moe then current_chunk_tokens
               else case find (\<lambda>candidate. \<not> (candidate \<le> current_chunk_tokens \<or> prompt_tokens < of_int candidate) \<and>
                           EstimatePrefillGraphContextReservationBytes mo model prompt_tokens (of_int candidate) + safety_margin_bytes
                           \<le> available_bytes) (upgrade_candidates arch gemma4_moe) of
                      None \<Rightarrow> current_chunk_tokens
                    | Some candidate \<Rightarrow> candidate)"

definition pressure_candidates :: "bool \<Rightarrow> int list" where
  "pressure_candidates gemma4_moe =
     (if gemma4_moe then [448] else []) @
     [384, 320, 288, 256, 224, 192, 160, 128, 96, 64, 48, 32, 24, 16, 12, 8, 4, 2, 1]"

definition fail_reason_min_chunk :: string where
  "fail_reason_min_chunk = ''prefill_graph_ctx_exceeds_available_after_min_chunk''"

text \<open>The chunk the pressure loop starts from.\<close>

definition initial_pressure_chunk :: "model_view \<Rightarrow> u64 \<Rightarrow> int \<Rightarrow> int" where
  "initial_pressure_chunk m prompt_tokens chunk_tokens =
     (if chunk_tokens \<le> 1
      then max 1 (min (if (mv_variant m = MV_QWEN35 \<and> 0 < mv_n_experts m) \<or> mv_is_hybrid_ssm m then 384 else 512)
                      (uint prompt_tokens))
      else chunk_tokens)"

definition downgrade_under_pressure ::
  "target_arch \<Rightarrow> memory_oracle \<Rightarrow> model_view \<Rightarrow> u64 \<Rightarrow> u64 \<Rightarrow> int \<Rightarrow> request_view \<Rightarrow> int \<times> request_view" where
  "downgrade_under_pressure arch mo m prompt_tokens available_bytes effective_chunk r =
     (let gemma4_moe = (mv_variant m = MV_GEMMA4 \<and> ModelHasMoEGraphLayers (Some m));
          reservation = (\<lambda>c. EstimatePrefillGraphContextReservationBytes mo (Some m) prompt_tokens (of_int c));
          margin = (\<lambda>c. GraphContextPrefillAdmissionMarginBytes arch mo (Some m) (of_int c) available_bytes)
      in case find (\<lambda>c. \<not> (effective_chunk < c \<or> prompt_tokens < of_int c) \<and> reservation c + margin c \<le> available_bytes)
                (pressure_candidates gemma4_moe) of
           None \<Rightarrow> (1, r\<lparr>graph_ctx_downgraded_chunk_tokens := 1, graph_ctx_fail_reason := fail_reason_min_chunk\<rparr>)
         | Some c \<Rightarrow>
             (c, r\<lparr>graph_ctx_downgraded_chunk_tokens := c, graph_ctx_requested_mb := reservation c div MB,
                   graph_ctx_safety_margin_mb := margin c div MB, graph_ctx_fail_reason := ''''\<rparr>))"

definition ApplyGraphContextPrefillChunkDowngrade ::
  "target_arch \<Rightarrow> memory_oracle \<Rightarrow> model_view option \<Rightarrow> u64 \<Rightarrow> int \<Rightarrow> request_view \<Rightarrow> int \<times> request_view" where
  "ApplyGraphContextPrefillChunkDowngrade arch mo model available_bytes chunk_tokens r =
     (case model of
        None \<Rightarrow> (chunk_tokens, r)
      | Some m \<Rightarrow>
          if available_bytes = 0 then (chunk_tokens, r)
          else
            let prompt_tokens = of_int (max 1 (RequestPromptTokenCountForChunking (Some r)));
                originally_unchunked = (chunk_tokens \<le> 1);
                active_prefill_tokens = (if originally_unchunked then prompt_tokens else of_int (max 1 chunk_tokens));
                safety_margin_bytes = GraphContextPrefillAdmissionMarginBytes arch mo model active_prefill_tokens available_bytes;
                initial_reservation_bytes = EstimatePrefillGraphContextReservationBytes mo model prompt_tokens
                  (if originally_unchunked then 0 else of_int chunk_tokens);
                r1 = r\<lparr>graph_ctx_requested_mb := initial_reservation_bytes div MB, graph_ctx_available_mb := available_bytes div MB,
                       graph_ctx_safety_margin_mb := safety_margin_bytes div MB\<rparr>
            in if initial_reservation_bytes + safety_margin_bytes \<le> available_bytes
               then let expanded_chunk = SelectLargestModelPrefillChunkThatFits arch mo model prompt_tokens available_bytes
                                           safety_margin_bytes chunk_tokens
                    in if expanded_chunk \<noteq> chunk_tokens
                       then (expanded_chunk,
                             r1\<lparr>graph_ctx_requested_mb := EstimatePrefillGraphContextReservationBytes mo model prompt_tokens
                                   (of_int expanded_chunk) div MB,
                                 graph_ctx_downgraded_chunk_tokens := expanded_chunk, graph_ctx_fail_reason := ''''\<rparr>)
                       else (chunk_tokens, r1)
               else downgrade_under_pressure arch mo m prompt_tokens available_bytes
                      (initial_pressure_chunk m prompt_tokens chunk_tokens) r1)"

section \<open>Laws\<close>

lemma find_first_sorted:
  assumes "sorted_wrt (>) xs" "find P xs = Some (c :: int)"
  shows "c \<in> set xs" "P c" "\<forall>d \<in> set xs. c < d \<longrightarrow> \<not> P d"
proof -
  show "c \<in> set xs" "P c" using assms(2) by (auto simp: find_Some_iff)
  show "\<forall>d \<in> set xs. c < d \<longrightarrow> \<not> P d" using assms
  proof (induction xs)
    case (Cons x xs)
    then show ?case by (cases "P x") auto
  qed simp
qed

lemma pressure_candidates_sorted: "sorted_wrt (>) (pressure_candidates g)"
  by (simp add: pressure_candidates_def)

text \<open>The admission test of a chunk, and its meaning when no sum wraps around.\<close>

definition chunk_fits :: "target_arch \<Rightarrow> memory_oracle \<Rightarrow> model_view \<Rightarrow> u64 \<Rightarrow> u64 \<Rightarrow> u64 \<Rightarrow> int \<Rightarrow> bool" where
  "chunk_fits arch mo m prompt_tokens available_bytes active c \<longleftrightarrow>
     uint (EstimatePrefillGraphContextReservationBytes mo (Some m) prompt_tokens (of_int c)) +
     uint (GraphContextPrefillAdmissionMarginBytes arch mo (Some m) active available_bytes) \<le> uint available_bytes"

definition bounded_memory :: "target_arch \<Rightarrow> memory_oracle \<Rightarrow> model_view \<Rightarrow> bool" where
  "bounded_memory arch mo m \<longleftrightarrow>
     (\<forall>p c. uint (EstimatePrefillGraphContextReservationBytes mo (Some m) p c) < 2 ^ 63) \<and>
     (\<forall>a b. uint (GraphContextPrefillAdmissionMarginBytes arch mo (Some m) a b) < 2 ^ 63)"

lemma add_le_iff:
  fixes a b c :: u64
  assumes "uint a < 2 ^ 63" "uint b < 2 ^ 63"
  shows "a + b \<le> c \<longleftrightarrow> uint a + uint b \<le> uint c"
proof -
  have "uint (a + b) = uint a + uint b" using assms by (simp add: uint_word_ariths)
  then show ?thesis by (simp add: word_le_def)
qed

lemma fits_iff:
  assumes "bounded_memory arch mo m"
  shows "EstimatePrefillGraphContextReservationBytes mo (Some m) p (of_int c) + GraphContextPrefillAdmissionMarginBytes arch mo (Some m) active b \<le> b
    \<longleftrightarrow> chunk_fits arch mo m p b active c"
  using assms unfolding bounded_memory_def chunk_fits_def by (intro add_le_iff) simp_all

lemma downgrade_cases:
  assumes bm: "bounded_memory arch mo m" and e: "downgrade_under_pressure arch mo m p b eff r = (c, r')"
  defines "ok \<equiv> \<lambda>d. d \<le> eff \<and> of_int d \<le> p \<and> chunk_fits arch mo m p b (of_int d) d"
    and "cands \<equiv> pressure_candidates (mv_variant m = MV_GEMMA4 \<and> ModelHasMoEGraphLayers (Some m))"
  shows "(c \<in> set cands \<and> ok c \<and> (\<forall>d \<in> set cands. c < d \<longrightarrow> \<not> ok d) \<and> graph_ctx_fail_reason r' = '''') \<or>
    (c = 1 \<and> (\<forall>d \<in> set cands. \<not> ok d) \<and> graph_ctx_fail_reason r' = fail_reason_min_chunk)"
proof -
  let ?P = "\<lambda>d. \<not> (eff < d \<or> p < of_int d) \<and>
    EstimatePrefillGraphContextReservationBytes mo (Some m) p (of_int d) +
    GraphContextPrefillAdmissionMarginBytes arch mo (Some m) (of_int d) b \<le> b"
  have P: "?P = ok" by (intro ext) (simp add: ok_def fits_iff [OF bm] not_less)
  show ?thesis
  proof (cases "find ok cands")
    case None
    then have "\<forall>d \<in> set cands. \<not> ok d" by (simp add: find_None_iff)
    then show ?thesis using None e unfolding downgrade_under_pressure_def Let_def P cands_def [symmetric] by auto
  next
    case (Some d)
    then have "d = c" "graph_ctx_fail_reason r' = ''''" using e unfolding downgrade_under_pressure_def Let_def P cands_def [symmetric] by auto
    then show ?thesis using find_first_sorted [OF _ Some] pressure_candidates_sorted unfolding cands_def by blast
  qed
qed

lemma SelectLargest_cases:
  assumes "bounded_memory arch mo m"
    and "SelectLargestModelPrefillChunkThatFits arch mo (Some m) p b (GraphContextPrefillAdmissionMarginBytes arch mo (Some m) active b) cur = c"
  shows "c = cur \<or> (cur < c \<and> of_int c \<le> p \<and> chunk_fits arch mo m p b active c)"
  using assms(2) unfolding SelectLargestModelPrefillChunkThatFits_def Let_def fits_iff [OF assms(1)]
  by (auto simp: find_Some_iff not_le not_less split: if_splits option.splits)

section \<open>Properties\<close>

text \<open>C24: the chunk the worker prefills with fits the memory that is available. With memory reported, either the requested
  chunk fits and the result is that chunk or a larger one within the prompt that fits as well; or it does not fit and the result is
  the largest candidate not above it, and not above the prompt, that fits together with its own margin; or no
  candidate fits, the chunk is 1 and the request carries the failure reason. The estimates are below \<open>2 ^ 63\<close>, so that no sum wraps.\<close>

theorem prefill_chunk_fits:
  assumes bnd: "bounded_memory arch mo m" and b: "b \<noteq> 0"
    and e: "ApplyGraphContextPrefillChunkDowngrade arch mo (Some m) b chunk r = (c, r')"
  defines "p \<equiv> of_int (max 1 (RequestPromptTokenCountForChunking (Some r)))"
    and "cands \<equiv> pressure_candidates (mv_variant m = MV_GEMMA4 \<and> ModelHasMoEGraphLayers (Some m))"
    and "first \<equiv> (if chunk \<le> 1 then 0 else chunk)"
  defines "active \<equiv> (if chunk \<le> 1 then p else of_int chunk)"
    and "ok \<equiv> \<lambda>d. d \<le> initial_pressure_chunk m p chunk \<and> of_int d \<le> p \<and> chunk_fits arch mo m p b (of_int d) d"
  shows "if chunk_fits arch mo m p b active first
    then c = chunk \<or> (chunk < c \<and> of_int c \<le> p \<and> chunk_fits arch mo m p b active c)
    else (c \<in> set cands \<and> ok c \<and> (\<forall>d \<in> set cands. c < d \<longrightarrow> \<not> ok d) \<and> graph_ctx_fail_reason r' = '''') \<or>
      (c = 1 \<and> (\<forall>d \<in> set cands. \<not> ok d) \<and> graph_ctx_fail_reason r' = fail_reason_min_chunk)"
proof -
  have active: "(if chunk \<le> 1 then p else of_int (max 1 chunk)) = active" by (simp add: active_def)
  have zero: "(if chunk \<le> 1 then 0 else of_int chunk) = (of_int first :: u64)" by (simp add: first_def)
  show ?thesis
  proof (cases "chunk_fits arch mo m p b active first")
    case True
    let ?x = "SelectLargestModelPrefillChunkThatFits arch mo (Some m) p b (GraphContextPrefillAdmissionMarginBytes arch mo (Some m) active b) chunk"
    have "c = ?x" using e b True
      unfolding ApplyGraphContextPrefillChunkDowngrade_def option.case Let_def p_def [symmetric] active zero fits_iff [OF bnd]
      by (auto split: if_splits)
    then show ?thesis using SelectLargest_cases [OF bnd, of p b active chunk c] True by simp
  next
    case False
    have "\<exists>r1. downgrade_under_pressure arch mo m p b (initial_pressure_chunk m p chunk) r1 = (c, r')" using e b False
      unfolding ApplyGraphContextPrefillChunkDowngrade_def option.case Let_def p_def [symmetric] active zero fits_iff [OF bnd]
      by auto
    then show ?thesis unfolding if_not_P [OF False] ok_def cands_def using downgrade_cases [OF bnd] by blast
  qed
qed

definition plain_model :: model_view where
  "plain_model =
     \<lparr>mv_variant = MV_LLAMA, mv_is_hybrid_ssm = False, mv_is_lfm2_shortconv = False, mv_is_gemma4 = False, mv_n_experts = 0,
      mv_n_embd = 64, mv_decoder_spec_has_moe = None, mv_contract_has_moe = False, mv_layers = [], mv_lfm2_conv_kernel = 0,
      mv_ssm_inner_size = 0, mv_ssm_group_count = 0, mv_ssm_state_size = 0, mv_ssm_time_step_rank = 0, mv_ssm_conv_kernel = 0\<rparr>"

definition plain_request :: "int list \<Rightarrow> request_view" where
  "plain_request toks =
     \<lparr>rq_tokens = toks, rq_prompt_tokens_for_cache = [], rq_original_prompt_tokens_for_cache = [],
      rq_sequence_tokens_for_prefix_cache = [], rq_prompt_token_count = 0, rq_prefix_cache_allowed = False,
      rq_prefix_cache_skip_reason = '''', rq_ssm_runtime_states = [], graph_ctx_requested_mb = 0, graph_ctx_available_mb = 0,
      graph_ctx_safety_margin_mb = 0, graph_ctx_downgraded_chunk_tokens = 0, graph_ctx_fail_reason = ''''\<rparr>"

definition sample_memory :: memory_oracle where
  "sample_memory =
     \<lparr>mo_estimate = (\<lambda>p c. \<lparr>ge_total_bytes = (if c = 0 \<or> 320 < c then 4096 * MB else 300 * MB), ge_long_context_safety_pad_bytes = 0\<rparr>),
      mo_moe_reserve = (\<lambda>a b. 0)\<rparr>"

lemma sample_memory_bounded: "bounded_memory X86 sample_memory plain_model"
  by (simp add: bounded_memory_def EstimatePrefillGraphContextReservationBytes_def GraphContextPrefillAdmissionMarginBytes_def
      GraphContextPrefillAdmissionBaseMarginBytes_def EstimateQwenMoEQ4KPrefillFutureReserveBytes_def GraphContextSafetyMarginBytes_def
      sample_memory_def plain_model_def Let_def)

theorem prefill_chunk_fits_witness:
  "\<exists>r'. ApplyGraphContextPrefillChunkDowngrade X86 sample_memory (Some plain_model) (600 * MB) 0 ((plain_request [])\<lparr>rq_prompt_token_count := 1000\<rparr>)
      = (320, r') \<and> chunk_fits X86 sample_memory plain_model 1000 (600 * MB) 320 320"
proof -
  let ?r = "(plain_request [])\<lparr>rq_prompt_token_count := 1000\<rparr>"
  let ?x = "ApplyGraphContextPrefillChunkDowngrade X86 sample_memory (Some plain_model) (600 * MB) 0 ?r"
  have c: "fst ?x = 320" by code_simp
  obtain r' where e: "?x = (320, r')" using c by (cases ?x) simp
  have p: "max 1 (RequestPromptTokenCountForChunking (Some ?r)) = 1000" by code_simp
  have "\<not> chunk_fits X86 sample_memory plain_model 1000 (600 * MB) 1000 0" by code_simp
  then have "chunk_fits X86 sample_memory plain_model 1000 (600 * MB) 320 320"
    using prefill_chunk_fits [OF sample_memory_bounded _ e] p by simp
  then show ?thesis using e by blast
qed

text \<open>looking up the reusable prefix of a request is free of effects on the block manager: the probe releases every reference
  it takes, so all blocks, the prefix cache and its contents are as before, while the match it reports is a chain of cached blocks
  that hold exactly the leading tokens of the prompt. A request that may not reuse the cache gets an empty match.\<close>

theorem probe_keeps_references:
  assumes inv: "bm_inv b" and e: "ProbeReusablePrefixCacheForRequest salt model (Some r) (Some b) = (m, b')"
  shows "\<exists>b''. b' = Some b'' \<and> bm_inv b'' \<and> (\<forall>i. in_range b i \<longrightarrow> blk b'' i = blk b i) \<and> in_range b'' = in_range b \<and>
      prefix_cache b'' = prefix_cache b \<and> block_tokens b'' = block_tokens b \<and>
      block_hybrid_ssm_snapshots b'' = block_hybrid_ssm_snapshots b \<and> GetFreeBlockCount b'' = GetFreeBlockCount b \<and>
      cached_tokens m = BLOCK_SIZE * int (length (cached_block_ids m)) \<and>
      (\<forall>n < length (cached_block_ids m). block_tokens b (cached_block_ids m ! n) =
         Some (take 16 (drop (16 * n) (rq_original_prompt_tokens_for_cache r)))) \<and>
      (rq_prefix_cache_allowed r \<or> cached_block_ids m = [])"
proof (cases "rq_prefix_cache_allowed r \<and> rq_original_prompt_tokens_for_cache r \<noteq> []")
  case False
  then have "m = \<lparr>cached_tokens = 0, cached_block_ids = []\<rparr>" "b' = Some b"
    using e by (auto simp: ProbeReusablePrefixCacheForRequest_def)
  then show ?thesis using inv by simp
next
  case True
  define val where "val = BuildHybridSSMSnapshotValidatorForRequest model (Some r)"
  obtain b1 where f: "FindLongestCachedPrefixWithVerification salt (rq_original_prompt_tokens_for_cache r)
      (ModelRequiresPrefixStateSnapshot model) val b = (m, b1)"
    and b': "b' = Some (Free (cached_block_ids m) b1)"
    using e True by (auto simp: ProbeReusablePrefixCacheForRequest_def val_def Free_def split: prod.splits if_splits)
  note F = FindLongest_spec [OF inv f]
  have res: "\<forall>i \<in> set ([] @ cached_block_ids m). cache_resident (blk b i)"
    using F bm_inv_prefixD [OF inv] by (force simp: in_set_conv_nth)
  have "acquires b [] (Free (cached_block_ids m) b1)"
    using F res by (intro acquires_Free_suffix [OF inv]) simp_all
  then have A: "bm_inv (Free (cached_block_ids m) b1)" "in_range (Free (cached_block_ids m) b1) = in_range b"
    "\<forall>i. in_range b i \<longrightarrow> blk (Free (cached_block_ids m) b1) i = blk b i"
    "prefix_cache (Free (cached_block_ids m) b1) = prefix_cache b" "block_tokens (Free (cached_block_ids m) b1) = block_tokens b"
    "block_hybrid_ssm_snapshots (Free (cached_block_ids m) b1) = block_hybrid_ssm_snapshots b"
    by (auto simp: acquires_def dest: same_store_range)
  have "is_free (Free (cached_block_ids m) b1) i = is_free b i" for i
  proof (cases "in_range b i")
    case True
    then show ?thesis using bm_inv_free_iff [OF A(1), of i] bm_inv_free_iff [OF inv, of i] A(2,3) by simp
  next
    case False
    then show ?thesis using bm_inv_free_range [OF A(1), of i] bm_inv_free_range [OF inv, of i] A(2) by auto
  qed
  then have "GetFreeBlockCount (Free (cached_block_ids m) b1) = GetFreeBlockCount b"
    using GetFreeBlockCount_card [OF A(1)] GetFreeBlockCount_card [OF inv] by simp
  then show ?thesis using A F True b' by simp
qed

theorem probe_keeps_references_witness:
  "\<exists>m b''. ProbeReusablePrefixCacheForRequest 7 (Some plain_model) (Some ((plain_request [])\<lparr>rq_prefix_cache_allowed := True,
      rq_original_prompt_tokens_for_cache := sample_tokens @ [16, 17]\<rparr>)) (Some sample_bm) = (m, Some b'') \<and>
    cached_block_ids m = [0] \<and> ref_count (blk b'' 0) = 2"
proof -
  let ?r = "(plain_request [])\<lparr>rq_prefix_cache_allowed := True, rq_original_prompt_tokens_for_cache := sample_tokens @ [16, 17]\<rparr>"
  let ?x = "ProbeReusablePrefixCacheForRequest 7 (Some plain_model) (Some ?r) (Some sample_bm)"
  obtain m b' where e: "?x = (m, b')" by fastforce
  have "cached_block_ids (fst ?x) = [0]" by code_simp
  then have m: "cached_block_ids m = [0]" by (simp add: e)
  have c: "in_range sample_bm 0" "ref_count (blk sample_bm 0) = 2" by code_simp+
  obtain b'' where "b' = Some b''" "\<forall>i. in_range sample_bm i \<longrightarrow> blk b'' i = blk sample_bm i"
    using probe_keeps_references [OF sample_bm_inv e] by blast
  then show ?thesis using c m e by auto
qed

text \<open>the prefix-cache policy is consistent: a request may reuse the cache exactly when the policy has no reason to skip it,
  and its recorded reason says so. The first prefill of a model with recurrent state is cut to a whole number of blocks,
  dropping less than one block and never everything, so that its last block ends at a state that can be snapshotted; all other
  prefills keep their length.\<close>

theorem prefix_policy_consistent:
  "(IsPrefixCacheAllowedForModel cfg model \<longleftrightarrow> PrefixCacheSkipReasonForModel cfg model = ''none'') \<and>
   (let r' = InitializeRequestPrefixCacheState cfg model (plain_request toks)
    in rq_prefix_cache_skip_reason r' = PrefixCacheSkipReasonForModel cfg model \<and>
       (rq_prefix_cache_allowed r' \<longleftrightarrow> rq_prefix_cache_skip_reason r' = ''none'') \<and>
       rq_original_prompt_tokens_for_cache r' = toks \<and> rq_prompt_token_count r' = int (length toks)) \<and>
   (let n' = ResolveRecurrentPrefixSnapshotPrefillTokens model allowed n_past n
    in if allowed \<and> ModelRequiresPrefixStateSnapshot model \<and> n_past = 0 \<and> BLOCK_SIZE < n
       then BLOCK_SIZE dvd n' \<and> BLOCK_SIZE \<le> n' \<and> n' \<le> n \<and> n - n' < BLOCK_SIZE
       else n' = n)"
proof (intro conjI)
  show reason: "IsPrefixCacheAllowedForModel cfg model \<longleftrightarrow> PrefixCacheSkipReasonForModel cfg model = ''none''"
    by (simp add: IsPrefixCacheAllowedForModel_def PrefixCacheSkipReasonForModel_def)
  show "let r' = InitializeRequestPrefixCacheState cfg model (plain_request toks)
    in rq_prefix_cache_skip_reason r' = PrefixCacheSkipReasonForModel cfg model \<and>
       (rq_prefix_cache_allowed r' \<longleftrightarrow> rq_prefix_cache_skip_reason r' = ''none'') \<and>
       rq_original_prompt_tokens_for_cache r' = toks \<and> rq_prompt_token_count r' = int (length toks)"
    using reason by (simp add: InitializeRequestPrefixCacheState_def plain_request_def Let_def)
  have m: "n smod BLOCK_SIZE = n mod 16" if "BLOCK_SIZE < n" using that by (simp add: smod_nonneg)
  have "n - n mod 16 = 16 * (n div 16)" "0 \<le> n mod 16" "n mod 16 < 16" by (simp_all add: minus_mod_eq_mult_div)
  moreover have "1 \<le> n div 16" if "16 < n" using that by simp
  ultimately show "let n' = ResolveRecurrentPrefixSnapshotPrefillTokens model allowed n_past n
    in if allowed \<and> ModelRequiresPrefixStateSnapshot model \<and> n_past = 0 \<and> BLOCK_SIZE < n
       then BLOCK_SIZE dvd n' \<and> BLOCK_SIZE \<le> n' \<and> n' \<le> n \<and> n - n' < BLOCK_SIZE
       else n' = n"
    using m by (auto simp: ResolveRecurrentPrefixSnapshotPrefillTokens_def Let_def mod_eq_0_iff_dvd)
qed

end
