(* ===== verification/Byte_Memory.thy ===== *)
theory Byte_Memory
  imports Prelude
begin

text \<open>
  Memory as bytes at 64-bit addresses, words in little-endian order, and the contract of a store that
  is addressed by keys: a key names a region, and regions of different keys do not meet. What
  follows for a sequence of region copies between two such stores is proved once, in the locale
  \<open>ferry\<close>.
\<close>

type_synonym memory = "u64 \<Rightarrow> u8"

section \<open>Reading and writing bytes\<close>

definition read_bytes :: "memory \<Rightarrow> u64 \<Rightarrow> nat \<Rightarrow> u8 list" where
  "read_bytes m p n = map (\<lambda>i. m (p + of_nat i)) [0..<n]"

definition write_bytes :: "u64 \<Rightarrow> u8 list \<Rightarrow> memory \<Rightarrow> memory" where
  "write_bytes p bs m = (\<lambda>a. if unat (a - p) < length bs then bs ! unat (a - p) else m a)"

text \<open>\<^verbatim>\<open>std::memcpy\<close> between regions that do not overlap.\<close>

definition mem_copy :: "u64 \<Rightarrow> u64 \<Rightarrow> nat \<Rightarrow> memory \<Rightarrow> memory" where
  "mem_copy dst src n m = write_bytes dst (read_bytes m src n) m"

text \<open>Two regions that neither wrap nor meet.\<close>

definition apart :: "u64 \<Rightarrow> nat \<Rightarrow> u64 \<Rightarrow> nat \<Rightarrow> bool" where
  "apart p n q k \<longleftrightarrow> unat p + n \<le> 2 ^ 64 \<and> unat q + k \<le> 2 ^ 64 \<and> (unat p + n \<le> unat q \<or> unat q + k \<le> unat p)"

lemma length_read_bytes [simp]: "length (read_bytes m p n) = n"
  by (simp add: read_bytes_def)

lemma unat_of_nat_64 [simp]: "i < 2 ^ 64 \<Longrightarrow> unat (of_nat i :: u64) = i"
  by (simp add: unat_of_nat take_bit_eq_mod)

lemma unat_less_64: "unat (w :: u64) < 2 ^ 64"
  by (rule order.strict_trans2 [OF unsigned_less]) simp

lemmas unat_le_64 = less_imp_le [OF unat_less_64]

lemma read_write_same:
  assumes "length bs = n" and "n \<le> 2 ^ 64"
  shows "read_bytes (write_bytes p bs m) p n = bs"
  by (rule nth_equalityI) (use assms in \<open>auto simp: read_bytes_def write_bytes_def\<close>)

lemma unat_add_64: "unat (p :: u64) + n < 2 ^ 64 \<Longrightarrow> unat (p + of_nat n) = unat p + n"
  by (simp add: unat_word_ariths)

lemma unat_diff_64:
  fixes a p :: u64
  shows "unat (a - p) = (if unat p \<le> unat a then unat a - unat p else 2 ^ 64 + unat a - unat p)"
proof (cases "unat p \<le> unat a")
  case True
  then show ?thesis by (simp add: unat_sub word_le_nat_alt)
next
  case False
  then show ?thesis using unat_sub_if_size [of a p] by (simp add: word_size word_le_nat_alt)
qed

lemma apart_sym: "apart p n q k \<Longrightarrow> apart q k p n"
  by (auto simp: apart_def)

lemma read_write_apart:
  assumes "apart p n q (length bs)"
  shows "read_bytes (write_bytes q bs m) p n = read_bytes m p n"
proof -
  have "\<not> unat (p + of_nat i - q) < length bs" if "i < n" for i
    using assms that unat_add_64 [of p i] by (auto simp: apart_def unat_diff_64)
  then show ?thesis by (simp add: read_bytes_def write_bytes_def)
qed

lemma write_bytes_append:
  assumes "length xs + length ys \<le> 2 ^ 64"
  shows "write_bytes p (xs @ ys) m = write_bytes (p + of_nat (length xs)) ys (write_bytes p xs m)"
proof
  fix a
  define d where "d = unat (a - p)"
  have d: "d < 2 ^ 64" unfolding d_def using unsigned_less [of "a - p"] by simp
  have e: "a - (p + of_nat (length xs)) = of_nat d - of_nat (length xs)" by (simp add: d_def)
  show "write_bytes p (xs @ ys) m a = write_bytes (p + of_nat (length xs)) ys (write_bytes p xs m) a"
  proof (cases "length xs = 2 ^ 64")
    case True
    then have "ys = []" using assms by simp
    then show ?thesis by (simp add: write_bytes_def)
  next
    case False
    then have l: "length xs < 2 ^ 64" using assms by simp
    have "unat (a - (p + of_nat (length xs))) = (if length xs \<le> d then d - length xs else 2 ^ 64 + d - length xs)"
      unfolding e unat_diff_64 using d l by simp
    then show ?thesis using assms d unfolding write_bytes_def d_def [symmetric]
      by (auto simp: nth_append)
  qed
qed

lemma write_bytes_over:
  assumes "length xs \<le> length ys"
  shows "write_bytes p ys (write_bytes p xs m) = write_bytes p ys m"
  using assms by (auto simp: write_bytes_def)

lemma write_bytes_Nil [simp]: "write_bytes p [] m = m"
  by (simp add: write_bytes_def)

lemma read_bytes_append:
  "read_bytes m p (n + k) = read_bytes m p n @ read_bytes m (p + of_nat n) k"
  by (rule nth_equalityI) (auto simp: read_bytes_def nth_append add.assoc simp flip: of_nat_add)

section \<open>Little-endian words\<close>

primrec bytes_of :: "nat \<Rightarrow> 'a::len word \<Rightarrow> u8 list" where
  "bytes_of 0 w = []"
| "bytes_of (Suc n) w = ucast w # bytes_of n (drop_bit 8 w)"

primrec word_of_bytes :: "u8 list \<Rightarrow> 'a::len word" where
  "word_of_bytes [] = 0"
| "word_of_bytes (b # bs) = or (ucast b) (push_bit 8 (word_of_bytes bs))"

text \<open>An array of \<open>n\<close>-byte words in memory.\<close>

definition words_to_bytes :: "nat \<Rightarrow> 'a::len word list \<Rightarrow> u8 list" where
  "words_to_bytes n ws = concat (map (bytes_of n) ws)"

fun bytes_to_words :: "nat \<Rightarrow> nat \<Rightarrow> u8 list \<Rightarrow> 'a::len word list" where
  "bytes_to_words n 0 bs = []"
| "bytes_to_words n (Suc k) bs = word_of_bytes (take n bs) # bytes_to_words n k (drop n bs)"

lemma length_bytes_of [simp]: "length (bytes_of n w) = n"
  by (induction n arbitrary: w) auto

lemma length_words_to_bytes [simp]: "length (words_to_bytes n ws) = length ws * n"
  by (induction ws) (auto simp: words_to_bytes_def)

lemma length_bytes_to_words [simp]: "length (bytes_to_words n k bs) = k"
  by (induction k arbitrary: bs) auto

lemma words_to_bytes_append [simp]: "words_to_bytes n (xs @ ys) = words_to_bytes n xs @ words_to_bytes n ys"
  by (simp add: words_to_bytes_def)

lemma words_to_bytes_simps [simp]:
  "words_to_bytes n [] = []" "words_to_bytes n (w # ws) = bytes_of n w @ words_to_bytes n ws"
  by (simp_all add: words_to_bytes_def)

lemma bytes_of_0 [simp]: "bytes_of n 0 = replicate n 0"
  by (induction n) auto

lemma words_to_bytes_zeros: "words_to_bytes n (replicate k 0) = replicate (k * n) 0"
  by (induction k) (auto simp: replicate_add)

lemma or_split_low_byte: "or (and w (mask 8)) (push_bit 8 (take_bit n (drop_bit 8 w))) = take_bit (n + 8) (w :: 'a::len word)"
  by (rule bit_word_eqI)
    (auto simp: bit_or_iff bit_and_iff bit_mask_iff bit_push_bit_iff bit_take_bit_iff bit_drop_bit_eq)

lemma word_of_bytes_of: "word_of_bytes (bytes_of n w) = take_bit (8 * n) (w :: 'a::len word)"
proof (induction n arbitrary: w)
  case (Suc n)
  have "ucast (ucast w :: u8) = and w (mask 8)"
    by (rule bit_word_eqI) (auto simp: bit_ucast_iff bit_and_iff bit_mask_iff)
  then show ?case by (simp add: Suc or_split_low_byte add.commute)
qed simp

lemma bytes_to_words_to_bytes:
  assumes "LENGTH('a::len) \<le> 8 * n"
  shows "bytes_to_words n (length ws) (words_to_bytes n ws @ bs) = (ws :: 'a word list)"
  using assms by (induction ws) (simp_all add: word_of_bytes_of take_bit_word_eq_self)

lemma bytes_to_words_append:
  assumes "length xs = j * n"
  shows "bytes_to_words n (j + k) (xs @ ys) = bytes_to_words n j xs @ bytes_to_words n k ys"
  using assms
proof (induction j arbitrary: xs)
  case (Suc j)
  then have "length (drop n xs) = j * n" "n \<le> length xs" by simp_all
  then show ?case using Suc.IH [of "drop n xs"] by simp
qed simp

section \<open>Overwriting part of a vector\<close>

definition splice_at :: "nat \<Rightarrow> 'a list \<Rightarrow> 'a list \<Rightarrow> 'a list" where
  "splice_at off ys xs = take off xs @ ys @ drop (off + length ys) xs"

lemma length_splice_at [simp]: "off + length ys \<le> length xs \<Longrightarrow> length (splice_at off ys xs) = length xs"
  by (simp add: splice_at_def)

lemma nth_splice_at:
  assumes "off + length ys \<le> length xs" and "i < length xs"
  shows "splice_at off ys xs ! i = (if off \<le> i \<and> i < off + length ys then ys ! (i - off) else xs ! i)"
  using assms by (auto simp: splice_at_def nth_append min_def)

lemma slice_splice_same:
  assumes "off + length ys \<le> length xs"
  shows "take (length ys) (drop off (splice_at off ys xs)) = ys"
  using assms by (simp add: splice_at_def)

lemma slice_splice_apart:
  assumes "off + length ys \<le> length xs" and "p + n \<le> length xs" and "p + n \<le> off \<or> off + length ys \<le> p"
  shows "take n (drop p (splice_at off ys xs)) = take n (drop p xs)"
  by (rule nth_equalityI) (use assms in \<open>auto simp: nth_splice_at\<close>)

section \<open>Stores addressed by keys\<close>

text \<open>
  In the state \<open>s\<close> the key \<open>k\<close> names \<open>width c k\<close> bytes. The context \<open>c\<close> fixes the geometry, \<open>ok c\<close> says
  that it is sound, and \<open>shaped c s\<close> that the state has the room it needs.
\<close>

locale keyed_store =
  fixes ok :: "'c \<Rightarrow> bool"
    and shaped :: "'c \<Rightarrow> 's \<Rightarrow> bool"
    and keys :: "'c \<Rightarrow> 'k set"
    and width :: "'c \<Rightarrow> 'k \<Rightarrow> nat"
    and load :: "'c \<Rightarrow> 's \<Rightarrow> 'k \<Rightarrow> u8 list"
    and store :: "'c \<Rightarrow> 'k \<Rightarrow> u8 list \<Rightarrow> 's \<Rightarrow> 's"
  assumes length_load: "ok c \<Longrightarrow> shaped c s \<Longrightarrow> k \<in> keys c \<Longrightarrow> length (load c s k) = width c k"
    and store_shaped: "ok c \<Longrightarrow> shaped c s \<Longrightarrow> k \<in> keys c \<Longrightarrow> length bs = width c k \<Longrightarrow> shaped c (store c k bs s)"
    and load_same: "ok c \<Longrightarrow> shaped c s \<Longrightarrow> k \<in> keys c \<Longrightarrow> length bs = width c k \<Longrightarrow> load c (store c k bs s) k = bs"
    and load_other: "ok c \<Longrightarrow> shaped c s \<Longrightarrow> k \<in> keys c \<Longrightarrow> length bs = width c k \<Longrightarrow> j \<in> keys c \<Longrightarrow> j \<noteq> k \<Longrightarrow>
      load c (store c k bs s) j = load c s j"
begin

lemma store_list:
  assumes "ok c" and "shaped c s" and "distinct (map fst kvs)"
    and "\<forall>(k, bs) \<in> set kvs. k \<in> keys c \<and> length bs = width c k"
  shows "shaped c (fold (\<lambda>(k, bs). store c k bs) kvs s) \<and>
    (\<forall>(k, bs) \<in> set kvs. load c (fold (\<lambda>(k, bs). store c k bs) kvs s) k = bs) \<and>
    (\<forall>j \<in> keys c - fst ` set kvs. load c (fold (\<lambda>(k, bs). store c k bs) kvs s) j = load c s j)"
  using assms(2-4)
proof (induction kvs arbitrary: s)
  case (Cons kv kvs)
  obtain k bs where kv: "kv = (k, bs)" by (cases kv)
  have k: "k \<in> keys c" "length bs = width c k" using Cons.prems(3) kv by auto
  have s: "shaped c (store c k bs s)" using store_shaped [OF assms(1) Cons.prems(1) k] .
  note IH = Cons.IH [OF s] and same = load_same [OF assms(1) Cons.prems(1) k] and other = load_other [OF assms(1) Cons.prems(1) k]
  have n: "k \<in> keys c - fst ` set kvs" using Cons.prems(2) k by (auto simp: kv)
  show ?case using IH Cons.prems(2,3) n same other by (auto simp: kv)
qed simp

text \<open>Copies inside one store, from keys that no copy writes.\<close>

lemma copy_list:
  assumes "ok c" and "shaped c s" and "distinct (map snd ps)" and "fst ` set ps \<inter> snd ` set ps = {}"
    and "\<forall>(j, k) \<in> set ps. j \<in> keys c \<and> k \<in> keys c \<and> width c j = width c k"
  shows "shaped c (fold (\<lambda>(j, k) s. store c k (load c s j) s) ps s) \<and>
    (\<forall>(j, k) \<in> set ps. load c (fold (\<lambda>(j, k) s. store c k (load c s j) s) ps s) k = load c s j) \<and>
    (\<forall>i \<in> keys c - snd ` set ps. load c (fold (\<lambda>(j, k) s. store c k (load c s j) s) ps s) i = load c s i)"
proof -
  have eq: "fold (\<lambda>(j, k) s. store c k (load c s j) s) qs t = fold (\<lambda>(k, bs). store c k bs) (map (\<lambda>(j, k). (k, load c s j)) qs) t"
    if "set qs \<subseteq> set ps" "shaped c t" "\<forall>(j, k) \<in> set ps. load c t j = load c s j" for qs t
    using that
  proof (induction qs arbitrary: t)
    case (Cons q qs)
    obtain j k where q: "q = (j, k)" by (cases q)
    have jk: "(j, k) \<in> set ps" using Cons.prems(1) q by auto
    have k: "k \<in> keys c" "j \<in> keys c" "width c j = width c k" using assms(5) jk by auto
    have l: "load c t j = load c s j" using Cons.prems(3) jk by auto
    have len: "length (load c s j) = width c k" using length_load [OF assms(1,2)] k by simp
    have "shaped c (store c k (load c s j) t)" using store_shaped [OF assms(1) Cons.prems(2) k(1) len] .
    moreover have "load c (store c k (load c s j) t) j' = load c s j'" if "(j', k') \<in> set ps" for j' k'
    proof -
      have "j' \<noteq> k" using assms(4) jk that by force
      then show ?thesis using load_other [OF assms(1) Cons.prems(2) k(1) len] assms(5) Cons.prems(3) that by fastforce
    qed
    ultimately show ?case using Cons.IH [of "store c k (load c s j) t"] Cons.prems(1) by (auto simp: q l)
  qed simp
  have d: "distinct (map fst (map (\<lambda>(j, k). (k, load c s j)) ps))" using assms(3) by (simp add: comp_def case_prod_unfold)
  have w: "\<forall>(k, bs) \<in> set (map (\<lambda>(j, k). (k, load c s j)) ps). k \<in> keys c \<and> length bs = width c k"
    using assms(5) length_load [OF assms(1,2)] by fastforce
  have e: "fold (\<lambda>(j, k) s. store c k (load c s j) s) ps s = fold (\<lambda>(k, bs). store c k bs) (map (\<lambda>(j, k). (k, load c s j)) ps) s"
    using eq [of ps s] assms(2) by auto
  show ?thesis unfolding e using store_list [OF assms(1,2) d w] by (force simp: image_iff)
qed

end

text \<open>
  Data that travels from one store to another and back: \<open>js\<close> lists for each piece where it is read,
  where it stays meanwhile and where it is put back.
\<close>

locale ferry =
  home: keyed_store ok shaped keys width load store +
  away: keyed_store ok' shaped' keys' width' load' store'
  for ok :: "'c \<Rightarrow> bool" and shaped :: "'c \<Rightarrow> 's \<Rightarrow> bool" and keys :: "'c \<Rightarrow> 'k set" and width load store
    and ok' :: "'d \<Rightarrow> bool" and shaped' :: "'d \<Rightarrow> 't \<Rightarrow> bool" and keys' :: "'d \<Rightarrow> 'h set" and width' load' store'
begin

lemma there_and_back:
  assumes "ok c" "shaped c s" "shaped c s'" "ok' d" "shaped' d t"
    and "distinct (map (\<lambda>(j, h, k). h) js)" and "distinct (map (\<lambda>(j, h, k). k) js)"
    and "\<forall>(j, h, k) \<in> set js. j \<in> keys c \<and> k \<in> keys c \<and> h \<in> keys' d \<and> width c j = width' d h \<and> width c k = width' d h"
    and "t' = fold (\<lambda>(j, h, k) t. store' d h (load c s j) t) js t"
    and "s'' = fold (\<lambda>(j, h, k) s. store c k (load' d t' h) s) js s'"
  shows "(\<forall>(j, h, k) \<in> set js. load c s'' k = load c s j) \<and>
    (\<forall>i \<in> keys c - (\<lambda>(j, h, k). k) ` set js. load c s'' i = load c s' i) \<and> shaped c s'' \<and> shaped' d t'"
proof -
  let ?out = "map (\<lambda>(j, h, k). (h, load c s j)) js" and ?ret = "map (\<lambda>(j, h, k). (k, load' d t' h)) js"
  have t': "t' = fold (\<lambda>(k, bs). store' d k bs) ?out t" and s'': "s'' = fold (\<lambda>(k, bs). store c k bs) ?ret s'"
    unfolding assms(9,10) by (simp_all add: fold_map comp_def case_prod_unfold)
  have do: "distinct (map fst ?out)" and db: "distinct (map fst ?ret)"
    using assms(6,7) by (simp_all add: comp_def case_prod_unfold)
  have "\<forall>(k, bs) \<in> set ?out. k \<in> keys' d \<and> length bs = width' d k"
    using assms(8) home.length_load [OF assms(1,2)] by fastforce
  note O = away.store_list [OF assms(4,5) do this, folded t']
  have "\<forall>(k, bs) \<in> set ?ret. k \<in> keys c \<and> length bs = width c k"
    using assms(8) away.length_load [OF assms(4)] O by fastforce
  note B = home.store_list [OF assms(1,3) db this, folded s'']
  have "fst ` set ?ret = (\<lambda>(j, h, k). k) ` set js" by (force simp: image_iff)
  moreover have "load c s'' k = load c s j" if "(j, h, k) \<in> set js" for j h k
    using O [THEN conjunct2, THEN conjunct1] B [THEN conjunct2, THEN conjunct1] that by fastforce
  ultimately show ?thesis using O B by auto
qed

end

end
