(* ===== verification/Paged_Storage.thy ===== *)
theory Paged_Storage
  imports Byte_Memory Block_Manager KV_Block_Allocator
begin

text \<open>
  The storage of the paged KV cache: \<^verbatim>\<open>PagedKVCache\<close> of \<^verbatim>\<open>core/include/densecore/memory/kv_cache.h\<close>, its set-up in
  \<^verbatim>\<open>core/src/runtime/memory/kv_cache.cpp\<close> and its operations in \<^verbatim>\<open>kv_cache_storage.cpp\<close>. Keys, values and index keys
  live in three arenas, layer by layer and block by block; memory is a function from addresses to bytes and 0 is the null
  pointer. A float is its 32-bit pattern.

  The ggml library is not part of the repository. What the code calls of it is the record \<open>ggml\<close>: row and block sizes, the
  row quantisers with their inverse, and the half-precision conversions, which ggml applies element by element. The
  telemetry counters of the slot operations are left out.
\<close>

datatype ggml_type = GGML_TYPE_F32 | GGML_TYPE_F16 | GGML_TYPE_Q4_0 | GGML_TYPE_Q8_0 | GGML_TYPE_OTHER nat

record ggml =
  ggml_row_size :: "ggml_type \<Rightarrow> int \<Rightarrow> u64"
  ggml_blck_size :: "ggml_type \<Rightarrow> int"
  ggml_is_quantized :: "ggml_type \<Rightarrow> bool"
  ggml_quantize_chunk :: "ggml_type \<Rightarrow> u32 list \<Rightarrow> int \<Rightarrow> int \<Rightarrow> u8 list"
  ggml_to_float :: "ggml_type \<Rightarrow> u8 list \<Rightarrow> int \<Rightarrow> u32 list"
  fp32_to_fp16 :: "u32 \<Rightarrow> u16"
  fp16_to_fp32 :: "u16 \<Rightarrow> u32"

record paged_kv_cache =
  kc_block_manager :: block_manager
  kc_head_dim :: int
  kc_v_head_dim :: int
  kc_index_head_dim :: int
  kc_n_head_kv :: int
  kc_n_layer :: int
  kc_max_blocks :: int
  layer_n_head_kv :: "int list"
  layer_head_dims :: "int list"
  layer_v_head_dims :: "int list"
  k_bytes_per_slot :: u64
  v_bytes_per_slot :: u64
  index_bytes_per_slot :: u64
  k_bytes_per_block :: u64
  v_bytes_per_block :: u64
  index_bytes_per_block :: u64
  k_layer_stride_bytes :: u64
  v_layer_stride_bytes :: u64
  index_layer_stride_bytes :: u64
  cache_type :: ggml_type
  kc_numa_node_id :: int
  k_allocator :: "kv_block_allocator option"
  v_allocator :: "kv_block_allocator option"
  index_allocator :: "kv_block_allocator option"
  use_block_allocator :: bool
  has_index_cache :: bool

section \<open>Sizes and layout\<close>

definition row_quantized :: "ggml_type \<Rightarrow> bool" where
  "row_quantized ty \<longleftrightarrow> ty = GGML_TYPE_Q8_0 \<or> ty = GGML_TYPE_Q4_0"

definition slot_bytes :: "ggml \<Rightarrow> ggml_type \<Rightarrow> int \<Rightarrow> int \<Rightarrow> u64" where
  "slot_bytes g ty dim heads =
     (let elements = dim * heads
      in if elements \<le> 0 then 0
         else if row_quantized ty then ggml_row_size g ty dim * of_int heads
         else ggml_row_size g ty elements)"

definition GetBytesPerSlot :: "ggml \<Rightarrow> paged_kv_cache \<Rightarrow> u64" where
  "GetBytesPerSlot g c =
     (if k_bytes_per_slot c \<noteq> 0 then k_bytes_per_slot c else slot_bytes g (cache_type c) (kc_head_dim c) (kc_n_head_kv c))"

definition GetVBytesPerSlot :: "ggml \<Rightarrow> paged_kv_cache \<Rightarrow> u64" where
  "GetVBytesPerSlot g c =
     (if v_bytes_per_slot c \<noteq> 0 then v_bytes_per_slot c else slot_bytes g (cache_type c) (kc_v_head_dim c) (kc_n_head_kv c))"

definition GetIndexBytesPerSlot :: "paged_kv_cache \<Rightarrow> u64" where
  "GetIndexBytesPerSlot c =
     (if index_bytes_per_slot c \<noteq> 0 then index_bytes_per_slot c
      else if \<not> has_index_cache c \<or> kc_index_head_dim c \<le> 0 then 0
      else 2 * of_int (kc_index_head_dim c))"

definition GetBytesPerBlock :: "ggml \<Rightarrow> paged_kv_cache \<Rightarrow> u64" where
  "GetBytesPerBlock g c = (if k_bytes_per_block c \<noteq> 0 then k_bytes_per_block c else GetBytesPerSlot g c * of_int BLOCK_SIZE)"

definition GetVBytesPerBlock :: "ggml \<Rightarrow> paged_kv_cache \<Rightarrow> u64" where
  "GetVBytesPerBlock g c = (if v_bytes_per_block c \<noteq> 0 then v_bytes_per_block c else GetVBytesPerSlot g c * of_int BLOCK_SIZE)"

definition GetIndexBytesPerBlock :: "paged_kv_cache \<Rightarrow> u64" where
  "GetIndexBytesPerBlock c =
     (if index_bytes_per_block c \<noteq> 0 then index_bytes_per_block c else GetIndexBytesPerSlot c * of_int BLOCK_SIZE)"

record block_layout =
  bl_cache_type :: ggml_type
  head_stride_bytes :: u64
  slot_stride_bytes :: u64
  block_stride_bytes :: u64
  packed_values_per_block :: int
  packed_blocks_per_head :: int

definition layout_of :: "ggml \<Rightarrow> ggml_type \<Rightarrow> int \<Rightarrow> int \<Rightarrow> u64 \<Rightarrow> u64 \<Rightarrow> block_layout" where
  "layout_of g ty dim heads slot_stride stride =
     (if row_quantized ty
      then let qk = ggml_blck_size g ty
           in \<lparr>bl_cache_type = ty, head_stride_bytes = ggml_row_size g ty dim, slot_stride_bytes = slot_stride,
               block_stride_bytes = stride, packed_values_per_block = qk, packed_blocks_per_head = (dim + qk - 1) sdiv qk\<rparr>
      else \<lparr>bl_cache_type = ty, head_stride_bytes = (if 0 < heads then slot_stride div of_int heads else 0),
            slot_stride_bytes = slot_stride, block_stride_bytes = stride, packed_values_per_block = 1,
            packed_blocks_per_head = dim\<rparr>)"

definition GetBlockLayout :: "ggml \<Rightarrow> paged_kv_cache \<Rightarrow> block_layout" where
  "GetBlockLayout g c =
     layout_of g (cache_type c) (kc_head_dim c) (kc_n_head_kv c) (GetBytesPerSlot g c) (GetBytesPerBlock g c)"

definition GetVBlockLayout :: "ggml \<Rightarrow> paged_kv_cache \<Rightarrow> block_layout" where
  "GetVBlockLayout g c =
     layout_of g (cache_type c) (kc_v_head_dim c) (kc_n_head_kv c) (GetVBytesPerSlot g c) (GetVBytesPerBlock g c)"

section \<open>Addresses\<close>

definition block_in_layer :: "paged_kv_cache \<Rightarrow> int \<Rightarrow> int \<Rightarrow> bool" where
  "block_in_layer c block_id layer \<longleftrightarrow> 0 \<le> block_id \<and> block_id < kc_max_blocks c \<and> 0 \<le> layer \<and> layer < kc_n_layer c"

text \<open>\<open>stride\<close> is the recorded layer stride; a recorded stride of 0 stands for \<^verbatim>\<open>max_blocks\<close> blocks.\<close>

definition layer_offset :: "paged_kv_cache \<Rightarrow> u64 \<Rightarrow> u64 \<Rightarrow> int \<Rightarrow> u64" where
  "layer_offset c stride bytes layer =
     (if stride \<noteq> 0 then stride * of_int layer else bytes * of_int (kc_max_blocks c) * of_int layer)"

definition GetKBlockPtr :: "ggml \<Rightarrow> paged_kv_cache \<Rightarrow> int \<Rightarrow> int \<Rightarrow> u64" where
  "GetKBlockPtr g c block_id layer =
     (if \<not> block_in_layer c block_id layer then 0
      else case k_allocator c of
             Some a \<Rightarrow> if use_block_allocator c
               then arena a + layer_offset c (k_layer_stride_bytes c) (GetBytesPerBlock g c) layer
                      + GetBytesPerBlock g c * of_int block_id
               else 0
           | None \<Rightarrow> 0)"

definition GetVBlockPtr :: "ggml \<Rightarrow> paged_kv_cache \<Rightarrow> int \<Rightarrow> int \<Rightarrow> u64" where
  "GetVBlockPtr g c block_id layer =
     (if \<not> block_in_layer c block_id layer then 0
      else case v_allocator c of
             Some a \<Rightarrow> if use_block_allocator c
               then arena a + layer_offset c (v_layer_stride_bytes c) (GetVBytesPerBlock g c) layer
                      + GetVBytesPerBlock g c * of_int block_id
               else 0
           | None \<Rightarrow> 0)"

definition GetIndexBlockPtr :: "paged_kv_cache \<Rightarrow> int \<Rightarrow> int \<Rightarrow> u64" where
  "GetIndexBlockPtr c block_id layer =
     (case index_allocator c of
        Some a \<Rightarrow> if has_index_cache c \<and> block_in_layer c block_id layer
          then arena a + layer_offset c (index_layer_stride_bytes c) (GetIndexBytesPerBlock c) layer
                 + GetIndexBytesPerBlock c * of_int block_id
          else 0
      | None \<Rightarrow> 0)"

definition slot_ptr :: "u64 \<Rightarrow> u64 \<Rightarrow> int \<Rightarrow> u64" where
  "slot_ptr block_ptr bytes slot =
     (if block_ptr = 0 \<or> slot < 0 \<or> BLOCK_SIZE \<le> slot then 0 else block_ptr + of_int slot * bytes)"

definition GetKSlotPtr :: "ggml \<Rightarrow> paged_kv_cache \<Rightarrow> int \<Rightarrow> int \<Rightarrow> int \<Rightarrow> u64" where
  "GetKSlotPtr g c block_id layer slot = slot_ptr (GetKBlockPtr g c block_id layer) (GetBytesPerSlot g c) slot"

definition GetVSlotPtr :: "ggml \<Rightarrow> paged_kv_cache \<Rightarrow> int \<Rightarrow> int \<Rightarrow> int \<Rightarrow> u64" where
  "GetVSlotPtr g c block_id layer slot = slot_ptr (GetVBlockPtr g c block_id layer) (GetVBytesPerSlot g c) slot"

definition GetIndexSlotPtr :: "paged_kv_cache \<Rightarrow> int \<Rightarrow> int \<Rightarrow> int \<Rightarrow> u64" where
  "GetIndexSlotPtr c block_id layer slot = slot_ptr (GetIndexBlockPtr c block_id layer) (GetIndexBytesPerSlot c) slot"

definition FillBlockPtrsForLayer :: "ggml \<Rightarrow> paged_kv_cache \<Rightarrow> int list \<Rightarrow> int \<Rightarrow> u64 list \<times> u64 list" where
  "FillBlockPtrsForLayer g c ids layer =
     (let none = (replicate (length ids) 0, replicate (length ids) 0)
      in if layer < 0 \<or> kc_n_layer c \<le> layer \<or> \<not> use_block_allocator c then none
         else case (k_allocator c, v_allocator c) of
                (Some ka, Some va) \<Rightarrow>
                  let ko = layer_offset c (k_layer_stride_bytes c) (GetBytesPerBlock g c) layer;
                      vo = layer_offset c (v_layer_stride_bytes c) (GetVBytesPerBlock g c) layer
                  in (map (\<lambda>b. if b < 0 \<or> kc_max_blocks c \<le> b then 0 else arena ka + ko + GetBytesPerBlock g c * of_int b) ids,
                      map (\<lambda>b. if b < 0 \<or> kc_max_blocks c \<le> b then 0 else arena va + vo + GetVBytesPerBlock g c * of_int b) ids)
              | _ \<Rightarrow> none)"

section \<open>Copying blocks\<close>

definition CopyBlockDataLayer :: "ggml \<Rightarrow> paged_kv_cache \<Rightarrow> int \<Rightarrow> int \<Rightarrow> int \<Rightarrow> memory \<Rightarrow> memory" where
  "CopyBlockDataLayer g c src dst layer m =
     (if src = dst \<or> src < 0 \<or> dst < 0 \<or> layer < 0 \<or> kc_n_layer c \<le> layer then m
      else let ks = GetKBlockPtr g c src layer; kd = GetKBlockPtr g c dst layer;
               vs = GetVBlockPtr g c src layer; vd = GetVBlockPtr g c dst layer;
               is = GetIndexBlockPtr c src layer; id = GetIndexBlockPtr c dst layer;
               m1 = (if ks \<noteq> 0 \<and> kd \<noteq> 0 then mem_copy kd ks (unat (GetBytesPerBlock g c)) m else m);
               m2 = (if vs \<noteq> 0 \<and> vd \<noteq> 0 then mem_copy vd vs (unat (GetVBytesPerBlock g c)) m1 else m1)
           in if is \<noteq> 0 \<and> id \<noteq> 0 \<and> 0 < GetIndexBytesPerBlock c
              then mem_copy id is (unat (GetIndexBytesPerBlock c)) m2 else m2)"

definition CopyBlockData :: "ggml \<Rightarrow> paged_kv_cache \<Rightarrow> int \<Rightarrow> int \<Rightarrow> memory \<Rightarrow> memory" where
  "CopyBlockData g c src dst m =
     (if src = dst \<or> src < 0 \<or> dst < 0 then m
      else fold (\<lambda>layer. CopyBlockDataLayer g c src dst (int layer)) [0..<nat (kc_n_layer c)] m)"

definition host_k_bytes :: "ggml \<Rightarrow> paged_kv_cache \<Rightarrow> nat \<Rightarrow> u64" where
  "host_k_bytes g c n = of_nat n * of_int (kc_n_layer c) * GetBytesPerBlock g c"

definition host_v_bytes :: "ggml \<Rightarrow> paged_kv_cache \<Rightarrow> nat \<Rightarrow> u64" where
  "host_v_bytes g c n = of_nat n * of_int (kc_n_layer c) * GetVBytesPerBlock g c"

definition host_index_bytes :: "paged_kv_cache \<Rightarrow> nat \<Rightarrow> u64" where
  "host_index_bytes c n = (if has_index_cache c then of_nat n * of_int (kc_n_layer c) * GetIndexBytesPerBlock c else 0)"

text \<open>Offset of the copy of layer \<open>layer\<close> of the block at position \<open>i\<close> of the table.\<close>

definition host_offset :: "paged_kv_cache \<Rightarrow> nat \<Rightarrow> nat \<Rightarrow> u64 \<Rightarrow> nat" where
  "host_offset c i layer bytes = unat ((of_nat i * of_int (kc_n_layer c) + of_nat layer) * bytes)"

definition copy_out_layer ::
  "ggml \<Rightarrow> paged_kv_cache \<Rightarrow> memory \<Rightarrow> int list \<Rightarrow> nat \<times> nat \<Rightarrow> u8 list \<times> u8 list \<Rightarrow> u8 list \<times> u8 list" where
  "copy_out_layer g c m ids = (\<lambda>(i, layer) (k_out, v_out).
     let block_id = ids ! i
     in if block_id < 0 then (k_out, v_out)
        else let ks = GetKBlockPtr g c block_id (int layer); vs = GetVBlockPtr g c block_id (int layer);
                 is = GetIndexBlockPtr c block_id (int layer); total_k = host_k_bytes g c (length ids);
                 k1 = (if ks \<noteq> 0
                       then splice_at (host_offset c i layer (GetBytesPerBlock g c)) (read_bytes m ks (unat (GetBytesPerBlock g c))) k_out
                       else k_out);
                 v1 = (if vs \<noteq> 0
                       then splice_at (host_offset c i layer (GetVBytesPerBlock g c)) (read_bytes m vs (unat (GetVBytesPerBlock g c))) v_out
                       else v_out);
                 k2 = (if is \<noteq> 0 \<and> 0 < host_index_bytes c (length ids)
                       then splice_at (unat (total_k + of_nat (host_offset c i layer (GetIndexBytesPerBlock c))))
                              (read_bytes m is (unat (GetIndexBytesPerBlock c))) k1
                       else k1)
             in (k2, v1))"

definition CopyBlocksToHost :: "ggml \<Rightarrow> paged_kv_cache \<Rightarrow> int list \<Rightarrow> memory \<Rightarrow> u8 list \<times> u8 list" where
  "CopyBlocksToHost g c ids m =
     (let n = length ids
      in fold (copy_out_layer g c m ids) (List.product [0..<n] [0..<nat (kc_n_layer c)])
           (replicate (unat (host_k_bytes g c n + host_index_bytes c n)) 0, replicate (unat (host_v_bytes g c n)) 0))"

definition copy_in_layer ::
  "ggml \<Rightarrow> paged_kv_cache \<Rightarrow> u8 list \<times> u8 list \<Rightarrow> int list \<Rightarrow> nat \<times> nat \<Rightarrow> memory \<Rightarrow> memory" where
  "copy_in_layer g c host ids = (\<lambda>(i, layer) m.
     let block_id = ids ! i; (k_in, v_in) = host
     in if block_id < 0 then m
        else let kd = GetKBlockPtr g c block_id (int layer); vd = GetVBlockPtr g c block_id (int layer);
                 id = GetIndexBlockPtr c block_id (int layer);
                 total_k = host_k_bytes g c (length ids); total_i = host_index_bytes c (length ids);
                 m1 = (if kd \<noteq> 0
                       then write_bytes kd (take (unat (GetBytesPerBlock g c)) (drop (host_offset c i layer (GetBytesPerBlock g c)) k_in)) m
                       else m);
                 m2 = (if vd \<noteq> 0
                       then write_bytes vd (take (unat (GetVBytesPerBlock g c)) (drop (host_offset c i layer (GetVBytesPerBlock g c)) v_in)) m1
                       else m1)
             in if id \<noteq> 0 \<and> 0 < total_i \<and> unat (total_k + total_i) \<le> length k_in
                then write_bytes id (take (unat (GetIndexBytesPerBlock c))
                       (drop (unat (total_k + of_nat (host_offset c i layer (GetIndexBytesPerBlock c)))) k_in)) m2
                else m2)"

definition RestoreBlocksFromHost ::
  "ggml \<Rightarrow> paged_kv_cache \<Rightarrow> int list \<Rightarrow> u8 list \<times> u8 list \<Rightarrow> memory \<Rightarrow> memory" where
  "RestoreBlocksFromHost g c ids host m =
     (let n = length ids
      in if length (fst host) < unat (host_k_bytes g c n) \<or> length (snd host) < unat (host_v_bytes g c n) then m
         else fold (copy_in_layer g c host ids) (List.product [0..<n] [0..<nat (kc_n_layer c)]) m)"

section \<open>Slots\<close>

definition GetHeadCountForLayer :: "paged_kv_cache \<Rightarrow> int \<Rightarrow> int" where
  "GetHeadCountForLayer c layer =
     (if 0 \<le> layer \<and> layer < int (length (layer_n_head_kv c)) \<and> 0 < layer_n_head_kv c ! nat layer
      then layer_n_head_kv c ! nat layer else kc_n_head_kv c)"

definition GetHeadDimForLayer :: "paged_kv_cache \<Rightarrow> int \<Rightarrow> int" where
  "GetHeadDimForLayer c layer =
     (if 0 \<le> layer \<and> layer < int (length (layer_head_dims c)) \<and> 0 < layer_head_dims c ! nat layer
      then layer_head_dims c ! nat layer else kc_head_dim c)"

definition GetVHeadDimForLayer :: "paged_kv_cache \<Rightarrow> int \<Rightarrow> int" where
  "GetVHeadDimForLayer c layer =
     (if 0 \<le> layer \<and> layer < int (length (layer_v_head_dims c)) \<and> 0 < layer_v_head_dims c ! nat layer
      then layer_v_head_dims c ! nat layer else kc_v_head_dim c)"

text \<open>
  The K and V operations are the same code over different members. \<open>shape\<close> names those members: the element type, the
  head size and head count of the storage, and those of the layer.
\<close>

record shape =
  sh_type :: ggml_type
  sh_dim :: nat
  sh_heads :: nat
  sh_layer_dim :: nat
  sh_layer_heads :: nat

definition k_shape :: "paged_kv_cache \<Rightarrow> int \<Rightarrow> shape" where
  "k_shape c layer = \<lparr>sh_type = cache_type c, sh_dim = nat (kc_head_dim c), sh_heads = nat (kc_n_head_kv c),
     sh_layer_dim = nat (GetHeadDimForLayer c layer), sh_layer_heads = nat (GetHeadCountForLayer c layer)\<rparr>"

definition v_shape :: "paged_kv_cache \<Rightarrow> int \<Rightarrow> shape" where
  "v_shape c layer = \<lparr>sh_type = cache_type c, sh_dim = nat (kc_v_head_dim c), sh_heads = nat (kc_n_head_kv c),
     sh_layer_dim = nat (GetVHeadDimForLayer c layer), sh_layer_heads = nat (GetHeadCountForLayer c layer)\<rparr>"

definition storage_elems :: "shape \<Rightarrow> nat" where
  "storage_elems sh = sh_dim sh * sh_heads sh"

definition layer_elems :: "shape \<Rightarrow> nat" where
  "layer_elems sh = sh_layer_dim sh * sh_layer_heads sh"

text \<open>The values of head \<open>h\<close> in the layer's own layout.\<close>

definition head_of :: "shape \<Rightarrow> 'a list \<Rightarrow> nat \<Rightarrow> 'a list" where
  "head_of sh xs h = take (sh_layer_dim sh) (drop (h * sh_layer_dim sh) xs)"

text \<open>Packing into the storage layout, with a conversion per element, and back.\<close>

definition pack_slots :: "'b \<Rightarrow> ('a \<Rightarrow> 'b) \<Rightarrow> shape \<Rightarrow> nat \<Rightarrow> 'a list \<Rightarrow> 'b list" where
  "pack_slots z f sh num_slots src =
     fold (\<lambda>(s, h). splice_at (s * storage_elems sh + h * sh_dim sh) (map f (head_of sh (drop (s * layer_elems sh) src) h)))
       (List.product [0..<num_slots] [0..<sh_layer_heads sh]) (replicate (storage_elems sh * num_slots) z)"

definition unpack_slots :: "('b \<Rightarrow> 'a) \<Rightarrow> shape \<Rightarrow> nat \<Rightarrow> 'b list \<Rightarrow> 'a list \<Rightarrow> 'a list" where
  "unpack_slots f sh num_slots src out =
     fold (\<lambda>(s, h). splice_at (s * layer_elems sh + h * sh_layer_dim sh)
         (map f (take (sh_layer_dim sh) (drop (s * storage_elems sh + h * sh_dim sh) src))))
       (List.product [0..<num_slots] [0..<sh_layer_heads sh]) out"

definition PackLayerSlotsToStorageLayout :: "shape \<Rightarrow> nat \<Rightarrow> u32 list \<Rightarrow> u32 list" where
  "PackLayerSlotsToStorageLayout = pack_slots 0 id"

definition UnpackStorageSlotsToLayerLayout :: "shape \<Rightarrow> nat \<Rightarrow> u32 list \<Rightarrow> u32 list \<Rightarrow> u32 list" where
  "UnpackStorageSlotsToLayerLayout = unpack_slots id"

definition WriteLayerSlotsToF16Storage :: "ggml \<Rightarrow> shape \<Rightarrow> nat \<Rightarrow> u32 list \<Rightarrow> u16 list" where
  "WriteLayerSlotsToF16Storage g = pack_slots 0 (fp32_to_fp16 g)"

definition ReadLayerSlotsFromF16Storage :: "ggml \<Rightarrow> shape \<Rightarrow> nat \<Rightarrow> u16 list \<Rightarrow> u32 list \<Rightarrow> u32 list" where
  "ReadLayerSlotsFromF16Storage g = unpack_slots (fp16_to_fp32 g)"

text \<open>One head of one slot; the scratch buffer of the quantised types is zero behind the values copied in.\<close>

definition write_head :: "ggml \<Rightarrow> shape \<Rightarrow> u64 \<Rightarrow> u32 list \<Rightarrow> nat \<Rightarrow> memory \<Rightarrow> memory" where
  "write_head g sh ptr data h m =
     (let values = (if h < sh_layer_heads sh then head_of sh data h else [])
      in if sh_type sh = GGML_TYPE_F16
         then let dst = ptr + of_nat (h * sh_dim sh * 2)
              in write_bytes dst (words_to_bytes 2 (map (fp32_to_fp16 g) values)) (write_bytes dst (replicate (sh_dim sh * 2) 0) m)
         else if row_quantized (sh_type sh)
         then let padded = take (sh_dim sh) (values @ replicate (sh_dim sh) 0)
              in write_bytes (ptr + of_nat h * ggml_row_size g (sh_type sh) (int (sh_dim sh)))
                   (ggml_quantize_chunk g (sh_type sh) padded 1 (int (sh_dim sh))) m
         else let dst = ptr + of_nat (h * sh_dim sh * 4)
              in write_bytes dst (words_to_bytes 4 values) (write_bytes dst (replicate (sh_dim sh * 4) 0) m))"

definition write_slot :: "ggml \<Rightarrow> shape \<Rightarrow> u64 \<Rightarrow> u32 list \<Rightarrow> memory \<Rightarrow> memory" where
  "write_slot g sh ptr data m = (if ptr = 0 then m else fold (write_head g sh ptr data) [0..<sh_heads sh] m)"

definition read_head :: "ggml \<Rightarrow> shape \<Rightarrow> u64 \<Rightarrow> memory \<Rightarrow> nat \<Rightarrow> u32 list" where
  "read_head g sh ptr m h =
     (if sh_type sh = GGML_TYPE_F16
      then map (fp16_to_fp32 g) (bytes_to_words 2 (sh_layer_dim sh)
             (read_bytes m (ptr + of_nat (h * sh_dim sh * 2)) (sh_layer_dim sh * 2)))
      else if row_quantized (sh_type sh)
      then let head_stride = ggml_row_size g (sh_type sh) (int (sh_dim sh))
           in take (sh_layer_dim sh)
                (ggml_to_float g (sh_type sh) (read_bytes m (ptr + of_nat h * head_stride) (unat head_stride)) (int (sh_dim sh)))
      else bytes_to_words 4 (sh_layer_dim sh) (read_bytes m (ptr + of_nat (h * sh_dim sh * 4)) (sh_layer_dim sh * 4)))"

definition read_slot :: "ggml \<Rightarrow> shape \<Rightarrow> u64 \<Rightarrow> memory \<Rightarrow> nat \<Rightarrow> u32 list \<Rightarrow> u32 list" where
  "read_slot g sh ptr m off out =
     (if ptr = 0 then out
      else fold (\<lambda>h. splice_at (off + h * sh_layer_dim sh) (read_head g sh ptr m h)) [0..<sh_layer_heads sh] out)"

text \<open>The bulk operations; \<open>bulk\<close> is \<^verbatim>\<open>UseKVBulkSlotPath()\<close> and \<open>slot\<close> maps a slot to its address.\<close>

definition write_each_slot :: "ggml \<Rightarrow> shape \<Rightarrow> (int \<Rightarrow> u64) \<Rightarrow> int \<Rightarrow> nat \<Rightarrow> u32 list \<Rightarrow> memory \<Rightarrow> memory" where
  "write_each_slot g sh slot start num data =
     fold (\<lambda>i. write_slot g sh (slot (start + int i)) (drop (i * layer_elems sh) data)) [0..<num]"

definition write_uniform :: "ggml \<Rightarrow> shape \<Rightarrow> u64 \<Rightarrow> nat \<Rightarrow> u32 list \<Rightarrow> memory \<Rightarrow> memory" where
  "write_uniform g sh ptr num data m =
     (let total = layer_elems sh * num; storage_total = storage_elems sh * num
      in if sh_type sh = GGML_TYPE_F16
         then let m1 = write_bytes ptr (words_to_bytes 2 (map (fp32_to_fp16 g) (take total data))) m
              in if total < storage_total then write_bytes (ptr + of_nat (total * 2)) (replicate ((storage_total - total) * 2) 0) m1
                 else m1
         else if row_quantized (sh_type sh)
         then let rows = num * sh_heads sh;
                  values = (if sh_layer_dim sh = sh_dim sh then data
                            else concat (map (\<lambda>row. take (sh_dim sh) (head_of sh data row @ replicate (sh_dim sh) 0)) [0..<rows]))
              in write_bytes ptr (ggml_quantize_chunk g (sh_type sh) (take (rows * sh_dim sh) values) (int rows) (int (sh_dim sh))) m
         else let m1 = write_bytes ptr (words_to_bytes 4 (take total data)) m
              in if total < storage_total then write_bytes (ptr + of_nat (total * 4)) (replicate ((storage_total - total) * 4) 0) m1
                 else m1)"

definition write_slots :: "ggml \<Rightarrow> bool \<Rightarrow> shape \<Rightarrow> (int \<Rightarrow> u64) \<Rightarrow> int \<Rightarrow> int \<Rightarrow> u32 list \<Rightarrow> memory \<Rightarrow> memory" where
  "write_slots g bulk sh slot start num data m =
     (let n = nat num; ptr = slot start; q = row_quantized (sh_type sh)
      in if num \<le> 0 \<or> start < 0 \<or> BLOCK_SIZE < start + num then m
         else if \<not> bulk then write_each_slot g sh slot start n data m
         else if ptr = 0 then m
         else if sh_layer_heads sh \<noteq> sh_heads sh \<or> sh_layer_dim sh \<noteq> sh_dim sh
         then if sh_type sh = GGML_TYPE_F16 then write_bytes ptr (words_to_bytes 2 (WriteLayerSlotsToF16Storage g sh n data)) m
              else if q then write_bytes ptr (ggml_quantize_chunk g (sh_type sh) (PackLayerSlotsToStorageLayout sh n data)
                                (int (n * sh_heads sh)) (int (sh_dim sh))) m
              else write_bytes ptr (words_to_bytes 4 (PackLayerSlotsToStorageLayout sh n data)) m
         else write_uniform g sh ptr n data m)"

definition read_each_slot :: "ggml \<Rightarrow> shape \<Rightarrow> (int \<Rightarrow> u64) \<Rightarrow> int \<Rightarrow> nat \<Rightarrow> memory \<Rightarrow> u32 list \<Rightarrow> u32 list" where
  "read_each_slot g sh slot start num m =
     fold (\<lambda>i. read_slot g sh (slot (start + int i)) m (i * layer_elems sh)) [0..<num]"

text \<open>The rows of a quantised region, dequantised one by one.\<close>

definition float_rows :: "ggml \<Rightarrow> shape \<Rightarrow> u64 \<Rightarrow> nat \<Rightarrow> memory \<Rightarrow> u32 list list" where
  "float_rows g sh ptr rows m =
     (let head_stride = ggml_row_size g (sh_type sh) (int (sh_dim sh))
      in map (\<lambda>row. ggml_to_float g (sh_type sh) (read_bytes m (ptr + of_nat row * head_stride) (unat head_stride)) (int (sh_dim sh)))
           [0..<rows])"

definition read_uniform :: "ggml \<Rightarrow> shape \<Rightarrow> u64 \<Rightarrow> nat \<Rightarrow> memory \<Rightarrow> u32 list \<Rightarrow> u32 list" where
  "read_uniform g sh ptr num m out =
     (let total = layer_elems sh * num
      in if sh_type sh = GGML_TYPE_F16
         then splice_at 0 (map (fp16_to_fp32 g) (bytes_to_words 2 total (read_bytes m ptr (total * 2)))) out
         else if row_quantized (sh_type sh)
         then fold (\<lambda>(row, values). splice_at (row * sh_layer_dim sh) (take (sh_layer_dim sh) values))
                (enumerate 0 (float_rows g sh ptr (num * sh_heads sh) m)) out
         else splice_at 0 (bytes_to_words 4 total (read_bytes m ptr (total * 4))) out)"

definition read_slots :: "ggml \<Rightarrow> bool \<Rightarrow> shape \<Rightarrow> (int \<Rightarrow> u64) \<Rightarrow> int \<Rightarrow> int \<Rightarrow> memory \<Rightarrow> u32 list \<Rightarrow> u32 list" where
  "read_slots g bulk sh slot start num m out =
     (let n = nat num; ptr = slot start; total = storage_elems sh * n
      in if num \<le> 0 \<or> start < 0 \<or> BLOCK_SIZE < start + num then out
         else if \<not> bulk then read_each_slot g sh slot start n m out
         else if ptr = 0 then out
         else if sh_layer_heads sh \<noteq> sh_heads sh \<or> sh_layer_dim sh \<noteq> sh_dim sh
         then if sh_type sh = GGML_TYPE_F16
              then ReadLayerSlotsFromF16Storage g sh n (bytes_to_words 2 total (read_bytes m ptr (total * 2))) out
              else if row_quantized (sh_type sh)
              then UnpackStorageSlotsToLayerLayout sh n (concat (float_rows g sh ptr (n * sh_heads sh) m)) out
              else UnpackStorageSlotsToLayerLayout sh n (bytes_to_words 4 total (read_bytes m ptr (total * 4))) out
         else read_uniform g sh ptr n m out)"

definition WriteKSlot :: "ggml \<Rightarrow> paged_kv_cache \<Rightarrow> int \<Rightarrow> int \<Rightarrow> int \<Rightarrow> u32 list \<Rightarrow> memory \<Rightarrow> memory" where
  "WriteKSlot g c block_id layer slot = write_slot g (k_shape c layer) (GetKSlotPtr g c block_id layer slot)"

definition WriteVSlot :: "ggml \<Rightarrow> paged_kv_cache \<Rightarrow> int \<Rightarrow> int \<Rightarrow> int \<Rightarrow> u32 list \<Rightarrow> memory \<Rightarrow> memory" where
  "WriteVSlot g c block_id layer slot = write_slot g (v_shape c layer) (GetVSlotPtr g c block_id layer slot)"

definition ReadKSlot :: "ggml \<Rightarrow> paged_kv_cache \<Rightarrow> int \<Rightarrow> int \<Rightarrow> int \<Rightarrow> memory \<Rightarrow> u32 list \<Rightarrow> u32 list" where
  "ReadKSlot g c block_id layer slot m = read_slot g (k_shape c layer) (GetKSlotPtr g c block_id layer slot) m 0"

definition ReadVSlot :: "ggml \<Rightarrow> paged_kv_cache \<Rightarrow> int \<Rightarrow> int \<Rightarrow> int \<Rightarrow> memory \<Rightarrow> u32 list \<Rightarrow> u32 list" where
  "ReadVSlot g c block_id layer slot m = read_slot g (v_shape c layer) (GetVSlotPtr g c block_id layer slot) m 0"

definition WriteIndexSlot :: "ggml \<Rightarrow> paged_kv_cache \<Rightarrow> int \<Rightarrow> int \<Rightarrow> int \<Rightarrow> u32 list \<Rightarrow> memory \<Rightarrow> memory" where
  "WriteIndexSlot g c block_id layer slot data m =
     (let ptr = GetIndexSlotPtr c block_id layer slot
      in if ptr = 0 \<or> \<not> has_index_cache c \<or> kc_index_head_dim c \<le> 0 then m
         else write_bytes ptr (words_to_bytes 2 (map (fp32_to_fp16 g) (take (nat (kc_index_head_dim c)) data))) m)"

definition ReadIndexSlot :: "ggml \<Rightarrow> paged_kv_cache \<Rightarrow> int \<Rightarrow> int \<Rightarrow> int \<Rightarrow> memory \<Rightarrow> u32 list \<Rightarrow> u32 list" where
  "ReadIndexSlot g c block_id layer slot m out =
     (let ptr = GetIndexSlotPtr c block_id layer slot; n = nat (kc_index_head_dim c)
      in if ptr = 0 \<or> \<not> has_index_cache c \<or> kc_index_head_dim c \<le> 0 then out
         else splice_at 0 (map (fp16_to_fp32 g) (bytes_to_words 2 n (read_bytes m ptr (n * 2)))) out)"

definition WriteKSlots ::
  "ggml \<Rightarrow> bool \<Rightarrow> paged_kv_cache \<Rightarrow> int \<Rightarrow> int \<Rightarrow> int \<Rightarrow> int \<Rightarrow> u32 list \<Rightarrow> memory \<Rightarrow> memory" where
  "WriteKSlots g bulk c block_id layer = write_slots g bulk (k_shape c layer) (GetKSlotPtr g c block_id layer)"

definition WriteVSlots ::
  "ggml \<Rightarrow> bool \<Rightarrow> paged_kv_cache \<Rightarrow> int \<Rightarrow> int \<Rightarrow> int \<Rightarrow> int \<Rightarrow> u32 list \<Rightarrow> memory \<Rightarrow> memory" where
  "WriteVSlots g bulk c block_id layer = write_slots g bulk (v_shape c layer) (GetVSlotPtr g c block_id layer)"

definition ReadKSlots ::
  "ggml \<Rightarrow> bool \<Rightarrow> paged_kv_cache \<Rightarrow> int \<Rightarrow> int \<Rightarrow> int \<Rightarrow> int \<Rightarrow> memory \<Rightarrow> u32 list \<Rightarrow> u32 list" where
  "ReadKSlots g bulk c block_id layer = read_slots g bulk (k_shape c layer) (GetKSlotPtr g c block_id layer)"

definition ReadVSlots ::
  "ggml \<Rightarrow> bool \<Rightarrow> paged_kv_cache \<Rightarrow> int \<Rightarrow> int \<Rightarrow> int \<Rightarrow> int \<Rightarrow> memory \<Rightarrow> u32 list \<Rightarrow> u32 list" where
  "ReadVSlots g bulk c block_id layer = read_slots g bulk (v_shape c layer) (GetVSlotPtr g c block_id layer)"

section \<open>Set-up\<close>

text \<open>What the set-up reads of the model; the members are \<^verbatim>\<open>uint32_t\<close> and are converted to \<^verbatim>\<open>int\<close>.\<close>

record kv_model =
  km_is_bert :: bool
  km_is_glm_dsa :: bool
  km_is_gemma4 :: bool
  km_n_embd_head_k :: u32
  km_n_embd_head_v :: u32
  km_n_head_kv :: u32
  km_n_layer :: u32
  km_glm_index_head_dim :: int
  km_layer_n_head_kv :: "u32 list"
  km_layer_is_sliding :: "u8 list"
  km_key_length_full :: u32
  km_value_length_full :: u32
  km_key_length_swa :: u32
  km_value_length_swa :: u32

text \<open>
  A null result, an exception or an access outside a vector (\<open>InitFails\<close>), or the cache.
\<close>

datatype kv_init = InitNull | InitFails | InitOk paged_kv_cache

definition empty_cache :: "block_manager \<Rightarrow> paged_kv_cache" where
  "empty_cache bm =
     \<lparr>kc_block_manager = bm, kc_head_dim = 0, kc_v_head_dim = 0, kc_index_head_dim = 0, kc_n_head_kv = 0, kc_n_layer = 0,
      kc_max_blocks = 0, layer_n_head_kv = [], layer_head_dims = [], layer_v_head_dims = [], k_bytes_per_slot = 0,
      v_bytes_per_slot = 0, index_bytes_per_slot = 0, k_bytes_per_block = 0, v_bytes_per_block = 0,
      index_bytes_per_block = 0, k_layer_stride_bytes = 0, v_layer_stride_bytes = 0, index_layer_stride_bytes = 0,
      cache_type = GGML_TYPE_F16, kc_numa_node_id = -1, k_allocator = None, v_allocator = None, index_allocator = None,
      use_block_allocator = False, has_index_cache = False\<rparr>"

definition base_dims :: "kv_model \<Rightarrow> paged_kv_cache \<Rightarrow> paged_kv_cache" where
  "base_dims md c =
     (let bert = km_is_bert md;
          hd = (if bert then 1 else sint (km_n_embd_head_k md));
          vd = (if bert then 1 else if 0 < km_n_embd_head_v md then sint (km_n_embd_head_v md) else sint (km_n_embd_head_k md));
          nh = (if bert then 1 else sint (km_n_head_kv md));
          nl = (if bert then 1 else sint (km_n_layer md))
      in c\<lparr>kc_head_dim := hd, kc_v_head_dim := vd,
           kc_index_head_dim := (if \<not> bert \<and> km_is_glm_dsa md then km_glm_index_head_dim md else 0),
           kc_n_head_kv := nh, kc_n_layer := nl, layer_n_head_kv := replicate (nat nl) (max 1 nh),
           layer_head_dims := replicate (nat nl) hd, layer_v_head_dims := replicate (nat nl) vd\<rparr>)"

definition gemma4_heads :: "kv_model \<Rightarrow> paged_kv_cache \<Rightarrow> paged_kv_cache" where
  "gemma4_heads md c =
     (if km_layer_n_head_kv md = [] then c
      else let per_layer = map (\<lambda>layer. if layer < length (km_layer_n_head_kv md) \<and> 0 < km_layer_n_head_kv md ! layer
                                        then sint (km_layer_n_head_kv md ! layer) else max 1 (kc_n_head_kv c))
                             [0..<nat (kc_n_layer c)]
           in c\<lparr>layer_n_head_kv := per_layer, kc_n_head_kv := fold max per_layer (max 1 (kc_n_head_kv c))\<rparr>)"

definition gemma4_dims :: "kv_model \<Rightarrow> paged_kv_cache \<Rightarrow> paged_kv_cache" where
  "gemma4_dims md c =
     (let full_k = (if 0 < km_key_length_full md then sint (km_key_length_full md) else kc_head_dim c);
          full_v = (if 0 < km_value_length_full md then sint (km_value_length_full md) else kc_v_head_dim c);
          swa_k = (if 0 < km_key_length_swa md then sint (km_key_length_swa md) else full_k);
          swa_v = (if 0 < km_value_length_swa md then sint (km_value_length_swa md) else full_v);
          sliding = (\<lambda>layer. layer < length (km_layer_is_sliding md) \<and> km_layer_is_sliding md ! layer \<noteq> 0);
          ks = map (\<lambda>layer. let t = (if sliding layer then swa_k else full_k) in if 0 < t then max 1 t else kc_head_dim c)
                 [0..<nat (kc_n_layer c)];
          vs = map (\<lambda>layer. let t = (if sliding layer then swa_v else full_v) in if 0 < t then max 1 t else kc_v_head_dim c)
                 [0..<nat (kc_n_layer c)]
      in c\<lparr>layer_head_dims := ks, layer_v_head_dims := vs, kc_head_dim := fold max (tl ks) (hd ks),
           kc_v_head_dim := fold max (tl vs) (hd vs)\<rparr>)"

definition model_dims :: "kv_model \<Rightarrow> paged_kv_cache \<Rightarrow> paged_kv_cache" where
  "model_dims md c = (if km_is_gemma4 md then gemma4_dims md (gemma4_heads md (base_dims md c)) else base_dims md c)"

definition effective_type :: "ggml \<Rightarrow> ggml_type \<Rightarrow> paged_kv_cache \<Rightarrow> ggml_type" where
  "effective_type g ty c =
     (let ty1 = (if ty \<noteq> GGML_TYPE_F32 \<and> ty \<noteq> GGML_TYPE_F16 \<and> ty \<noteq> GGML_TYPE_Q8_0 \<and> ty \<noteq> GGML_TYPE_Q4_0
                 then GGML_TYPE_F16 else ty)
      in if ggml_is_quantized g ty1 \<and>
            (kc_head_dim c smod ggml_blck_size g ty1 \<noteq> 0 \<or> kc_v_head_dim c smod ggml_blck_size g ty1 \<noteq> 0)
         then GGML_TYPE_F16 else ty1)"

definition typed_cache :: "ggml \<Rightarrow> ggml_type \<Rightarrow> int \<Rightarrow> kv_model \<Rightarrow> paged_kv_cache \<Rightarrow> paged_kv_cache" where
  "typed_cache g ty node md c =
     c\<lparr>cache_type := effective_type g ty c, kc_numa_node_id := node, has_index_cache := km_is_glm_dsa md \<and> 0 < kc_index_head_dim c\<rparr>"

definition set_geometry :: "ggml \<Rightarrow> paged_kv_cache \<Rightarrow> paged_kv_cache" where
  "set_geometry g c0 =
     (let c1 = c0\<lparr>k_bytes_per_slot := GetBytesPerSlot g c0\<rparr>;
          c2 = c1\<lparr>v_bytes_per_slot := GetVBytesPerSlot g c1\<rparr>;
          c3 = c2\<lparr>index_bytes_per_slot := GetIndexBytesPerSlot c2\<rparr>;
          c4 = c3\<lparr>k_bytes_per_block := k_bytes_per_slot c3 * of_int BLOCK_SIZE,
                  v_bytes_per_block := v_bytes_per_slot c3 * of_int BLOCK_SIZE,
                  index_bytes_per_block := index_bytes_per_slot c3 * of_int BLOCK_SIZE\<rparr>
      in c4\<lparr>k_layer_stride_bytes := k_bytes_per_block c4 * of_int (kc_max_blocks c4),
            v_layer_stride_bytes := v_bytes_per_block c4 * of_int (kc_max_blocks c4),
            index_layer_stride_bytes := index_bytes_per_block c4 * of_int (kc_max_blocks c4)\<rparr>)"

definition attach_arenas ::
  "arena_outcome \<Rightarrow> arena_outcome \<Rightarrow> arena_outcome \<Rightarrow> int \<Rightarrow> bool \<Rightarrow> paged_kv_cache \<Rightarrow> paged_kv_cache" where
  "attach_arenas ko vo io node hugep c =
     (let n = of_int (kc_max_blocks c * kc_n_layer c); strict = (0 \<le> node)
      in c\<lparr>k_allocator := Some (KVBlockAllocator n (k_bytes_per_block c) 64 node hugep strict ko),
           v_allocator := Some (KVBlockAllocator n (v_bytes_per_block c) 64 node hugep strict vo),
           index_allocator := (if has_index_cache c
             then Some (KVBlockAllocator n (index_bytes_per_block c) 64 node hugep strict io) else None)\<rparr>)"

definition arenas_valid :: "paged_kv_cache \<Rightarrow> bool" where
  "arenas_valid c \<longleftrightarrow> (\<forall>a \<in> set_option (k_allocator c). IsValid a) \<and> (\<forall>a \<in> set_option (v_allocator c). IsValid a) \<and>
     (has_index_cache c \<longrightarrow> (case index_allocator c of None \<Rightarrow> False | Some a \<Rightarrow> IsValid a))"

definition InitPagedKVCache ::
  "ggml \<Rightarrow> bool \<Rightarrow> arena_outcome \<Rightarrow> arena_outcome \<Rightarrow> arena_outcome \<Rightarrow> (nat \<Rightarrow> nat) \<Rightarrow> (nat \<Rightarrow> nat \<Rightarrow> bool) \<Rightarrow>
   kv_model \<Rightarrow> int \<Rightarrow> int \<Rightarrow> ggml_type \<Rightarrow> int \<Rightarrow> kv_init" where
  "InitPagedKVCache g hugep ko vo io rnd busy md max_num_seqs max_seq_len ty numa_node_id =
     (if max_num_seqs \<le> 0 \<or> max_seq_len \<le> 0 then InitNull
      else let c0 = empty_cache (BlockManager 0 BLOCK_SIZE rnd busy); n_layer = kc_n_layer (base_dims md c0)
           in if n_layer < 0 \<or> (km_is_gemma4 md \<and> n_layer = 0) then InitFails
              else let c1 = typed_cache g ty numa_node_id md (model_dims md c0);
                       max_blocks = (max_num_seqs * max_seq_len + BLOCK_SIZE - 1) sdiv BLOCK_SIZE
                   in if 2 ^ 31 - 1 < max_blocks then InitNull
                      else let c2 = set_geometry g (c1\<lparr>kc_max_blocks := max_blocks,
                                       kc_block_manager := BlockManager max_blocks BLOCK_SIZE rnd busy\<rparr>);
                               c3 = attach_arenas ko vo io numa_node_id hugep c2
                           in if \<not> arenas_valid c3 then InitNull else InitOk (c3\<lparr>use_block_allocator := True\<rparr>))"

end
