(* ===== verification/Storage_Laws.thy ===== *)
theory Storage_Laws
  imports Paged_Storage
begin

text \<open>
  Laws of the paged storage. The device arenas and the host buffers of a swapped sequence are two instances of
  \<open>keyed_store\<close>, so that a swap-out followed by a swap-in is a trip of the \<open>ferry\<close>; copy-on-write copies within the device.
  The slot operations are reduced to the byte image of a slot.
\<close>

section \<open>Geometry\<close>

datatype plane = KPlane | VPlane | IndexPlane

definition plane_list :: "paged_kv_cache \<Rightarrow> plane list" where
  "plane_list c = [KPlane, VPlane] @ (if has_index_cache c then [IndexPlane] else [])"

fun plane_allocator :: "paged_kv_cache \<Rightarrow> plane \<Rightarrow> kv_block_allocator option" where
  "plane_allocator c KPlane = k_allocator c"
| "plane_allocator c VPlane = v_allocator c"
| "plane_allocator c IndexPlane = index_allocator c"

fun plane_bytes :: "ggml \<Rightarrow> paged_kv_cache \<Rightarrow> plane \<Rightarrow> u64" where
  "plane_bytes g c KPlane = GetBytesPerBlock g c"
| "plane_bytes g c VPlane = GetVBytesPerBlock g c"
| "plane_bytes g c IndexPlane = GetIndexBytesPerBlock c"

fun plane_stride :: "paged_kv_cache \<Rightarrow> plane \<Rightarrow> u64" where
  "plane_stride c KPlane = k_layer_stride_bytes c"
| "plane_stride c VPlane = v_layer_stride_bytes c"
| "plane_stride c IndexPlane = index_layer_stride_bytes c"

fun plane_ptr :: "ggml \<Rightarrow> paged_kv_cache \<Rightarrow> plane \<Rightarrow> int \<Rightarrow> int \<Rightarrow> u64" where
  "plane_ptr g c KPlane = GetKBlockPtr g c"
| "plane_ptr g c VPlane = GetVBlockPtr g c"
| "plane_ptr g c IndexPlane = GetIndexBlockPtr c"

definition plane_base :: "paged_kv_cache \<Rightarrow> plane \<Rightarrow> u64" where
  "plane_base c p = (case plane_allocator c p of Some a \<Rightarrow> arena a | None \<Rightarrow> 0)"

definition plane_size :: "ggml \<Rightarrow> paged_kv_cache \<Rightarrow> plane \<Rightarrow> nat" where
  "plane_size g c p = nat (kc_max_blocks c) * nat (kc_n_layer c) * unat (plane_bytes g c p)"

text \<open>
  The geometry is sound: every plane has its arena, which holds all blocks of all layers without wrapping around the
  address space, and the arenas do not meet.
\<close>

definition storage_ok :: "ggml \<Rightarrow> paged_kv_cache \<Rightarrow> bool" where
  "storage_ok g c \<longleftrightarrow> use_block_allocator c \<and> 0 \<le> kc_max_blocks c \<and> 0 \<le> kc_n_layer c \<and>
     (\<forall>p \<in> set (plane_list c). plane_allocator c p \<noteq> None \<and> plane_base c p \<noteq> 0 \<and>
        plane_stride c p = plane_bytes g c p * of_int (kc_max_blocks c) \<and>
        unat (plane_base c p) + plane_size g c p \<le> 2 ^ 64) \<and>
     (\<forall>p \<in> set (plane_list c). \<forall>q \<in> set (plane_list c). p \<noteq> q \<longrightarrow>
        apart (plane_base c p) (plane_size g c p) (plane_base c q) (plane_size g c q))"

definition block_rank :: "paged_kv_cache \<Rightarrow> int \<Rightarrow> int \<Rightarrow> nat" where
  "block_rank c block_id layer = nat layer * nat (kc_max_blocks c) + nat block_id"

lemma block_rank_bound:
  assumes "block_in_layer c b l"
  shows "Suc (block_rank c b l) \<le> nat (kc_max_blocks c) * nat (kc_n_layer c)"
proof -
  have "Suc (nat l) * nat (kc_max_blocks c) \<le> nat (kc_n_layer c) * nat (kc_max_blocks c)"
    using assms by (intro mult_right_mono) (auto simp: block_in_layer_def)
  moreover have "nat b < nat (kc_max_blocks c)" using assms by (auto simp: block_in_layer_def)
  ultimately show ?thesis
    unfolding block_rank_def mult.commute [of "nat (kc_max_blocks c)" "nat (kc_n_layer c)"] mult_Suc by linarith
qed

lemma block_rank_inj:
  assumes "block_in_layer c b l" and "block_in_layer c b' l'" and "block_rank c b l = block_rank c b' l'"
  shows "b = b' \<and> l = l'"
proof -
  let ?n = "nat (kc_max_blocks c)"
  have n: "nat b < ?n" "nat b' < ?n" using assms by (auto simp: block_in_layer_def)
  then have "nat b = nat b'" "nat l = nat l'"
    using arg_cong [OF assms(3), of "\<lambda>x. x mod ?n"] arg_cong [OF assms(3), of "\<lambda>x. x div ?n"]
    by (auto simp: block_rank_def)
  then show ?thesis using assms by (auto simp: block_in_layer_def)
qed

lemma block_offset_word:
  assumes "block_in_layer c b l" and "stride = bytes * of_int (kc_max_blocks c)"
  shows "layer_offset c stride bytes l + bytes * of_int b = of_nat (block_rank c b l) * bytes"
  using assms by (auto simp: layer_offset_def block_rank_def block_in_layer_def algebra_simps)

lemma plane_ptr_eq:
  assumes "storage_ok g c" and "p \<in> set (plane_list c)" and "block_in_layer c b l"
  shows "plane_ptr g c p b l = plane_base c p + of_nat (block_rank c b l) * plane_bytes g c p"
  using assms block_offset_word [OF assms(3), of "plane_stride c p" "plane_bytes g c p"]
  by (cases p) (auto simp: storage_ok_def GetKBlockPtr_def GetVBlockPtr_def GetIndexBlockPtr_def plane_base_def plane_list_def
      add.assoc split: if_splits option.splits)

lemma unat_plane_ptr:
  assumes "storage_ok g c" and "p \<in> set (plane_list c)" and "block_in_layer c b l"
  shows "unat (plane_ptr g c p b l) = unat (plane_base c p) + block_rank c b l * unat (plane_bytes g c p) \<and>
    Suc (block_rank c b l) * unat (plane_bytes g c p) \<le> plane_size g c p"
proof -
  let ?w = "unat (plane_bytes g c p)" and ?r = "block_rank c b l"
  have le: "Suc ?r * ?w \<le> plane_size g c p"
    unfolding plane_size_def using block_rank_bound [OF assms(3)] by (intro mult_right_mono) auto
  have base: "unat (plane_base c p) + plane_size g c p \<le> 2 ^ 64" using assms(1,2) by (auto simp: storage_ok_def)
  have eq: "of_nat ?r * plane_bytes g c p = of_nat (?r * ?w)" by simp
  show ?thesis
  proof (cases "?w = 0")
    case True
    then have "plane_bytes g c p = 0" by (simp add: unat_eq_0)
    then show ?thesis using le by (simp add: plane_ptr_eq [OF assms])
  next
    case False
    then have "unat (plane_base c p) + ?r * ?w < 2 ^ 64" using le base by simp
    then show ?thesis using le unat_add_64 by (simp add: plane_ptr_eq [OF assms] eq del: of_nat_mult)
  qed
qed

lemma plane_ptr_nonzero:
  assumes "storage_ok g c" and "p \<in> set (plane_list c)" and "block_in_layer c b l"
  shows "plane_ptr g c p b l \<noteq> 0"
proof -
  have "0 < unat (plane_base c p)" using assms(1,2) by (auto simp: storage_ok_def unat_gt_0)
  then have "0 < unat (plane_ptr g c p b l)" using unat_plane_ptr [OF assms] by simp
  then show ?thesis by (simp add: unat_gt_0)
qed

lemma plane_blocks_apart:
  assumes "storage_ok g c" and "p \<in> set (plane_list c)" and "q \<in> set (plane_list c)"
    and "block_in_layer c b l" and "block_in_layer c b' l'" and "(p, b, l) \<noteq> (q, b', l')"
  shows "apart (plane_ptr g c p b l) (unat (plane_bytes g c p)) (plane_ptr g c q b' l') (unat (plane_bytes g c q))"
proof -
  note P = unat_plane_ptr [OF assms(1,2,4)] and Q = unat_plane_ptr [OF assms(1,3,5)]
  have B: "unat (plane_base c p) + plane_size g c p \<le> 2 ^ 64" "unat (plane_base c q) + plane_size g c q \<le> 2 ^ 64"
    using assms(1-3) by (auto simp: storage_ok_def)
  show ?thesis
  proof (cases "p = q")
    case True
    then have "block_rank c b l \<noteq> block_rank c b' l'" using block_rank_inj assms(4-6) by blast
    then have "Suc (block_rank c b l) \<le> block_rank c b' l' \<or> Suc (block_rank c b' l') \<le> block_rank c b l" by linarith
    then have "Suc (block_rank c b l) * unat (plane_bytes g c p) \<le> block_rank c b' l' * unat (plane_bytes g c p) \<or>
        Suc (block_rank c b' l') * unat (plane_bytes g c p) \<le> block_rank c b l * unat (plane_bytes g c p)"
      using mult_right_mono by blast
    then show ?thesis using P Q B True by (auto simp: apart_def)
  next
    case False
    then have "apart (plane_base c p) (plane_size g c p) (plane_base c q) (plane_size g c q)"
      using assms(1-3) by (auto simp: storage_ok_def)
    then show ?thesis using P Q B by (auto simp: apart_def)
  qed
qed

section \<open>The arenas and the host buffers as stores\<close>

type_synonym block_key = "plane \<times> int \<times> int"
type_synonym host_key = "plane \<times> nat \<times> nat"

definition device_keys :: "ggml \<times> paged_kv_cache \<Rightarrow> block_key set" where
  "device_keys = (\<lambda>(g, c). {(p, b, l). p \<in> set (plane_list c) \<and> block_in_layer c b l})"

definition device_width :: "ggml \<times> paged_kv_cache \<Rightarrow> block_key \<Rightarrow> nat" where
  "device_width = (\<lambda>(g, c) (p, b, l). unat (plane_bytes g c p))"

definition device_load :: "ggml \<times> paged_kv_cache \<Rightarrow> memory \<Rightarrow> block_key \<Rightarrow> u8 list" where
  "device_load = (\<lambda>(g, c) m (p, b, l). read_bytes m (plane_ptr g c p b l) (unat (plane_bytes g c p)))"

definition device_store :: "ggml \<times> paged_kv_cache \<Rightarrow> block_key \<Rightarrow> u8 list \<Rightarrow> memory \<Rightarrow> memory" where
  "device_store = (\<lambda>(g, c) (p, b, l) bs. write_bytes (plane_ptr g c p b l) bs)"

lemmas device_defs = device_keys_def device_width_def device_load_def device_store_def

interpretation device: keyed_store "\<lambda>(g, c). storage_ok g c" "\<lambda>_ _. True" device_keys device_width device_load device_store
proof unfold_locales
  fix gc :: "ggml \<times> paged_kv_cache" and m k j and bs :: "u8 list"
  assume ok: "case gc of (g, c) \<Rightarrow> storage_ok g c" and k: "k \<in> device_keys gc"
  obtain g c where gc: "gc = (g, c)" by (cases gc)
  obtain p b l where pbl: "k = (p, b, l)" by (cases k) auto
  show "length (device_load gc m k) = device_width gc k" by (simp add: device_defs gc pbl)
  assume bs: "length bs = device_width gc k"
  show "device_load gc (device_store gc k bs m) k = bs"
    using bs by (simp add: device_defs gc pbl read_write_same [OF _ unat_le_64])
  assume j: "j \<in> device_keys gc" "j \<noteq> k"
  obtain q b' l' where qbl: "j = (q, b', l')" by (cases j) auto
  have "apart (plane_ptr g c q b' l') (unat (plane_bytes g c q)) (plane_ptr g c p b l) (unat (plane_bytes g c p))"
    using plane_blocks_apart [of g c q p b' l' b l] ok k j by (auto simp: gc pbl qbl device_keys_def)
  then show "device_load gc (device_store gc k bs m) j = device_load gc m j"
    using bs by (simp add: device_defs gc pbl qbl read_write_apart)
qed simp_all

text \<open>The context of the host buffers also fixes the number of blocks.\<close>

definition host_ok :: "(ggml \<times> paged_kv_cache) \<times> nat \<Rightarrow> bool" where
  "host_ok = (\<lambda>((g, c), n). storage_ok g c \<and> n \<le> nat (kc_max_blocks c))"

definition host_shaped :: "(ggml \<times> paged_kv_cache) \<times> nat \<Rightarrow> u8 list \<times> u8 list \<Rightarrow> bool" where
  "host_shaped = (\<lambda>((g, c), n) (k, v). length k = unat (host_k_bytes g c n + host_index_bytes c n) \<and>
     length v = unat (host_v_bytes g c n))"

definition host_keys :: "(ggml \<times> paged_kv_cache) \<times> nat \<Rightarrow> host_key set" where
  "host_keys = (\<lambda>((g, c), n). {(p, i, l). p \<in> set (plane_list c) \<and> i < n \<and> l < nat (kc_n_layer c)})"

definition host_width :: "(ggml \<times> paged_kv_cache) \<times> nat \<Rightarrow> host_key \<Rightarrow> nat" where
  "host_width = (\<lambda>((g, c), n) (p, i, l). unat (plane_bytes g c p))"

definition host_pos :: "ggml \<Rightarrow> paged_kv_cache \<Rightarrow> nat \<Rightarrow> plane \<Rightarrow> nat \<Rightarrow> nat \<Rightarrow> nat" where
  "host_pos g c n p i l =
     (if p = IndexPlane then unat (host_k_bytes g c n + of_nat (host_offset c i l (plane_bytes g c p)))
      else host_offset c i l (plane_bytes g c p))"

definition host_load :: "(ggml \<times> paged_kv_cache) \<times> nat \<Rightarrow> u8 list \<times> u8 list \<Rightarrow> host_key \<Rightarrow> u8 list" where
  "host_load = (\<lambda>((g, c), n) (k, v) (p, i, l).
     take (unat (plane_bytes g c p)) (drop (host_pos g c n p i l) (if p = VPlane then v else k)))"

definition host_store :: "(ggml \<times> paged_kv_cache) \<times> nat \<Rightarrow> host_key \<Rightarrow> u8 list \<Rightarrow> u8 list \<times> u8 list \<Rightarrow> u8 list \<times> u8 list" where
  "host_store = (\<lambda>((g, c), n) (p, i, l) bs (k, v).
     if p = VPlane then (k, splice_at (host_pos g c n p i l) bs v) else (splice_at (host_pos g c n p i l) bs k, v))"

lemmas host_defs = host_keys_def host_width_def host_load_def host_store_def

lemma unat_of_nat_mult:
  assumes "a * unat w < 2 ^ 64"
  shows "unat (of_nat a * (w :: u64)) = a * unat w"
proof -
  have "of_nat a * w = of_nat (a * unat w)" by simp
  then show ?thesis using assms unat_of_nat_64 [of "a * unat w"] by (simp del: of_nat_mult)
qed

lemma plane_size_less: "storage_ok g c \<Longrightarrow> p \<in> set (plane_list c) \<Longrightarrow> plane_size g c p < 2 ^ 64"
proof -
  assume "storage_ok g c" "p \<in> set (plane_list c)"
  then have "unat (plane_base c p) + plane_size g c p \<le> 2 ^ 64" "0 < unat (plane_base c p)"
    by (auto simp: storage_ok_def unat_gt_0)
  then show ?thesis by linarith
qed

lemma host_extent:
  assumes "storage_ok g c" and "p \<in> set (plane_list c)" and "i < n" and "n \<le> nat (kc_max_blocks c)" and "l < nat (kc_n_layer c)"
  shows "Suc (i * nat (kc_n_layer c) + l) * unat (plane_bytes g c p) \<le> n * nat (kc_n_layer c) * unat (plane_bytes g c p)"
    and "n * nat (kc_n_layer c) * unat (plane_bytes g c p) \<le> plane_size g c p"
proof -
  have "Suc i * nat (kc_n_layer c) \<le> n * nat (kc_n_layer c)" using assms by (intro mult_right_mono) auto
  then show "Suc (i * nat (kc_n_layer c) + l) * unat (plane_bytes g c p) \<le> n * nat (kc_n_layer c) * unat (plane_bytes g c p)"
    using assms(5) by (intro mult_right_mono) auto
  show "n * nat (kc_n_layer c) * unat (plane_bytes g c p) \<le> plane_size g c p"
    unfolding plane_size_def using assms(4) by (intro mult_right_mono) auto
qed

lemma host_offset_eq:
  assumes "storage_ok g c" and "p \<in> set (plane_list c)" and "i < n" and "n \<le> nat (kc_max_blocks c)" and "l < nat (kc_n_layer c)"
  shows "host_offset c i l (plane_bytes g c p) = (i * nat (kc_n_layer c) + l) * unat (plane_bytes g c p)"
proof -
  have "(i * nat (kc_n_layer c) + l) * unat (plane_bytes g c p) < 2 ^ 64"
    using host_extent [OF assms] plane_size_less [OF assms(1,2)] by simp
  moreover have "of_nat i * of_int (kc_n_layer c) + of_nat l = (of_nat (i * nat (kc_n_layer c) + l) :: u64)"
    using assms(5) by simp
  ultimately show ?thesis unfolding host_offset_def by (simp only: unat_of_nat_mult)
qed

lemma host_total:
  assumes "storage_ok g c" and "p \<in> set (plane_list c)" and "n \<le> nat (kc_max_blocks c)"
  shows "unat (of_nat n * of_int (kc_n_layer c) * plane_bytes g c p) = n * nat (kc_n_layer c) * unat (plane_bytes g c p)"
proof -
  have "n * nat (kc_n_layer c) * unat (plane_bytes g c p) \<le> plane_size g c p"
    unfolding plane_size_def using assms(3) by (intro mult_right_mono) auto
  then have "n * nat (kc_n_layer c) * unat (plane_bytes g c p) < 2 ^ 64" using plane_size_less [OF assms(1,2)] by simp
  moreover have "of_nat n * of_int (kc_n_layer c) = (of_nat (n * nat (kc_n_layer c)) :: u64)"
    using assms(1) by (simp add: storage_ok_def)
  ultimately show ?thesis by (simp only: unat_of_nat_mult)
qed

lemma host_k_index_total:
  assumes "storage_ok g c" and "n \<le> nat (kc_max_blocks c)"
  shows "unat (host_k_bytes g c n + host_index_bytes c n) = unat (host_k_bytes g c n) + unat (host_index_bytes c n)"
proof (cases "has_index_cache c")
  case True
  then have p: "KPlane \<in> set (plane_list c)" "IndexPlane \<in> set (plane_list c)" by (simp_all add: plane_list_def)
  have le: "n * nat (kc_n_layer c) * unat (plane_bytes g c q) \<le> plane_size g c q" for q
    unfolding plane_size_def using assms(2) by (intro mult_right_mono) auto
  have "apart (plane_base c KPlane) (plane_size g c KPlane) (plane_base c IndexPlane) (plane_size g c IndexPlane)"
    "0 < unat (plane_base c KPlane)" "0 < unat (plane_base c IndexPlane)"
    using assms(1) p by (auto simp: storage_ok_def unat_gt_0)
  then have "plane_size g c KPlane + plane_size g c IndexPlane < 2 ^ 64" by (auto simp: apart_def)
  then have "unat (host_k_bytes g c n) + unat (host_index_bytes c n) < 2 ^ 64"
    using host_total [OF assms(1) p(1) assms(2)] host_total [OF assms(1) p(2) assms(2)] le [of KPlane] le [of IndexPlane] True
    by (simp add: host_k_bytes_def host_index_bytes_def)
  then show ?thesis using unat_add_64 [of "host_k_bytes g c n" "unat (host_index_bytes c n)"] by simp
next
  case False
  then show ?thesis by (simp add: host_index_bytes_def)
qed

lemma host_pos_eq:
  assumes "storage_ok g c" and "p \<in> set (plane_list c)" and "i < n" and "n \<le> nat (kc_max_blocks c)" and "l < nat (kc_n_layer c)"
  shows "host_pos g c n p i l = (if p = IndexPlane then unat (host_k_bytes g c n) else 0) +
      (i * nat (kc_n_layer c) + l) * unat (plane_bytes g c p)"
proof (cases "p = IndexPlane")
  case True
  then have h: "has_index_cache c" using assms(2) by (auto simp: plane_list_def split: if_splits)
  then have t: "unat (host_index_bytes c n) = n * nat (kc_n_layer c) * unat (plane_bytes g c p)"
    using host_total [OF assms(1,2,4)] True by (simp add: host_index_bytes_def)
  let ?o = "host_offset c i l (plane_bytes g c p)"
  have "unat (host_k_bytes g c n) + unat (host_index_bytes c n) < 2 ^ 64"
    using unat_less_64 [of "host_k_bytes g c n + host_index_bytes c n"] host_k_index_total [OF assms(1,4)] by simp
  moreover have "?o \<le> unat (host_index_bytes c n)"
    using host_extent(1) [OF assms] unfolding host_offset_eq [OF assms] t mult_Suc by linarith
  ultimately show ?thesis using True host_offset_eq [OF assms] unat_add_64 [of "host_k_bytes g c n" ?o] by (simp add: host_pos_def)
qed (simp add: host_pos_def host_offset_eq [OF assms])

text \<open>A piece stays inside its buffer, and pieces of different keys in one buffer do not overlap.\<close>

lemma host_piece_bound:
  assumes "host_ok ((g, c), n)" and "host_shaped ((g, c), n) (k, v)" and "(p, i, l) \<in> host_keys ((g, c), n)"
  shows "host_pos g c n p i l + unat (plane_bytes g c p) \<le> length (if p = VPlane then v else k)"
proof -
  have a: "storage_ok g c" "n \<le> nat (kc_max_blocks c)" "p \<in> set (plane_list c)" "i < n" "l < nat (kc_n_layer c)"
    using assms by (auto simp: host_ok_def host_keys_def)
  note e = host_extent(1) [OF a(1,3,4,2,5)] host_pos_eq [OF a(1,3,4,2,5)] host_k_index_total [OF a(1,2)] host_total [OF a(1,3,2)]
  show ?thesis
  proof (cases p)
    case IndexPlane
    then have "has_index_cache c" using a(3) by (auto simp: plane_list_def split: if_splits)
    then show ?thesis using e assms(2) IndexPlane by (auto simp: host_shaped_def host_index_bytes_def)
  qed (use e assms(2) in \<open>auto simp: host_shaped_def host_k_bytes_def host_v_bytes_def\<close>)
qed

lemma rank_apart:
  fixes w :: nat
  assumes "l < nl" and "l' < nl" and "(i, l) \<noteq> (i', l')"
  shows "(i * nl + l) * w + w \<le> (i' * nl + l') * w \<or> (i' * nl + l') * w + w \<le> (i * nl + l) * w"
proof -
  have "i * nl + l \<noteq> i' * nl + l'"
  proof
    assume e: "i * nl + l = i' * nl + l'"
    have "(i * nl + l) div nl = i" "(i * nl + l) mod nl = l" "(i' * nl + l') div nl = i'" "(i' * nl + l') mod nl = l'"
      using assms(1,2) by simp_all
    then have "i = i'" "l = l'" using e by simp_all
    then show False using assms(3) by simp
  qed
  then have "Suc (i * nl + l) \<le> i' * nl + l' \<or> Suc (i' * nl + l') \<le> i * nl + l" by linarith
  then have "Suc (i * nl + l) * w \<le> (i' * nl + l') * w \<or> Suc (i' * nl + l') * w \<le> (i * nl + l) * w"
    using mult_right_mono by blast
  then show ?thesis by (simp add: add.commute)
qed

lemma host_pieces_apart:
  assumes "host_ok ((g, c), n)" and "(p, i, l) \<in> host_keys ((g, c), n)" and "(q, i', l') \<in> host_keys ((g, c), n)"
    and "(p, i, l) \<noteq> (q, i', l')" and "(p = VPlane) = (q = VPlane)"
  shows "host_pos g c n p i l + unat (plane_bytes g c p) \<le> host_pos g c n q i' l' \<or>
    host_pos g c n q i' l' + unat (plane_bytes g c q) \<le> host_pos g c n p i l"
proof -
  have a: "storage_ok g c" "n \<le> nat (kc_max_blocks c)" "p \<in> set (plane_list c)" "i < n" "l < nat (kc_n_layer c)"
    "q \<in> set (plane_list c)" "i' < n" "l' < nat (kc_n_layer c)"
    using assms by (auto simp: host_ok_def host_keys_def)
  note P = host_pos_eq [OF a(1,3,4,2,5)] and Q = host_pos_eq [OF a(1,6,7,2,8)]
  have K: "Suc (x * nat (kc_n_layer c) + y) * unat (GetBytesPerBlock g c) \<le> unat (host_k_bytes g c n)"
    if "x < n" "y < nat (kc_n_layer c)" for x y
    using host_extent(1) [OF a(1) _ that(1) a(2) that(2), of KPlane] host_total [OF a(1) _ a(2), of KPlane]
    by (simp add: plane_list_def host_k_bytes_def)
  show ?thesis
  proof (cases "p = q")
    case True
    then have "(i, l) \<noteq> (i', l')" using assms(4) by auto
    then show ?thesis using P Q True rank_apart [OF a(5,8), of i i' "unat (plane_bytes g c q)"] by auto
  next
    case False
    then consider "p = KPlane" "q = IndexPlane" | "p = IndexPlane" "q = KPlane" using assms(5) by (cases p; cases q) auto
    then show ?thesis using P Q K [OF a(4,5)] K [OF a(7,8)] by cases auto
  qed
qed

interpretation host: keyed_store host_ok host_shaped host_keys host_width host_load host_store
proof unfold_locales
  fix d :: "(ggml \<times> paged_kv_cache) \<times> nat" and s :: "u8 list \<times> u8 list" and key j :: host_key and bs :: "u8 list"
  assume ok: "host_ok d" and s: "host_shaped d s" and key: "key \<in> host_keys d"
  obtain g c n where d: "d = ((g, c), n)" by (metis prod.exhaust)
  obtain k v where kv: "s = (k, v)" by (cases s)
  obtain p i l where pil: "key = (p, i, l)" by (metis prod_cases3)
  note B = host_piece_bound [OF ok [unfolded d] s [unfolded d kv] key [unfolded d pil]]
  show "length (host_load d s key) = host_width d key" using B by (simp add: host_defs d kv pil)
  assume bs: "length bs = host_width d key"
  then have w: "length bs = unat (plane_bytes g c p)" by (simp add: host_width_def d pil)
  show "host_shaped d (host_store d key bs s)" using B s w by (auto simp: host_shaped_def host_store_def d kv pil)
  show "host_load d (host_store d key bs s) key = bs"
    using B w slice_splice_same [of "host_pos g c n p i l" bs] by (auto simp: host_defs d kv pil split: if_splits)
  assume j: "j \<in> host_keys d" "j \<noteq> key"
  obtain q i' l' where qil: "j = (q, i', l')" by (metis prod_cases3)
  note B' = host_piece_bound [OF ok [unfolded d] s [unfolded d kv] j(1) [unfolded d qil]]
  have "(p = VPlane) = (q = VPlane) \<Longrightarrow> host_pos g c n q i' l' + unat (plane_bytes g c q) \<le> host_pos g c n p i l \<or>
      host_pos g c n p i l + length bs \<le> host_pos g c n q i' l'"
    using host_pieces_apart [of g c n p i l q i' l'] ok key j w by (auto simp: d pil qil)
  then show "host_load d (host_store d key bs s) j = host_load d s j"
    using B B' w by (auto simp: host_load_def host_store_def d kv pil qil intro!: slice_splice_apart split: if_splits)
qed

interpretation swap: ferry "\<lambda>(g, c). storage_ok g c" "\<lambda>_ _. True" device_keys device_width device_load device_store
  host_ok host_shaped host_keys host_width host_load host_store
  by unfold_locales

section \<open>Swapping out and in\<close>

definition swap_trips :: "paged_kv_cache \<Rightarrow> int list \<Rightarrow> int list \<Rightarrow> (block_key \<times> host_key \<times> block_key) list" where
  "swap_trips c ids ids' =
     concat (map (\<lambda>(i, l). map (\<lambda>p. ((p, ids ! i, int l), (p, i, l), (p, ids' ! i, int l))) (plane_list c))
       (List.product [0..<length ids] [0..<nat (kc_n_layer c)]))"

definition valid_table :: "paged_kv_cache \<Rightarrow> int list \<Rightarrow> bool" where
  "valid_table c ids \<longleftrightarrow> length ids \<le> nat (kc_max_blocks c) \<and> (\<forall>b \<in> set ids. 0 \<le> b \<and> b < kc_max_blocks c)"

lemma distinct_valid_table:
  assumes "distinct ids" and "\<forall>b \<in> set ids. 0 \<le> b \<and> b < kc_max_blocks c"
  shows "valid_table c ids"
proof -
  have "card (set ids) \<le> card {0..<kc_max_blocks c}" using assms(2) by (intro card_mono) auto
  then show ?thesis using assms by (simp add: valid_table_def distinct_card)
qed

lemma valid_table_block:
  "valid_table c ids \<Longrightarrow> i < length ids \<Longrightarrow> l < nat (kc_n_layer c) \<Longrightarrow> block_in_layer c (ids ! i) (int l)"
  by (auto simp: valid_table_def block_in_layer_def)

lemma splice_at_Nil [simp]: "splice_at off [] xs = xs"
  by (simp add: splice_at_def)

lemma host_index_zero:
  assumes "storage_ok g c" and "has_index_cache c" and "host_index_bytes c n = 0" and "0 < n" and "n \<le> nat (kc_max_blocks c)"
    and "0 < nat (kc_n_layer c)"
  shows "unat (GetIndexBytesPerBlock c) = 0"
  using host_total [OF assms(1) _ assms(5), of IndexPlane] assms by (auto simp: host_index_bytes_def plane_list_def)

lemma table_block_facts:
  assumes "storage_ok g c" and "valid_table c ids" and "i < length ids" and "l < nat (kc_n_layer c)"
  shows "GetKBlockPtr g c (ids ! i) (int l) \<noteq> 0" and "GetVBlockPtr g c (ids ! i) (int l) \<noteq> 0"
    and "has_index_cache c \<Longrightarrow> GetIndexBlockPtr c (ids ! i) (int l) \<noteq> 0"
    and "\<not> has_index_cache c \<Longrightarrow> GetIndexBlockPtr c (ids ! i) (int l) = 0"
    and "has_index_cache c \<Longrightarrow> host_index_bytes c (length ids) = 0 \<Longrightarrow> unat (GetIndexBytesPerBlock c) = 0"
    and "\<not> ids ! i < 0"
proof -
  note b = valid_table_block [OF assms(2-4)]
  note nz = plane_ptr_nonzero [OF assms(1) _ b]
  show "GetKBlockPtr g c (ids ! i) (int l) \<noteq> 0" "GetVBlockPtr g c (ids ! i) (int l) \<noteq> 0"
    using nz [of KPlane] nz [of VPlane] by (simp_all add: plane_list_def)
  show "has_index_cache c \<Longrightarrow> GetIndexBlockPtr c (ids ! i) (int l) \<noteq> 0"
    using nz [of IndexPlane] by (simp add: plane_list_def)
  show "\<not> has_index_cache c \<Longrightarrow> GetIndexBlockPtr c (ids ! i) (int l) = 0"
    by (simp add: GetIndexBlockPtr_def split: option.split)
  have "0 < length ids" "length ids \<le> nat (kc_max_blocks c)" "0 < nat (kc_n_layer c)"
    using assms(2-4) by (auto simp only: valid_table_def)
  then show "has_index_cache c \<Longrightarrow> host_index_bytes c (length ids) = 0 \<Longrightarrow> unat (GetIndexBytesPerBlock c) = 0"
    using host_index_zero [OF assms(1)] by blast
  show "\<not> ids ! i < 0" using b by (simp add: block_in_layer_def)
qed

lemma copy_out_layer_eq:
  assumes "storage_ok g c" and "valid_table c ids" and "i < length ids" and "l < nat (kc_n_layer c)"
  shows "copy_out_layer g c m ids (i, l) s =
    fold (\<lambda>p. host_store ((g, c), length ids) (p, i, l) (device_load (g, c) m (p, ids ! i, int l))) (plane_list c) s"
  by (cases s; cases "has_index_cache c"; cases "host_index_bytes c (length ids) = 0")
    (simp_all add: copy_out_layer_def Let_def table_block_facts [OF assms] plane_list_def host_store_def device_load_def
      host_pos_def word_gt_0 read_bytes_def)

lemma copy_in_layer_eq:
  assumes "storage_ok g c" and "valid_table c ids" and "i < length ids" and "l < nat (kc_n_layer c)"
    and "host_shaped ((g, c), length ids) h"
  shows "copy_in_layer g c h ids (i, l) m =
    fold (\<lambda>p. device_store (g, c) (p, ids ! i, int l) (host_load ((g, c), length ids) h (p, i, l))) (plane_list c) m"
proof -
  obtain k v where h: "h = (k, v)" by (cases h)
  have "unat (host_k_bytes g c (length ids) + host_index_bytes c (length ids)) \<le> length k"
    using assms(5) by (simp add: host_shaped_def h)
  then show ?thesis
    by (cases "has_index_cache c"; cases "host_index_bytes c (length ids) = 0")
      (simp_all add: copy_in_layer_def Let_def table_block_facts [OF assms(1-4)] plane_list_def device_store_def host_load_def
        host_pos_def word_gt_0 h)
qed

lemma fold_concat_map: "fold f (concat (map h xs)) s = fold (\<lambda>x. fold f (h x)) xs s"
  by (induction xs arbitrary: s) auto

lemma CopyBlocksToHost_eq:
  assumes "storage_ok g c" and "valid_table c ids"
  shows "CopyBlocksToHost g c ids m = fold (\<lambda>(j, h, k). host_store ((g, c), length ids) h (device_load (g, c) m j))
    (swap_trips c ids ids') (replicate (unat (host_k_bytes g c (length ids) + host_index_bytes c (length ids))) 0,
      replicate (unat (host_v_bytes g c (length ids))) 0)"
  unfolding CopyBlocksToHost_def Let_def swap_trips_def fold_concat_map
  by (rule List.fold_cong) (auto simp: fold_map comp_def fun_eq_iff copy_out_layer_eq [OF assms])

lemma RestoreBlocksFromHost_eq:
  assumes "storage_ok g c" and "valid_table c ids'" and "length ids = length ids'" and "host_shaped ((g, c), length ids') t"
  shows "RestoreBlocksFromHost g c ids' t m = fold (\<lambda>(j, h, k). device_store (g, c) k (host_load ((g, c), length ids) t h))
    (swap_trips c ids ids') m"
proof -
  have "\<not> (length (fst t) < unat (host_k_bytes g c (length ids')) \<or> length (snd t) < unat (host_v_bytes g c (length ids')))"
    using assms host_k_index_total [OF assms(1)] by (cases t) (auto simp: host_shaped_def valid_table_def)
  then show ?thesis
    unfolding RestoreBlocksFromHost_def Let_def swap_trips_def fold_concat_map if_not_P assms(3)
    by (simp, intro List.fold_cong) (auto simp: fold_map comp_def fun_eq_iff copy_in_layer_eq [OF assms(1,2) _ _ assms(4)])
qed

lemma distinct_plane_list [simp]: "distinct (plane_list c)"
  by (simp add: plane_list_def)

lemma distinct_concat_pairs:
  assumes "distinct xs" and "\<And>x. distinct (h x)" and "\<And>x y. x \<in> set xs \<Longrightarrow> y \<in> set xs \<Longrightarrow> x \<noteq> y \<Longrightarrow> set (h x) \<inter> set (h y) = {}"
  shows "distinct (concat (map h xs))"
  using assms by (induction xs) auto

lemma distinct_swap_trips:
  "distinct (map (\<lambda>(j, h, k). h) (swap_trips c ids ids'))"
  "distinct ids' \<Longrightarrow> length ids' = length ids \<Longrightarrow> distinct (map (\<lambda>(j, h, k). k) (swap_trips c ids ids'))"
  unfolding swap_trips_def map_concat map_map
  by (rule distinct_concat_pairs; auto simp: comp_def distinct_map inj_on_def distinct_product nth_eq_iff_index_eq)+

lemma set_swap_trips:
  "(j, h, k) \<in> set (swap_trips c ids ids') \<longleftrightarrow>
    (\<exists>p i l. p \<in> set (plane_list c) \<and> i < length ids \<and> l < nat (kc_n_layer c) \<and>
      j = (p, ids ! i, int l) \<and> h = (p, i, l) \<and> k = (p, ids' ! i, int l))"
  by (auto simp: swap_trips_def) (force simp: image_iff)

lemma swap_round_trip:
  assumes "storage_ok g c" and "valid_table c ids" and "distinct ids'" and "valid_table c ids'" and "length ids' = length ids"
    and "m'' = RestoreBlocksFromHost g c ids' (CopyBlocksToHost g c ids m) m'"
  shows "(\<forall>i < length ids. \<forall>l < nat (kc_n_layer c). \<forall>p \<in> set (plane_list c).
      device_load (g, c) m'' (p, ids' ! i, int l) = device_load (g, c) m (p, ids ! i, int l)) \<and>
    (\<forall>p \<in> set (plane_list c). \<forall>b l. block_in_layer c b l \<and> b \<notin> set ids' \<longrightarrow>
      device_load (g, c) m'' (p, b, l) = device_load (g, c) m' (p, b, l))"
proof -
  let ?js = "swap_trips c ids ids'" and ?n = "length ids"
  let ?t0 = "(replicate (unat (host_k_bytes g c ?n + host_index_bytes c ?n)) 0, replicate (unat (host_v_bytes g c ?n)) 0)"
  define t' where "t' = CopyBlocksToHost g c ids m"
  have t': "t' = fold (\<lambda>(j, h, k) t. host_store ((g, c), ?n) h (device_load (g, c) m j) t) ?js ?t0"
    unfolding t'_def CopyBlocksToHost_eq [OF assms(1,2), of m ids'] ..
  have hok: "host_ok ((g, c), ?n)" "host_shaped ((g, c), ?n) ?t0"
    using assms(1,2) by (auto simp: host_ok_def host_shaped_def valid_table_def)
  have keys: "\<forall>(j, h, k) \<in> set ?js. j \<in> device_keys (g, c) \<and> k \<in> device_keys (g, c) \<and> h \<in> host_keys ((g, c), ?n) \<and>
      device_width (g, c) j = host_width ((g, c), ?n) h \<and> device_width (g, c) k = host_width ((g, c), ?n) h"
    using valid_table_block [OF assms(2)] valid_table_block [OF assms(4)] assms(5)
    by (auto simp: set_swap_trips device_keys_def host_keys_def device_width_def host_width_def)
  note go = swap.there_and_back [OF _ _ _ hok distinct_swap_trips(1) distinct_swap_trips(2) [OF assms(3,5)] keys t' refl, of m']
  have "host_shaped ((g, c), ?n) t'" using go assms(1) by simp
  then have m'': "m'' = fold (\<lambda>(j, h, k) s. device_store (g, c) k (host_load ((g, c), ?n) t' h) s) ?js m'"
    using RestoreBlocksFromHost_eq [OF assms(1,4) assms(5) [symmetric], of t' m'] assms(5,6) by (simp add: t'_def case_prod_unfold)
  note L = go [folded m'', simplified, OF assms(1)]
  have "\<forall>(j, h, k) \<in> set ?js. device_load (g, c) m'' k = device_load (g, c) m j" using L by blast
  then have "device_load (g, c) m'' (p, ids' ! i, int l) = device_load (g, c) m (p, ids ! i, int l)"
    if "i < ?n" "l < nat (kc_n_layer c)" "p \<in> set (plane_list c)" for i l p
    using that set_swap_trips by fast
  moreover have "device_load (g, c) m'' (p, b, l) = device_load (g, c) m' (p, b, l)"
    if "p \<in> set (plane_list c)" "block_in_layer c b l" "b \<notin> set ids'" for p b l
  proof -
    have "(p, b, l) \<in> device_keys (g, c) - (\<lambda>(j, h, k). k) ` set ?js"
      using that assms(5) by (auto simp: device_keys_def set_swap_trips)
    then show ?thesis using L by blast
  qed
  ultimately show ?thesis by blast
qed

section \<open>Copying a block\<close>

definition copy_pairs :: "paged_kv_cache \<Rightarrow> int \<Rightarrow> int \<Rightarrow> (block_key \<times> block_key) list" where
  "copy_pairs c src dst =
     concat (map (\<lambda>l. map (\<lambda>p. ((p, src, int l), (p, dst, int l))) (plane_list c)) [0..<nat (kc_n_layer c)])"

lemma CopyBlockDataLayer_eq:
  assumes "storage_ok g c" and "src \<noteq> dst" and "block_in_layer c src (int l)" and "block_in_layer c dst (int l)"
  shows "CopyBlockDataLayer g c src dst (int l) m =
    fold (\<lambda>p m. device_store (g, c) (p, dst, int l) (device_load (g, c) m (p, src, int l)) m) (plane_list c) m"
proof -
  note nz = plane_ptr_nonzero [OF assms(1) _ assms(3)] plane_ptr_nonzero [OF assms(1) _ assms(4)]
  have "GetKBlockPtr g c b (int l) \<noteq> 0" "GetVBlockPtr g c b (int l) \<noteq> 0"
    "has_index_cache c \<Longrightarrow> GetIndexBlockPtr c b (int l) \<noteq> 0" if "b = src \<or> b = dst" for b
    using nz [of KPlane] nz [of VPlane] nz [of IndexPlane] that by (auto simp: plane_list_def)
  moreover have "GetIndexBlockPtr c b (int l) = 0" if "\<not> has_index_cache c" for b
    using that by (simp add: GetIndexBlockPtr_def split: option.split)
  moreover have "unat (GetIndexBytesPerBlock c) = 0" if "\<not> 0 < GetIndexBytesPerBlock c" using that by (simp add: word_gt_0)
  ultimately show ?thesis using assms
    by (cases "has_index_cache c"; cases "0 < GetIndexBytesPerBlock c")
      (simp_all add: CopyBlockDataLayer_def Let_def block_in_layer_def plane_list_def device_store_def device_load_def
        mem_copy_def read_bytes_def)
qed

lemma CopyBlockData_spec:
  assumes "storage_ok g c" and "src \<noteq> dst"
    and "0 \<le> src" "src < kc_max_blocks c" "0 \<le> dst" "dst < kc_max_blocks c" and "m' = CopyBlockData g c src dst m"
  shows "(\<forall>p \<in> set (plane_list c). \<forall>l. 0 \<le> l \<and> l < kc_n_layer c \<longrightarrow>
      device_load (g, c) m' (p, dst, l) = device_load (g, c) m (p, src, l)) \<and>
    (\<forall>p \<in> set (plane_list c). \<forall>b l. block_in_layer c b l \<and> b \<noteq> dst \<longrightarrow>
      device_load (g, c) m' (p, b, l) = device_load (g, c) m (p, b, l))"
proof -
  let ?ps = "copy_pairs c src dst"
  have in_layer: "block_in_layer c b (int l)" if "l < nat (kc_n_layer c)" "b = src \<or> b = dst" for b l
    using that assms by (auto simp: block_in_layer_def)
  have "fold (\<lambda>layer. CopyBlockDataLayer g c src dst (int layer)) [0..<nat (kc_n_layer c)] m =
      fold (\<lambda>(j, k) s. device_store (g, c) k (device_load (g, c) s j) s) ?ps m"
    unfolding copy_pairs_def fold_concat_map
    by (rule List.fold_cong) (auto simp: fold_map comp_def fun_eq_iff CopyBlockDataLayer_eq [OF assms(1,2)] in_layer)
  then have m': "m' = fold (\<lambda>(j, k) s. device_store (g, c) k (device_load (g, c) s j) s) ?ps m"
    using assms by (simp add: CopyBlockData_def)
  have set: "(j, k) \<in> set ?ps \<longleftrightarrow> (\<exists>p l. p \<in> set (plane_list c) \<and> l < nat (kc_n_layer c) \<and> j = (p, src, int l) \<and> k = (p, dst, int l))"
    for j k by (auto simp: copy_pairs_def)
  have "distinct (map snd ?ps)" unfolding copy_pairs_def map_concat map_map
    by (rule distinct_concat_pairs) (auto simp: comp_def distinct_map inj_on_def)
  moreover have "fst ` set ?ps \<inter> snd ` set ?ps = {}" using assms(2) by (auto simp: set)
  moreover have "\<forall>(j, k) \<in> set ?ps. j \<in> device_keys (g, c) \<and> k \<in> device_keys (g, c) \<and> device_width (g, c) j = device_width (g, c) k"
    using in_layer by (auto simp: set device_keys_def device_width_def)
  ultimately have L: "\<forall>(j, k) \<in> set ?ps. device_load (g, c) m' k = device_load (g, c) m j"
    "\<forall>i \<in> device_keys (g, c) - snd ` set ?ps. device_load (g, c) m' i = device_load (g, c) m i"
    using device.copy_list [where c = "(g, c)" and s = m and ps = ?ps] assms(1) unfolding m' by simp_all
  have "device_load (g, c) m' (p, dst, l) = device_load (g, c) m (p, src, l)"
    if "p \<in> set (plane_list c)" "0 \<le> l" "l < kc_n_layer c" for p l
    using bspec [OF L(1), of "((p, src, l), (p, dst, l))"] that set [of "(p, src, l)" "(p, dst, l)"]
    by (auto intro!: exI [of _ "nat l"])
  moreover have "device_load (g, c) m' (p, b, l) = device_load (g, c) m (p, b, l)"
    if "p \<in> set (plane_list c)" "block_in_layer c b l" "b \<noteq> dst" for p b l
  proof -
    have "(p, b, l) \<in> device_keys (g, c) - snd ` set ?ps" using that by (auto simp: device_keys_def set)
    then show ?thesis using L(2) by blast
  qed
  ultimately show ?thesis by blast
qed

section \<open>What the set-up establishes\<close>

lemma IsValid_arena:
  assumes "IsValid (KVBlockAllocator n stride algn node hugep strict out)"
  shows "n \<noteq> 0" and "stride \<noteq> 0" and "arena (KVBlockAllocator n stride algn node hugep strict out) \<noteq> 0"
  using assms by (auto simp: IsValid_def KVBlockAllocator_def Let_def split: if_splits)

lemma set_geometry_fields [simp]:
  "kc_max_blocks (set_geometry g c) = kc_max_blocks c" "kc_n_layer (set_geometry g c) = kc_n_layer c"
  "has_index_cache (set_geometry g c) = has_index_cache c" "kc_block_manager (set_geometry g c) = kc_block_manager c"
  "k_layer_stride_bytes (set_geometry g c) = k_bytes_per_block (set_geometry g c) * of_int (kc_max_blocks c)"
  "v_layer_stride_bytes (set_geometry g c) = v_bytes_per_block (set_geometry g c) * of_int (kc_max_blocks c)"
  "index_layer_stride_bytes (set_geometry g c) = index_bytes_per_block (set_geometry g c) * of_int (kc_max_blocks c)"
  by (simp_all add: set_geometry_def Let_def)

lemma base_dims_fields [simp]:
  "kc_block_manager (base_dims md c) = kc_block_manager c" "has_index_cache (base_dims md c) = has_index_cache c"
  by (simp_all add: base_dims_def Let_def)

lemma gemma4_fields [simp]:
  "kc_n_layer (gemma4_heads md c) = kc_n_layer c" "kc_n_layer (gemma4_dims md c) = kc_n_layer c"
  "kc_n_layer (model_dims md c) = kc_n_layer (base_dims md c)" "kc_n_layer (typed_cache g ty node md c) = kc_n_layer c"
  by (simp_all add: gemma4_heads_def gemma4_dims_def model_dims_def typed_cache_def Let_def)

fun plane_recorded_bytes :: "paged_kv_cache \<Rightarrow> plane \<Rightarrow> u64" where
  "plane_recorded_bytes c KPlane = k_bytes_per_block c"
| "plane_recorded_bytes c VPlane = v_bytes_per_block c"
| "plane_recorded_bytes c IndexPlane = index_bytes_per_block c"

lemma InitPagedKVCache_cases:
  assumes "InitPagedKVCache g hugep ko vo io rnd busy md seqs len ty node = InitOk c"
  obtains c0 c1 mb where "c0 = empty_cache (BlockManager 0 16 rnd busy)" "0 < seqs" "0 < len" "0 \<le> kc_n_layer (base_dims md c0)" "km_is_gemma4 md \<Longrightarrow> 0 < kc_n_layer (base_dims md c0)"
    "mb = (seqs * len + 16 - 1) sdiv 16" "mb < 2 ^ 31"
    "c1 = set_geometry g ((typed_cache g ty node md (model_dims md c0))\<lparr>kc_max_blocks := mb, kc_block_manager := BlockManager mb 16 rnd busy\<rparr>)"
    "arenas_valid (attach_arenas ko vo io node hugep c1)" "c = (attach_arenas ko vo io node hugep c1)\<lparr>use_block_allocator := True\<rparr>"
proof -
  define c0 where "c0 = empty_cache (BlockManager 0 16 rnd busy)"
  define mb where "mb = (seqs * len + 16 - 1) sdiv 16"
  define c1 where "c1 = set_geometry g ((typed_cache g ty node md (model_dims md c0))\<lparr>kc_max_blocks := mb, kc_block_manager := BlockManager mb 16 rnd busy\<rparr>)"
  have "InitPagedKVCache g hugep ko vo io rnd busy md seqs len ty node =
      (if seqs \<le> 0 \<or> len \<le> 0 then InitNull
       else if kc_n_layer (base_dims md c0) < 0 \<or> (km_is_gemma4 md \<and> kc_n_layer (base_dims md c0) = 0) then InitFails
       else if 2 ^ 31 - 1 < mb then InitNull
       else if \<not> arenas_valid (attach_arenas ko vo io node hugep c1) then InitNull
       else InitOk ((attach_arenas ko vo io node hugep c1)\<lparr>use_block_allocator := True\<rparr>))"
    unfolding InitPagedKVCache_def Let_def c0_def c1_def mb_def ..
  then show ?thesis using assms by (intro that [of c0 mb c1]) (auto simp: c0_def c1_def mb_def split: if_splits)
qed

lemma InitPagedKVCache_ok:
  assumes "InitPagedKVCache g hugep ko vo io rnd busy md seqs len ty node = InitOk c"
  shows "use_block_allocator c" and "0 < seqs" and "0 < len" and "0 \<le> kc_n_layer c"
    and "kc_max_blocks c = (seqs * len + 16 - 1) sdiv 16" and "kc_max_blocks c < 2 ^ 31" and "kc_n_layer c < 2 ^ 31"
    and "kc_block_manager c = BlockManager (kc_max_blocks c) 16 rnd busy"
    and "p \<in> set (plane_list c) \<Longrightarrow> plane_recorded_bytes c p \<noteq> 0 \<and> plane_bytes g c p = plane_recorded_bytes c p \<and>
      plane_stride c p = plane_bytes g c p * of_int (kc_max_blocks c) \<and>
      (\<exists>out. plane_allocator c p = Some (KVBlockAllocator (of_int (kc_max_blocks c * kc_n_layer c)) (plane_bytes g c p) 64
         node hugep (0 \<le> node) out)) \<and> plane_base c p \<noteq> 0"
proof -
  obtain c0 c1 mb where pos: "0 < seqs" "0 < len" and nl: "0 \<le> kc_n_layer (base_dims md c0)" and mb: "mb = (seqs * len + 16 - 1) sdiv 16" "mb < 2 ^ 31"
    and c1: "c1 = set_geometry g ((typed_cache g ty node md (model_dims md c0))\<lparr>kc_max_blocks := mb, kc_block_manager := BlockManager mb 16 rnd busy\<rparr>)"
    and v: "arenas_valid (attach_arenas ko vo io node hugep c1)" and c: "c = (attach_arenas ko vo io node hugep c1)\<lparr>use_block_allocator := True\<rparr>"
    by (rule InitPagedKVCache_cases [OF assms])
  have f: "kc_n_layer c = kc_n_layer (base_dims md c0)" "kc_max_blocks c = mb" "kc_block_manager c = BlockManager mb 16 rnd busy"
    by (simp_all add: c attach_arenas_def Let_def c1)
  show "use_block_allocator c" "0 < seqs" "0 < len" "0 \<le> kc_n_layer c" "kc_max_blocks c = (seqs * len + 16 - 1) sdiv 16"
    "kc_max_blocks c < 2 ^ 31" "kc_block_manager c = BlockManager (kc_max_blocks c) 16 rnd busy"
    using pos nl mb f by (simp_all add: c)
  have "kc_n_layer (base_dims md c0) < 2 ^ 31" using sint_less [of "km_n_layer md"] by (simp add: base_dims_def Let_def)
  then show "kc_n_layer c < 2 ^ 31" using f by simp
  assume p: "p \<in> set (plane_list c)"
  have a: "\<exists>out. plane_allocator c p = Some (KVBlockAllocator (of_int (kc_max_blocks c * kc_n_layer c)) (plane_recorded_bytes c p) 64
      node hugep (0 \<le> node) out)"
    using p by (cases p) (auto simp: c attach_arenas_def Let_def plane_list_def)
  then obtain out where out: "plane_allocator c p = Some (KVBlockAllocator (of_int (kc_max_blocks c * kc_n_layer c))
      (plane_recorded_bytes c p) 64 node hugep (0 \<le> node) out)" ..
  have "IsValid (KVBlockAllocator (of_int (kc_max_blocks c * kc_n_layer c)) (plane_recorded_bytes c p) 64 node hugep (0 \<le> node) out)"
    using v p out by (cases p) (auto simp: arenas_valid_def c plane_list_def split: if_splits)
  note I = IsValid_arena [OF this]
  have b: "plane_bytes g c p = plane_recorded_bytes c p"
    using I(2) by (cases p) (simp_all add: GetBytesPerBlock_def GetVBytesPerBlock_def GetIndexBytesPerBlock_def)
  have "plane_stride c p = plane_recorded_bytes c p * of_int (kc_max_blocks c)"
    by (cases p) (simp_all add: c attach_arenas_def Let_def c1)
  then show "plane_recorded_bytes c p \<noteq> 0 \<and> plane_bytes g c p = plane_recorded_bytes c p \<and>
      plane_stride c p = plane_bytes g c p * of_int (kc_max_blocks c) \<and>
      (\<exists>out. plane_allocator c p = Some (KVBlockAllocator (of_int (kc_max_blocks c * kc_n_layer c)) (plane_bytes g c p) 64
         node hugep (0 \<le> node) out)) \<and> plane_base c p \<noteq> 0"
    using I out b by (auto simp: plane_base_def)
qed

lemma InitPagedKVCache_capacity:
  assumes "InitPagedKVCache g hugep ko vo io rnd busy md seqs len ty node = InitOk c"
  shows "0 < kc_max_blocks c" and "seqs * len \<le> kc_max_blocks c * 16" and "kc_max_blocks c * 16 < seqs * len + 16"
proof -
  note I = InitPagedKVCache_ok [OF assms]
  have p: "0 < seqs * len" using I(2,3) by simp
  then show "seqs * len \<le> kc_max_blocks c * 16" "kc_max_blocks c * 16 < seqs * len + 16"
    unfolding I(5) using ceil_div_bounds [of "seqs * len" 16] by simp_all
  then show "0 < kc_max_blocks c" using p by linarith
qed

text \<open>
  What the operating system guarantees about the arenas it hands out: they do not wrap around the address space and do not
  meet. \<open>arena_extent\<close> is what the blocks of the plane span, the exact product of their number and the aligned stride; the
  allocator computes its \<^verbatim>\<open>arena_size_\<close> as the same product in wrapping arithmetic (\<open>KVBlockAllocator_arena_size\<close>).
\<close>

definition arena_extent :: "paged_kv_cache \<Rightarrow> plane \<Rightarrow> nat" where
  "arena_extent c p = (case plane_allocator c p of Some a \<Rightarrow> unat (kvb_num_blocks a) * unat (block_stride a) | None \<Rightarrow> 0)"

definition arenas_separate :: "ggml \<Rightarrow> paged_kv_cache \<Rightarrow> bool" where
  "arenas_separate g c \<longleftrightarrow>
     (\<forall>p \<in> set (plane_list c). unat (plane_bytes g c p) + 64 \<le> 2 ^ 64 \<and> unat (plane_base c p) + arena_extent c p \<le> 2 ^ 64 \<and>
        (\<forall>q \<in> set (plane_list c). p \<noteq> q \<longrightarrow> apart (plane_base c p) (arena_extent c p) (plane_base c q) (arena_extent c q)))"

lemma plane_in_arena:
  assumes "InitPagedKVCache g hugep ko vo io rnd busy md seqs len ty node = InitOk c" and "arenas_separate g c"
    and "p \<in> set (plane_list c)"
  shows "plane_size g c p \<le> arena_extent c p"
proof -
  note I = InitPagedKVCache_ok [OF assms(1)]
  have mb: "0 \<le> kc_max_blocks c" using InitPagedKVCache_capacity [OF assms(1)] by simp
  let ?n = "kc_max_blocks c * kc_n_layer c"
  obtain out where out: "plane_allocator c p = Some (KVBlockAllocator (of_int ?n) (plane_bytes g c p) 64 node hugep (0 \<le> node) out)"
    using I(9) [OF assms(3)] by blast
  have "?n \<le> (2 ^ 31) * (2 ^ 31)" using mb I(4,6,7) by (intro mult_mono) simp_all
  then have "nat ?n < 2 ^ 64" by simp
  moreover have "of_int ?n = (of_nat (nat ?n) :: u64)" using mb I(4) by simp
  ultimately have n: "unat (of_int ?n :: u64) = nat (kc_max_blocks c) * nat (kc_n_layer c)"
    using unat_of_nat_64 [of "nat ?n"] mb I(4) by (simp add: nat_mult_distrib)
  have "unat (plane_bytes g c p) + 64 \<le> 2 ^ 64" using assms(2,3) by (simp add: arenas_separate_def)
  then have "int (unat (plane_bytes g c p) + 64) \<le> int (2 ^ 64)" by (simp only: of_nat_le_iff)
  then have "uint (plane_bytes g c p) + 2 ^ 6 \<le> 2 ^ 64" by simp
  from AlignUp_bounds(1) [OF this] have "unat (plane_bytes g c p) \<le> unat (AlignUp (plane_bytes g c p) 64)"
    by (simp add: word_le_def [symmetric] word_le_nat_alt)
  then show ?thesis
    unfolding plane_size_def arena_extent_def out option.case KVBlockAllocator_fields n by (rule mult_left_mono) simp
qed

lemma InitPagedKVCache_storage_ok:
  assumes "InitPagedKVCache g hugep ko vo io rnd busy md seqs len ty node = InitOk c" and "arenas_separate g c"
  shows "storage_ok g c"
proof -
  note I = InitPagedKVCache_ok [OF assms(1)] and E = plane_in_arena [OF assms]
  have mb: "0 \<le> kc_max_blocks c" using InitPagedKVCache_capacity [OF assms(1)] by simp
  have "plane_allocator c p \<noteq> None \<and> plane_base c p \<noteq> 0 \<and> plane_stride c p = plane_bytes g c p * of_int (kc_max_blocks c) \<and>
      unat (plane_base c p) + plane_size g c p \<le> 2 ^ 64" if "p \<in> set (plane_list c)" for p
    using I(9) [OF that] E [OF that] assms(2) that unfolding arenas_separate_def by (fastforce intro: order_trans [rotated])
  moreover have "apart (plane_base c p) (plane_size g c p) (plane_base c q) (plane_size g c q)"
    if "p \<in> set (plane_list c)" "q \<in> set (plane_list c)" "p \<noteq> q" for p q
  proof -
    have "apart (plane_base c p) (arena_extent c p) (plane_base c q) (arena_extent c q)"
      using assms(2) that by (auto simp: arenas_separate_def)
    then show ?thesis using E [OF that(1)] E [OF that(2)] by (auto simp: apart_def)
  qed
  ultimately show ?thesis using I(1,4) mb unfolding storage_ok_def by blast
qed

end
