(* ===== verification/Slot_Laws.thy ===== *)
theory Slot_Laws
  imports Storage_Laws
begin

text \<open>
  Laws of the slot operations. Every path through them, bulk or slot by slot, writes the same byte image and reads the
  same values, and what is read back is the stored form of what was written.
\<close>

section \<open>Consecutive writes\<close>

lemma write_consecutive:
  assumes "\<forall>i < n. length (f i) = w" and "n * w \<le> 2 ^ 64"
  shows "fold (\<lambda>i. write_bytes (p + of_nat (i * w)) (f i)) [0..<n] m = write_bytes p (concat (map f [0..<n])) m"
  using assms
proof (induction n)
  case (Suc n)
  have "length (concat (map f [0..<n])) = n * w" using Suc.prems(1) by (induction n) auto
  then show ?case using Suc write_bytes_append [of "concat (map f [0..<n])" "f n" p m] by simp
qed simp

lemma write_over_zeros:
  assumes "length xs \<le> n"
  shows "write_bytes p xs (write_bytes p (replicate n 0) m) = write_bytes p (xs @ replicate (n - length xs) 0) m"
  using assms by (auto simp: write_bytes_def nth_append)

lemma splice_at_append:
  "splice_at (length pre + off) ys (pre @ xs) = pre @ splice_at off ys xs"
  "off + length ys \<le> length xs \<Longrightarrow> splice_at off ys (xs @ post) = splice_at off ys xs @ post"
  by (simp_all add: splice_at_def)

lemma length_concat_const: "\<forall>i < n. length (f i) = w \<Longrightarrow> length (concat (map f [0..<n])) = n * w"
  by (induction n) auto

lemma splice_consecutive:
  assumes "\<forall>i < n. length (f i) = w" and "off + n * w \<le> length out"
  shows "fold (\<lambda>i. splice_at (off + i * w) (f i)) [0..<n] out = splice_at off (concat (map f [0..<n])) out"
  using assms
proof (induction n)
  case (Suc n)
  have l: "length (concat (map f [0..<n])) = n * w" using Suc.prems(1) by (intro length_concat_const) auto
  have "splice_at (off + n * w) (f n) (splice_at off (concat (map f [0..<n])) out) =
      splice_at off (concat (map f [0..<n]) @ f n) out"
    using Suc.prems l by (simp add: splice_at_def min_def ac_simps)
  then show ?case using Suc by simp
qed simp

lemma fold_as_splices:
  assumes "\<And>i o'. i < n \<Longrightarrow> n * w \<le> length o' \<Longrightarrow> R i o' = splice_at (i * w) (v i) o'" and "\<And>i. i < n \<Longrightarrow> length (v i) = w"
    and "n * w \<le> length out"
  shows "fold R [0..<n] out = splice_at 0 (concat (map v [0..<n])) out"
proof -
  have "fold R [0..<k] out = splice_at 0 (concat (map v [0..<k])) out" if "k \<le> n" for k
    using that
  proof (induction k)
    case (Suc k)
    have l: "length (concat (map v [0..<k])) = k * w" using Suc.prems assms(2) by (intro length_concat_const) auto
    have "Suc k * w \<le> n * w" using Suc.prems by (intro mult_right_mono) auto
    then have fits: "0 + Suc k * w \<le> length out" using assms(3) by simp
    have "splice_at (k * w) (v k) (splice_at 0 (concat (map v [0..<k])) out) = splice_at 0 (concat (map v [0..<k]) @ v k) out"
      using l fits assms(2) [of k] Suc.prems by (simp add: splice_at_def min_def ac_simps)
    moreover have "n * w \<le> length (splice_at 0 (concat (map v [0..<k])) out)" using l fits assms(3) by simp
    ultimately show ?case using Suc assms(1) [of k] by simp
  qed (simp add: splice_at_def)
  from this [of n] show ?thesis by simp
qed

section \<open>Images of heads and slots\<close>

text \<open>What the code relies on: a layer fits its storage, and the row quantisers of ggml work row by row.\<close>

definition shape_ok :: "shape \<Rightarrow> bool" where
  "shape_ok sh \<longleftrightarrow> sh_layer_dim sh \<le> sh_dim sh \<and> sh_layer_heads sh \<le> sh_heads sh"

definition quantizer_ok :: "ggml \<Rightarrow> shape \<Rightarrow> bool" where
  "quantizer_ok g sh \<longleftrightarrow> (let ty = sh_type sh; d = sh_dim sh
     in (\<forall>xs. length xs = d \<longrightarrow> length (ggml_quantize_chunk g ty xs 1 (int d)) = unat (ggml_row_size g ty (int d))) \<and>
        (\<forall>d. ggml_quantize_chunk g ty [] 0 d = []) \<and>
        (\<forall>xs ys r. length xs = d \<longrightarrow> length ys = r * d \<longrightarrow>
           ggml_quantize_chunk g ty (xs @ ys) (int (Suc r)) (int d) =
             ggml_quantize_chunk g ty xs 1 (int d) @ ggml_quantize_chunk g ty ys (int r) (int d)))"

definition head_bytes :: "ggml \<Rightarrow> shape \<Rightarrow> nat" where
  "head_bytes g sh = (if sh_type sh = GGML_TYPE_F16 then sh_dim sh * 2
     else if row_quantized (sh_type sh) then unat (ggml_row_size g (sh_type sh) (int (sh_dim sh))) else sh_dim sh * 4)"

definition padded_head :: "'b \<Rightarrow> ('a \<Rightarrow> 'b) \<Rightarrow> shape \<Rightarrow> 'a list \<Rightarrow> nat \<Rightarrow> 'b list" where
  "padded_head z f sh data h =
     (let values = (if h < sh_layer_heads sh then map f (head_of sh data h) else [])
      in values @ replicate (sh_dim sh - length values) z)"

definition head_image :: "ggml \<Rightarrow> shape \<Rightarrow> u32 list \<Rightarrow> nat \<Rightarrow> u8 list" where
  "head_image g sh data h =
     (if sh_type sh = GGML_TYPE_F16 then words_to_bytes 2 (padded_head 0 (fp32_to_fp16 g) sh data h)
      else if row_quantized (sh_type sh)
      then ggml_quantize_chunk g (sh_type sh) (padded_head 0 id sh data h) 1 (int (sh_dim sh))
      else words_to_bytes 4 (padded_head 0 id sh data h))"

definition slot_image :: "ggml \<Rightarrow> shape \<Rightarrow> u32 list \<Rightarrow> u8 list" where
  "slot_image g sh data = concat (map (head_image g sh data) [0..<sh_heads sh])"

lemma length_head_of: "length (head_of sh xs h) \<le> sh_layer_dim sh"
  by (simp add: head_of_def)

lemma length_padded_head: "shape_ok sh \<Longrightarrow> length (padded_head z f sh data h) = sh_dim sh"
  using length_head_of [of sh data h] by (auto simp: padded_head_def shape_ok_def Let_def)

lemma length_head_image:
  assumes "shape_ok sh" and "row_quantized (sh_type sh) \<Longrightarrow> quantizer_ok g sh"
  shows "length (head_image g sh data h) = head_bytes g sh"
  using assms(2) by (auto simp: head_image_def head_bytes_def quantizer_ok_def Let_def length_padded_head [OF assms(1)])

lemma write_head_image:
  assumes "shape_ok sh"
  shows "write_head g sh ptr data h m = write_bytes (ptr + of_nat (h * head_bytes g sh)) (head_image g sh data h) m"
proof -
  have le: "length (if h < sh_layer_heads sh then head_of sh data h else []) \<le> sh_dim sh"
    using assms length_head_of [of sh data h] by (auto simp: shape_ok_def)
  have "take (sh_dim sh) (v @ replicate (sh_dim sh) 0) = v @ replicate (sh_dim sh - length v) 0" if "length v \<le> sh_dim sh"
    for v :: "u32 list" using that by (simp add: take_replicate)
  then show ?thesis using le
    by (auto simp: write_head_def head_image_def head_bytes_def padded_head_def Let_def write_over_zeros words_to_bytes_zeros
        diff_mult_distrib2 ac_simps)
qed

lemma write_slot_image:
  assumes "shape_ok sh" and "row_quantized (sh_type sh) \<Longrightarrow> quantizer_ok g sh" and "sh_heads sh * head_bytes g sh \<le> 2 ^ 64"
    and "ptr \<noteq> 0"
  shows "write_slot g sh ptr data m = write_bytes ptr (slot_image g sh data) m"
proof -
  have "write_head g sh ptr data = (\<lambda>h. write_bytes (ptr + of_nat (h * head_bytes g sh)) (head_image g sh data h))"
    by (intro ext write_head_image [OF assms(1)])
  then show ?thesis
    using write_consecutive [of "sh_heads sh" "head_image g sh data" "head_bytes g sh" ptr m] length_head_image [OF assms(1,2)] assms(3,4)
    by (simp add: write_slot_def slot_image_def)
qed

lemma length_slot_image:
  assumes "shape_ok sh" and "row_quantized (sh_type sh) \<Longrightarrow> quantizer_ok g sh"
  shows "length (slot_image g sh data) = sh_heads sh * head_bytes g sh"
  unfolding slot_image_def by (rule length_concat_const) (simp add: length_head_image assms)

section \<open>Packing\<close>

lemma splice_rows:
  assumes "\<forall>h < k. length (v h) \<le> d" and "k \<le> n"
  shows "fold (\<lambda>h. splice_at (h * d) (v h)) [0..<k] (replicate (n * d) z) =
    concat (map (\<lambda>h. v h @ replicate (d - length (v h)) z) [0..<k]) @ replicate ((n - k) * d) z"
  using assms
proof (induction k)
  case (Suc k)
  let ?pre = "concat (map (\<lambda>h. v h @ replicate (d - length (v h)) z) [0..<k])"
  have l: "length ?pre = k * d" using Suc.prems(1) by (intro length_concat_const) auto
  obtain j where n: "n = Suc k + j" using Suc.prems(2) le_Suc_ex by blast
  have le: "length (v k) \<le> d" using Suc.prems(1) by simp
  have "splice_at 0 (v k) (replicate (d + j * d) z) = (v k @ replicate (d - length (v k)) z) @ replicate (j * d) z"
    using le by (simp add: splice_at_def replicate_add [symmetric])
  then show ?case using Suc splice_at_append(1) [of ?pre 0 "v k" "replicate (d + j * d) z"] l by (simp add: n)
qed simp

lemma splice_rows_padded:
  assumes "\<forall>h < k. length (v h) \<le> d" and "k \<le> n"
  shows "fold (\<lambda>h. splice_at (h * d) (v h)) [0..<k] (replicate (n * d) z) =
    concat (map (\<lambda>h. (if h < k then v h else []) @ replicate (d - length (if h < k then v h else [])) z) [0..<n])"
proof -
  obtain j where n: "n = k + j" using assms(2) le_Suc_ex by blast
  have c: "concat (map (\<lambda>h. replicate d z) xs) = replicate (length xs * d) z" for xs :: "nat list"
    by (induction xs) (simp_all add: replicate_add)
  have t: "map (\<lambda>h. (if h < k then v h else []) @ replicate (d - length (if h < k then v h else [])) z) [k..<k + j] =
      map (\<lambda>h. replicate d z) [k..<k + j]" by (rule map_cong) auto
  have "concat (map (\<lambda>h. (if h < k then v h else []) @ replicate (d - length (if h < k then v h else [])) z) [k..<k + j]) =
      replicate (j * d) z" unfolding t c by simp
  moreover have "map (\<lambda>h. (if h < k then v h else []) @ replicate (d - length (if h < k then v h else [])) z) [0..<k] =
      map (\<lambda>h. v h @ replicate (d - length (v h)) z) [0..<k]" by (rule map_cong) auto
  ultimately show ?thesis using splice_rows [OF assms, of z] by (simp only: n upt_add_eq_append [OF zero_le] map_append concat_append diff_add_inverse)
qed

lemma fold_splice_frame:
  assumes "\<forall>h < k. off h + length (v h) \<le> length xs"
  shows "fold (\<lambda>h. splice_at (length pre + off h) (v h)) [0..<k] (pre @ xs @ post) =
    pre @ fold (\<lambda>h. splice_at (off h) (v h)) [0..<k] xs @ post \<and>
    length (fold (\<lambda>h. splice_at (off h) (v h)) [0..<k] xs) = length xs"
  using assms by (induction k) (simp_all add: splice_at_append)

lemma fold_product: "fold f (List.product xs ys) s = fold (\<lambda>x. fold (\<lambda>y. f (x, y)) ys) xs s"
  by (induction xs arbitrary: s) (simp_all add: fold_map comp_def)

lemma pack_slots_eq:
  assumes "shape_ok sh"
  shows "pack_slots z f sh n src =
    concat (map (\<lambda>s. concat (map (padded_head z f sh (drop (s * layer_elems sh) src)) [0..<sh_heads sh])) [0..<n])"
proof -
  let ?v = "\<lambda>s h. map f (head_of sh (drop (s * layer_elems sh) src) h)"
  let ?row = "\<lambda>s. concat (map (padded_head z f sh (drop (s * layer_elems sh) src)) [0..<sh_heads sh])"
  let ?inner = "\<lambda>s. fold (\<lambda>h. splice_at (s * storage_elems sh + h * sh_dim sh) (?v s h)) [0..<sh_layer_heads sh]"
  have v: "length (?v s h) \<le> sh_dim sh" for s h
    using assms length_head_of [of sh "drop (s * layer_elems sh) src" h] by (auto simp: shape_ok_def)
  have lh: "sh_layer_heads sh \<le> sh_heads sh" using assms by (simp add: shape_ok_def)
  have row: "fold (\<lambda>h. splice_at (h * sh_dim sh) (?v s h)) [0..<sh_layer_heads sh] (replicate (storage_elems sh) z) = ?row s" for s
  proof -
    have "padded_head z f sh (drop (s * layer_elems sh) src) = (\<lambda>h. (if h < sh_layer_heads sh then ?v s h else []) @
        replicate (sh_dim sh - length (if h < sh_layer_heads sh then ?v s h else [])) z)"
      by (simp add: fun_eq_iff padded_head_def Let_def)
    then show ?thesis
      using splice_rows_padded [of "sh_layer_heads sh" "?v s" "sh_dim sh" "sh_heads sh" z] v lh
      unfolding storage_elems_def mult.commute [of "sh_dim sh" "sh_heads sh"] by simp
  qed
  have fits: "h * sh_dim sh + length (?v s h) \<le> storage_elems sh" if "h < sh_layer_heads sh" for s h
  proof -
    have "Suc h * sh_dim sh \<le> sh_heads sh * sh_dim sh" using that lh by (intro mult_right_mono) auto
    then show ?thesis using v [of s h] by (simp add: storage_elems_def mult.commute)
  qed
  have lrow: "length (?row s) = storage_elems sh" for s
    using length_concat_const [of "sh_heads sh" "padded_head z f sh (drop (s * layer_elems sh) src)" "sh_dim sh"]
    by (simp add: length_padded_head [OF assms] storage_elems_def mult.commute)
  have "fold ?inner [0..<k] (replicate (storage_elems sh * n) z) = concat (map ?row [0..<k]) @ replicate (storage_elems sh * (n - k)) z"
    if "k \<le> n" for k
    using that
  proof (induction k)
    case (Suc k)
    have l: "length (concat (map ?row [0..<k])) = k * storage_elems sh" using lrow by (intro length_concat_const) auto
    obtain j where n: "n = Suc k + j" using Suc.prems le_Suc_ex by blast
    have "?inner k (concat (map ?row [0..<k]) @ replicate (storage_elems sh) z @ replicate (storage_elems sh * j) z) =
        concat (map ?row [0..<k]) @ ?row k @ replicate (storage_elems sh * j) z"
      using fold_splice_frame [of "sh_layer_heads sh" "\<lambda>h. h * sh_dim sh" "?v k" "replicate (storage_elems sh) z"
          "concat (map ?row [0..<k])" "replicate (storage_elems sh * j) z"] fits row l by simp
    then show ?case using Suc by (simp add: n replicate_add)
  qed simp
  from this [of n] show ?thesis by (simp add: pack_slots_def fold_product)
qed

section \<open>Bulk writes\<close>

lemma concat_chunks: "concat (map (\<lambda>i. take w (drop (i * w) xs)) [0..<n]) = take (n * w) xs"
proof (induction n)
  case (Suc n)
  then show ?case using take_add [of "n * w" w xs] by (simp add: add.commute)
qed simp

lemma uniform_pack:
  assumes "sh_layer_heads sh = sh_heads sh" and "sh_layer_dim sh = sh_dim sh" and "n * layer_elems sh \<le> length data"
  shows "concat (map (\<lambda>s. concat (map (padded_head z f sh (drop (s * layer_elems sh) data)) [0..<sh_heads sh])) [0..<n]) =
    map f (take (layer_elems sh * n) data)"
proof -
  have "concat (map (padded_head z f sh (drop (s * layer_elems sh) data)) [0..<sh_heads sh]) =
      take (layer_elems sh) (drop (s * layer_elems sh) (map f data))" if "s < n" for s
  proof -
    let ?d = "drop (s * layer_elems sh) data"
    have "Suc s * layer_elems sh \<le> n * layer_elems sh" using that by (intro mult_right_mono) auto
    then have len: "layer_elems sh \<le> length ?d" using assms(3) by simp
    have "padded_head z f sh ?d h = take (sh_dim sh) (drop (h * sh_dim sh) (map f ?d))" if "h < sh_heads sh" for h
    proof -
      have "Suc h * sh_dim sh \<le> sh_heads sh * sh_dim sh" using that by (intro mult_right_mono) auto
      then have "sh_dim sh \<le> length ?d - h * sh_dim sh"
        using len assms(1,2) by (simp add: layer_elems_def mult.commute)
      then show ?thesis using that assms(1,2) by (simp add: padded_head_def head_of_def Let_def take_map drop_map)
    qed
    then have "map (padded_head z f sh ?d) [0..<sh_heads sh] = map (\<lambda>h. take (sh_dim sh) (drop (h * sh_dim sh) (map f ?d))) [0..<sh_heads sh]"
      by simp
    then have "concat (map (padded_head z f sh ?d) [0..<sh_heads sh]) = take (sh_heads sh * sh_dim sh) (map f ?d)"
      by (simp only: concat_chunks)
    then show ?thesis using assms(1,2) by (simp add: layer_elems_def mult.commute drop_map)
  qed
  then have "map (\<lambda>s. concat (map (padded_head z f sh (drop (s * layer_elems sh) data)) [0..<sh_heads sh])) [0..<n] =
      map (\<lambda>s. take (layer_elems sh) (drop (s * layer_elems sh) (map f data))) [0..<n]" by simp
  then show ?thesis by (simp only: concat_chunks take_map mult.commute [of n])
qed

lemma words_to_bytes_concat: "words_to_bytes n (concat xss) = concat (map (words_to_bytes n) xss)"
  by (induction xss) auto

lemma length_concat_rows: "\<forall>row \<in> set rows. length row = d \<Longrightarrow> length (concat rows) = length rows * d"
  by (induction rows) auto

lemma quantize_rows:
  assumes "quantizer_ok g sh" and "\<forall>row \<in> set rows. length row = sh_dim sh"
  shows "ggml_quantize_chunk g (sh_type sh) (concat rows) (int (length rows)) (int (sh_dim sh)) =
    concat (map (\<lambda>row. ggml_quantize_chunk g (sh_type sh) row 1 (int (sh_dim sh))) rows)"
  using assms(2)
proof (induction rows)
  case Nil
  then show ?case using assms(1) by (simp add: quantizer_ok_def Let_def)
next
  case (Cons row rows)
  have "length (concat rows) = length rows * sh_dim sh" using Cons.prems by (intro length_concat_rows) auto
  then show ?case using assms(1) Cons by (simp add: quantizer_ok_def Let_def)
qed

definition slots_image :: "ggml \<Rightarrow> shape \<Rightarrow> nat \<Rightarrow> u32 list \<Rightarrow> u8 list" where
  "slots_image g sh n data = concat (map (\<lambda>i. slot_image g sh (drop (i * layer_elems sh) data)) [0..<n])"

lemma slots_image_packed:
  assumes "shape_ok sh" and "row_quantized (sh_type sh) \<Longrightarrow> quantizer_ok g sh"
  shows "sh_type sh = GGML_TYPE_F16 \<Longrightarrow> words_to_bytes 2 (pack_slots 0 (fp32_to_fp16 g) sh n data) = slots_image g sh n data"
    and "row_quantized (sh_type sh) \<Longrightarrow>
      ggml_quantize_chunk g (sh_type sh) (pack_slots 0 id sh n data) (int (n * sh_heads sh)) (int (sh_dim sh)) = slots_image g sh n data"
    and "sh_type sh \<noteq> GGML_TYPE_F16 \<Longrightarrow> \<not> row_quantized (sh_type sh) \<Longrightarrow>
      words_to_bytes 4 (pack_slots 0 id sh n data) = slots_image g sh n data"
proof -
  have flat: "concat (map (\<lambda>i. concat (map (F i) [0..<sh_heads sh])) [0..<n]) = concat (map (\<lambda>(i, h). F i h) (List.product [0..<n] [0..<sh_heads sh]))"
    for F :: "nat \<Rightarrow> nat \<Rightarrow> 'x list" by (induction n) (simp_all add: product_concat_map comp_def)
  show "sh_type sh = GGML_TYPE_F16 \<Longrightarrow> words_to_bytes 2 (pack_slots 0 (fp32_to_fp16 g) sh n data) = slots_image g sh n data"
    "sh_type sh \<noteq> GGML_TYPE_F16 \<Longrightarrow> \<not> row_quantized (sh_type sh) \<Longrightarrow>
      words_to_bytes 4 (pack_slots 0 id sh n data) = slots_image g sh n data"
    by (simp_all add: pack_slots_eq [OF assms(1)] slots_image_def slot_image_def words_to_bytes_concat comp_def head_image_def cong: map_cong)
  assume q: "row_quantized (sh_type sh)"
  then have nf: "sh_type sh \<noteq> GGML_TYPE_F16" by (auto simp: row_quantized_def)
  let ?rows = "map (\<lambda>(i, h). padded_head 0 id sh (drop (i * layer_elems sh) data) h) (List.product [0..<n] [0..<sh_heads sh])"
  have "\<forall>row \<in> set ?rows. length row = sh_dim sh" by (auto simp: length_padded_head [OF assms(1)])
  from quantize_rows [OF assms(2) [OF q] this]
  show "ggml_quantize_chunk g (sh_type sh) (pack_slots 0 id sh n data) (int (n * sh_heads sh)) (int (sh_dim sh)) = slots_image g sh n data"
    using q nf unfolding pack_slots_eq [OF assms(1)] slots_image_def slot_image_def flat
    by (simp add: length_product head_image_def comp_def case_prod_unfold)
qed

text \<open>The slots of a block: the block does not wrap, and a slot has room for the heads of the storage.\<close>

definition slots_ok :: "ggml \<Rightarrow> shape \<Rightarrow> u64 \<Rightarrow> u64 \<Rightarrow> bool" where
  "slots_ok g sh bp bytes \<longleftrightarrow> shape_ok sh \<and> (row_quantized (sh_type sh) \<longrightarrow> quantizer_ok g sh) \<and>
     unat bytes = sh_heads sh * head_bytes g sh \<and> unat bp + 16 * unat bytes \<le> 2 ^ 64"

lemma slot_address:
  assumes "slots_ok g sh bp bytes" and "bp \<noteq> 0" and "0 \<le> start" and "start + int i < 16"
  shows "slot_ptr bp bytes (start + int i) = slot_ptr bp bytes start + of_nat (i * unat bytes)"
    and "slot_ptr bp bytes (start + int i) \<noteq> 0"
    and "unat (slot_ptr bp bytes (start + int i)) = unat bp + nat (start + int i) * unat bytes"
proof -
  let ?k = "nat (start + int i)"
  have p: "slot_ptr bp bytes (start + int i) = bp + of_nat (?k * unat bytes)"
    using assms by (simp add: slot_ptr_def)
  show "slot_ptr bp bytes (start + int i) = slot_ptr bp bytes start + of_nat (i * unat bytes)"
    using assms by (simp add: slot_ptr_def algebra_simps)
  have k: "unat bp + ?k * unat bytes \<le> 2 ^ 64 - unat bytes"
  proof -
    have "Suc ?k * unat bytes \<le> 16 * unat bytes" using assms by (intro mult_right_mono) auto
    moreover have "unat bp + 16 * unat bytes \<le> 2 ^ 64" using assms(1) unfolding slots_ok_def by blast
    ultimately show ?thesis unfolding mult_Suc by linarith
  qed
  have u: "unat (slot_ptr bp bytes (start + int i)) = unat bp + ?k * unat bytes"
  proof (cases "unat bytes = 0")
    case False
    then show ?thesis unfolding p using k unat_add_64 [of bp "?k * unat bytes"] by simp
  qed (simp add: p)
  then show "unat (slot_ptr bp bytes (start + int i)) = unat bp + ?k * unat bytes" .
  have "0 < unat bp" using assms(2) by (simp add: unat_gt_0)
  then show "slot_ptr bp bytes (start + int i) \<noteq> 0" using u by (metis add_is_0 less_irrefl unat_0)
qed

lemma slots_bytes_bound:
  assumes "slots_ok g sh bp bytes" and "0 \<le> start" and "start + int n \<le> 16"
  shows "n * unat bytes \<le> 2 ^ 64"
proof -
  have "n * unat bytes \<le> 16 * unat bytes" using assms by (intro mult_right_mono) auto
  moreover have "unat bp + 16 * unat bytes \<le> 2 ^ 64" using assms(1) unfolding slots_ok_def by blast
  ultimately show ?thesis by linarith
qed

lemma write_each_slot_image:
  assumes "slots_ok g sh bp bytes" and "bp \<noteq> 0" and "0 \<le> start" and "start + int n \<le> 16"
  shows "write_each_slot g sh (slot_ptr bp bytes) start n data m = write_bytes (slot_ptr bp bytes start) (slots_image g sh n data) m"
proof -
  have so: "shape_ok sh" "row_quantized (sh_type sh) \<Longrightarrow> quantizer_ok g sh" "unat bytes = sh_heads sh * head_bytes g sh"
    using assms(1) by (auto simp: slots_ok_def)
  have one: "sh_heads sh * head_bytes g sh \<le> 2 ^ 64" using assms(1) by (simp add: slots_ok_def)
  have "fold (\<lambda>i. write_slot g sh (slot_ptr bp bytes (start + int i)) (drop (i * layer_elems sh) data)) [0..<n] m =
      fold (\<lambda>i. write_bytes (slot_ptr bp bytes start + of_nat (i * unat bytes)) (slot_image g sh (drop (i * layer_elems sh) data))) [0..<n] m"
  proof (rule List.fold_cong [OF refl refl])
    fix i assume "i \<in> set [0..<n]"
    then have i: "start + int i < 16" using assms(4) by simp
    show "write_slot g sh (slot_ptr bp bytes (start + int i)) (drop (i * layer_elems sh) data) =
        write_bytes (slot_ptr bp bytes start + of_nat (i * unat bytes)) (slot_image g sh (drop (i * layer_elems sh) data))"
      using write_slot_image [OF so(1,2) one slot_address(2) [OF assms(1-3) i]] slot_address(1) [OF assms(1-3) i] by (simp add: fun_eq_iff)
  qed
  then show ?thesis
    using write_consecutive [of n "\<lambda>i. slot_image g sh (drop (i * layer_elems sh) data)" "unat bytes" "slot_ptr bp bytes start" m]
      slots_bytes_bound [OF assms(1,3,4)] length_slot_image [OF so(1,2)] so(3)
    by (simp add: write_each_slot_def slots_image_def)
qed

text \<open>All paths of a write leave the same memory.\<close>

lemma write_slots_image:
  assumes "slots_ok g sh bp bytes" and "nat num * layer_elems sh \<le> length data"
  shows "write_slots g bulk sh (slot_ptr bp bytes) start num data m =
    (if bp = 0 \<or> num \<le> 0 \<or> start < 0 \<or> 16 < start + num then m
     else write_bytes (slot_ptr bp bytes start) (slots_image g sh (nat num) data) m)"
proof (cases "bp = 0 \<or> num \<le> 0 \<or> start < 0 \<or> 16 < start + num")
  case True
  moreover have "write_each_slot g sh (slot_ptr 0 bytes) start n data m = m" for n
    by (induction n) (simp_all add: write_each_slot_def slot_ptr_def write_slot_def)
  ultimately show ?thesis by (auto simp: write_slots_def Let_def slot_ptr_def)
next
  case False
  have so: "shape_ok sh" "row_quantized (sh_type sh) \<Longrightarrow> quantizer_ok g sh" using assms(1) by (auto simp: slots_ok_def)
  have n: "0 \<le> start" "start + int (nat num) \<le> 16" "start + int 0 < 16" using False by auto
  have nz: "slot_ptr bp bytes start \<noteq> 0" using slot_address(2) [OF assms(1) _ n(1,3)] False by simp
  note img = slots_image_packed [OF so, of "nat num" data]
  show ?thesis
  proof (cases "sh_layer_heads sh = sh_heads sh \<and> sh_layer_dim sh = sh_dim sh \<and> bulk")
    case True
    then have eq: "storage_elems sh = layer_elems sh" by (simp add: storage_elems_def layer_elems_def)
    have u: "pack_slots z f sh (nat num) data = map f (take (layer_elems sh * nat num) data)" for z and f :: "u32 \<Rightarrow> 'x"
      using uniform_pack [of sh "nat num" data z f] True assms(2) by (simp add: pack_slots_eq [OF so(1)])
    have q: "take (nat num * sh_heads sh * sh_dim sh) data = take (layer_elems sh * nat num) data"
      using True by (simp add: layer_elems_def ac_simps)
    show ?thesis using False True nz img by (auto simp: write_slots_def write_uniform_def Let_def u eq q)
  next
    case nonuniform: False
    show ?thesis using False nonuniform nz img write_each_slot_image [OF assms(1) _ n(1,2)]
      by (auto simp: write_slots_def Let_def WriteLayerSlotsToF16Storage_def PackLayerSlotsToStorageLayout_def)
  qed
qed

section \<open>Reads\<close>

lemma drop_read_bytes: "drop j (read_bytes m p n) = read_bytes m (p + of_nat j) (n - j)"
  by (rule nth_equalityI) (simp_all add: read_bytes_def ac_simps less_diff_conv)

lemma take_read_bytes: "take j (read_bytes m p n) = read_bytes m p (min j n)"
  by (rule nth_equalityI) (simp_all add: read_bytes_def)

lemma drop_bytes_to_words: "j \<le> t \<Longrightarrow> drop j (bytes_to_words n t bs) = bytes_to_words n (t - j) (drop (j * n) bs)"
proof (induction j arbitrary: t bs)
  case (Suc j)
  then obtain t' where "t = Suc t'" by (cases t) auto
  then show ?case using Suc by (simp add: add.commute)
qed simp

lemma take_bytes_to_words: "k \<le> t \<Longrightarrow> take k (bytes_to_words n t bs) = bytes_to_words n k (take (k * n) bs)"
proof (induction k arbitrary: t bs)
  case (Suc k)
  then obtain t' where "t = Suc t'" by (cases t) auto
  then show ?case using Suc by (simp add: drop_take min_def)
qed simp

lemma words_of_region:
  assumes "j + k \<le> t"
  shows "take k (drop j (bytes_to_words n t (read_bytes m p (t * n)))) = bytes_to_words n k (read_bytes m (p + of_nat (j * n)) (k * n))"
proof -
  have "k \<le> t - j" using assms by simp
  then have "min (k * n) (t * n - j * n) = k * n" by (simp add: min_def diff_mult_distrib [symmetric])
  then show ?thesis using assms
    by (simp add: drop_bytes_to_words take_bytes_to_words drop_read_bytes take_read_bytes)
qed

lemma concat_nested: "concat (map F [0..<n * k]) = concat (map (\<lambda>s. concat (map (\<lambda>h. F (s * k + h)) [0..<k])) [0..<n])"
proof (induction n)
  case (Suc n)
  have "map (\<lambda>h. n * k + h) [0..<k] = [n * k..<n * k + k]" using map_add_upt [of "n * k" k] by (simp add: add.commute)
  then have "[0..<Suc n * k] = [0..<n * k] @ map (\<lambda>h. n * k + h) [0..<k]"
    using upt_add_eq_append [of 0 "n * k" k] by (simp add: add.commute [of k])
  then show ?case using Suc by (simp add: comp_def)
qed simp

lemma concat_regular:
  assumes "\<forall>row \<in> set rows. length row = d" and "k < length rows" and "j + l \<le> d"
  shows "take l (drop (k * d + j) (concat rows)) = take l (drop j (rows ! k))"
proof -
  have "drop (k * d) (concat rows) = concat (drop k rows)" using assms(1)
  proof (induction k arbitrary: rows)
    case (Suc k)
    then show ?case by (cases rows) auto
  qed simp
  moreover have "drop (k * d + j) (concat rows) = drop j (drop (k * d) (concat rows))" by (simp add: add.commute)
  ultimately show ?thesis using assms by (simp add: Cons_nth_drop_Suc [symmetric])
qed

lemma unpack_slots_eq:
  assumes "shape_ok sh" and "n * layer_elems sh \<le> length out" and "length src = storage_elems sh * n"
  shows "unpack_slots f sh n src out = splice_at 0 (concat (map (\<lambda>s. concat (map (\<lambda>h.
      map f (take (sh_layer_dim sh) (drop (s * storage_elems sh + h * sh_dim sh) src))) [0..<sh_layer_heads sh])) [0..<n])) out"
proof -
  let ?v = "\<lambda>s h. map f (take (sh_layer_dim sh) (drop (s * storage_elems sh + h * sh_dim sh) src))"
  have len: "length (?v s h) = sh_layer_dim sh" if "s < n" "h < sh_layer_heads sh" for s h
  proof -
    have "Suc s * storage_elems sh \<le> n * storage_elems sh" using that(1) by (intro mult_right_mono) auto
    moreover have "Suc h * sh_dim sh \<le> storage_elems sh" unfolding storage_elems_def mult.commute [of "sh_dim sh"]
      using that(2) assms(1) by (intro mult_right_mono) (auto simp: shape_ok_def)
    ultimately have "s * storage_elems sh + h * sh_dim sh + sh_layer_dim sh \<le> length src"
      using assms(1,3) by (simp add: shape_ok_def mult.commute)
    then show ?thesis by simp
  qed
  have inner: "fold (\<lambda>h. splice_at (s * layer_elems sh + h * sh_layer_dim sh) (?v s h)) [0..<sh_layer_heads sh] o' =
      splice_at (s * layer_elems sh) (concat (map (?v s) [0..<sh_layer_heads sh])) o'"
    if "s < n" "n * layer_elems sh \<le> length o'" for s o'
  proof (rule splice_consecutive)
    show "\<forall>h < sh_layer_heads sh. length (?v s h) = sh_layer_dim sh" using len that by blast
    have "Suc s * layer_elems sh \<le> n * layer_elems sh" using that(1) by (intro mult_right_mono) auto
    then show "s * layer_elems sh + sh_layer_heads sh * sh_layer_dim sh \<le> length o'"
      using that(2) by (simp add: layer_elems_def mult.commute)
  qed
  have lrow: "length (concat (map (?v s) [0..<sh_layer_heads sh])) = layer_elems sh" if "s < n" for s
    using length_concat_const [of "sh_layer_heads sh" "?v s" "sh_layer_dim sh"] len [OF that] by (simp add: layer_elems_def mult.commute)
  show ?thesis unfolding unpack_slots_def fold_product prod.case
    using inner lrow assms(2) by (intro fold_as_splices) auto
qed

definition dequantizer_ok :: "ggml \<Rightarrow> shape \<Rightarrow> bool" where
  "dequantizer_ok g sh \<longleftrightarrow> (\<forall>bs. length (ggml_to_float g (sh_type sh) bs (int (sh_dim sh))) = sh_dim sh)"

definition slot_values :: "ggml \<Rightarrow> shape \<Rightarrow> u64 \<Rightarrow> memory \<Rightarrow> u32 list" where
  "slot_values g sh ptr m = concat (map (read_head g sh ptr m) [0..<sh_layer_heads sh])"

lemma length_read_head:
  assumes "shape_ok sh" and "row_quantized (sh_type sh) \<Longrightarrow> dequantizer_ok g sh"
  shows "length (read_head g sh ptr m h) = sh_layer_dim sh"
  using assms by (auto simp: read_head_def shape_ok_def dequantizer_ok_def Let_def)

lemma length_slot_values:
  assumes "shape_ok sh" and "row_quantized (sh_type sh) \<Longrightarrow> dequantizer_ok g sh"
  shows "length (slot_values g sh ptr m) = layer_elems sh"
  using length_concat_const [of "sh_layer_heads sh" "read_head g sh ptr m" "sh_layer_dim sh"] length_read_head [OF assms]
  by (simp add: slot_values_def layer_elems_def mult.commute)

definition slots_values :: "ggml \<Rightarrow> shape \<Rightarrow> u64 \<Rightarrow> u64 \<Rightarrow> nat \<Rightarrow> memory \<Rightarrow> u32 list" where
  "slots_values g sh ptr bytes n m = concat (map (\<lambda>i. slot_values g sh (ptr + of_nat (i * unat bytes)) m) [0..<n])"

lemma read_each_slot_values:
  assumes "slots_ok g sh bp bytes" and "row_quantized (sh_type sh) \<Longrightarrow> dequantizer_ok g sh" and "bp \<noteq> 0" and "0 \<le> start"
    and "start + int n \<le> 16" and "n * layer_elems sh \<le> length out"
  shows "read_each_slot g sh (slot_ptr bp bytes) start n m out = splice_at 0 (slots_values g sh (slot_ptr bp bytes start) bytes n m) out"
proof -
  have so: "shape_ok sh" using assms(1) by (simp add: slots_ok_def)
  let ?p = "slot_ptr bp bytes" and ?v = "\<lambda>i. slot_values g sh (slot_ptr bp bytes start + of_nat (i * unat bytes)) m"
  have one: "read_slot g sh (?p (start + int i)) m (i * layer_elems sh) o' = splice_at (i * layer_elems sh) (?v i) o'"
    if "i < n" "n * layer_elems sh \<le> length o'" for i o'
  proof -
    have i: "start + int i < 16" using that assms(5) by simp
    have "Suc i * layer_elems sh \<le> n * layer_elems sh" using that(1) by (intro mult_right_mono) auto
    then have "i * layer_elems sh + sh_layer_heads sh * sh_layer_dim sh \<le> length o'"
      using that(2) by (simp add: layer_elems_def mult.commute)
    from splice_consecutive [OF _ this, of "read_head g sh (?p (start + int i)) m"]
    show ?thesis using slot_address(1,2) [OF assms(1,3,4) i] length_read_head [OF so assms(2)]
      by (simp add: read_slot_def slot_values_def)
  qed
  show ?thesis unfolding read_each_slot_def slots_values_def
    using one length_slot_values [OF so assms(2)] assms(6) by (intro fold_as_splices) auto
qed

text \<open>The values of a slot are the leading values of its stored heads, whatever the element type.\<close>

lemma head_in_storage:
  assumes "shape_ok sh" and "s < n" and "h < sh_layer_heads sh"
  shows "s * storage_elems sh + h * sh_dim sh + sh_layer_dim sh \<le> storage_elems sh * n" and "s * sh_heads sh + h < n * sh_heads sh"
proof -
  have "Suc s * storage_elems sh \<le> n * storage_elems sh" "Suc s * sh_heads sh \<le> n * sh_heads sh"
    using assms(2) by (intro mult_right_mono; simp)+
  moreover have "Suc h * sh_dim sh \<le> storage_elems sh" unfolding storage_elems_def mult.commute [of "sh_dim sh"]
    using assms(1,3) by (intro mult_right_mono) (auto simp: shape_ok_def)
  ultimately show "s * storage_elems sh + h * sh_dim sh + sh_layer_dim sh \<le> storage_elems sh * n" "s * sh_heads sh + h < n * sh_heads sh"
    using assms by (auto simp: shape_ok_def mult.commute)
qed

lemma read_head_f16:
  assumes "slots_ok g sh bp bytes" and "sh_type sh = GGML_TYPE_F16" and "s < n" and "h < sh_layer_heads sh"
  shows "read_head g sh (ptr + of_nat (s * unat bytes)) m h = map (fp16_to_fp32 g) (take (sh_layer_dim sh)
      (drop (s * storage_elems sh + h * sh_dim sh) (bytes_to_words 2 (storage_elems sh * n) (read_bytes m ptr (storage_elems sh * n * 2)))))"
proof -
  have "shape_ok sh" and b: "unat bytes = storage_elems sh * 2"
    using assms(1,2) by (auto simp: slots_ok_def head_bytes_def storage_elems_def)
  note w = words_of_region [OF head_in_storage(1) [OF \<open>shape_ok sh\<close> assms(3,4)], of 2 m ptr]
  show ?thesis unfolding w using assms(2) by (simp add: read_head_def b algebra_simps)
qed

lemma read_head_f32:
  assumes "slots_ok g sh bp bytes" and "sh_type sh \<noteq> GGML_TYPE_F16" and "\<not> row_quantized (sh_type sh)" and "s < n" and "h < sh_layer_heads sh"
  shows "read_head g sh (ptr + of_nat (s * unat bytes)) m h = take (sh_layer_dim sh)
      (drop (s * storage_elems sh + h * sh_dim sh) (bytes_to_words 4 (storage_elems sh * n) (read_bytes m ptr (storage_elems sh * n * 4))))"
proof -
  have "shape_ok sh" and b: "unat bytes = storage_elems sh * 4"
    using assms(1-3) by (auto simp: slots_ok_def head_bytes_def storage_elems_def)
  note w = words_of_region [OF head_in_storage(1) [OF \<open>shape_ok sh\<close> assms(4,5)], of 4 m ptr]
  show ?thesis unfolding w using assms(2,3) by (simp add: read_head_def b algebra_simps)
qed

lemma read_head_quantized:
  assumes "slots_ok g sh bp bytes" and "row_quantized (sh_type sh)" and "s < n" and "h < sh_layer_heads sh"
  shows "read_head g sh (ptr + of_nat (s * unat bytes)) m h =
    take (sh_layer_dim sh) (float_rows g sh ptr (n * sh_heads sh) m ! (s * sh_heads sh + h))"
proof -
  have so: "shape_ok sh" and nf: "sh_type sh \<noteq> GGML_TYPE_F16" using assms(1,2) by (auto simp: slots_ok_def row_quantized_def)
  have b: "unat bytes = sh_heads sh * unat (ggml_row_size g (sh_type sh) (int (sh_dim sh)))"
    using assms(1,2) nf by (simp add: slots_ok_def head_bytes_def)
  have "of_nat (s * unat bytes) + of_nat h * ggml_row_size g (sh_type sh) (int (sh_dim sh)) =
      of_nat (s * sh_heads sh + h) * ggml_row_size g (sh_type sh) (int (sh_dim sh))"
    unfolding b by (simp add: algebra_simps)
  then show ?thesis using assms(2) nf head_in_storage(2) [OF so assms(3,4)]
    by (simp add: read_head_def float_rows_def Let_def add.assoc)
qed

lemma concat_uniform: "concat (map (\<lambda>s. concat (map (\<lambda>h. take d (drop (s * (d * k) + h * d) xs)) [0..<k])) [0..<n]) = take (d * k * n) xs"
proof -
  have "concat (map (\<lambda>h. take d (drop (s * (d * k) + h * d) xs)) [0..<k]) = take (d * k) (drop (s * (d * k)) xs)" for s
    using concat_chunks [of d "drop (s * (d * k)) xs" k] by (simp add: mult.commute add.commute)
  then show ?thesis using concat_chunks [of "d * k" xs n] by (simp add: mult.commute)
qed

lemma concat2_cong:
  "(\<And>s h. s < n \<Longrightarrow> h < k \<Longrightarrow> F s h = G s h) \<Longrightarrow>
   concat (map (\<lambda>s. concat (map (F s) [0..<k])) [0..<n]) = concat (map (\<lambda>s. concat (map (G s) [0..<k])) [0..<n])"
  by (intro arg_cong [where f = concat] map_cong refl) auto

lemma slots_values_f16:
  assumes "slots_ok g sh bp bytes" and "sh_type sh = GGML_TYPE_F16"
    and "src = bytes_to_words 2 (storage_elems sh * n) (read_bytes m ptr (storage_elems sh * n * 2))"
  shows "slots_values g sh ptr bytes n m = concat (map (\<lambda>s. concat (map (\<lambda>h.
      map (fp16_to_fp32 g) (take (sh_layer_dim sh) (drop (s * storage_elems sh + h * sh_dim sh) src))) [0..<sh_layer_heads sh])) [0..<n])"
  unfolding slots_values_def slot_values_def assms(3) by (rule concat2_cong) (rule read_head_f16 [OF assms(1,2)])

lemma slots_values_f32:
  assumes "slots_ok g sh bp bytes" and "sh_type sh \<noteq> GGML_TYPE_F16" and "\<not> row_quantized (sh_type sh)"
    and "src = bytes_to_words 4 (storage_elems sh * n) (read_bytes m ptr (storage_elems sh * n * 4))"
  shows "slots_values g sh ptr bytes n m = concat (map (\<lambda>s. concat (map (\<lambda>h.
      take (sh_layer_dim sh) (drop (s * storage_elems sh + h * sh_dim sh) src)) [0..<sh_layer_heads sh])) [0..<n])"
  unfolding slots_values_def slot_values_def assms(4) by (rule concat2_cong) (rule read_head_f32 [OF assms(1-3)])

lemma slots_values_quantized:
  assumes "slots_ok g sh bp bytes" and "row_quantized (sh_type sh)"
  shows "slots_values g sh ptr bytes n m = concat (map (\<lambda>s. concat (map (\<lambda>h.
      take (sh_layer_dim sh) (float_rows g sh ptr (n * sh_heads sh) m ! (s * sh_heads sh + h))) [0..<sh_layer_heads sh])) [0..<n])"
  unfolding slots_values_def slot_values_def by (rule concat2_cong) (rule read_head_quantized [OF assms])

lemma float_rows_lengths:
  "dequantizer_ok g sh \<Longrightarrow> \<forall>row \<in> set (float_rows g sh ptr k m). length row = sh_dim sh"
  "length (float_rows g sh ptr k m) = k"
  by (auto simp: float_rows_def Let_def dequantizer_ok_def)

lemma length_float_row: "dequantizer_ok g sh \<Longrightarrow> i < k \<Longrightarrow> length (float_rows g sh ptr k m ! i) = sh_dim sh"
  by (simp add: float_rows_def Let_def dequantizer_ok_def)

lemma read_uniform_values:
  assumes "slots_ok g sh bp bytes" and "row_quantized (sh_type sh) \<Longrightarrow> dequantizer_ok g sh" and "n * layer_elems sh \<le> length out"
    and "sh_layer_heads sh = sh_heads sh" and "sh_layer_dim sh = sh_dim sh"
  shows "read_uniform g sh ptr n m out = splice_at 0 (slots_values g sh ptr bytes n m) out"
proof -
  have so: "shape_ok sh" using assms(1) by (simp add: slots_ok_def)
  have le: "layer_elems sh = sh_dim sh * sh_heads sh" "storage_elems sh = sh_dim sh * sh_heads sh"
    using assms(4,5) by (simp_all add: layer_elems_def storage_elems_def)
  consider "sh_type sh = GGML_TYPE_F16" | "sh_type sh \<noteq> GGML_TYPE_F16" "\<not> row_quantized (sh_type sh)" | "row_quantized (sh_type sh)" by blast
  then show ?thesis
  proof cases
    case 1
    have "slots_values g sh ptr bytes n m = map (fp16_to_fp32 g) (bytes_to_words 2 (layer_elems sh * n) (read_bytes m ptr (layer_elems sh * n * 2)))"
      using arg_cong [OF concat_uniform, of "map (fp16_to_fp32 g)"]
      unfolding slots_values_f16 [OF assms(1) 1 refl] assms(4,5) le map_concat map_map comp_def by simp
    then show ?thesis using 1 by (simp add: read_uniform_def Let_def)
  next
    case 2
    have "slots_values g sh ptr bytes n m = bytes_to_words 4 (layer_elems sh * n) (read_bytes m ptr (layer_elems sh * n * 4))"
      unfolding slots_values_f32 [OF assms(1) 2 refl] assms(4,5) le concat_uniform by simp
    then show ?thesis using 2 by (simp add: read_uniform_def Let_def)
  next
    case 3
    then have nf: "sh_type sh \<noteq> GGML_TYPE_F16" by (auto simp: row_quantized_def)
    let ?rows = "float_rows g sh ptr (n * sh_heads sh) m"
    have len: "\<forall>i < n * sh_heads sh. length (take (sh_layer_dim sh) (?rows ! i)) = sh_layer_dim sh"
      using length_float_row [OF assms(2) [OF 3]] so by (auto simp: shape_ok_def)
    have "slots_values g sh ptr bytes n m = concat (map (\<lambda>i. take (sh_layer_dim sh) (?rows ! i)) [0..<n * sh_heads sh])"
      unfolding slots_values_quantized [OF assms(1) 3] concat_nested assms(4) ..
    moreover have "enumerate 0 ?rows = map (\<lambda>i. (i, ?rows ! i)) [0..<n * sh_heads sh]"
      by (rule nth_equalityI) (simp_all add: float_rows_lengths nth_enumerate_eq)
    moreover have "0 + n * sh_heads sh * sh_layer_dim sh \<le> length out" using assms(3,5) le by (simp add: mult.commute mult.left_commute)
    ultimately show ?thesis using 3 nf splice_consecutive [OF len, of 0 out]
      by (simp add: read_uniform_def Let_def fold_map comp_def)
  qed
qed

text \<open>All paths of a read return the same values.\<close>

lemma read_slots_values:
  assumes "slots_ok g sh bp bytes" and "row_quantized (sh_type sh) \<Longrightarrow> dequantizer_ok g sh" and "nat num * layer_elems sh \<le> length out"
  shows "read_slots g bulk sh (slot_ptr bp bytes) start num m out =
    (if bp = 0 \<or> num \<le> 0 \<or> start < 0 \<or> 16 < start + num then out
     else splice_at 0 (slots_values g sh (slot_ptr bp bytes start) bytes (nat num) m) out)"
proof (cases "bp = 0 \<or> num \<le> 0 \<or> start < 0 \<or> 16 < start + num")
  case True
  moreover have "read_each_slot g sh (slot_ptr 0 bytes) start n m out = out" for n
    by (induction n) (simp_all add: read_each_slot_def slot_ptr_def read_slot_def)
  ultimately show ?thesis by (auto simp: read_slots_def Let_def slot_ptr_def)
next
  case False
  have so: "shape_ok sh" using assms(1) by (simp add: slots_ok_def)
  have n: "0 \<le> start" "start + int (nat num) \<le> 16" "start + int 0 < 16" using False by auto
  have nz: "slot_ptr bp bytes start \<noteq> 0" using slot_address(2) [OF assms(1) _ n(1,3)] False by simp
  let ?n = "nat num" and ?p = "slot_ptr bp bytes start" and ?t = "storage_elems sh * nat num"
  consider "\<not> bulk" | "bulk" "sh_layer_heads sh = sh_heads sh" "sh_layer_dim sh = sh_dim sh"
    | (packed) "bulk" "sh_layer_heads sh \<noteq> sh_heads sh \<or> sh_layer_dim sh \<noteq> sh_dim sh" by blast
  then show ?thesis
  proof cases
    case 1
    then show ?thesis using False read_each_slot_values [OF assms(1,2) _ n(1,2) assms(3)] by (auto simp: read_slots_def Let_def)
  next
    case 2
    then show ?thesis using False nz read_uniform_values [OF assms(1,2,3)] by (auto simp: read_slots_def Let_def)
  next
    case packed
    let ?rows = "float_rows g sh ?p (?n * sh_heads sh) m"
    have "take (sh_layer_dim sh) (drop (s * storage_elems sh + h * sh_dim sh) (concat ?rows)) = take (sh_layer_dim sh) (?rows ! (s * sh_heads sh + h))"
      if "row_quantized (sh_type sh)" "s < ?n" "h < sh_layer_heads sh" for s h
      using concat_regular [OF float_rows_lengths(1) [OF assms(2) [OF that(1)]], of "s * sh_heads sh + h" ?p "?n * sh_heads sh" m 0 "sh_layer_dim sh"]
        head_in_storage(2) [OF so that(2,3)] so by (simp add: float_rows_lengths shape_ok_def storage_elems_def algebra_simps)
    then have q: "slots_values g sh ?p bytes ?n m = concat (map (\<lambda>s. concat (map (\<lambda>h.
        map id (take (sh_layer_dim sh) (drop (s * storage_elems sh + h * sh_dim sh) (concat ?rows)))) [0..<sh_layer_heads sh])) [0..<?n])"
      if "row_quantized (sh_type sh)" unfolding slots_values_quantized [OF assms(1) that] using that by (intro concat2_cong) simp
    have lq: "length (concat ?rows) = ?t" if "row_quantized (sh_type sh)"
      using length_concat_rows [OF float_rows_lengths(1) [OF assms(2) [OF that]], of ?p "?n * sh_heads sh" m]
      by (simp add: float_rows_lengths(2) storage_elems_def mult.commute mult.left_commute)
    show ?thesis
      using False packed nz q lq slots_values_f16 [OF assms(1) _ refl] slots_values_f32 [OF assms(1) _ _ refl]
      by (auto simp: read_slots_def Let_def ReadLayerSlotsFromF16Storage_def UnpackStorageSlotsToLayerLayout_def unpack_slots_eq [OF so assms(3)]
          row_quantized_def)
  qed
qed

section \<open>Reading back\<close>

lemma read_within:
  assumes "o' + k \<le> length bs" and "length bs \<le> 2 ^ 64"
  shows "read_bytes (write_bytes p bs m) (p + of_nat o') k = take k (drop o' bs)"
proof -
  have "read_bytes (write_bytes p bs m) (p + of_nat o') k = take k (drop o' (read_bytes (write_bytes p bs m) p (length bs)))"
    using assms le_diff_conv2 [of o' "length bs" k] by (simp add: drop_read_bytes take_read_bytes min_def add.commute)
  then show ?thesis using assms by (simp add: read_write_same)
qed

text \<open>The stored form of a head.\<close>

definition kept_head :: "ggml \<Rightarrow> shape \<Rightarrow> u32 list \<Rightarrow> u32 list" where
  "kept_head g sh values =
     (if sh_type sh = GGML_TYPE_F16 then map (\<lambda>x. fp16_to_fp32 g (fp32_to_fp16 g x)) values
      else if row_quantized (sh_type sh)
      then take (sh_layer_dim sh) (ggml_to_float g (sh_type sh)
             (ggml_quantize_chunk g (sh_type sh) (values @ replicate (sh_dim sh - length values) 0) 1 (int (sh_dim sh))) (int (sh_dim sh)))
      else values)"

definition kept_slots :: "ggml \<Rightarrow> shape \<Rightarrow> nat \<Rightarrow> u32 list \<Rightarrow> u32 list" where
  "kept_slots g sh n data = concat (map (\<lambda>s. concat (map (\<lambda>h.
     kept_head g sh (head_of sh (drop (s * layer_elems sh) data) h)) [0..<sh_layer_heads sh])) [0..<n])"

lemma take_words_to_bytes: "length ws = k \<Longrightarrow> take (k * n) (words_to_bytes n (ws @ zs)) = words_to_bytes n ws"
  by simp

lemma image_of_head:
  assumes "slots_ok g sh bp bytes" and "s < n" and "h < sh_heads sh" and "k \<le> head_bytes g sh"
  shows "take k (drop (s * unat bytes + h * head_bytes g sh) (slots_image g sh n data)) =
    take k (head_image g sh (drop (s * layer_elems sh) data) h)"
proof -
  have so: "shape_ok sh" "row_quantized (sh_type sh) \<Longrightarrow> quantizer_ok g sh" and b: "unat bytes = sh_heads sh * head_bytes g sh"
    using assms(1) by (auto simp: slots_ok_def)
  have "Suc h * head_bytes g sh \<le> sh_heads sh * head_bytes g sh" using assms(3) by (intro mult_right_mono) auto
  then have "h * head_bytes g sh + k \<le> unat bytes" using assms(4) b by simp
  then have "take k (drop (s * unat bytes + h * head_bytes g sh) (slots_image g sh n data)) =
      take k (drop (h * head_bytes g sh) (slot_image g sh (drop (s * layer_elems sh) data)))"
    unfolding slots_image_def using concat_regular [of "map (\<lambda>i. slot_image g sh (drop (i * layer_elems sh) data)) [0..<n]" "unat bytes" s]
      length_slot_image [OF so] b assms(2) by simp
  also have "\<dots> = take k (head_image g sh (drop (s * layer_elems sh) data) h)"
    unfolding slot_image_def using concat_regular [of "map (head_image g sh (drop (s * layer_elems sh) data)) [0..<sh_heads sh]" "head_bytes g sh" h 0 k]
      length_head_image [OF so] assms(3,4) by simp
  finally show ?thesis .
qed

lemma read_back_head:
  assumes "slots_ok g sh bp bytes" and "s < n" and "h < sh_layer_heads sh" and "n * layer_elems sh \<le> length data" and "n * unat bytes \<le> 2 ^ 64"
  shows "read_head g sh (p + of_nat (s * unat bytes)) (write_bytes p (slots_image g sh n data) m) h =
    kept_head g sh (head_of sh (drop (s * layer_elems sh) data) h)"
proof -
  let ?img = "slots_image g sh n data" and ?d = "drop (s * layer_elems sh) data"
  have so: "shape_ok sh" "row_quantized (sh_type sh) \<Longrightarrow> quantizer_ok g sh" and b: "unat bytes = sh_heads sh * head_bytes g sh"
    using assms(1) by (auto simp: slots_ok_def)
  have h: "h < sh_heads sh" using so(1) assms(3) by (simp add: shape_ok_def)
  have li: "length ?img = n * unat bytes"
    unfolding slots_image_def b using length_slot_image [OF so] by (intro length_concat_const) auto
  have fit: "s * unat bytes + h * head_bytes g sh + head_bytes g sh \<le> length ?img"
  proof -
    have "Suc s * unat bytes \<le> n * unat bytes" "Suc h * head_bytes g sh \<le> sh_heads sh * head_bytes g sh"
      using assms(2) h by (intro mult_right_mono; simp)+
    then show ?thesis unfolding li using b by simp
  qed
  have rd: "read_bytes (write_bytes p ?img m) (p + of_nat (s * unat bytes) + of_nat (h * head_bytes g sh)) k = take k (head_image g sh ?d h)"
    if "k \<le> head_bytes g sh" for k
    using read_within [of "s * unat bytes + h * head_bytes g sh" k ?img p m] that fit li assms(5) image_of_head [OF assms(1,2) h that, of data]
    by (simp add: add.assoc)
  have lh: "length (head_of sh ?d h) = sh_layer_dim sh"
  proof -
    have "Suc s * layer_elems sh \<le> n * layer_elems sh" "Suc h * sh_layer_dim sh \<le> sh_layer_heads sh * sh_layer_dim sh"
      using assms(2,3) by (intro mult_right_mono; simp)+
    then show ?thesis using assms(4) by (simp add: head_of_def layer_elems_def mult.commute)
  qed
  have ld: "sh_layer_dim sh \<le> sh_dim sh" using so(1) by (simp add: shape_ok_def)
  consider "sh_type sh = GGML_TYPE_F16" | "row_quantized (sh_type sh)" "sh_type sh \<noteq> GGML_TYPE_F16"
    | "sh_type sh \<noteq> GGML_TYPE_F16" "\<not> row_quantized (sh_type sh)" by blast
  then show ?thesis
  proof cases
    case 1
    then have hb: "head_bytes g sh = sh_dim sh * 2" by (simp add: head_bytes_def)
    show ?thesis using 1 rd [of "sh_layer_dim sh * 2"] hb ld lh assms(3)
        bytes_to_words_to_bytes [of 2 "map (fp32_to_fp16 g) (head_of sh ?d h)" "[]"]
      by (simp add: read_head_def kept_head_def head_image_def padded_head_def Let_def mult.assoc comp_def)
  next
    case 2
    then have hb: "head_bytes g sh = unat (ggml_row_size g (sh_type sh) (int (sh_dim sh)))" by (simp add: head_bytes_def)
    show ?thesis using 2 rd [of "head_bytes g sh"] hb lh assms(3) length_head_image [OF so, of ?d h]
      by (simp add: read_head_def kept_head_def head_image_def padded_head_def Let_def)
  next
    case 3
    then have hb: "head_bytes g sh = sh_dim sh * 4" by (simp add: head_bytes_def)
    show ?thesis using 3 rd [of "sh_layer_dim sh * 4"] hb ld lh assms(3) bytes_to_words_to_bytes [of 4 "head_of sh ?d h" "[]"]
      by (simp add: read_head_def kept_head_def head_image_def padded_head_def Let_def mult.assoc)
  qed
qed

lemma read_back_slots:
  assumes "slots_ok g sh bp bytes" and "n * layer_elems sh \<le> length data" and "n * unat bytes \<le> 2 ^ 64"
  shows "slots_values g sh p bytes n (write_bytes p (slots_image g sh n data) m) = kept_slots g sh n data"
  unfolding slots_values_def slot_values_def kept_slots_def
  by (rule concat2_cong) (rule read_back_head [OF assms(1) _ _ assms(2,3)])

section \<open>Slots of an initialised cache\<close>

lemma fold_max_ge: "x \<in> insert a (set xs) \<Longrightarrow> x \<le> fold max xs (a :: int)"
proof -
  have "fold max xs a = Max (insert a (set xs))" by (metis List.finite_set Max.set_eq_fold list.simps(15))
  then show "x \<in> insert a (set xs) \<Longrightarrow> x \<le> fold max xs a" by simp
qed

definition layers_fit :: "paged_kv_cache \<Rightarrow> bool" where
  "layers_fit c \<longleftrightarrow> (\<forall>d \<in> set (layer_head_dims c). d \<le> kc_head_dim c) \<and> (\<forall>d \<in> set (layer_v_head_dims c). d \<le> kc_v_head_dim c) \<and>
     (0 < kc_n_head_kv c \<longrightarrow> (\<forall>h \<in> set (layer_n_head_kv c). h \<le> kc_n_head_kv c))"

lemma layers_fit_getters:
  assumes "layers_fit c" and "0 < kc_n_head_kv c"
  shows "shape_ok (k_shape c l)" and "shape_ok (v_shape c l)"
proof -
  have "GetHeadDimForLayer c l \<le> kc_head_dim c" "GetVHeadDimForLayer c l \<le> kc_v_head_dim c" "GetHeadCountForLayer c l \<le> kc_n_head_kv c"
    using assms by (auto simp: layers_fit_def GetHeadDimForLayer_def GetVHeadDimForLayer_def GetHeadCountForLayer_def nat_less_iff)
  then show "shape_ok (k_shape c l)" "shape_ok (v_shape c l)"
    by (simp_all add: shape_ok_def k_shape_def v_shape_def nat_mono)
qed

lemma layers_fit_base: "layers_fit (base_dims md c)"
  by (auto simp: layers_fit_def base_dims_def Let_def)

lemma layers_fit_heads:
  assumes "layers_fit c"
  shows "layers_fit (gemma4_heads md c)"
proof (cases "km_layer_n_head_kv md = []")
  case False
  then have "kc_n_head_kv (gemma4_heads md c) = fold max (layer_n_head_kv (gemma4_heads md c)) (max 1 (kc_n_head_kv c))"
    by (simp add: gemma4_heads_def Let_def)
  moreover have "layer_head_dims (gemma4_heads md c) = layer_head_dims c" "kc_head_dim (gemma4_heads md c) = kc_head_dim c"
    "layer_v_head_dims (gemma4_heads md c) = layer_v_head_dims c" "kc_v_head_dim (gemma4_heads md c) = kc_v_head_dim c"
    by (simp_all add: gemma4_heads_def Let_def)
  ultimately show ?thesis using assms fold_max_ge by (simp add: layers_fit_def)
qed (simp add: gemma4_heads_def assms)

lemma layers_fit_dims:
  assumes "layers_fit c"
  shows "layers_fit (gemma4_dims md c)"
proof -
  let ?c = "gemma4_dims md c"
  have le: "x \<le> fold max (tl xs) (hd xs)" if "x \<in> set xs" for xs :: "int list" and x
    using that fold_max_ge [of x "hd xs" "tl xs"] by (cases xs) auto
  have "kc_head_dim ?c = fold max (tl (layer_head_dims ?c)) (hd (layer_head_dims ?c))"
    "kc_v_head_dim ?c = fold max (tl (layer_v_head_dims ?c)) (hd (layer_v_head_dims ?c))"
    "layer_n_head_kv ?c = layer_n_head_kv c" "kc_n_head_kv ?c = kc_n_head_kv c"
    by (simp_all add: gemma4_dims_def Let_def)
  then show ?thesis using assms le by (simp add: layers_fit_def)
qed

lemma layers_fit_cong:
  assumes "kc_head_dim c' = kc_head_dim c" "kc_v_head_dim c' = kc_v_head_dim c" "kc_n_head_kv c' = kc_n_head_kv c"
    "layer_n_head_kv c' = layer_n_head_kv c" "layer_head_dims c' = layer_head_dims c" "layer_v_head_dims c' = layer_v_head_dims c"
  shows "layers_fit c' = layers_fit c"
  using assms by (simp add: layers_fit_def)

lemma InitPagedKVCache_layers_fit:
  assumes "InitPagedKVCache g hugep ko vo io rnd busy md seqs len ty node = InitOk c"
  shows "layers_fit c"
proof -
  obtain c0 c1 mb where c1: "c1 = set_geometry g ((typed_cache g ty node md (model_dims md c0))\<lparr>kc_max_blocks := mb, kc_block_manager := BlockManager mb 16 rnd busy\<rparr>)"
    and c: "c = (attach_arenas ko vo io node hugep c1)\<lparr>use_block_allocator := True\<rparr>"
    using InitPagedKVCache_cases [OF assms] by blast
  have "layers_fit (model_dims md c0)"
    using layers_fit_base layers_fit_dims [OF layers_fit_heads [OF layers_fit_base]] by (simp add: model_dims_def)
  then show ?thesis
    using layers_fit_cong [of c "model_dims md c0"] by (simp add: c attach_arenas_def Let_def c1 set_geometry_def typed_cache_def)
qed

text \<open>
  What the code relies on of ggml: the row sizes of the float types, and rows quantised and dequantised on their own. The
  last condition says that the sixteen slots of a block are no larger than the address space.
\<close>

definition ggml_ok :: "ggml \<Rightarrow> shape \<Rightarrow> bool" where
  "ggml_ok g sh \<longleftrightarrow> (\<forall>n. 0 < n \<longrightarrow> ggml_row_size g GGML_TYPE_F16 n = of_int (2 * n) \<and> ggml_row_size g GGML_TYPE_F32 n = of_int (4 * n)) \<and>
     (row_quantized (sh_type sh) \<longrightarrow> quantizer_ok g sh \<and> dequantizer_ok g sh) \<and> 16 * (sh_heads sh * head_bytes g sh) < 2 ^ 64"

lemma unat_of_int_64: "0 \<le> i \<Longrightarrow> nat i < 2 ^ 64 \<Longrightarrow> unat (of_int i :: u64) = nat i"
  using unat_of_nat_64 [of "nat i"] by simp

lemma slot_bytes_eq:
  assumes "sh_type sh = ty" "sh_dim sh = nat dim" "sh_heads sh = nat heads" and "0 < dim" and "0 < heads" and "ggml_ok g sh"
    and "row_quantized ty \<or> ty = GGML_TYPE_F16 \<or> ty = GGML_TYPE_F32"
  shows "unat (slot_bytes g ty dim heads) = sh_heads sh * head_bytes g sh"
proof -
  have lt: "sh_heads sh * head_bytes g sh < 2 ^ 64" and p: "0 < dim * heads" using assms(4-6) by (simp_all add: ggml_ok_def)
  consider "row_quantized ty" | "ty = GGML_TYPE_F16" | "ty = GGML_TYPE_F32" using assms(7) by blast
  then show ?thesis
  proof cases
    case 1
    then have "head_bytes g sh = unat (ggml_row_size g ty dim)"
      using assms(1-4) by (auto simp: head_bytes_def row_quantized_def)
    then show ?thesis using 1 p lt unat_of_nat_mult [of "nat heads" "ggml_row_size g ty dim"] assms(3,5)
      by (simp add: slot_bytes_def Let_def mult.commute)
  next
    case 2
    then have "nat (2 * (dim * heads)) = sh_heads sh * head_bytes g sh"
      using assms(1-5) by (simp add: head_bytes_def nat_mult_distrib)
    then show ?thesis using 2 p lt assms(6) unat_of_int_64 [of "2 * (dim * heads)"]
      by (simp add: slot_bytes_def Let_def row_quantized_def ggml_ok_def)
  next
    case 3
    then have "nat (4 * (dim * heads)) = sh_heads sh * head_bytes g sh"
      using assms(1-5) by (simp add: head_bytes_def nat_mult_distrib row_quantized_def)
    then show ?thesis using 3 p lt assms(6) unat_of_int_64 [of "4 * (dim * heads)"]
      by (simp add: slot_bytes_def Let_def row_quantized_def ggml_ok_def)
  qed
qed

lemma InitPagedKVCache_slot_fields:
  assumes "InitPagedKVCache g hugep ko vo io rnd busy md seqs len ty node = InitOk c"
  shows "row_quantized (cache_type c) \<or> cache_type c = GGML_TYPE_F16 \<or> cache_type c = GGML_TYPE_F32"
    and "GetBytesPerSlot g c = slot_bytes g (cache_type c) (kc_head_dim c) (kc_n_head_kv c)"
    and "GetVBytesPerSlot g c = slot_bytes g (cache_type c) (kc_v_head_dim c) (kc_n_head_kv c)"
    and "GetBytesPerBlock g c = GetBytesPerSlot g c * 16" and "GetVBytesPerBlock g c = GetVBytesPerSlot g c * 16"
proof -
  obtain c0 c1 mb where c0: "c0 = empty_cache (BlockManager 0 16 rnd busy)"
    and c1: "c1 = set_geometry g ((typed_cache g ty node md (model_dims md c0))\<lparr>kc_max_blocks := mb, kc_block_manager := BlockManager mb 16 rnd busy\<rparr>)"
    and c: "c = (attach_arenas ko vo io node hugep c1)\<lparr>use_block_allocator := True\<rparr>"
    using InitPagedKVCache_cases [OF assms] by blast
  have z: "k_bytes_per_slot (model_dims md c0) = 0" "v_bytes_per_slot (model_dims md c0) = 0"
    by (simp_all add: model_dims_def base_dims_def gemma4_dims_def gemma4_heads_def Let_def c0 empty_cache_def)
  let ?d = "(typed_cache g ty node md (model_dims md c0))\<lparr>kc_max_blocks := mb, kc_block_manager := BlockManager mb 16 rnd busy\<rparr>"
  have d: "k_bytes_per_slot ?d = 0" "v_bytes_per_slot ?d = 0" using z by (simp_all add: typed_cache_def)
  have f: "cache_type c = cache_type ?d" "kc_head_dim c = kc_head_dim ?d" "kc_v_head_dim c = kc_v_head_dim ?d" "kc_n_head_kv c = kc_n_head_kv ?d"
    by (simp_all add: c attach_arenas_def Let_def c1 set_geometry_def)
  have k: "k_bytes_per_slot c = slot_bytes g (cache_type ?d) (kc_head_dim ?d) (kc_n_head_kv ?d)"
    "v_bytes_per_slot c = slot_bytes g (cache_type ?d) (kc_v_head_dim ?d) (kc_n_head_kv ?d)"
    "k_bytes_per_block c = k_bytes_per_slot c * 16" "v_bytes_per_block c = v_bytes_per_slot c * 16"
    unfolding c c1 using d by (simp_all add: attach_arenas_def Let_def set_geometry_def GetBytesPerSlot_def GetVBytesPerSlot_def)
  show "row_quantized (cache_type c) \<or> cache_type c = GGML_TYPE_F16 \<or> cache_type c = GGML_TYPE_F32"
    unfolding f by (auto simp: typed_cache_def effective_type_def row_quantized_def Let_def)
  show "GetBytesPerSlot g c = slot_bytes g (cache_type c) (kc_head_dim c) (kc_n_head_kv c)"
    "GetVBytesPerSlot g c = slot_bytes g (cache_type c) (kc_v_head_dim c) (kc_n_head_kv c)"
    unfolding f using k(1,2) by (simp_all add: GetBytesPerSlot_def GetVBytesPerSlot_def f)
  then show "GetBytesPerBlock g c = GetBytesPerSlot g c * 16" "GetVBytesPerBlock g c = GetVBytesPerSlot g c * 16"
    using k f by (simp_all add: GetBytesPerBlock_def GetVBytesPerBlock_def)
qed

lemma plane_slots_ok:
  assumes "storage_ok g c" and "p \<in> set (plane_list c)" and "block_in_layer c b l" and "plane_bytes g c p = bytes * 16"
    and "shape_ok sh" and "ggml_ok g sh" and "unat bytes = sh_heads sh * head_bytes g sh"
  shows "slots_ok g sh (plane_ptr g c p b l) bytes"
proof -
  have "unat (plane_bytes g c p) = 16 * unat bytes"
    using unat_of_nat_mult [of 16 bytes] assms(4,6,7) by (simp add: ggml_ok_def mult.commute)
  moreover have "unat (plane_ptr g c p b l) + unat (plane_bytes g c p) \<le> 2 ^ 64"
    using unat_plane_ptr [OF assms(1-3)] assms(1,2) by (auto simp: storage_ok_def)
  ultimately show ?thesis using assms(5-7) by (simp add: slots_ok_def ggml_ok_def)
qed

lemma kv_slots_ok:
  assumes "InitPagedKVCache g hugep ko vo io rnd busy md seqs len ty node = InitOk c" and "arenas_separate g c"
    and "0 < kc_n_head_kv c" and "block_in_layer c b l"
  shows "0 < kc_head_dim c \<Longrightarrow> ggml_ok g (k_shape c l) \<Longrightarrow> slots_ok g (k_shape c l) (GetKBlockPtr g c b l) (GetBytesPerSlot g c)"
    and "0 < kc_v_head_dim c \<Longrightarrow> ggml_ok g (v_shape c l) \<Longrightarrow> slots_ok g (v_shape c l) (GetVBlockPtr g c b l) (GetVBytesPerSlot g c)"
proof -
  note I = InitPagedKVCache_slot_fields [OF assms(1)]
  note so = InitPagedKVCache_storage_ok [OF assms(1,2)] and fit = layers_fit_getters [OF InitPagedKVCache_layers_fit [OF assms(1)] assms(3)]
  have p: "KPlane \<in> set (plane_list c)" "VPlane \<in> set (plane_list c)" by (simp_all add: plane_list_def)
  assume "0 < kc_head_dim c" and g: "ggml_ok g (k_shape c l)"
  then have "unat (GetBytesPerSlot g c) = sh_heads (k_shape c l) * head_bytes g (k_shape c l)"
    using slot_bytes_eq [of "k_shape c l" _ "kc_head_dim c" "kc_n_head_kv c" g] I(1) assms(3) by (simp add: I(2) k_shape_def)
  then show "slots_ok g (k_shape c l) (GetKBlockPtr g c b l) (GetBytesPerSlot g c)"
    using plane_slots_ok [OF so p(1) assms(4) _ fit(1) g] I(4) by simp
next
  note I = InitPagedKVCache_slot_fields [OF assms(1)]
  note so = InitPagedKVCache_storage_ok [OF assms(1,2)] and fit = layers_fit_getters [OF InitPagedKVCache_layers_fit [OF assms(1)] assms(3)]
  have p: "VPlane \<in> set (plane_list c)" by (simp add: plane_list_def)
  assume "0 < kc_v_head_dim c" and g: "ggml_ok g (v_shape c l)"
  then have "unat (GetVBytesPerSlot g c) = sh_heads (v_shape c l) * head_bytes g (v_shape c l)"
    using slot_bytes_eq [of "v_shape c l" _ "kc_v_head_dim c" "kc_n_head_kv c" g] I(1) assms(3) by (simp add: I(3) v_shape_def)
  then show "slots_ok g (v_shape c l) (GetVBlockPtr g c b l) (GetVBytesPerSlot g c)"
    using plane_slots_ok [OF so p assms(4) _ fit(2) g] I(5) by simp
qed

lemma slots_read_back:
  assumes "slots_ok g sh bp bytes" and "ggml_ok g sh" and "bp \<noteq> 0" and "0 \<le> start" and "0 < num" and "start + num \<le> 16"
    and "length data = nat num * layer_elems sh" and "length data \<le> length out"
  shows "read_slots g r sh (slot_ptr bp bytes) start num (write_slots g w sh (slot_ptr bp bytes) start num data m) out =
    splice_at 0 (kept_slots g sh (nat num) data) out"
proof -
  have "nat num * unat bytes \<le> 2 ^ 64" using slots_bytes_bound [OF assms(1,4), of "nat num"] assms(5,6) by simp
  then show ?thesis
    using write_slots_image [OF assms(1), of num data w start m] read_slots_values [OF assms(1), of num out r start] read_back_slots [OF assms(1), of "nat num" data]
      assms(2-8) by (simp add: ggml_ok_def)
qed

lemma kept_slots_f32:
  assumes "sh_type sh = GGML_TYPE_F32" and "length data = n * layer_elems sh"
  shows "kept_slots g sh n data = data"
proof -
  have "kept_slots g sh n data = concat (map (\<lambda>s. concat (map (\<lambda>h. take (sh_layer_dim sh)
      (drop (s * (sh_layer_dim sh * sh_layer_heads sh) + h * sh_layer_dim sh) data)) [0..<sh_layer_heads sh])) [0..<n])"
    using assms(1) by (simp add: kept_slots_def kept_head_def head_of_def layer_elems_def row_quantized_def add.commute)
  then show ?thesis using assms(2) unfolding concat_uniform by (simp add: layer_elems_def mult.commute)
qed

end
