(* ===== verification/Storage_Properties.thy ===== *)
theory Storage_Properties
  imports Slot_Laws Block_Manager_Laws
begin

text \<open>
  The promises of the paged storage: where blocks lie, that reading gives back what was written, that the bulk paths agree
  with the slot-by-slot ones, and that a swapped sequence comes back unchanged.
\<close>

section \<open>A concrete cache\<close>

text \<open>
  A model of two layers, the first with sliding attention and narrower heads; the cache holds floats in four blocks.
  The conversions of the sample ggml keep the upper bits of a float.
\<close>

definition sample_ggml :: ggml where
  "sample_ggml =
     \<lparr>ggml_row_size = (\<lambda>ty n. if ty = GGML_TYPE_F32 then of_int (4 * n) else if ty = GGML_TYPE_F16 then of_int (2 * n) else of_int n),
      ggml_blck_size = (\<lambda>ty. if ty = GGML_TYPE_F32 \<or> ty = GGML_TYPE_F16 then 1 else 2),
      ggml_is_quantized = (\<lambda>ty. ty \<noteq> GGML_TYPE_F32 \<and> ty \<noteq> GGML_TYPE_F16),
      ggml_quantize_chunk = (\<lambda>_ xs _ _. map (\<lambda>x. ucast (drop_bit 24 x)) xs),
      ggml_to_float = (\<lambda>_ bs n. map (\<lambda>i. push_bit 24 (ucast (if i < length bs then bs ! i else 0))) [0..<nat n]),
      fp32_to_fp16 = (\<lambda>x. ucast (drop_bit 16 x)), fp16_to_fp32 = (\<lambda>x. push_bit 16 (ucast x))\<rparr>"

definition sample_model :: kv_model where
  "sample_model =
     \<lparr>km_is_bert = False, km_is_glm_dsa = False, km_is_gemma4 = True, km_n_embd_head_k = 4, km_n_embd_head_v = 2,
      km_n_head_kv = 2, km_n_layer = 2, km_glm_index_head_dim = 0, km_layer_n_head_kv = [1, 2], km_layer_is_sliding = [1, 0],
      km_key_length_full = 4, km_value_length_full = 2, km_key_length_swa = 2, km_value_length_swa = 2\<rparr>"

definition sample_arena :: "u64 \<Rightarrow> arena_outcome" where
  "sample_arena p = \<lparr>hugepage_arena = 0, hugepage_bytes = 0, numa_arena = 0, mmap_arena = p, aligned_arena = 0\<rparr>"

definition sample_init :: kv_init where
  "sample_init = InitPagedKVCache sample_ggml False (sample_arena 65536) (sample_arena 131072) (sample_arena 0) (\<lambda>_. 0) (\<lambda>_ _. False)
     sample_model 2 32 GGML_TYPE_F32 (-1)"

definition sample_cache :: paged_kv_cache where
  "sample_cache = (case sample_init of InitOk c \<Rightarrow> c | _ \<Rightarrow> empty_cache (BlockManager 0 16 (\<lambda>_. 0) (\<lambda>_ _. False)))"

lemma sample_init_ok: "sample_init = InitOk sample_cache"
proof -
  have "case sample_init of InitOk _ \<Rightarrow> True | _ \<Rightarrow> False" by code_simp
  then obtain c where c: "sample_init = InitOk c" by (cases sample_init) simp_all
  show ?thesis unfolding sample_cache_def c kv_init.case ..
qed

lemmas sample_ok = sample_init_ok [unfolded sample_init_def]

lemma sample_fields:
  "kc_max_blocks sample_cache = 4" "kc_n_layer sample_cache = 2" "kc_head_dim sample_cache = 4" "kc_v_head_dim sample_cache = 2"
  "kc_n_head_kv sample_cache = 2" "has_index_cache sample_cache = False" "cache_type sample_cache = GGML_TYPE_F32"
  by code_simp+

lemma sample_planes:
  "plane_list sample_cache = [KPlane, VPlane]" "plane_base sample_cache KPlane = 65536" "plane_base sample_cache VPlane = 131072"
  "plane_bytes sample_ggml sample_cache KPlane = 512" "plane_bytes sample_ggml sample_cache VPlane = 256"
  "arena_extent sample_cache KPlane = 4096" "arena_extent sample_cache VPlane = 2048"
  by code_simp+

lemma sample_separate: "arenas_separate sample_ggml sample_cache"
  using sample_planes by (simp add: arenas_separate_def apart_def)

lemma sample_shapes:
  "k_shape sample_cache 0 = \<lparr>sh_type = GGML_TYPE_F32, sh_dim = 4, sh_heads = 2, sh_layer_dim = 2, sh_layer_heads = 1\<rparr>"
  "v_shape sample_cache 0 = \<lparr>sh_type = GGML_TYPE_F32, sh_dim = 2, sh_heads = 2, sh_layer_dim = 2, sh_layer_heads = 1\<rparr>"
  by code_simp+

lemma sample_ggml_ok: "ggml_ok sample_ggml (k_shape sample_cache 0)" "ggml_ok sample_ggml (v_shape sample_cache 0)"
  by (simp_all add: ggml_ok_def sample_shapes sample_ggml_def row_quantized_def head_bytes_def)

section \<open>Where the blocks lie\<close>

lemma InitPagedKVCache_manager: 
  assumes "InitPagedKVCache g hugep ko vo io rnd busy md seqs len ty node = InitOk c"
  shows "bm_inv (kc_block_manager c)" and "num_blocks (kc_block_manager c) = kc_max_blocks c"
proof -
  have "bm_inv (BlockManager (kc_max_blocks c) 16 rnd busy)" 
    by (rule BlockManager_inv) (use InitPagedKVCache_capacity(1) [OF assms] in simp_all)
  then show "bm_inv (kc_block_manager c)" "num_blocks (kc_block_manager c) = kc_max_blocks c"
    by (simp_all add: InitPagedKVCache_ok(8) [OF assms] BlockManager_def Let_def)
qed

text \<open>The arena the system granted for a plane; the size asked for does not wrap around, huge pages are granted in at least
  that size, and the granted arenas lie in the address space and do not meet.\<close>

fun plane_outcome :: "arena_outcome \<Rightarrow> arena_outcome \<Rightarrow> arena_outcome \<Rightarrow> plane \<Rightarrow> arena_outcome" where
  "plane_outcome ko vo io KPlane = ko"
| "plane_outcome ko vo io VPlane = vo"
| "plane_outcome ko vo io IndexPlane = io"

definition plane_arena_size :: "paged_kv_cache \<Rightarrow> plane \<Rightarrow> nat" where
  "plane_arena_size c p = (case plane_allocator c p of Some a \<Rightarrow> unat (arena_size a) | None \<Rightarrow> 0)"

definition arenas_granted :: "ggml \<Rightarrow> paged_kv_cache \<Rightarrow> bool" where
  "arenas_granted g c \<longleftrightarrow>
     (\<forall>p \<in> set (plane_list c). unat (plane_base c p) + plane_arena_size c p \<le> 2 ^ 64 \<and>
        (\<forall>q \<in> set (plane_list c). p \<noteq> q \<longrightarrow> apart (plane_base c p) (plane_arena_size c p) (plane_base c q) (plane_arena_size c q)))"

definition no_size_overflow :: "ggml \<Rightarrow> paged_kv_cache \<Rightarrow> bool" where
  "no_size_overflow g c \<longleftrightarrow>
     (\<forall>p \<in> set (plane_list c). unat (plane_bytes g c p) + 64 \<le> 2 ^ 64 \<and> arena_extent c p < 2 ^ 64)"

definition hugepages_suffice :: "(plane \<Rightarrow> arena_outcome) \<Rightarrow> paged_kv_cache \<Rightarrow> bool" where
  "hugepages_suffice outcome c \<longleftrightarrow>
     (\<forall>p \<in> set (plane_list c). hugepage_bytes (outcome p) = 0 \<or> arena_extent c p \<le> unat (hugepage_bytes (outcome p)))"

lemma plane_allocator_outcome:
  assumes "InitPagedKVCache g hugep ko vo io rnd busy md seqs len ty node = InitOk c" and "p \<in> set (plane_list c)"
  shows "plane_allocator c p = Some (KVBlockAllocator (of_int (kc_max_blocks c * kc_n_layer c)) (plane_recorded_bytes c p) 64
      node hugep (0 \<le> node) (plane_outcome ko vo io p))"
proof -
  obtain c1 where c: "c = (attach_arenas ko vo io node hugep c1)\<lparr>use_block_allocator := True\<rparr>"
    by (rule InitPagedKVCache_cases [OF assms(1)]) blast
  then show ?thesis using assms(2) by (cases p) (auto simp: c attach_arenas_def Let_def plane_list_def)
qed

lemma arena_size_suffices:
  assumes "InitPagedKVCache g hugep ko vo io rnd busy md seqs len ty node = InitOk c" and "no_size_overflow g c"
    and "hugepages_suffice (plane_outcome ko vo io) c" and "p \<in> set (plane_list c)"
  shows "arena_extent c p \<le> plane_arena_size c p"
proof -
  let ?n = "of_int (kc_max_blocks c * kc_n_layer c) :: u64" and ?s = "plane_recorded_bytes c p" and ?o = "plane_outcome ko vo io p"
  note a = plane_allocator_outcome [OF assms(1,4)]
  have s: "?s \<noteq> 0" using InitPagedKVCache_ok(9) [OF assms(1,4)] by simp
  have e: "arena_extent c p = unat ?n * unat (AlignUp ?s 64)" by (simp add: arena_extent_def a KVBlockAllocator_fields)
  then have "unat ?n * unat (AlignUp ?s 64) < 2 ^ 64" using assms(2,4) by (auto simp: no_size_overflow_def)
  then have m: "unat (?n * AlignUp ?s 64) = arena_extent c p" unfolding e using unat_mult_lem [of ?n "AlignUp ?s 64"] by simp
  show ?thesis
  proof (cases "?n = 0")
    case True
    then show ?thesis by (simp add: e)
  next
    case False
    have h: "hugepage_bytes ?o = 0 \<or> arena_extent c p \<le> unat (hugepage_bytes ?o)" using assms(3,4) by (auto simp: hugepages_suffice_def)
    show ?thesis using h m unfolding plane_arena_size_def a option.case KVBlockAllocator_arena_size [OF False s] by (auto simp: word_gt_0)
  qed
qed

lemma granted_separate:
  assumes "InitPagedKVCache g hugep ko vo io rnd busy md seqs len ty node = InitOk c" and "no_size_overflow g c"
    and "hugepages_suffice (plane_outcome ko vo io) c" and "arenas_granted g c"
  shows "arenas_separate g c"
proof -
  have E: "arena_extent c p \<le> plane_arena_size c p" if "p \<in> set (plane_list c)" for p
    by (rule arena_size_suffices [OF assms(1-3) that])
  have "unat (plane_base c p) + arena_extent c p \<le> 2 ^ 64" if "p \<in> set (plane_list c)" for p
    using E [OF that] assms(4) that unfolding arenas_granted_def by fastforce
  moreover have "apart (plane_base c p) (arena_extent c p) (plane_base c q) (arena_extent c q)"
    if "p \<in> set (plane_list c)" "q \<in> set (plane_list c)" "p \<noteq> q" for p q
  proof -
    have "apart (plane_base c p) (plane_arena_size c p) (plane_base c q) (plane_arena_size c q)"
      using assms(4) that unfolding arenas_granted_def by blast
    then show ?thesis using E [OF that(1)] E [OF that(2)] by (auto simp: apart_def)
  qed
  ultimately show ?thesis using assms(2) by (simp add: arenas_separate_def no_size_overflow_def)
qed

text \<open>C30: A successful set-up gives enough blocks for the requested tokens, with less than one block to spare, and a
  well-formed block manager over them. Provided that the number of blocks times the aligned stride does not overflow 64 bits
  (the allocator does not check), that huge pages come in at least the size asked for, and that the arenas the system
  granted do not meet, the size the allocator records for a plane covers all its strides, every block of every layer and plane lies
  inside that size, and two different ones never overlap: no write to one block reaches another.\<close>

theorem kv_arena_geometry:
  assumes "InitPagedKVCache g hugep ko vo io rnd busy md seqs len ty node = InitOk c" and "no_size_overflow g c"
    and "hugepages_suffice (plane_outcome ko vo io) c" and "arenas_granted g c"
    and "p \<in> set (plane_list c)" and "q \<in> set (plane_list c)" and "block_in_layer c b l" and "block_in_layer c b' l'"
    and "plane_allocator c p = Some a"
  shows "seqs * len \<le> kc_max_blocks c * 16 \<and> kc_max_blocks c * 16 < seqs * len + 16 \<and>
    bm_inv (kc_block_manager c) \<and> num_blocks (kc_block_manager c) = kc_max_blocks c \<and>
    unat (kvb_num_blocks a) * unat (block_stride a) \<le> unat (arena_size a) \<and>
    plane_ptr g c p b l \<noteq> 0 \<and> unat (arena a) \<le> unat (plane_ptr g c p b l) \<and>
    unat (plane_ptr g c p b l) + unat (plane_bytes g c p) \<le> unat (arena a) + unat (arena_size a) \<and>
    ((p, b, l) \<noteq> (q, b', l') \<longrightarrow>
      apart (plane_ptr g c p b l) (unat (plane_bytes g c p)) (plane_ptr g c q b' l') (unat (plane_bytes g c q)))"
proof -
  note sep = granted_separate [OF assms(1-4)]
  note so = InitPagedKVCache_storage_ok [OF assms(1) sep]
  have z: "arena_extent c p \<le> plane_arena_size c p" by (rule arena_size_suffices [OF assms(1-3,5)])
  have f: "plane_base c p = arena a" "plane_arena_size c p = unat (arena_size a)" "arena_extent c p = unat (kvb_num_blocks a) * unat (block_stride a)"
    using assms(9) by (simp_all add: plane_base_def plane_arena_size_def arena_extent_def)
  show ?thesis
    using InitPagedKVCache_capacity(2,3) [OF assms(1)] InitPagedKVCache_manager [OF assms(1)] plane_ptr_nonzero [OF so assms(5,7)]
      unat_plane_ptr [OF so assms(5,7)] plane_in_arena [OF assms(1) sep assms(5)] plane_blocks_apart [OF so assms(5-8)] z unfolding f by auto
qed

lemma sample_granted: "arenas_granted sample_ggml sample_cache" "no_size_overflow sample_ggml sample_cache"
  "hugepages_suffice (plane_outcome (sample_arena 65536) (sample_arena 131072) (sample_arena 0)) sample_cache"
proof -
  have "plane_arena_size sample_cache KPlane = 4096" "plane_arena_size sample_cache VPlane = 2048" by code_simp+
  then show "arenas_granted sample_ggml sample_cache" using sample_planes by (simp add: arenas_granted_def apart_def)
  show "no_size_overflow sample_ggml sample_cache" using sample_planes by (simp add: no_size_overflow_def)
  show "hugepages_suffice (plane_outcome (sample_arena 65536) (sample_arena 131072) (sample_arena 0)) sample_cache"
    using sample_planes(1) by (simp add: hugepages_suffice_def sample_arena_def)
qed

theorem kv_arena_geometry_witness:
  "\<exists>a. plane_allocator sample_cache KPlane = Some a \<and> 4096 \<le> unat (arena_size a) \<and>
   apart (plane_ptr sample_ggml sample_cache KPlane 3 1) 512 (plane_ptr sample_ggml sample_cache VPlane 0 0) 256"
proof -
  obtain a where a: "plane_allocator sample_cache KPlane = Some a" using plane_allocator_outcome [OF sample_ok, of KPlane] sample_planes(1) by auto
  have "unat (kvb_num_blocks a) * unat (block_stride a) = 4096" using sample_planes(6) by (simp add: arena_extent_def a del: plane_allocator.simps)
  then show ?thesis using kv_arena_geometry [OF sample_ok sample_granted(2,3,1) _ _ _ _ a, of VPlane 3 1 0 0] sample_planes a
    by (simp add: sample_fields block_in_layer_def del: plane_allocator.simps)
qed

text \<open>The pointers filled in for a whole block table are those of the single look-ups.\<close>

theorem block_table_pointers:
  assumes "(k_allocator c = None) = (v_allocator c = None)"
  shows "FillBlockPtrsForLayer g c ids layer = (map (\<lambda>b. GetKBlockPtr g c b layer) ids, map (\<lambda>b. GetVBlockPtr g c b layer) ids)"
proof (cases "use_block_allocator c \<and> 0 \<le> layer \<and> layer < kc_n_layer c")
  case True
  then show ?thesis using assms
    by (cases "k_allocator c"; cases "v_allocator c")
      (auto simp: FillBlockPtrsForLayer_def GetKBlockPtr_def GetVBlockPtr_def block_in_layer_def Let_def intro!: nth_equalityI)
next
  case False
  then have "FillBlockPtrsForLayer g c ids layer = (replicate (length ids) 0, replicate (length ids) 0)"
    by (auto simp: FillBlockPtrsForLayer_def Let_def)
  moreover have "GetKBlockPtr g c b layer = 0" "GetVBlockPtr g c b layer = 0" for b
    using False by (auto simp: GetKBlockPtr_def GetVBlockPtr_def block_in_layer_def split: option.split)
  ultimately show ?thesis by (simp add: map_replicate_const)
qed

theorem block_table_pointers_witness:
  "FillBlockPtrsForLayer sample_ggml sample_cache [3, -1, 7] 1 = ([GetKBlockPtr sample_ggml sample_cache 3 1, 0, 0], [GetVBlockPtr sample_ggml sample_cache 3 1, 0, 0])"
proof -
  have "(k_allocator sample_cache = None) = (v_allocator sample_cache = None)"
    using InitPagedKVCache_ok(9) [OF sample_ok, of KPlane] InitPagedKVCache_ok(9) [OF sample_ok, of VPlane] sample_planes by auto
  from block_table_pointers [OF this, of sample_ggml "[3, -1, 7]" 1] show ?thesis
    by (simp add: GetKBlockPtr_def GetVBlockPtr_def block_in_layer_def sample_fields)
qed

section \<open>Slots\<close>

lemma read_head_cong:
  assumes "shape_ok sh" and "\<And>k. k \<le> head_bytes g sh \<Longrightarrow>
    read_bytes m (ptr + of_nat (h * head_bytes g sh)) k = read_bytes m' (ptr + of_nat (h * head_bytes g sh)) k"
  shows "read_head g sh ptr m h = read_head g sh ptr m' h"
proof -
  have ld: "sh_layer_dim sh \<le> sh_dim sh" using assms(1) by (simp add: shape_ok_def)
  show ?thesis using assms(2) [of "sh_layer_dim sh * 2"] assms(2) [of "sh_layer_dim sh * 4"] assms(2) [of "head_bytes g sh"] ld
    by (auto simp: read_head_def head_bytes_def Let_def mult.assoc)
qed

lemma slots_values_cong:
  assumes "slots_ok g sh bp bytes" and "read_bytes m p (n * unat bytes) = read_bytes m' p (n * unat bytes)"
  shows "slots_values g sh p bytes n m = slots_values g sh p bytes n m'"
  unfolding slots_values_def slot_values_def
proof (rule concat2_cong, rule read_head_cong)
  fix s h k assume s: "s < n" and h: "h < sh_layer_heads sh" and k: "k \<le> head_bytes g sh"
  have so: "shape_ok sh" and b: "unat bytes = sh_heads sh * head_bytes g sh" using assms(1) by (auto simp: slots_ok_def)
  let ?o = "s * unat bytes + h * head_bytes g sh"
  have "Suc s * unat bytes \<le> n * unat bytes" "Suc h * head_bytes g sh \<le> sh_heads sh * head_bytes g sh"
    using s h so by (intro mult_right_mono; simp add: shape_ok_def)+
  then have fit: "?o + k \<le> n * unat bytes" using b k by simp
  have "read_bytes m1 (p + of_nat ?o) k = take k (drop ?o (read_bytes m1 p (n * unat bytes)))" for m1
    using fit le_diff_conv2 [of ?o "n * unat bytes" k] by (simp add: drop_read_bytes take_read_bytes min_def add.commute)
  then show "read_bytes m (p + of_nat (s * unat bytes) + of_nat (h * head_bytes g sh)) k =
      read_bytes m' (p + of_nat (s * unat bytes) + of_nat (h * head_bytes g sh)) k"
    using assms(2) by (simp add: add.assoc)
qed (use assms(1) in \<open>simp add: slots_ok_def\<close>)

text \<open>A write to another block leaves the values read unchanged.\<close>

lemma read_slots_frame:
  assumes r: "slots_ok g sh bp bytes" and w: "slots_ok g sh' bp' bytes'" and g: "ggml_ok g sh"
    and a: "apart bp (16 * unat bytes) bp' (16 * unat bytes')" and "nat num * layer_elems sh \<le> length out"
    and "nat num' * layer_elems sh' \<le> length data"
  shows "read_slots g rb sh (slot_ptr bp bytes) start num (write_slots g wb sh' (slot_ptr bp' bytes') start' num' data m) out =
    read_slots g rb sh (slot_ptr bp bytes) start num m out"
proof (cases "(bp = 0 \<or> num \<le> 0 \<or> start < 0 \<or> 16 < start + num) \<or> (bp' = 0 \<or> num' \<le> 0 \<or> start' < 0 \<or> 16 < start' + num')")
  case True
  then show ?thesis using read_slots_values [OF r _ assms(5)] write_slots_image [OF w assms(6)] g by (auto simp: ggml_ok_def)
next
  case False
  let ?p = "slot_ptr bp bytes start" and ?q = "slot_ptr bp' bytes' start'" and ?img = "slots_image g sh' (nat num') data"
  have li: "length ?img = nat num' * unat bytes'"
    unfolding slots_image_def using w length_slot_image by (intro length_concat_const) (auto simp: slots_ok_def)
  have p: "unat ?p = unat bp + nat start * unat bytes" using slot_address(3) [OF r, of start 0] False by simp
  have q: "unat ?q = unat bp' + nat start' * unat bytes'" using slot_address(3) [OF w, of start' 0] False by simp
  have "(nat start + nat num) * unat bytes \<le> 16 * unat bytes" "(nat start' + nat num') * unat bytes' \<le> 16 * unat bytes'"
    using False by (intro mult_right_mono; linarith)+
  then have "apart ?p (nat num * unat bytes) ?q (nat num' * unat bytes')"
    using a p q by (auto simp: apart_def distrib_right)
  then have "read_bytes (write_bytes ?q ?img m) ?p (nat num * unat bytes) = read_bytes m ?p (nat num * unat bytes)"
    using read_write_apart li by simp
  from slots_values_cong [OF r this] show ?thesis
    using read_slots_values [OF r _ assms(5)] write_slots_image [OF w assms(6)] g False by (simp add: ggml_ok_def)
qed


lemma kept_head_length: 
  assumes "shape_ok sh" and "row_quantized (sh_type sh) \<longrightarrow> dequantizer_ok g sh" and "length xs = sh_layer_dim sh"
  shows "length (kept_head g sh xs) = sh_layer_dim sh"
  using assms by (auto simp: kept_head_def shape_ok_def dequantizer_ok_def)

lemma length_kept_slots:
  assumes "slots_ok g sh bp bytes" and "row_quantized (sh_type sh) \<longrightarrow> dequantizer_ok g sh" and "length data = n * layer_elems sh"
  shows "length (kept_slots g sh n data) = length data"
proof -
  have "length (head_of sh (drop (s * layer_elems sh) data) h) = sh_layer_dim sh" if "s < n" "h < sh_layer_heads sh" for s h
  proof -
    have "Suc s * layer_elems sh \<le> n * layer_elems sh" "Suc h * sh_layer_dim sh \<le> sh_layer_heads sh * sh_layer_dim sh"
      using that by (intro mult_right_mono; simp)+
    then show ?thesis using assms(3) by (simp add: head_of_def layer_elems_def mult.commute)
  qed
  then have h: "length (kept_head g sh (head_of sh (drop (s * layer_elems sh) data) h)) = sh_layer_dim sh"
    if "s < n" "h < sh_layer_heads sh" for s h
    using that assms(1,2) by (intro kept_head_length) (auto simp: slots_ok_def)
  have "length (concat (map (\<lambda>h. kept_head g sh (head_of sh (drop (s * layer_elems sh) data) h)) [0..<sh_layer_heads sh])) = layer_elems sh"
    if "s < n" for s
    unfolding layer_elems_def mult.commute [of "sh_layer_dim sh"] by (rule length_concat_const) (use h that in \<open>simp add: layer_elems_def mult.commute\<close>)
  then show ?thesis unfolding kept_slots_def assms(3) by (intro length_concat_const) simp
qed

lemma kv_slots_apart:
  assumes "InitPagedKVCache g hugep ko vo io rnd busy md seqs len ty node = InitOk c" and "arenas_separate g c"
    and "block_in_layer c b l" and "ggml_ok g (k_shape c l)" and "ggml_ok g (v_shape c l)"
    and "slots_ok g (k_shape c l) (GetKBlockPtr g c b l) (GetBytesPerSlot g c)"
    and "slots_ok g (v_shape c l) (GetVBlockPtr g c b l) (GetVBytesPerSlot g c)"
  shows "apart (GetKBlockPtr g c b l) (16 * unat (GetBytesPerSlot g c)) (GetVBlockPtr g c b l) (16 * unat (GetVBytesPerSlot g c))"
    and "GetKBlockPtr g c b l \<noteq> 0" and "GetVBlockPtr g c b l \<noteq> 0"
proof -
  note so = InitPagedKVCache_storage_ok [OF assms(1,2)]
  have p: "KPlane \<in> set (plane_list c)" "VPlane \<in> set (plane_list c)" by (simp_all add: plane_list_def)
  have "unat (GetBytesPerBlock g c) = 16 * unat (GetBytesPerSlot g c)" "unat (GetVBytesPerBlock g c) = 16 * unat (GetVBytesPerSlot g c)"
    unfolding InitPagedKVCache_slot_fields(4,5) [OF assms(1)]
    using unat_of_nat_mult [of 16 "GetBytesPerSlot g c"] unat_of_nat_mult [of 16 "GetVBytesPerSlot g c"] assms(4-7)
    by (simp_all add: ggml_ok_def slots_ok_def mult.commute)
  then show "apart (GetKBlockPtr g c b l) (16 * unat (GetBytesPerSlot g c)) (GetVBlockPtr g c b l) (16 * unat (GetVBytesPerSlot g c))"
    using plane_blocks_apart [OF so p assms(3,3)] by simp
  show "GetKBlockPtr g c b l \<noteq> 0" "GetVBlockPtr g c b l \<noteq> 0"
    using plane_ptr_nonzero [OF so p(1) assms(3)] plane_ptr_nonzero [OF so p(2) assms(3)] by simp_all
qed

lemmas slot_accessors = ReadKSlots_def ReadVSlots_def WriteKSlots_def WriteVSlots_def
  GetKSlotPtr_def [abs_def] GetVSlotPtr_def [abs_def]

text \<open>C31: What is written into slots of a block is read back in its stored form, for keys and for values, whatever paths
  the two switches select: the values themselves in a float cache, their half-precision or dequantised form otherwise.\<close>

theorem slots_roundtrip:
  assumes "InitPagedKVCache g hugep ko vo io rnd busy md seqs len ty node = InitOk c" and "arenas_separate g c"
    and "0 < kc_n_head_kv c" and "0 < kc_head_dim c" and "0 < kc_v_head_dim c" and "block_in_layer c b l"
    and "ggml_ok g (k_shape c l)" and "ggml_ok g (v_shape c l)" and "0 \<le> start" and "0 < num" and "start + num \<le> 16"
    and "length k = nat num * layer_elems (k_shape c l)" and "length v = nat num * layer_elems (v_shape c l)"
    and "m' = WriteVSlots g wv c b l start num v (WriteKSlots g wk c b l start num k m)"
  shows "ReadKSlots g rk c b l start num m' (replicate (length k) 0) = kept_slots g (k_shape c l) (nat num) k \<and>
    ReadVSlots g rv c b l start num m' (replicate (length v) 0) = kept_slots g (v_shape c l) (nat num) v \<and>
    (cache_type c = GGML_TYPE_F32 \<longrightarrow>
       kept_slots g (k_shape c l) (nat num) k = k \<and> kept_slots g (v_shape c l) (nat num) v = v)"
proof -
  let ?ks = "k_shape c l" and ?vs = "v_shape c l" and ?kp = "GetKBlockPtr g c b l" and ?vp = "GetVBlockPtr g c b l"
  let ?kb = "GetBytesPerSlot g c" and ?vb = "GetVBytesPerSlot g c"
  note ok = kv_slots_ok [OF assms(1-3,6)]
  note k = ok(1) [OF assms(4,7)] and v = ok(2) [OF assms(5,8)] and nz = kv_slots_apart [OF assms(1,2,6-8) k v]
  have K: "ReadKSlots g rk c b l start num m' (replicate (length k) 0) =
      read_slots g rk ?ks (slot_ptr ?kp ?kb) start num (write_slots g wk ?ks (slot_ptr ?kp ?kb) start num k m) (replicate (length k) 0)"
    using read_slots_frame [OF k v assms(7) nz(1), of num "replicate (length k) 0" num v] assms(12-14)
    by (simp add: slot_accessors)
  have fin: "splice_at 0 xs (replicate n 0) = xs" if "length xs = n" for xs :: "u32 list" and n
    using that by (simp add: splice_at_def)
  have len: "length (kept_slots g sh (nat num) xs) = length xs" if "slots_ok g sh bp bytes" "ggml_ok g sh" "length xs = nat num * layer_elems sh" for sh xs bp bytes
    using that by (intro length_kept_slots) (auto simp: ggml_ok_def)
  have "ReadKSlots g rk c b l start num m' (replicate (length k) 0) = kept_slots g ?ks (nat num) k"
    unfolding K using slots_read_back [OF k assms(7) nz(2) assms(9-12), of "replicate (length k) 0"] fin len [OF k assms(7,12)] by simp
  moreover have "ReadVSlots g rv c b l start num m' (replicate (length v) 0) = kept_slots g ?vs (nat num) v"
    using slots_read_back [OF v assms(8) nz(3) assms(9-11,13), of "replicate (length v) 0"] fin len [OF v assms(8,13)] assms(14)
    by (simp add: slot_accessors)
  ultimately show ?thesis using kept_slots_f32 assms(12,13) by (simp add: k_shape_def v_shape_def)
qed

theorem slots_roundtrip_witness:
  "ReadKSlots sample_ggml False sample_cache 3 0 14 2
     (WriteVSlots sample_ggml True sample_cache 3 0 14 2 [5, 6, 7, 8] (WriteKSlots sample_ggml True sample_cache 3 0 14 2 [1, 2, 3, 4] (\<lambda>_. 255)))
     [0, 0, 0, 0] = [1, 2, 3, 4]"
  using slots_roundtrip [OF sample_ok sample_separate, of 3 0 14 2 "[1, 2, 3, 4]" "[5, 6, 7, 8]" _ True True "\<lambda>_. 255" False] sample_ggml_ok
  by (simp add: sample_fields block_in_layer_def sample_shapes layer_elems_def numeral_eq_Suc)

text \<open>The bulk paths of the slot operations, with their packing between the layer's and the storage's layout, have the
  effect of the slot-by-slot loops they replace, whatever the range of slots asked for.\<close>

theorem bulk_paths_agree:
  assumes "InitPagedKVCache g hugep ko vo io rnd busy md seqs len ty node = InitOk c" and "arenas_separate g c"
    and "0 < kc_n_head_kv c" and "0 < kc_head_dim c" and "0 < kc_v_head_dim c" and "block_in_layer c b l"
    and "ggml_ok g (k_shape c l)" and "ggml_ok g (v_shape c l)"
    and "nat num * layer_elems (k_shape c l) \<le> length k" and "nat num * layer_elems (v_shape c l) \<le> length v"
  shows "WriteKSlots g True c b l start num k m = WriteKSlots g False c b l start num k m \<and>
    WriteVSlots g True c b l start num v m = WriteVSlots g False c b l start num v m \<and>
    ReadKSlots g True c b l start num m k = ReadKSlots g False c b l start num m k \<and>
    ReadVSlots g True c b l start num m v = ReadVSlots g False c b l start num m v"
proof -
  note ok = kv_slots_ok [OF assms(1-3,6)]
  note k = ok(1) [OF assms(4,7)] and v = ok(2) [OF assms(5,8)]
  show ?thesis
    using write_slots_image [OF k assms(9)] write_slots_image [OF v assms(10)] read_slots_values [OF k _ assms(9)] read_slots_values [OF v _ assms(10)] assms(7,8)
    by (simp add: slot_accessors ggml_ok_def)
qed

theorem bulk_paths_agree_witness:
  "WriteKSlots sample_ggml True sample_cache 3 0 14 2 [1, 2, 3, 4] (\<lambda>_. 255) = WriteKSlots sample_ggml False sample_cache 3 0 14 2 [1, 2, 3, 4] (\<lambda>_. 255)"
  using bulk_paths_agree [OF sample_ok sample_separate, of 3 0 2 "[1, 2, 3, 4]" "[5, 6, 7, 8]" 14 "\<lambda>_. 255"] sample_ggml_ok
  by (simp add: sample_fields block_in_layer_def sample_shapes layer_elems_def)

section \<open>Swapping\<close>

text \<open>C32: Copying the blocks of a table to the host and restoring them later, into any other blocks and over any memory,
  gives every restored block the bytes its predecessor had, in keys, values and index keys of every layer, and touches no
  block outside the new table.\<close>

theorem kv_swap_roundtrip:
  assumes "InitPagedKVCache g hugep ko vo io rnd busy md seqs len ty node = InitOk c" and "arenas_separate g c"
    and "valid_table c ids" and "distinct ids'" and "valid_table c ids'" and "length ids' = length ids"
  shows "(\<forall>i < length ids. \<forall>l < nat (kc_n_layer c). \<forall>p \<in> set (plane_list c).
      device_load (g, c) (RestoreBlocksFromHost g c ids' (CopyBlocksToHost g c ids m) m') (p, ids' ! i, int l) =
      device_load (g, c) m (p, ids ! i, int l)) \<and>
    (\<forall>p \<in> set (plane_list c). \<forall>b l. block_in_layer c b l \<and> b \<notin> set ids' \<longrightarrow>
      device_load (g, c) (RestoreBlocksFromHost g c ids' (CopyBlocksToHost g c ids m) m') (p, b, l) = device_load (g, c) m' (p, b, l))"
  using swap_round_trip [OF InitPagedKVCache_storage_ok [OF assms(1,2)] assms(3-6) refl] .

theorem kv_swap_roundtrip_witness:
  "device_load (sample_ggml, sample_cache) (RestoreBlocksFromHost sample_ggml sample_cache [3, 0] (CopyBlocksToHost sample_ggml sample_cache [1, 2] ucast) (\<lambda>_. 0)) (VPlane, 3, 1) =
   device_load (sample_ggml, sample_cache) ucast (VPlane, 1, 1)"
  using conjunct1 [OF kv_swap_roundtrip [OF sample_ok sample_separate, of "[1, 2]" "[3, 0]"], rule_format, of 0 1 VPlane]
  by (simp add: valid_table_def sample_fields sample_planes)

end
