(* ===== verification/Text_Stream.thy ===== *)
theory Text_Stream
  imports Prelude
begin

text \<open>
  What happens to the text of a sampled token before a client sees it: the streaming helpers of
  \<^verbatim>\<open>core/src/runtime/worker_helpers.cpp\<close> (UTF-8 boundaries, suppression of tagged blocks and control markers, the repetition
  guard) and the stop-sequence buffer of \<^verbatim>\<open>worker.cpp\<close>. A \<^verbatim>\<open>std::string\<close> is a list of bytes, a \<open>string\<close>.
\<close>

unbundle bit_operations_syntax

section \<open>UTF-8 boundaries\<close>

abbreviation byte :: "char \<Rightarrow> u8" where "byte c \<equiv> of_char c"

text \<open>
  What the scan does at one position: wait for more bytes, or move on by some bytes. A malformed byte is passed on as it is.
\<close>

definition utf8_need :: "u8 \<Rightarrow> nat" where
  "utf8_need c0 =
     (if c0 \<le> 0x7F then 1
      else if c0 AND 0xE0 = 0xC0 then (if c0 < 0xC2 then 1 else 2)
      else if c0 AND 0xF0 = 0xE0 then 3
      else if c0 AND 0xF8 = 0xF0 then (if 0xF4 < c0 then 1 else 4)
      else 1)"

definition utf8_step :: "string \<Rightarrow> nat option" where
  "utf8_step s =
     (let c0 = byte (hd s); need = utf8_need c0
      in if need = 1 then Some 1
         else if length s < need then None
         else if \<not> list_all (\<lambda>c. byte c AND 0xC0 = 0x80) (take (need - 1) (tl s)) then Some 1
         else let c1 = byte (s ! 1)
              in if need = 3 \<and> (c0 = 0xE0 \<and> c1 < 0xA0 \<or> c0 = 0xED \<and> 0xA0 \<le> c1) then Some 1
                 else if need = 4 \<and> (c0 = 0xF0 \<and> c1 < 0x90 \<or> c0 = 0xF4 \<and> 0x90 \<le> c1) then Some 1
                 else Some need)"

lemma utf8_need_pos: "0 < utf8_need c"
  by (simp add: utf8_need_def)

lemma utf8_step_pos: "utf8_step s = Some k \<Longrightarrow> 0 < k"
  using utf8_need_pos [of "byte (hd s)"] by (auto simp: utf8_step_def Let_def split: if_splits)

function Utf8ValidPrefixLength :: "string \<Rightarrow> nat" where
  "Utf8ValidPrefixLength s =
     (if s = [] then 0
      else case utf8_step s of None \<Rightarrow> 0 | Some k \<Rightarrow> k + Utf8ValidPrefixLength (drop k s))"
  by pat_completeness auto
termination
  by (relation "measure length") (auto dest: utf8_step_pos)

declare Utf8ValidPrefixLength.simps [simp del]

text \<open>One token piece: what is emitted and what stays pending.\<close>

definition stream_utf8 :: "string \<Rightarrow> string \<Rightarrow> string \<times> string" where
  "stream_utf8 piece pending =
     (if piece = [] then ([], pending)
      else if pending = [] then
        let emit_len = Utf8ValidPrefixLength piece
        in if emit_len = length piece then (piece, [])
           else if 0 < emit_len then (take emit_len piece, drop emit_len piece)
           else ([], piece)
      else
        let whole = pending @ piece; emit_len = Utf8ValidPrefixLength whole
        in if 0 < emit_len then (take emit_len whole, drop emit_len whole) else ([], whole))"

section \<open>Tagged blocks\<close>

definition find_from :: "string \<Rightarrow> string \<Rightarrow> nat \<Rightarrow> nat option" where
  "find_from pat s pos = find (\<lambda>k. take (length pat) (drop k s) = pat) [pos..<Suc (length s)]"

definition LongestPrefixSuffixMatch :: "string \<Rightarrow> string \<Rightarrow> nat" where
  "LongestPrefixSuffixMatch text pattern =
     (if text = [] \<or> pattern = [] then 0
      else case find (\<lambda>n. drop (length text - n) text = take n pattern) (rev [1..<Suc (min (length text) (length pattern - 1))]) of
             None \<Rightarrow> 0 | Some n \<Rightarrow> n)"

definition LongestTagCarry :: "string \<Rightarrow> string \<Rightarrow> string \<Rightarrow> nat" where
  "LongestTagCarry text open close = max (LongestPrefixSuffixMatch text open) (LongestPrefixSuffixMatch text close)"

text \<open>
  The scan of \<^verbatim>\<open>SuppressTaggedBlock\<close>: the visible text, whether a block is open, and the bytes kept when the scan returned
  early. The tags the worker passes are not empty; the guard keeps the function total.
\<close>

function suppress_scan :: "string \<Rightarrow> string \<Rightarrow> string \<Rightarrow> nat \<Rightarrow> bool \<Rightarrow> string \<Rightarrow> string \<times> bool \<times> string option" where
  "suppress_scan open close cur pos in_block out =
     (if length cur \<le> pos \<or> open = [] \<or> close = [] then (out, in_block, None)
      else if in_block then
        (case find_from close cur pos of
           None \<Rightarrow> ([], True, Some (drop (length cur - LongestPrefixSuffixMatch cur close) cur))
         | Some k \<Rightarrow> suppress_scan open close cur (k + length close) False out)
      else
        let op = find_from open cur pos; cl = find_from close cur pos
        in if cl \<noteq> None \<and> (op = None \<or> the cl < the op)
           then suppress_scan open close cur (the cl + length close) False (out @ take (the cl - pos) (drop pos cur))
           else case op of
                  None \<Rightarrow> (out @ drop pos cur, False, None)
                | Some j \<Rightarrow>
                    (case find_from close cur (j + length open) of
                       None \<Rightarrow> (out @ take (j - pos) (drop pos cur), True, None)
                     | Some k \<Rightarrow> suppress_scan open close cur (k + length close) False (out @ take (j - pos) (drop pos cur))))"
  by pat_completeness auto

lemma find_from_bounds:
  assumes "find_from pat s pos = Some k"
  shows "pos \<le> k" "k + length pat \<le> length s" "take (length pat) (drop k s) = pat"
proof -
  have "k \<in> set [pos..<Suc (length s)]" "take (length pat) (drop k s) = pat"
    using assms nth_mem unfolding find_from_def find_Some_iff by blast+
  then have k: "pos \<le> k \<and> k < Suc (length s) \<and> take (length pat) (drop k s) = pat" by auto
  then have "length (take (length pat) (drop k s)) = length pat" by simp
  then have "length pat \<le> length s - k" by simp
  then show "pos \<le> k" "k + length pat \<le> length s" "take (length pat) (drop k s) = pat" using k by auto
qed

lemma find_from_advance:
  assumes "find_from pat s q = Some k" and "pos \<le> q" and "pos < length s" and "pat \<noteq> []"
  shows "length s - (k + length pat) < length s - pos"
  using find_from_bounds(1,2) [OF assms(1)] assms(2-4) by (cases pat) auto

termination suppress_scan
proof (relation "measure (\<lambda>(_, _, cur, pos, _). length cur - pos)", goal_cases)
  case (2 op cl cur pos blk out k)
  then show ?case using find_from_advance [of cl cur pos k pos] by auto
next
  case (3 op cl cur pos blk out x xa)
  then show ?case using find_from_advance [of cl cur pos "the xa" pos] by auto
next
  case (4 op cl cur pos blk out x xa j k)
  then show ?case using find_from_advance [of cl cur "j + length op" k pos] find_from_bounds(1) [of op cur pos j] by auto
qed simp

declare suppress_scan.simps [simp del]

definition SuppressTaggedBlock :: "string \<Rightarrow> string \<Rightarrow> string \<times> bool \<times> string \<Rightarrow> string \<times> bool \<times> string" where
  "SuppressTaggedBlock open close = (\<lambda>(token_text, in_block, pending).
     let cur = pending @ token_text
     in if cur = [] then ([], in_block, [])
        else case suppress_scan open close cur 0 in_block [] of
               (out, in_block', Some kept) \<Rightarrow> (out, in_block', kept)
             | (out, in_block', None) \<Rightarrow>
                 if in_block' then (out, True, [])
                 else let carry = LongestTagCarry out open close
                      in (take (length out - carry) out, False, drop (length out - carry) out))"

section \<open>Control markers\<close>

definition isspace :: "char \<Rightarrow> bool" where
  "isspace c \<longleftrightarrow> byte c = 32 \<or> 9 \<le> byte c \<and> byte c \<le> 13"

definition erase_marker :: "string \<Rightarrow> string \<Rightarrow> nat \<Rightarrow> nat \<times> string" where
  "erase_marker marker text pos =
     (let before = rev (dropWhile isspace (rev (take pos text)));
          after = dropWhile isspace (drop (pos + length marker) text)
      in (length before, before @ after))"

function erase_markers :: "string \<Rightarrow> nat \<Rightarrow> string \<Rightarrow> string" where
  "erase_markers marker pos text =
     (if marker = [] then text
      else case find_from marker text pos of
             None \<Rightarrow> text
           | Some k \<Rightarrow> let (pos', text') = erase_marker marker text k in erase_markers marker pos' text')"
  by pat_completeness auto

lemma erase_marker_shorter:
  assumes "find_from marker text pos = Some k" and "marker \<noteq> []"
  shows "length (snd (erase_marker marker text k)) < length text"
proof -
  have "k + length marker \<le> length text" using find_from_bounds [OF assms(1)] by simp
  moreover have "length (dropWhile isspace (rev (take k text))) \<le> k"
    by (rule order_trans [OF length_dropWhile_le]) simp
  moreover have "length (dropWhile isspace (drop (k + length marker) text)) \<le> length text - (k + length marker)"
    by (rule order_trans [OF length_dropWhile_le]) simp
  ultimately show ?thesis using assms(2) by (cases marker) (auto simp: erase_marker_def Let_def)
qed

termination erase_markers
  by (relation "measure (\<lambda>(_, _, text). length text)")
    (use erase_marker_shorter in \<open>auto simp: case_prod_unfold\<close>)

declare erase_markers.simps [simp del]

definition SuppressQwenVisibleControlMarkers :: "string \<Rightarrow> string" where
  "SuppressQwenVisibleControlMarkers text = fold (\<lambda>m. erase_markers m 0) [''/no_think'', ''/nothink''] text"

section \<open>Stopping\<close>

definition trim_buffer :: "nat \<Rightarrow> string \<Rightarrow> string" where
  "trim_buffer limit buf = drop (length buf - limit) buf"

definition stop_hit :: "string list \<Rightarrow> string \<Rightarrow> bool" where
  "stop_hit seqs buf =
     list_ex (\<lambda>s. s \<noteq> [] \<and> length s \<le> length buf \<and> drop (length buf - length s) buf = s) seqs"

definition check_stop_sequences :: "string list \<Rightarrow> nat \<Rightarrow> string \<Rightarrow> string \<Rightarrow> bool \<times> string" where
  "check_stop_sequences seqs limit token_str buf =
     (if token_str = [] \<or> seqs = [] \<or> limit = 0 then (False, buf)
      else let buf' = trim_buffer limit (buf @ token_str) in (stop_hit seqs buf', buf'))"

text \<open>The buffer size the request builder chooses.\<close>

definition stop_buffer_limit :: "string list \<Rightarrow> nat" where
  "stop_buffer_limit seqs = fold (\<lambda>s n. max n (length s)) seqs 0"

definition IsStopTokenId :: "int \<Rightarrow> int list \<Rightarrow> int \<Rightarrow> bool" where
  "IsStopTokenId eos stop_ids t \<longleftrightarrow> t = eos \<or> t \<in> set stop_ids"

definition alternating :: "nat \<Rightarrow> int list \<Rightarrow> bool" where
  "alternating window rev_history =
     (rev_history ! 0 \<noteq> rev_history ! 1 \<and>
      list_all (\<lambda>i. rev_history ! i = (if even i then rev_history ! 0 else rev_history ! 1)) [0..<window])"

text \<open>\<open>guarded\<close>: the architecture is one the guard covers; \<open>qwen36\<close> selects the wider limits.\<close>

definition ShouldTerminateRepetitiveLoop :: "bool \<Rightarrow> bool \<Rightarrow> int \<Rightarrow> int list \<Rightarrow> bool" where
  "ShouldTerminateRepetitiveLoop guarded qwen36 generated history =
     (let limit = (if qwen36 then 16 else 8); window = (if qwen36 then 24 else 12); n = length history
      in if \<not> guarded \<or> qwen36 \<and> generated < 32 \<or> n < min limit window then False
         else length (takeWhile (\<lambda>t. t = last history) (rev history)) \<ge> limit \<or> (window \<le> n \<and> alternating window (rev history)))"

section \<open>The text of a token\<close>

text \<open>
  The part of a request that concerns its text. A pair is the open-block flag and the pending bytes of one kind of tag.
  \<open>ts_structured\<close>: the client registered a structured token callback; \<open>ts_suppress\<close>: tag suppression is on for the request and
  in the environment.
\<close>

record text_state =
  ts_utf8_pending :: string
  ts_think :: "bool \<times> string"
  ts_tool_call :: "bool \<times> string"
  ts_tool_response :: "bool \<times> string"
  ts_json_mode :: bool
  ts_structured :: bool
  ts_suppress :: bool
  ts_has_callback :: bool
  ts_stop_sequences :: "string list"
  ts_stop_buffer :: string
  ts_stop_buffer_max :: nat

definition may_contain_tag :: "string \<Rightarrow> text_state \<Rightarrow> bool" where
  "may_contain_tag text ts \<longleftrightarrow>
     fst (ts_think ts) \<or> fst (ts_tool_call ts) \<or> fst (ts_tool_response ts) \<or>
     snd (ts_think ts) \<noteq> [] \<or> snd (ts_tool_call ts) \<noteq> [] \<or> snd (ts_tool_response ts) \<noteq> [] \<or> CHR ''<'' \<in> set text"

definition suppress_blocks :: "string \<Rightarrow> text_state \<Rightarrow> string \<times> text_state" where
  "suppress_blocks text ts =
     (let (t1, think) = SuppressTaggedBlock ''<think>'' ''</think>'' (text, ts_think ts);
          (t2, call) = SuppressTaggedBlock ''<tool_call>'' ''</tool_call>'' (t1, ts_tool_call ts);
          (t3, resp) = SuppressTaggedBlock ''<tool_response>'' ''</tool_response>'' (t2, ts_tool_response ts)
      in (t3, ts\<lparr>ts_think := think, ts_tool_call := call, ts_tool_response := resp\<rparr>))"

definition hide_markup :: "string \<Rightarrow> text_state \<Rightarrow> string \<times> text_state" where
  "hide_markup text ts =
     (let (t1, ts1) = (if \<not> ts_json_mode ts \<and> text \<noteq> [] \<and> \<not> ts_structured ts \<and> ts_suppress ts \<and> may_contain_tag text ts
                       then suppress_blocks text ts else (text, ts))
      in (if \<not> ts_json_mode ts1 \<and> t1 \<noteq> [] then SuppressQwenVisibleControlMarkers t1 else t1, ts1))"

text \<open>The text of one sampled token, from its piece to what is shown.\<close>

definition token_text :: "string \<Rightarrow> text_state \<Rightarrow> string \<times> text_state" where
  "token_text piece ts =
     (let (text, pending) = stream_utf8 piece (ts_utf8_pending ts) in hide_markup text (ts\<lparr>ts_utf8_pending := pending\<rparr>))"

definition note_stop :: "string \<Rightarrow> text_state \<Rightarrow> bool \<times> text_state" where
  "note_stop text ts =
     (let (hit, buf) = check_stop_sequences (ts_stop_sequences ts) (ts_stop_buffer_max ts) text (ts_stop_buffer ts)
      in (hit, ts\<lparr>ts_stop_buffer := buf\<rparr>))"

text \<open>What is left to show when the request finishes.\<close>

definition tail_text :: "text_state \<Rightarrow> string option \<times> text_state" where
  "tail_text ts =
     (let n = Utf8ValidPrefixLength (ts_utf8_pending ts)
      in if ts_utf8_pending ts = [] \<or> \<not> ts_has_callback ts \<or> n = 0 then (None, ts)
         else let (text, ts1) = hide_markup (take n (ts_utf8_pending ts)) ts
              in (if text \<noteq> [] \<or> ts_structured ts then Some text else None, ts1))"

end

