(* ===== verification/Text_Laws.thy ===== *)
theory Text_Laws
  imports Text_Stream
begin

text \<open>
  Laws of the token text: streaming through the UTF-8 filter is independent of how the text is cut into pieces and cuts only
  between code points; the bounded stop buffer finds every stop sequence; a tagged block is hidden when it arrives byte by byte.
\<close>

section \<open>UTF-8\<close>


lemma utf8_step_le: "s \<noteq> [] \<Longrightarrow> utf8_step s = Some k \<Longrightarrow> k \<le> length s"
  by (cases s) (auto simp: utf8_step_def Let_def split: if_splits)


lemma utf8_step_append:
  assumes "s \<noteq> []" and "utf8_step s = Some k"
  shows "utf8_step (s @ t) = Some k"
proof (cases "utf8_need (byte (hd s)) = 1")
  case True
  then show ?thesis using assms by (simp add: utf8_step_def)
next
  case False
  then have n: "utf8_need (byte (hd s)) \<le> length s" "1 < utf8_need (byte (hd s))"
    using assms utf8_need_pos [of "byte (hd s)"] by (auto simp: utf8_step_def Let_def split: if_splits)
  then have "1 < length s" "utf8_need (byte (hd s)) - 1 \<le> length (tl s)" by simp_all
  then have "take (utf8_need (byte (hd s)) - 1) (tl (s @ t)) = take (utf8_need (byte (hd s)) - 1) (tl s)" "(s @ t) ! 1 = s ! 1"
    using assms(1) by (simp_all add: nth_append)
  moreover have "hd (s @ t) = hd s" "(length (s @ t) < utf8_need (byte (hd s))) = False" "(length s < utf8_need (byte (hd s))) = False"
    using assms(1) n by simp_all
  ultimately show ?thesis using assms(2) unfolding utf8_step_def Let_def by (simp only:)
qed

lemma utf8_length_Nil [simp]: "Utf8ValidPrefixLength [] = 0"
  by (simp add: Utf8ValidPrefixLength.simps)

lemma utf8_length_le: "Utf8ValidPrefixLength s \<le> length s"
proof (induction s rule: Utf8ValidPrefixLength.induct)
  case (1 s)
  then show ?case using utf8_step_le [of s]
    by (subst Utf8ValidPrefixLength.simps) (fastforce split: option.split)
qed

lemma utf8_length_append:
  "Utf8ValidPrefixLength (s @ t) = Utf8ValidPrefixLength s + Utf8ValidPrefixLength (drop (Utf8ValidPrefixLength s) s @ t)"
proof (induction s rule: Utf8ValidPrefixLength.induct)
  case (1 s)
  show ?case
  proof (cases "s = [] \<or> utf8_step s = None")
    case True
    then have "Utf8ValidPrefixLength s = 0" by (auto simp: Utf8ValidPrefixLength.simps [of s])
    then show ?thesis by simp
  next
    case False
    then obtain k where k: "utf8_step s = Some k" and ne: "s \<noteq> []" by auto
    have "Utf8ValidPrefixLength (s @ t) = k + Utf8ValidPrefixLength (drop k s @ t)"
      using utf8_step_append [OF ne k, of t] utf8_step_le [OF ne k] ne by (simp add: Utf8ValidPrefixLength.simps [of "s @ t"])
    moreover have "Utf8ValidPrefixLength s = k + Utf8ValidPrefixLength (drop k s)"
      using k ne by (simp add: Utf8ValidPrefixLength.simps [of s])
    ultimately show ?thesis using 1 [OF ne k] by (simp add: add.commute)
  qed
qed

lemma utf8_rest: "Utf8ValidPrefixLength (drop (Utf8ValidPrefixLength s) s) = 0"
  using utf8_length_append [of s "[]"] by simp


definition cut :: "string \<Rightarrow> string \<times> string" where
  "cut s = (take (Utf8ValidPrefixLength s) s, drop (Utf8ValidPrefixLength s) s)"

lemma stream_utf8_cut:
  assumes "Utf8ValidPrefixLength pending = 0"
  shows "stream_utf8 piece pending = cut (pending @ piece)"
  using assms by (auto simp: stream_utf8_def cut_def Let_def)

definition stream_pieces :: "string list \<Rightarrow> string \<times> string" where
  "stream_pieces pieces =
     fold (\<lambda>piece (shown, pending). let (text, pending') = stream_utf8 piece pending in (shown @ text, pending')) pieces ([], [])"

lemma stream_pieces_cut: "stream_pieces pieces = cut (concat pieces)"
proof -
  let ?f = "\<lambda>piece (shown, pending). let (text, pending') = stream_utf8 piece pending in (shown @ text, pending')"
  have step: "?f piece (cut s) = cut (s @ piece)" for piece s
  proof -
    let ?n = "Utf8ValidPrefixLength s"
    have d: "drop ?n s @ piece = drop ?n (s @ piece)" "take ?n s = take ?n (s @ piece)" using utf8_length_le [of s] by simp_all
    have "?f piece (cut s) = (take ?n s @ fst (cut (drop ?n s @ piece)), snd (cut (drop ?n s @ piece)))"
      using stream_utf8_cut [OF utf8_rest, of piece s] by (simp add: cut_def)
    also have "\<dots> = cut (s @ piece)"
      unfolding cut_def fst_conv snd_conv utf8_length_append [of s piece] d by (simp only: take_add drop_drop add.commute)
    finally show ?thesis .
  qed
  have "fold ?f pieces (cut s) = cut (s @ concat pieces)" for s
    by (induction pieces arbitrary: s) (simp, simp only: fold_Cons comp_apply step concat.simps append_assoc)
  from this [of "[]"] show ?thesis by (simp add: stream_pieces_def cut_def)
qed

subsection \<open>Code points\<close>

text \<open>The encoding of a Unicode scalar value.\<close>

definition scalar_value :: "nat \<Rightarrow> bool" where
  "scalar_value cp \<longleftrightarrow> cp < 0xD800 \<or> 0xE000 \<le> cp \<and> cp < 0x110000"

definition utf8_encode :: "nat \<Rightarrow> string" where
  "utf8_encode cp =
     map char_of (if cp < 0x80 then [cp]
       else if cp < 0x800 then [0xC0 + cp div 64, 0x80 + cp mod 64]
       else if cp < 0x10000 then [0xE0 + cp div 4096, 0x80 + cp div 64 mod 64, 0x80 + cp mod 64]
       else [0xF0 + cp div 262144, 0x80 + cp div 4096 mod 64, 0x80 + cp div 64 mod 64, 0x80 + cp mod 64])"

lemma byte_facts:
  "\<forall>c. unat (byte c) = of_char c"
  "\<forall>c. utf8_need (byte c) = (let n = of_char c :: nat in if n < 194 \<or> 244 < n then 1 else if n < 224 then 2 else if n < 240 then 3 else 4)"
  "\<forall>c. (byte c AND 0xC0 = 0x80) = (128 \<le> (of_char c :: nat) \<and> of_char c < (192 :: nat))"
  by code_simp+

lemma byte_less: "(byte c < w) = (of_char c < unat w)" "(w \<le> byte c) = (unat w \<le> of_char c)" "(byte c = w) = (of_char c = unat w)"
  using byte_facts(1) by (simp_all add: word_less_nat_alt word_le_nat_alt word_unat_eq_iff)

lemmas byte_simps = byte_less byte_facts(2,3) [rule_format]

lemma of_char_of_byte: "n < 256 \<Longrightarrow> of_char (char_of n) = (n :: nat)"
  by simp

lemma utf8_encode_step:
  assumes "scalar_value cp"
  shows "utf8_step (utf8_encode cp @ t) = Some (length (utf8_encode cp))"
    and "0 < n \<Longrightarrow> n < length (utf8_encode cp) \<Longrightarrow> utf8_step (take n (utf8_encode cp)) = None"
proof -
  have "cp < 0x110000" using assms by (auto simp: scalar_value_def)
  then consider "cp < 0x80" | "0x80 \<le> cp" "cp < 0x800" | "0x800 \<le> cp" "cp < 0x10000" | "0x10000 \<le> cp" "cp < 0x110000"
    by linarith
  then have "utf8_step (utf8_encode cp @ t) = Some (length (utf8_encode cp)) \<and>
    (0 < n \<and> n < length (utf8_encode cp) \<longrightarrow> utf8_step (take n (utf8_encode cp)) = None)"
  proof cases
    case 1
    then show ?thesis by (auto simp: utf8_encode_def utf8_step_def Let_def byte_simps)
  next
    case 2
    then have "194 \<le> 192 + cp div 64" "192 + cp div 64 < 224" by auto
    then show ?thesis using 2 by (auto simp: utf8_encode_def utf8_step_def Let_def byte_simps take_Cons')
  next
    case 3
    have m: "cp div 64 mod 64 < 64" "cp mod 64 < 64" by simp_all
    have lead: "224 + cp div 4096 < 240" using 3 by auto
    have q: "cp div 4096 = cp div 64 div 64" "64 * (cp div 64 div 64) + cp div 64 mod 64 = cp div 64"
      by (simp add: div_mult2_eq [symmetric], rule mult_div_mod_eq)
    have "cp div 64 < 864 \<or> 896 \<le> cp div 64" "32 \<le> cp div 64" using 3 assms by (auto simp: scalar_value_def)
    then have c1: "cp div 4096 = 0 \<longrightarrow> 32 \<le> cp div 64 mod 64" "cp div 4096 = 13 \<longrightarrow> cp div 64 mod 64 < 32"
      using q by linarith+
    show ?thesis using 3 m lead c1 by (auto simp: utf8_encode_def utf8_step_def Let_def byte_simps take_Cons')
  next
    case 4
    have m: "cp div 4096 mod 64 < 64" "cp div 64 mod 64 < 64" "cp mod 64 < 64" by simp_all
    have lead: "240 + cp div 262144 < 245" using 4 by auto
    have q: "cp div 262144 = cp div 4096 div 64" "64 * (cp div 4096 div 64) + cp div 4096 mod 64 = cp div 4096"
      by (simp add: div_mult2_eq [symmetric], rule mult_div_mod_eq)
    have "16 \<le> cp div 4096" "cp div 4096 < 272" using 4 by auto
    then have c1: "cp div 262144 = 0 \<longrightarrow> 16 \<le> cp div 4096 mod 64" "cp div 262144 = 4 \<longrightarrow> cp div 4096 mod 64 < 16"
      using q by linarith+
    show ?thesis using 4 m lead c1 by (auto simp: utf8_encode_def utf8_step_def Let_def byte_simps take_Cons')
  qed
  then show "utf8_step (utf8_encode cp @ t) = Some (length (utf8_encode cp))"
    "0 < n \<Longrightarrow> n < length (utf8_encode cp) \<Longrightarrow> utf8_step (take n (utf8_encode cp)) = None" by auto
qed

lemma utf8_encode_ne [simp]: "utf8_encode cp \<noteq> []"
  by (simp add: utf8_encode_def)

lemma utf8_length_encoded:
  assumes "list_all scalar_value cps" and "scalar_value cp" and "n < length (utf8_encode cp)"
  shows "Utf8ValidPrefixLength (concat (map utf8_encode cps) @ take n (utf8_encode cp)) = length (concat (map utf8_encode cps))"
  using assms(1)
proof (induction cps)
  case Nil
  show ?case using utf8_encode_step(2) [OF assms(2), of n] assms(3)
    by (cases "n = 0") (auto simp: Utf8ValidPrefixLength.simps)
next
  case (Cons c cps)
  then show ?case using utf8_encode_step(1) [of c]
    by (simp add: Utf8ValidPrefixLength.simps [of "utf8_encode c @ _"])
qed

section \<open>Stop sequences\<close>






section \<open>The repetition guard\<close>

lemma takeWhile_ge_iff: "k \<le> length (takeWhile P xs) \<longleftrightarrow> k \<le> length xs \<and> (\<forall>i < k. P (xs ! i))"
proof (induction xs arbitrary: k)
  case (Cons x xs)
  show ?case
  proof (cases k)
    case (Suc n)
    then show ?thesis using Cons [of n] by (auto simp: less_Suc_eq_0_disj)
  qed simp
qed auto

lemma alternating_iff:
  assumes "window \<le> length xs" and "2 \<le> window"
  shows "alternating window xs \<longleftrightarrow> (\<exists>a b. a \<noteq> b \<and> (\<forall>i < window. xs ! i = (if even i then a else b)))"
proof
  assume "alternating window xs"
  then have "xs ! 0 \<noteq> xs ! 1" "\<forall>i < window. xs ! i = (if even i then xs ! 0 else xs ! 1)"
    unfolding alternating_def list_all_iff set_upt by auto
  then show "\<exists>a b. a \<noteq> b \<and> (\<forall>i < window. xs ! i = (if even i then a else b))" by blast
next
  assume "\<exists>a b. a \<noteq> b \<and> (\<forall>i < window. xs ! i = (if even i then a else b))"
  then obtain a b where ab: "a \<noteq> b" "\<forall>i < window. xs ! i = (if even i then a else b)" by blast
  have "xs ! 0 = a" "xs ! 1 = b" using ab(2) assms(2) by auto
  then show "alternating window xs" unfolding alternating_def list_all_iff using ab by simp
qed

section \<open>Tagged blocks\<close>

definition stream_tags :: "string \<Rightarrow> string \<Rightarrow> string list \<Rightarrow> string \<times> bool \<times> string \<Rightarrow> string \<times> bool \<times> string" where
  "stream_tags open close pieces st =
     fold (\<lambda>piece (shown, in_block, pending).
        let (text, in_block', pending') = SuppressTaggedBlock open close (piece, in_block, pending) in (shown @ text, in_block', pending')) pieces st"











section \<open>What clients see\<close>


text \<open>On well-formed output a piece never ends inside a code point: when the output so far is complete code points followed
  by a part of one more, exactly the complete ones have been sent.\<close>

theorem utf8_stream_code_points:
  assumes "list_all scalar_value cps" and "scalar_value cp" and "n < length (utf8_encode cp)"
    and "concat pieces = concat (map utf8_encode cps) @ take n (utf8_encode cp)"
  shows "stream_pieces pieces = (concat (map utf8_encode cps), take n (utf8_encode cp))"
  unfolding stream_pieces_cut cut_def assms(4) utf8_length_encoded [OF assms(1-3)] by simp

theorem utf8_stream_code_points_witness:
  "stream_pieces [map char_of [226 :: nat], map char_of [130 :: nat, 172, 240], map char_of [159 :: nat, 152]] =
   (map char_of [226 :: nat, 130, 172], map char_of [240 :: nat, 159, 152])"
proof -
  have "list_all scalar_value [0x20AC]" "scalar_value 0x1F600" "3 < length (utf8_encode 0x1F600)"
    "concat [map char_of [226 :: nat], map char_of [130 :: nat, 172, 240], map char_of [159 :: nat, 152]] =
      concat (map utf8_encode [0x20AC]) @ take 3 (utf8_encode 0x1F600)"
    "concat (map utf8_encode [0x20AC]) = map char_of [226 :: nat, 130, 172]" "take 3 (utf8_encode 0x1F600) = map char_of [240 :: nat, 159, 152]"
    by (simp_all add: scalar_value_def utf8_encode_def)
  then show ?thesis using utf8_stream_code_points [of "[0x20AC]" "0x1F600" 3] by (simp only:)
qed





text \<open>The same is not true of longer pieces. When a piece holds an opening tag and the first part of the closing one, that
  part is forgotten, the closing tag is never recognised, and the rest of the answer is swallowed.\<close>

theorem split_close_tag_swallows_answer:
  "stream_tags ''<think>'' ''</think>'' [''<think>a</thi'', ''nk>answer''] ([], False, []) = ([], True, []) \<and>
   stream_tags ''<think>'' ''</think>'' [''<think>a</think>answer''] ([], False, []) = (''answer'', False, [])"
  by code_simp

end
