(* ===== verification/Worker_State.thy ===== *)
theory Worker_State
  imports Prefill_Policy Scheduler_Queue Paged_Storage Text_Stream
begin

text \<open>
  The state of the worker loop (\<^verbatim>\<open>core/src/runtime/worker.cpp\<close>) and the life of a request in it: admission, cancellation,
  the single terminal result, release of its blocks. A \<^verbatim>\<open>Request*\<close> is a handle, an \<open>int\<close>, into the store \<open>wk_requests\<close>.
  The block manager of the KV cache is the one the scheduler points to. Metrics, logging and the callbacks themselves are left
  out: a result handed to a callback or to the callback queue is an entry of \<open>wk_events\<close>.
\<close>

section \<open>Requests and the worker\<close>

datatype decode_finish_cause =
    FinishUnknown | StopToken | StopSequence | MaxTokens | LoopGuard | DecodeVisibleProgressTimeout | SchedulerEmptyBatchStall
  | SchedulerUnschedulable | BatchBuildStall | RequestCanceled | OutOfMemory | MissingTokens | SchedulerRejected | GraphBuildFailed

fun DecodeFinishCauseName :: "decode_finish_cause \<Rightarrow> string" where
  "DecodeFinishCauseName StopToken = ''stop_token''"
| "DecodeFinishCauseName StopSequence = ''stop_sequence''"
| "DecodeFinishCauseName MaxTokens = ''max_tokens''"
| "DecodeFinishCauseName LoopGuard = ''loop_guard''"
| "DecodeFinishCauseName DecodeVisibleProgressTimeout = ''decode_visible_progress_timeout''"
| "DecodeFinishCauseName SchedulerEmptyBatchStall = ''scheduler_empty_batch_stall''"
| "DecodeFinishCauseName SchedulerUnschedulable = ''scheduler_unschedulable''"
| "DecodeFinishCauseName BatchBuildStall = ''batch_build_stall''"
| "DecodeFinishCauseName RequestCanceled = ''request_canceled''"
| "DecodeFinishCauseName OutOfMemory = ''out_of_memory''"
| "DecodeFinishCauseName MissingTokens = ''missing_tokens''"
| "DecodeFinishCauseName SchedulerRejected = ''scheduler_rejected''"
| "DecodeFinishCauseName GraphBuildFailed = ''graph_build_failed''"
| "DecodeFinishCauseName FinishUnknown = ''unknown''"

record swap_state =
  sw_active :: bool
  sw_total_tokens :: int
  sw_num_blocks :: int
  sw_k_data :: "u8 list"
  sw_v_data :: "u8 list"

definition clear_swap :: swap_state where
  "clear_swap = \<lparr>sw_active = False, sw_total_tokens = 0, sw_num_blocks = 0, sw_k_data = [], sw_v_data = []\<rparr>"

text \<open>
  Of \<^verbatim>\<open>Request\<close> the record keeps what the modelled code reads; the members of the prefill policy are in \<open>w_view\<close>. Time
  points are nanosecond counts, 0 for a default-constructed one.
\<close>

record worker_request =
  w_id :: int
  w_view :: request_view
  w_max_tokens :: int
  w_priority :: int
  w_seq_id :: int
  w_block_table :: "int list"
  w_n_past :: int
  w_is_prefill :: bool
  w_is_embedding :: bool
  w_finished :: bool
  w_cancelled :: bool
  w_terminal_dispatched :: bool
  w_finish_cause :: decode_finish_cause
  w_is_swapped :: bool
  w_swap_state :: swap_state
  w_generated_count :: int
  w_token_history :: "int list"
  w_pending_scheduler_progress :: int
  w_prefill_chunk_tokens_effective :: int
  w_registered_prefix_blocks :: int
  w_prefix_cache_hit :: bool
  w_prefix_cache_skipped_tokens :: int
  w_prefix_cache_hit_blocks :: int
  w_prefix_cache_registered_blocks :: int
  w_prefix_cache_extended_blocks :: int
  w_snapshot_restore_attempted :: bool
  w_snapshot_restore_applied :: bool
  w_empty_schedule_stall_count :: u64
  w_batch_build_stall_count :: u64
  w_start_time :: int
  w_last_progress_time :: int
  w_text :: text_state

datatype embedding_status = EmbeddingOk | EmbeddingInternalError | EmbeddingEngineStopped

text \<open>
  \<open>Terminal h error text\<close> is the last result of a generation, \<open>EmbeddingResult\<close> the only one of an embedding request,
  \<open>TokenText\<close> a piece of streamed text.
\<close>

datatype worker_event = Terminal int bool string | EmbeddingResult int embedding_status | TokenText int int string

record watchdog =
  wd_loops :: u64
  wd_failures :: u64
  wd_first_seen :: int
  wd_last_seen :: int
  wd_last_log :: int

record worker =
  wk_scheduler :: scheduler
  wk_memory :: memory
  wk_requests :: "int \<Rightarrow> worker_request"
  wk_active :: "int list"
  wk_seq_to_request :: "int \<rightharpoonup> int"
  wk_events :: "worker_event list"
  wk_watchdog :: watchdog

abbreviation wk_blocks :: "worker \<Rightarrow> block_manager" where
  "wk_blocks w \<equiv> block_mgr (wk_scheduler w)"

definition upd_blocks :: "(block_manager \<Rightarrow> block_manager) \<Rightarrow> worker \<Rightarrow> worker" where
  "upd_blocks f w = w\<lparr>wk_scheduler := (wk_scheduler w)\<lparr>block_mgr := f (wk_blocks w)\<rparr>\<rparr>"

definition upd_req :: "int \<Rightarrow> (worker_request \<Rightarrow> worker_request) \<Rightarrow> worker \<Rightarrow> worker" where
  "upd_req h f w = w\<lparr>wk_requests := (wk_requests w)(h := f (wk_requests w h))\<rparr>"

section \<open>The terminal result\<close>

text \<open>
  The compare-and-swap on the dispatch flag makes the result unique. The two flags of the code, one for generation and one for
  embedding requests, are one here: a request is of one kind for its whole life.
\<close>

definition FinalizeGenerationRequestOnce :: "int \<Rightarrow> string \<Rightarrow> bool \<Rightarrow> worker \<Rightarrow> bool \<times> worker" where
  "FinalizeGenerationRequestOnce h text err w =
     (let r = wk_requests w h
      in if w_is_embedding r \<or> w_terminal_dispatched r then (False, w)
         else (True, (upd_req h (\<lambda>r. r\<lparr>w_terminal_dispatched := True, w_finished := True\<rparr>) w)
                       \<lparr>wk_events := wk_events w @ [Terminal h err text]\<rparr>))"

definition FinalizeEmbeddingRequestOnce :: "int \<Rightarrow> embedding_status \<Rightarrow> worker \<Rightarrow> bool \<times> worker" where
  "FinalizeEmbeddingRequestOnce h status w =
     (let r = wk_requests w h
      in if \<not> w_is_embedding r \<or> w_terminal_dispatched r then (False, w)
         else (True, (upd_req h (\<lambda>r. r\<lparr>w_terminal_dispatched := True, w_finished := True\<rparr>) w)
                       \<lparr>wk_events := wk_events w @ [EmbeddingResult h status]\<rparr>))"

definition finalize_generation_error :: "int \<Rightarrow> decode_finish_cause \<Rightarrow> string \<Rightarrow> worker \<Rightarrow> bool \<times> worker" where
  "finalize_generation_error h cause text w =
     (if w_is_embedding (wk_requests w h)
      then FinalizeEmbeddingRequestOnce h (if cause = RequestCanceled then EmbeddingEngineStopped else EmbeddingInternalError) w
      else FinalizeGenerationRequestOnce h text True (upd_req h (\<lambda>r. r\<lparr>w_finish_cause := cause\<rparr>) w))"

definition finalize_generation_success :: "int \<Rightarrow> worker \<Rightarrow> bool \<times> worker" where
  "finalize_generation_success h w =
     (if w_is_embedding (wk_requests w h) then (False, w) else FinalizeGenerationRequestOnce h '''' False w)"

section \<open>Blocks, scheduler entry, active list\<close>

definition free_request_blocks :: "int \<Rightarrow> worker \<Rightarrow> worker" where
  "free_request_blocks h w =
     (if w_block_table (wk_requests w h) = [] then w
      else upd_req h (\<lambda>r. r\<lparr>w_block_table := []\<rparr>) (upd_blocks (Free (w_block_table (wk_requests w h))) w))"

definition drop_sequence :: "int \<Rightarrow> bool \<Rightarrow> worker \<Rightarrow> worker" where
  "drop_sequence seq_id completed w =
     w\<lparr>wk_scheduler := RemoveRequest seq_id completed (wk_scheduler w),
       wk_seq_to_request := (wk_seq_to_request w)(seq_id := None)\<rparr>"

definition remove_request_from_scheduler :: "int \<Rightarrow> bool \<Rightarrow> worker \<Rightarrow> worker" where
  "remove_request_from_scheduler h completed w =
     (if 0 \<le> w_seq_id (wk_requests w h) then drop_sequence (w_seq_id (wk_requests w h)) completed w else w)"

text \<open>The way every failure of an active request ends.\<close>

definition fail_request :: "int \<Rightarrow> decode_finish_cause \<Rightarrow> string \<Rightarrow> worker \<Rightarrow> worker" where
  "fail_request h cause text w =
     remove_request_from_scheduler h False (free_request_blocks h (snd (finalize_generation_error h cause text w)))"

definition reap_finished_requests :: "worker \<Rightarrow> worker" where
  "reap_finished_requests w = w\<lparr>wk_active := filter (\<lambda>h. \<not> w_finished (wk_requests w h)) (wk_active w)\<rparr>"

text \<open>
  The cancellation pass walks over the active requests and removes the cancelled ones from the scheduler only afterwards.
\<close>

definition cancel_active :: "int \<Rightarrow> int list \<times> worker \<Rightarrow> int list \<times> worker" where
  "cancel_active h = (\<lambda>(ids, w).
     let r = wk_requests w h
     in if w_cancelled r \<and> \<not> w_finished r
        then (if 0 \<le> w_seq_id r then ids @ [w_seq_id r] else ids,
              free_request_blocks h (snd (finalize_generation_error h RequestCanceled ''Error: request canceled'' w)))
        else (ids, w))"

definition process_cancellations :: "worker \<Rightarrow> worker" where
  "process_cancellations w =
     (let (ids, w1) = fold cancel_active (wk_active w) ([], w) in fold (\<lambda>i. drop_sequence i False) ids w1)"

definition flush_one :: "int \<Rightarrow> (int \<times> int) list \<times> worker \<Rightarrow> (int \<times> int) list \<times> worker" where
  "flush_one h = (\<lambda>(updates, w).
     let r = wk_requests w h
     in if w_seq_id r < 0 \<or> w_pending_scheduler_progress r \<le> 0 \<or> w_finished r then (updates, w)
        else (updates @ [(w_seq_id r, w_pending_scheduler_progress r)],
              upd_req h (\<lambda>r. r\<lparr>w_pending_scheduler_progress := 0\<rparr>) w))"

definition flush_scheduler_progress :: "int list \<Rightarrow> worker \<Rightarrow> worker" where
  "flush_scheduler_progress hs w =
     (let (updates, w1) = fold flush_one hs ([], w)
      in if updates = [] then w1 else w1\<lparr>wk_scheduler := UpdateProgressBatch updates (wk_scheduler w1)\<rparr>)"

section \<open>Admission\<close>

text \<open>
  What the loop reads and never writes: the model and its cache, the configuration, the parameters of the prefill policy, the
  stop tokens, and whether the repetition guard covers the model and with which limits.
\<close>

record worker_env =
  we_ggml :: ggml
  we_cache :: paged_kv_cache
  we_model :: "model_view option"
  we_config :: worker_config
  we_salt :: u64
  we_arch :: target_arch
  we_environment :: environment
  we_memory_oracle :: memory_oracle
  we_available_bytes :: u64
  we_zero_fill_prefill_kv_blocks :: bool
  we_eos_token_id :: int
  we_stop_token_ids :: "int list"
  we_loop_guarded :: bool
  we_qwen36 :: bool

text \<open>
  A popped request before it reaches the scheduler: \<open>running\<close> is the engine status, \<open>pending_cancel\<close> the result of
  \<^verbatim>\<open>ConsumePendingCancellation\<close>. Requests that execute a graph take another path and are left out. \<open>False\<close> means the request was
  finished here and goes back to the pool.
\<close>

definition screen_request :: "bool \<Rightarrow> bool \<Rightarrow> int \<Rightarrow> worker \<Rightarrow> bool \<times> worker" where
  "screen_request running pending_cancel h w =
     (if \<not> running
      then (False, snd (finalize_generation_error h RequestCanceled ''Error: Engine shutdown'' (upd_req h (\<lambda>r. r\<lparr>w_cancelled := True\<rparr>) w)))
      else let w1 = (if pending_cancel then upd_req h (\<lambda>r. r\<lparr>w_cancelled := True\<rparr>) w else w)
           in if w_cancelled (wk_requests w1 h)
              then (False, snd (finalize_generation_error h RequestCanceled ''Error: request canceled'' w1))
              else (True, w1))"

text \<open>
  Registration with the scheduler, after the recurrent state of the request has been set up.
\<close>

definition admit_request :: "worker_env \<Rightarrow> int \<Rightarrow> int \<Rightarrow> worker \<Rightarrow> bool \<times> worker" where
  "admit_request e now h w0 =
     (let w = upd_req h (\<lambda>r. r\<lparr>w_start_time := now\<rparr>) w0
      in if rq_tokens (w_view (wk_requests w h)) = []
         then (False, snd (finalize_generation_error h MissingTokens ''Error: Missing tokens'' w))
         else
           let v1 = InitializeRequestPrefixCacheState (we_config e) (we_model e) (w_view (wk_requests w h));
               resolved = ResolveModelPrefillChunkTokens (we_arch e) (we_environment e) (we_model e) (Some v1);
               (chunk, v2) = ApplyGraphContextPrefillChunkDowngrade (we_arch e) (we_memory_oracle e) (we_model e) (we_available_bytes e) resolved v1;
               w1 = upd_req h (\<lambda>r. r\<lparr>w_view := v2, w_prefill_chunk_tokens_effective := max 0 chunk\<rparr>) w;
               r = wk_requests w1 h; prompt = rq_original_prompt_tokens_for_cache v2;
               (seq_id, s') = AddRequest (we_salt e) now (w_id r) (int (length prompt)) (w_max_tokens r) (w_priority r)
                 (if rq_prefix_cache_allowed v2 then Some prompt else None) (\<not> w_is_embedding r)
                 (ModelRequiresPrefixStateSnapshot (we_model e)) chunk
                 (BuildHybridSSMSnapshotValidatorForRequest (we_model e) (Some v2)) (wk_scheduler w1);
               w2 = w1\<lparr>wk_scheduler := s'\<rparr>
           in if seq_id < 0
              then (False, snd (finalize_generation_error h SchedulerRejected
                     ''Error: Request cannot be scheduled (queue full or prefill budget exceeded)'' w2))
              else (True, (upd_req h (\<lambda>r. r\<lparr>w_seq_id := seq_id, w_empty_schedule_stall_count := 0, w_last_progress_time := w_start_time r\<rparr>) w2)
                     \<lparr>wk_seq_to_request := (wk_seq_to_request w2)(seq_id \<mapsto> h), wk_active := wk_active w2 @ [h]\<rparr>))"

end
