(* ===== verification/Worker_Schedule.thy ===== *)
theory Worker_Schedule
  imports Worker_State
begin

text \<open>
  How the worker obtains a schedule and applies it to its requests: the direct schedule for a single request, then, for a
  schedule of the scheduler, new blocks, prefix-cache hits, swap-in, freed blocks and swap-out (steps 3 to 6 of the loop in
  \<^verbatim>\<open>core/src/runtime/worker.cpp\<close>), and what happens when the schedule is empty (step 7).
\<close>

section \<open>The direct schedule of a single request\<close>

definition ShouldBypassSingleRequestFastPathForLongHybridSSM :: "model_view option \<Rightarrow> worker_request \<Rightarrow> bool" where
  "ShouldBypassSingleRequestFastPathForLongHybridSSM model r =
     (case model of
        None \<Rightarrow> False
      | Some m \<Rightarrow> mv_is_hybrid_ssm m \<and> w_is_prefill r \<and> BLOCK_SIZE < int (length (rq_tokens (w_view r))))"

definition fast_path_eligible :: "worker_env \<Rightarrow> bool \<Rightarrow> worker \<Rightarrow> bool" where
  "fast_path_eligible e pending_empty w \<longleftrightarrow>
     pending_empty \<and> length (wk_active w) = 1 \<and>
     (let st = GetStats (wk_scheduler w); r = wk_requests w (hd (wk_active w))
      in waiting_count st = 0 \<and> swapped_count st = 0 \<and> running_count st \<le> 1 \<and>
         \<not> w_finished r \<and> \<not> w_is_embedding r \<and> \<not> w_is_swapped r \<and> \<not> w_cancelled r \<and> 0 \<le> w_seq_id r \<and>
         rq_tokens (w_view r) \<noteq> [] \<and> \<not> ShouldBypassSingleRequestFastPathForLongHybridSSM (we_model e) r)"

definition direct_output :: "worker_request \<Rightarrow> int \<Rightarrow> scheduler_output" where
  "direct_output r n =
     (if w_is_prefill r
      then SchedulerOutput\<lparr>prefill_seq_ids := [w_seq_id r], num_prefill_tokens := n, total_tokens := n, batch_context_len := w_n_past r\<rparr>
      else SchedulerOutput\<lparr>decode_seq_ids := [w_seq_id r], num_decode_tokens := 1, total_tokens := n, batch_context_len := w_n_past r\<rparr>)"

definition grow_table :: "int \<Rightarrow> int \<Rightarrow> worker \<Rightarrow> worker" where
  "grow_table h blocks_needed w =
     (let have = int (length (w_block_table (wk_requests w h)))
      in if have < blocks_needed
         then let (new_blocks, bm') = Allocate (blocks_needed - have) (wk_blocks w); w1 = upd_blocks (\<lambda>_. bm') w
              in if int (length new_blocks) = blocks_needed - have
                 then upd_req h (\<lambda>r. r\<lparr>w_block_table := w_block_table r @ new_blocks\<rparr>) w1 else w1
         else w)"

definition single_request_fast_path :: "worker_env \<Rightarrow> bool \<Rightarrow> worker \<Rightarrow> scheduler_output option \<times> worker" where
  "single_request_fast_path e pending_empty w =
     (if \<not> fast_path_eligible e pending_empty w then (None, w)
      else
        let h = hd (wk_active w); r = wk_requests w h;
            (probe, bm') = ProbeReusablePrefixCacheForRequest (we_salt e) (we_model e) (Some (w_view r)) (Some (wk_blocks w));
            w1 = upd_blocks (\<lambda>_. the bm') w
        in if 0 < cached_tokens probe \<and> cached_block_ids probe \<noteq> []
           then (None, upd_req h (\<lambda>r. r\<lparr>w_view := (w_view r)\<lparr>rq_prefix_cache_skip_reason :=
                  ''single_request_fast_path_bypassed_for_prefix_cache''\<rparr>\<rparr>) w1)
           else
             let requested = (if w_is_prefill r then int (length (rq_tokens (w_view r))) else 1);
                 n = (if w_is_prefill r
                      then ResolveRecurrentPrefixSnapshotPrefillTokens (we_model e) (rq_prefix_cache_allowed (w_view r)) (w_n_past r) requested
                      else requested)
             in if n \<le> 0 then (None, w1)
                else let blocks_needed = (w_n_past r + n + BLOCK_SIZE - 1) sdiv BLOCK_SIZE;
                         w2 = grow_table h blocks_needed w1
                     in if blocks_needed \<le> int (length (w_block_table (wk_requests w2 h)))
                        then (Some (direct_output r n), w2) else (None, w2))"

section \<open>Applying a schedule\<close>

definition with_request :: "int \<Rightarrow> (int \<Rightarrow> worker \<Rightarrow> worker) \<Rightarrow> worker \<Rightarrow> worker" where
  "with_request seq_id f w = (case wk_seq_to_request w seq_id of None \<Rightarrow> w | Some h \<Rightarrow> f h w)"

definition append_blocks :: "int list \<Rightarrow> int \<Rightarrow> worker \<Rightarrow> worker" where
  "append_blocks ids h = upd_req h (\<lambda>r. r\<lparr>w_block_table := w_block_table r @ ids\<rparr>)"

definition apply_new_blocks :: "int \<times> int list \<Rightarrow> worker \<Rightarrow> worker" where
  "apply_new_blocks = (\<lambda>(seq_id, ids). with_request seq_id (append_blocks ids))"

text \<open>Restoring the recurrent state that was saved with the last cached block.\<close>

definition restore_snapshot :: "worker_env \<Rightarrow> prefix_cache_info \<Rightarrow> int \<Rightarrow> worker \<Rightarrow> worker" where
  "restore_snapshot e hit h w =
     (let r = wk_requests w h
      in if \<not> ModelRequiresPrefixStateSnapshot (we_model e) \<or> pci_cached_block_ids hit = [] \<or> rq_ssm_runtime_states (w_view r) = []
         then w
         else
           let block = last (pci_cached_block_ids hit);
               w1 = upd_req h (\<lambda>r. r\<lparr>w_snapshot_restore_attempted := True\<rparr>) w
           in if \<not> IsHybridSSMSnapshotRestoreAllowedForModel (we_config e) (we_model e) then w1
              else case (LoadHybridSSMSnapshotForBlock (wk_blocks w) block,
                         BuildHybridSSMSnapshotValidatorForRequest (we_model e) (Some (w_view r))) of
                     (Some snapshot, Some valid) \<Rightarrow>
                       if 0 < pci_cached_tokens hit \<and> pci_cached_tokens hit smod BLOCK_SIZE = 0 \<and> valid snapshot
                       then upd_req h (\<lambda>r. r\<lparr>w_view := (w_view r)\<lparr>rq_ssm_runtime_states := snapshot\<rparr>, w_snapshot_restore_applied := True\<rparr>) w1
                       else w1
                   | _ \<Rightarrow> w1)"

definition apply_prefix_hit :: "worker_env \<Rightarrow> prefix_cache_info \<Rightarrow> worker \<Rightarrow> worker" where
  "apply_prefix_hit e hit =
     with_request (pci_seq_id hit) (\<lambda>h w.
       restore_snapshot e hit h
         (upd_req h (\<lambda>r.
            r\<lparr>w_prefix_cache_hit := True,
              w_prefix_cache_skipped_tokens := w_prefix_cache_skipped_tokens r + pci_cached_tokens hit,
              w_prefix_cache_hit_blocks := w_prefix_cache_hit_blocks r + int (length (pci_cached_block_ids hit)),
              w_block_table := w_block_table r @ pci_cached_block_ids hit,
              w_n_past := w_n_past r + pci_cached_tokens hit,
              w_registered_prefix_blocks := max (w_registered_prefix_blocks r) (pci_cached_tokens hit sdiv BLOCK_SIZE),
              w_view := (w_view r)\<lparr>rq_prefix_cache_allowed := IsPrefixCacheAllowedForModel (we_config e) (we_model e),
                rq_prefix_cache_skip_reason := ''none'',
                rq_tokens := (if 0 < pci_cached_tokens hit \<and> pci_cached_tokens hit \<le> int (length (rq_tokens (w_view r)))
                              then drop (nat (pci_cached_tokens hit)) (rq_tokens (w_view r)) else rq_tokens (w_view r))\<rparr>\<rparr>) w))"

definition swap_in_request :: "worker_env \<Rightarrow> int \<Rightarrow> worker \<Rightarrow> worker" where
  "swap_in_request e h w =
     (let r = wk_requests w h; sw = w_swap_state r
      in if \<not> sw_active sw then w
         else if int (length (w_block_table r)) \<noteq> sw_num_blocks sw
         then remove_request_from_scheduler h False
                (snd (finalize_generation_error h OutOfMemory ''Error: Swap-in failed''
                  (upd_req h (\<lambda>r. r\<lparr>w_swap_state := clear_swap, w_is_swapped := False\<rparr>) (free_request_blocks h w))))
         else upd_req h (\<lambda>r. r\<lparr>w_swap_state := clear_swap, w_is_swapped := False\<rparr>)
                (w\<lparr>wk_memory := RestoreBlocksFromHost (we_ggml e) (we_cache e) (w_block_table r) (sw_k_data sw, sw_v_data sw) (wk_memory w)\<rparr>))"

definition swap_out_request :: "worker_env \<Rightarrow> int \<Rightarrow> worker \<Rightarrow> worker" where
  "swap_out_request e h w =
     (let r = wk_requests w h
      in if w_block_table r = [] then w
         else let (k, v) = CopyBlocksToHost (we_ggml e) (we_cache e) (w_block_table r) (wk_memory w)
              in upd_req h (\<lambda>r. r\<lparr>w_block_table := [], w_is_swapped := True,
                     w_swap_state := \<lparr>sw_active = True, sw_total_tokens = w_n_past r, sw_num_blocks = int (length (w_block_table r)),
                                      sw_k_data = k, sw_v_data = v\<rparr>\<rparr>)
                   (upd_blocks (Free (w_block_table r)) w))"

definition apply_schedule :: "worker_env \<Rightarrow> scheduler_output \<Rightarrow> worker \<Rightarrow> worker" where
  "apply_schedule e out w =
     (let w1 = fold apply_new_blocks (new_block_allocations out) w;
          w2 = (if IsPrefixCacheAllowedForModel (we_config e) (we_model e)
                then fold (apply_prefix_hit e) (prefix_cache_hits out) w1 else w1);
          w3 = fold (\<lambda>i. with_request i (swap_in_request e)) (swap_in_seq_ids out) w2;
          w4 = fold (\<lambda>(_, ids). upd_blocks (Free ids)) (freed_blocks out) w3
      in fold (\<lambda>i. with_request i (swap_out_request e)) (preempted_seq_ids out) w4)"

text \<open>Steps 3 to 6.\<close>

definition schedule_step :: "worker_env \<Rightarrow> int \<Rightarrow> bool \<Rightarrow> worker \<Rightarrow> scheduler_output \<times> worker" where
  "schedule_step e now pending_empty w =
     (case single_request_fast_path e pending_empty w of
        (Some out, w1) \<Rightarrow> (out, w1)
      | (None, w1) \<Rightarrow>
          let w2 = flush_scheduler_progress (wk_active w1) w1; (s', out) = Schedule now (wk_scheduler w2)
          in (out, apply_schedule e out (w2\<lparr>wk_scheduler := s'\<rparr>)))"

section \<open>An empty schedule\<close>

abbreviation EmptyScheduleWarnAfterMs :: int where "EmptyScheduleWarnAfterMs \<equiv> 250"
abbreviation EmptyScheduleFailAfterMs :: int where "EmptyScheduleFailAfterMs \<equiv> 2000"

definition idle_ms :: "int \<Rightarrow> worker_request \<Rightarrow> int" where
  "idle_ms now r = (now - (if w_last_progress_time r = 0 then w_start_time r else w_last_progress_time r)) sdiv 1000000"

definition reset_empty_schedule_watchdog :: "worker \<Rightarrow> worker" where
  "reset_empty_schedule_watchdog w =
     (fold (\<lambda>h w. if w_finished (wk_requests w h) then w else upd_req h (\<lambda>r. r\<lparr>w_empty_schedule_stall_count := 0\<rparr>) w) (wk_active w) w)
       \<lparr>wk_watchdog := (wk_watchdog w)\<lparr>wd_loops := 0, wd_first_seen := 0, wd_last_seen := 0, wd_last_log := 0\<rparr>\<rparr>"

text \<open>The watchdog after one more stalled iteration, and whether the stalled requests are given up.\<close>

definition tick_watchdog :: "int \<Rightarrow> watchdog \<Rightarrow> bool \<times> watchdog" where
  "tick_watchdog now wd =
     (let wd1 = (if wd_loops wd = 0 then wd\<lparr>wd_first_seen := now\<rparr> else wd);
          wd2 = wd1\<lparr>wd_last_seen := now, wd_loops := wd_loops wd1 + 1\<rparr>;
          stall_ms = (wd_last_seen wd2 - wd_first_seen wd2) sdiv 1000000
      in if EmptyScheduleFailAfterMs \<le> stall_ms then (True, wd2\<lparr>wd_failures := wd_failures wd2 + 1, wd_last_log := now\<rparr>)
         else if EmptyScheduleWarnAfterMs \<le> stall_ms \<and> (wd_last_log wd2 = 0 \<or> 1000000000 \<le> now - wd_last_log wd2)
         then (False, wd2\<lparr>wd_last_log := now\<rparr>) else (False, wd2))"

definition stalled_requests :: "int \<Rightarrow> worker \<Rightarrow> int list" where
  "stalled_requests now w = filter (\<lambda>h. \<not> w_finished (wk_requests w h) \<and> EmptyScheduleWarnAfterMs \<le> idle_ms now (wk_requests w h)) (wk_active w)"

definition fail_if_live :: "decode_finish_cause \<Rightarrow> string \<Rightarrow> int \<Rightarrow> worker \<Rightarrow> worker" where
  "fail_if_live cause text h w = (if w_finished (wk_requests w h) then w else fail_request h cause text w)"

definition handle_empty_schedule :: "int \<Rightarrow> scheduler_output \<Rightarrow> worker \<Rightarrow> worker" where
  "handle_empty_schedule now out w =
     (if list_all (\<lambda>h. w_finished (wk_requests w h)) (wk_active w)
      then reset_empty_schedule_watchdog (reap_finished_requests w)
      else if unschedulable_reason out \<noteq> UnschedNone
      then let target = (if 0 \<le> diagnostic_seq_id out then wk_seq_to_request w (diagnostic_seq_id out) else None);
               text = ''Error: Request cannot make scheduler progress ('' @ DescribeUnschedulableReason out @ '')''
           in reap_finished_requests (case target of None \<Rightarrow> w | Some h \<Rightarrow> fail_if_live SchedulerUnschedulable text h w)
      else
        let stalled = stalled_requests now w;
            w1 = fold (\<lambda>h. upd_req h (\<lambda>r. r\<lparr>w_empty_schedule_stall_count := w_empty_schedule_stall_count r + 1\<rparr>)) stalled w
        in if stalled = [] then reset_empty_schedule_watchdog w1
           else let (give_up, wd) = tick_watchdog now (wk_watchdog w1); w2 = w1\<lparr>wk_watchdog := wd\<rparr>
                in if give_up
                   then reap_finished_requests (fold (fail_if_live SchedulerEmptyBatchStall
                          ''Error: Scheduler stalled while request remained active'') stalled w2)
                   else w2)"

end
