(* ===== verification/Worker_Batch.thy ===== *)
theory Worker_Batch
  imports Worker_Schedule
begin

text \<open>
  Building a batch from a schedule (step 8 of the loop in \<^verbatim>\<open>core/src/runtime/worker.cpp\<close>): every block a sequence is about to
  write is made its own by copy-on-write, then its tokens, positions and block table go into the batch. A batch that comes out
  empty although work was scheduled is a stall.
\<close>

section \<open>Copy on write\<close>

definition ensure_request_block_writable :: "worker_env \<Rightarrow> int \<Rightarrow> int \<Rightarrow> worker \<Rightarrow> bool \<times> worker" where
  "ensure_request_block_writable e h token_pos w =
     (if token_pos < 0 then (False, w)
      else
        let block_index = token_pos sdiv BLOCK_SIZE; table = w_block_table (wk_requests w h)
        in if block_index < 0 then (False, w)
           else if int (length table) \<le> block_index then (True, w)
           else
             let old = table ! nat block_index
             in if old < 0 then (False, w)
                else if \<not> IsShared (wk_blocks w) old then (True, w)
                else let (new, bm', m') = CopyOnWrite old (CopyBlockData (we_ggml e) (we_cache e)) (wk_blocks w, wk_memory w);
                         w1 = (upd_blocks (\<lambda>_. bm') w)\<lparr>wk_memory := m'\<rparr>
                     in if new < 0 then (False, w1)
                        else (True, upd_req h (\<lambda>r. r\<lparr>w_block_table := (w_block_table r)[nat block_index := new]\<rparr>) w1))"

text \<open>The loop over the blocks; it stops at the first one that cannot be made writable.\<close>

fun ensure_blocks :: "worker_env \<Rightarrow> int \<Rightarrow> int list \<Rightarrow> worker \<Rightarrow> bool \<times> worker" where
  "ensure_blocks e h [] w = (True, w)"
| "ensure_blocks e h (b # bs) w =
     (case ensure_request_block_writable e h (b * BLOCK_SIZE) w of
        (False, w1) \<Rightarrow> (False, w1)
      | (True, w1) \<Rightarrow> ensure_blocks e h bs w1)"

definition ensure_request_blocks_writable :: "worker_env \<Rightarrow> int \<Rightarrow> int \<Rightarrow> int \<Rightarrow> worker \<Rightarrow> bool \<times> worker" where
  "ensure_request_blocks_writable e h start_pos token_count w =
     (if token_count \<le> 0 then (True, w)
      else if start_pos < 0 then (False, w)
      else let end_pos = signed_take_bit 31 (start_pos + token_count - 1)
           in if end_pos < start_pos then (False, w)
              else ensure_blocks e h [start_pos sdiv BLOCK_SIZE .. end_pos sdiv BLOCK_SIZE] w)"

section \<open>The batch\<close>

record batch_spec =
  bs_tokens :: "int list"
  bs_pos :: "int list"
  bs_seq_id :: "nat list"
  bs_block_tables :: "int list list"
  bs_n_past :: "int list"
  bs_scheduler_seq_ids :: "int list"
  bs_inputs :: "int list list"

text \<open>The variables of the building loops; \<open>bb_kind\<close> is unset until the first request fixes the kind of the batch.\<close>

record batch_build =
  bb_worker :: worker
  bb_batch :: batch_spec
  bb_requests :: "int list"
  bb_token_counts :: "int list"
  bb_kind :: "bool option"
  bb_stalled :: "int list"
  bb_missing :: "int list"
  bb_scheduled :: nat

definition empty_batch :: batch_spec where
  "empty_batch = \<lparr>bs_tokens = [], bs_pos = [], bs_seq_id = [], bs_block_tables = [], bs_n_past = [], bs_scheduler_seq_ids = [], bs_inputs = []\<rparr>"

definition start_build :: "worker \<Rightarrow> batch_build" where
  "start_build w = \<lparr>bb_worker = w, bb_batch = empty_batch, bb_requests = [], bb_token_counts = [], bb_kind = None, bb_stalled = [],
     bb_missing = [], bb_scheduled = 0\<rparr>"

definition note_batch_build_stall :: "int \<Rightarrow> batch_build \<Rightarrow> batch_build" where
  "note_batch_build_stall h b =
     b\<lparr>bb_worker := upd_req h (\<lambda>r. r\<lparr>w_batch_build_stall_count := w_batch_build_stall_count r + 1\<rparr>) (bb_worker b),
       bb_stalled := bb_stalled b @ [h]\<rparr>"

text \<open>
  The checks both loops make before a request joins: it must be known, live, and of the kind of the batch.
\<close>

definition consider_request :: "int \<Rightarrow> (int \<Rightarrow> batch_build \<Rightarrow> batch_build) \<Rightarrow> batch_build \<Rightarrow> batch_build" where
  "consider_request seq_id join b0 =
     (let b = b0\<lparr>bb_scheduled := Suc (bb_scheduled b0)\<rparr>
      in case wk_seq_to_request (bb_worker b) seq_id of
           None \<Rightarrow> b\<lparr>bb_missing := bb_missing b @ [seq_id]\<rparr>
         | Some h \<Rightarrow>
             let r = wk_requests (bb_worker b) h
             in if w_finished r \<or> w_cancelled r then note_batch_build_stall h b
                else case bb_kind b of
                       None \<Rightarrow> join h (b\<lparr>bb_kind := Some (w_is_embedding r)\<rparr>)
                     | Some emb \<Rightarrow> if w_is_embedding r \<noteq> emb then note_batch_build_stall h b else join h b)"

definition add_to_batch :: "int list \<Rightarrow> int \<Rightarrow> batch_build \<Rightarrow> batch_build" where
  "add_to_batch tokens h b =
     (let r = wk_requests (bb_worker b) h; n = length tokens; idx = length (bb_requests b); bs = bb_batch b
      in b\<lparr>bb_batch := bs\<lparr>bs_tokens := bs_tokens bs @ tokens, bs_pos := bs_pos bs @ map (\<lambda>i. w_n_past r + int i) [0..<n],
             bs_seq_id := bs_seq_id bs @ replicate n idx, bs_block_tables := bs_block_tables bs @ [w_block_table r],
             bs_n_past := bs_n_past bs @ [w_n_past r], bs_scheduler_seq_ids := bs_scheduler_seq_ids bs @ [w_seq_id r],
             bs_inputs := bs_inputs bs @ [tokens]\<rparr>,
           bb_requests := bb_requests b @ [h], bb_token_counts := bb_token_counts b @ [int n],
           bb_worker := upd_req h (\<lambda>r. r\<lparr>w_batch_build_stall_count := 0\<rparr>) (bb_worker b)\<rparr>)"

definition tokens_to_take :: "scheduler_output \<Rightarrow> int \<Rightarrow> worker_request \<Rightarrow> int" where
  "tokens_to_take out seq_id r =
     (let n0 = int (length (rq_tokens (w_view r)));
          chunks = filter (\<lambda>c. chunk_seq_id c = seq_id \<and> 0 \<le> chunk_seq_id c \<and> 0 < chunk_tokens c) (prefill_chunks out);
          n1 = (if chunks = [] then n0 else min n0 (chunk_tokens (last chunks)))
      in if 0 < w_prefill_chunk_tokens_effective r then min n1 (w_prefill_chunk_tokens_effective r) else n1)"

definition zero_fill_blocks :: "worker_env \<Rightarrow> int list \<Rightarrow> memory \<Rightarrow> memory" where
  "zero_fill_blocks e table m =
     (let (k, v) = CopyBlocksToHost (we_ggml e) (we_cache e) table m
      in RestoreBlocksFromHost (we_ggml e) (we_cache e) table (replicate (length k) 0, replicate (length v) 0) m)"

definition save_prompt_tokens :: "request_view \<Rightarrow> request_view" where
  "save_prompt_tokens v =
     (let v1 = (if rq_original_prompt_tokens_for_cache v = [] then v\<lparr>rq_original_prompt_tokens_for_cache := rq_tokens v\<rparr> else v);
          v2 = (if rq_prompt_tokens_for_cache v1 = []
                then v1\<lparr>rq_prompt_tokens_for_cache := rq_original_prompt_tokens_for_cache v1\<rparr> else v1)
      in if rq_prompt_token_count v2 \<le> 0
         then v2\<lparr>rq_prompt_token_count := int (length (rq_original_prompt_tokens_for_cache v2))\<rparr> else v2)"

definition join_prefill :: "worker_env \<Rightarrow> scheduler_output \<Rightarrow> int \<Rightarrow> int \<Rightarrow> batch_build \<Rightarrow> batch_build" where
  "join_prefill e out seq_id h b =
     (let r = wk_requests (bb_worker b) h; n = tokens_to_take out seq_id r
      in if n \<le> 0 then b
         else case ensure_request_blocks_writable e h (w_n_past r) n (bb_worker b) of
                (False, w1) \<Rightarrow> note_batch_build_stall h (b\<lparr>bb_worker := w1\<rparr>)
              | (True, w1) \<Rightarrow>
                  let table = w_block_table (wk_requests w1 h);
                      w2 = (if we_zero_fill_prefill_kv_blocks e \<and> table \<noteq> []
                            then w1\<lparr>wk_memory := zero_fill_blocks e table (wk_memory w1)\<rparr> else w1);
                      w3 = upd_req h (\<lambda>r. r\<lparr>w_view := save_prompt_tokens (w_view r)\<rparr>) w2
                  in add_to_batch (take (nat n) (rq_tokens (w_view (wk_requests w3 h)))) h (b\<lparr>bb_worker := w3\<rparr>))"

text \<open>A decoding request always holds the token it sampled last.\<close>

definition join_decode :: "worker_env \<Rightarrow> int \<Rightarrow> batch_build \<Rightarrow> batch_build" where
  "join_decode e h b =
     (let r = wk_requests (bb_worker b) h
      in case ensure_request_blocks_writable e h (w_n_past r) 1 (bb_worker b) of
           (False, w1) \<Rightarrow> note_batch_build_stall h (b\<lparr>bb_worker := w1\<rparr>)
         | (True, w1) \<Rightarrow> add_to_batch [last (rq_tokens (w_view (wk_requests w1 h)))] h (b\<lparr>bb_worker := w1\<rparr>))"

definition build_batch :: "worker_env \<Rightarrow> scheduler_output \<Rightarrow> worker \<Rightarrow> batch_build" where
  "build_batch e out w =
     fold (\<lambda>i. consider_request i (join_decode e)) (decode_seq_ids out)
       (fold (\<lambda>i. consider_request i (join_prefill e out i)) (prefill_seq_ids out) (start_build (reset_empty_schedule_watchdog w)))"

section \<open>A batch without requests\<close>

definition handle_empty_batch :: "int \<Rightarrow> batch_build \<Rightarrow> worker" where
  "handle_empty_batch now b =
     (let w = bb_worker b; stalled = sort (remdups (bb_stalled b)); missing = sort (remdups (bb_missing b));
          oldest = fold (\<lambda>h k. if w_finished (wk_requests w h) then k else max k (idle_ms now (wk_requests w h))) stalled 0
      in if 0 < bb_scheduled b \<and> EmptyScheduleFailAfterMs \<le> oldest
         then reap_finished_requests
                (fold (\<lambda>i. drop_sequence i False) missing
                  (fold (fail_if_live BatchBuildStall ''Error: Scheduler scheduled work but batch construction stalled'') stalled w))
         else w)"

definition fail_batch_requests :: "string \<Rightarrow> string \<Rightarrow> decode_finish_cause \<Rightarrow> int list \<Rightarrow> worker \<Rightarrow> worker" where
  "fail_batch_requests reason text cause hs w =
     fold (\<lambda>h w. if w_finished (wk_requests w h) then w
                 else fail_request h cause text (upd_req h (\<lambda>r. r\<lparr>w_view := (w_view r)\<lparr>graph_ctx_fail_reason := reason\<rparr>\<rparr>) w)) hs w"

end
