(* ===== verification/Worker_Output.thy ===== *)
theory Worker_Output
  imports Worker_Batch
begin

text \<open>
  What the worker does with the result of a batch (step 10 of the loop in \<^verbatim>\<open>core/src/runtime/worker.cpp\<close>): the column of the
  logits a request samples from, progress of prefill and decode, registration of completed prompt blocks in the prefix cache,
  the sampled token and its text, blocks for the next token, and the end of the request. The sampled token and its text piece
  come from the sampler and the tokenizer and are arguments; grammar state and timing samples are left out.
\<close>

section \<open>The sampled column\<close>

definition ResolveSamplingLogitsColumnForRequestImpl ::
  "int \<Rightarrow> int \<Rightarrow> int \<Rightarrow> bool \<Rightarrow> int \<Rightarrow> int \<Rightarrow> int \<Rightarrow> int \<Rightarrow> int \<Rightarrow> string + int" where
  "ResolveSamplingLogitsColumnForRequestImpl token_offset processed_count output_columns sampled_from_prefill remaining_prompt_tokens
     n_past_before n_past_after sequence_index num_sequences =
     (let last_token_idx = token_offset + processed_count - 1
      in if token_offset < 0 then Inl ''negative token offset''
         else if processed_count \<le> 0 then Inl ''processed_count must be positive''
         else if output_columns \<le> 0 then Inl ''output tensor must expose at least one column''
         else if sampled_from_prefill \<and> remaining_prompt_tokens \<le> 0
         then Inl ''prefill sampling requires positive remaining prompt tokens''
         else if sampled_from_prefill \<and> processed_count \<noteq> remaining_prompt_tokens
         then Inl ''prefill sampling must use the final prompt chunk only''
         else if sampled_from_prefill \<and> n_past_after \<noteq> n_past_before + processed_count
         then Inl ''prefill sampling observed inconsistent n_past progression''
         else if 1 < num_sequences \<and> output_columns = num_sequences
         then (if sequence_index < 0 \<or> num_sequences \<le> sequence_index
               then Inl ''sampling sequence index is out of bounds for compact output tensor'' else Inr sequence_index)
         else if sampled_from_prefill \<and> output_columns = 1 then Inr 0
         else if last_token_idx < token_offset \<or> output_columns \<le> last_token_idx
         then Inl ''sampling logits column is out of bounds for output tensor''
         else Inr last_token_idx)"

section \<open>Prefix-cache registration\<close>

definition register_block :: "worker_env \<Rightarrow> int \<Rightarrow> int \<Rightarrow> worker \<Rightarrow> worker" where
  "register_block e h blk_idx w =
     (let r = wk_requests w h; v = w_view r; start = nat (blk_idx * BLOCK_SIZE); toks = rq_sequence_tokens_for_prefix_cache v;
          attach = (ModelRequiresPrefixStateSnapshot (we_model e) \<and> (blk_idx + 1) * BLOCK_SIZE = w_n_past r)
      in upd_req h (\<lambda>r. r\<lparr>w_prefix_cache_registered_blocks := w_prefix_cache_registered_blocks r + 1,
             w_prefix_cache_extended_blocks := w_prefix_cache_extended_blocks r + (if w_prefix_cache_hit_blocks r \<le> blk_idx then 1 else 0)\<rparr>)
           (upd_blocks (RegisterPrefixBlockWithTokens (w_block_table r ! nat blk_idx) (ComputeTokenHash (we_salt e) (take (start + 16) toks))
              (take 16 (drop start toks)) (if attach then rq_ssm_runtime_states v else [])) w))"

definition register_completed_prefix_blocks :: "worker_env \<Rightarrow> int \<Rightarrow> worker \<Rightarrow> worker" where
  "register_completed_prefix_blocks e h w =
     (let r = wk_requests w h; v = w_view r
      in if \<not> IsPrefixCacheAllowedForModel (we_config e) (we_model e) \<or> rq_sequence_tokens_for_prefix_cache v = [] \<or>
            w_block_table r = [] \<or> w_n_past r \<le> 0 then w
         else
           let prompt_blocks = int (length (rq_original_prompt_tokens_for_cache v)) sdiv BLOCK_SIZE;
               completed = min (w_n_past r sdiv BLOCK_SIZE) (min (int (length (w_block_table r))) prompt_blocks);
               total = int (length (rq_sequence_tokens_for_prefix_cache v));
               todo = takeWhile (\<lambda>i. i * BLOCK_SIZE + BLOCK_SIZE \<le> total) [w_registered_prefix_blocks r .. completed - 1];
               w1 = fold (register_block e h) todo w
           in if todo = [] then w1
              else upd_req h (\<lambda>r. r\<lparr>w_registered_prefix_blocks := max (w_registered_prefix_blocks r) (last todo + 1)\<rparr>) w1)"

section \<open>Progress\<close>

definition commit_prefill :: "worker_env \<Rightarrow> int \<Rightarrow> int \<Rightarrow> int \<Rightarrow> worker \<Rightarrow> bool \<times> worker" where
  "commit_prefill e now h processed w =
     (let remaining = int (length (rq_tokens (w_view (wk_requests w h))));
          w1 = register_completed_prefix_blocks e h
                 (upd_req h (\<lambda>r. r\<lparr>w_n_past := w_n_past r + processed, w_empty_schedule_stall_count := 0, w_last_progress_time := now\<rparr>) w);
          fin = (remaining \<le> processed); seq_id = w_seq_id (wk_requests w1 h);
          w2 = upd_req h (\<lambda>r. r\<lparr>w_pending_scheduler_progress := 0\<rparr>)
                 (if seq_id < 0 then w1 else w1\<lparr>wk_scheduler := OnPrefillChunkComplete seq_id processed fin (wk_scheduler w1)\<rparr>)
      in (fin, upd_req h (\<lambda>r. if fin
             then r\<lparr>w_is_prefill := False, w_view := (w_view r)\<lparr>rq_tokens := [], rq_prompt_tokens_for_cache := [], rq_original_prompt_tokens_for_cache := []\<rparr>\<rparr>
             else r\<lparr>w_view := (w_view r)\<lparr>rq_tokens := drop (nat processed) (rq_tokens (w_view r))\<rparr>\<rparr>) w2))"

definition commit_decode :: "worker_env \<Rightarrow> int \<Rightarrow> int \<Rightarrow> int \<Rightarrow> int \<Rightarrow> worker \<Rightarrow> worker" where
  "commit_decode e now h processed input_token w =
     (let w1 = upd_req h (\<lambda>r. r\<lparr>w_n_past := w_n_past r + processed\<rparr>) w; r = wk_requests w1 h; seq_id = w_seq_id r;
          w2 = (if 0 \<le> input_token \<and> int (length (rq_sequence_tokens_for_prefix_cache (w_view r))) = w_n_past r - 1
                then register_completed_prefix_blocks e h (upd_req h (\<lambda>r. r\<lparr>w_view := (w_view r)
                       \<lparr>rq_sequence_tokens_for_prefix_cache := rq_sequence_tokens_for_prefix_cache (w_view r) @ [input_token]\<rparr>\<rparr>) w1)
                else w1);
          w3 = upd_req h (\<lambda>r. r\<lparr>w_empty_schedule_stall_count := 0, w_last_progress_time := now, w_pending_scheduler_progress := 0\<rparr>) w2
      in if seq_id < 0 then w3 else w3\<lparr>wk_scheduler := OnDecodeStepComplete seq_id processed (wk_scheduler w3)\<rparr>)"

text \<open>The token joins the history, of which the last 2048 are kept; the repetition guard looks at it.\<close>

definition accept_token :: "worker_env \<Rightarrow> int \<Rightarrow> int \<Rightarrow> worker \<Rightarrow> worker" where
  "accept_token e h token =
     upd_req h (\<lambda>r0.
       let hist = w_token_history r0 @ [token];
           r = r0\<lparr>w_view := (w_view r0)\<lparr>rq_tokens := [token]\<rparr>, w_generated_count := w_generated_count r0 + 1,
                  w_token_history := drop (length hist - 2048) hist\<rparr>
       in if ShouldTerminateRepetitiveLoop (we_loop_guarded e) (we_qwen36 e) (w_generated_count r) (w_token_history r)
          then r\<lparr>w_finished := True, w_finish_cause := LoopGuard\<rparr> else r)"

definition emit_token :: "int \<Rightarrow> int \<Rightarrow> string \<Rightarrow> worker \<Rightarrow> string \<times> worker" where
  "emit_token h token piece w =
     (let (text, ts) = token_text piece (w_text (wk_requests w h));
          w1 = upd_req h (\<lambda>r. r\<lparr>w_text := ts\<rparr>) w
      in (text, if ts_has_callback ts \<and> (text \<noteq> [] \<or> ts_structured ts)
                then w1\<lparr>wk_events := wk_events w1 @ [TokenText h token text]\<rparr> else w1))"

text \<open>
  Blocks for the next token. The boolean is \<^verbatim>\<open>terminal_error_emitted\<close>. Every round adds one block.
\<close>

fun grow_for_next :: "nat \<Rightarrow> int \<Rightarrow> worker \<Rightarrow> bool \<times> worker" where
  "grow_for_next 0 h w = (False, w)"
| "grow_for_next (Suc missing) h w =
     (let (new_blocks, bm') = Allocate 1 (wk_blocks w); w1 = upd_blocks (\<lambda>_. bm') w
      in if new_blocks = []
         then finalize_generation_error h OutOfMemory ''Error: Out of memory''
                (upd_req h (\<lambda>r. r\<lparr>w_finished := True, w_finish_cause := OutOfMemory\<rparr>) w1)
         else grow_for_next missing h (upd_req h (\<lambda>r. r\<lparr>w_block_table := w_block_table r @ [hd new_blocks]\<rparr>) w1))"

definition reserve_next_block :: "int \<Rightarrow> worker \<Rightarrow> bool \<times> worker" where
  "reserve_next_block h w =
     (let r = wk_requests w h; blocks_needed = (w_n_past r + 1 + BLOCK_SIZE - 1) sdiv BLOCK_SIZE
      in grow_for_next (nat (blocks_needed - int (length (w_block_table r)))) h w)"

definition stop_on_sequence :: "int \<Rightarrow> string \<Rightarrow> worker \<Rightarrow> worker" where
  "stop_on_sequence h text =
     upd_req h (\<lambda>r. let (hit, ts) = note_stop text (w_text r); r1 = r\<lparr>w_text := ts\<rparr>
                    in if hit then r1\<lparr>w_finished := True, w_finish_cause := StopSequence\<rparr> else r1)"

definition finish_request :: "worker_env \<Rightarrow> int \<Rightarrow> int \<Rightarrow> bool \<Rightarrow> worker \<Rightarrow> worker" where
  "finish_request e h token error_emitted w =
     (let r = wk_requests w h
      in if \<not> (w_finished r \<or> IsStopTokenId (we_eos_token_id e) (we_stop_token_ids e) token \<or> w_max_tokens r \<le> w_generated_count r) then w
         else
           let w1 = upd_req h (\<lambda>r. r\<lparr>w_finish_cause := (if w_finished r then w_finish_cause r
                       else if IsStopTokenId (we_eos_token_id e) (we_stop_token_ids e) token then StopToken else MaxTokens),
                     w_finished := True\<rparr>) w;
               (tail, ts) = (if error_emitted then (None, w_text r) else tail_text (w_text r));
               w2 = (case tail of None \<Rightarrow> w1 | Some text \<Rightarrow> w1\<lparr>wk_events := wk_events w1 @ [TokenText h token text]\<rparr>);
               w3 = upd_req h (\<lambda>r. r\<lparr>w_text := ts\<lparr>ts_utf8_pending := []\<rparr>\<rparr>) w2;
               w4 = (if error_emitted then w3 else snd (finalize_generation_success h w3))
           in remove_request_from_scheduler h True (free_request_blocks h w4))"

section \<open>One request of the batch\<close>

definition process_generation :: "worker_env \<Rightarrow> int \<Rightarrow> int \<Rightarrow> int \<Rightarrow> int \<Rightarrow> string \<Rightarrow> worker \<Rightarrow> worker" where
  "process_generation e now h processed token piece w =
     (let r = wk_requests w h; was_prefill = w_is_prefill r;
          (go_on, w1) = (if was_prefill then commit_prefill e now h processed w else (True, w))
      in if \<not> go_on then w1
         else
           let toks = rq_tokens (w_view (wk_requests w1 h));
               input_token = (if \<not> was_prefill \<and> processed = 1 \<and> length toks = 1 then hd toks else -1);
               (text, w2) = emit_token h token piece (accept_token e h token w1);
               w3 = (if was_prefill then w2 else commit_decode e now h processed input_token w2);
               (error_emitted, w4) = reserve_next_block h w3
           in finish_request e h token error_emitted (stop_on_sequence h text w4))"

definition process_embedding :: "int \<Rightarrow> worker \<Rightarrow> worker" where
  "process_embedding h w =
     remove_request_from_scheduler h True (free_request_blocks h (snd (FinalizeEmbeddingRequestOnce h EmbeddingOk w)))"

text \<open>
  The whole batch. \<open>sample\<close> gives the token drawn for a request and its text piece.
\<close>

definition process_outputs :: "worker_env \<Rightarrow> int \<Rightarrow> (int \<Rightarrow> int \<times> string) \<Rightarrow> batch_build \<Rightarrow> worker" where
  "process_outputs e now sample b =
     (let one = (\<lambda>(h, n) w. if bb_kind b = Some True then process_embedding h w
                  else process_generation e now h n (fst (sample h)) (snd (sample h)) w)
      in reap_finished_requests (flush_scheduler_progress (bb_requests b) (fold one (zip (bb_requests b) (bb_token_counts b)) (bb_worker b))))"

end
