(* ===== verification/Worker_Ownership.thy ===== *)
theory Worker_Ownership
  imports Worker_Output Schedule_Laws Storage_Laws Scheduler_Reach
begin

text \<open>
  Who holds the blocks while the worker runs: every occurrence of a block in the table of an active request, and every block
  handed over but not yet entered in a table, is backed by a reference of its own in the block manager. The steps of the loop
  keep it so.
\<close>

section \<open>References behind holders\<close>

definition backed :: "block_manager \<Rightarrow> (int \<Rightarrow> nat) \<Rightarrow> bool" where
  "backed bm n \<longleftrightarrow> bm_inv bm \<and> (\<forall>b. 0 < n b \<longrightarrow> in_range bm b \<and> int (n b) \<le> ref_count (blk bm b))"

lemma backedI:
  assumes "bm_inv bm" and "\<And>b. 0 < n b \<Longrightarrow> in_range bm b" and "\<And>b. in_range bm b \<Longrightarrow> 0 < n b \<Longrightarrow> int (n b) \<le> ref_count (blk bm b)"
  shows "backed bm n"
  using assms by (simp add: backed_def)

lemma backed_range: "backed bm n \<Longrightarrow> 0 < n b \<Longrightarrow> in_range bm b"
  by (simp add: backed_def)

lemma backed_refs: "backed bm n \<Longrightarrow> 0 < n b \<Longrightarrow> int (n b) \<le> ref_count (blk bm b)"
  by (simp add: backed_def)

lemma backed_le: "backed bm n \<Longrightarrow> in_range bm b \<Longrightarrow> int (n b) \<le> ref_count (blk bm b)"
  by (cases "n b = 0") (auto simp: backed_def bm_inv_def block_ok_def)

lemma backed_inv: "backed bm n \<Longrightarrow> bm_inv bm"
  by (simp add: backed_def)

lemma backed_mono:
  assumes "backed bm n" and "\<And>b. n' b \<le> n b"
  shows "backed bm n'"
proof (rule backedI)
  show "in_range bm b" if "0 < n' b" for b using that assms(2) [of b] backed_range [OF assms(1), of b] by simp
  show "int (n' b) \<le> ref_count (blk bm b)" if "in_range bm b" for b using assms(2) [of b] backed_le [OF assms(1) that] by linarith
qed (rule backed_inv [OF assms(1)])

lemma count_list_pos: "0 < count_list xs x \<longleftrightarrow> x \<in> set xs"
  using count_list_0_iff [of xs x] by auto

lemma backed_Free:
  assumes "backed bm (\<lambda>b. n b + count_list ids b)"
  shows "backed (Free ids bm) n"
proof (rule backedI)
  show "bm_inv (Free ids bm)" using assms by (intro Free_inv) (rule backed_inv)
  show "in_range (Free ids bm) b" if "0 < n b" for b using that backed_range [OF assms, of b] by simp
  show "int (n b) \<le> ref_count (blk (Free ids bm) b)" if "in_range (Free ids bm) b" for b
    using that backed_le [OF assms, of b] by (simp add: Free_ref_count backed_inv [OF assms])
qed

lemma backed_change:
  assumes "backed bm n" and "bm_inv bm'" and "same_store bm bm'"
    and "\<And>b. in_range bm b \<Longrightarrow> ref_count (blk bm' b) = ref_count (blk bm b) + int (count_list ids b)" and "\<And>b. b \<in> set ids \<Longrightarrow> in_range bm b"
  shows "backed bm' (\<lambda>b. n b + count_list ids b)"
proof (rule backedI)
  fix b
  have "in_range bm' = in_range bm" using assms(3) by (rule same_store_range)
  moreover show "in_range bm' b" if "0 < n b + count_list ids b"
    using that assms(1,5) calculation backed_range [OF assms(1), of b] by (cases "n b = 0") (auto simp: count_list_pos)
  ultimately show "int (n b + count_list ids b) \<le> ref_count (blk bm' b)" if "in_range bm' b"
    using that backed_le [OF assms(1), of b] assms(4) by simp
qed (rule assms(2))

lemma backed_takes: "backed bm n \<Longrightarrow> takes bm ids bm' \<Longrightarrow> backed bm' (\<lambda>b. n b + count_list ids b)"
  by (rule backed_change) (auto simp: takes_ref_count dest: takesD)

lemma backed_unchanged: "backed bm n \<Longrightarrow> unchanged_refs bm bm' \<Longrightarrow> backed bm' n"
  using backed_change [of bm n bm' "[]"] by (simp add: unchanged_refs_def)

lemma backed_Allocate: "backed bm n \<Longrightarrow> Allocate k bm = (ids, bm') \<Longrightarrow> backed bm' (\<lambda>b. n b + count_list ids b)"
proof (cases "0 < k")
  case True
  moreover assume b: "backed bm n" and a: "Allocate k bm = (ids, bm')"
  ultimately show ?thesis using Allocate_spec [OF backed_inv [OF b] True a] backed_takes [OF b] backed_unchanged [OF b] by (auto split: if_splits)
qed (simp add: Allocate_def)

lemma backed_acquires: "backed bm n \<Longrightarrow> acquires bm ids bm' \<Longrightarrow> backed bm' (\<lambda>b. n b + count_list ids b)"
  by (rule backed_change) (auto simp: acquires_def)

lemma CopyOnWrite_store:
  assumes "bm_inv bm" and "CopyOnWrite i cb (bm, d) = (k, bm', d')"
  shows "same_store bm bm'"
proof -
  obtain j bm1 where a: "AllocateSingle bm = (j, bm1)" by fastforce
  then have "same_store bm bm1" using AllocateSingle_takes [OF assms(1) a] by (auto simp: takes_def split: if_splits)
  then show ?thesis using assms(2) by (auto simp: CopyOnWrite_def a Let_def same_store_def upd_blk_def split: if_splits)
qed

lemma backed_CopyOnWrite:
  assumes b: "backed bm (\<lambda>b. n b + count_list [i] b)" and sh: "IsShared bm i"
    and cow: "CopyOnWrite i cb (bm, d) = (k, bm', d')"
  shows "if k < 0 then unchanged_refs bm bm' \<and> d' = d
         else backed bm' (\<lambda>b. n b + count_list [k] b) \<and> k \<in> available bm \<and> k \<noteq> i \<and> d' = cb i k d \<and> ref_count (blk bm' k) = 1 \<and>
           same_store bm bm' \<and> (\<forall>j. in_range bm j \<and> j \<noteq> i \<and> j \<noteq> k \<longrightarrow> blk bm' j = blk bm j)"
proof (cases "available bm = {}")
  case True
  then show ?thesis using CopyOnWrite_oom [OF backed_inv [OF b] sh True cow] by simp
next
  case False
  note C = CopyOnWrite_shared [OF backed_inv [OF b] sh False cow]
  have st: "same_store bm bm'" by (rule CopyOnWrite_store [OF backed_inv [OF b] cow])
  have r: "in_range bm' = in_range bm" by (rule same_store_range [OF st])
  have k: "in_range bm k" "ref_count (blk bm k) = 0" using C by (auto simp: available_def)
  have nk: "n k = 0" using backed_le [OF b k(1)] k(2) C by auto
  have i: "in_range bm i" "1 < ref_count (blk bm i)" using sh by (simp_all add: IsShared_def)
  have "backed bm' (\<lambda>b. n b + count_list [k] b)"
  proof (rule backedI)
    show "in_range bm' j" if "0 < n j + count_list [k] j" for j
      using that k(1) backed_range [OF b, of j] by (auto simp: r split: if_splits)
    show "int (n j + count_list [k] j) \<le> ref_count (blk bm' j)" if "in_range bm' j" for j
      using that backed_le [OF b, of j] C nk by (cases "j = i"; cases "j = k") (auto simp: r)
  qed (use C in simp)
  then show ?thesis using C st k(1) by (auto simp: in_range_def)
qed

lemma install_prefix_refs:
  "in_range bm i \<Longrightarrow> bm_inv bm \<Longrightarrow> in_range bm j \<Longrightarrow> ref_count (blk (install_prefix i h x y bm) j) = ref_count (blk bm j)"
  by (auto simp: install_prefix_def Let_def erase_prefix_entry_def upd_blk_def blk_def in_range_def bm_inv_def nth_list_update)

lemma displace_refs:
  assumes "bm_inv bm" and "in_range bm j"
  shows "ref_count (blk (displace_prefix_owner i h bm) j) = ref_count (blk bm j)" and "same_store bm (displace_prefix_owner i h bm)"
  using assms Release_frame(1) Release_ref_count
  by (auto simp: displace_prefix_owner_def ReleasePrefixResidency_def same_store_def split: option.splits)

lemma Register_refs:
  assumes inv: "bm_inv bm"
  shows "unchanged_refs bm (RegisterPrefixBlockWithTokens i h toks snap bm)"
proof (cases "in_range bm i \<and> h \<noteq> 0")
  case True
  then have i: "in_range bm i" and h: "h \<noteq> 0" by simp_all
  let ?bm = "displace_prefix_owner i h bm"
  note D = displace_spec [OF inv i, of h]
  show ?thesis
  proof (cases "ref_count (blk bm i) > 0 \<or> cache_resident (blk bm i)")
    case True
    note L = live_displaced [OF inv i True, of h]
    show ?thesis unfolding unchanged_refs_def RegisterPrefixBlockWithTokens_install [OF inv i h True]
      using install_prefix_spec(1,6) [OF L(1,2) h L(3) D(3)] install_prefix_refs [OF L(2,1)] displace_refs(1) [OF inv]
        same_store_trans [OF D(2)] same_store_range [OF D(2)] by auto
  next
    case False
    then have "RegisterPrefixBlockWithTokens i h toks snap bm = ?bm" using i h D(1) by (simp add: RegisterPrefixBlockWithTokens_def Let_def)
    then show ?thesis using displace_inv [OF inv] D(2) displace_refs(1) [OF inv] by (simp add: unchanged_refs_def)
  qed
qed (use inv in \<open>auto simp: RegisterPrefixBlockWithTokens_def unchanged_refs_def\<close>)

section \<open>The worker's invariant\<close>

definition held :: "worker \<Rightarrow> int \<Rightarrow> nat" where
  "held w b = (\<Sum>h \<leftarrow> wk_active w. count_list (w_block_table (wk_requests w h)) b)"

text \<open>
  \<open>worker_ok w xs\<close>: the tables of the active requests and the blocks \<open>xs\<close> on their way to one are backed; the active list
  has no duplicates, and the map from sequences to requests names active requests under their own sequence number.
\<close>

definition worker_ok :: "worker \<Rightarrow> int list \<Rightarrow> bool" where
  "worker_ok w xs \<longleftrightarrow>
     distinct (wk_active w) \<and>
     (\<forall>i h. wk_seq_to_request w i = Some h \<longrightarrow> 0 \<le> i \<and> h \<in> set (wk_active w) \<and> w_seq_id (wk_requests w h) = i) \<and>
     backed (wk_blocks w) (\<lambda>b. held w b + count_list xs b)"

abbreviation keeps_tables :: "(worker_request \<Rightarrow> worker_request) \<Rightarrow> bool" where
  "keeps_tables f \<equiv> \<forall>r. w_block_table (f r) = w_block_table r \<and> w_seq_id (f r) = w_seq_id r"

lemma upd_sel [simp]:
  "wk_requests (upd_req h f w) = (wk_requests w)(h := f (wk_requests w h))" "wk_active (upd_req h f w) = wk_active w"
  "wk_seq_to_request (upd_req h f w) = wk_seq_to_request w" "wk_scheduler (upd_req h f w) = wk_scheduler w"
  "wk_memory (upd_req h f w) = wk_memory w" "wk_events (upd_req h f w) = wk_events w"
  "wk_requests (upd_blocks g w) = wk_requests w" "wk_active (upd_blocks g w) = wk_active w"
  "wk_seq_to_request (upd_blocks g w) = wk_seq_to_request w" "wk_blocks (upd_blocks g w) = g (wk_blocks w)"
  "wk_memory (upd_blocks g w) = wk_memory w" "wk_events (upd_blocks g w) = wk_events w"
  "waiting_queue (wk_scheduler (upd_blocks g w)) = waiting_queue (wk_scheduler w)"
  by (simp_all add: upd_req_def upd_blocks_def)

lemma held_cong: "wk_active w' = wk_active w \<Longrightarrow> (\<And>h. w_block_table (wk_requests w' h) = w_block_table (wk_requests w h)) \<Longrightarrow> held w' = held w"
  by (simp add: held_def fun_eq_iff)

lemma worker_ok_cong:
  assumes "wk_active w' = wk_active w" and "wk_seq_to_request w' = wk_seq_to_request w" and "wk_blocks w' = wk_blocks w"
    and "\<And>h. w_block_table (wk_requests w' h) = w_block_table (wk_requests w h)" and "\<And>h. w_seq_id (wk_requests w' h) = w_seq_id (wk_requests w h)"
  shows "worker_ok w' xs = worker_ok w xs"
  using held_cong [OF assms(1,4)] assms by (simp add: worker_ok_def)

lemma worker_ok_frame [simp]:
  "keeps_tables f \<Longrightarrow> worker_ok (upd_req h f w) xs = worker_ok w xs"
  "worker_ok (w\<lparr>wk_events := ev\<rparr>) xs = worker_ok w xs" "worker_ok (w\<lparr>wk_memory := m\<rparr>) xs = worker_ok w xs"
  "worker_ok (w\<lparr>wk_watchdog := wd\<rparr>) xs = worker_ok w xs"
  "block_mgr s = wk_blocks w \<Longrightarrow> worker_ok (w\<lparr>wk_scheduler := s\<rparr>) xs = worker_ok w xs"
  by (rule worker_ok_cong; simp)+

lemma worker_okD:
  assumes "worker_ok w xs"
  shows "distinct (wk_active w)" "bm_inv (wk_blocks w)" "backed (wk_blocks w) (\<lambda>b. held w b + count_list xs b)"
    "wk_seq_to_request w i = Some h \<Longrightarrow> h \<in> set (wk_active w) \<and> w_seq_id (wk_requests w h) = i \<and> 0 \<le> i"
  using assms backed_inv unfolding worker_ok_def by blast+

lemma worker_ok_mono: "worker_ok w xs \<Longrightarrow> (\<And>b. count_list ys b \<le> count_list xs b) \<Longrightarrow> worker_ok w ys"
  unfolding worker_ok_def by (meson add_left_mono backed_mono)

lemma worker_ok_drop: "worker_ok w (xs @ ys) \<Longrightarrow> worker_ok w ys"
  by (erule worker_ok_mono) simp

lemma sum_list_replace:
  "distinct hs \<Longrightarrow> h \<in> set hs \<Longrightarrow> (\<Sum>x\<leftarrow>hs. f x :: nat) = f h + (\<Sum>x\<leftarrow>remove1 h hs. f x)"
  by (induction hs) auto

lemma held_split:
  assumes "distinct (wk_active w)" and "h \<in> set (wk_active w)"
  shows "held w b = count_list (w_block_table (wk_requests w h)) b + (\<Sum>x\<leftarrow>remove1 h (wk_active w). count_list (w_block_table (wk_requests w x)) b)"
  unfolding held_def by (rule sum_list_replace [OF assms])

text \<open>A request's table is replaced, in step with the block manager.\<close>

lemma worker_ok_retable:
  assumes ok: "worker_ok w xs" and h: "h \<in> set (wk_active w)"
    and act: "wk_active w' = wk_active w" and seq: "wk_seq_to_request w' = wk_seq_to_request w"
    and oth: "\<And>x. x \<noteq> h \<Longrightarrow> wk_requests w' x = wk_requests w x" and sid: "w_seq_id (wk_requests w' h) = w_seq_id (wk_requests w h)"
    and bm: "\<And>n. backed (wk_blocks w) (\<lambda>b. n b + count_list (w_block_table (wk_requests w h)) b + count_list xs b) \<Longrightarrow>
      backed (wk_blocks w') (\<lambda>b. n b + count_list (w_block_table (wk_requests w' h)) b + count_list ys b)"
  shows "worker_ok w' ys"
proof -
  have d: "distinct (wk_active w)" by (rule worker_okD(1) [OF ok])
  let ?n = "\<lambda>b. \<Sum>x\<leftarrow>remove1 h (wk_active w). count_list (w_block_table (wk_requests w x)) b"
  have old: "held w b = ?n b + count_list (w_block_table (wk_requests w h)) b" for b using held_split [OF d h] by simp
  have "h \<notin> set (remove1 h (wk_active w))" using d by simp
  then have "(\<Sum>x\<leftarrow>remove1 h (wk_active w). count_list (w_block_table (wk_requests w' x)) b) = ?n b" for b
    using oth by (intro arg_cong [of _ _ sum_list] map_cong refl) metis
  then have new: "held w' b = ?n b + count_list (w_block_table (wk_requests w' h)) b" for b
    using held_split [of w' h b] d h act by simp
  have ids: "w_seq_id (wk_requests w' x) = w_seq_id (wk_requests w x)" for x using oth sid by (cases "x = h") simp_all
  have "backed (wk_blocks w') (\<lambda>b. ?n b + count_list (w_block_table (wk_requests w' h)) b + count_list ys b)"
    by (rule bm) (use worker_okD(3) [OF ok] in \<open>simp add: old\<close>)
  then show ?thesis using ok unfolding worker_ok_def act seq ids new by simp
qed

section \<open>Operations on one request\<close>

lemma finalize_sel [simp]:
  "wk_active (snd (FinalizeGenerationRequestOnce h t er w)) = wk_active w" "wk_active (snd (FinalizeEmbeddingRequestOnce h st w)) = wk_active w"
  "wk_active (snd (finalize_generation_error h c t w)) = wk_active w" "wk_active (snd (finalize_generation_success h w)) = wk_active w"
  "wk_blocks (snd (finalize_generation_error h c t w)) = wk_blocks w" "wk_memory (snd (finalize_generation_error h c t w)) = wk_memory w"
  "wk_seq_to_request (snd (finalize_generation_error h c t w)) = wk_seq_to_request w"
  "wk_seq_to_request (snd (finalize_generation_success h w)) = wk_seq_to_request w"
  "wk_seq_to_request (snd (FinalizeEmbeddingRequestOnce h st w)) = wk_seq_to_request w"
  "w_seq_id (wk_requests (snd (FinalizeEmbeddingRequestOnce h st w)) x) = w_seq_id (wk_requests w x)"
  "w_seq_id (wk_requests (snd (finalize_generation_error h c t w)) x) = w_seq_id (wk_requests w x)"
  "w_seq_id (wk_requests (snd (finalize_generation_success h w)) x) = w_seq_id (wk_requests w x)"
  by (auto simp: FinalizeGenerationRequestOnce_def FinalizeEmbeddingRequestOnce_def finalize_generation_error_def
      finalize_generation_success_def Let_def)

lemma finalize_ok [simp]:
  "worker_ok (snd (FinalizeEmbeddingRequestOnce h st w)) xs = worker_ok w xs"
  "worker_ok (snd (finalize_generation_error h c t w)) xs = worker_ok w xs" "worker_ok (snd (finalize_generation_success h w)) xs = worker_ok w xs"
  by (simp_all add: FinalizeGenerationRequestOnce_def FinalizeEmbeddingRequestOnce_def finalize_generation_error_def
      finalize_generation_success_def Let_def)

lemma free_sel [simp]:
  "wk_active (free_request_blocks h w) = wk_active w" "wk_seq_to_request (free_request_blocks h w) = wk_seq_to_request w"
  "wk_memory (free_request_blocks h w) = wk_memory w" "wk_events (free_request_blocks h w) = wk_events w"
  "w_seq_id (wk_requests (free_request_blocks h w) x) = w_seq_id (wk_requests w x)"
  "w_block_table (wk_requests (free_request_blocks h w) h) = []"
  by (simp_all add: free_request_blocks_def)

lemma free_request_blocks_ok:
  assumes "worker_ok w xs" and "h \<in> set (wk_active w)"
  shows "worker_ok (free_request_blocks h w) xs"
proof (cases "w_block_table (wk_requests w h) = []")
  case False
  show ?thesis
  proof (rule worker_ok_retable [OF assms])
    show "backed (wk_blocks (free_request_blocks h w)) (\<lambda>b. n b + count_list (w_block_table (wk_requests (free_request_blocks h w) h)) b + count_list xs b)"
      if "backed (wk_blocks w) (\<lambda>b. n b + count_list (w_block_table (wk_requests w h)) b + count_list xs b)" for n
      using backed_Free [of "wk_blocks w" "\<lambda>b. n b + count_list xs b" "w_block_table (wk_requests w h)"] that False
      by (simp add: free_request_blocks_def add_ac)
  qed (simp_all add: free_request_blocks_def)
qed (use assms in \<open>simp add: free_request_blocks_def\<close>)

lemma RemoveRequest_blocks [simp]: "block_mgr (RemoveRequest i fin s) = block_mgr s"
  by (simp add: RemoveRequest_def CleanupSequenceState_def Let_def)

lemma drop_sel [simp]:
  "wk_active (drop_sequence i c w) = wk_active w" "wk_requests (drop_sequence i c w) = wk_requests w" "wk_blocks (drop_sequence i c w) = wk_blocks w"
  "wk_memory (drop_sequence i c w) = wk_memory w" "wk_events (drop_sequence i c w) = wk_events w"
  "wk_seq_to_request (drop_sequence i c w) = (wk_seq_to_request w)(i := None)"
  "wk_active (remove_request_from_scheduler h c w) = wk_active w" "wk_requests (remove_request_from_scheduler h c w) = wk_requests w"
  "wk_memory (remove_request_from_scheduler h c w) = wk_memory w" "wk_events (remove_request_from_scheduler h c w) = wk_events w"
  by (simp_all add: drop_sequence_def remove_request_from_scheduler_def)

lemma drop_sequence_ok: "worker_ok w xs \<Longrightarrow> worker_ok (drop_sequence i c w) xs"
  using held_cong [of "drop_sequence i c w" w] by (auto simp: worker_ok_def split: if_splits)

lemma remove_request_ok: "worker_ok w xs \<Longrightarrow> worker_ok (remove_request_from_scheduler h c w) xs"
  by (simp add: remove_request_from_scheduler_def drop_sequence_ok)

lemma fail_request_ok: "worker_ok w xs \<Longrightarrow> h \<in> set (wk_active w) \<Longrightarrow> worker_ok (fail_request h c t w) xs"
  by (simp add: fail_request_def remove_request_ok free_request_blocks_ok)

lemma fail_sel [simp]: "wk_active (fail_request h c t w) = wk_active w"
  by (simp add: fail_request_def)

lemma append_blocks_ok:
  assumes "worker_ok w (ids @ xs)" and "h \<in> set (wk_active w)"
  shows "worker_ok (append_blocks ids h w) xs"
  by (rule worker_ok_retable [OF assms]) (auto simp: append_blocks_def add_ac)

lemma upd_blocks_ok:
  assumes "worker_ok w xs" and "\<And>n. backed (wk_blocks w) n \<Longrightarrow> backed (g (wk_blocks w)) (\<lambda>b. n b + count_list ys b)"
  shows "worker_ok (upd_blocks g w) (ys @ xs)"
proof -
  have "backed (g (wk_blocks w)) (\<lambda>b. held w b + count_list xs b + count_list ys b)" by (rule assms(2)) (rule worker_okD(3) [OF assms(1)])
  moreover have "held (upd_blocks g w) = held w" by (rule held_cong) simp_all
  ultimately show ?thesis using assms(1) by (simp add: worker_ok_def add_ac)
qed

lemma allocate_ok:
  assumes "worker_ok w xs" and "Allocate k (wk_blocks w) = (ids, bm')"
  shows "worker_ok (upd_blocks (\<lambda>_. bm') w) (ids @ xs)"
  using assms backed_Allocate by (intro upd_blocks_ok) auto

lemma grow_table_ok:
  assumes "worker_ok w xs" and "h \<in> set (wk_active w)"
  shows "worker_ok (grow_table h k w) xs"
proof -
  obtain ids bm' where a: "Allocate (k - int (length (w_block_table (wk_requests w h)))) (wk_blocks w) = (ids, bm')" by fastforce
  note A = allocate_ok [OF assms(1) a]
  show ?thesis using append_blocks_ok [OF A, of h] worker_ok_drop [OF A] assms by (simp add: grow_table_def a Let_def append_blocks_def)
qed

lemma reap_ok:
  assumes "worker_ok w xs" and "\<And>i h. wk_seq_to_request w i = Some h \<Longrightarrow> \<not> w_finished (wk_requests w h)"
  shows "worker_ok (reap_finished_requests w) xs"
proof -
  have "held (reap_finished_requests w) b \<le> held w b" for b
    unfolding held_def reap_finished_requests_def by (induction "wk_active w" arbitrary: w) (auto simp: sum_list_filter_le_nat)
  then show ?thesis using assms unfolding worker_ok_def
    by (auto simp: reap_finished_requests_def intro: backed_mono)
qed

section \<open>Ownership between the steps of the loop\<close>

definition srefs :: "scheduler \<Rightarrow> int list" where
  "srefs s = concat (map shared_block_ids (waiting_queue s))"

text \<open>
  At a step boundary \<open>xs\<close> covers the cached blocks that waiting requests have acquired, and no request in the sequence map is
  finished, except possibly \<open>ex\<close>, the one being worked on.
\<close>

definition owner :: "int option \<Rightarrow> int list \<Rightarrow> worker \<Rightarrow> bool" where
  "owner ex xs w \<longleftrightarrow>
     worker_ok w xs \<and> (\<forall>b. count_list (srefs (wk_scheduler w)) b \<le> count_list xs b) \<and>
     (\<forall>i h. wk_seq_to_request w i = Some h \<and> Some h \<noteq> ex \<longrightarrow> \<not> w_finished (wk_requests w h))"

lemma ownerD: "owner ex xs w \<Longrightarrow> worker_ok w xs"
  by (simp add: owner_def)

lemma owner_weaken: "owner None xs w \<Longrightarrow> owner ex xs w"
  by (auto simp: owner_def)

lemma owner_narrow: "owner (Some h) xs w \<Longrightarrow> \<not> w_finished (wk_requests w h) \<Longrightarrow> owner None xs w"
  by (auto simp: owner_def)

lemma owner_frame [simp]:
  "owner ex xs (w\<lparr>wk_events := ev\<rparr>) = owner ex xs w" "owner ex xs (w\<lparr>wk_memory := m\<rparr>) = owner ex xs w"
  "owner ex xs (w\<lparr>wk_watchdog := wd\<rparr>) = owner ex xs w"
  "keeps_tables f \<Longrightarrow> \<forall>r. w_finished (f r) = w_finished r \<Longrightarrow> owner ex xs (upd_req h f w) = owner ex xs w"
  by (auto simp: owner_def)

lemma owner_upd: "keeps_tables f \<Longrightarrow> owner (Some h) xs w \<Longrightarrow> owner (Some h) xs (upd_req h f w)"
  by (auto simp: owner_def)

lemma owner_sched:
  assumes "owner ex xs w" and "block_mgr s = wk_blocks w" and "\<And>b. count_list (srefs s) b \<le> count_list (srefs (wk_scheduler w)) b"
  shows "owner ex xs (w\<lparr>wk_scheduler := s\<rparr>)"
  using assms by (auto simp: owner_def intro: order_trans)

lemma owner_blocks:
  assumes "owner ex xs w" and "worker_ok (upd_blocks g w) xs"
  shows "owner ex xs (upd_blocks g w)"
  using assms by (auto simp: owner_def) (auto simp: upd_blocks_def srefs_def)

lemma owner_free:
  assumes "owner ex xs w" and "h \<in> set (wk_active w)"
  shows "owner ex xs (free_request_blocks h w)"
  using assms free_request_blocks_ok [OF ownerD [OF assms(1)] assms(2)]
  by (auto simp: owner_def free_request_blocks_def upd_blocks_def srefs_def upd_req_def split: if_splits)

lemma count_list_filter_groups: "count_list (concat (map f (filter P xs))) b \<le> count_list (concat (map f xs)) b"
  by (induction xs) auto

lemma RemoveRequest_srefs: "count_list (srefs (RemoveRequest i fin s)) b \<le> count_list (srefs s) b"
  by (simp add: srefs_def RemoveRequest_def CleanupSequenceState_def Let_def count_list_filter_groups)

lemma owner_drop:
  assumes "owner ex xs w"
  shows "owner ex xs (drop_sequence i c w)"
  using assms drop_sequence_ok [OF ownerD [OF assms], of i c] order_trans [OF RemoveRequest_srefs]
  by (auto simp: owner_def drop_sequence_def split: if_splits)

lemma owner_remove:
  assumes "owner (Some h) xs w"
  shows "owner None xs (remove_request_from_scheduler h c w)"
proof -
  have "worker_ok w xs" by (rule ownerD [OF assms])
  then have own: "i = w_seq_id (wk_requests w h) \<and> 0 \<le> i" if "wk_seq_to_request w i = Some h" for i using worker_okD(4) that by blast
  show ?thesis
  proof (cases "0 \<le> w_seq_id (wk_requests w h)")
    case True
    have "owner (Some h) xs (drop_sequence (w_seq_id (wk_requests w h)) c w)" by (rule owner_drop [OF assms])
    then show ?thesis using own True by (auto simp: owner_def remove_request_from_scheduler_def split: if_splits)
  next
    case False
    then show ?thesis using assms own by (auto simp: owner_def remove_request_from_scheduler_def)
  qed
qed

lemma owner_finalize:
  assumes "owner (Some h) xs w"
  shows "owner (Some h) xs (snd (finalize_generation_error h c t w))" "owner (Some h) xs (snd (finalize_generation_success h w))"
    "owner (Some h) xs (snd (FinalizeEmbeddingRequestOnce h st w))"
  using assms by (simp_all add: FinalizeGenerationRequestOnce_def FinalizeEmbeddingRequestOnce_def finalize_generation_error_def
      finalize_generation_success_def Let_def owner_upd)

lemma owner_fail: "owner None xs w \<Longrightarrow> h \<in> set (wk_active w) \<Longrightarrow> owner None xs (fail_request h c t w)"
  by (simp add: fail_request_def owner_remove owner_free owner_finalize owner_weaken)

lemma owner_reap: "owner None xs w \<Longrightarrow> owner None xs (reap_finished_requests w)"
  using reap_ok [of w xs] by (simp add: owner_def) (simp add: reap_finished_requests_def)

lemma owner_fold:
  assumes "owner ex xs w" and "\<And>x w'. x \<in> set ys \<Longrightarrow> owner ex xs w' \<Longrightarrow> wk_active w' = wk_active w \<Longrightarrow> owner ex xs (f x w') \<and> wk_active (f x w') = wk_active w'"
  shows "owner ex xs (fold f ys w) \<and> wk_active (fold f ys w) = wk_active w"
  using assms
proof (induction ys arbitrary: w)
  case (Cons y ys)
  have "owner ex xs (f y w) \<and> wk_active (f y w) = wk_active w" using Cons.prems by simp
  then show ?case using Cons.IH [of "f y w"] Cons.prems(2) by simp
qed simp

end
