(* ===== verification/Worker_Writes.thy ===== *)
theory Worker_Writes
  imports Worker_Ownership
begin

text \<open>
  Copy on write during batch construction: what the worker writes next belongs to one request only, and no request's view of
  its cached keys and values changes.
\<close>

section \<open>What copy on write may change\<close>

definition kv_view :: "worker_env \<Rightarrow> worker \<Rightarrow> int \<Rightarrow> nat \<Rightarrow> plane \<Rightarrow> int \<Rightarrow> u8 list" where
  "kv_view e w h i p l = device_load (we_ggml e, we_cache e) (wk_memory w) (p, w_block_table (wk_requests w h) ! i, l)"

definition cache_ok :: "worker_env \<Rightarrow> worker \<Rightarrow> bool" where
  "cache_ok e w \<longleftrightarrow> storage_ok (we_ggml e) (we_cache e) \<and> num_blocks (wk_blocks w) = kc_max_blocks (we_cache e) \<and> \<not> we_zero_fill_prefill_kv_blocks e"

definition sole :: "worker \<Rightarrow> int \<Rightarrow> bool" where
  "sole w b \<longleftrightarrow> in_range (wk_blocks w) b \<and> ref_count (blk (wk_blocks w) b) = 1"

definition keeps_views :: "worker_env \<Rightarrow> worker \<Rightarrow> worker \<Rightarrow> bool" where
  "keeps_views e w w' \<longleftrightarrow>
     (\<forall>p \<in> set (plane_list (we_cache e)). \<forall>l. 0 \<le> l \<and> l < kc_n_layer (we_cache e) \<longrightarrow>
        (\<forall>b. in_range (wk_blocks w) b \<and> 0 < ref_count (blk (wk_blocks w) b) \<longrightarrow>
           device_load (we_ggml e, we_cache e) (wk_memory w') (p, b, l) = device_load (we_ggml e, we_cache e) (wk_memory w) (p, b, l)) \<and>
        (\<forall>h \<in> set (wk_active w). \<forall>i < length (w_block_table (wk_requests w h)). kv_view e w' h i p l = kv_view e w h i p l))"

definition cow_rel :: "worker_env \<Rightarrow> int list \<Rightarrow> worker \<Rightarrow> worker \<Rightarrow> bool" where
  "cow_rel e xs w w' \<longleftrightarrow>
     worker_ok w' xs \<and> srefs (wk_scheduler w') = srefs (wk_scheduler w) \<and> wk_active w' = wk_active w \<and> wk_seq_to_request w' = wk_seq_to_request w \<and> same_store (wk_blocks w) (wk_blocks w') \<and>
     (\<forall>h. length (w_block_table (wk_requests w' h)) = length (w_block_table (wk_requests w h)) \<and>
        w_finished (wk_requests w' h) = w_finished (wk_requests w h) \<and> w_n_past (wk_requests w' h) = w_n_past (wk_requests w h) \<and> rq_tokens (w_view (wk_requests w' h)) = rq_tokens (w_view (wk_requests w h))) \<and>
     (\<forall>b. in_range (wk_blocks w) b \<and> 0 < ref_count (blk (wk_blocks w) b) \<longrightarrow> 0 < ref_count (blk (wk_blocks w') b)) \<and>
     (\<forall>b. sole w b \<longrightarrow> sole w' b) \<and>
     (\<forall>h i. i < length (w_block_table (wk_requests w h)) \<and> sole w (w_block_table (wk_requests w h) ! i) \<longrightarrow>
        w_block_table (wk_requests w' h) ! i = w_block_table (wk_requests w h) ! i) \<and>
     (cache_ok e w \<longrightarrow> keeps_views e w w')"

lemma cow_relD:
  assumes "cow_rel e xs w w'"
  shows "worker_ok w' xs" "wk_active w' = wk_active w" "wk_seq_to_request w' = wk_seq_to_request w"
    "length (w_block_table (wk_requests w' h)) = length (w_block_table (wk_requests w h))" "sole w b \<Longrightarrow> sole w' b"
    "i < length (w_block_table (wk_requests w h)) \<Longrightarrow> sole w (w_block_table (wk_requests w h) ! i) \<Longrightarrow>
       w_block_table (wk_requests w' h) ! i = w_block_table (wk_requests w h) ! i"
    "cache_ok e w \<Longrightarrow> keeps_views e w w'" "cache_ok e w' = cache_ok e w"
    "w_n_past (wk_requests w' h) = w_n_past (wk_requests w h)" "rq_tokens (w_view (wk_requests w' h)) = rq_tokens (w_view (wk_requests w h))"
    "w_finished (wk_requests w' h) = w_finished (wk_requests w h)" "srefs (wk_scheduler w') = srefs (wk_scheduler w)"
  using assms by (auto simp: cow_rel_def cache_ok_def same_store_def)

lemma keeps_views_refl [simp]: "keeps_views e w w"
  by (simp add: keeps_views_def)

lemma cow_rel_same:
  assumes "worker_ok w xs" and "wk_active w' = wk_active w" and "wk_seq_to_request w' = wk_seq_to_request w" and "wk_memory w' = wk_memory w"
    and "unchanged_refs (wk_blocks w) (wk_blocks w')" and "\<And>h. w_block_table (wk_requests w' h) = w_block_table (wk_requests w h)"
    and "\<And>h. w_seq_id (wk_requests w' h) = w_seq_id (wk_requests w h)" and "\<And>h. w_n_past (wk_requests w' h) = w_n_past (wk_requests w h)"
    and "\<And>h. rq_tokens (w_view (wk_requests w' h)) = rq_tokens (w_view (wk_requests w h))"
    and "\<And>h. w_finished (wk_requests w' h) = w_finished (wk_requests w h)" and "waiting_queue (wk_scheduler w') = waiting_queue (wk_scheduler w)"
  shows "cow_rel e xs w w'"
proof -
  have "held w' = held w" by (rule held_cong) (use assms in simp_all)
  then have "worker_ok w' xs" using assms(1,2,3,7) backed_unchanged [OF _ assms(5)] by (simp add: worker_ok_def)
  moreover have st: "same_store (wk_blocks w) (wk_blocks w')" using assms(5) by (simp add: unchanged_refs_def)
  ultimately show ?thesis using assms by (auto simp: cow_rel_def unchanged_refs_def sole_def keeps_views_def kv_view_def srefs_def same_store_range [OF st])
qed

lemma cow_rel_refl: "worker_ok w xs \<Longrightarrow> cow_rel e xs w w"
  by (rule cow_rel_same) (auto simp: unchanged_refs_def dest: worker_okD(2))

lemma cow_rel_upd:
  "worker_ok w xs \<Longrightarrow> keeps_tables f \<Longrightarrow> \<forall>r. w_n_past (f r) = w_n_past r \<and> rq_tokens (w_view (f r)) = rq_tokens (w_view r) \<and> w_finished (f r) = w_finished r \<Longrightarrow>
   cow_rel e xs w (upd_req h f w)"
  by (rule cow_rel_same) (auto simp: unchanged_refs_def dest: worker_okD(2))

lemma keeps_views_trans:
  assumes "keeps_views e w w1" and "keeps_views e w1 w2" and "cow_rel e xs w w1"
  shows "keeps_views e w w2"
proof -
  have st: "in_range (wk_blocks w1) = in_range (wk_blocks w)" using assms(3) by (intro same_store_range) (simp add: cow_rel_def)
  have refs: "0 < ref_count (blk (wk_blocks w1) b)" if "in_range (wk_blocks w) b" "0 < ref_count (blk (wk_blocks w) b)" for b
    using that assms(3) by (simp add: cow_rel_def)
  show ?thesis using assms(1,2) refs cow_relD(2,4) [OF assms(3)] unfolding keeps_views_def st by simp
qed

lemma cow_rel_trans:
  assumes "cow_rel e xs w w1" and "cow_rel e xs w1 w2"
  shows "cow_rel e xs w w2"
proof -
  have "cache_ok e w \<longrightarrow> keeps_views e w w2"
    using cow_relD(7,8) [OF assms(1)] cow_relD(7) [OF assms(2)] keeps_views_trans [OF _ _ assms(1)] by blast
  then show ?thesis using assms same_store_trans [of "wk_blocks w" "wk_blocks w1" "wk_blocks w2"] unfolding cow_rel_def
    by (auto simp: same_store_range)
qed

section \<open>Making blocks writable\<close>

lemma table_backed:
  assumes "worker_ok w xs" and "h \<in> set (wk_active w)" and "b \<in> set (w_block_table (wk_requests w h))"
  shows "in_range (wk_blocks w) b" and "0 < ref_count (blk (wk_blocks w) b)"
proof -
  have "0 < held w b" using held_split [OF worker_okD(1) [OF assms(1)] assms(2), of b] assms(3) by (simp add: count_list_pos)
  then show "in_range (wk_blocks w) b" "0 < ref_count (blk (wk_blocks w) b)"
    using backed_range [OF worker_okD(3) [OF assms(1)], of b] backed_refs [OF worker_okD(3) [OF assms(1)], of b] by auto
qed

lemma copy_views:
  assumes ok: "worker_ok w xs" and c: "cache_ok e w" and i: "i < length (w_block_table (wk_requests w h))"
    and old: "old = w_block_table (wk_requests w h) ! i" "in_range (wk_blocks w) old"
    and new: "in_range (wk_blocks w) new" "ref_count (blk (wk_blocks w) new) = 0" "new \<noteq> old"
    and m: "wk_memory w' = CopyBlockData (we_ggml e) (we_cache e) old new (wk_memory w)"
    and t: "wk_requests w' = (wk_requests w)(h := (wk_requests w h)\<lparr>w_block_table := (w_block_table (wk_requests w h))[i := new]\<rparr>)"
  shows "keeps_views e w w'"
proof -
  let ?g = "we_ggml e" and ?c = "we_cache e"
  have st: "storage_ok ?g ?c" and n: "num_blocks (wk_blocks w) = kc_max_blocks ?c" using c by (simp_all add: cache_ok_def)
  have range: "block_in_layer ?c b l \<longleftrightarrow> in_range (wk_blocks w) b \<and> 0 \<le> l \<and> l < kc_n_layer ?c" for b l
    by (auto simp: block_in_layer_def in_range_def n)
  note S = CopyBlockData_spec [OF st not_sym [OF new(3)] _ _ _ _ m]
  have cp: "device_load (?g, ?c) (wk_memory w') (p, new, l) = device_load (?g, ?c) (wk_memory w) (p, old, l)"
    if "p \<in> set (plane_list ?c)" "0 \<le> l" "l < kc_n_layer ?c" for p l using S that old(2) new(1) by (simp add: in_range_def n)
  have fr: "device_load (?g, ?c) (wk_memory w') (p, b, l) = device_load (?g, ?c) (wk_memory w) (p, b, l)"
    if "p \<in> set (plane_list ?c)" "0 \<le> l" "l < kc_n_layer ?c" "in_range (wk_blocks w) b" "0 < ref_count (blk (wk_blocks w) b)" for p b l
    using S that old(2) new by (cases "b = new") (simp_all add: in_range_def n block_in_layer_def)
  have "kv_view e w' x j p l = kv_view e w x j p l"
    if "p \<in> set (plane_list ?c)" "0 \<le> l" "l < kc_n_layer ?c" "x \<in> set (wk_active w)" "j < length (w_block_table (wk_requests w x))" for p l x j
  proof (cases "x = h \<and> j = i")
    case True
    then show ?thesis using cp that i old(1) by (simp add: kv_view_def t)
  next
    case False
    then have "w_block_table (wk_requests w' x) ! j = w_block_table (wk_requests w x) ! j" using that(5) by (auto simp: t nth_list_update)
    then show ?thesis using fr [OF that(1-3)] table_backed [OF ok that(4) nth_mem [OF that(5)]] by (simp add: kv_view_def)
  qed
  then show ?thesis using fr unfolding keeps_views_def by blast
qed

text \<open>The copy itself: block \<open>old\<close> of request \<open>h\<close> gives way to a fresh block with the same bytes.\<close>

lemma copy_step_rel:
  assumes ok: "worker_ok w xs" and h: "h \<in> set (wk_active w)" and i: "i < length (w_block_table (wk_requests w h))"
    and old: "old = w_block_table (wk_requests w h) ! i" and sh: "IsShared (wk_blocks w) old"
    and cow: "CopyOnWrite old (CopyBlockData (we_ggml e) (we_cache e)) (wk_blocks w, wk_memory w) = (new, bm', m')" and new: "0 \<le> new"
    and w': "w' = upd_req h (\<lambda>r. r\<lparr>w_block_table := (w_block_table r)[i := new]\<rparr>) ((upd_blocks (\<lambda>_. bm') w)\<lparr>wk_memory := m'\<rparr>)"
  shows "cow_rel e xs w w'" and "sole w' new"
proof -
  let ?t = "w_block_table (wk_requests w h)"
  have f: "wk_active w' = wk_active w" "wk_seq_to_request w' = wk_seq_to_request w" "wk_blocks w' = bm'" "wk_memory w' = m'" "srefs (wk_scheduler w') = srefs (wk_scheduler w)"
    "wk_requests w' = (wk_requests w)(h := (wk_requests w h)\<lparr>w_block_table := ?t[i := new]\<rparr>)"
    by (simp_all add: w' upd_req_def upd_blocks_def srefs_def)
  have old_range: "in_range (wk_blocks w) old" "1 < ref_count (blk (wk_blocks w) old)" using sh by (simp_all add: IsShared_def)
  have split: "count_list ?t b = count_list [old] b + count_list (take i ?t @ drop (Suc i) ?t) b"
    "count_list (?t[i := new]) b = count_list [new] b + count_list (take i ?t @ drop (Suc i) ?t) b" for b
    using i old id_take_nth_drop [OF i] upd_conv_take_nth_drop [OF i, of new] by (metis add.commute add.left_commute count_list_append append_Cons append_Nil)+
  have "backed (wk_blocks w) (\<lambda>b. 0 + count_list [old] b)"
    by (rule backedI) (use old_range worker_okD(2) [OF ok] in \<open>auto split: if_splits\<close>)
  note C = backed_CopyOnWrite [OF this sh cow] 
  then have k: "in_range (wk_blocks w) new" "ref_count (blk (wk_blocks w) new) = 0" "new \<noteq> old" "ref_count (blk bm' new) = 1" "same_store (wk_blocks w) bm'"
    "m' = CopyBlockData (we_ggml e) (we_cache e) old new (wk_memory w)" and oth: "\<And>j. in_range (wk_blocks w) j \<Longrightarrow> j \<noteq> old \<Longrightarrow> j \<noteq> new \<Longrightarrow> blk bm' j = blk (wk_blocks w) j"
    using new by (auto simp: available_def)
  note r = same_store_range [OF k(5)]
  have ok': "worker_ok w' xs"
  proof (rule worker_ok_retable [OF ok h])
    fix n assume "backed (wk_blocks w) (\<lambda>b. n b + count_list (w_block_table (wk_requests w h)) b + count_list xs b)"
    then have "backed (wk_blocks w) (\<lambda>b. n b + count_list (take i ?t @ drop (Suc i) ?t) b + count_list xs b + count_list [old] b)"
      by (simp only: split add_ac)
    from backed_CopyOnWrite [OF this sh cow] new
    show "backed (wk_blocks w') (\<lambda>b. n b + count_list (w_block_table (wk_requests w' h)) b + count_list xs b)"
      by (simp add: f split add_ac)
  qed (simp_all add: f)
  show "sole w' new" using k by (simp add: sole_def f r)
  have pos: "0 < ref_count (blk bm' b)" if "in_range (wk_blocks w) b" "0 < ref_count (blk (wk_blocks w) b)" for b
  proof -
    have "ref_count (blk bm' old) = ref_count (blk (wk_blocks w) old) - 1"
      using CopyOnWrite_shared [OF worker_okD(2) [OF ok] sh _ cow] k(1,2) by (auto simp: available_def)
    then show ?thesis using that oth [of b] k old_range by (cases "b = old"; cases "b = new") auto
  qed
  have sole: "sole w' b" if "sole w b" for b
    using that oth [of b] k old_range by (cases "b = old"; cases "b = new") (auto simp: sole_def f r)
  have keep: "w_block_table (wk_requests w' x) ! j = w_block_table (wk_requests w x) ! j"
    if "j < length (w_block_table (wk_requests w x))" "sole w (w_block_table (wk_requests w x) ! j)" for x j
    using that old old_range by (cases "x = h"; cases "i = j") (auto simp: f nth_list_update sole_def)
  have views: "keeps_views e w w'" if "cache_ok e w"
    by (rule copy_views [OF ok that i old old_range(1) k(1-3)]) (simp_all add: f k(6))
  show "cow_rel e xs w w'" unfolding cow_rel_def using ok' k(5) pos sole keep views by (simp add: f)
qed

lemma ensure_block_rel:
  assumes ok: "worker_ok w xs" and h: "h \<in> set (wk_active w)"
    and r: "ensure_request_block_writable e h pos w = (done, w')"
  shows "cow_rel e xs w w'"
    and "done \<Longrightarrow> nat (pos sdiv BLOCK_SIZE) < length (w_block_table (wk_requests w h)) \<Longrightarrow>
      sole w' (w_block_table (wk_requests w' h) ! nat (pos sdiv BLOCK_SIZE))"
proof -
  let ?t = "w_block_table (wk_requests w h)"
  define i where "i = nat (pos sdiv BLOCK_SIZE)"
  have "cow_rel e xs w w' \<and> (done \<and> i < length ?t \<longrightarrow> sole w' (w_block_table (wk_requests w' h) ! i))"
  proof (cases "pos < 0 \<or> pos sdiv BLOCK_SIZE < 0 \<or> int (length ?t) \<le> pos sdiv BLOCK_SIZE \<or> ?t ! i < 0")
    case True
    then show ?thesis using r cow_rel_refl [OF ok]
      by (auto simp: ensure_request_block_writable_def Let_def i_def split: if_splits)
  next
    case False
    then have i: "i < length ?t" by (simp add: i_def) linarith
    obtain new bm' m' where cow: "CopyOnWrite (?t ! i) (CopyBlockData (we_ggml e) (we_cache e)) (wk_blocks w, wk_memory w) = (new, bm', m')"
      using prod_cases3 by blast
    have eq: "(done, w') = (if \<not> IsShared (wk_blocks w) (?t ! i) then (True, w) else if new < 0 then (False, (upd_blocks (\<lambda>_. bm') w)\<lparr>wk_memory := m'\<rparr>)
        else (True, upd_req h (\<lambda>r. r\<lparr>w_block_table := (w_block_table r)[i := new]\<rparr>) ((upd_blocks (\<lambda>_. bm') w)\<lparr>wk_memory := m'\<rparr>)))"
      unfolding r [symmetric] using False cow by (simp add: ensure_request_block_writable_def i_def)
    show ?thesis
    proof (cases "IsShared (wk_blocks w) (?t ! i)")
      case False
      have "in_range (wk_blocks w) (?t ! i)" "0 < ref_count (blk (wk_blocks w) (?t ! i))"
        by (rule table_backed [OF ok h nth_mem [OF i]])+
      then show ?thesis using eq False cow_rel_refl [OF ok] by (simp add: IsShared_def sole_def)
    next
      case sh: True
      show ?thesis
      proof (cases "new < 0")
        case True
        have "unchanged_refs (wk_blocks w) bm' \<and> m' = wk_memory w"
          using backed_CopyOnWrite [OF _ sh cow, of "\<lambda>_. 0"] sh worker_okD(2) [OF ok] True by (auto simp: backed_def IsShared_def)
        then show ?thesis using eq sh True cow_rel_same [OF ok, of w'] by simp
      next
        case False
        then show ?thesis using eq sh copy_step_rel [OF ok h i refl sh cow _ refl] i by simp
      qed
    qed
  qed
  then show "cow_rel e xs w w'" and "done \<Longrightarrow> nat (pos sdiv BLOCK_SIZE) < length ?t \<Longrightarrow>
      sole w' (w_block_table (wk_requests w' h) ! nat (pos sdiv BLOCK_SIZE))" by (simp_all add: i_def)
qed

definition sole_at :: "worker \<Rightarrow> int \<Rightarrow> int \<Rightarrow> bool" where
  "sole_at w h i \<longleftrightarrow> nat i < length (w_block_table (wk_requests w h)) \<longrightarrow> sole w (w_block_table (wk_requests w h) ! nat i)"

lemma sole_at_keep: "cow_rel e xs w w' \<Longrightarrow> sole_at w h i \<Longrightarrow> sole_at w' h i"
  using cow_relD(4,5,6) [of e xs w w'] by (auto simp: sole_at_def)

lemma ensure_blocks_rel:
  assumes "worker_ok w xs" and "h \<in> set (wk_active w)" and "ensure_blocks e h bs w = (done, w')" and "\<forall>b \<in> set bs. 0 \<le> b"
  shows "cow_rel e xs w w' \<and> (done \<longrightarrow> (\<forall>b \<in> set bs. sole_at w' h b))"
  using assms
proof (induction bs arbitrary: w)
  case (Cons b bs)
  obtain d w1 where s: "ensure_request_block_writable e h (b * BLOCK_SIZE) w = (d, w1)" by fastforce
  note S = ensure_block_rel [OF Cons.prems(1,2) s]
  have idx: "b * BLOCK_SIZE sdiv BLOCK_SIZE = b" using Cons.prems(4) by (simp add: sdiv_nonneg)
  show ?case
  proof (cases d)
    case True
    then have rest: "ensure_blocks e h bs w1 = (done, w')" using Cons.prems(3) s by simp
    have IH: "cow_rel e xs w1 w' \<and> (done \<longrightarrow> (\<forall>b \<in> set bs. sole_at w' h b))"
      using Cons.IH [OF _ _ rest] cow_relD(1,2) [OF S(1)] Cons.prems(2,4) by simp
    have "sole_at w1 h b" using S(2) [OF True] cow_relD(4) [OF S(1)] by (simp add: sole_at_def idx)
    then show ?thesis using IH cow_rel_trans [OF S(1)] sole_at_keep [of e xs w1 w' h b] by auto
  next
    case False
    then show ?thesis using Cons.prems(3) s S(1) by simp
  qed
qed (simp add: cow_rel_refl)

text \<open>The block indices that \<open>n\<close> tokens from position \<open>start\<close> on fall into; both are values of type \<^verbatim>\<open>int\<close>.\<close>

definition write_range :: "int \<Rightarrow> int \<Rightarrow> int set" where
  "write_range start n = {i. start \<le> INT_MAX \<and> n \<le> INT_MAX \<and> start sdiv BLOCK_SIZE \<le> i \<and> i \<le> (start + n - 1) sdiv BLOCK_SIZE}"

text \<open>Positions and counts are \<^verbatim>\<open>int\<close>s; a write past the largest one is refused.\<close>

lemma end_pos_exact:
  assumes "0 \<le> start" "0 < n" "start \<le> INT_MAX" "n \<le> INT_MAX" "start \<le> signed_take_bit 31 (start + n - 1)"
  shows "signed_take_bit 31 (start + n - 1) = start + n - 1"
proof (cases "start + n - 1 < 2 ^ 31")
  case True
  then show ?thesis using assms by (simp add: signed_take_bit_int_eq_self)
next
  case False
  then have "(start + n - 1 + 2 ^ 31) mod 2 ^ 32 = start + n - 1 - 2 ^ 31"
    using assms mod_pos_pos_trivial [of "start + n - 1 - 2 ^ 31" "2 ^ 32"] mod_add_self2 [of "start + n - 1 - 2 ^ 31" "2 ^ 32"] by simp
  then have "signed_take_bit 31 (start + n - 1) = start + n - 1 - 2 ^ 32" by (simp add: signed_take_bit_eq_take_bit_shift take_bit_eq_mod)
  then show ?thesis using assms by simp
qed

lemma ensure_writable_rel:
  assumes "worker_ok w xs" and "h \<in> set (wk_active w)" and "ensure_request_blocks_writable e h start n w = (done, w')"
  shows "cow_rel e xs w w'" and "done \<Longrightarrow> 0 < n \<Longrightarrow> i \<in> write_range start n \<Longrightarrow> sole_at w' h i"
proof -
  let ?e = "signed_take_bit 31 (start + n - 1)"
  have "cow_rel e xs w w' \<and> (done \<longrightarrow> 0 < n \<longrightarrow> i \<in> write_range start n \<longrightarrow> sole_at w' h i)"
  proof (cases "n \<le> 0 \<or> start < 0 \<or> ?e < start")
    case True
    then show ?thesis using assms cow_rel_refl by (auto simp: ensure_request_blocks_writable_def Let_def split: if_splits)
  next
    case False
    then have "ensure_blocks e h [start sdiv BLOCK_SIZE .. ?e sdiv BLOCK_SIZE] w = (done, w')"
      using assms(3) by (simp add: ensure_request_blocks_writable_def)
    moreover have "0 \<le> start sdiv BLOCK_SIZE" using False by (simp add: sdiv_nonneg pos_imp_zdiv_nonneg_iff)
    moreover have "?e = start + n - 1" if "start \<le> INT_MAX" "n \<le> INT_MAX" using end_pos_exact [of start n] False that by simp
    ultimately show ?thesis using ensure_blocks_rel [OF assms(1,2)] by (fastforce simp: write_range_def)
  qed
  then show "cow_rel e xs w w'" and "done \<Longrightarrow> 0 < n \<Longrightarrow> i \<in> write_range start n \<Longrightarrow> sole_at w' h i"
    by blast+
qed

section \<open>The batch under construction\<close>

definition entry_ok :: "worker \<Rightarrow> int \<Rightarrow> int list \<Rightarrow> int \<Rightarrow> int \<Rightarrow> bool" where
  "entry_ok w h table n_past n \<longleftrightarrow>
     h \<in> set (wk_active w) \<and> length table = length (w_block_table (wk_requests w h)) \<and>
     (\<forall>i \<in> write_range n_past n. nat i < length table \<longrightarrow> sole w (table ! nat i) \<and> w_block_table (wk_requests w h) ! nat i = table ! nat i)"

definition batch_ok :: "worker_env \<Rightarrow> int list \<Rightarrow> worker \<Rightarrow> batch_build \<Rightarrow> bool" where
  "batch_ok e xs w b \<longleftrightarrow>
     cow_rel e xs w (bb_worker b) \<and> set (bb_stalled b) \<subseteq> set (wk_active w) \<and>
     list_all2 (\<lambda>(h, n) (table, n_past). entry_ok (bb_worker b) h table n_past n)
       (zip (bb_requests b) (bb_token_counts b)) (zip (bs_block_tables (bb_batch b)) (bs_n_past (bb_batch b))) \<and>
     length (bb_token_counts b) = length (bb_requests b) \<and> length (bs_block_tables (bb_batch b)) = length (bb_requests b) \<and>
     length (bs_n_past (bb_batch b)) = length (bb_requests b)"

lemma entry_ok_keep:
  assumes c: "cow_rel e xs w w'" and en: "entry_ok w h table n_past n"
  shows "entry_ok w' h table n_past n"
proof -
  have "sole w' (table ! nat i) \<and> w_block_table (wk_requests w' h) ! nat i = table ! nat i"
    if "i \<in> write_range n_past n" "nat i < length table" for i
    using that en cow_relD(5) [OF c] cow_relD(6) [OF c, of "nat i" h] unfolding entry_ok_def by auto
  then show ?thesis using en cow_relD(2,4) [OF c] by (simp add: entry_ok_def)
qed

lemma batch_ok_worker:
  assumes b: "batch_ok e xs w b" and c: "cow_rel e xs (bb_worker b) w'"
    and "bb_worker b' = w'" "bb_batch b' = bb_batch b" "bb_requests b' = bb_requests b" "bb_token_counts b' = bb_token_counts b"
    "set (bb_stalled b') \<subseteq> set (wk_active w)"
  shows "batch_ok e xs w b'"
proof -
  let ?l = "zip (bb_requests b) (bb_token_counts b)" and ?r = "zip (bs_block_tables (bb_batch b)) (bs_n_past (bb_batch b))"
  have "list_all2 (\<lambda>(h, n) (table, n_past). entry_ok (bb_worker b) h table n_past n) ?l ?r" using b by (simp add: batch_ok_def)
  then have "list_all2 (\<lambda>(h, n) (table, n_past). entry_ok w' h table n_past n) ?l ?r"
    by (rule list_all2_mono) (auto intro: entry_ok_keep [OF c])
  then show ?thesis using b cow_rel_trans [OF _ c] assms(3-) by (simp add: batch_ok_def)
qed

lemma add_to_batch_ok:
  assumes b: "batch_ok e xs w b" and h: "h \<in> set (wk_active w)"
    and so: "\<And>i. i \<in> write_range (w_n_past (wk_requests (bb_worker b) h)) (int (length tokens)) \<Longrightarrow> sole_at (bb_worker b) h i"
  shows "batch_ok e xs w (add_to_batch tokens h b)"
proof -
  let ?w = "bb_worker b"
  have c: "cow_rel e xs w ?w" using b by (simp add: batch_ok_def)
  have ok: "worker_ok ?w xs" by (rule cow_relD(1) [OF c])
  have "entry_ok ?w h (w_block_table (wk_requests ?w h)) (w_n_past (wk_requests ?w h)) (int (length tokens))"
    using so h cow_relD(2) [OF c] by (auto simp: entry_ok_def sole_at_def)
  then have "batch_ok e xs w (b\<lparr>bb_batch := (bb_batch b)\<lparr>bs_block_tables := bs_block_tables (bb_batch b) @ [w_block_table (wk_requests ?w h)],
       bs_n_past := bs_n_past (bb_batch b) @ [w_n_past (wk_requests ?w h)]\<rparr>, bb_requests := bb_requests b @ [h],
       bb_token_counts := bb_token_counts b @ [int (length tokens)]\<rparr>)" (is "batch_ok e xs w ?b")
    using b by (simp add: batch_ok_def list_all2_append)
  moreover have "cow_rel e xs ?w (upd_req h (\<lambda>r. r\<lparr>w_batch_build_stall_count := 0\<rparr>) ?w)" by (rule cow_rel_upd [OF ok]) simp_all
  ultimately show ?thesis
  proof -
    assume A: "batch_ok e xs w ?b" and B: "cow_rel e xs ?w (upd_req h (\<lambda>r. r\<lparr>w_batch_build_stall_count := 0\<rparr>) ?w)"
    have "batch_ok e xs w (?b\<lparr>bb_worker := upd_req h (\<lambda>r. r\<lparr>w_batch_build_stall_count := 0\<rparr>) ?w\<rparr>)"
      by (rule batch_ok_worker [OF A, of "upd_req h (\<lambda>r. r\<lparr>w_batch_build_stall_count := 0\<rparr>) ?w"]) (use A B in \<open>simp_all add: batch_ok_def\<close>)
    then show ?thesis by (auto simp: batch_ok_def add_to_batch_def Let_def)
  qed
qed

lemma note_stall_ok: "batch_ok e xs w b \<Longrightarrow> h \<in> set (wk_active w) \<Longrightarrow> batch_ok e xs w (note_batch_build_stall h b)"
  by (rule batch_ok_worker, assumption, rule cow_rel_upd) (auto simp: note_batch_build_stall_def batch_ok_def dest: cow_relD(1))

lemma tokens_to_take_le: "tokens_to_take out i r \<le> int (length (rq_tokens (w_view r)))"
  by (simp add: tokens_to_take_def Let_def min.coboundedI1)

lemma save_prompt_tokens_tokens [simp]: "rq_tokens (save_prompt_tokens v) = rq_tokens v"
  by (simp add: save_prompt_tokens_def Let_def)

lemma join_prefill_ok:
  assumes b: "batch_ok e xs w b" and h: "h \<in> set (wk_active w)" and z: "\<not> we_zero_fill_prefill_kv_blocks e"
  shows "batch_ok e xs w (join_prefill e out i h b)"
proof -
  let ?w = "bb_worker b" and ?n = "tokens_to_take out i (wk_requests (bb_worker b) h)"
  have c: "cow_rel e xs w ?w" using b by (simp add: batch_ok_def)
  have ok: "worker_ok ?w xs" and h': "h \<in> set (wk_active ?w)" using cow_relD(1,2) [OF c] h by simp_all
  obtain d w1 where en: "ensure_request_blocks_writable e h (w_n_past (wk_requests ?w h)) ?n ?w = (d, w1)" by fastforce
  note E = ensure_writable_rel [OF ok h' en]
  let ?w3 = "upd_req h (\<lambda>r. r\<lparr>w_view := save_prompt_tokens (w_view r)\<rparr>) w1"
  have c3: "cow_rel e xs w1 ?w3" by (rule cow_rel_upd) (simp_all add: cow_relD(1) [OF E(1)])
  note c13 = cow_rel_trans [OF E(1) c3]
  have b3: "batch_ok e xs w (b\<lparr>bb_worker := ?w3\<rparr>)" "batch_ok e xs w (b\<lparr>bb_worker := w1\<rparr>)"
    by (rule batch_ok_worker [OF b c13] batch_ok_worker [OF b E(1)]; use b in \<open>simp add: batch_ok_def\<close>)+
  show ?thesis
  proof (cases "?n \<le> 0")
    case False
    let ?toks = "take (nat ?n) (rq_tokens (w_view (wk_requests ?w3 h)))"
    have "rq_tokens (w_view (wk_requests ?w3 h)) = rq_tokens (w_view (wk_requests ?w h))" by (rule cow_relD(10) [OF c13])
    then have "int (length ?toks) = ?n" using False tokens_to_take_le [of out i "wk_requests ?w h"] by simp
    then have "sole_at ?w3 h j" if "d" "j \<in> write_range (w_n_past (wk_requests ?w3 h)) (int (length ?toks))" for j
      using that sole_at_keep [OF c3] E(2) False unfolding cow_relD(9) [OF c13] by simp
    then have "d \<Longrightarrow> batch_ok e xs w (add_to_batch ?toks h (b\<lparr>bb_worker := ?w3\<rparr>))"
      using add_to_batch_ok [OF b3(1) h, of ?toks] by simp
    then show ?thesis using False en note_stall_ok [OF b3(2) h] z by (cases d) (simp_all add: join_prefill_def Let_def)
  qed (use b in \<open>simp add: join_prefill_def Let_def\<close>)
qed

lemma join_decode_ok:
  assumes b: "batch_ok e xs w b" and h: "h \<in> set (wk_active w)"
  shows "batch_ok e xs w (join_decode e h b)"
proof -
  let ?w = "bb_worker b"
  have c: "cow_rel e xs w ?w" using b by (simp add: batch_ok_def)
  have ok: "worker_ok ?w xs" and h': "h \<in> set (wk_active ?w)" using cow_relD(1,2) [OF c] h by simp_all
  obtain d w1 where en: "ensure_request_blocks_writable e h (w_n_past (wk_requests ?w h)) 1 ?w = (d, w1)" by fastforce
  note E = ensure_writable_rel [OF ok h' en]
  have b1: "batch_ok e xs w (b\<lparr>bb_worker := w1\<rparr>)" by (rule batch_ok_worker [OF b E(1)]) (use b in \<open>simp_all add: batch_ok_def\<close>)
  have "sole_at w1 h j" if d "j \<in> write_range (w_n_past (wk_requests w1 h)) 1" for j
    using E(2) that cow_relD(9) [OF E(1)] by simp
  then have "d \<Longrightarrow> batch_ok e xs w (add_to_batch [t] h (b\<lparr>bb_worker := w1\<rparr>))" for t
    using add_to_batch_ok [OF b1 h, of "[t]"] by simp
  then show ?thesis using en note_stall_ok [OF b1 h] by (cases d) (simp_all add: join_decode_def Let_def)
qed

lemma batch_ok_flags: "batch_ok e xs w b \<Longrightarrow> batch_ok e xs w (b\<lparr>bb_scheduled := n\<rparr>)" "batch_ok e xs w b \<Longrightarrow> batch_ok e xs w (b\<lparr>bb_kind := k\<rparr>)"
  "batch_ok e xs w b \<Longrightarrow> batch_ok e xs w (b\<lparr>bb_missing := m\<rparr>)"
  by (simp_all add: batch_ok_def)

lemma consider_request_ok:
  assumes b: "batch_ok e xs w b" and ok: "worker_ok w xs"
    and join: "\<And>h b. batch_ok e xs w b \<Longrightarrow> h \<in> set (wk_active w) \<Longrightarrow> batch_ok e xs w (join h b)"
  shows "batch_ok e xs w (consider_request i join b)"
proof -
  have "wk_seq_to_request (bb_worker b) = wk_seq_to_request w" using b cow_relD(3) by (auto simp: batch_ok_def)
  then have "h \<in> set (wk_active w)" if "wk_seq_to_request (bb_worker b) i = Some h" for h using that worker_okD(4) [OF ok] by simp
  then show ?thesis using b join note_stall_ok batch_ok_flags
    by (auto simp: consider_request_def Let_def split: option.splits)
qed

lemma reset_watchdog_rel:
  assumes "worker_ok w xs"
  shows "cow_rel e xs w (reset_empty_schedule_watchdog w)"
proof -
  let ?f = "\<lambda>h w. if w_finished (wk_requests w h) then w else upd_req h (\<lambda>r. r\<lparr>w_empty_schedule_stall_count := 0\<rparr>) w"
  have "cow_rel e xs w (fold ?f hs w)" for hs
  proof (rule fold_invariant [where Q = "\<lambda>_. True"])
    show "cow_rel e xs w (?f h w')" if "cow_rel e xs w w'" for h w'
      using that cow_rel_trans [OF that cow_rel_upd [of w' xs]] cow_relD(1) [OF that] by simp
  qed (simp_all add: cow_rel_refl [OF assms])
  then have f: "cow_rel e xs w (fold ?f (wk_active w) w)" .
  have "cow_rel e xs (fold ?f (wk_active w) w) (reset_empty_schedule_watchdog w)"
    by (rule cow_rel_same [OF cow_relD(1) [OF f]])
      (use worker_okD(2) [OF cow_relD(1) [OF f]] in \<open>simp_all add: reset_empty_schedule_watchdog_def unchanged_refs_def\<close>)
  with f show ?thesis by (rule cow_rel_trans)
qed

lemma build_batch_ok:
  assumes ok: "worker_ok w xs" and z: "\<not> we_zero_fill_prefill_kv_blocks e"
  shows "batch_ok e xs w (build_batch e out w)"
  unfolding build_batch_def
proof (rule fold_invariant [where Q = "\<lambda>_. True"])
  have "batch_ok e xs w (start_build (reset_empty_schedule_watchdog w))"
    using reset_watchdog_rel [OF ok] by (simp add: batch_ok_def start_build_def empty_batch_def)
  then show "batch_ok e xs w (fold (\<lambda>i. consider_request i (join_prefill e out i)) (prefill_seq_ids out) (start_build (reset_empty_schedule_watchdog w)))"
    by (rule fold_invariant [where Q = "\<lambda>_. True", rotated]) (simp_all add: consider_request_ok [OF _ ok] join_prefill_ok z)
qed (simp_all add: consider_request_ok [OF _ ok] join_decode_ok)

lemma sole_held:
  assumes ok: "worker_ok w xs" and h: "h \<in> set (wk_active w)" and b: "b \<in> set (w_block_table (wk_requests w h))" and s: "sole w b"
  shows "held w b = 1" and "b \<notin> set xs"
proof -
  have "0 < held w b" using held_split [OF worker_okD(1) [OF ok] h, of b] b by (simp add: count_list_pos)
  moreover have "int (held w b + count_list xs b) \<le> 1" using backed_le [OF worker_okD(3) [OF ok], of b] s by (auto simp: sole_def)
  ultimately have "held w b = 1 \<and> count_list xs b = 0" by linarith
  then show "held w b = 1" "b \<notin> set xs" by (simp_all add: count_list_0_iff)
qed

end
