(* ===== verification/Worker_Phases.thy ===== *)
theory Worker_Phases
  imports Worker_Writes
begin

text \<open>
  Every step of the worker loop keeps the ownership of blocks: cancellation, admission, scheduling with its swaps and prefix
  hits, batch construction, the outputs of a batch, and the ways a stall ends.
\<close>

section \<open>Cancellation and stalls\<close>

lemma cancel_active_eq:
  "cancel_active h (ids, w) =
     (let r = wk_requests w h
      in if w_cancelled r \<and> \<not> w_finished r
         then (if 0 \<le> w_seq_id r then ids @ [w_seq_id r] else ids,
               free_request_blocks h (snd (finalize_generation_error h RequestCanceled ''Error: request canceled'' w)))
         else (ids, w))"
  by (simp add: cancel_active_def)

lemma cancel_pass_owner:
  assumes "worker_ok w xs" and "\<And>b. count_list (srefs (wk_scheduler w)) b \<le> count_list xs b"
    and "\<And>i h. wk_seq_to_request w i = Some h \<Longrightarrow> w_finished (wk_requests w h) \<Longrightarrow> i \<in> set ids" and "set hs \<subseteq> set (wk_active w)"
    and "fold cancel_active hs (ids, w) = (ids', w')"
  shows "worker_ok w' xs \<and> (\<forall>b. count_list (srefs (wk_scheduler w')) b \<le> count_list xs b) \<and> wk_active w' = wk_active w \<and>
    (\<forall>i h. wk_seq_to_request w' i = Some h \<and> w_finished (wk_requests w' h) \<longrightarrow> i \<in> set ids')"
  using assms
proof (induction hs arbitrary: ids w)
  case (Cons h hs)
  let ?r = "wk_requests w h"
  let ?w1 = "snd (finalize_generation_error h RequestCanceled ''Error: request canceled'' w)"
  let ?w2 = "free_request_blocks h ?w1"
  let ?ids = "if 0 \<le> w_seq_id ?r then ids @ [w_seq_id ?r] else ids"
  show ?case
  proof (cases "w_cancelled ?r \<and> \<not> w_finished ?r")
    case True
    have eq: "fold cancel_active hs (?ids, ?w2) = (ids', w')" using Cons.prems(5) True by (simp add: cancel_active_eq Let_def)
    have oth: "w_finished (wk_requests ?w2 x) = w_finished (wk_requests w x)" if "x \<noteq> h" for x
      using that by (auto simp: free_request_blocks_def finalize_generation_error_def FinalizeGenerationRequestOnce_def FinalizeEmbeddingRequestOnce_def Let_def)
    have ok: "worker_ok ?w2 xs" using Cons.prems(1,4) by (simp add: free_request_blocks_ok)
    have "srefs (wk_scheduler ?w2) = srefs (wk_scheduler w)"
      by (simp add: srefs_def free_request_blocks_def upd_blocks_def finalize_generation_error_def FinalizeGenerationRequestOnce_def FinalizeEmbeddingRequestOnce_def Let_def)
    moreover have "i \<in> set ?ids" if "wk_seq_to_request ?w2 i = Some x" "w_finished (wk_requests ?w2 x)" for i x
    proof (cases "x = h")
      case True
      then have "w_seq_id ?r = i \<and> 0 \<le> i" using that(1) worker_okD(4) [OF Cons.prems(1), of i h] by simp
      then show ?thesis by simp
    next
      case False
      then show ?thesis using that oth Cons.prems(3) by auto
    qed
    ultimately show ?thesis using Cons.IH [OF ok _ _ _ eq] Cons.prems(2,4) by simp
  next
    case False
    then have "fold cancel_active hs (ids, w) = (ids', w')" using Cons.prems(5) by (auto simp: cancel_active_eq Let_def split: if_splits)
    then show ?thesis using Cons.IH [OF Cons.prems(1-3)] Cons.prems(4) by simp
  qed
qed simp

lemma drop_sequences:
  assumes "worker_ok v xs" and "\<And>b. count_list (srefs (wk_scheduler v)) b \<le> count_list xs b" and "v' = fold (\<lambda>i. drop_sequence i c) js v"
  shows "worker_ok v' xs" and "count_list (srefs (wk_scheduler v')) b \<le> count_list xs b" and "wk_active v' = wk_active v"
    and "wk_requests v' = wk_requests v" and "wk_seq_to_request v' i = (if i \<in> set js then None else wk_seq_to_request v i)"
proof -
  have "worker_ok v' xs \<and> (\<forall>b. count_list (srefs (wk_scheduler v')) b \<le> count_list xs b) \<and> wk_active v' = wk_active v \<and>
      wk_requests v' = wk_requests v \<and> (\<forall>i. wk_seq_to_request v' i = (if i \<in> set js then None else wk_seq_to_request v i))"
    using assms
  proof (induction js arbitrary: v)
    case (Cons j js)
    have "count_list (srefs (wk_scheduler (drop_sequence j c v))) b \<le> count_list xs b" for b
      using Cons.prems(2) order_trans [OF RemoveRequest_srefs] by (simp add: drop_sequence_def)
    then show ?case using Cons.IH [of "drop_sequence j c v"] drop_sequence_ok [OF Cons.prems(1)] Cons.prems(3) by simp
  qed simp
  then show "worker_ok v' xs" and "count_list (srefs (wk_scheduler v')) b \<le> count_list xs b" and "wk_active v' = wk_active v"
    and "wk_requests v' = wk_requests v" and "wk_seq_to_request v' i = (if i \<in> set js then None else wk_seq_to_request v i)" by simp_all
qed

lemma process_cancellations_owner:
  assumes "owner None xs w"
  shows "owner None xs (process_cancellations w)" and "wk_active (process_cancellations w) = wk_active w"
proof -
  obtain ids w1 where p: "fold cancel_active (wk_active w) ([], w) = (ids, w1)" by fastforce
  have C: "worker_ok w1 xs \<and> (\<forall>b. count_list (srefs (wk_scheduler w1)) b \<le> count_list xs b) \<and> wk_active w1 = wk_active w \<and>
    (\<forall>i h. wk_seq_to_request w1 i = Some h \<and> w_finished (wk_requests w1 h) \<longrightarrow> i \<in> set ids)"
    by (rule cancel_pass_owner [OF _ _ _ _ p]) (use assms in \<open>auto simp: owner_def\<close>)
  have e: "process_cancellations w = fold (\<lambda>i. drop_sequence i False) ids w1" by (simp add: process_cancellations_def p)
  note D = drop_sequences [OF _ _ e]
  show "owner None xs (process_cancellations w)" and "wk_active (process_cancellations w) = wk_active w"
    using C D by (auto simp: owner_def split: if_splits)
qed

lemma fail_if_live_owner:
  "owner None xs w \<Longrightarrow> h \<in> set (wk_active w) \<Longrightarrow> owner None xs (fail_if_live c t h w) \<and> wk_active (fail_if_live c t h w) = wk_active w"
  by (simp add: fail_if_live_def owner_fail)

lemma reset_watchdog_owner: "owner None xs w \<Longrightarrow> owner None xs (reset_empty_schedule_watchdog w)"
  unfolding reset_empty_schedule_watchdog_def by (simp, rule conjunct1, rule owner_fold) auto

lemma mapped_active: "owner None xs w \<Longrightarrow> wk_seq_to_request w i = Some h \<Longrightarrow> h \<in> set (wk_active w)"
  using worker_okD(4) ownerD by blast

lemma handle_empty_schedule_owner:
  assumes "owner None xs w"
  shows "owner None xs (handle_empty_schedule now out w)"
proof -
  let ?bump = "\<lambda>h. upd_req h (\<lambda>r. r\<lparr>w_empty_schedule_stall_count := w_empty_schedule_stall_count r + 1\<rparr>)"
  let ?hs = "stalled_requests now w"
  have b: "owner None xs (fold ?bump ?hs w) \<and> wk_active (fold ?bump ?hs w) = wk_active w" by (rule owner_fold [OF assms]) simp
  have f: "owner None xs (fold (fail_if_live c t) ?hs (v\<lparr>wk_watchdog := wd\<rparr>))" if "owner None xs v" "wk_active v = wk_active w" for c t v wd
    by (rule conjunct1, rule owner_fold) (use that in \<open>auto simp: fail_if_live_owner stalled_requests_def\<close>)
  show ?thesis using assms b f reset_watchdog_owner owner_reap fail_if_live_owner mapped_active [OF assms]
    by (auto simp: handle_empty_schedule_def Let_def split: option.splits prod.splits)
qed

lemma fail_batch_requests_owner:
  assumes "owner None xs w" and "set hs \<subseteq> set (wk_active w)"
  shows "owner None xs (fail_batch_requests reason t c hs w)"
  unfolding fail_batch_requests_def by (rule conjunct1, rule owner_fold [OF assms(1)]) (use assms(2) in \<open>auto intro!: owner_fail\<close>)

section \<open>Batches\<close>

lemma cow_owner: "cow_rel e ys w w' \<Longrightarrow> owner None xs w \<Longrightarrow> cow_rel e xs w w' \<Longrightarrow> owner None xs w'"
  using cow_relD [of e xs w w'] by (simp add: owner_def)

lemma build_batch_owner:
  assumes "owner None xs w" and "\<not> we_zero_fill_prefill_kv_blocks e" and "b = build_batch e out w"
  shows "owner None xs (bb_worker b)" "set (bb_requests b) \<subseteq> set (wk_active (bb_worker b))" "set (bb_stalled b) \<subseteq> set (wk_active (bb_worker b))"
proof -
  note B = build_batch_ok [OF ownerD [OF assms(1)] assms(2), of out, folded assms(3), unfolded batch_ok_def]
  have c: "cow_rel e xs w (bb_worker b)" using B by blast
  show "owner None xs (bb_worker b)" by (rule cow_owner [OF c assms(1) c])
  show "set (bb_stalled b) \<subseteq> set (wk_active (bb_worker b))" using B cow_relD(2) [OF c] by simp
  have "bb_requests b ! k \<in> set (wk_active (bb_worker b))" if "k < length (bb_requests b)" for k
    using B that by (auto simp: list_all2_conv_all_nth entry_ok_def)
  then show "set (bb_requests b) \<subseteq> set (wk_active (bb_worker b))" by (auto simp: in_set_conv_nth)
qed

lemma handle_empty_batch_owner:
  assumes "owner None xs (bb_worker b)" and "set (bb_stalled b) \<subseteq> set (wk_active (bb_worker b))"
  shows "owner None xs (handle_empty_batch now b)"
proof -
  have f: "owner None xs (fold (fail_if_live c t) hs (bb_worker b))" if "set hs \<subseteq> set (bb_stalled b)" for c t hs
    by (rule conjunct1, rule owner_fold [OF assms(1)]) (use that assms(2) in \<open>auto simp: fail_if_live_owner\<close>)
  have d: "owner None xs (fold (\<lambda>i. drop_sequence i False) js v)" if "owner None xs v" for js v
    by (rule conjunct1, rule owner_fold [OF that]) (simp add: owner_drop)
  show ?thesis using assms(1) by (simp add: handle_empty_batch_def Let_def owner_reap d f)
qed

section \<open>Outputs\<close>

lemma register_block_owner:
  assumes "owner ex xs w"
  shows "owner ex xs (register_block e h i w) \<and> wk_active (register_block e h i w) = wk_active w"
proof -
  have "owner ex xs (upd_blocks (RegisterPrefixBlockWithTokens x y z s) w)" for x y z s
  proof (rule owner_blocks [OF assms])
    have "worker_ok (upd_blocks (RegisterPrefixBlockWithTokens x y z s) w) ([] @ xs)"
      by (rule upd_blocks_ok [OF ownerD [OF assms]])
        (use backed_unchanged Register_refs worker_okD(2) [OF ownerD [OF assms]] in auto)
    then show "worker_ok (upd_blocks (RegisterPrefixBlockWithTokens x y z s) w) xs" by simp
  qed
  then show ?thesis by (simp add: register_block_def Let_def)
qed

lemma register_completed_owner:
  assumes "owner ex xs w"
  shows "owner ex xs (register_completed_prefix_blocks e h w) \<and> wk_active (register_completed_prefix_blocks e h w) = wk_active w"
proof -
  have "owner ex xs (fold (register_block e h) is w) \<and> wk_active (fold (register_block e h) is w) = wk_active w" for "is"
    by (rule owner_fold [OF assms]) (rule register_block_owner)
  then show ?thesis using assms by (simp add: register_completed_prefix_blocks_def Let_def)
qed

lemma count_update_first:
  "(\<And>g. shared_block_ids (f g) = shared_block_ids g) \<Longrightarrow> map shared_block_ids (update_first P f gs) = map shared_block_ids gs"
  by (induction gs) simp_all

lemma progress_srefs:
  "count_list (srefs (OnPrefillChunkComplete i n fin s)) b \<le> count_list (srefs s) b" "srefs (OnDecodeStepComplete i n s) = srefs s"
  "block_mgr (OnPrefillChunkComplete i n fin s) = block_mgr s" "block_mgr (OnDecodeStepComplete i n s) = block_mgr s"
  by (auto simp: OnPrefillChunkComplete_def OnPrefillChunkCompleteLocked_def OnDecodeStepComplete_def OnDecodeStepCompleteLocked_def
      Let_def srefs_def count_list_filter_groups count_update_first split: option.splits)

lemma commit_prefill_owner:
  assumes "owner ex xs w"
  shows "owner ex xs (snd (commit_prefill e now h n w)) \<and> wk_active (snd (commit_prefill e now h n w)) = wk_active w"
proof -
  let ?w0 = "upd_req h (\<lambda>r. r\<lparr>w_n_past := w_n_past r + n, w_empty_schedule_stall_count := 0, w_last_progress_time := now\<rparr>) w"
  let ?w1 = "register_completed_prefix_blocks e h ?w0"
  have "owner ex xs ?w0" using assms by simp
  then have w1: "owner ex xs ?w1" "wk_active ?w1 = wk_active w" using register_completed_owner [of ex xs ?w0 e h] by simp_all
  have "owner ex xs (?w1\<lparr>wk_scheduler := OnPrefillChunkComplete i n fin (wk_scheduler ?w1)\<rparr>)" for i fin
    by (rule owner_sched [OF w1(1)]) (simp_all add: progress_srefs)
  then show ?thesis using w1 by (simp add: commit_prefill_def Let_def)
qed

lemma commit_decode_owner:
  assumes "owner ex xs w"
  shows "owner ex xs (commit_decode e now h n tok w) \<and> wk_active (commit_decode e now h n tok w) = wk_active w"
proof -
  have s: "owner ex xs (v\<lparr>wk_scheduler := OnDecodeStepComplete i n s0\<rparr>)" if "owner ex xs v" "s0 = wk_scheduler v" for v i s0
    unfolding that(2) by (rule owner_sched [OF that(1)]) (simp_all add: progress_srefs)
  show ?thesis using assms by (auto simp: commit_decode_def Let_def register_completed_owner intro!: s)
qed

lemma accept_emit_owner:
  assumes "owner (Some h) xs w"
  shows "owner (Some h) xs (snd (emit_token h token piece (accept_token e h token w)))"
    "wk_active (snd (emit_token h token piece (accept_token e h token w))) = wk_active w"
  using assms by (simp_all add: emit_token_def accept_token_def Let_def case_prod_unfold owner_upd)

lemma grow_for_next_owner:
  assumes "owner (Some h) xs w" and "h \<in> set (wk_active w)"
  shows "owner (Some h) xs (snd (grow_for_next k h w)) \<and> wk_active (snd (grow_for_next k h w)) = wk_active w"
  using assms
proof (induction k arbitrary: w)
  case (Suc k)
  obtain ids bm' where a: "Allocate 1 (wk_blocks w) = (ids, bm')" by fastforce
  let ?w1 = "upd_blocks (\<lambda>_. bm') w"
  have A: "worker_ok ?w1 (ids @ xs)" by (rule allocate_ok [OF ownerD [OF Suc.prems(1)] a])
  show ?case
  proof (cases ids)
    case Nil
    then have "owner (Some h) xs ?w1" using owner_blocks [OF Suc.prems(1)] A by simp
    then show ?thesis using Nil a by (simp add: owner_finalize owner_upd)
  next
    case (Cons i rest)
    let ?w2 = "append_blocks [i] h ?w1"
    have "worker_ok ?w2 xs"
      by (rule append_blocks_ok, rule worker_ok_mono [OF A]) (use Cons Suc.prems(2) in auto)
    then have "owner (Some h) xs ?w2" using Suc.prems(1)
      by (auto simp: owner_def append_blocks_def srefs_def)
    moreover have "wk_active ?w2 = wk_active w" by (simp add: append_blocks_def)
    ultimately show ?thesis using Suc.IH [of ?w2] Suc.prems(2) a Cons by (simp add: append_blocks_def)
  qed
qed simp

lemma stop_on_sequence_owner:
  "owner (Some h) xs w \<Longrightarrow> owner (Some h) xs (stop_on_sequence h text w)" "wk_active (stop_on_sequence h text w) = wk_active w"
  by (simp_all add: stop_on_sequence_def Let_def case_prod_unfold owner_upd)

lemma finish_request_owner:
  assumes "owner (Some h) xs w" and "h \<in> set (wk_active w)"
  shows "owner None xs (finish_request e h token emitted w) \<and> wk_active (finish_request e h token emitted w) = wk_active w"
proof -
  obtain tail ts where t: "(if emitted then (None, w_text (wk_requests w h)) else tail_text (w_text (wk_requests w h))) = (tail, ts)" by fastforce
  show ?thesis using assms owner_narrow [OF assms(1)]
    by (auto simp: finish_request_def Let_def t owner_upd intro!: owner_remove owner_free owner_finalize split: option.splits)
qed

lemma finish_step_owner:
  assumes "owner (Some h) xs w" and "h \<in> set (wk_active w)" and "reserve_next_block h w = (emitted, w')"
  shows "owner None xs (finish_request e h token emitted (stop_on_sequence h text w')) \<and>
    wk_active (finish_request e h token emitted (stop_on_sequence h text w')) = wk_active w"
proof -
  have "owner (Some h) xs w' \<and> wk_active w' = wk_active w"
    using grow_for_next_owner [OF assms(1,2)] assms(3) by (metis reserve_next_block_def snd_conv)
  then show ?thesis using finish_request_owner [of h xs "stop_on_sequence h text w'"] assms(2) by (simp add: stop_on_sequence_owner)
qed

lemma process_generation_owner:
  assumes "owner None xs w" and "h \<in> set (wk_active w)"
  shows "owner None xs (process_generation e now h n token piece w) \<and> wk_active (process_generation e now h n token piece w) = wk_active w"
proof -
  obtain go w1 where p: "(if w_is_prefill (wk_requests w h) then commit_prefill e now h n w else (True, w)) = (go, w1)" by fastforce
  then have w1: "owner None xs w1" "wk_active w1 = wk_active w"
    using commit_prefill_owner [OF assms(1), of e now h n] assms(1) by (auto split: if_splits)
  obtain shown w2 where em: "emit_token h token piece (accept_token e h token w1) = (shown, w2)" by fastforce
  have w2: "owner (Some h) xs w2" "wk_active w2 = wk_active w"
    using accept_emit_owner [of h xs w1 token piece e] w1 owner_weaken by (simp_all add: em)
  define tok where "tok = (let toks = rq_tokens (w_view (wk_requests w1 h))
     in if \<not> w_is_prefill (wk_requests w h) \<and> n = 1 \<and> length toks = 1 then hd toks else -1)"
  define w3 where "w3 = (if w_is_prefill (wk_requests w h) then w2 else commit_decode e now h n tok w2)"
  obtain er w4 where rs: "reserve_next_block h w3 = (er, w4)" by fastforce
  have w3: "owner (Some h) xs w3" "wk_active w3 = wk_active w" using w2 commit_decode_owner [OF w2(1)] by (simp_all add: w3_def)
  have "process_generation e now h n token piece w = (if \<not> go then w1 else finish_request e h token er (stop_on_sequence h shown w4))"
    using p rs by (cases go; cases "w_is_prefill (wk_requests w h)") (simp_all add: process_generation_def w3_def tok_def Let_def em split del: if_split)
  then show ?thesis using w1 finish_step_owner [OF w3(1) _ rs] w3(2) assms(2) by simp
qed

lemma process_embedding_owner:
  assumes "owner None xs w" and "h \<in> set (wk_active w)"
  shows "owner None xs (process_embedding h w) \<and> wk_active (process_embedding h w) = wk_active w"
  using assms by (simp add: process_embedding_def owner_remove owner_free owner_finalize owner_weaken)

lemma UpdateProgressBatch_srefs:
  "count_list (srefs (UpdateProgressBatch us s)) b \<le> count_list (srefs s) b \<and> block_mgr (UpdateProgressBatch us s) = block_mgr s"
proof (induction us s rule: UpdateProgressBatch.induct)
  case (2 i n us s)
  then show ?case using progress_srefs [unfolded OnPrefillChunkComplete_def OnDecodeStepComplete_def]
    by (auto split: option.splits intro: order_trans)
qed simp

lemma flush_owner:
  assumes "owner None xs w"
  shows "owner None xs (flush_scheduler_progress hs w)" "wk_active (flush_scheduler_progress hs w) = wk_active w"
proof -
  obtain us w1 where f: "fold flush_one hs ([], w) = (us, w1)" by fastforce
  have "owner None xs (snd (fold flush_one hs (us0, v))) \<and> wk_active (snd (fold flush_one hs (us0, v))) = wk_active v" if "owner None xs v" for us0 v
    using that by (induction hs arbitrary: us0 v) (simp_all add: flush_one_def Let_def)
  from this [OF assms, of "[]"] have w1: "owner None xs w1" "wk_active w1 = wk_active w" by (simp_all add: f)
  have "owner None xs (w1\<lparr>wk_scheduler := UpdateProgressBatch us (wk_scheduler w1)\<rparr>)"
    by (rule owner_sched [OF w1(1)]) (use UpdateProgressBatch_srefs in blast)+
  then show "owner None xs (flush_scheduler_progress hs w)" "wk_active (flush_scheduler_progress hs w) = wk_active w"
    using w1 by (simp_all add: flush_scheduler_progress_def f)
qed

lemma process_outputs_owner:
  assumes "owner None xs (bb_worker b)" and "set (bb_requests b) \<subseteq> set (wk_active (bb_worker b))"
  shows "owner None xs (process_outputs e now sample b)"
proof -
  let ?one = "\<lambda>(h, n) w. if bb_kind b = Some True then process_embedding h w else process_generation e now h n (fst (sample h)) (snd (sample h)) w"
  have "owner None xs (fold ?one (zip (bb_requests b) (bb_token_counts b)) (bb_worker b))"
  proof (rule conjunct1, rule owner_fold [OF assms(1)])
    fix x w assume x: "x \<in> set (zip (bb_requests b) (bb_token_counts b))" and w: "owner None xs w" "wk_active w = wk_active (bb_worker b)"
    obtain h n where hn: "x = (h, n)" by fastforce
    then have "h \<in> set (wk_active w)" using x w(2) assms(2) by (auto dest: set_zip_leftD)
    then show "owner None xs (?one x w) \<and> wk_active (?one x w) = wk_active w"
      using process_embedding_owner [OF w(1)] process_generation_owner [OF w(1)] by (simp add: hn)
  qed
  then show ?thesis by (simp add: process_outputs_def Let_def owner_reap flush_owner)
qed

section \<open>What a schedule hands over\<close>

definition hits :: "scheduler_output \<Rightarrow> int list" where
  "hits out = concat (map pci_cached_block_ids (prefix_cache_hits out))"

definition hands_over :: "int list \<Rightarrow> scheduler \<times> scheduler_output \<Rightarrow> bool" where
  "hands_over xs = (\<lambda>(s, out). freed_blocks out = [] \<and> (\<forall>b. count_list (srefs s) b + count_list (hits out) b \<le> count_list xs b))"

lemma hands_over_cong:
  assumes "waiting_queue s' = waiting_queue s" and "prefix_cache_hits out' = prefix_cache_hits out" and "freed_blocks out' = freed_blocks out"
  shows "hands_over xs (s', out') = hands_over xs (s, out)"
  using assms by (simp add: hands_over_def srefs_def hits_def)

lemma decode_loop_hits:
  "prefix_cache_hits (decode_loop now s active target budget pending out) = prefix_cache_hits out \<and>
   freed_blocks (decode_loop now s active target budget pending out) = freed_blocks out"
proof (induction now s active target budget pending out rule: decode_loop.induct)
  case (1 now s active target budget pending out)
  show ?case
  proof (cases "pick_decode now s active target pending out")
    case None
    then show ?thesis by (simp add: decode_loop.simps)
  next
    case (Some i)
    then show ?thesis using "1.IH" [OF Some] by (subst (1 2) decode_loop.simps) (simp add: admit_decode_def)
  qed
qed

lemma ScheduleRunning_hands: "hands_over xs (s, ScheduleRunning now s out) = hands_over xs (s, out)"
  by (rule hands_over_cong) (simp_all add: ScheduleRunning_def Let_def decode_loop_hits del: decode_loop.simps)

definition pass_refs :: "waiting_pass \<Rightarrow> int \<Rightarrow> nat" where
  "pass_refs p b = count_list (concat (map shared_block_ids (wp_still_waiting p))) b + count_list (hits (wp_output p)) b"

lemma schedule_group_refs:
  assumes "bm_inv (block_mgr (wp_scheduler p))"
  shows "freed_blocks (wp_output (schedule_group g p)) = freed_blocks (wp_output p) \<and>
    pass_refs (schedule_group g p) b \<le> pass_refs p b + count_list (shared_block_ids g) b"
  using assms
proof (cases rule: schedule_group_outcome [where g = g])
  case keep
  then show ?thesis by (auto simp: kept_def pass_refs_def)
qed (auto simp: promote_group_def cancel_group_def admit_prefill_def reserved_def pass_refs_def hits_def Let_def)

lemma schedule_groups_refs:
  assumes "bm_inv (block_mgr (wp_scheduler p))"
  shows "freed_blocks (wp_output (fold schedule_group gs p)) = freed_blocks (wp_output p) \<and>
    pass_refs (fold schedule_group gs p) b \<le> pass_refs p b + count_list (concat (map shared_block_ids gs)) b"
  using assms
proof (induction gs arbitrary: p)
  case (Cons g gs)
  show ?case using Cons.IH [OF schedule_group_local(1) [OF Cons.prems, of g]] schedule_group_refs [OF Cons.prems, of g b] by simp
qed simp

lemma count_list_mset: "count_list xs b = count (mset xs) b"
  by (simp add: count_mset)

lemma mset_concat_cong: "mset xs = mset ys \<Longrightarrow> mset (concat (map f xs)) = mset (concat (map f ys))"
  by (metis mset_concat mset_map sum_mset_sum_list)

lemma ScheduleWaiting_hands:
  assumes inv: "sched_inv s" and h: "hands_over xs (s, out)" and r: "ScheduleWaiting cap (s, out) = (s', out')"
  shows "hands_over xs (s', out')"
proof -
  let ?q = "start_pass cap s out" and ?gs = "sorted_waiting (config s) (waiting_queue s)"
  let ?p = "end_pass cap s out"
  have e: "s' = (wp_scheduler ?p)\<lparr>waiting_queue := wp_still_waiting ?p\<rparr>" "prefix_cache_hits out' = prefix_cache_hits (wp_output ?p)"
    "freed_blocks out' = freed_blocks (wp_output ?p)"
    using finish_scheduler [of ?p] r by (auto simp: ScheduleWaiting_end_pass finish_waiting_def Let_def split: if_splits)
  have f: "freed_blocks (wp_output ?p) = freed_blocks (wp_output ?q)"
    and c: "pass_refs ?p b \<le> pass_refs ?q b + count_list (concat (map shared_block_ids ?gs)) b" for b
    using schedule_groups_refs [of ?q ?gs] inv by (simp_all add: end_pass_def start_pass_def sched_inv_def)
  have "count_list (concat (map shared_block_ids ?gs)) b = count_list (srefs s) b" for b
    unfolding srefs_def count_list_mset by (simp add: mset_concat_cong [OF mset_sorted_waiting])
  then have "count_list (srefs s') b + count_list (hits out') b \<le> count_list (srefs s) b + count_list (hits out) b" for b
    using c [of b] e by (simp add: pass_refs_def start_pass_def hits_def srefs_def)
  then show ?thesis using h e(3) f unfolding hands_over_def by (auto simp: start_pass_def intro: order_trans)
qed

lemma swap_in_frame:
  "waiting_queue (sp_scheduler (swap_in i p)) = waiting_queue (sp_scheduler p) \<and>
   prefix_cache_hits (sp_output (swap_in i p)) = prefix_cache_hits (sp_output p) \<and> freed_blocks (sp_output (swap_in i p)) = freed_blocks (sp_output p)"
  by (simp add: swap_in_def Let_def case_prod_unfold)

lemma ScheduleSwapped_hands:
  assumes "hands_over xs (s, out)" and "ScheduleSwapped now (s, out) = (s', out')"
  shows "hands_over xs (s', out')"
proof -
  have "waiting_queue (sp_scheduler (fold swap_in js p)) = waiting_queue (sp_scheduler p) \<and>
     prefix_cache_hits (sp_output (fold swap_in js p)) = prefix_cache_hits (sp_output p) \<and> freed_blocks (sp_output (fold swap_in js p)) = freed_blocks (sp_output p)" for js p
    by (induction js arbitrary: p) (simp_all add: swap_in_frame)
  from this [of "running_order now s (swapped_seqs s)" "\<lparr>sp_scheduler = s, sp_output = out, sp_slots = max_num_seqs (config s) - int (length (running_seqs s))\<rparr>"]
  have "hands_over xs (s', out') = hands_over xs (s, out)"
    using assms(2) by (intro hands_over_cong) (auto simp: ScheduleSwapped_def Let_def split: if_splits)
  then show ?thesis using assms(1) by simp
qed

lemma Schedule_hands:
  assumes inv: "sched_inv s" and r: "Schedule now s = (s', out)"
  shows "hands_over (srefs s) (s', out)"
proof -
  have start: "hands_over (srefs s) (clear_reasons s, SchedulerOutput)"
    by (simp add: hands_over_def hits_def SchedulerOutput_def srefs_def clear_reasons_def)
  have pre: "hands_over (srefs s) (sA, oA)" if "PreemptSequences now (clear_reasons s, SchedulerOutput) = (sA, oA)" for sA oA
    using that start by (cases rule: PreemptSequences_cases) (simp_all add: hands_over_def preempted_def srefs_def hits_def)
  have before: "hands_over (srefs s) (s3, o3)" if "before_phase now s = (s3, o3)" for s3 o3
    using that pre start ScheduleSwapped_hands [of "srefs s"] unfolding before_phase_def Let_def by (auto split: if_splits) (metis surj_pair)
  have re: "hands_over (srefs s) (sA, oA)" if h: "reaches now s sA oA" for sA oA
  proof -
    obtain s3 o3 where b: "before_phase now s = (s3, o3)" and alt: "(sA, oA) = (s3, o3) \<or> ScheduleWaiting (-1) (s3, o3) = (sA, oA)"
      using h unfolding reaches_def by blast
    show ?thesis using before [OF b] alt ScheduleWaiting_hands [OF before_phase_spec(1) [OF inv b]] by blast
  qed
  have run: "hands_over (srefs s) (sA, ScheduleRunning now sA oA)" if "reaches now s sA oA" for sA oA
    using re [OF that] by (simp add: ScheduleRunning_hands)
  have st: "hands_over (srefs s) (s', out)" if "hands_over (srefs s) (sB, out)" "strip_stats s' = strip_stats sB" for sB
    using that(1) strip_stats_sel(2) [OF that(2)] by (simp add: hands_over_def srefs_def)
  have w: "hands_over (srefs s) (s', out)"
    if "reaches now s sA oA" "ScheduleWaiting cap (sA, oB) = (sB, out)" "strip_stats s' = strip_stats sB" "hands_over (srefs s) (sA, oB)" for sA oA oB sB cap
    using st [OF ScheduleWaiting_hands [OF reaches_inv(1) [OF inv that(1)] that(4,2)] that(3)] .
  from r inv show ?thesis
  proof (cases rule: Schedule_shape)
    case (prefill_only sA oA sB)
    then show ?thesis using w re by blast
  next
    case (fallback sA oA sB)
    then show ?thesis using w run by blast
  next
    case (decode sA oA)
    then show ?thesis using run [OF decode(1)] st by blast
  next
    case (mixed sA oA sB cap b)
    have "hands_over (srefs s) (sA, (ScheduleRunning now sA oA)\<lparr>batch_context_len := b\<rparr>)"
      using run [OF mixed(1)] by (simp add: hands_over_def hits_def)
    then show ?thesis by (rule w [OF mixed(1,10,11)])
  next
    case (legacy sA oA sB)
    then show ?thesis using w run by blast
  qed
qed

section \<open>Applying a schedule\<close>

lemma owner_take:
  assumes "owner None (ids @ xs) w" and "\<And>b. count_list (srefs (wk_scheduler w)) b \<le> count_list xs b"
    and "h \<in> set (wk_active w)" and "w_block_table (f (wk_requests w h)) = w_block_table (wk_requests w h) @ ids"
    and "w_seq_id (f (wk_requests w h)) = w_seq_id (wk_requests w h)" and "w_finished (f (wk_requests w h)) = w_finished (wk_requests w h)"
  shows "owner None xs (upd_req h f w)"
proof -
  have "worker_ok (upd_req h f w) xs"
    by (rule worker_ok_retable [OF ownerD [OF assms(1)] assms(3)]) (use assms(4,5) in \<open>auto simp: add_ac\<close>)
  then show ?thesis using assms(1,2,6) by (simp add: owner_def)
qed

lemma owner_lose:
  "owner None (ids @ xs) w \<Longrightarrow> (\<And>b. count_list (srefs (wk_scheduler w)) b \<le> count_list xs b) \<Longrightarrow> owner None xs w"
  using worker_ok_drop by (auto simp: owner_def)

lemma apply_new_blocks_owner:
  assumes "owner None (concat (map snd new) @ xs) w" and "\<And>b. count_list (srefs (wk_scheduler w)) b \<le> count_list xs b"
  shows "owner None xs (fold apply_new_blocks new w) \<and> wk_scheduler (fold apply_new_blocks new w) = wk_scheduler w"
  using assms
proof (induction new arbitrary: w)
  case (Cons a new)
  obtain i ids where a: "a = (i, ids)" by fastforce
  let ?w = "apply_new_blocks a w" and ?xs = "concat (map snd new) @ xs"
  have s: "wk_scheduler ?w = wk_scheduler w" by (simp add: a apply_new_blocks_def with_request_def append_blocks_def split: option.splits)
  have o: "owner None (ids @ ?xs) w" and le: "count_list (srefs (wk_scheduler w)) b \<le> count_list ?xs b" for b
    using Cons.prems a by (simp_all add: trans_le_add2)
  have "owner None ?xs ?w"
  proof (cases "wk_seq_to_request w i")
    case None
    then show ?thesis using owner_lose [OF o le] by (simp add: a apply_new_blocks_def with_request_def)
  next
    case (Some h)
    have "owner None ?xs (append_blocks ids h w)" unfolding append_blocks_def
      by (rule owner_take [OF o le mapped_active [OF o Some]]) simp_all
    then show ?thesis using Some by (simp add: a apply_new_blocks_def with_request_def)
  qed
  then show ?case using Cons.IH [of ?w] Cons.prems(2) s by simp
qed simp

lemma restore_snapshot_owner [simp]:
  "owner None xs (restore_snapshot e hit h w) = owner None xs w" "wk_scheduler (restore_snapshot e hit h w) = wk_scheduler w"
  by (auto simp: restore_snapshot_def Let_def split: option.splits)

lemma apply_prefix_hits_owner:
  assumes "owner None (concat (map pci_cached_block_ids hs) @ xs) w" and "\<And>b. count_list (srefs (wk_scheduler w)) b \<le> count_list xs b"
  shows "owner None xs (fold (apply_prefix_hit e) hs w) \<and> wk_scheduler (fold (apply_prefix_hit e) hs w) = wk_scheduler w"
  using assms
proof (induction hs arbitrary: w)
  case (Cons hit hs)
  let ?w = "apply_prefix_hit e hit w" and ?xs = "concat (map pci_cached_block_ids hs) @ xs"
  have s: "wk_scheduler ?w = wk_scheduler w" by (simp add: apply_prefix_hit_def with_request_def split: option.splits)
  have o: "owner None (pci_cached_block_ids hit @ ?xs) w" and le: "count_list (srefs (wk_scheduler w)) b \<le> count_list ?xs b" for b
    using Cons.prems by (simp_all add: trans_le_add2)
  have "owner None ?xs ?w"
  proof (cases "wk_seq_to_request w (pci_seq_id hit)")
    case None
    then show ?thesis using owner_lose [OF o le] by (simp add: apply_prefix_hit_def with_request_def)
  next
    case (Some h)
    show ?thesis unfolding apply_prefix_hit_def with_request_def Some option.case restore_snapshot_owner
      by (rule owner_take [OF o le mapped_active [OF o Some]]) simp_all
  qed
  then show ?case using Cons.IH [of ?w] Cons.prems(2) s by simp
qed simp

lemma swap_in_request_owner:
  assumes "owner None xs w" and "h \<in> set (wk_active w)"
  shows "owner None xs (swap_in_request e h w)"
proof -
  have "owner (Some h) xs (free_request_blocks h w)" by (rule owner_free [OF owner_weaken [OF assms(1)] assms(2)])
  then show ?thesis using assms(1) by (simp add: swap_in_request_def Let_def owner_remove owner_finalize owner_upd)
qed

lemma swap_out_request_owner:
  assumes "owner None xs w" and "h \<in> set (wk_active w)"
  shows "owner None xs (swap_out_request e h w)"
proof (cases "w_block_table (wk_requests w h) = []")
  case False
  obtain k v where c: "CopyBlocksToHost (we_ggml e) (we_cache e) (w_block_table (wk_requests w h)) (wk_memory w) = (k, v)" by fastforce
  have "worker_ok (swap_out_request e h w) xs"
  proof (rule worker_ok_retable [OF ownerD [OF assms(1)] assms(2)])
    show "backed (wk_blocks (swap_out_request e h w)) (\<lambda>b. n b + count_list (w_block_table (wk_requests (swap_out_request e h w) h)) b + count_list xs b)"
      if "backed (wk_blocks w) (\<lambda>b. n b + count_list (w_block_table (wk_requests w h)) b + count_list xs b)" for n
      using backed_Free [of "wk_blocks w" "\<lambda>b. n b + count_list xs b" "w_block_table (wk_requests w h)"] that False
      by (simp add: swap_out_request_def c Let_def add_ac)
  qed (use False in \<open>simp_all add: swap_out_request_def c Let_def\<close>)
  then show ?thesis using assms False by (auto simp: owner_def swap_out_request_def c Let_def srefs_def)
qed (use assms in \<open>simp add: swap_out_request_def\<close>)

lemma swap_active [simp]: "wk_active (swap_in_request e h w) = wk_active w" "wk_active (swap_out_request e h w) = wk_active w"
  by (auto simp: swap_in_request_def swap_out_request_def Let_def case_prod_unfold)

lemma with_request_owner:
  assumes "owner None xs w" and "\<And>h. h \<in> set (wk_active w) \<Longrightarrow> owner None xs (f h w) \<and> wk_active (f h w) = wk_active w"
  shows "owner None xs (with_request i f w) \<and> wk_active (with_request i f w) = wk_active w"
  using assms mapped_active [OF assms(1)] by (auto simp: with_request_def split: option.splits)

lemma with_swap_owner:
  assumes "owner None xs w"
  shows "owner None xs (with_request i (swap_in_request e) w) \<and> wk_active (with_request i (swap_in_request e) w) = wk_active w"
    "owner None xs (with_request i (swap_out_request e) w) \<and> wk_active (with_request i (swap_out_request e) w) = wk_active w"
  by (rule with_request_owner; simp add: assms swap_in_request_owner swap_out_request_owner)+

lemma apply_schedule_owner:
  assumes own: "owner None (srefs s) w" and s: "s = wk_scheduler w" and inv: "sched_inv s" and nc: "no_cancel s" and r: "Schedule now s = (s', out)"
  shows "owner None (srefs s') (apply_schedule e out (w\<lparr>wk_scheduler := s'\<rparr>))"
proof -
  let ?new = "concat (map snd (new_block_allocations out))"
  note H = Schedule_hands [OF inv r, unfolded hands_over_def prod.case]
  let ?w0 = "w\<lparr>wk_scheduler := s'\<rparr>"
  have t: "takes (wk_blocks w) ?new (block_mgr s')" using Schedule_fresh [OF inv nc r] s by simp
  have held: "held ?w0 = held w" by (rule held_cong) simp_all
  have "backed (wk_blocks w) (\<lambda>b. held w b + count_list (srefs s) b)" using own by (simp add: owner_def worker_ok_def)
  then have "backed (wk_blocks w) (\<lambda>b. held w b + count_list (hits out @ srefs s') b)"
    by (rule backed_mono) (use H in \<open>simp add: add.commute\<close>)
  from backed_takes [OF this t] have "backed (wk_blocks ?w0) (\<lambda>b. held ?w0 b + count_list (?new @ hits out @ srefs s') b)" by (simp add: held add_ac)
  then have o: "owner None (?new @ hits out @ srefs s') ?w0" using own by (simp add: owner_def worker_ok_def)
  then have o1: "owner None (hits out @ srefs s') (fold apply_new_blocks (new_block_allocations out) ?w0)"
    and s1: "wk_scheduler (fold apply_new_blocks (new_block_allocations out) ?w0) = s'"
    using apply_new_blocks_owner [OF o] by simp_all
  define w2 where "w2 = (if IsPrefixCacheAllowedForModel (we_config e) (we_model e)
    then fold (apply_prefix_hit e) (prefix_cache_hits out) (fold apply_new_blocks (new_block_allocations out) ?w0)
    else fold apply_new_blocks (new_block_allocations out) ?w0)"
  have o2: "owner None (srefs s') w2"
    using apply_prefix_hits_owner [of "prefix_cache_hits out" "srefs s'"] owner_lose [OF o1] o1 s1 by (simp add: w2_def hits_def)
  have o3: "owner None (srefs s') (fold (\<lambda>i. with_request i (swap_in_request e)) (swap_in_seq_ids out) w2)"
    by (rule conjunct1, rule owner_fold [OF o2]) (simp add: with_swap_owner)
  have "owner None (srefs s') (fold (\<lambda>i. with_request i (swap_out_request e)) (preempted_seq_ids out)
      (fold (\<lambda>i. with_request i (swap_in_request e)) (swap_in_seq_ids out) w2))"
    by (rule conjunct1, rule owner_fold [OF o3]) (simp add: with_swap_owner)
  then show ?thesis using H by (simp add: apply_schedule_def Let_def w2_def)
qed

section \<open>The direct schedule, and admission\<close>

lemma acquires_Free_unchanged:
  assumes "bm_inv bm" and "acquires bm ids bm'"
  shows "unchanged_refs bm (Free ids bm')"
proof -
  have bm': "bm_inv bm'" "same_store bm bm'" using assms(2) by (simp_all add: acquires_def)
  have "ref_count (blk (Free ids bm') j) = ref_count (blk bm j)" if "in_range bm j" for j
    using that assms bm' by (auto simp: Free_ref_count same_store_range acquires_def bm_inv_def block_ok_def)
  then show ?thesis using bm' Free_inv [of bm' ids] by (simp add: unchanged_refs_def same_store_def)
qed

lemma probe_unchanged:
  assumes inv: "bm_inv b" and e: "ProbeReusablePrefixCacheForRequest salt model (Some r) (Some b) = (m, b')"
  shows "unchanged_refs b (the b')"
proof (cases "rq_prefix_cache_allowed r \<and> rq_original_prompt_tokens_for_cache r \<noteq> []")
  case False
  then show ?thesis using e inv by (auto simp: ProbeReusablePrefixCacheForRequest_def unchanged_refs_def)
next
  case True
  define val where "val = BuildHybridSSMSnapshotValidatorForRequest model (Some r)"
  obtain b1 where f: "FindLongestCachedPrefixWithVerification salt (rq_original_prompt_tokens_for_cache r)
      (ModelRequiresPrefixStateSnapshot model) val b = (m, b1)"
    and b': "b' = Some (Free (cached_block_ids m) b1)"
    using e True by (auto simp: ProbeReusablePrefixCacheForRequest_def val_def Free_def split: prod.splits if_splits)
  show ?thesis using acquires_Free_unchanged [OF inv] FindLongest_spec [OF inv f] by (simp add: b')
qed

lemma fast_path_owner:
  assumes own: "owner None xs w" and r: "single_request_fast_path e idle w = (res, w')"
  shows "owner None xs w'" "wk_scheduler w' = (wk_scheduler w)\<lparr>block_mgr := wk_blocks w'\<rparr>" "wk_active w' = wk_active w"
    "w_pending_scheduler_progress (wk_requests w' x) = w_pending_scheduler_progress (wk_requests w x)"
proof -
  let ?h = "hd (wk_active w)"
  have "owner None xs w' \<and> wk_scheduler w' = (wk_scheduler w)\<lparr>block_mgr := wk_blocks w'\<rparr> \<and> wk_active w' = wk_active w \<and>
    (\<forall>x. w_pending_scheduler_progress (wk_requests w' x) = w_pending_scheduler_progress (wk_requests w x))"
  proof (cases "fast_path_eligible e idle w")
    case True
    then have h: "?h \<in> set (wk_active w)" by (cases "wk_active w") (auto simp: fast_path_eligible_def)
    obtain m bm' where p: "ProbeReusablePrefixCacheForRequest (we_salt e) (we_model e) (Some (w_view (wk_requests w ?h))) (Some (wk_blocks w)) = (m, bm')" by fastforce
    let ?w1 = "upd_blocks (\<lambda>_. the bm') w"
    have u: "unchanged_refs (wk_blocks w) (the bm')" by (rule probe_unchanged [OF worker_okD(2) [OF ownerD [OF own]] p])
    have "worker_ok ?w1 ([] @ xs)" by (rule upd_blocks_ok [OF ownerD [OF own]]) (use backed_unchanged [OF _ u] in simp)
    then have o1: "owner None xs ?w1" using owner_blocks [OF own] by simp
    have g: "owner None xs (grow_table ?h k ?w1)" for k
      using grow_table_ok [OF ownerD [OF o1], of ?h k] o1 h
      by (auto simp: owner_def grow_table_def Let_def srefs_def split: prod.splits if_splits)
    have s: "wk_scheduler (grow_table ?h k ?w1) = (wk_scheduler w)\<lparr>block_mgr := wk_blocks (grow_table ?h k ?w1)\<rparr>" "wk_active (grow_table ?h k ?w1) = wk_active w"
      "w_pending_scheduler_progress (wk_requests (grow_table ?h k ?w1) x) = w_pending_scheduler_progress (wk_requests w x)" for k x
      by (simp_all add: grow_table_def Let_def upd_blocks_def split: prod.splits)
    have s1: "wk_scheduler ?w1 = (wk_scheduler w)\<lparr>block_mgr := wk_blocks ?w1\<rparr>" by (simp add: upd_blocks_def)
    show ?thesis using r True p o1 g s s1 by (auto simp: single_request_fast_path_def Let_def split: if_splits)
  next
    case False
    then show ?thesis using r own by (simp add: single_request_fast_path_def)
  qed
  then show "owner None xs w'" "wk_scheduler w' = (wk_scheduler w)\<lparr>block_mgr := wk_blocks w'\<rparr>" "wk_active w' = wk_active w"
    "w_pending_scheduler_progress (wk_requests w' x) = w_pending_scheduler_progress (wk_requests w x)" by simp_all
qed

lemma flush_idle:
  assumes "\<forall>h \<in> set hs. w_pending_scheduler_progress (wk_requests w h) \<le> 0"
  shows "flush_scheduler_progress hs w = w"
proof -
  have "fold flush_one hs (us, w) = (us, w)" for us using assms by (induction hs) (simp_all add: flush_one_def)
  then show ?thesis by (simp add: flush_scheduler_progress_def)
qed

lemma owner_self: "owner None xs w \<Longrightarrow> owner None (srefs (wk_scheduler w)) w"
  by (auto simp: owner_def intro: worker_ok_mono)

lemma schedule_step_owner:
  assumes own: "owner None (srefs (wk_scheduler w)) w" and inv: "sched_inv (wk_scheduler w)" and nc: "no_cancel (wk_scheduler w)"
    and pend: "\<forall>h \<in> set (wk_active w). w_pending_scheduler_progress (wk_requests w h) \<le> 0"
    and r: "schedule_step e now idle w = (out, w')"
  shows "owner None (srefs (wk_scheduler w')) w'"
proof -
  obtain res w1 where f: "single_request_fast_path e idle w = (res, w1)" by fastforce
  note F = fast_path_owner [OF own f]
  define bm where "bm = wk_blocks w1"
  have s: "wk_scheduler w1 = (wk_scheduler w)\<lparr>block_mgr := bm\<rparr>" unfolding bm_def by (rule F(2))
  have "bm_inv bm" unfolding bm_def by (rule worker_okD(2) [OF ownerD [OF F(1)]])
  then have s1: "sched_inv (wk_scheduler w1)" "no_cancel (wk_scheduler w1)" "srefs (wk_scheduler w1) = srefs (wk_scheduler w)"
    unfolding s using sched_inv_bm [OF inv] nc by (simp_all add: no_cancel_def can_chunk_def srefs_def)
  show ?thesis
  proof (cases res)
    case None
    obtain s' out' where sch: "Schedule now (wk_scheduler w1) = (s', out')" by fastforce
    have "flush_scheduler_progress (wk_active w1) w1 = w1" by (rule flush_idle) (use pend F(3,4) in simp)
    then have "w' = apply_schedule e out' (w1\<lparr>wk_scheduler := s'\<rparr>)" using r f None sch by (auto simp: schedule_step_def Let_def)
    moreover have "owner None (srefs s') (apply_schedule e out' (w1\<lparr>wk_scheduler := s'\<rparr>))"
      by (rule apply_schedule_owner [OF _ refl s1(1,2) sch]) (use F(1) s1(3) in simp)
    ultimately show ?thesis using owner_self by simp
  next
    case (Some o1)
    then show ?thesis using r f F(1) owner_self by (simp add: schedule_step_def)
  qed
qed

lemma AddRequest_negative:
  assumes inv: "sched_inv s" and a: "AddRequest salt now req_id plen max_out prio toks allow ssm mc val s = (i, s')" and "i < 0"
  shows "s' = s"
proof (cases "allow \<or> plen \<le> max_num_batched_tokens (config s)")
  case True
  have "i = next_seq_id s" using AddRequest_accepted [OF inv True a] by (auto simp: enqueued_def)
  then show ?thesis using inv assms(3) by (simp add: sched_inv_def)
next
  case False
  then show ?thesis using arg_cong [OF a, of snd] by (simp add: AddRequest_rejected)
qed

lemma AddRequest_owner:
  assumes own: "owner None (srefs (wk_scheduler w)) w" and inv: "sched_inv (wk_scheduler w)"
    and new: "h \<notin> set (wk_active w)" "w_block_table (wk_requests w h) = []" "\<not> w_finished (wk_requests w h)"
    and a: "AddRequest salt now req_id plen max_out prio toks allow ssm mc val (wk_scheduler w) = (i, s')" and i: "0 \<le> i"
    and f: "\<And>r. w_block_table (f r) = w_block_table r \<and> w_seq_id (f r) = i \<and> w_finished (f r) = w_finished r"
  shows "owner None (srefs s') ((upd_req h f (w\<lparr>wk_scheduler := s'\<rparr>))\<lparr>wk_seq_to_request := (wk_seq_to_request w)(i \<mapsto> h), wk_active := wk_active w @ [h]\<rparr>)"
    (is "owner None (srefs s') ?w")
proof -
  have "allow \<or> plen \<le> max_num_batched_tokens (config (wk_scheduler w))"
    using AddRequest_rejected [of allow "wk_scheduler w" plen salt now req_id max_out prio toks ssm mc val] a i by (cases allow; fastforce simp: not_le [symmetric])
  then obtain g where "enqueued (wk_scheduler w) now plen toks i g s'" using AddRequest_accepted [OF inv _ a] by blast
  then have g: "waiting_queue s' = waiting_queue (wk_scheduler w) @ [g]" "acquires (wk_blocks w) (shared_block_ids g) (block_mgr s')"
    by (simp_all add: enqueued_def)
  have sr: "srefs s' = srefs (wk_scheduler w) @ shared_block_ids g" by (simp add: srefs_def g(1))
  have ok: "worker_ok w (srefs (wk_scheduler w))" by (rule ownerD [OF own])
  have unm: "wk_seq_to_request w j = Some x \<Longrightarrow> x \<noteq> h" for j x using new(1) mapped_active [OF own] by blast
  have "w_block_table (wk_requests ?w x) = w_block_table (wk_requests w x)" for x using f by simp
  then have held: "held ?w b = held w b" for b unfolding held_def by (simp add: new(2) del: upd_sel)
  have "backed (block_mgr s') (\<lambda>b. (held w b + count_list (srefs (wk_scheduler w)) b) + count_list (shared_block_ids g) b)"
    by (rule backed_acquires [OF worker_okD(3) [OF ok] g(2)])
  then have "backed (wk_blocks ?w) (\<lambda>b. held ?w b + count_list (srefs s') b)" by (simp add: held sr add_ac)
  then have "worker_ok ?w (srefs s')" using ok new(1) unm i f by (auto simp: worker_ok_def)
  then show ?thesis using own new(3) unm f by (auto simp: owner_def)
qed

lemma admit_request_owner:
  assumes own: "owner None (srefs (wk_scheduler w)) w" and inv: "sched_inv (wk_scheduler w)"
    and new: "h \<notin> set (wk_active w)" "w_block_table (wk_requests w h) = []" "\<not> w_finished (wk_requests w h)"
    and r: "admit_request e now h w = (ok, w')"
  shows "owner None (srefs (wk_scheduler w')) w'"
proof -
  have unm: "wk_seq_to_request w i \<noteq> Some h" for i using new(1) mapped_active [OF own] by blast
  have fin: "owner None xs (snd (finalize_generation_error h c t v))" if "owner None xs v" "\<And>i. wk_seq_to_request v i \<noteq> Some h" for v c t xs
    using owner_finalize(1) [OF owner_weaken [OF that(1)], of h c t] that(2) by (auto simp: owner_def)
  define v where "v = upd_req h (\<lambda>r. r\<lparr>w_start_time := now\<rparr>) w"
  have v: "owner None (srefs (wk_scheduler w)) v" "wk_scheduler v = wk_scheduler w" "wk_seq_to_request v = wk_seq_to_request w" using own by (simp_all add: v_def)
  show ?thesis
  proof (cases "rq_tokens (w_view (wk_requests v h)) = []")
    case True
    then have "w' = snd (finalize_generation_error h MissingTokens ''Error: Missing tokens'' v)" using r by (simp add: admit_request_def v_def Let_def)
    then show ?thesis using owner_self [OF fin [OF v(1)]] unm v(3) by simp
  next
    case False
    let ?v1 = "InitializeRequestPrefixCacheState (we_config e) (we_model e) (w_view (wk_requests v h))"
    obtain chunk v2 where c: "ApplyGraphContextPrefillChunkDowngrade (we_arch e) (we_memory_oracle e) (we_model e) (we_available_bytes e)
        (ResolveModelPrefillChunkTokens (we_arch e) (we_environment e) (we_model e) (Some ?v1)) ?v1 = (chunk, v2)" by fastforce
    define w1 where "w1 = upd_req h (\<lambda>r. r\<lparr>w_view := v2, w_prefill_chunk_tokens_effective := max 0 chunk\<rparr>) v"
    obtain i s' where a: "AddRequest (we_salt e) now (w_id (wk_requests w1 h)) (int (length (rq_original_prompt_tokens_for_cache v2)))
        (w_max_tokens (wk_requests w1 h)) (w_priority (wk_requests w1 h))
        (if rq_prefix_cache_allowed v2 then Some (rq_original_prompt_tokens_for_cache v2) else None) (\<not> w_is_embedding (wk_requests w1 h))
        (ModelRequiresPrefixStateSnapshot (we_model e)) chunk (BuildHybridSSMSnapshotValidatorForRequest (we_model e) (Some v2)) (wk_scheduler w1) = (i, s')"
      by fastforce
    have w1: "owner None (srefs (wk_scheduler w1)) w1" "sched_inv (wk_scheduler w1)" "wk_seq_to_request w1 = wk_seq_to_request w"
      "wk_active w1 = wk_active w" "w_block_table (wk_requests w1 h) = []" "\<not> w_finished (wk_requests w1 h)"
      using own inv new by (simp_all add: w1_def v_def)
    let ?f = "\<lambda>r. r\<lparr>w_seq_id := i, w_empty_schedule_stall_count := 0, w_last_progress_time := w_start_time r\<rparr>"
    have w': "w' = (if i < 0 then snd (finalize_generation_error h SchedulerRejected
          ''Error: Request cannot be scheduled (queue full or prefill budget exceeded)'' (w1\<lparr>wk_scheduler := s'\<rparr>))
        else (upd_req h ?f (w1\<lparr>wk_scheduler := s'\<rparr>))\<lparr>wk_seq_to_request := (wk_seq_to_request w1)(i \<mapsto> h), wk_active := wk_active w1 @ [h]\<rparr>)"
      unfolding w1_def using r False c a [unfolded w1_def] by (simp add: admit_request_def Let_def v_def [symmetric] split: if_splits)
    show ?thesis
    proof (cases "i < 0")
      case True
      then have "s' = wk_scheduler w1" using AddRequest_negative [OF w1(2) a] by simp
      then show ?thesis using True w' owner_self [OF fin [OF w1(1)]] unm w1(3) by simp
    next
      case False
      have "owner None (srefs s') ((upd_req h ?f (w1\<lparr>wk_scheduler := s'\<rparr>))\<lparr>wk_seq_to_request := (wk_seq_to_request w1)(i \<mapsto> h), wk_active := wk_active w1 @ [h]\<rparr>)"
        by (rule AddRequest_owner [OF w1(1,2) _ w1(5,6) a]) (use False new(1) w1(4) in simp_all)
      then show ?thesis using False w' by simp
    qed
  qed
qed

end
