(* ===== verification/Worker_Loop.thy ===== *)
theory Worker_Loop
  imports Worker_Phases
begin

text \<open>
  One turn of the worker loop (\<^verbatim>\<open>core/src/runtime/worker.cpp\<close>), composed as the code composes its steps, the states the worker
  can reach, and what holds in all of them: ownership of blocks is kept, and every request gets exactly one terminal result.
\<close>

section \<open>One turn of the loop\<close>

text \<open>How the graph of the batch ended: the failure that every request of the batch is told, or the sampled tokens.\<close>

datatype batch_outcome = BatchFailed string string decode_finish_cause | BatchComputed "int \<Rightarrow> int \<times> string"

definition run_batch :: "worker_env \<Rightarrow> int \<Rightarrow> batch_outcome \<Rightarrow> batch_build \<Rightarrow> worker" where
  "run_batch e now outcome b =
     (case outcome of
        BatchFailed reason text cause \<Rightarrow> fail_batch_requests reason text cause (bb_requests b) (bb_worker b)
      | BatchComputed sample \<Rightarrow> process_outputs e now sample b)"

definition worker_iteration :: "worker_env \<Rightarrow> int \<Rightarrow> bool \<Rightarrow> batch_outcome \<Rightarrow> worker \<Rightarrow> worker" where
  "worker_iteration e now pending_empty outcome w =
     (let (out, w1) = schedule_step e now pending_empty (process_cancellations w)
      in if IsEmpty out then handle_empty_schedule now out w1
         else let b = build_batch e out w1
              in if bb_requests b = [] then handle_empty_batch now b else run_batch e now outcome b)"

text \<open>
  What the worker thread and its clients do: a request arrives under a new handle, a client cancels one, the worker screens and
  admits a pending request, and the loop turns.
\<close>

definition terminal_of :: "int \<Rightarrow> worker_event \<Rightarrow> bool" where
  "terminal_of h ev = (case ev of Terminal x _ _ \<Rightarrow> x = h | EmbeddingResult x _ \<Rightarrow> x = h | TokenText _ _ _ \<Rightarrow> False)"

definition tcount :: "worker \<Rightarrow> int \<Rightarrow> nat" where
  "tcount w h = length (filter (terminal_of h) (wk_events w))"

inductive worker_step :: "worker_env \<Rightarrow> worker \<Rightarrow> worker \<Rightarrow> bool" for e where
  ws_arrive: "h \<notin> set (wk_active w) \<Longrightarrow> tcount w h = 0 \<Longrightarrow> \<not> w_terminal_dispatched r \<Longrightarrow> \<not> w_finished r \<Longrightarrow> w_seq_id r < 0 \<Longrightarrow>
    worker_step e w (w\<lparr>wk_requests := (wk_requests w)(h := r)\<rparr>)"
| ws_cancel: "worker_step e w (upd_req h (\<lambda>r. r\<lparr>w_cancelled := True\<rparr>) w)"
| ws_screen: "screen_request running pending h w = (ok, w') \<Longrightarrow> worker_step e w w'"
| ws_admit: "admit_request e now h w = (ok, w') \<Longrightarrow> worker_step e w w'"
| ws_iterate: "worker_step e w (worker_iteration e now idle outcome w)"

inductive worker_reachable :: "worker_env \<Rightarrow> worker \<Rightarrow> bool" for e where
  wr_start: "wk_active w = [] \<Longrightarrow> wk_events w = [] \<Longrightarrow>
    (\<And>h. \<not> w_finished (wk_requests w h) \<and> \<not> w_terminal_dispatched (wk_requests w h) \<and> w_seq_id (wk_requests w h) < 0) \<Longrightarrow> worker_reachable e w"
| wr_step: "worker_reachable e w \<Longrightarrow> worker_step e w w' \<Longrightarrow> worker_reachable e w'"

section \<open>Ownership over a turn\<close>

definition worker_inv :: "worker \<Rightarrow> bool" where
  "worker_inv w \<longleftrightarrow> owner None (srefs (wk_scheduler w)) w"

lemma drop_scheduler:
  assumes "sched_inv (wk_scheduler w)" and "no_cancel (wk_scheduler w)"
  shows "sched_inv (wk_scheduler (drop_sequence i c w))" and "no_cancel (wk_scheduler (drop_sequence i c w))"
proof -
  show "sched_inv (wk_scheduler (drop_sequence i c w))" using assms(1) by (simp add: drop_sequence_def RemoveRequest_inv)
  show "no_cancel (wk_scheduler (drop_sequence i c w))" using assms(2)
    by (auto simp: drop_sequence_def no_cancel_def RemoveRequest_def CleanupSequenceState_def Let_def can_chunk_def split: if_splits)
qed

lemma cancellations_scheduler:
  assumes "sched_inv (wk_scheduler w)" and "no_cancel (wk_scheduler w)" and own: "owner None xs w"
  shows "sched_inv (wk_scheduler (process_cancellations w))" and "no_cancel (wk_scheduler (process_cancellations w))"
proof -
  obtain ids w1 where p: "fold cancel_active (wk_active w) ([], w) = (ids, w1)" by fastforce
  have "\<exists>bm. wk_scheduler (snd (fold cancel_active hs (ids0, v))) = (wk_scheduler v)\<lparr>block_mgr := bm\<rparr>" for hs ids0 v
  proof (induction hs arbitrary: ids0 v)
    case Nil
    show ?case by (auto intro: exI [of _ "wk_blocks v"])
  next
    case (Cons h hs)
    have "\<exists>bm. wk_scheduler (snd (cancel_active h (ids0, v))) = (wk_scheduler v)\<lparr>block_mgr := bm\<rparr>"
      by (auto simp: cancel_active_eq Let_def free_request_blocks_def upd_blocks_def finalize_generation_error_def
          FinalizeGenerationRequestOnce_def FinalizeEmbeddingRequestOnce_def intro: exI [of _ "wk_blocks v"])
    then show ?case using Cons.IH [of "fst (cancel_active h (ids0, v))" "snd (cancel_active h (ids0, v))"] by auto
  qed
  from this [of "wk_active w" "[]" w] obtain bm where s1: "wk_scheduler w1 = (wk_scheduler w)\<lparr>block_mgr := bm\<rparr>" by (auto simp: p)
  have "worker_ok w1 xs" by (rule conjunct1 [OF cancel_pass_owner [OF _ _ _ _ p]]) (use own in \<open>auto simp: owner_def\<close>)
  then have "bm_inv bm" using worker_okD(2) [of w1 xs] s1 by simp
  then have w1: "sched_inv (wk_scheduler w1)" "no_cancel (wk_scheduler w1)"
    unfolding s1 using sched_inv_bm [OF assms(1)] assms(2) by (simp_all add: no_cancel_def can_chunk_def)
  have "sched_inv (wk_scheduler (fold (\<lambda>i. drop_sequence i False) js v)) \<and> no_cancel (wk_scheduler (fold (\<lambda>i. drop_sequence i False) js v))"
    if "sched_inv (wk_scheduler v)" "no_cancel (wk_scheduler v)" for js v
    using that by (induction js arbitrary: v) (simp_all add: drop_scheduler)
  from this [OF w1, of ids] show "sched_inv (wk_scheduler (process_cancellations w))" "no_cancel (wk_scheduler (process_cancellations w))"
    by (simp_all add: process_cancellations_def p)
qed

lemma cancellations_pending:
  "w_pending_scheduler_progress (wk_requests (process_cancellations w) x) = w_pending_scheduler_progress (wk_requests w x)"
proof -
  obtain ids w1 where p: "fold cancel_active (wk_active w) ([], w) = (ids, w1)" by fastforce
  have "w_pending_scheduler_progress (wk_requests (snd (fold cancel_active hs (ids0, v))) x) = w_pending_scheduler_progress (wk_requests v x)" for hs ids0 v
  proof (induction hs arbitrary: ids0 v)
    case (Cons h hs)
    have "w_pending_scheduler_progress (wk_requests (snd (cancel_active h (ids0, v))) x) = w_pending_scheduler_progress (wk_requests v x)"
      by (auto simp: cancel_active_eq Let_def free_request_blocks_def finalize_generation_error_def
          FinalizeGenerationRequestOnce_def FinalizeEmbeddingRequestOnce_def)
    then show ?case using Cons.IH [of "fst (cancel_active h (ids0, v))" "snd (cancel_active h (ids0, v))"] by simp
  qed simp
  from this [of "wk_active w" "[]" w] have "w_pending_scheduler_progress (wk_requests w1 x) = w_pending_scheduler_progress (wk_requests w x)" by (simp add: p)
  moreover have "wk_requests (fold (\<lambda>i. drop_sequence i False) js v) = wk_requests v" for js v by (induction js arbitrary: v) simp_all
  ultimately show ?thesis by (simp add: process_cancellations_def p)
qed

section \<open>One terminal result\<close>

text \<open>
  \<open>settled ex w\<close>: a request has been told its result once if it is marked so and never otherwise, and is then finished;
  the other way round for all requests but \<open>ex\<close>; and a request the scheduler has accepted is active or finished.
\<close>

definition settled :: "int option \<Rightarrow> worker \<Rightarrow> bool" where
  "settled ex w \<longleftrightarrow>
     (\<forall>h. tcount w h = of_bool (w_terminal_dispatched (wk_requests w h)) \<and>
        (w_terminal_dispatched (wk_requests w h) \<longrightarrow> w_finished (wk_requests w h)) \<and>
        (Some h \<noteq> ex \<and> w_finished (wk_requests w h) \<longrightarrow> w_terminal_dispatched (wk_requests w h)) \<and>
        (0 \<le> w_seq_id (wk_requests w h) \<longrightarrow> h \<in> set (wk_active w) \<or> w_finished (wk_requests w h)))"

definition quiet :: "worker \<Rightarrow> worker \<Rightarrow> bool" where
  "quiet w w' \<longleftrightarrow> filter (\<lambda>ev. \<exists>h. terminal_of h ev) (wk_events w') = filter (\<lambda>ev. \<exists>h. terminal_of h ev) (wk_events w) \<and> wk_active w' = wk_active w \<and>
     (\<forall>h. w_finished (wk_requests w' h) = w_finished (wk_requests w h) \<and>
        w_terminal_dispatched (wk_requests w' h) = w_terminal_dispatched (wk_requests w h) \<and>
        w_is_embedding (wk_requests w' h) = w_is_embedding (wk_requests w h) \<and> w_seq_id (wk_requests w' h) = w_seq_id (wk_requests w h))"

lemma tcount_alt: "tcount w h = length (filter (terminal_of h) (filter (\<lambda>ev. \<exists>h. terminal_of h ev) (wk_events w)))"
  unfolding tcount_def filter_filter by (rule arg_cong [of _ _ length], rule filter_cong) auto

lemma quiet_settled: "quiet w w' \<Longrightarrow> settled ex w \<Longrightarrow> settled ex w'"
  by (simp add: quiet_def settled_def tcount_alt)

lemma quiet_refl [simp]: "quiet w w"
  by (simp add: quiet_def)

lemma quiet_trans: "quiet w w1 \<Longrightarrow> quiet w1 w2 \<Longrightarrow> quiet w w2"
  by (simp add: quiet_def)

lemma quiet_fold: "(\<And>x w. x \<in> set xs \<Longrightarrow> quiet w (f x w)) \<Longrightarrow> quiet w (fold f xs w)"
proof (induction xs arbitrary: w)
  case (Cons x xs)
  show ?case using quiet_trans [of w "f x w"] Cons by simp
qed simp

abbreviation keeps_end :: "(worker_request \<Rightarrow> worker_request) \<Rightarrow> bool" where
  "keeps_end f \<equiv> \<forall>r. w_finished (f r) = w_finished r \<and> w_terminal_dispatched (f r) = w_terminal_dispatched r \<and>
     w_is_embedding (f r) = w_is_embedding r \<and> w_seq_id (f r) = w_seq_id r"

lemma quiet_cong:
  assumes "filter (\<lambda>ev. \<exists>h. terminal_of h ev) (wk_events v') = filter (\<lambda>ev. \<exists>h. terminal_of h ev) (wk_events v)" and "wk_active v' = wk_active v"
    and "\<And>h. w_finished (wk_requests v' h) = w_finished (wk_requests v h)"
    and "\<And>h. w_terminal_dispatched (wk_requests v' h) = w_terminal_dispatched (wk_requests v h)"
    and "\<And>h. w_is_embedding (wk_requests v' h) = w_is_embedding (wk_requests v h)" and "\<And>h. w_seq_id (wk_requests v' h) = w_seq_id (wk_requests v h)"
  shows "quiet w v' = quiet w v"
  using assms by (simp add: quiet_def)

lemma quiet_simps [simp]:
  "keeps_end f \<Longrightarrow> quiet w (upd_req h f v) = quiet w v"
  "quiet w (upd_blocks g v) = quiet w v" "quiet w (v\<lparr>wk_memory := m\<rparr>) = quiet w v" "quiet w (v\<lparr>wk_watchdog := wd\<rparr>) = quiet w v"
  "quiet w (v\<lparr>wk_scheduler := s\<rparr>) = quiet w v" "quiet w (free_request_blocks h v) = quiet w v"
  "quiet w (drop_sequence i c v) = quiet w v" "quiet w (remove_request_from_scheduler h c v) = quiet w v"
  "es = wk_events v \<Longrightarrow> quiet w (v\<lparr>wk_events := es @ [TokenText x y z]\<rparr>) = quiet w v"
  by (rule quiet_cong; simp add: free_request_blocks_def terminal_of_def)+

lemma quiet_steps:
  "quiet w (append_blocks ids h w)" "quiet w (grow_table h k w)" "quiet w (restore_snapshot e hit h w)"
  "quiet w (swap_out_request e h w)" "quiet w (apply_prefix_hit e hit w)" "quiet w (apply_new_blocks x w)"
proof -
  show r: "quiet v (restore_snapshot e hit h v)" for v h by (auto simp: restore_snapshot_def Let_def split: option.splits)
  show "quiet w (append_blocks ids h w)" "quiet w (grow_table h k w)" "quiet w (swap_out_request e h w)"
    by (auto simp: append_blocks_def grow_table_def swap_out_request_def Let_def split: prod.splits)
  show "quiet w (apply_new_blocks x w)" by (auto simp: apply_new_blocks_def with_request_def append_blocks_def split: option.splits prod.splits)
  show "quiet w (apply_prefix_hit e hit w)"
    by (auto simp: apply_prefix_hit_def with_request_def split: option.splits intro!: quiet_trans [OF _ r])
qed

lemma settled_Finalize:
  assumes "settled ex w"
  shows "settled ex (snd (FinalizeGenerationRequestOnce h t er w))" "settled ex (snd (FinalizeEmbeddingRequestOnce h st w))"
  using assms by (auto simp: settled_def FinalizeGenerationRequestOnce_def FinalizeEmbeddingRequestOnce_def Let_def tcount_def terminal_of_def)

lemma settled_finalize:
  assumes "settled (Some h) w"
  shows "settled None (snd (finalize_generation_error h c t w))"
    "\<not> w_is_embedding (wk_requests w h) \<Longrightarrow> settled None (snd (finalize_generation_success h w))"
    "w_is_embedding (wk_requests w h) \<Longrightarrow> settled None (snd (FinalizeEmbeddingRequestOnce h st w))"
  using assms by (auto simp: settled_def finalize_generation_error_def finalize_generation_success_def
      FinalizeGenerationRequestOnce_def FinalizeEmbeddingRequestOnce_def Let_def tcount_def terminal_of_def)

lemma settled_weaken: "settled None w \<Longrightarrow> settled ex w"
  by (auto simp: settled_def)

lemma settled_fail: "settled None w \<Longrightarrow> settled None (fail_request h c t w)"
  by (rule quiet_settled [OF _ settled_finalize(1) [OF settled_weaken, of w h c t]]) (simp_all add: fail_request_def)

lemma settled_reap: "settled ex w \<Longrightarrow> settled ex (reap_finished_requests w)"
  by (auto simp: settled_def reap_finished_requests_def tcount_def)

lemma settled_fold: "settled ex w \<Longrightarrow> (\<And>x w. x \<in> set xs \<Longrightarrow> settled ex w \<Longrightarrow> settled ex (f x w)) \<Longrightarrow> settled ex (fold f xs w)"
  by (induction xs arbitrary: w) simp_all

subsection \<open>The steps\<close>

lemma settled_free: "settled ex w \<Longrightarrow> settled ex (free_request_blocks h w)" "settled ex w \<Longrightarrow> settled ex (remove_request_from_scheduler h c w)"
  by (erule quiet_settled [rotated], simp)+

lemma settled_cancellations:
  assumes "settled None w"
  shows "settled None (process_cancellations w)"
proof -
  obtain ids w1 where p: "fold cancel_active (wk_active w) ([], w) = (ids, w1)" by fastforce
  have "settled None (snd (fold cancel_active hs (ids0, v)))" if "settled None v" for hs ids0 v
    using that
  proof (induction hs arbitrary: ids0 v)
    case (Cons h hs)
    have "settled None (snd (cancel_active h (ids0, v)))"
      using Cons.prems settled_finalize(1) [OF settled_weaken [OF Cons.prems]] by (auto simp: cancel_active_eq Let_def settled_free)
    then show ?case using Cons.IH [of "snd (cancel_active h (ids0, v))" "fst (cancel_active h (ids0, v))"] by simp
  qed simp
  from this [OF assms, of "wk_active w" "[]"] have "settled None w1" by (simp add: p)
  moreover have "quiet w1 (fold (\<lambda>i. drop_sequence i False) ids w1)" by (rule quiet_fold) simp
  ultimately show ?thesis using quiet_settled by (simp add: process_cancellations_def p)
qed

lemma settled_swap_in:
  assumes "settled None w"
  shows "settled None (swap_in_request e h w)"
proof -
  let ?w1 = "upd_req h (\<lambda>r. r\<lparr>w_swap_state := clear_swap, w_is_swapped := False\<rparr>) (free_request_blocks h w)"
  have "settled None ?w1" by (rule quiet_settled [OF _ assms]) simp
  from settled_finalize(1) [OF settled_weaken [OF this]]
  have "settled None (snd (finalize_generation_error h OutOfMemory ''Error: Swap-in failed'' ?w1))" .
  then have "settled None (remove_request_from_scheduler h False (snd (finalize_generation_error h OutOfMemory ''Error: Swap-in failed'' ?w1)))"
    by (rule quiet_settled [rotated]) simp
  moreover have "settled None (upd_req h (\<lambda>r. r\<lparr>w_swap_state := clear_swap, w_is_swapped := False\<rparr>) (w\<lparr>wk_memory := m\<rparr>))" for m
    by (rule quiet_settled [OF _ assms]) simp
  ultimately show ?thesis using assms by (simp add: swap_in_request_def Let_def)
qed

lemma quiet_flush: "quiet w (flush_scheduler_progress hs w)"
proof -
  obtain us w1 where f: "fold flush_one hs ([], w) = (us, w1)" by fastforce
  have "quiet v (snd (fold flush_one hs (us0, v)))" for us0 v
  proof (induction hs arbitrary: us0 v)
    case (Cons h hs)
    have "quiet v (snd (flush_one h (us0, v)))" by (simp add: flush_one_def Let_def)
    then show ?case using Cons.IH [of "snd (flush_one h (us0, v))" "fst (flush_one h (us0, v))"] quiet_trans by simp
  qed simp
  from this [of w "[]"] show ?thesis by (simp add: flush_scheduler_progress_def f)
qed

lemma settled_apply_schedule:
  assumes "settled None w"
  shows "settled None (apply_schedule e out w)"
proof -
  have a: "quiet v (fold apply_new_blocks new v)" "quiet v (fold (apply_prefix_hit e) hs v)" "quiet v (fold (\<lambda>(_, ids). upd_blocks (Free ids)) fr v)"
    "quiet v (fold (\<lambda>i. with_request i (swap_out_request e)) js v)" for v new hs fr js
    by (rule quiet_fold; auto simp: quiet_steps with_request_def split: option.splits)+
  have b: "settled None (fold (\<lambda>i. with_request i (swap_in_request e)) js v)" if "settled None v" for v js
    by (rule settled_fold [OF that]) (auto simp: with_request_def settled_swap_in split: option.splits)
  have c: "settled None (fold apply_new_blocks (new_block_allocations out) w)" by (rule quiet_settled [OF a(1) assms])
  then have "settled None (fold (apply_prefix_hit e) (prefix_cache_hits out) (fold apply_new_blocks (new_block_allocations out) w))"
    by (rule quiet_settled [OF a(2)])
  with c show ?thesis unfolding apply_schedule_def Let_def by (intro quiet_settled [OF a(4)] quiet_settled [OF a(3)] b) simp
qed

lemma settled_schedule_step:
  assumes "settled None w" and "schedule_step e now idle w = (out, w')"
  shows "settled None w'"
proof -
  obtain res w1 where f: "single_request_fast_path e idle w = (res, w1)" by fastforce
  have "quiet w (grow_table h k (upd_blocks g w))" for h k g by (rule quiet_trans [OF _ quiet_steps(2)]) simp
  then have "quiet w w1" using f by (auto simp: single_request_fast_path_def Let_def split: if_splits prod.splits)
  then have w1: "settled None w1" by (rule quiet_settled [OF _ assms(1)])
  let ?w2 = "flush_scheduler_progress (wk_active w1) w1"
  have "settled None (?w2\<lparr>wk_scheduler := s'\<rparr>)" for s' by (rule quiet_settled [OF _ w1]) (simp add: quiet_flush)
  then show ?thesis using assms(2) f w1 settled_apply_schedule by (auto simp: schedule_step_def Let_def split: option.splits prod.splits)
qed

lemma quiet_reset: "quiet w (reset_empty_schedule_watchdog w)"
  unfolding reset_empty_schedule_watchdog_def by (simp, rule quiet_fold) simp

lemma settled_fail_if_live: "settled None w \<Longrightarrow> settled None (fail_if_live c t h w)"
  by (simp add: fail_if_live_def settled_fail)

lemma settled_empty_schedule:
  assumes "settled None w"
  shows "settled None (handle_empty_schedule now out w)"
proof -
  let ?bump = "\<lambda>h. upd_req h (\<lambda>r. r\<lparr>w_empty_schedule_stall_count := w_empty_schedule_stall_count r + 1\<rparr>)"
  have "quiet w (fold ?bump hs w)" for hs by (rule quiet_fold) simp
  then have b: "settled None ((fold ?bump hs w)\<lparr>wk_watchdog := wd\<rparr>)" "settled None (fold ?bump hs w)" for hs wd
    by (simp_all add: quiet_settled [OF _ assms])
  have f: "settled None (fold (fail_if_live c t) hs v)" if "settled None v" for c t hs v by (rule settled_fold [OF that]) (rule settled_fail_if_live)
  have r: "settled None (reset_empty_schedule_watchdog v)" if "settled None v" for v by (rule quiet_settled [OF quiet_reset that])
  show ?thesis using assms b f r settled_reap settled_fail_if_live
    by (auto simp: handle_empty_schedule_def Let_def split: option.splits prod.splits)
qed

lemma quiet_ensure: "quiet w (snd (ensure_request_block_writable e h p w))" "quiet w (snd (ensure_blocks e h bs w))"
  "quiet w (snd (ensure_request_blocks_writable e h s n w))"
proof -
  show e1: "quiet v (snd (ensure_request_block_writable e h p v))" for v p
    by (auto simp: ensure_request_block_writable_def Let_def split: prod.splits)
  show e2: "quiet w (snd (ensure_blocks e h bs w))" for bs
  proof (induction bs arbitrary: w)
    case (Cons b bs)
    show ?case using e1 [of w "b * BLOCK_SIZE"] Cons.IH quiet_trans by (auto split: prod.splits bool.splits)
  qed simp
  show "quiet w (snd (ensure_request_blocks_writable e h s n w))" by (simp add: ensure_request_blocks_writable_def Let_def e2)
qed

definition one_kind :: "worker \<Rightarrow> batch_build \<Rightarrow> bool" where
  "one_kind w b \<longleftrightarrow> quiet w (bb_worker b) \<and> (\<forall>h \<in> set (bb_requests b). bb_kind b = Some (w_is_embedding (wk_requests w h)))"

lemma one_kind_parts [simp]:
  "one_kind w (note_batch_build_stall h b) = one_kind w b" "one_kind w (b\<lparr>bb_missing := m\<rparr>) = one_kind w b"
  "one_kind w (b\<lparr>bb_scheduled := n\<rparr>) = one_kind w b"
  "bb_kind b = Some (w_is_embedding (wk_requests w h)) \<Longrightarrow> one_kind w (add_to_batch tokens h b) = one_kind w b"
  by (auto simp: one_kind_def note_batch_build_stall_def add_to_batch_def Let_def)

lemma one_kind_worker: "one_kind w b \<Longrightarrow> quiet (bb_worker b) w' \<Longrightarrow> one_kind w (b\<lparr>bb_worker := w'\<rparr>)"
  using quiet_trans by (auto simp: one_kind_def)

lemma one_kind_join:
  assumes "one_kind w b" and "bb_kind b = Some (w_is_embedding (wk_requests w h))"
  shows "one_kind w (join_prefill e out i h b)" "one_kind w (join_decode e h b)"
proof -
  have q: "quiet (bb_worker b) w1" if "ensure_request_blocks_writable e h s n (bb_worker b) = (d, w1)" for s n d w1
    using quiet_ensure(3) [of "bb_worker b" e h s n] that by simp
  show "one_kind w (join_decode e h b)" using assms q
    by (auto simp: join_decode_def Let_def split: prod.splits bool.splits intro!: one_kind_worker)
  show "one_kind w (join_prefill e out i h b)" using assms q
    by (auto simp: join_prefill_def Let_def split: prod.splits bool.splits intro!: one_kind_worker)
qed

lemma one_kind_consider:
  assumes "one_kind w b" and join: "\<And>h b. one_kind w b \<Longrightarrow> bb_kind b = Some (w_is_embedding (wk_requests w h)) \<Longrightarrow> one_kind w (join h b)"
  shows "one_kind w (consider_request i join b)"
proof -
  have emb: "w_is_embedding (wk_requests (bb_worker b) h) = w_is_embedding (wk_requests w h)" for h using assms(1) by (simp add: one_kind_def quiet_def)
  have "one_kind w (b\<lparr>bb_scheduled := n, bb_kind := Some k\<rparr>)" if "bb_kind b = None" for n k
    using assms(1) that by (auto simp: one_kind_def)
  then show ?thesis using assms emb by (auto simp: consider_request_def Let_def split: option.splits)
qed

lemma one_kind_build: "one_kind w (build_batch e out w)"
  unfolding build_batch_def
proof (rule fold_invariant [where Q = "\<lambda>_. True"])
  have "one_kind w (start_build (reset_empty_schedule_watchdog w))" using quiet_reset by (simp add: one_kind_def start_build_def)
  then show "one_kind w (fold (\<lambda>i. consider_request i (join_prefill e out i)) (prefill_seq_ids out) (start_build (reset_empty_schedule_watchdog w)))"
    by (rule fold_invariant [where Q = "\<lambda>_. True", rotated]) (simp_all add: one_kind_consider one_kind_join)
qed (simp_all add: one_kind_consider one_kind_join)

subsection \<open>The end of a request\<close>

lemma quiet_register: "quiet w (register_completed_prefix_blocks e h w)"
proof -
  have "quiet w (fold (register_block e h) js w)" for js by (rule quiet_fold) (simp add: register_block_def Let_def)
  then show ?thesis by (simp add: register_completed_prefix_blocks_def Let_def)
qed

lemma quiet_commit: "quiet w (snd (commit_prefill e now h n w))" "quiet w (commit_decode e now h n tok w)"
proof -
  have "quiet w (register_completed_prefix_blocks e h (upd_req h f w))" if "keeps_end f" for f
    by (rule quiet_trans [OF _ quiet_register]) (simp add: that)
  moreover have "quiet w (register_completed_prefix_blocks e h (upd_req h g (upd_req h f w)))" if "keeps_end f" "keeps_end g" for f g
    by (rule quiet_trans [OF _ quiet_register]) (simp add: that)
  ultimately show "quiet w (snd (commit_prefill e now h n w))" "quiet w (commit_decode e now h n tok w)"
    by (auto simp: commit_prefill_def commit_decode_def Let_def)
qed

text \<open>\<open>ending h w w'\<close>: only request \<open>h\<close> may have become finished, and its kind is as before.\<close>

definition ending :: "int \<Rightarrow> worker \<Rightarrow> worker \<Rightarrow> bool" where
  "ending h w w' \<longleftrightarrow> (settled (Some h) w \<longrightarrow> settled (Some h) w') \<and> (\<forall>x. w_is_embedding (wk_requests w' x) = w_is_embedding (wk_requests w x))"

lemma ending_trans: "ending h w w1 \<Longrightarrow> ending h w1 w2 \<Longrightarrow> ending h w w2"
  by (simp add: ending_def)

lemma ending_quiet: "quiet w w' \<Longrightarrow> ending h w w'"
  unfolding ending_def by (metis quiet_settled quiet_def)

lemma ending_upd:
  assumes "\<And>r. (w_finished r \<longrightarrow> w_finished (f r)) \<and> w_terminal_dispatched (f r) = w_terminal_dispatched r \<and> w_is_embedding (f r) = w_is_embedding r \<and> w_seq_id (f r) = w_seq_id r"
  shows "ending h w (upd_req h f w)"
  using assms by (auto simp: ending_def settled_def tcount_def)

lemma finalize_emb [simp]:
  "w_is_embedding (wk_requests (snd (finalize_generation_error h c t w)) x) = w_is_embedding (wk_requests w x)"
  "w_is_embedding (wk_requests (snd (finalize_generation_success h w)) x) = w_is_embedding (wk_requests w x)"
  "w_is_embedding (wk_requests (snd (FinalizeEmbeddingRequestOnce h st w)) x) = w_is_embedding (wk_requests w x)"
  by (simp_all add: finalize_generation_error_def finalize_generation_success_def FinalizeGenerationRequestOnce_def
      FinalizeEmbeddingRequestOnce_def Let_def)

lemma ending_finalize: "ending h w (snd (finalize_generation_error h c t w))"
  unfolding ending_def using settled_weaken [OF settled_finalize(1)] by simp

lemma ending_accept: "ending h w (accept_token e h token w)"
  unfolding accept_token_def by (rule ending_upd) (simp add: Let_def)

lemma ending_emit: "ending h w (snd (emit_token h token piece w))"
  by (rule ending_quiet) (simp add: emit_token_def Let_def case_prod_unfold)

lemma ending_stop: "ending h w (stop_on_sequence h shown w)"
  unfolding stop_on_sequence_def by (rule ending_upd) (simp add: Let_def case_prod_unfold)

lemma finalize_error_true:
  "fst (finalize_generation_error h c t w) \<Longrightarrow> w_terminal_dispatched (wk_requests (snd (finalize_generation_error h c t w)) h)"
  by (auto simp: finalize_generation_error_def FinalizeGenerationRequestOnce_def FinalizeEmbeddingRequestOnce_def Let_def split: if_splits)

lemma ending_grow:
  "ending h w (snd (grow_for_next k h w)) \<and> (fst (grow_for_next k h w) \<longrightarrow> w_terminal_dispatched (wk_requests (snd (grow_for_next k h w)) h))"
proof (induction k arbitrary: w)
  case (Suc k)
  obtain ids bm' where a: "Allocate 1 (wk_blocks w) = (ids, bm')" by fastforce
  let ?w1 = "upd_blocks (\<lambda>_. bm') w"
  let ?w2 = "upd_req h (\<lambda>r. r\<lparr>w_finished := True, w_finish_cause := OutOfMemory\<rparr>) ?w1"
  let ?w3 = "upd_req h (\<lambda>r. r\<lparr>w_block_table := w_block_table r @ [hd ids]\<rparr>) ?w1"
  have "ending h w ?w1" "ending h w ?w3" by (rule ending_quiet, simp)+
  moreover have "ending h ?w1 ?w2" by (rule ending_upd) simp
  ultimately have "ending h w (snd (finalize_generation_error h c t ?w2))" for c t using ending_trans ending_finalize by blast
  then show ?case using Suc.IH [of ?w3] \<open>ending h w ?w3\<close> ending_trans finalize_error_true by (auto simp: a Let_def)
qed (simp add: ending_quiet)

lemma settled_finish_request:
  assumes "settled (Some h) w" and "\<not> w_is_embedding (wk_requests w h)" and "emitted \<Longrightarrow> w_terminal_dispatched (wk_requests w h)"
  shows "settled None (finish_request e h token emitted w) \<and> (\<forall>x. w_is_embedding (wk_requests (finish_request e h token emitted w) x) = w_is_embedding (wk_requests w x))"
proof (cases "w_finished (wk_requests w h) \<or> IsStopTokenId (we_eos_token_id e) (we_stop_token_ids e) token \<or> w_max_tokens (wk_requests w h) \<le> w_generated_count (wk_requests w h)")
  case True
  let ?r = "wk_requests w h"
  obtain tail ts where t: "(if emitted then (None, w_text ?r) else tail_text (w_text ?r)) = (tail, ts)" by fastforce
  let ?w1 = "upd_req h (\<lambda>r. r\<lparr>w_finish_cause := (if w_finished r then w_finish_cause r
      else if IsStopTokenId (we_eos_token_id e) (we_stop_token_ids e) token then StopToken else MaxTokens), w_finished := True\<rparr>) w"
  define w2 where "w2 = (case tail of None \<Rightarrow> ?w1 | Some text \<Rightarrow> ?w1\<lparr>wk_events := wk_events ?w1 @ [TokenText h token text]\<rparr>)"
  define w3 where "w3 = upd_req h (\<lambda>r. r\<lparr>w_text := ts\<lparr>ts_utf8_pending := []\<rparr>\<rparr>) w2"
  have "quiet ?w1 w3" by (auto simp: w3_def w2_def split: option.splits)
  then have "ending h ?w1 w3" by (rule ending_quiet)
  moreover have "ending h w ?w1" by (rule ending_upd) simp
  ultimately have e3: "settled (Some h) w3" "\<And>x. w_is_embedding (wk_requests w3 x) = w_is_embedding (wk_requests w x)"
    using ending_trans assms(1) by (auto simp: ending_def)
  have d3: "emitted \<Longrightarrow> w_terminal_dispatched (wk_requests w3 h)" using assms(3) by (auto simp: w3_def w2_def split: option.splits)
  define w4 where "w4 = (if emitted then w3 else snd (finalize_generation_success h w3))"
  have s4: "settled None w4"
  proof (cases emitted)
    case True
    then show ?thesis using e3(1) d3 by (auto simp: w4_def settled_def)
  next
    case False
    then show ?thesis using settled_finalize(2) [OF e3(1)] e3(2) assms(2) by (simp add: w4_def)
  qed
  have eq: "finish_request e h token emitted w = remove_request_from_scheduler h True (free_request_blocks h w4)"
    unfolding finish_request_def Let_def if_not_P [OF not_not [THEN iffD2, OF True]] t prod.case w4_def w3_def w2_def ..
  have "w_is_embedding (wk_requests (free_request_blocks h w4) x) = w_is_embedding (wk_requests w x)" for x
    using e3(2) by (simp add: w4_def free_request_blocks_def)
  then show ?thesis unfolding eq using settled_free(2) [OF settled_free(1) [OF s4]] by simp
next
  case False
  then show ?thesis using assms(1) by (auto simp: finish_request_def settled_def)
qed

definition settles :: "worker \<Rightarrow> worker \<Rightarrow> bool" where
  "settles w w' \<longleftrightarrow> settled None w' \<and> (\<forall>x. w_is_embedding (wk_requests w' x) = w_is_embedding (wk_requests w x))"

lemma settled_generation:
  assumes "settled None w" and emb: "\<not> w_is_embedding (wk_requests w h)"
  shows "settles w (process_generation e now h n token piece w)"
proof -
  obtain go w1 where p: "(if w_is_prefill (wk_requests w h) then commit_prefill e now h n w else (True, w)) = (go, w1)" by fastforce
  then have q1: "quiet w w1" using quiet_commit(1) [of w e now h n] by (auto split: if_splits)
  obtain shown w2 where em: "emit_token h token piece (accept_token e h token w1) = (shown, w2)" by fastforce
  have e2: "ending h w1 w2" using ending_trans [OF ending_accept ending_emit [of h "accept_token e h token w1" token piece]] by (simp add: em)
  define tok where "tok = (let toks = rq_tokens (w_view (wk_requests w1 h))
     in if \<not> w_is_prefill (wk_requests w h) \<and> n = 1 \<and> length toks = 1 then hd toks else -1)"
  define w3 where "w3 = (if w_is_prefill (wk_requests w h) then w2 else commit_decode e now h n tok w2)"
  have e3: "ending h w2 w3" by (rule ending_quiet) (simp add: w3_def quiet_commit)
  obtain er w4 where rs: "reserve_next_block h w3 = (er, w4)" by fastforce
  have e4: "ending h w3 w4" "er \<Longrightarrow> w_terminal_dispatched (wk_requests w4 h)"
    using ending_grow [of h w3] rs by (metis reserve_next_block_def fst_conv snd_conv)+
  have eq: "process_generation e now h n token piece w = (if \<not> go then w1 else finish_request e h token er (stop_on_sequence h shown w4))"
    using p rs by (cases go; cases "w_is_prefill (wk_requests w h)") (simp_all add: process_generation_def w3_def tok_def Let_def em split del: if_split)
  have "ending h w (stop_on_sequence h shown w4)"
    by (rule ending_trans [OF ending_quiet [OF q1] ending_trans [OF e2 ending_trans [OF e3 ending_trans [OF e4(1) ending_stop]]]])
  then have f: "settled (Some h) (stop_on_sequence h shown w4)" "\<And>x. w_is_embedding (wk_requests (stop_on_sequence h shown w4) x) = w_is_embedding (wk_requests w x)"
    using settled_weaken [OF assms(1)] by (simp_all add: ending_def)
  have "er \<Longrightarrow> w_terminal_dispatched (wk_requests (stop_on_sequence h shown w4) h)"
    using e4(2) by (simp add: stop_on_sequence_def Let_def case_prod_unfold)
  from settled_finish_request [OF f(1) _ this] f(2) emb q1 quiet_settled [OF q1 assms(1)]
  show ?thesis unfolding eq settles_def by (auto simp: quiet_def)
qed

lemma settled_embedding:
  assumes "settled None w" and "w_is_embedding (wk_requests w h)"
  shows "settles w (process_embedding h w)"
proof -
  have "settled None (snd (FinalizeEmbeddingRequestOnce h EmbeddingOk w))" by (rule settled_finalize(3) [OF settled_weaken [OF assms(1)] assms(2)])
  then show ?thesis by (simp add: settles_def process_embedding_def settled_free) (simp add: free_request_blocks_def)
qed

lemma settled_outputs:
  assumes "settled None (bb_worker b)" and "\<And>h. h \<in> set (bb_requests b) \<Longrightarrow> bb_kind b = Some (w_is_embedding (wk_requests (bb_worker b) h))"
  shows "settled None (process_outputs e now sample b)"
proof -
  let ?one = "\<lambda>(h, n) w. if bb_kind b = Some True then process_embedding h w else process_generation e now h n (fst (sample h)) (snd (sample h)) w"
  have "settles (bb_worker b) (fold ?one hs w)" if "set (map fst hs) \<subseteq> set (bb_requests b)" "settles (bb_worker b) w" for hs w
    using that
  proof (induction hs arbitrary: w)
    case (Cons x hs)
    obtain h n where x: "x = (h, n)" by fastforce
    have w: "settled None w" "bb_kind b = Some (w_is_embedding (wk_requests w h))" using Cons.prems assms(2) [of h] by (simp_all add: settles_def x)
    have "settles w (?one x w)" using w settled_generation [OF w(1)] settled_embedding [OF w(1)] by (simp add: x)
    then have "settles (bb_worker b) (?one x w)" using Cons.prems(2) by (simp add: settles_def)
    then show ?case using Cons.IH Cons.prems(1) by simp
  qed simp
  moreover have "set (map fst (zip (bb_requests b) (bb_token_counts b))) \<subseteq> set (bb_requests b)" by (auto dest: set_zip_leftD)
  moreover have "settles (bb_worker b) (bb_worker b)" using assms(1) by (simp add: settles_def)
  ultimately have "settled None (fold ?one (zip (bb_requests b) (bb_token_counts b)) (bb_worker b))"
    unfolding settles_def by blast
  then show ?thesis unfolding process_outputs_def Let_def by (intro settled_reap quiet_settled [OF quiet_flush])
qed

lemma settled_empty_batch: "settled None (bb_worker b) \<Longrightarrow> settled None (handle_empty_batch now b)"
proof -
  assume s: "settled None (bb_worker b)"
  have f: "settled None (fold (fail_if_live c t) hs (bb_worker b))" for c t hs by (rule settled_fold [OF s]) (rule settled_fail_if_live)
  have "quiet v (fold (\<lambda>i. drop_sequence i False) js v)" for js v by (rule quiet_fold) simp
  then have "settled None (fold (\<lambda>i. drop_sequence i False) js v)" if "settled None v" for js v using that quiet_settled by blast
  then show ?thesis using s f settled_reap by (simp add: handle_empty_batch_def Let_def)
qed

lemma settled_fail_batch: "settled None w \<Longrightarrow> settled None (fail_batch_requests reason t c hs w)"
  unfolding fail_batch_requests_def
  by (erule settled_fold) (auto intro!: settled_fail intro: quiet_settled [rotated])

lemma settled_iteration:
  assumes "settled None w"
  shows "settled None (worker_iteration e now idle outcome w)"
proof -
  obtain out w1 where sch: "schedule_step e now idle (process_cancellations w) = (out, w1)" by fastforce
  have w1: "settled None w1" by (rule settled_schedule_step [OF settled_cancellations [OF assms] sch])
  let ?b = "build_batch e out w1"
  note K = one_kind_build [of w1 e out, unfolded one_kind_def]
  have q: "quiet w1 (bb_worker ?b)" using K by simp
  have b: "settled None (bb_worker ?b)" by (rule quiet_settled [OF q w1])
  have "settled None (process_outputs e now sample ?b)" for sample
    by (rule settled_outputs [OF b]) (use K in \<open>auto simp: quiet_def\<close>)
  then show ?thesis using settled_empty_schedule [OF w1] settled_empty_batch [OF b] settled_fail_batch [OF b]
    by (simp add: worker_iteration_def sch Let_def run_batch_def split: batch_outcome.split)
qed

lemma settled_screen:
  assumes "settled None w" and "screen_request running pending h w = (ok, w')"
  shows "settled None w'"
proof -
  let ?w1 = "upd_req h (\<lambda>r. r\<lparr>w_cancelled := True\<rparr>) w"
  have w1: "settled None ?w1" by (rule quiet_settled [OF _ assms(1)]) simp
  note F = settled_finalize(1) [OF settled_weaken [OF w1]] settled_finalize(1) [OF settled_weaken [OF assms(1)]]
  show ?thesis using assms w1 F by (auto simp: screen_request_def Let_def split: if_splits)
qed

lemma settled_admit:
  assumes "settled None w" and "admit_request e now h w = (ok, w')"
  shows "settled None w'"
proof -
  have fin: "settled None (snd (finalize_generation_error h c t v))" if "quiet w v" for v c t
    by (rule settled_finalize(1) [OF settled_weaken [OF quiet_settled [OF that assms(1)]]])
  have acc: "settled None ((upd_req h f v)\<lparr>wk_seq_to_request := m, wk_active := wk_active w @ [h]\<rparr>)"
    if "quiet w v" "\<And>r. w_finished (f r) = w_finished r \<and> w_terminal_dispatched (f r) = w_terminal_dispatched r" for v f m
    using quiet_settled [OF that(1) assms(1)] that by (auto simp: settled_def tcount_def quiet_def)
  show ?thesis using assms(2) by (auto simp: admit_request_def Let_def intro!: fin acc split: if_splits prod.splits)
qed

definition settled_at :: "int option \<Rightarrow> worker \<Rightarrow> int \<Rightarrow> bool" where
  "settled_at ex w h \<longleftrightarrow>
     tcount w h = of_bool (w_terminal_dispatched (wk_requests w h)) \<and>
     (w_terminal_dispatched (wk_requests w h) \<longrightarrow> w_finished (wk_requests w h)) \<and>
     (Some h \<noteq> ex \<and> w_finished (wk_requests w h) \<longrightarrow> w_terminal_dispatched (wk_requests w h)) \<and>
     (0 \<le> w_seq_id (wk_requests w h) \<longrightarrow> h \<in> set (wk_active w) \<or> w_finished (wk_requests w h))"

lemma settled_at: "settled ex w \<longleftrightarrow> (\<forall>h. settled_at ex w h)"
  by (simp add: settled_def settled_at_def)

lemma reachable_settled: "worker_reachable e w \<Longrightarrow> settled None w"
proof (induction rule: worker_reachable.induct)
  case (wr_start w)
  then show ?case by (auto simp: settled_def tcount_def not_le)
next
  case (wr_step w w')
  from wr_step(2,3) show ?case
  proof (cases rule: worker_step.cases)
    case (ws_arrive h r)
    have "tcount w' x = tcount w x" for x by (simp add: ws_arrive(1) tcount_def)
    then have "settled_at None w' x" for x
      using ws_arrive wr_step(3) [unfolded settled_at, rule_format, of x] by (cases "x = h") (simp_all add: settled_at_def)
    then show ?thesis by (simp add: settled_at)
  next
    case (ws_cancel h)
    then show ?thesis using quiet_settled [OF _ wr_step(3)] by simp
  next
    case (ws_screen running pending h ok)
    then show ?thesis using settled_screen wr_step(3) by blast
  next
    case (ws_admit now h ok)
    then show ?thesis using settled_admit wr_step(3) by blast
  next
    case (ws_iterate now idle outcome)
    then show ?thesis using settled_iteration wr_step(3) by blast
  qed
qed

end
