(* ===== verification/Worker_Properties.thy ===== *)
theory Worker_Properties
  imports Worker_Loop Storage_Properties
begin

text \<open>
  The properties of the worker loop, with a small worker on which they are tried: two decoding requests over a cache of four
  blocks, the first block shared.
\<close>

section \<open>A small worker\<close>

text \<open>The copy of a block stays symbolic when the examples are evaluated.\<close>

declare CopyBlockData_def [code del]

definition sample_env :: worker_env where
  "sample_env =
     \<lparr>we_ggml = sample_ggml, we_cache = sample_cache, we_model = None,
      we_config = \<lparr>prefix_cache_reuse_disabled = False, hybrid_ssm_snapshot_restore_disabled = False,
        qwen36_prefix_cache_reuse_enabled = False, qwen36_hybrid_ssm_snapshot_restore_enabled = False\<rparr>,
      we_salt = 7, we_arch = X86, we_environment = Map.empty, we_memory_oracle = sample_memory, we_available_bytes = 600 * MB,
      we_zero_fill_prefill_kv_blocks = False, we_eos_token_id = 2, we_stop_token_ids = [], we_loop_guarded = False, we_qwen36 = False\<rparr>"

definition sample_text :: text_state where
  "sample_text = \<lparr>ts_utf8_pending = [], ts_think = (False, []), ts_tool_call = (False, []), ts_tool_response = (False, []), ts_json_mode = False,
     ts_structured = False, ts_suppress = False, ts_has_callback = False, ts_stop_sequences = [], ts_stop_buffer = [], ts_stop_buffer_max = 0\<rparr>"

definition sample_request :: "int \<Rightarrow> int \<Rightarrow> int list \<Rightarrow> int \<Rightarrow> worker_request" where
  "sample_request i seq_id table n_past =
     \<lparr>w_id = i, w_view = plain_request [9], w_max_tokens = 4, w_priority = 0, w_seq_id = seq_id, w_block_table = table, w_n_past = n_past,
      w_is_prefill = False, w_is_embedding = False, w_finished = False, w_cancelled = False, w_terminal_dispatched = False,
      w_finish_cause = FinishUnknown, w_is_swapped = False, w_swap_state = clear_swap, w_generated_count = 0, w_token_history = [],
      w_pending_scheduler_progress = 0, w_prefill_chunk_tokens_effective = 0, w_registered_prefix_blocks = 0, w_prefix_cache_hit = False,
      w_prefix_cache_skipped_tokens = 0, w_prefix_cache_hit_blocks = 0, w_prefix_cache_registered_blocks = 0, w_prefix_cache_extended_blocks = 0,
      w_snapshot_restore_attempted = False, w_snapshot_restore_applied = False, w_empty_schedule_stall_count = 0, w_batch_build_stall_count = 0,
      w_start_time = 1, w_last_progress_time = 1, w_text = sample_text\<rparr>"

definition shared_blocks :: "int list \<times> block_manager" where
  "shared_blocks = (let (ids, bm) = Allocate 3 (kc_block_manager sample_cache) in (ids, snd (Fork (hd ids) bm)))"

definition sample_worker :: worker where
  "sample_worker = \<lparr>wk_scheduler = (Scheduler (snd shared_blocks) SchedulerConfig)\<lparr>running_seqs := [1, 2], next_seq_id := 3\<rparr>, wk_memory = (\<lambda>_. 0),
     wk_requests = (\<lambda>h. if h = 1 then sample_request 1 1 [0, 1] 5 else sample_request h 2 [0, 2] 20),
     wk_active = [1, 2], wk_seq_to_request = [1 \<mapsto> 1, 2 \<mapsto> 2], wk_events = [],
     wk_watchdog = \<lparr>wd_loops = 0, wd_failures = 0, wd_first_seen = 0, wd_last_seen = 0, wd_last_log = 0\<rparr>\<rparr>"




lemma sample_worker_sel:
  "wk_active sample_worker = [1, 2]" "wk_blocks sample_worker = snd shared_blocks" "waiting_queue (wk_scheduler sample_worker) = []"
  "wk_seq_to_request sample_worker = [1 \<mapsto> 1, 2 \<mapsto> 2]" "wk_requests sample_worker 1 = sample_request 1 1 [0, 1] 5"
  "wk_requests sample_worker 2 = sample_request 2 2 [0, 2] 20"
  by (simp_all add: sample_worker_def Scheduler_def)



section \<open>Exclusive writes\<close>




section \<open>Ownership\<close>






section \<open>One result for every request\<close>

text \<open>C27: In every state the worker can reach, whatever requests arrive, are cancelled, rejected, stall, fail, are swapped out and
  in or run to their end, and in whatever order, a request has been given exactly one terminal result if it is finished and none
  if it is not; and a request the scheduler has accepted is still in the active list or has had that result.\<close>

theorem one_terminal_result:
  assumes "worker_reachable e w"
  shows "tcount w h = (if w_finished (wk_requests w h) then 1 else 0) \<and>
    (0 \<le> w_seq_id (wk_requests w h) \<longrightarrow> h \<in> set (wk_active w) \<or> tcount w h = 1)"
  using reachable_settled [OF assms] by (auto simp: settled_def)

theorem one_terminal_result_witness:
  "tcount (snd (screen_request False False 1 (sample_worker\<lparr>wk_active := [], wk_requests := \<lambda>h. sample_request h (-1) [] 0\<rparr>))) 1 = 1"
proof -
  let ?w = "sample_worker\<lparr>wk_active := [], wk_requests := \<lambda>h. sample_request h (-1) [] 0\<rparr>"
  have "worker_reachable sample_env ?w" by (rule wr_start) (simp_all add: sample_worker_def sample_request_def)
  then have r: "worker_reachable sample_env (snd (screen_request False False 1 ?w))"
    by (rule wr_step) (rule ws_screen [OF prod.collapse [symmetric]])
  have "w_finished (wk_requests (snd (screen_request False False 1 ?w)) 1)"
    by (simp add: screen_request_def finalize_generation_error_def FinalizeGenerationRequestOnce_def sample_request_def Let_def)
  then show ?thesis using one_terminal_result [OF r, of 1] by simp
qed

section \<open>Two faults\<close>















text \<open>C29: On a prefix-cache hit the scheduler lists the cached blocks before the new ones, the worker after them: when a schedule
  carries both for a request without blocks, the worker's table starts with the new blocks, and the first positions of the
  prompt, which the request skips as cached, are read from blocks that nobody has written.\<close>

theorem prefix_hit_blocks_misplaced:
  assumes "reserve_blocks i ctx n g p = Inr (new, p')" and "seq_block_ids (wp_scheduler p) i = None" and "shared_block_ids g = cached"
    and "cached \<noteq> []" and "new \<noteq> []" and "wk_seq_to_request w i = Some h" and "w_block_table (wk_requests w h) = []"
    and "IsPrefixCacheAllowedForModel (we_config e) (we_model e)"
    and "out = SchedulerOutput\<lparr>new_block_allocations := [(i, new)], prefix_cache_hits := [\<lparr>pci_seq_id = i, pci_cached_tokens = k, pci_cached_block_ids = cached\<rparr>]\<rparr>"
  shows "seq_block_ids (wp_scheduler p') i = Some (cached @ new) \<and> w_block_table (wk_requests (apply_schedule e out w) h) = new @ cached"
proof
  show "seq_block_ids (wp_scheduler p') i = Some (cached @ new)"
    using assms(1-5) by (auto simp: reserve_blocks_def Let_def split: if_splits prod.splits)
  have "w_block_table (wk_requests (restore_snapshot e hit h v) x) = w_block_table (wk_requests v x)" for hit v x
    by (auto simp: restore_snapshot_def Let_def split: option.splits)
  then show "w_block_table (wk_requests (apply_schedule e out w) h) = new @ cached" unfolding assms(9)
    using assms(6-8) by (simp add: apply_schedule_def Let_def SchedulerOutput_def apply_new_blocks_def apply_prefix_hit_def with_request_def append_blocks_def)
qed

definition sample_group :: sequence_group where
  "sample_group = (fresh_group 0 1 32 4 0 None True False 0 1)\<lparr>shared_prefix_len := 16, shared_block_ids := [0], num_tokens_to_process := 16\<rparr>"

definition sample_pass :: waiting_pass where
  "sample_pass = start_pass (-1) (Scheduler (snd shared_blocks) SchedulerConfig) SchedulerOutput"

theorem prefix_hit_blocks_misplaced_witness:
  "\<exists>p'. reserve_blocks 1 16 16 sample_group sample_pass = Inr ([3], p') \<and> seq_block_ids (wp_scheduler p') 1 = Some [0, 3] \<and>
     w_block_table (wk_requests (apply_schedule sample_env (SchedulerOutput\<lparr>new_block_allocations := [(1, [3])],
       prefix_cache_hits := [\<lparr>pci_seq_id = 1, pci_cached_tokens = 16, pci_cached_block_ids = [0]\<rparr>]\<rparr>)
       (sample_worker\<lparr>wk_requests := \<lambda>h. sample_request h h [] 0\<rparr>)) 1) = [3, 0]"
proof -
  have "case reserve_blocks 1 16 16 sample_group sample_pass of Inr (new, _) \<Rightarrow> new = [3] | Inl _ \<Rightarrow> False" by code_simp
  then obtain p' where p': "reserve_blocks 1 16 16 sample_group sample_pass = Inr ([3], p')"
    by (cases "reserve_blocks 1 16 16 sample_group sample_pass") auto
  have "seq_block_ids (wp_scheduler sample_pass) 1 = None" "shared_block_ids sample_group = [0]"
    by (simp_all add: sample_pass_def sample_group_def start_pass_def Scheduler_def)
  moreover have "IsPrefixCacheAllowedForModel (we_config sample_env) (we_model sample_env)" by code_simp
  ultimately show ?thesis using p' prefix_hit_blocks_misplaced [OF p', of "[0]" "sample_worker\<lparr>wk_requests := \<lambda>h. sample_request h h [] 0\<rparr>" 1 sample_env _ 16]
    by (auto simp: sample_worker_sel sample_request_def)
qed

declare CopyBlockData_def [code]

end
