(* ===== verification/Model_Descriptor.thy ===== *)
theory Model_Descriptor
  imports Prefill_Policy
begin

text \<open>
  The registry of supported model families (\<^verbatim>\<open>core/src/models/model_descriptor.cpp\<close>): the descriptor of every variant, the
  resolution of an architecture name with its aliases and hints, and the families of tokenizers and prompt templates that follow
  from the model's metadata.
\<close>

section \<open>Data\<close>

datatype model_arch =
    MA_UNKNOWN | MA_LLAMA | MA_QWEN2 | MA_QWEN3 | MA_GLM4_MOE | MA_GLM5_DSA | MA_MISTRAL | MA_GEMMA | MA_PHI | MA_BERT | MA_VIT
  | MA_CLIP_VISION | MA_SIGLIP | MA_WHISPER | MA_QWEN35 | MA_LFM2 | MA_LLAVA | MA_QWEN_VL

datatype tokenizer_family =
    TF_UNKNOWN | LLAMA_SENTENCEPIECE | GPT2_BYTE_BPE | QWEN_BYTE_BPE | QWEN35_UNICODE_BPE | LFM2_BYTE_BPE | GEMMA_SENTENCEPIECE
  | GLM_BYTE_BPE | BERT_WORDPIECE | BERT_BPE

datatype prompt_template_family = PLAIN | CHATML | ROLE_TAGS | TURN_TAGS

record model_arch_flags =
  requires_q_norm :: bool
  requires_k_norm :: bool
  is_hybrid_ssm :: bool
  is_lfm2_shortconv :: bool
  is_glm_moe :: bool
  is_glm_dsa :: bool
  is_gemma4 :: bool
  uses_unit_offset_rms_norm :: bool

definition no_flags :: model_arch_flags where
  "no_flags = \<lparr>requires_q_norm = False, requires_k_norm = False, is_hybrid_ssm = False, is_lfm2_shortconv = False, is_glm_moe = False,
     is_glm_dsa = False, is_gemma4 = False, uses_unit_offset_rms_norm = False\<rparr>"

abbreviation qk_norm_flags :: model_arch_flags where
  "qk_norm_flags \<equiv> no_flags\<lparr>requires_q_norm := True, requires_k_norm := True\<rparr>"

record model_descriptor =
  md_variant :: model_variant
  md_arch :: model_arch
  canonical_arch :: string
  md_tokenizer_family :: tokenizer_family
  md_prompt_template_family :: prompt_template_family
  supports_thinking :: bool
  uses_qwen_thinking_env :: bool
  registers_generic_llm_graph :: bool
  default_flags :: model_arch_flags

definition descriptor ::
    "model_variant \<Rightarrow> model_arch \<Rightarrow> string \<Rightarrow> tokenizer_family \<Rightarrow> prompt_template_family \<Rightarrow> bool \<Rightarrow> bool \<Rightarrow> bool \<Rightarrow> model_arch_flags \<Rightarrow>
     model_descriptor" where
  "descriptor v a n t p th q g f = \<lparr>md_variant = v, md_arch = a, canonical_arch = n, md_tokenizer_family = t,
     md_prompt_template_family = p, supports_thinking = th, uses_qwen_thinking_env = q, registers_generic_llm_graph = g, default_flags = f\<rparr>"

definition kUnknownDescriptor :: model_descriptor where
  "kUnknownDescriptor = descriptor MV_UNKNOWN MA_UNKNOWN ''unknown'' TF_UNKNOWN PLAIN False False False no_flags"

definition kDescriptors :: "model_descriptor list" where
  "kDescriptors =
    [descriptor MV_LLAMA MA_LLAMA ''llama'' LLAMA_SENTENCEPIECE ROLE_TAGS False False True no_flags,
     descriptor MV_QWEN2 MA_QWEN2 ''qwen2'' QWEN_BYTE_BPE CHATML False False True no_flags,
     descriptor MV_QWEN3 MA_QWEN3 ''qwen3'' QWEN_BYTE_BPE CHATML True True True qk_norm_flags,
     descriptor MV_QWEN3NEXT MA_QWEN35 ''qwen3next'' QWEN_BYTE_BPE CHATML False False False (qk_norm_flags\<lparr>is_hybrid_ssm := True\<rparr>),
     descriptor MV_QWEN35 MA_QWEN35 ''qwen35'' QWEN35_UNICODE_BPE CHATML True True False (qk_norm_flags\<lparr>is_hybrid_ssm := True\<rparr>),
     descriptor MV_QWEN36 MA_QWEN35 ''qwen36'' QWEN35_UNICODE_BPE CHATML True True False (qk_norm_flags\<lparr>is_hybrid_ssm := True\<rparr>),
     descriptor MV_QWEN38 MA_QWEN35 ''qwen38'' QWEN35_UNICODE_BPE CHATML True True False (qk_norm_flags\<lparr>is_hybrid_ssm := True\<rparr>),
     descriptor MV_LFM2MOE MA_LFM2 ''lfm2moe'' LFM2_BYTE_BPE CHATML False False False (qk_norm_flags\<lparr>is_lfm2_shortconv := True\<rparr>),
     descriptor MV_GLM4_MOE MA_GLM4_MOE ''glm4_moe'' GLM_BYTE_BPE PLAIN False False False (no_flags\<lparr>is_glm_moe := True\<rparr>),
     descriptor MV_GLM5_DSA MA_GLM5_DSA ''glm5_dsa'' GLM_BYTE_BPE PLAIN False False False (no_flags\<lparr>is_glm_moe := True, is_glm_dsa := True\<rparr>),
     descriptor MV_MISTRAL MA_MISTRAL ''mistral'' LLAMA_SENTENCEPIECE ROLE_TAGS False False True no_flags,
     descriptor MV_GEMMA MA_GEMMA ''gemma'' GEMMA_SENTENCEPIECE PLAIN False False True (no_flags\<lparr>uses_unit_offset_rms_norm := True\<rparr>),
     descriptor MV_GEMMA4 MA_GEMMA ''gemma4'' GEMMA_SENTENCEPIECE TURN_TAGS True False False (qk_norm_flags\<lparr>is_gemma4 := True\<rparr>),
     descriptor MV_PHI MA_PHI ''phi'' GPT2_BYTE_BPE PLAIN False False True no_flags,
     descriptor MV_BERT MA_BERT ''bert'' BERT_WORDPIECE PLAIN False False False no_flags,
     descriptor MV_VIT MA_VIT ''vit'' TF_UNKNOWN PLAIN False False False no_flags,
     descriptor MV_CLIP_VISION MA_CLIP_VISION ''clip_vision'' TF_UNKNOWN PLAIN False False False no_flags,
     descriptor MV_SIGLIP MA_SIGLIP ''siglip'' TF_UNKNOWN PLAIN False False False no_flags,
     descriptor MV_WHISPER MA_WHISPER ''whisper'' TF_UNKNOWN PLAIN False False False no_flags,
     descriptor MV_LLAVA MA_LLAVA ''llava'' LLAMA_SENTENCEPIECE PLAIN False False True no_flags,
     descriptor MV_QWEN_VL MA_QWEN_VL ''qwen_vl'' QWEN_BYTE_BPE CHATML False False True no_flags]"

definition DescribeModelVariant :: "model_variant \<Rightarrow> model_descriptor" where
  "DescribeModelVariant v = (case find (\<lambda>d. md_variant d = v) kDescriptors of Some d \<Rightarrow> d | None \<Rightarrow> kUnknownDescriptor)"

section \<open>From a loaded model\<close>

text \<open>What the registry reads of a \<^verbatim>\<open>TransformerModel\<close>; the tokenizer extends the record.\<close>

record model_identity =
  tm_variant :: model_variant
  tm_arch :: model_arch
  tm_is_gemma4 :: bool
  tokenizer_type :: string
  chat_template :: string

definition InferVariantFromModel :: "'a model_identity_scheme \<Rightarrow> model_variant" where
  "InferVariantFromModel m =
     (if tm_variant m \<noteq> MV_UNKNOWN then tm_variant m
      else case tm_arch m of
             MA_LLAMA \<Rightarrow> MV_LLAMA | MA_QWEN2 \<Rightarrow> MV_QWEN2 | MA_QWEN3 \<Rightarrow> MV_QWEN3 | MA_QWEN35 \<Rightarrow> MV_QWEN35 | MA_LFM2 \<Rightarrow> MV_LFM2MOE
           | MA_GLM4_MOE \<Rightarrow> MV_GLM4_MOE | MA_GLM5_DSA \<Rightarrow> MV_GLM5_DSA | MA_MISTRAL \<Rightarrow> MV_MISTRAL
           | MA_GEMMA \<Rightarrow> (if tm_is_gemma4 m then MV_GEMMA4 else MV_GEMMA) | MA_PHI \<Rightarrow> MV_PHI | MA_BERT \<Rightarrow> MV_BERT | MA_VIT \<Rightarrow> MV_VIT
           | MA_CLIP_VISION \<Rightarrow> MV_CLIP_VISION | MA_SIGLIP \<Rightarrow> MV_SIGLIP | MA_WHISPER \<Rightarrow> MV_WHISPER | MA_LLAVA \<Rightarrow> MV_LLAVA
           | MA_QWEN_VL \<Rightarrow> MV_QWEN_VL | MA_UNKNOWN \<Rightarrow> MV_UNKNOWN)"

definition DescribeModel :: "'a model_identity_scheme \<Rightarrow> model_descriptor" where
  "DescribeModel m = DescribeModelVariant (InferVariantFromModel m)"

section \<open>From the architecture name\<close>

record model_detection_hints =
  has_gemma4_metadata :: bool
  has_gemma4_tensor_signatures :: bool
  has_gemma4_tokenizer_hint :: bool

definition AsciiLower :: "string \<Rightarrow> string" where
  "AsciiLower s = map c_tolower s"

definition ShouldUpgradeGemmaToGemma4 :: "string \<Rightarrow> model_detection_hints \<Rightarrow> bool" where
  "ShouldUpgradeGemmaToGemma4 arch_name hints =
     (let lowered = AsciiLower arch_name
      in if lowered = ''gemma4'' \<or> lowered = ''gemma4_text'' then True
         else if lowered \<noteq> ''gemma'' \<and> lowered \<noteq> ''gemma2'' \<and> lowered \<noteq> ''unknown'' then False
         else has_gemma4_metadata hints \<or> has_gemma4_tensor_signatures hints \<or> has_gemma4_tokenizer_hint hints)"

text \<open>The chain of comparisons, each with the aliases of one variant, in the order of the code.\<close>

definition arch_aliases :: "(string list \<times> model_variant) list" where
  "arch_aliases =
    [([''llama''], MV_LLAMA), ([''qwen2'', ''qwen2.5''], MV_QWEN2), ([''qwen3'', ''qwen3_moe'', ''qwen3moe''], MV_QWEN3),
     ([''qwen3next'', ''qwen3_next'', ''qwen3-next'', ''qwen3codernext'', ''qwen3_coder_next'', ''qwen3-coder-next''], MV_QWEN3NEXT),
     ([''qwen38'', ''qwen3.8'', ''qwen3_8'', ''qwen3-8'', ''qwen3.8-27b'', ''qwen3_8_27b'', ''qwen3-8-27b'', ''qwen38_27b'', ''qwen38-27b'',
       ''qwen3.8-27b-instruct''], MV_QWEN38),
     ([''qwen36'', ''qwen3.6'', ''qwen3_6'', ''qwen3-6'', ''qwen3.6-35b-a3b'', ''qwen3_6_35b_a3b'', ''qwen3-6-35b-a3b'', ''qwen3.6_35b_a3b'',
       ''qwen36_35b_a3b'', ''qwen36-35b-a3b'', ''qwen3.6-35b-a3b-instruct''], MV_QWEN36),
     ([''qwen35'', ''qwen3.5'', ''qwen35moe'', ''qwen35_moe'', ''qwen3.5_moe'', ''qwen3_5_moe'', ''qwen3_5_moe_text''], MV_QWEN35),
     ([''lfm2moe'', ''lfm2_moe'', ''lfm2.5'', ''lfm2_5'', ''lfm25'', ''lfm2''], MV_LFM2MOE),
     ([''glm4_moe'', ''glm4moe'', ''glm4.5'', ''glm-4.5'', ''glm4''], MV_GLM4_MOE),
     ([''glm_moe_dsa'', ''glm5_dsa'', ''glm5'', ''glm-5''], MV_GLM5_DSA), ([''mistral''], MV_MISTRAL),
     ([''gemma4'', ''gemma4_text''], MV_GEMMA4), ([''gemma'', ''gemma2''], MV_GEMMA), ([''phi'', ''phi3''], MV_PHI),
     ([''bert'', ''bge'', ''xlm-roberta'', ''nomic-bert''], MV_BERT), ([''vit'', ''vision_transformer''], MV_VIT),
     ([''clip'', ''clip_vision''], MV_CLIP_VISION), ([''siglip''], MV_SIGLIP), ([''whisper''], MV_WHISPER), ([''llava''], MV_LLAVA),
     ([''qwen_vl'', ''qwen2_vl''], MV_QWEN_VL)]"

text \<open>\<open>None\<close> is the default-constructed result, whose \<^verbatim>\<open>known\<close> is false.\<close>

definition ResolveModelDescriptorFromArchName :: "string \<Rightarrow> model_descriptor option" where
  "ResolveModelDescriptorFromArchName arch_name =
     map_option (\<lambda>(_, v). DescribeModelVariant v) (find (\<lambda>(names, _). AsciiLower arch_name \<in> set names) arch_aliases)"

definition ResolveModelDescriptorWithHints :: "string \<Rightarrow> model_detection_hints \<Rightarrow> model_descriptor option \<times> bool" where
  "ResolveModelDescriptorWithHints arch_name hints =
     (let resolved = ResolveModelDescriptorFromArchName arch_name;
          upgraded = ShouldUpgradeGemmaToGemma4 arch_name hints \<and> map_option md_variant resolved \<noteq> Some MV_GEMMA4
      in (if upgraded then ResolveModelDescriptorFromArchName ''gemma4'' else resolved, upgraded))"

definition ResolveModelDescriptor :: "string \<Rightarrow> model_descriptor option" where
  "ResolveModelDescriptor arch_name = fst (ResolveModelDescriptorWithHints arch_name
     \<lparr>has_gemma4_metadata = False, has_gemma4_tensor_signatures = False, has_gemma4_tokenizer_hint = False\<rparr>)"

section \<open>Tokenizer and prompt template\<close>

definition ResolveTokenizerFamilyFromMetadata :: "string \<Rightarrow> tokenizer_family" where
  "ResolveTokenizerFamilyFromMetadata ty =
     (let s = AsciiLower ty; has = (\<lambda>pat. has_substring pat s)
      in if s = [] then TF_UNKNOWN
         else if has ''qwen38'' \<or> has ''qwen3.8'' \<or> has ''qwen36'' \<or> has ''qwen3.6'' then QWEN35_UNICODE_BPE
         else if has ''qwen35'' \<or> has ''qwen3.5'' then QWEN35_UNICODE_BPE
         else if has ''qwen'' then QWEN_BYTE_BPE
         else if has ''lfm2'' \<or> has ''lfm'' then LFM2_BYTE_BPE
         else if has ''gemma'' then GEMMA_SENTENCEPIECE
         else if has ''llama'' \<or> has ''sentencepiece'' \<or> has ''spm'' \<or> has ''xlm-roberta'' \<or> s = ''t5'' then LLAMA_SENTENCEPIECE
         else if s = ''bert-bpe'' then BERT_BPE
         else if s = ''bert'' \<or> has ''jina-v2'' \<or> has ''wordpiece'' \<or> has ''wpm'' then BERT_WORDPIECE
         else if has ''gpt2'' \<or> s = ''bpe'' then GPT2_BYTE_BPE
         else if has ''glm'' then GLM_BYTE_BPE
         else TF_UNKNOWN)"

definition ResolveTokenizerFamily :: "'a model_identity_scheme \<Rightarrow> tokenizer_family" where
  "ResolveTokenizerFamily m =
     (let f = ResolveTokenizerFamilyFromMetadata (tokenizer_type m)
      in if f \<noteq> TF_UNKNOWN then f else md_tokenizer_family (DescribeModel m))"

definition ResolvePromptTemplateFamilyFromMetadata :: "string \<Rightarrow> string \<Rightarrow> prompt_template_family" where
  "ResolvePromptTemplateFamilyFromMetadata ty tmpl =
     (let ty_lower = AsciiLower ty; tmpl_lower = AsciiLower tmpl; has = (\<lambda>pat. has_substring pat tmpl_lower)
      in if has ''<|im_start|>'' \<or> has ''<|im_end|>'' then CHATML
         else if has ''<|turn>'' \<or> has ''<turn|>'' \<or> has ''<start_of_turn>'' \<or> has ''<end_of_turn>'' then TURN_TAGS
         else if has ''<|assistant|>'' \<or> has ''<|user|>'' then ROLE_TAGS
         else case ResolveTokenizerFamilyFromMetadata ty_lower of
                QWEN_BYTE_BPE \<Rightarrow> CHATML
              | QWEN35_UNICODE_BPE \<Rightarrow> CHATML
              | LFM2_BYTE_BPE \<Rightarrow> CHATML
              | GEMMA_SENTENCEPIECE \<Rightarrow> (if has_substring ''gemma4'' ty_lower then TURN_TAGS else PLAIN)
              | LLAMA_SENTENCEPIECE \<Rightarrow> ROLE_TAGS
              | _ \<Rightarrow> PLAIN)"

definition ResolvePromptTemplateFamily :: "'a model_identity_scheme \<Rightarrow> prompt_template_family" where
  "ResolvePromptTemplateFamily m =
     (let d = DescribeModel m; f = ResolvePromptTemplateFamilyFromMetadata (tokenizer_type m) (chat_template m);
          explicit = chat_template m \<noteq> []
      in if md_variant d = MV_GEMMA4 then (if explicit \<and> f \<noteq> PLAIN then f else TURN_TAGS)
         else if f \<noteq> PLAIN \<or> explicit \<or> tokenizer_type m \<noteq> [] then f
         else md_prompt_template_family d)"

definition IsKnownTokenizerModel :: "string \<Rightarrow> bool" where
  "IsKnownTokenizerModel name \<longleftrightarrow> AsciiLower name \<in> set
     [''llama'', ''gpt2'', ''qwen2'', ''qwen2.5'', ''qwen3'', ''qwen3next'', ''qwen35'', ''qwen3.5'', ''qwen35moe'', ''qwen36'', ''qwen3.6'',
      ''qwen38'', ''qwen3.8'', ''qwen3_5_moe'', ''qwen3_5_moe_text'', ''mistral'', ''gemma'', ''gemma4'', ''lfm2'', ''bpe'', ''glm4'', ''glm'',
      ''sentencepiece'', ''spm'', ''bert'', ''bert-bpe'', ''jina-v2-en'', ''t5'']"

fun ModelVariantName :: "model_variant \<Rightarrow> string" where
  "ModelVariantName MV_LLAMA = ''llama''"
| "ModelVariantName MV_QWEN2 = ''qwen2''"
| "ModelVariantName MV_QWEN3 = ''qwen3''"
| "ModelVariantName MV_QWEN3NEXT = ''qwen3next''"
| "ModelVariantName MV_QWEN35 = ''qwen35''"
| "ModelVariantName MV_QWEN36 = ''qwen36''"
| "ModelVariantName MV_QWEN38 = ''qwen38''"
| "ModelVariantName MV_LFM2MOE = ''lfm2moe''"
| "ModelVariantName MV_GLM4_MOE = ''glm4_moe''"
| "ModelVariantName MV_GLM5_DSA = ''glm5_dsa''"
| "ModelVariantName MV_MISTRAL = ''mistral''"
| "ModelVariantName MV_GEMMA = ''gemma''"
| "ModelVariantName MV_GEMMA4 = ''gemma4''"
| "ModelVariantName MV_PHI = ''phi''"
| "ModelVariantName MV_BERT = ''bert''"
| "ModelVariantName MV_VIT = ''vit''"
| "ModelVariantName MV_CLIP_VISION = ''clip_vision''"
| "ModelVariantName MV_SIGLIP = ''siglip''"
| "ModelVariantName MV_WHISPER = ''whisper''"
| "ModelVariantName MV_LLAVA = ''llava''"
| "ModelVariantName MV_QWEN_VL = ''qwen_vl''"
| "ModelVariantName MV_UNKNOWN = ''unknown''"

fun TokenizerFamilyName :: "tokenizer_family \<Rightarrow> string" where
  "TokenizerFamilyName LLAMA_SENTENCEPIECE = ''llama_sentencepiece''"
| "TokenizerFamilyName GPT2_BYTE_BPE = ''gpt2_byte_bpe''"
| "TokenizerFamilyName QWEN_BYTE_BPE = ''qwen_byte_bpe''"
| "TokenizerFamilyName QWEN35_UNICODE_BPE = ''qwen35_unicode_bpe''"
| "TokenizerFamilyName LFM2_BYTE_BPE = ''lfm2_byte_bpe''"
| "TokenizerFamilyName GEMMA_SENTENCEPIECE = ''gemma_sentencepiece''"
| "TokenizerFamilyName GLM_BYTE_BPE = ''glm_byte_bpe''"
| "TokenizerFamilyName BERT_WORDPIECE = ''bert_wordpiece''"
| "TokenizerFamilyName BERT_BPE = ''bert_bpe''"
| "TokenizerFamilyName TF_UNKNOWN = ''unknown''"

fun PromptTemplateFamilyName :: "prompt_template_family \<Rightarrow> string" where
  "PromptTemplateFamilyName PLAIN = ''plain''"
| "PromptTemplateFamilyName CHATML = ''chatml''"
| "PromptTemplateFamilyName ROLE_TAGS = ''role_tags''"
| "PromptTemplateFamilyName TURN_TAGS = ''turn_tags''"

section \<open>Properties\<close>

lemma variants_described: "v \<noteq> MV_UNKNOWN \<Longrightarrow> md_variant (DescribeModelVariant v) = v \<and> canonical_arch (DescribeModelVariant v) = ModelVariantName v"
  by (cases v) (simp_all add: DescribeModelVariant_def kDescriptors_def descriptor_def)

lemma aliases_disjoint: "distinct (concat (map fst arch_aliases))"
  by code_simp

lemma find_disjoint:
  assumes "distinct (concat (map fst xs))" and "(names, v) \<in> set xs" and "s \<in> set names"
  shows "find (\<lambda>(names, _). s \<in> set names) xs = Some (names, v)"
  using assms by (induction xs) fastforce+

definition alias_variant :: "string \<Rightarrow> model_variant option" where
  "alias_variant x = map_option snd (find (\<lambda>(names, _). x \<in> set names) arch_aliases)"

lemma gemma_aliases:
  "alias_variant ''gemma4'' = Some MV_GEMMA4" "alias_variant ''gemma4_text'' = Some MV_GEMMA4" "alias_variant ''gemma'' = Some MV_GEMMA"
  "alias_variant ''gemma2'' = Some MV_GEMMA" "alias_variant ''unknown'' = None"
  by code_simp+

lemma alias_names: "list_all (\<lambda>(names, v). ModelVariantName v \<in> set names \<and> v \<noteq> MV_UNKNOWN) arch_aliases"
  by code_simp

text \<open>C1: Every supported variant is found by its own name and by every alias of it, in any mixture of cases, and the descriptor found
  carries that variant and its name. Only the Gemma names and \<open>unknown\<close> react to the hints, and they resolve to Gemma~4 then.\<close>

theorem descriptor_roundtrip:
  assumes "(names, v) \<in> set arch_aliases" and "AsciiLower s \<in> set names"
  shows "ResolveModelDescriptor s = Some (DescribeModelVariant v) \<and> md_variant (DescribeModelVariant v) = v \<and>
    canonical_arch (DescribeModelVariant v) = ModelVariantName v \<and> ModelVariantName v \<in> set names \<and>
    (ResolveModelDescriptorWithHints s hints = (Some (DescribeModelVariant v), False) \<or>
     v = MV_GEMMA \<and> ResolveModelDescriptorWithHints s hints = (Some (DescribeModelVariant MV_GEMMA4), True))"
proof -
  have r: "ResolveModelDescriptorFromArchName s = Some (DescribeModelVariant v)"
    using find_disjoint [OF aliases_disjoint assms] by (simp add: ResolveModelDescriptorFromArchName_def)
  have v: "v \<noteq> MV_UNKNOWN" and nm: "ModelVariantName v \<in> set names" using assms(1) alias_names by (auto simp: list_all_iff)
  have n: "alias_variant (AsciiLower s) = Some v" using find_disjoint [OF aliases_disjoint assms] by (simp add: alias_variant_def)
  have up: "v = MV_GEMMA4 \<or> v = MV_GEMMA" if "ShouldUpgradeGemmaToGemma4 s h" for h
    using that n gemma_aliases by (auto simp: ShouldUpgradeGemmaToGemma4_def Let_def split: if_splits)
  have plain: "v = MV_GEMMA4" if "ShouldUpgradeGemmaToGemma4 s
      \<lparr>has_gemma4_metadata = False, has_gemma4_tensor_signatures = False, has_gemma4_tokenizer_hint = False\<rparr>"
    using that n gemma_aliases by (auto simp: ShouldUpgradeGemmaToGemma4_def Let_def split: if_splits)
  have g4: "ResolveModelDescriptorFromArchName ''gemma4'' = Some (DescribeModelVariant MV_GEMMA4)" by code_simp
  have w: "ResolveModelDescriptorWithHints s h =
      (if ShouldUpgradeGemmaToGemma4 s h \<and> v \<noteq> MV_GEMMA4 then (Some (DescribeModelVariant MV_GEMMA4), True)
       else (Some (DescribeModelVariant v), False))" for h
    using variants_described [OF v] by (simp add: ResolveModelDescriptorWithHints_def r g4 Let_def)
  show ?thesis using nm variants_described [OF v] w up [of hints] plain by (auto simp: ResolveModelDescriptor_def)
qed

theorem descriptor_roundtrip_witness:
  "ResolveModelDescriptor ''Qwen3.6'' = Some (DescribeModelVariant MV_QWEN36) \<and>
   md_tokenizer_family (DescribeModelVariant MV_QWEN36) = QWEN35_UNICODE_BPE"
proof
  show "ResolveModelDescriptor ''Qwen3.6'' = Some (DescribeModelVariant MV_QWEN36)"
    by (rule conjunct1 [OF descriptor_roundtrip [where names = "fst (arch_aliases ! 5)"]])
      (code_simp, code_simp)
  show "md_tokenizer_family (DescribeModelVariant MV_QWEN36) = QWEN35_UNICODE_BPE"
    by (simp add: DescribeModelVariant_def kDescriptors_def descriptor_def)
qed

end
