(* ===== verification/Tokenizer.thy ===== *)
theory Tokenizer
  imports Model_Descriptor Text_Stream Float_Laws
begin

text \<open>
  The tokenizer (\<^verbatim>\<open>core/src/models/tokenizer.cpp\<close>): byte-level BPE with its pre-tokenizers, unigram segmentation, word pieces, the
  legacy merge by vocabulary, and the way back from identifiers to bytes. A \<^verbatim>\<open>std::string\<close> is a list of bytes. The functions below
  \<^verbatim>\<open>Tokenize\<close> and \<^verbatim>\<open>Detokenize\<close> are called with a model that exists; the checks for a null model are at these entry points.
\<close>

section \<open>The vocabulary\<close>

text \<open>
  What the tokenizer reads of a \<^verbatim>\<open>TransformerModel\<close>. Scores are binary32 values; the map of merge ranks has the joined pairs as keys.
\<close>

record token_model = model_identity +
  vocab_tokens :: "string list"
  token_scores :: "rat list"
  token_to_id :: "(string \<times> int) list"
  bpe_merge_ranks :: "(string \<times> int) list"
  token_types :: "int list"
  stream_token_pieces :: "string list"
  bos_token_id :: int
  eos_token_id :: int
  unk_token_id :: int
  sep_token_id :: int
  pad_token_id :: int

abbreviation token_id :: "token_model \<Rightarrow> string \<Rightarrow> int option" where
  "token_id m \<equiv> map_of (token_to_id m)"

definition HasToken :: "token_model \<Rightarrow> string \<Rightarrow> bool" where
  "HasToken m t \<longleftrightarrow> token_id m t \<noteq> None"

text \<open>The largest float, which no score of a present token is compared with.\<close>

definition FLT_MAX :: rat where
  "FLT_MAX = (2 ^ 24 - 1) * 2 ^ 104"

definition GetTokenScore :: "token_model \<Rightarrow> string \<Rightarrow> rat" where
  "GetTokenScore m t =
     (case token_id m t of
        None \<Rightarrow> FLT_MAX
      | Some i \<Rightarrow> if token_scores m \<noteq> [] \<and> i < int (length (token_scores m)) then token_scores m ! nat i else f32 (of_int i))"

section \<open>UTF-8\<close>

definition Utf8CharLen :: "char \<Rightarrow> nat" where
  "Utf8CharLen ch =
     (let c = byte ch
      in if c AND 0x80 = 0 then 1 else if c AND 0xE0 = 0xC0 then 2 else if c AND 0xF0 = 0xE0 then 3
         else if c AND 0xF8 = 0xF0 then 4 else 1)"

lemma Utf8CharLen_pos [simp]: "0 < Utf8CharLen c"
  by (simp add: Utf8CharLen_def Let_def)

text \<open>The source has this loop twice; \<open>take\<close> cuts the last unit as the code does.\<close>

function SplitUtf8Units :: "string \<Rightarrow> string list" where
  "SplitUtf8Units s =
     (if s = [] then [] else let n = Utf8CharLen (hd s) in take n s # SplitUtf8Units (drop n s))"
  by pat_completeness auto
termination
  by (relation "measure length") auto

declare SplitUtf8Units.simps [simp del]

abbreviation SplitToChars :: "string \<Rightarrow> string list" where
  "SplitToChars \<equiv> SplitUtf8Units"

definition chr8 :: "u32 \<Rightarrow> char" where
  "chr8 w = char_of (unat (ucast w :: u8))"

definition EncodeUtf8 :: "u32 \<Rightarrow> string" where
  "EncodeUtf8 cp =
     (if cp \<le> 0x7F then [chr8 cp]
      else if cp \<le> 0x7FF then [chr8 (0xC0 OR drop_bit 6 cp), chr8 (0x80 OR (cp AND 0x3F))]
      else if cp \<le> 0xFFFF then [chr8 (0xE0 OR drop_bit 12 cp), chr8 (0x80 OR (drop_bit 6 cp AND 0x3F)), chr8 (0x80 OR (cp AND 0x3F))]
      else [chr8 (0xF0 OR drop_bit 18 cp), chr8 (0x80 OR (drop_bit 12 cp AND 0x3F)), chr8 (0x80 OR (drop_bit 6 cp AND 0x3F)),
            chr8 (0x80 OR (cp AND 0x3F))])"

text \<open>A decoded code point keeps its bytes instead of their position in the text.\<close>

record utf8_codepoint =
  cp :: u32
  cp_bytes :: string

definition decode_len :: "string \<Rightarrow> nat" where
  "decode_len s =
     (let c0 = byte (hd s); n = length s
      in if c0 AND 0x80 = 0 then 1 else if c0 AND 0xE0 = 0xC0 \<and> 1 < n then 2 else if c0 AND 0xF0 = 0xE0 \<and> 2 < n then 3
         else if c0 AND 0xF8 = 0xF0 \<and> 3 < n then 4 else 1)"

definition decode_first :: "string \<Rightarrow> utf8_codepoint" where
  "decode_first s =
     (let b = (\<lambda>i. ucast (byte (s ! i)) :: u32); n = decode_len s
      in \<lparr>cp = (if n = 1 then b 0
                else if n = 2 then push_bit 6 (b 0 AND 0x1F) OR (b 1 AND 0x3F)
                else if n = 3 then push_bit 12 (b 0 AND 0x0F) OR push_bit 6 (b 1 AND 0x3F) OR (b 2 AND 0x3F)
                else push_bit 18 (b 0 AND 0x07) OR push_bit 12 (b 1 AND 0x3F) OR push_bit 6 (b 2 AND 0x3F) OR (b 3 AND 0x3F)),
          cp_bytes = take n s\<rparr>)"

lemma cp_bytes_decode_first: "cp_bytes (decode_first s) = take (decode_len s) s"
  by (simp add: decode_first_def Let_def)

lemma decode_len_bounds: "s \<noteq> [] \<Longrightarrow> 0 < decode_len s \<and> decode_len s \<le> length s"
  by (cases s) (simp_all add: decode_len_def Let_def Suc_le_eq)

function DecodeUtf8Codepoints :: "string \<Rightarrow> utf8_codepoint list" where
  "DecodeUtf8Codepoints s =
     (if s = [] then [] else let c = decode_first s in c # DecodeUtf8Codepoints (drop (length (cp_bytes c)) s))"
  by pat_completeness auto
termination
  by (relation "measure length") (use decode_len_bounds in \<open>auto simp: cp_bytes_decode_first\<close>)

declare DecodeUtf8Codepoints.simps [simp del]

abbreviation cps_bytes :: "utf8_codepoint list \<Rightarrow> string" where
  "cps_bytes cs \<equiv> concat (map cp_bytes cs)"

section \<open>Bytes as printable code points\<close>

definition printable_bytes :: "nat list" where
  "printable_bytes = [33..<127] @ [161..<173] @ [174..<256]"

definition ByteToUnicode :: "string list" where
  "ByteToUnicode =
     (let other = filter (\<lambda>b. b \<notin> set printable_bytes) [0..<256];
          bs = printable_bytes @ other; cs = printable_bytes @ map (\<lambda>n. 256 + n) [0..<length other]
      in fold (\<lambda>(b, c) out. out[b := EncodeUtf8 (word_of_nat c)]) (zip bs cs) (replicate 256 []))"

definition UnicodeToByte :: "string \<rightharpoonup> char" where
  "UnicodeToByte = map_of (map (\<lambda>b. (ByteToUnicode ! b, char_of b)) [0..<256])"

abbreviation byte_symbol :: "char \<Rightarrow> string" where
  "byte_symbol c \<equiv> ByteToUnicode ! of_char c"

definition sp_space :: string where
  "sp_space = [char_of (0xE2 :: nat), char_of (0x96 :: nat), char_of (0x81 :: nat)]"

section \<open>Special tokens\<close>

definition IsLikelyControlTokenLiteral :: "string \<Rightarrow> bool" where
  "IsLikelyControlTokenLiteral t \<longleftrightarrow>
     4 \<le> length t \<and> take 2 t = ''<|'' \<and> drop (length t - 2) t = ''|>'' \<or>
     t \<in> {''<think>'', ''</think>'', ''<bos>'', ''<eos>'', ''<pad>'', ''<unk>'', ''<mask>''} \<or>
     t \<in> {''<start_of_turn>'', ''<end_of_turn>''} \<or>
     t \<in> {''[CLS]'', ''[SEP]'', ''[PAD]'', ''[UNK]'', ''[MASK]''}"

definition IsGemma4GenerationChannelToken :: "token_model \<Rightarrow> string \<Rightarrow> bool" where
  "IsGemma4GenerationChannelToken m t \<longleftrightarrow> md_variant (DescribeModel m) = MV_GEMMA4 \<and> (t = ''<|channel>'' \<or> t = ''<channel|>'')"

definition special_type :: "token_model \<Rightarrow> int \<Rightarrow> bool" where
  "special_type m i \<longleftrightarrow> 0 \<le> i \<and> i < int (length (token_types m)) \<and> token_types m ! nat i \<noteq> 1 \<and> token_types m ! nat i \<noteq> 6"

definition IsAtomicSpecialTokenLiteral :: "token_model \<Rightarrow> string \<Rightarrow> bool" where
  "IsAtomicSpecialTokenLiteral m t =
     (if t = [] then False
      else case token_id m t of None \<Rightarrow> False | Some i \<Rightarrow> special_type m i \<or> IsLikelyControlTokenLiteral t)"

section \<open>Which tokenizer\<close>

definition UseQwenPretokenizer :: "token_model \<Rightarrow> bool" where
  "UseQwenPretokenizer m \<longleftrightarrow> ResolveTokenizerFamily m = QWEN_BYTE_BPE \<or> ResolveTokenizerFamily m = QWEN35_UNICODE_BPE"

definition UseSentencePieceUnigramTokenizer :: "token_model \<Rightarrow> bool" where
  "UseSentencePieceUnigramTokenizer m =
     (token_scores m \<noteq> [] \<and> (case ResolveTokenizerFamily m of GEMMA_SENTENCEPIECE \<Rightarrow> True | LLAMA_SENTENCEPIECE \<Rightarrow> True | _ \<Rightarrow> False))"

definition IsByteLevelBpeTokenizer :: "token_model \<Rightarrow> bool" where
  "IsByteLevelBpeTokenizer m =
     (case ResolveTokenizerFamily m of
        GEMMA_SENTENCEPIECE \<Rightarrow> False
      | GPT2_BYTE_BPE \<Rightarrow> True | QWEN_BYTE_BPE \<Rightarrow> True | QWEN35_UNICODE_BPE \<Rightarrow> True | LFM2_BYTE_BPE \<Rightarrow> True | GLM_BYTE_BPE \<Rightarrow> True
      | BERT_WORDPIECE \<Rightarrow> False | BERT_BPE \<Rightarrow> False
      | _ \<Rightarrow> bpe_merge_ranks m \<noteq> [] \<and>
             3 \<le> length (filter (\<lambda>b. HasToken m (ByteToUnicode ! b)) [0, 10, 32, 128, 173, 255]))"

definition ResolveEndTokenId :: "token_model \<Rightarrow> int" where
  "ResolveEndTokenId m =
     (if ResolveTokenizerFamily m = BERT_WORDPIECE \<and> 0 \<le> sep_token_id m then sep_token_id m else eos_token_id m)"

section \<open>Pre-tokenizers\<close>

text \<open>
  A pre-tokenizer cuts the text into pieces: \<open>m\<close> gives the length of the piece at the head of the rest, 0 when there is none and the
  search moves on by one. \<open>chop\<close> is the loop of \<^verbatim>\<open>std::sregex_iterator\<close> and of the Unicode splitter.
\<close>

function chop :: "('a list \<Rightarrow> nat) \<Rightarrow> 'a list \<Rightarrow> 'a list list" where
  "chop m xs =
     (if xs = [] then [] else if m xs = 0 then chop m (tl xs) else take (m xs) xs # chop m (drop (m xs) xs))"
  by pat_completeness auto
termination
  by (relation "measure (\<lambda>(_, xs). length xs)") auto

declare chop.simps [simp del]

text \<open>An ordered alternation: the first alternative that matches.\<close>

definition first_match :: "('a list \<Rightarrow> nat) list \<Rightarrow> 'a list \<Rightarrow> nat" where
  "first_match ms xs = (case find (\<lambda>m. m xs \<noteq> 0) ms of None \<Rightarrow> 0 | Some m \<Rightarrow> m xs)"

definition c_isalpha :: "char \<Rightarrow> bool" where
  "c_isalpha c \<longleftrightarrow> (let n = of_char c :: nat in 65 \<le> n \<and> n \<le> 90 \<or> 97 \<le> n \<and> n \<le> 122)"

abbreviation CR :: char where "CR \<equiv> CHR 0x0D"
abbreviation LF :: char where "LF \<equiv> CHR 0x0A"

definition is_newline :: "char \<Rightarrow> bool" where
  "is_newline c \<longleftrightarrow> c = CR \<or> c = LF"

definition is_other :: "char \<Rightarrow> bool" where
  "is_other c \<longleftrightarrow> \<not> c_isspace c \<and> \<not> c_isalpha c \<and> \<not> c_isdigit c"

definition run :: "('a \<Rightarrow> bool) \<Rightarrow> 'a list \<Rightarrow> nat" where
  "run P xs = length (takeWhile P xs)"

text \<open>The alternatives of the two expressions, with the backtracking of ECMAScript resolved.\<close>

definition re_contraction :: "string \<Rightarrow> nat" where
  "re_contraction s =
     (case find (\<lambda>p. map c_tolower (take (length p) s) = p)
            (map (\<lambda>t. CHR 0x27 # t) [''s'', ''t'', ''re'', ''ve'', ''m'', ''ll'', ''d'']) of
        None \<Rightarrow> 0 | Some p \<Rightarrow> length p)"

text \<open>\<open>space?[class]+\<close>\<close>

definition re_spaced :: "(char \<Rightarrow> bool) \<Rightarrow> string \<Rightarrow> nat" where
  "re_spaced P s = (if s \<noteq> [] \<and> hd s = CHR '' '' \<and> 0 < run P (tl s) then Suc (run P (tl s)) else run P s)"

text \<open>\<open>\s+(?!\S)\<close>: the whole run at the end of the text, otherwise all but its last character.\<close>

definition re_space_lookahead :: "string \<Rightarrow> nat" where
  "re_space_lookahead s = (let n = run c_isspace s in if n = length s then n else n - 1)"

text \<open>\<open>[^\r\nA-Za-z0-9]?[A-Za-z]+\<close>\<close>

definition re_word :: "string \<Rightarrow> nat" where
  "re_word s =
     (if s \<noteq> [] \<and> \<not> is_newline (hd s) \<and> \<not> c_isalpha (hd s) \<and> \<not> c_isdigit (hd s) \<and> 0 < run c_isalpha (tl s)
      then Suc (run c_isalpha (tl s)) else run c_isalpha s)"

text \<open>\<open>space?[^\sA-Za-z0-9]+[\r\n]*\<close>\<close>

definition re_symbols :: "string \<Rightarrow> nat" where
  "re_symbols s = (let n = re_spaced is_other s in if n = 0 then 0 else n + run is_newline (drop n s))"

text \<open>\<open>\s*[\r\n]+\<close>: up to the last line break of the run of white space.\<close>

definition re_newlines :: "string \<Rightarrow> nat" where
  "re_newlines s = length (dropWhile (\<lambda>c. \<not> is_newline c) (rev (takeWhile c_isspace s)))"

definition match_gpt2 :: "string \<Rightarrow> nat" where
  "match_gpt2 = first_match [re_contraction, re_spaced c_isalpha, re_spaced c_isdigit, re_spaced is_other, re_space_lookahead, run c_isspace]"

definition match_qwen :: "string \<Rightarrow> nat" where
  "match_qwen = first_match [re_contraction, re_word, \<lambda>s. min 3 (run c_isdigit s), re_symbols, re_newlines, re_space_lookahead, run c_isspace]"

text \<open>The classes of code points.\<close>

definition IsUnicodeWhitespace :: "u32 \<Rightarrow> bool" where
  "IsUnicodeWhitespace c \<longleftrightarrow>
     c \<in> {0x0009, 0x000A, 0x000B, 0x000C, 0x000D, 0x0020, 0x0085, 0x00A0, 0x1680, 0x2028, 0x2029, 0x202F, 0x205F, 0x3000} \<or>
     0x2000 \<le> c \<and> c \<le> 0x200A"

definition in_ranges :: "(u32 \<times> u32) list \<Rightarrow> u32 \<Rightarrow> bool" where
  "in_ranges rs c = list_ex (\<lambda>(a, b). a \<le> c \<and> c \<le> b) rs"

definition IsUnicodeNumber :: "u32 \<Rightarrow> bool" where
  "IsUnicodeNumber = in_ranges
     [(48, 57), (0x0660, 0x0669), (0x06F0, 0x06F9), (0x0966, 0x096F), (0x09E6, 0x09EF), (0x0A66, 0x0A6F), (0x0AE6, 0x0AEF),
      (0x0B66, 0x0B6F), (0x0BE6, 0x0BEF), (0x0C66, 0x0C6F), (0x0CE6, 0x0CEF), (0x0D66, 0x0D6F), (0x0E50, 0x0E59), (0x0ED0, 0x0ED9),
      (0x1040, 0x1049), (0x17E0, 0x17E9), (0xFF10, 0xFF19)]"

definition IsUnicodeAccentMark :: "u32 \<Rightarrow> bool" where
  "IsUnicodeAccentMark = in_ranges [(0x0300, 0x036F), (0x1AB0, 0x1AFF), (0x1DC0, 0x1DFF), (0x20D0, 0x20FF), (0xFE20, 0xFE2F)]"

text \<open>\<^verbatim>\<open>ispunct\<close> of the C locale below 128.\<close>

definition IsUnicodePunctuationOrSymbol :: "u32 \<Rightarrow> bool" where
  "IsUnicodePunctuationOrSymbol c =
     (if c < 128 then in_ranges [(33, 47), (58, 64), (91, 96), (123, 126)] c
      else in_ranges
        [(0x2000, 0x206F), (0x20A0, 0x20CF), (0x2100, 0x214F), (0x2190, 0x21FF), (0x2200, 0x22FF), (0x2300, 0x23FF), (0x2460, 0x24FF),
         (0x2500, 0x257F), (0x25A0, 0x25FF), (0x2600, 0x27BF), (0x2B00, 0x2BFF), (0x3001, 0x303F), (0xFE10, 0xFE19), (0xFE30, 0xFE6F),
         (0xFF01, 0xFF0F), (0xFF1A, 0xFF20), (0xFF3B, 0xFF40), (0xFF5B, 0xFF65), (0x1F000, 0x1FAFF)] c)"

definition IsUnicodeLetter :: "u32 \<Rightarrow> bool" where
  "IsUnicodeLetter c =
     (if in_ranges [(65, 90), (97, 122)] c then True
      else if c < 128 then False
      else \<not> (IsUnicodeWhitespace c \<or> IsUnicodeNumber c \<or> IsUnicodeAccentMark c \<or> IsUnicodePunctuationOrSymbol c))"

definition IsUnicodeLetterOrMark :: "bool \<Rightarrow> u32 \<Rightarrow> bool" where
  "IsUnicodeLetterOrMark qwen35_mode c \<longleftrightarrow> IsUnicodeLetter c \<or> qwen35_mode \<and> IsUnicodeAccentMark c"

definition IsCjkCodepoint :: "u32 \<Rightarrow> bool" where
  "IsCjkCodepoint = in_ranges
     [(0x4E00, 0x9FFF), (0x3400, 0x4DBF), (0x20000, 0x2A6DF), (0x2A700, 0x2B73F), (0x2B740, 0x2B81F), (0x2B820, 0x2CEAF),
      (0xF900, 0xFAFF), (0x2F800, 0x2FA1F)]"

definition is_punctish :: "bool \<Rightarrow> u32 \<Rightarrow> bool" where
  "is_punctish mode c \<longleftrightarrow> \<not> IsUnicodeWhitespace c \<and> \<not> IsUnicodeNumber c \<and> \<not> IsUnicodeLetterOrMark mode c"

abbreviation cp_newline :: "u32 \<Rightarrow> bool" where
  "cp_newline c \<equiv> c = 0x0D \<or> c = 0x0A"

text \<open>\<^verbatim>\<open>tolower\<close> of the low byte of a code point, as the code computes it.\<close>

definition low_lower :: "u32 \<Rightarrow> char" where
  "low_lower c = c_tolower (chr8 c)"

text \<open>
  One turn of the Unicode splitter on the code points of the rest: how many of them the next piece takes. Every branch of the code
  adds the piece it has moved over, so pieces start where the turn starts.
\<close>

definition cp_contraction :: "u32 list \<Rightarrow> nat" where
  "cp_contraction cs =
     (if 1 < length cs \<and> hd cs = 0x27 then
        let c1 = low_lower (cs ! 1)
        in if c1 \<in> set ''stmd'' then 2
           else if 2 < length cs \<and> (c1, low_lower (cs ! 2)) \<in> {(CHR ''r'', CHR ''e''), (CHR ''v'', CHR ''e''), (CHR ''l'', CHR ''l'')} then 3
           else 0
      else 0)"

definition cp_word :: "bool \<Rightarrow> u32 list \<Rightarrow> nat" where
  "cp_word mode cs =
     (let letterish = IsUnicodeLetterOrMark mode
      in if cs \<noteq> [] \<and> \<not> cp_newline (hd cs) \<and> \<not> IsUnicodeNumber (hd cs) \<and>
            (letterish (hd cs) \<or> 1 < length cs \<and> letterish (cs ! 1))
         then Suc (run letterish (tl cs)) else 0)"

definition cp_number :: "bool \<Rightarrow> u32 list \<Rightarrow> nat" where
  "cp_number mode cs = min (if mode then 1 else 3) (run IsUnicodeNumber cs)"

definition cp_symbols :: "bool \<Rightarrow> u32 list \<Rightarrow> nat" where
  "cp_symbols mode cs =
     (let skip = (if cs \<noteq> [] \<and> hd cs = 0x20 \<and> 1 < length cs \<and> is_punctish mode (cs ! 1) then 1 else 0);
          n = run (is_punctish mode) (drop skip cs)
      in if n = 0 then 0 else skip + n + run cp_newline (drop (skip + n) cs))"

definition cp_space :: "u32 list \<Rightarrow> nat" where
  "cp_space cs =
     (let blanks = takeWhile IsUnicodeWhitespace cs; ws = length blanks; nl = length (dropWhile (\<lambda>c. \<not> cp_newline c) (rev blanks))
      in if 0 < nl then nl else if 1 < ws \<and> ws < length cs then ws - 1 else ws)"

definition qwen_step :: "bool \<Rightarrow> u32 list \<Rightarrow> nat" where
  "qwen_step mode = first_match [cp_contraction, cp_word mode, cp_number mode, cp_symbols mode, cp_space, \<lambda>_. 1]"

definition PretokenizeQwenUnicode :: "string \<Rightarrow> bool \<Rightarrow> string list" where
  "PretokenizeQwenUnicode text mode =
     (let pieces = map cps_bytes (chop (\<lambda>cs. qwen_step mode (map cp cs)) (DecodeUtf8Codepoints text))
      in if pieces = [] then [text] else pieces)"

definition spaces_to_sp :: "string \<Rightarrow> string" where
  "spaces_to_sp s = concat (map (\<lambda>c. if c = CHR '' '' then sp_space else [c]) s)"

definition PretokenizeForByteBpe :: "token_model \<Rightarrow> string \<Rightarrow> string list" where
  "PretokenizeForByteBpe m text =
     (if ResolveTokenizerFamily m = GEMMA_SENTENCEPIECE then [spaces_to_sp text]
      else if ResolveTokenizerFamily m = QWEN35_UNICODE_BPE then PretokenizeQwenUnicode text True
      else if ResolveTokenizerFamily m = LFM2_BYTE_BPE then PretokenizeQwenUnicode text False
      else let pieces = chop (if UseQwenPretokenizer m then match_qwen else match_gpt2) text
           in if pieces = [] then [text] else pieces)"

section \<open>Byte-level BPE\<close>

definition EncodePieceSymbols :: "token_model \<Rightarrow> string \<Rightarrow> string list" where
  "EncodePieceSymbols m piece =
     (if ResolveTokenizerFamily m = GEMMA_SENTENCEPIECE then SplitUtf8Units piece else map byte_symbol piece)"

definition MakeMergeKey :: "string \<Rightarrow> string \<Rightarrow> string" where
  "MakeMergeKey left right = left @ CHR 0x1F # right"

abbreviation pair_rank :: "token_model \<Rightarrow> string list \<Rightarrow> nat \<Rightarrow> int option" where
  "pair_rank m symbols i \<equiv> map_of (bpe_merge_ranks m) (MakeMergeKey (symbols ! i) (symbols ! Suc i))"

text \<open>The scan for the pair of lowest rank, the first one on ties: best rank and position, -1 for none.\<close>

definition consider_pair :: "token_model \<Rightarrow> string list \<Rightarrow> nat \<Rightarrow> int \<times> int \<Rightarrow> int \<times> int" where
  "consider_pair m symbols i = (\<lambda>(best_rank, best_pos).
     case pair_rank m symbols i of
       Some r \<Rightarrow> if r < best_rank then (r, int i) else (best_rank, best_pos)
     | None \<Rightarrow> (best_rank, best_pos))"

definition best_merge :: "token_model \<Rightarrow> string list \<Rightarrow> int" where
  "best_merge m symbols = snd (fold (consider_pair m symbols) [0..<length symbols - 1] (2147483647, -1))"

definition merge_at :: "nat \<Rightarrow> 'a list list \<Rightarrow> 'a list list" where
  "merge_at i xs = take i xs @ (xs ! i @ xs ! Suc i) # drop (Suc (Suc i)) xs"

lemma best_merge_bounds: "best_merge m symbols < int (length symbols) - 1 \<or> best_merge m symbols = -1"
proof -
  have "snd (fold (consider_pair m symbols) is st) \<in> insert (snd st) (int ` set is)" for "is" st
  proof (induction "is" arbitrary: st)
    case (Cons i xs)
    have "snd (consider_pair m symbols i st) \<in> {snd st, int i}"
      by (auto simp: consider_pair_def split: prod.split option.split)
    then show ?case using Cons [of "consider_pair m symbols i st"] by auto
  qed simp
  from this [of "[0..<length symbols - 1]" "(2147483647, -1)"] show ?thesis by (auto simp: best_merge_def)
qed

lemma length_merge_at: "Suc i < length xs \<Longrightarrow> length (merge_at i xs) = length xs - 1"
  by (simp add: merge_at_def)

function merge_loop :: "token_model \<Rightarrow> string list \<Rightarrow> string list" where
  "merge_loop m symbols =
     (if length symbols \<le> 1 \<or> best_merge m symbols < 0 then symbols
      else merge_loop m (merge_at (nat (best_merge m symbols)) symbols))"
  by pat_completeness auto
termination
proof (relation "measure (\<lambda>(_, symbols). length symbols)", goal_cases)
  case (2 m symbols)
  then have "Suc (nat (best_merge m symbols)) < length symbols" using best_merge_bounds [of m symbols] by auto
  then show ?case using 2 by (simp add: length_merge_at)
qed simp

declare merge_loop.simps [simp del]

definition MergeWithBpeRanks :: "token_model \<Rightarrow> string list \<Rightarrow> string list" where
  "MergeWithBpeRanks m symbols = (if length symbols < 2 \<or> bpe_merge_ranks m = [] then symbols else merge_loop m symbols)"

definition hex_digit :: "nat \<Rightarrow> char" where
  "hex_digit n = (if n < 10 then char_of (48 + n) else char_of (55 + n))"

definition hex_token :: "char \<Rightarrow> string" where
  "hex_token c = (let n = of_char c :: nat in ''<0x'' @ [hex_digit (n div 16), hex_digit (n mod 16), CHR ''>''])"

definition fallback_id :: "token_model \<Rightarrow> char \<Rightarrow> int option" where
  "fallback_id m b =
     (case token_id m (byte_symbol b) of
        Some i \<Rightarrow> Some i
      | None \<Rightarrow> (case token_id m (hex_token b) of Some i \<Rightarrow> Some i | None \<Rightarrow> token_id m [b]))"

definition AppendByteFallbackTokens :: "token_model \<Rightarrow> string \<Rightarrow> int list" where
  "AppendByteFallbackTokens m raw_bytes = List.map_filter (fallback_id m) raw_bytes"

definition unit_bytes :: "string \<Rightarrow> string" where
  "unit_bytes u = (case UnicodeToByte u of Some c \<Rightarrow> [c] | None \<Rightarrow> u)"

definition symbol_ids :: "token_model \<Rightarrow> string \<Rightarrow> int list" where
  "symbol_ids m symb =
     (case token_id m symb of
        Some i \<Rightarrow> [i]
      | None \<Rightarrow> AppendByteFallbackTokens m
          (if IsByteLevelBpeTokenizer m then concat (map unit_bytes (SplitUtf8Units symb)) else symb))"

definition AppendSymbolsToIds :: "token_model \<Rightarrow> string list \<Rightarrow> int list" where
  "AppendSymbolsToIds m symbols = concat (map (symbol_ids m) symbols)"

section \<open>Unigram segmentation\<close>

definition NormalizeSentencePieceText :: "string \<Rightarrow> string" where
  "NormalizeSentencePieceText s =
     (if s = [] then [] else (if hd s \<noteq> CHR '' '' then sp_space else []) @ spaces_to_sp s)"

definition FindSentencePieceUnkId :: "token_model \<Rightarrow> int" where
  "FindSentencePieceUnkId m =
     (case token_id m ''<unk>'' of
        Some i \<Rightarrow> i
      | None \<Rightarrow> (case find (\<lambda>i. token_types m ! i = 2) [0..<length (token_types m)] of Some i \<Rightarrow> int i | None \<Rightarrow> -1))"

definition GetSentencePieceScore :: "token_model \<Rightarrow> int \<Rightarrow> rat" where
  "GetSentencePieceScore m i = (if i < 0 \<or> int (length (token_scores m)) \<le> i then 0 else token_scores m ! nat i)"

text \<open>
  The tables \<^verbatim>\<open>best\<close>, \<^verbatim>\<open>best_id\<close> and \<^verbatim>\<open>best_next\<close> as one list of cells, for the positions from the current one to the end of the text.
  An infinite value is \<open>None\<close>; \<open>c_next\<close> is the distance to the next position.
\<close>

record cell =
  c_best :: "rat option"
  c_id :: int
  c_next :: nat

definition end_cell :: cell where
  "end_cell = \<lparr>c_best = Some 0, c_id = -1, c_next = 0\<rparr>"

definition prefix_bytes :: "utf8_codepoint list \<Rightarrow> nat \<Rightarrow> string" where
  "prefix_bytes cs e = cps_bytes (take e cs)"

text \<open>The inner loop stops at the first prefix that is longer than every token.\<close>

definition prefix_ends :: "nat \<Rightarrow> utf8_codepoint list \<Rightarrow> nat list" where
  "prefix_ends limit cs = takeWhile (\<lambda>e. length (prefix_bytes cs e) \<le> limit) [1..<Suc (length cs)]"

definition unigram_try :: "token_model \<Rightarrow> utf8_codepoint list \<Rightarrow> cell list \<Rightarrow> nat \<Rightarrow> cell \<Rightarrow> cell" where
  "unigram_try m cs cells e c =
     (case (token_id m (prefix_bytes cs e), c_best (cells ! (e - 1))) of
        (Some i, Some b) \<Rightarrow>
          let v = f32 (GetSentencePieceScore m i + b)
          in if (case c_best c of None \<Rightarrow> True | Some w \<Rightarrow> w < v) then \<lparr>c_best = Some v, c_id = i, c_next = e\<rparr> else c
      | _ \<Rightarrow> c)"

definition unigram_cell :: "token_model \<Rightarrow> nat \<Rightarrow> int \<Rightarrow> utf8_codepoint list \<Rightarrow> cell list \<Rightarrow> cell" where
  "unigram_cell m limit unk cs cells =
     (let c = fold (unigram_try m cs cells) (prefix_ends limit cs) \<lparr>c_best = None, c_id = -1, c_next = length cs\<rparr>
      in case c_best (hd cells) of
           Some b \<Rightarrow> if c_id c < 0 \<and> 0 \<le> unk then \<lparr>c_best = Some (f32 (GetSentencePieceScore m unk + b)), c_id = unk, c_next = 1\<rparr> else c
         | None \<Rightarrow> c)"

fun unigram_cells :: "token_model \<Rightarrow> nat \<Rightarrow> int \<Rightarrow> utf8_codepoint list \<Rightarrow> cell list" where
  "unigram_cells m limit unk [] = [end_cell]"
| "unigram_cells m limit unk (c # cs) = (let cells = unigram_cells m limit unk cs in unigram_cell m limit unk (c # cs) cells # cells)"

text \<open>Reading the tables from the front.\<close>

function read_cells :: "cell list \<Rightarrow> int list" where
  "read_cells cells =
     (if length cells \<le> 1 \<or> c_id (hd cells) < 0 then []
      else c_id (hd cells) # (if c_next (hd cells) = 0 then [] else read_cells (drop (c_next (hd cells)) cells)))"
  by pat_completeness auto
termination
  by (relation "measure length") auto

declare read_cells.simps [simp del]

definition max_token_bytes :: "token_model \<Rightarrow> nat" where
  "max_token_bytes m = fold (\<lambda>t k. max k (length t)) (vocab_tokens m) 0"

text \<open>The left value is the exception the code throws.\<close>

definition AppendSentencePieceUnigram :: "token_model \<Rightarrow> string \<Rightarrow> string + int list" where
  "AppendSentencePieceUnigram m piece_text =
     (let cs = DecodeUtf8Codepoints (NormalizeSentencePieceText piece_text)
      in if cs = [] \<or> max_token_bytes m = 0 then Inr []
         else let cells = unigram_cells m (max_token_bytes m) (FindSentencePieceUnkId m) cs
              in if c_id (hd cells) < 0
                 then (if tm_is_gemma4 m then Inl ''Gemma4 tokenizer could not segment prompt with GGUF sentencepiece metadata'' else Inr [])
                 else Inr (read_cells cells))"

section \<open>Word pieces\<close>

definition WordPieceShouldLower :: "token_model \<Rightarrow> bool" where
  "WordPieceShouldLower m =
     (let lowered = AsciiLower (tokenizer_type m)
      in if has_substring ''uncased'' lowered then True
         else if has_substring ''cased'' lowered then False
         else if HasToken m (sp_space @ ''the'') \<and> \<not> HasToken m (sp_space @ ''The'') then True
         else if list_ex (\<lambda>(t, _). take 3 t = sp_space \<and> 4 \<le> length t \<and>
                   97 \<le> (of_char (t ! 3) :: nat) \<and> (of_char (t ! 3) :: nat) \<le> 122 \<and>
                   \<not> HasToken m (t[3 := char_of ((of_char (t ! 3) :: nat) - 32)])) (token_to_id m) then True
         else HasToken m ''the'' \<and> \<not> HasToken m ''The'')"

definition WordPieceUsesSentencePieceSurface :: "token_model \<Rightarrow> bool" where
  "WordPieceUsesSentencePieceSurface m \<longleftrightarrow> HasToken m (sp_space @ ''the'') \<or> HasToken m (sp_space @ ''.'') \<or> HasToken m (sp_space @ '','')"

text \<open>The pieces so far and the current word.\<close>

definition wordpiece_unit :: "bool \<Rightarrow> utf8_codepoint \<Rightarrow> string list \<times> string \<Rightarrow> string list \<times> string" where
  "wordpiece_unit lowercase c = (\<lambda>(pieces, current).
     let low = (\<lambda>s. if lowercase then map c_tolower s else s);
         flushed = (if current = [] then pieces else pieces @ [low current])
     in if IsUnicodeWhitespace (cp c) then (flushed, [])
        else if IsCjkCodepoint (cp c) \<or> IsUnicodePunctuationOrSymbol (cp c) then (flushed @ [low (cp_bytes c)], [])
        else (pieces, current @ cp_bytes c))"

definition PretokenizeForWordPiece :: "token_model \<Rightarrow> string \<Rightarrow> string list" where
  "PretokenizeForWordPiece m text =
     (let lowercase = WordPieceShouldLower m;
          (pieces, current) = fold (wordpiece_unit lowercase) (DecodeUtf8Codepoints text) ([], [])
      in if current = [] then pieces else pieces @ [if lowercase then map c_tolower current else current])"

definition FindWordPieceUnkId :: "token_model \<Rightarrow> int" where
  "FindWordPieceUnkId m =
     (if 0 \<le> unk_token_id m then unk_token_id m
      else case token_id m ''[UNK]'' of
             Some i \<Rightarrow> i
           | None \<Rightarrow> (case token_id m ''<unk>'' of Some i \<Rightarrow> i | None \<Rightarrow> FindSentencePieceUnkId m))"

lemma find_member: "find P xs = Some x \<Longrightarrow> x \<in> set xs \<and> P x"
  by (auto simp: find_Some_iff)

text \<open>The longest prefix of the rest that is a token, with the prefix the vocabulary marks it with.\<close>

definition longest_prefix :: "token_model \<Rightarrow> string \<Rightarrow> utf8_codepoint list \<Rightarrow> (int \<times> nat) option" where
  "longest_prefix m mark cs =
     (case find (\<lambda>e. HasToken m (mark @ prefix_bytes cs e)) (rev [1..<Suc (length cs)]) of
        None \<Rightarrow> None
      | Some e \<Rightarrow> (case token_id m (mark @ prefix_bytes cs e) of Some i \<Rightarrow> if i < 0 then None else Some (i, e) | None \<Rightarrow> None))"

lemma longest_prefix_bounds: "longest_prefix m mark cs = Some (i, e) \<Longrightarrow> 0 < e \<and> e \<le> length cs"
  by (auto simp: longest_prefix_def dest!: find_member split: option.splits if_splits)

function greedy_pieces :: "token_model \<Rightarrow> string \<Rightarrow> string \<Rightarrow> utf8_codepoint list \<Rightarrow> int list option" where
  "greedy_pieces m mark later cs =
     (if cs = [] then Some []
      else case longest_prefix m mark cs of
             None \<Rightarrow> None
           | Some (i, e) \<Rightarrow> map_option (Cons i) (greedy_pieces m later later (drop e cs)))"
  by pat_completeness auto
termination
  by (relation "measure (\<lambda>(_, _, _, cs). length cs)") (auto dest: longest_prefix_bounds)

declare greedy_pieces.simps [simp del]

text \<open>Both forms of the vocabulary: a mark on the pieces that continue a word, or one on the piece that starts it.\<close>

definition wordpiece_ids :: "token_model \<Rightarrow> string \<Rightarrow> string \<Rightarrow> string \<Rightarrow> int list" where
  "wordpiece_ids m first later piece =
     (if piece = [] then []
      else case greedy_pieces m first later (DecodeUtf8Codepoints piece) of
             Some ids \<Rightarrow> ids
           | None \<Rightarrow> if 0 \<le> FindWordPieceUnkId m then [FindWordPieceUnkId m] else [])"

definition AppendSentencePieceSurfaceWordPieceTokens :: "token_model \<Rightarrow> string \<Rightarrow> int list" where
  "AppendSentencePieceSurfaceWordPieceTokens m piece_text = concat (map (wordpiece_ids m sp_space []) (PretokenizeForWordPiece m piece_text))"

definition AppendWordPieceTokens :: "token_model \<Rightarrow> string \<Rightarrow> int list" where
  "AppendWordPieceTokens m piece_text =
     (if WordPieceUsesSentencePieceSurface m then AppendSentencePieceSurfaceWordPieceTokens m piece_text
      else concat (map (wordpiece_ids m [] ''##'') (PretokenizeForWordPiece m piece_text)))"

text \<open>
  The BERT vocabulary with ranks as costs. \<open>log1p\<close> is the library function on the identifier, rounded to binary64; the sums are
  rounded after it.
\<close>

definition bert_try :: "(int \<Rightarrow> rat) \<Rightarrow> token_model \<Rightarrow> utf8_codepoint list \<Rightarrow> cell list \<Rightarrow> nat \<Rightarrow> cell \<Rightarrow> cell" where
  "bert_try log1p m cs cells e c =
     (case (token_id m (sp_space @ prefix_bytes cs e), c_best (cells ! (e - 1))) of
        (Some i, Some b) \<Rightarrow>
          let v = f64 (log1p (max 0 i) + b)
          in if (case c_best c of None \<Rightarrow> True | Some w \<Rightarrow> v < w) then \<lparr>c_best = Some v, c_id = i, c_next = e\<rparr> else c
      | _ \<Rightarrow> c)"

definition is_sp_unit :: "utf8_codepoint \<Rightarrow> bool" where
  "is_sp_unit c \<longleftrightarrow> cp_bytes c = sp_space"

definition bert_cell :: "(int \<Rightarrow> rat) \<Rightarrow> token_model \<Rightarrow> nat \<Rightarrow> utf8_codepoint list \<Rightarrow> cell list \<Rightarrow> cell" where
  "bert_cell log1p m limit cs cells =
     (let c = fold (bert_try log1p m cs cells) (prefix_ends limit cs) \<lparr>c_best = None, c_id = -1, c_next = length cs\<rparr>
      in if c_id c < 0 \<and> is_sp_unit (hd cs) \<and> c_best (hd cells) \<noteq> None then c\<lparr>c_best := c_best (hd cells), c_next := 1\<rparr> else c)"

fun bert_cells :: "(int \<Rightarrow> rat) \<Rightarrow> token_model \<Rightarrow> nat \<Rightarrow> utf8_codepoint list \<Rightarrow> cell list" where
  "bert_cells log1p m limit [] = [end_cell]"
| "bert_cells log1p m limit (c # cs) = (let cells = bert_cells log1p m limit cs in bert_cell log1p m limit (c # cs) cells # cells)"

function read_bert :: "int \<Rightarrow> utf8_codepoint list \<Rightarrow> cell list \<Rightarrow> int list" where
  "read_bert unk cs cells =
     (if cs = [] then []
      else let c = hd cells
           in if 0 \<le> c_id c then c_id c # (if c_next c = 0 then [] else read_bert unk (drop (c_next c) cs) (drop (c_next c) cells))
              else if c_next c = 1 \<and> is_sp_unit (hd cs) then read_bert unk (tl cs) (tl cells)
              else (if 0 \<le> unk then [unk] else []) @ read_bert unk (tl cs) (tl cells))"
  by pat_completeness auto
termination
  by (relation "measure (\<lambda>(_, cs, _). length cs)") auto

declare read_bert.simps [simp del]

definition max_virtual_bytes :: "token_model \<Rightarrow> nat" where
  "max_virtual_bytes m = fold (\<lambda>t k. if take 3 t = sp_space \<and> 3 < length t then max k (length t - 3) else k) (vocab_tokens m) 0"

definition AppendBertBpeTokens :: "(int \<Rightarrow> rat) \<Rightarrow> token_model \<Rightarrow> string \<Rightarrow> int list" where
  "AppendBertBpeTokens log1p m piece_text =
     (let cs = DecodeUtf8Codepoints (NormalizeSentencePieceText piece_text); limit = max_virtual_bytes m
      in if cs = [] \<or> limit = 0 then [] else read_bert (FindWordPieceUnkId m) cs (bert_cells log1p m limit cs))"

section \<open>Merging by vocabulary\<close>

text \<open>The reference scan, which the header declares but the tokenizer no longer calls.\<close>

definition consider_vocab_pair :: "token_model \<Rightarrow> string list \<Rightarrow> nat \<Rightarrow> rat \<times> int \<Rightarrow> rat \<times> int" where
  "consider_vocab_pair m tokens i = (\<lambda>(best_score, best_idx).
     let merged = tokens ! i @ tokens ! Suc i
     in if HasToken m merged \<and> GetTokenScore m merged < best_score then (GetTokenScore m merged, int i) else (best_score, best_idx))"

definition FindBestMerge :: "token_model \<Rightarrow> string list \<Rightarrow> int" where
  "FindBestMerge m tokens =
     (if length tokens < 2 then -1 else snd (fold (consider_vocab_pair m tokens) [0..<length tokens - 1] (FLT_MAX, -1)))"

record merge_pair =
  mp_score :: rat
  mp_position :: nat
  mp_generation :: nat

definition try_add_merge :: "token_model \<Rightarrow> string list \<Rightarrow> nat list \<Rightarrow> nat \<Rightarrow> merge_pair list \<Rightarrow> merge_pair list" where
  "try_add_merge m tokens generation pos pq =
     (if length tokens - 1 \<le> pos then pq
      else let merged = tokens ! pos @ tokens ! Suc pos
           in if HasToken m merged
              then pq @ [\<lparr>mp_score = GetTokenScore m merged, mp_position = pos, mp_generation = generation ! pos\<rparr>] else pq)"

text \<open>
  The priority queue hands out an entry of lowest score; which of several with that score is up to the library, so \<open>tie\<close> picks it.
\<close>

definition lowest :: "merge_pair list \<Rightarrow> merge_pair list" where
  "lowest pq = filter (\<lambda>p. list_all (\<lambda>q. mp_score p \<le> mp_score q) pq) pq"

definition pq_top :: "(merge_pair list \<Rightarrow> nat) \<Rightarrow> merge_pair list \<Rightarrow> merge_pair" where
  "pq_top tie pq = (let best = lowest pq in best ! (tie best mod length best))"

lemma lowest_nonempty: "pq \<noteq> [] \<Longrightarrow> lowest pq \<noteq> []"
proof -
  assume ne: "pq \<noteq> []"
  then have "\<exists>p \<in> set pq. \<forall>q \<in> set pq. mp_score p \<le> mp_score q"
    using Min_in [of "mp_score ` set pq"] by (metis (no_types, lifting) Min_le finite_imageI finite_set imageE imageI image_is_empty set_empty)
  then show ?thesis by (auto simp: lowest_def filter_empty_conv list_all_iff)
qed

lemma pq_top_mem: "pq \<noteq> [] \<Longrightarrow> pq_top tie pq \<in> set pq"
proof -
  assume ne: "pq \<noteq> []"
  have "pq_top tie pq \<in> set (lowest pq)" using lowest_nonempty [OF ne] by (simp add: pq_top_def Let_def)
  then show ?thesis by (simp add: lowest_def)
qed

text \<open>An entry is stale when its position has been merged since it was queued.\<close>

definition pq_stale :: "token_model \<Rightarrow> string list \<Rightarrow> nat list \<Rightarrow> merge_pair \<Rightarrow> bool" where
  "pq_stale m tokens generation t \<longleftrightarrow>
     length tokens - 1 \<le> mp_position t \<or> mp_generation t \<noteq> generation ! mp_position t \<or>
     \<not> HasToken m (tokens ! mp_position t @ tokens ! Suc (mp_position t))"

definition bump :: "nat \<Rightarrow> nat list \<Rightarrow> nat list" where
  "bump i g = g[i := Suc (g ! i)]"

definition pq_merge :: "token_model \<Rightarrow> nat \<Rightarrow> string list \<Rightarrow> nat list \<Rightarrow> merge_pair list \<Rightarrow> string list \<times> nat list \<times> merge_pair list" where
  "pq_merge m pos tokens generation pq =
     (let tokens' = merge_at pos tokens;
          g1 = (if 0 < pos then bump (pos - 1) generation else generation);
          g2 = take (length tokens') (bump pos g1);
          pq1 = (if 0 < pos then try_add_merge m tokens' g2 (pos - 1) pq else pq)
      in (tokens', g2, try_add_merge m tokens' g2 pos pq1))"

lemma length_try_add_merge: "length (try_add_merge m tokens g pos pq) \<le> Suc (length pq)"
  by (simp add: try_add_merge_def Let_def)

lemma pq_merge_measure:
  assumes "Suc pos < length tokens" and "pq_merge m pos tokens generation pq = (tokens', generation', pq')"
  shows "length tokens' = length tokens - 1 \<and> length pq' \<le> length pq + 2"
proof -
  let ?t = "merge_at pos tokens" and ?g = "take (length (merge_at pos tokens)) (bump pos (if 0 < pos then bump (pos - 1) generation else generation))"
  have "length (try_add_merge m ?t ?g pos (try_add_merge m ?t ?g (pos - 1) pq)) \<le> length pq + 2"
    "length (try_add_merge m ?t ?g pos pq) \<le> length pq + 2"
    using length_try_add_merge [of m ?t ?g pos "try_add_merge m ?t ?g (pos - 1) pq"] length_try_add_merge [of m ?t ?g "pos - 1" pq]
      length_try_add_merge [of m ?t ?g pos pq] by linarith+
  then show ?thesis using assms by (auto simp: pq_merge_def Let_def length_merge_at)
qed

function pq_loop :: "token_model \<Rightarrow> (merge_pair list \<Rightarrow> nat) \<Rightarrow> string list \<Rightarrow> nat list \<Rightarrow> merge_pair list \<Rightarrow> string list" where
  "pq_loop m tie tokens generation pq =
     (if pq = [] then tokens
      else let t = pq_top tie pq; pq' = remove1 t pq
           in if pq_stale m tokens generation t then pq_loop m tie tokens generation pq'
              else case pq_merge m (mp_position t) tokens generation pq' of
                     (tokens', generation', pq'') \<Rightarrow> pq_loop m tie tokens' generation' pq'')"
  by pat_completeness auto
termination
proof (relation "measure (\<lambda>(_, _, tokens, _, pq). 2 * length tokens + length pq)", goal_cases)
  case (2 m tie tokens generation pq t pq')
  then show ?case using length_remove1_less [OF pq_top_mem, of pq tie] by simp
next
  case (3 m tie tokens generation pq t pq' tokens' r generation' pq'')
  have l: "length pq' < length pq" using 3 length_remove1_less [OF pq_top_mem, of pq tie] by simp
  have p: "Suc (mp_position t) < length tokens" using 3 by (auto simp: pq_stale_def)
  have "pq_merge m (mp_position t) tokens generation pq' = (tokens', generation', pq'')" using 3(5,6) by simp
  from pq_merge_measure [OF p this] show ?case using l p by (cases "length tokens") auto
qed simp

declare pq_loop.simps [simp del]

definition MergeWithPriorityQueue :: "token_model \<Rightarrow> (merge_pair list \<Rightarrow> nat) \<Rightarrow> string list \<Rightarrow> string list" where
  "MergeWithPriorityQueue m tie tokens =
     (if length tokens < 2 then tokens
      else let generation = replicate (length tokens) 0
           in pq_loop m tie tokens generation (fold (try_add_merge m tokens generation) [0..<length tokens - 1] []))"

definition legacy_ids :: "token_model \<Rightarrow> string \<Rightarrow> int list" where
  "legacy_ids m t =
     (case token_id m t of
        Some i \<Rightarrow> [i]
      | None \<Rightarrow> List.map_filter (\<lambda>c. case token_id m [c] of Some i \<Rightarrow> Some i | None \<Rightarrow> token_id m (hex_token c)) t)"

section \<open>Text to identifiers\<close>

text \<open>Library behaviour the tokenizer depends on: the order of equal entries in the priority queue and the logarithm.\<close>

record token_lib =
  tl_tie :: "merge_pair list \<Rightarrow> nat"
  tl_log1p :: "int \<Rightarrow> rat"

definition tokenize_plain_span :: "token_lib \<Rightarrow> token_model \<Rightarrow> string \<Rightarrow> string + int list" where
  "tokenize_plain_span lib m s =
     (if s = [] then Inr []
      else if UseSentencePieceUnigramTokenizer m \<and> bpe_merge_ranks m = [] then AppendSentencePieceUnigram m s
      else if ResolveTokenizerFamily m = BERT_WORDPIECE then Inr (AppendWordPieceTokens m s)
      else if ResolveTokenizerFamily m = BERT_BPE then Inr (AppendBertBpeTokens (tl_log1p lib) m s)
      else if bpe_merge_ranks m \<noteq> []
      then Inr (concat (map (\<lambda>p. AppendSymbolsToIds m (MergeWithBpeRanks m (EncodePieceSymbols m p))) (PretokenizeForByteBpe m s)))
      else Inr (concat (map (legacy_ids m) (MergeWithPriorityQueue m (tl_tie lib) (SplitToChars s)))))"

text \<open>The scan for special tokens: what it tokenizes as plain text and what it looks up whole, in order.\<close>

datatype segment = Plain string | Special string

definition special_end :: "token_model \<Rightarrow> string \<Rightarrow> nat \<Rightarrow> nat option" where
  "special_end m text cursor =
     (let c = text ! cursor
      in if c = CHR ''<'' \<or> c = CHR ''['' then
           (case find_from [if c = CHR ''<'' then CHR ''>'' else CHR '']''] text (Suc cursor) of
              Some k \<Rightarrow> if IsAtomicSpecialTokenLiteral m (take (Suc k - cursor) (drop cursor text)) then Some (Suc k) else None
            | None \<Rightarrow> None)
         else None)"

lemma special_end_bounds:
  assumes "special_end m text cursor = Some e"
  shows "Suc cursor < e" "e \<le> length text" "IsAtomicSpecialTokenLiteral m (take (e - cursor) (drop cursor text))"
  using assms find_from_bounds(1) [of _ "text" "Suc cursor"] find_from_bounds(2) [of _ "text" "Suc cursor"] by (force simp: special_end_def Let_def split: if_splits option.splits)+

function split_specials :: "token_model \<Rightarrow> string \<Rightarrow> nat \<Rightarrow> nat \<Rightarrow> segment list" where
  "split_specials m text cursor span_start =
     (if length text \<le> cursor then [Plain (drop span_start text)]
      else case special_end m text cursor of
             Some e \<Rightarrow> Plain (take (cursor - span_start) (drop span_start text)) # Special (take (e - cursor) (drop cursor text)) #
                       split_specials m text e e
           | None \<Rightarrow> split_specials m text (Suc cursor) span_start)"
  by pat_completeness auto
termination
  by (relation "measure (\<lambda>(_, s, cursor, _). length s - cursor)") (use special_end_bounds in \<open>fastforce+\<close>)

declare split_specials.simps [simp del]

fun segment_ids :: "token_lib \<Rightarrow> token_model \<Rightarrow> segment \<Rightarrow> string + int list" where
  "segment_ids lib m (Plain s) = tokenize_plain_span lib m s"
| "segment_ids lib m (Special s) = Inr (case token_id m s of Some i \<Rightarrow> [i] | None \<Rightarrow> [])"

fun collect_ids :: "(string + int list) list \<Rightarrow> string + int list" where
  "collect_ids [] = Inr []"
| "collect_ids (Inl err # rs) = Inl err"
| "collect_ids (Inr ids # rs) = (case collect_ids rs of Inl err \<Rightarrow> Inl err | Inr rest \<Rightarrow> Inr (ids @ rest))"

definition prompt_begins_with_bos_literal :: "token_model \<Rightarrow> string \<Rightarrow> bool" where
  "prompt_begins_with_bos_literal m text =
     (if bos_token_id m < 0 \<or> int (length (vocab_tokens m)) \<le> bos_token_id m then False
      else let lit = vocab_tokens m ! nat (bos_token_id m) in lit \<noteq> [] \<and> take (length lit) text = lit)"

definition Tokenize :: "token_lib \<Rightarrow> token_model option \<Rightarrow> string \<Rightarrow> bool \<Rightarrow> bool \<Rightarrow> string + int list" where
  "Tokenize lib model text add_bos add_eos =
     (case model of
        None \<Rightarrow> Inr []
      | Some m \<Rightarrow>
          let bos = (if add_bos \<and> 0 \<le> bos_token_id m \<and> \<not> prompt_begins_with_bos_literal m text then [bos_token_id m] else []);
              eos = (if add_eos \<and> 0 \<le> ResolveEndTokenId m then [ResolveEndTokenId m] else [])
          in if text = [] then Inr (bos @ eos)
             else case collect_ids (map (segment_ids lib m) (split_specials m text 0 0)) of
                    Inl err \<Rightarrow> Inl err
                  | Inr ids \<Rightarrow> Inr (bos @ ids @ eos))"

section \<open>Identifiers to text\<close>

definition hex_value :: "char \<Rightarrow> nat option" where
  "hex_value c =
     (let n = of_char c :: nat
      in if 48 \<le> n \<and> n \<le> 57 then Some (n - 48) else if 65 \<le> n \<and> n \<le> 70 then Some (n - 55)
         else if 97 \<le> n \<and> n \<le> 102 then Some (n - 87) else None)"

text \<open>\<^verbatim>\<open>sscanf\<close> with \<^verbatim>\<open>%x\<close>: white space, a sign, the prefix \<^verbatim>\<open>0x\<close>, digits.\<close>

definition scan_hex :: "string \<Rightarrow> int option" where
  "scan_hex s =
     (let s1 = dropWhile c_isspace s; neg = (take 1 s1 = ''-'');
          s2 = (if take 1 s1 = ''-'' \<or> take 1 s1 = ''+'' then tl s1 else s1);
          s3 = (if map c_tolower (take 2 s2) = ''0x'' then drop 2 s2 else s2);
          ds = map (the \<circ> hex_value) (takeWhile (\<lambda>c. hex_value c \<noteq> None) s3);
          v = int (foldl (\<lambda>v d. 16 * v + d) 0 ds)
      in if ds = [] then None else Some (if neg then - v else v))"

definition DetokenizeImpl :: "token_model \<Rightarrow> int \<Rightarrow> string" where
  "DetokenizeImpl m i =
     (if i < 0 \<or> int (length (vocab_tokens m)) \<le> i then []
      else let t = vocab_tokens m ! nat i; hex = take 2 (drop 3 t)
           in if IsGemma4GenerationChannelToken m t then t
              else if special_type m i then []
              else if IsLikelyControlTokenLiteral t then []
              else if length t = 6 \<and> take 3 t = ''<0x'' \<and> t ! 5 = CHR ''>'' \<and> scan_hex (takeWhile (\<lambda>c. c \<noteq> CHR 0x00) hex) \<noteq> None
              then [char_of (nat (the (scan_hex (takeWhile (\<lambda>c. c \<noteq> CHR 0x00) hex)) mod 256))]
              else if \<not> IsByteLevelBpeTokenizer m
              then concat (map (\<lambda>u. if u = sp_space then '' '' else u) (SplitUtf8Units t))
              else concat (map (\<lambda>u. case UnicodeToByte u of
                                      Some c \<Rightarrow> [c] | None \<Rightarrow> if u = sp_space then '' '' else u) (SplitUtf8Units t)))"

definition BuildStreamTokenPieceCache :: "token_model \<Rightarrow> token_model" where
  "BuildStreamTokenPieceCache m = m\<lparr>stream_token_pieces := map (\<lambda>i. DetokenizeImpl m (int i)) [0..<length (vocab_tokens m)]\<rparr>"

definition Detokenize :: "token_model \<Rightarrow> int \<Rightarrow> string" where
  "Detokenize m i =
     (if 0 \<le> i \<and> i < int (length (stream_token_pieces m)) then stream_token_pieces m ! nat i else DetokenizeImpl m i)"

definition DetokenizeStructured :: "token_model \<Rightarrow> int \<Rightarrow> string" where
  "DetokenizeStructured m i =
     (if i < 0 \<or> int (length (vocab_tokens m)) \<le> i then []
      else case find (\<lambda>b. token_id m b = Some i)
                  [''<think>'', ''</think>'', ''<tool_call>'', ''</tool_call>'', ''<tool_response>'', ''</tool_response>''] of
             Some b \<Rightarrow> b
           | None \<Rightarrow> Detokenize m i)"

definition DetokenizeMultiple :: "token_model \<Rightarrow> int list \<Rightarrow> string" where
  "DetokenizeMultiple m ids =
     concat (map (\<lambda>i. if i = bos_token_id m \<or> i = eos_token_id m \<or> i = sep_token_id m \<or> i = pad_token_id m then [] else Detokenize m i) ids)"

end
