(* ===== verification/Float_Mono.thy ===== *)
theory Float_Mono
  imports Float_Laws
begin

text \<open>Rounding is odd and monotone, so that rounded sums can be compared term by term.\<close>

lemma round_half_even_mono: "x \<le> y \<Longrightarrow> round_half_even x \<le> round_half_even y"
proof -
  assume xy: "x \<le> y"
  have lo: "\<lfloor>y\<rfloor> \<le> round_half_even y" and hi: "round_half_even x \<le> \<lfloor>x\<rfloor> + 1"
    by (auto simp: round_half_even_def Let_def)
  show ?thesis
  proof (cases "\<lfloor>x\<rfloor> = \<lfloor>y\<rfloor>")
    case True
    then show ?thesis using xy by (auto simp: round_half_even_def Let_def)
  next
    case False
    then have "\<lfloor>x\<rfloor> + 1 \<le> \<lfloor>y\<rfloor>" using floor_mono [OF xy] by simp
    then show ?thesis using lo hi by simp
  qed
qed

lemma round_half_even_minus: "round_half_even (- x) = - round_half_even x"
proof (cases "x = of_int \<lfloor>x\<rfloor>")
  case True
  then have "- x = of_int (- \<lfloor>x\<rfloor>)" by simp
  then show ?thesis using True by (metis round_half_even_of_int)
next
  case False
  have f: "\<lfloor>- x\<rfloor> = - \<lfloor>x\<rfloor> - 1"
  proof (rule floor_unique)
    show "of_int (- \<lfloor>x\<rfloor> - 1) \<le> - x" using floor_correct [of x] by simp
    show "- x < of_int (- \<lfloor>x\<rfloor> - 1) + 1" using floor_correct [of x] False by (simp add: less_le)
  qed
  show ?thesis unfolding round_half_even_def Let_def f by auto
qed

lemma float_round_minus: "float_round p m (- x) = - float_round p m x"
  by (simp add: float_round_def Let_def round_half_even_minus)

lemma ilog2_upper:
  assumes "0 < x"
  shows "x < 2 powi (ilog2 x + 1)"
proof -
  obtain a b where q: "quotient_of x = (a, b)" by fastforce
  have b: "0 < b" by (rule quotient_of_denom_pos [OF q])
  have x: "x = of_int a / of_int b" by (rule quotient_of_div [OF q])
  have a: "0 < a" using assms b by (simp add: x zero_less_divide_iff)
  define i where "i = nat (bitlen a)"
  define j where "j = nat (bitlen b - 1)"
  have "a < 2 ^ i" "2 ^ j \<le> b" using bitlen_bounds [OF a] bitlen_bounds [OF b] by (simp_all add: i_def j_def)
  then have ai: "of_int a < (2 :: rat) ^ i" and bj: "(2 :: rat) ^ j \<le> of_int b"
    by (metis of_int_less_iff of_int_numeral of_int_power, metis of_int_le_iff of_int_numeral of_int_power)
  have "of_int a / of_int b < (2 :: rat) ^ i / 2 ^ j" using ai bj a b by (intro frac_less) simp_all
  moreover have "bitlen a = int i" "bitlen b = int j + 1"
    using a b bitlen_eq_zero_iff [of b] bitlen_nonneg [of a] bitlen_nonneg [of b] by (simp_all add: i_def j_def)
  then have "(2 :: rat) powi (bitlen a - bitlen b + 1) = 2 ^ i / 2 ^ j" by (simp add: power_int_diff)
  ultimately show ?thesis by (auto simp: x [symmetric] ilog2_def q Let_def)
qed

lemma ilog2_mono: "0 < x \<Longrightarrow> x \<le> y \<Longrightarrow> ilog2 x \<le> ilog2 y"
proof (rule ccontr)
  assume x: "0 < x" "x \<le> y" and "\<not> ilog2 x \<le> ilog2 y"
  then have "(2 :: rat) powi (ilog2 y + 1) \<le> 2 powi ilog2 x" by (intro power_int_increasing) simp_all
  then show False using ilog2_lower [of x] ilog2_upper [of y] x by linarith
qed

lemma powi_div_int: "e \<le> k \<Longrightarrow> (2 :: rat) powi k / 2 powi e = of_int (2 ^ nat (k - e))"
  using power_int_diff [of "2 :: rat" k e] power_int_def [of "2 :: rat" "k - e"] by simp

lemma float_round_mono_pos:
  assumes "0 < x" and "x \<le> y" and "1 \<le> p"
  shows "float_round p m x \<le> float_round p m y"
proof -
  let ?e = "\<lambda>x. max m (ilog2 x - (p - 1))"
  have fx: "float_round p m z = of_int (round_half_even (z / 2 powi ?e z)) * 2 powi ?e z" if "0 < z" for z
    using that by (simp add: float_round_def Let_def)
  show ?thesis
  proof (cases "?e x = ?e y")
    case True
    have "x / 2 powi ?e y \<le> y / 2 powi ?e y" using assms(2) by (simp add: divide_right_mono)
    then show ?thesis using fx assms(1,2) by (simp add: True round_half_even_mono mult_right_mono)
  next
    case False
    let ?k = "ilog2 y"
    have lt: "?e x < ?e y" "ilog2 x < ?k" using ilog2_mono [OF assms(1,2)] False by (auto simp: max_def split: if_splits)
    then have ek: "?e y \<le> ?k" "?e x \<le> ?k" using assms(3) by (auto simp: max_def split: if_splits)
    have "x < 2 powi ?k"
      using ilog2_upper [OF assms(1)] power_int_increasing [of "ilog2 x + 1" ?k "2 :: rat"] lt(2) by linarith
    then have "x / 2 powi ?e x \<le> of_int (2 ^ nat (?k - ?e x))"
      unfolding powi_div_int [OF ek(2), symmetric] by (simp add: divide_right_mono)
    then have "of_int (round_half_even (x / 2 powi ?e x)) \<le> (2 :: rat) powi ?k / 2 powi ?e x"
      unfolding powi_div_int [OF ek(2)] using round_half_even_le of_int_le_iff by blast
    then have "float_round p m x \<le> 2 powi ?k" using fx [OF assms(1)] by (simp add: pos_le_divide_eq)
    moreover have "2 powi ?k \<le> y" using ilog2_lower [of y] assms by simp
    then have "of_int (2 ^ nat (?k - ?e y)) \<le> y / 2 powi ?e y"
      unfolding powi_div_int [OF ek(1), symmetric] by (simp add: divide_right_mono)
    then have "(2 :: rat) powi ?k / 2 powi ?e y \<le> of_int (round_half_even (y / 2 powi ?e y))"
      unfolding powi_div_int [OF ek(1)] using round_half_even_ge of_int_le_iff by blast
    then have "2 powi ?k \<le> float_round p m y" using fx [of y] assms(1,2) by (simp add: pos_divide_le_eq)
    ultimately show ?thesis by linarith
  qed
qed

lemma float_round_mono:
  assumes "x \<le> y" and "1 \<le> p"
  shows "float_round p m x \<le> float_round p m y"
proof -
  have np: "float_round p m z \<le> 0" if "z \<le> 0" for z
    using float_round_nonneg [of "- z" p m] that by (simp add: float_round_minus)
  consider "0 < x" | "x \<le> 0" "0 \<le> y" | "y < 0" by linarith
  then show ?thesis
  proof cases
    case 1
    then show ?thesis using float_round_mono_pos assms by blast
  next
    case 2
    then show ?thesis using np [of x] float_round_nonneg [of y p m] by linarith
  next
    case 3
    then have "float_round p m (- y) \<le> float_round p m (- x)" using float_round_mono_pos [of "- y" "- x"] assms by simp
    then show ?thesis by (simp add: float_round_minus)
  qed
qed

lemma f32_mono: "x \<le> y \<Longrightarrow> f32 x \<le> f32 y"
  by (simp add: f32_def float_round_mono)

lemma f64_mono: "x \<le> y \<Longrightarrow> f64 x \<le> f64 y"
  by (simp add: f64_def float_round_mono)

end
