(* ===== verification/Tokenizer_Laws.thy ===== *)
theory Tokenizer_Laws
  imports Tokenizer
begin

text \<open>
  What the tokenizer guarantees: no pre-tokenizer loses a byte, merging keeps the bytes of the symbols and ends in a normal form, and
  for byte-level vocabularies the identifiers of a text give the text back.
\<close>

section \<open>Units and code points tile the text\<close>

lemma concat_SplitUtf8Units [simp]: "concat (SplitUtf8Units s) = s"
  by (induction s rule: SplitUtf8Units.induct) (subst SplitUtf8Units.simps, simp add: Let_def)

lemma cps_bytes_DecodeUtf8Codepoints [simp]: "cps_bytes (DecodeUtf8Codepoints s) = s"
proof (induction s rule: DecodeUtf8Codepoints.induct)
  case (1 s)
  then show ?case
    by (subst DecodeUtf8Codepoints.simps)
      (use decode_len_bounds [of s] in \<open>simp add: Let_def cp_bytes_decode_first min_absorb2\<close>)
qed

lemma DecodeUtf8Codepoints_Nil [simp]: "DecodeUtf8Codepoints s = [] \<longleftrightarrow> s = []"
  by (subst DecodeUtf8Codepoints.simps) (simp add: Let_def)

lemma cp_bytes_nonempty: "c \<in> set (DecodeUtf8Codepoints s) \<Longrightarrow> cp_bytes c \<noteq> []"
proof (induction s rule: DecodeUtf8Codepoints.induct)
  case (1 s)
  then show ?case using decode_len_bounds [of s]
    by (subst (asm) DecodeUtf8Codepoints.simps) (auto simp: Let_def cp_bytes_decode_first split: if_splits)
qed

section \<open>Splitters\<close>

text \<open>
  The contract of a pre-tokenizer: at every position of the text some alternative matches. Such a splitter loses nothing.
\<close>

locale splitter =
  fixes step :: "'a list \<Rightarrow> nat"
  assumes step_pos: "xs \<noteq> [] \<Longrightarrow> 0 < step xs"
begin

lemma concat_chop: "concat (chop step xs) = xs"
proof (induction xs rule: length_induct)
  case (1 xs)
  then show ?case by (subst chop.simps) (use step_pos [of xs] in auto)
qed

lemma chop_nonempty: "p \<in> set (chop step xs) \<Longrightarrow> p \<noteq> []"
proof (induction xs rule: length_induct)
  case (1 xs)
  then show ?case by (subst (asm) (2) chop.simps) (use step_pos [of xs] in \<open>auto split: if_splits\<close>)
qed

lemma chop_Nil: "chop step xs = [] \<longleftrightarrow> xs = []"
  using step_pos [of xs] by (subst chop.simps) auto

end

lemma first_match_pos: "\<exists>m \<in> set ms. m xs \<noteq> 0 \<Longrightarrow> 0 < first_match ms xs"
  by (auto simp: first_match_def find_None_iff split: option.split dest: find_member)

lemma run_pos [simp]: "0 < run P (x # xs) \<longleftrightarrow> P x"
  by (simp add: run_def)

interpretation gpt2: splitter match_gpt2
proof
  fix s :: string
  assume "s \<noteq> []"
  then obtain c r where s: "s = c # r" by (cases s) auto
  have "c_isspace c \<or> c_isalpha c \<or> c_isdigit c \<or> is_other c" by (auto simp: is_other_def)
  then have "0 < run c_isspace s \<or> 0 < re_spaced c_isalpha s \<or> 0 < re_spaced c_isdigit s \<or> 0 < re_spaced is_other s"
    by (auto simp: s re_spaced_def)
  then show "0 < match_gpt2 s" unfolding match_gpt2_def by (intro first_match_pos) auto
qed

interpretation qwen: splitter match_qwen
proof
  fix s :: string
  assume "s \<noteq> []"
  then obtain c r where s: "s = c # r" by (cases s) auto
  have "c_isspace c \<or> c_isalpha c \<or> c_isdigit c \<or> is_other c" by (auto simp: is_other_def)
  moreover have "0 < re_word s" if "c_isalpha c" using that by (simp add: s re_word_def)
  moreover have "0 < re_spaced is_other s" if "is_other c" using that by (simp add: s re_spaced_def)
  then have "0 < re_symbols s" if "is_other c" using that by (simp add: re_symbols_def Let_def)
  ultimately have "0 < run c_isspace s \<or> 0 < re_word s \<or> 0 < min 3 (run c_isdigit s) \<or> 0 < re_symbols s" by (auto simp: s)
  then show "0 < match_qwen s" unfolding match_qwen_def by (intro first_match_pos) auto
qed

interpretation unicode: splitter "\<lambda>cs. qwen_step mode (map cp cs)"
  by unfold_locales (auto simp: qwen_step_def intro!: first_match_pos)

lemma concat_PretokenizeQwenUnicode: "concat (PretokenizeQwenUnicode s mode) = s"
proof -
  have "concat (map cps_bytes xss) = cps_bytes (concat xss)" for xss by (induction xss) auto
  then show ?thesis by (simp add: PretokenizeQwenUnicode_def unicode.concat_chop unicode.chop_Nil Let_def)
qed

lemma concat_PretokenizeForByteBpe:
  "ResolveTokenizerFamily m \<noteq> GEMMA_SENTENCEPIECE \<Longrightarrow> concat (PretokenizeForByteBpe m s) = s"
  by (simp add: PretokenizeForByteBpe_def concat_PretokenizeQwenUnicode gpt2.concat_chop qwen.concat_chop gpt2.chop_Nil qwen.chop_Nil Let_def)

section \<open>The byte alphabet\<close>

lemma or_low_bits: "k < 64 \<Longrightarrow> (128 :: nat) OR k = 128 + k" "k < 32 \<Longrightarrow> (192 :: nat) OR k = 192 + k"
proof -
  have "list_all (\<lambda>k. (128 :: nat) OR k = 128 + k) [0..<64]" and "list_all (\<lambda>k. (192 :: nat) OR k = 192 + k) [0..<32]" by code_simp+
  then show "k < 64 \<Longrightarrow> (128 :: nat) OR k = 128 + k" "k < 32 \<Longrightarrow> (192 :: nat) OR k = 192 + k" unfolding list_all_iff set_upt by auto
qed

lemma chr8_nat: "chr8 w = char_of (unat w)"
  by (simp add: chr8_def unsigned_ucast_eq char_of_mod_256 take_bit_eq_mod)

lemma EncodeUtf8_small:
  assumes "n < 0x800"
  shows "EncodeUtf8 (word_of_nat n) = (if n < 128 then [char_of n] else [char_of (192 + n div 64), char_of (128 + n mod 64)])"
proof -
  have u: "unat (word_of_nat n :: u32) = n" using assms by (simp add: unsigned_of_nat take_bit_nat_eq_self)
  have "unat (0xC0 OR drop_bit 6 (word_of_nat n :: u32)) = 192 + n div 64"
    using assms or_low_bits(2) [of "n div 64"] by (simp add: unsigned_or_eq unat_drop_bit_eq u drop_bit_eq_div [of 6 n] less_mult_imp_div_less)
  moreover have "unat (0x80 OR (word_of_nat n AND 0x3F :: u32)) = 128 + n mod 64"
    using or_low_bits(1) [of "n mod 64"] take_bit_eq_mask [of 6 n]
    by (simp add: unsigned_or_eq unsigned_and_eq u take_bit_eq_mod mask_eq_exp_minus_1)
  ultimately show ?thesis using assms by (simp add: EncodeUtf8_def chr8_nat u word_le_nat_alt)
qed

lemma char_len_facts: "\<forall>c. Utf8CharLen c = (let n = of_char c :: nat in if n < 192 \<or> 248 \<le> n then 1 else if n < 224 then 2 else if n < 240 then 3 else 4)"
  by code_simp
lemma set_printable: "set printable_bytes = {33..<127} \<union> {161..<173} \<union> {174..<256}"
  by (simp add: printable_bytes_def Un_assoc del: upt_rec_numeral)

definition other_bytes :: "nat list" where
  "other_bytes = filter (\<lambda>b. b \<notin> set printable_bytes) [0..<256]"

lemma length_other_bytes: "length other_bytes = 68"
proof -
  have "set other_bytes = {0..<33} \<union> {127..<161} \<union> {173 :: nat}" by (auto simp: other_bytes_def set_printable)
  moreover have "card ({0..<33} \<union> {127..<161} \<union> {173 :: nat}) = 68" by (simp add: card_Un_disjoint)
  moreover have "distinct other_bytes" by (simp add: other_bytes_def)
  ultimately show ?thesis using distinct_card by metis
qed

lemma fold_update_nth:
  assumes "distinct (map fst ps)" and "\<forall>(b, c) \<in> set ps. b < length out"
  shows "(b, c) \<in> set ps \<Longrightarrow> fold (\<lambda>(b, c) out. out[b := f c]) ps out ! b = f c"
    and "b \<notin> fst ` set ps \<Longrightarrow> fold (\<lambda>(b, c) out. out[b := f c]) ps out ! b = out ! b"
    and "length (fold (\<lambda>(b, c) out. out[b := f c]) ps out) = length out"
  using assms
proof (induction ps arbitrary: out)
  case (Cons p ps)
  { case 1 then show ?case using Cons(1,2) [of "out[fst p := f (snd p)]"] by (cases p) force }
  { case 2 then show ?case using Cons(2) [of "out[fst p := f (snd p)]"] by (cases p) force }
  { case 3 then show ?case using Cons(3) [of "out[fst p := f (snd p)]"] by (cases p) force }
qed auto

text \<open>The code point of every byte.\<close>

definition byte_codes :: "(nat \<times> nat) list" where
  "byte_codes = zip (printable_bytes @ other_bytes) (printable_bytes @ map (\<lambda>n. 256 + n) [0..<length other_bytes])"

lemma byte_codes_facts:
  "map fst byte_codes = printable_bytes @ other_bytes" "distinct (map fst byte_codes)" "distinct (map snd byte_codes)"
  "fst ` set byte_codes = {0..<256}" "\<forall>(b, c) \<in> set byte_codes. c < 0x800"
proof -
  have d: "distinct (printable_bytes @ other_bytes)" by (auto simp: printable_bytes_def other_bytes_def)
  show f: "map fst byte_codes = printable_bytes @ other_bytes" by (simp add: byte_codes_def)
  show "distinct (map fst byte_codes)" unfolding f by (rule d)
  have s: "map snd byte_codes = printable_bytes @ map (\<lambda>n. 256 + n) [0..<length other_bytes]" by (simp add: byte_codes_def)
  show "distinct (map snd byte_codes)" unfolding s using d by (auto simp: distinct_map set_printable)
  have "set (map fst byte_codes) = {0..<256}" unfolding f by (auto simp: other_bytes_def set_printable)
  then show "fst ` set byte_codes = {0..<256}" by simp
  have "\<forall>c \<in> set (map snd byte_codes). c < 0x800" unfolding s by (auto simp: set_printable length_other_bytes)
  then show "\<forall>(b, c) \<in> set byte_codes. c < 0x800" by auto
qed

lemma ByteToUnicode_code: "ByteToUnicode = fold (\<lambda>(b, c) out. out[b := EncodeUtf8 (word_of_nat c)]) byte_codes (replicate 256 [])"
  by (simp add: ByteToUnicode_def byte_codes_def other_bytes_def Let_def)

lemma byte_symbol_code:
  assumes "(b, c) \<in> set byte_codes"
  shows "ByteToUnicode ! b = EncodeUtf8 (word_of_nat c)"
proof -
  have "b' < 256" if "(b', c') \<in> set byte_codes" for b' c' using byte_codes_facts(4) that by (force simp: image_def)
  then show ?thesis
    unfolding ByteToUnicode_code by (intro fold_update_nth(1) byte_codes_facts assms) auto
qed

lemma EncodeUtf8_inj:
  assumes "m < 0x800" "n < 0x800" "EncodeUtf8 (word_of_nat m) = EncodeUtf8 (word_of_nat n)"
  shows "m = n"
proof -
  have c: "a = b" if "char_of a = (char_of b :: char)" "a < 256" "b < 256" for a b :: nat
    using that of_char_of [of a] of_char_of [of b] by simp
  have "m div 64 < 32" "n div 64 < 32" "m mod 64 < 64" "n mod 64 < 64" using assms(1,2) by auto
  then have "m div 64 = n div 64 \<and> m mod 64 = n mod 64 \<or> m = n"
    using assms by (auto simp: EncodeUtf8_small split: if_splits dest!: c)
  then show ?thesis by (metis div_mult_mod_eq)
qed

lemma ByteToUnicode_distinct: "inj_on (\<lambda>b. ByteToUnicode ! b) {0..<256}"
proof (rule inj_onI)
  fix b b' :: nat
  assume b: "b \<in> {0..<256}" "b' \<in> {0..<256}" and eq: "ByteToUnicode ! b = ByteToUnicode ! b'"
  obtain k k' where k: "(b, k) \<in> set byte_codes" "(b', k') \<in> set byte_codes" using b byte_codes_facts(4) by (metis imageE prod.collapse)
  then have "k = k'" using eq byte_codes_facts(5) byte_symbol_code by (intro EncodeUtf8_inj) force+
  then have "(b, k) = (b', k')" using byte_codes_facts(3) k by (metis (no_types, lifting) distinct_map inj_onD snd_conv)
  then show "b = b'" by simp
qed

lemma byte_symbol_facts:
  "byte_symbol c \<noteq> []" "Utf8CharLen (hd (byte_symbol c)) = length (byte_symbol c)" "UnicodeToByte (byte_symbol c) = Some c"
proof -
  have code: "\<exists>k. (of_char d, k) \<in> set byte_codes" for d :: char
    using byte_codes_facts(4) by (metis (no_types, lifting) atLeastLessThan_iff imageE nat_of_char_less_256 prod.collapse zero_le)
  then obtain k where k: "(of_char c, k) \<in> set byte_codes" by blast
  have k8: "k < 0x800" using byte_codes_facts(5) k by auto
  have e: "byte_symbol c = (if k < 128 then [char_of k] else [char_of (192 + k div 64), char_of (128 + k mod 64)])"
    using byte_symbol_code [OF k] EncodeUtf8_small [OF k8] by simp
  have d: "k div 64 < 32" using k8 by auto
  show "byte_symbol c \<noteq> []" "Utf8CharLen (hd (byte_symbol c)) = length (byte_symbol c)"
    using d by (simp_all add: e char_len_facts [rule_format] Let_def)
  show "UnicodeToByte (byte_symbol c) = Some c"
    unfolding UnicodeToByte_def using ByteToUnicode_distinct nat_of_char_less_256 [of c]
    by (intro map_of_is_SomeI) (auto simp: distinct_map comp_def intro: image_eqI [of _ _ "of_char c"])
qed

section \<open>Merging\<close>

definition enc :: "string \<Rightarrow> string" where
  "enc cs = concat (map byte_symbol cs)"

lemma enc_simps [simp]: "enc [] = []" "enc (c # cs) = byte_symbol c @ enc cs" "enc (cs @ ds) = enc cs @ enc ds"
  by (simp_all add: enc_def)

lemma split_enc: "SplitUtf8Units (enc cs) = map byte_symbol cs"
proof (induction cs)
  case Nil
  then show ?case by (simp add: SplitUtf8Units.simps)
next
  case (Cons c cs)
  then show ?case using byte_symbol_facts(1,2) [of c] by (simp add: SplitUtf8Units.simps [of "byte_symbol c @ _"] Let_def)
qed

lemma unit_bytes_enc: "concat (map unit_bytes (SplitUtf8Units (enc cs))) = cs"
  by (simp add: split_enc unit_bytes_def byte_symbol_facts(3) comp_def)

lemma merge_at_split:
  assumes "Suc i < length xs"
  obtains us x y vs where "xs = us @ x # y # vs" "length us = i" "merge_at i xs = us @ (x @ y) # vs" "xs ! i = x" "xs ! Suc i = y"
proof -
  have "xs = take i xs @ xs ! i # xs ! Suc i # drop (Suc (Suc i)) xs"
    using assms by (metis Cons_nth_drop_Suc Suc_lessD append_take_drop_id)
  then show ?thesis using assms by (intro that [of "take i xs" "xs ! i" "xs ! Suc i" "drop (Suc (Suc i)) xs"]) (auto simp: merge_at_def)
qed

lemma concat_merge_at: "Suc i < length xs \<Longrightarrow> concat (merge_at i xs) = concat xs"
  by (erule merge_at_split) simp

lemma merge_at_enc: "Suc i < length css \<Longrightarrow> merge_at i (map enc css) = map enc (merge_at i css)"
  by (simp add: merge_at_def take_map drop_map)

text \<open>The scan finds the leftmost of the pairs of lowest rank.\<close>

definition first_lowest :: "token_model \<Rightarrow> string list \<Rightarrow> nat \<Rightarrow> int \<times> int \<Rightarrow> bool" where
  "first_lowest m xs n = (\<lambda>(best, pos).
     if pos < 0 then best = 2147483647 \<and> (\<forall>i < n. \<forall>r. pair_rank m xs i = Some r \<longrightarrow> 2147483647 \<le> r)
     else pos < int n \<and> pair_rank m xs (nat pos) = Some best \<and> best < 2147483647 \<and>
       (\<forall>i < n. \<forall>r. pair_rank m xs i = Some r \<longrightarrow> best \<le> r \<and> (int i < pos \<longrightarrow> best < r)))"

lemma consider_pair_lowest: "first_lowest m xs n st \<Longrightarrow> first_lowest m xs (Suc n) (consider_pair m xs n st)"
  by (cases st; cases "pair_rank m xs n") (force simp: first_lowest_def consider_pair_def less_Suc_eq split: if_splits)+

lemma best_merge_lowest:
  "first_lowest m xs (length xs - 1) (fold (consider_pair m xs) [0..<length xs - 1] (2147483647, -1))"
proof -
  have "first_lowest m xs n (fold (consider_pair m xs) [0..<n] (2147483647, -1))" for n
    by (induction n) (simp add: first_lowest_def, simp add: consider_pair_lowest)
  then show ?thesis .
qed

text \<open>One step of byte-pair encoding: the pair of lowest rank, the leftmost one, becomes one symbol.\<close>

inductive bpe_step :: "token_model \<Rightarrow> string list \<Rightarrow> string list \<Rightarrow> bool" for m where
  bpe: "Suc i < length xs \<Longrightarrow> pair_rank m xs i = Some r \<Longrightarrow>
    (\<forall>j s. Suc j < length xs \<longrightarrow> pair_rank m xs j = Some s \<longrightarrow> r \<le> s \<and> (j < i \<longrightarrow> r < s)) \<Longrightarrow> bpe_step m xs (merge_at i xs)"

definition ranks_ok :: "token_model \<Rightarrow> bool" where
  "ranks_ok m \<longleftrightarrow> list_all (\<lambda>(_, r). r < 2147483647) (bpe_merge_ranks m)"

lemma best_merge_step:
  assumes "0 \<le> best_merge m xs"
  shows "Suc (nat (best_merge m xs)) < length xs" "bpe_step m xs (merge_at (nat (best_merge m xs)) xs)"
    "\<exists>r. pair_rank m xs (nat (best_merge m xs)) = Some r"
proof -
  obtain b p where st: "fold (consider_pair m xs) [0..<length xs - 1] (2147483647, -1) = (b, p)" by fastforce
  then have p: "best_merge m xs = p" "0 \<le> p" using assms by (simp_all add: best_merge_def)
  have l: "p < int (length xs - 1)" "pair_rank m xs (nat p) = Some b"
    "\<forall>i < length xs - 1. \<forall>r. pair_rank m xs i = Some r \<longrightarrow> b \<le> r \<and> (int i < p \<longrightarrow> b < r)"
    using best_merge_lowest [of m xs] p(2) unfolding st by (auto simp: first_lowest_def)
  show "Suc (nat (best_merge m xs)) < length xs" using l(1) p by simp
  then show "bpe_step m xs (merge_at (nat (best_merge m xs)) xs)"
    using l(2,3) p by (intro bpe [where r = b]) (auto simp: less_diff_conv)
  show "\<exists>r. pair_rank m xs (nat (best_merge m xs)) = Some r" using l(2) p by auto
qed

lemma no_best_merge:
  assumes "best_merge m xs < 0" and "ranks_ok m"
  shows "\<not> bpe_step m xs ys"
proof
  assume "bpe_step m xs ys"
  then obtain i r where i: "Suc i < length xs" "pair_rank m xs i = Some r" by cases auto
  obtain b p where st: "fold (consider_pair m xs) [0..<length xs - 1] (2147483647, -1) = (b, p)" by fastforce
  then have "2147483647 \<le> r" using best_merge_lowest [of m xs] assms(1) i by (auto simp: first_lowest_def best_merge_def less_diff_conv)
  moreover have "r < 2147483647" using map_of_SomeD [OF i(2)] assms(2) by (auto simp: ranks_ok_def list_all_iff)
  ultimately show False by simp
qed

lemma merge_loop_normal_form:
  assumes "ranks_ok m"
  shows "(bpe_step m)\<^sup>*\<^sup>* xs (merge_loop m xs) \<and> (\<forall>ys. \<not> bpe_step m (merge_loop m xs) ys)"
  using assms
proof (induction m xs rule: merge_loop.induct)
  case (1 m xs)
  show ?case
  proof (cases "length xs \<le> 1 \<or> best_merge m xs < 0")
    case True
    then have "merge_loop m xs = xs" by (simp add: merge_loop.simps)
    moreover have "\<not> bpe_step m xs ys" for ys using True no_best_merge [OF _ 1(2), of xs ys] by (auto elim: bpe_step.cases)
    ultimately show ?thesis by simp
  next
    case False
    then have "merge_loop m xs = merge_loop m (merge_at (nat (best_merge m xs)) xs)" by (subst merge_loop.simps) simp
    then show ?thesis using 1(1) [OF False 1(2)] best_merge_step(2) [of m xs] False by (auto intro: converse_rtranclp_into_rtranclp)
  qed
qed

text \<open>On encoded bytes a merge acts on the bytes; every symbol of the result is an original one or the join of a ranked pair.\<close>

definition joined :: "token_model \<Rightarrow> string \<Rightarrow> bool" where
  "joined m s \<longleftrightarrow> (\<exists>l r. s = l @ r \<and> map_of (bpe_merge_ranks m) (MakeMergeKey l r) \<noteq> None)"

lemma merge_loop_enc:
  "\<exists>dss. merge_loop m (map enc css) = map enc dss \<and> concat dss = concat css \<and> (\<forall>ds \<in> set dss. ds \<in> set css \<or> joined m (enc ds))"
proof (induction "length css" arbitrary: css rule: less_induct)
  case less
  let ?xs = "map enc css"
  show ?case
  proof (cases "length ?xs \<le> 1 \<or> best_merge m ?xs < 0")
    case True
    then show ?thesis by (auto simp: merge_loop.simps)
  next
    case False
    let ?i = "nat (best_merge m ?xs)"
    have i: "Suc ?i < length css" using best_merge_step(1) [of m ?xs] False by simp
    obtain r where r: "pair_rank m ?xs ?i = Some r" using best_merge_step(3) [of m ?xs] False by auto
    have "joined m (enc ((css ! ?i) @ css ! Suc ?i))" using r i by (auto simp: joined_def)
    then have j: "ds \<in> set css \<or> joined m (enc ds)" if "ds \<in> set (merge_at ?i css)" for ds
      using that by (auto simp: merge_at_def dest: in_set_takeD in_set_dropD)
    have "length (merge_at ?i css) < length css" using i by (simp add: length_merge_at)
    from less [OF this] obtain dss where "merge_loop m (map enc (merge_at ?i css)) = map enc dss" "concat dss = concat (merge_at ?i css)"
      "\<forall>ds \<in> set dss. ds \<in> set (merge_at ?i css) \<or> joined m (enc ds)" by blast
    moreover have "merge_loop m ?xs = merge_loop m (merge_at ?i ?xs)" using False by (subst merge_loop.simps) simp
    ultimately show ?thesis using j i by (metis concat_merge_at merge_at_enc)
  qed
qed

section \<open>Back to the text\<close>

text \<open>
  What a byte-level vocabulary must provide: the two directions of the vocabulary agree, every byte has a token, and neither these nor
  the tokens that merges can produce are of the kinds that detokenization hides or rewrites.
\<close>

definition plain_token :: "token_model \<Rightarrow> string \<Rightarrow> int \<Rightarrow> bool" where
  "plain_token m t i \<longleftrightarrow> \<not> special_type m i \<and> \<not> IsLikelyControlTokenLiteral t \<and> \<not> (length t = 6 \<and> take 3 t = ''<0x'') \<and>
     i \<notin> {bos_token_id m, eos_token_id m, sep_token_id m, pad_token_id m}"

definition vocab_ok :: "token_model \<Rightarrow> bool" where
  "vocab_ok m \<longleftrightarrow> list_all (\<lambda>(t, i). 0 \<le> i \<and> i < int (length (vocab_tokens m)) \<and> vocab_tokens m ! nat i = t) (token_to_id m)"

definition byte_vocab :: "token_model \<Rightarrow> bool" where
  "byte_vocab m \<longleftrightarrow>
     ResolveTokenizerFamily m \<in> {GPT2_BYTE_BPE, QWEN_BYTE_BPE, QWEN35_UNICODE_BPE, LFM2_BYTE_BPE, GLM_BYTE_BPE} \<and>
     md_variant (DescribeModel m) \<noteq> MV_GEMMA4 \<and> bpe_merge_ranks m \<noteq> [] \<and> vocab_ok m \<and>
     (\<forall>c. \<exists>i. token_id m (byte_symbol c) = Some i \<and> plain_token m (byte_symbol c) i) \<and>
     (\<forall>s i. joined m s \<longrightarrow> token_id m s = Some i \<longrightarrow> plain_token m s i)"

lemma byte_level:
  assumes "byte_vocab m"
  shows "IsByteLevelBpeTokenizer m" "ResolveTokenizerFamily m \<noteq> GEMMA_SENTENCEPIECE" "\<not> UseSentencePieceUnigramTokenizer m"
    "ResolveTokenizerFamily m \<noteq> BERT_WORDPIECE" "ResolveTokenizerFamily m \<noteq> BERT_BPE"
  using assms by (auto simp: byte_vocab_def IsByteLevelBpeTokenizer_def UseSentencePieceUnigramTokenizer_def)

lemma byte_vocabD:
  assumes "byte_vocab m"
  shows "vocab_ok m" "md_variant (DescribeModel m) \<noteq> MV_GEMMA4" "bpe_merge_ranks m \<noteq> []"
    "\<And>c. \<exists>i. token_id m (byte_symbol c) = Some i \<and> plain_token m (byte_symbol c) i"
    "\<And>s i. joined m s \<Longrightarrow> token_id m s = Some i \<Longrightarrow> plain_token m s i"
  using assms unfolding byte_vocab_def by blast+

lemma vocab_lookup:
  assumes "vocab_ok m" and "token_id m t = Some i"
  shows "0 \<le> i \<and> i < int (length (vocab_tokens m)) \<and> vocab_tokens m ! nat i = t"
  using map_of_SomeD [OF assms(2)] assms(1) by (auto simp: vocab_ok_def list_all_iff)

lemma detokenize_plain:
  assumes "byte_vocab m" and "token_id m (enc cs) = Some i" and "plain_token m (enc cs) i"
  shows "DetokenizeImpl m i = cs"
proof -
  note v = vocab_lookup [OF byte_vocabD(1) [OF assms(1)] assms(2)]
  have "\<not> IsGemma4GenerationChannelToken m (enc cs)" using byte_vocabD(2) [OF assms(1)] by (simp add: IsGemma4GenerationChannelToken_def)
  then have "DetokenizeImpl m i = concat (map (\<lambda>u. case UnicodeToByte u of Some c \<Rightarrow> [c] | None \<Rightarrow> if u = sp_space then '' '' else u)
      (SplitUtf8Units (enc cs)))"
    using v assms(3) byte_level(1) [OF assms(1)] unfolding DetokenizeImpl_def Let_def plain_token_def by auto
  then show ?thesis by (simp add: split_enc byte_symbol_facts(3) comp_def)
qed

text \<open>The text an identifier contributes to the output.\<close>

definition id_text :: "token_model \<Rightarrow> int \<Rightarrow> string" where
  "id_text m i = (if i = bos_token_id m \<or> i = eos_token_id m \<or> i = sep_token_id m \<or> i = pad_token_id m then [] else DetokenizeImpl m i)"

lemma DetokenizeMultiple_id_text: "stream_token_pieces m = [] \<Longrightarrow> DetokenizeMultiple m ids = concat (map (id_text m) ids)"
  unfolding DetokenizeMultiple_def by (rule arg_cong [of _ _ concat], rule map_cong) (simp_all add: id_text_def Detokenize_def)

lemma id_text_plain: "byte_vocab m \<Longrightarrow> token_id m (enc cs) = Some i \<Longrightarrow> plain_token m (enc cs) i \<Longrightarrow> id_text m i = cs"
  using detokenize_plain by (auto simp: id_text_def plain_token_def)

lemma fallback_text:
  assumes "byte_vocab m"
  shows "concat (map (id_text m) (AppendByteFallbackTokens m cs)) = cs"
proof (induction cs)
  case (Cons c cs)
  obtain i where "token_id m (byte_symbol c) = Some i" "plain_token m (byte_symbol c) i" using byte_vocabD(4) [OF assms] by blast
  moreover have "id_text m i = [c]" using calculation id_text_plain [OF assms, of "[c]" i] by simp
  ultimately show ?case using Cons by (simp add: AppendByteFallbackTokens_def List.map_filter_simps fallback_id_def)
qed (simp add: AppendByteFallbackTokens_def List.map_filter_simps)

lemma symbol_text:
  assumes "byte_vocab m" and "length cs = 1 \<or> joined m (enc cs)"
  shows "concat (map (id_text m) (symbol_ids m (enc cs))) = cs"
proof (cases "token_id m (enc cs)")
  case None
  then show ?thesis using fallback_text [OF assms(1)] byte_level(1) [OF assms(1)] by (simp add: symbol_ids_def unit_bytes_enc)
next
  case (Some i)
  have "plain_token m (enc cs) i"
    using assms(2)
  proof
    assume "length cs = 1"
    then obtain c where "cs = [c]" by (cases cs) auto
    then show ?thesis using Some byte_vocabD(4) [OF assms(1), of c] by auto
  next
    assume "joined m (enc cs)"
    then show ?thesis using Some byte_vocabD(5) [OF assms(1)] by blast
  qed
  then show ?thesis using Some id_text_plain [OF assms(1) Some] by (simp add: symbol_ids_def)
qed

lemma piece_text:
  assumes "byte_vocab m"
  shows "concat (map (id_text m) (AppendSymbolsToIds m (MergeWithBpeRanks m (EncodePieceSymbols m p)))) = p"
proof -
  let ?css = "map (\<lambda>c. [c]) p"
  have e: "EncodePieceSymbols m p = map enc ?css" using byte_level(2) [OF assms] by (simp add: EncodePieceSymbols_def comp_def)
  have "\<exists>dss. MergeWithBpeRanks m (map enc ?css) = map enc dss \<and> concat dss = p \<and> (\<forall>ds \<in> set dss. length ds = 1 \<or> joined m (enc ds))"
  proof (cases "length p < 2 \<or> bpe_merge_ranks m = []")
    case True
    then show ?thesis by (intro exI [of _ ?css]) (auto simp: MergeWithBpeRanks_def)
  next
    case False
    obtain dss where d: "merge_loop m (map enc ?css) = map enc dss" "concat dss = concat ?css" "\<forall>ds \<in> set dss. ds \<in> set ?css \<or> joined m (enc ds)"
      using merge_loop_enc [of m ?css] by blast
    have "concat ?css = p" by (induction p) simp_all
    moreover have "length ds = 1 \<or> joined m (enc ds)" if "ds \<in> set dss" for ds using d(3) that by auto
    ultimately show ?thesis using d(1,2) False unfolding MergeWithBpeRanks_def by (intro exI [of _ dss]) simp
  qed
  then obtain dss where d: "MergeWithBpeRanks m (EncodePieceSymbols m p) = map enc dss" "concat dss = p"
    "\<forall>ds \<in> set dss. length ds = 1 \<or> joined m (enc ds)" unfolding e by blast
  have "concat (map (id_text m) (AppendSymbolsToIds m (map enc dss))) = concat dss"
    using d(3) by (induction dss) (simp_all add: AppendSymbolsToIds_def symbol_text [OF assms])
  then show ?thesis by (simp add: d(1,2))
qed

lemma span_text:
  assumes "byte_vocab m"
  shows "\<exists>ids. tokenize_plain_span lib m s = Inr ids \<and> concat (map (id_text m) ids) = s"
proof (cases "s = []")
  case False
  have "concat (map (id_text m) (concat (map (\<lambda>p. AppendSymbolsToIds m (MergeWithBpeRanks m (EncodePieceSymbols m p))) ps))) = concat ps" for ps
    by (induction ps) (simp_all add: piece_text [OF assms])
  then show ?thesis using False byte_level [OF assms] concat_PretokenizeForByteBpe [of m s] byte_vocabD(3) [OF assms]
    by (simp add: tokenize_plain_span_def)
qed (simp add: tokenize_plain_span_def)

section \<open>Special tokens\<close>

fun segment_text :: "segment \<Rightarrow> string" where
  "segment_text (Plain s) = s"
| "segment_text (Special s) = s"

fun plain_text :: "segment \<Rightarrow> string" where
  "plain_text (Plain s) = s"
| "plain_text (Special s) = []"

lemma segments_tile:
  "span_start \<le> cursor \<Longrightarrow> cursor \<le> length s \<Longrightarrow> concat (map segment_text (split_specials m s cursor span_start)) = drop span_start s"
proof (induction m s cursor span_start rule: split_specials.induct)
  case (1 m s cursor span_start)
  show ?case
  proof (cases "length s \<le> cursor")
    case True
    then show ?thesis by (subst split_specials.simps) simp
  next
    case False
    show ?thesis
    proof (cases "special_end m s cursor")
      case None
      then show ?thesis using 1 False by (subst split_specials.simps) simp
    next
      case (Some e)
      note b = special_end_bounds(1,2) [OF Some]
      have "take (cursor - span_start) (drop span_start s) @ take (e - cursor) (drop cursor s) @ drop e s = drop span_start s"
        using b 1(3) append_take_drop_id [of "cursor - span_start" "drop span_start s"] append_take_drop_id [of "e - cursor" "drop cursor s"]
        by (simp add: drop_drop)
      then show ?thesis using 1(2) [OF False Some] False Some b by (subst split_specials.simps) simp
    qed
  qed
qed

lemma specials_atomic: "Special t \<in> set (split_specials m s cursor span_start) \<Longrightarrow> IsAtomicSpecialTokenLiteral m t"
proof (induction m s cursor span_start rule: split_specials.induct)
  case (1 m s cursor span_start)
  then show ?case
    using special_end_bounds(3) [of m s cursor]
    by (subst (asm) (3) split_specials.simps) (auto split: if_splits option.splits)
qed

lemma special_text:
  assumes "byte_vocab m" and "IsAtomicSpecialTokenLiteral m t"
  shows "\<exists>i. token_id m t = Some i \<and> id_text m i = []"
proof -
  obtain i where i: "token_id m t = Some i" "special_type m i \<or> IsLikelyControlTokenLiteral t"
    using assms(2) by (auto simp: IsAtomicSpecialTokenLiteral_def split: if_splits option.splits)
  have "vocab_tokens m ! nat i = t" using vocab_lookup [OF byte_vocabD(1) [OF assms(1)] i(1)] by simp
  then show ?thesis using i byte_vocabD(2) [OF assms(1)] by (auto simp: id_text_def DetokenizeImpl_def IsGemma4GenerationChannelToken_def Let_def)
qed

lemma segments_text:
  assumes "byte_vocab m" and "\<forall>t. Special t \<in> set segs \<longrightarrow> IsAtomicSpecialTokenLiteral m t"
  shows "\<exists>ids. collect_ids (map (segment_ids lib m) segs) = Inr ids \<and> concat (map (id_text m) ids) = concat (map plain_text segs)"
  using assms(2)
proof (induction segs)
  case (Cons g segs)
  then obtain ids where ids: "collect_ids (map (segment_ids lib m) segs) = Inr ids" "concat (map (id_text m) ids) = concat (map plain_text segs)"
    by auto
  show ?case
  proof (cases g)
    case (Plain s)
    then show ?thesis using span_text [OF assms(1), of lib s] ids by auto
  next
    case (Special t)
    then show ?thesis using special_text [OF assms(1), of t] Cons(2) ids by auto
  qed
qed simp

end
