(* ===== verification/Segmentation.thy ===== *)
theory Segmentation
  imports Tokenizer Float_Mono Tokenizer_Laws
begin

text \<open>
  The segmentations without merges: the unigram tables hold the best segmentation of every suffix, word pieces are matched longest
  first, and the legacy merge by vocabulary keeps the bytes but misses merges.
\<close>

section \<open>Unigram segmentation\<close>

text \<open>
  The reference: a text is cut into tokens, the score is the sum of the token scores from the right, rounded after every addition. The
  unknown token stands for one code point, only where no token leads on.
\<close>

inductive reach :: "token_model \<Rightarrow> int \<Rightarrow> utf8_codepoint list \<Rightarrow> bool" for m unk where
  reach_end: "reach m unk []"
| reach_token: "0 < e \<Longrightarrow> e \<le> length cs \<Longrightarrow> token_id m (prefix_bytes cs e) = Some i \<Longrightarrow> reach m unk (drop e cs) \<Longrightarrow> reach m unk cs"
| reach_unknown: "cs \<noteq> [] \<Longrightarrow> 0 \<le> unk \<Longrightarrow> reach m unk (tl cs) \<Longrightarrow> reach m unk cs"

definition stuck :: "token_model \<Rightarrow> int \<Rightarrow> utf8_codepoint list \<Rightarrow> bool" where
  "stuck m unk cs \<longleftrightarrow> \<not> (\<exists>e. 0 < e \<and> e \<le> length cs \<and> HasToken m (prefix_bytes cs e) \<and> reach m unk (drop e cs))"

inductive segments :: "token_model \<Rightarrow> int \<Rightarrow> utf8_codepoint list \<Rightarrow> int list \<Rightarrow> rat \<Rightarrow> bool" for m unk where
  seg_end: "segments m unk [] [] 0"
| seg_token: "0 < e \<Longrightarrow> e \<le> length cs \<Longrightarrow> token_id m (prefix_bytes cs e) = Some i \<Longrightarrow> segments m unk (drop e cs) ids v \<Longrightarrow>
    segments m unk cs (i # ids) (f32 (GetSentencePieceScore m i + v))"
| seg_unknown: "cs \<noteq> [] \<Longrightarrow> 0 \<le> unk \<Longrightarrow> stuck m unk cs \<Longrightarrow> segments m unk (tl cs) ids v \<Longrightarrow>
    segments m unk cs (unk # ids) (f32 (GetSentencePieceScore m unk + v))"

lemma segments_reach: "segments m unk cs ids v \<Longrightarrow> reach m unk cs"
  by (induction rule: segments.induct) (auto intro: reach.intros)

lemma drop_unigram_cells: "k \<le> length cs \<Longrightarrow> drop k (unigram_cells m limit unk cs) = unigram_cells m limit unk (drop k cs)"
proof (induction cs arbitrary: k)
  case (Cons c cs)
  then show ?case by (cases k) (simp_all add: Let_def)
qed simp

lemma length_unigram_cells [simp]: "length (unigram_cells m limit unk cs) = Suc (length cs)"
  by (induction cs) (simp_all add: Let_def)

lemma nth_unigram_cells: "k \<le> length cs \<Longrightarrow> unigram_cells m limit unk cs ! k = hd (unigram_cells m limit unk (drop k cs))"
  by (simp flip: drop_unigram_cells add: hd_drop_conv_nth)

text \<open>What one token offers at the front of the rest.\<close>

definition offer :: "token_model \<Rightarrow> utf8_codepoint list \<Rightarrow> cell list \<Rightarrow> nat \<Rightarrow> (int \<times> rat) option" where
  "offer m cs cells e =
     (case (token_id m (prefix_bytes cs e), c_best (cells ! (e - 1))) of
        (Some i, Some b) \<Rightarrow> Some (i, f32 (GetSentencePieceScore m i + b)) | _ \<Rightarrow> None)"

lemma unigram_try_offer:
  "unigram_try m cs cells e c = (case offer m cs cells e of
     Some (i, v) \<Rightarrow> if (case c_best c of None \<Rightarrow> True | Some w \<Rightarrow> w < v) then \<lparr>c_best = Some v, c_id = i, c_next = e\<rparr> else c
   | None \<Rightarrow> c)"
  by (auto simp: unigram_try_def offer_def Let_def split: option.split)

text \<open>The inner loop keeps the best offer seen.\<close>

definition best_of :: "(nat \<Rightarrow> (int \<times> rat) option) \<Rightarrow> nat set \<Rightarrow> cell \<Rightarrow> bool" where
  "best_of f E c \<longleftrightarrow> (case c_best c of
     None \<Rightarrow> c_id c = -1 \<and> (\<forall>e \<in> E. f e = None)
   | Some v \<Rightarrow> c_next c \<in> E \<and> f (c_next c) = Some (c_id c, v) \<and> (\<forall>e \<in> E. \<forall>i w. f e = Some (i, w) \<longrightarrow> w \<le> v))"

lemma best_of_step: "best_of (offer m cs cells) E c \<Longrightarrow> best_of (offer m cs cells) (insert e E) (unigram_try m cs cells e c)"
  by (cases "offer m cs cells e"; cases "c_best c")
    (fastforce simp: best_of_def unigram_try_offer split: prod.splits)+

lemma best_of_fold: "best_of (offer m cs cells) E c \<Longrightarrow> best_of (offer m cs cells) (set es \<union> E) (fold (unigram_try m cs cells) es c)"
proof (induction es arbitrary: E c)
  case (Cons e es)
  from Cons.IH [OF best_of_step [OF Cons.prems, of e]] show ?case by simp
qed simp

lemma max_fold_le: "t \<in> set ts \<Longrightarrow> length t \<le> fold (\<lambda>t k. max k (length t)) ts k"
proof -
  have acc: "k \<le> fold (\<lambda>t k. max k (length t)) ts k" for ts :: "'a list list" and k
    by (induction ts arbitrary: k) (auto intro: order_trans [OF max.cobounded1])
  show "t \<in> set ts \<Longrightarrow> ?thesis"
  proof (induction ts arbitrary: k)
    case (Cons u ts)
    show ?case
    proof (cases "t = u")
      case True
      then show ?thesis using order_trans [OF max.cobounded2 acc [of "max k (length t)" ts]] by simp
    next
      case False
      then show ?thesis using Cons by simp
    qed
  qed simp
qed

lemma in_takeWhile_upt: "a \<le> e \<Longrightarrow> e < b \<Longrightarrow> (\<And>j. a \<le> j \<Longrightarrow> j \<le> e \<Longrightarrow> P j) \<Longrightarrow> e \<in> set (takeWhile P [a..<b])"
proof -
  assume e: "a \<le> e" "e < b" and P: "\<And>j. a \<le> j \<Longrightarrow> j \<le> e \<Longrightarrow> P j"
  have "[a..<b] = [a..<Suc e] @ [Suc e..<b]" using upt_add_eq_append [of a "Suc e" "b - Suc e"] e by simp
  moreover have "\<forall>j \<in> set [a..<Suc e]. P j" using P by auto
  ultimately have "takeWhile P [a..<b] = [a..<Suc e] @ takeWhile P [Suc e..<b]" by (metis takeWhile_append2)
  then show ?thesis using e by simp
qed

lemma token_in_prefix_ends:
  assumes "vocab_ok m" and "0 < e" and "e \<le> length cs" and "token_id m (prefix_bytes cs e) = Some i"
  shows "e \<in> set (prefix_ends (max_token_bytes m) cs)"
proof -
  have "prefix_bytes cs e \<in> set (vocab_tokens m)"
    using vocab_lookup [OF assms(1,4)] by (metis int_nat_eq nth_mem of_nat_less_iff)
  then have m: "length (prefix_bytes cs e) \<le> max_token_bytes m" unfolding max_token_bytes_def by (rule max_fold_le)
  have "length (prefix_bytes cs j) \<le> max_token_bytes m" if "j \<le> e" for j
  proof -
    have "prefix_bytes cs e = prefix_bytes cs j @ cps_bytes (take (e - j) (drop j cs))"
      using that take_add [of j "e - j" cs] by (simp add: prefix_bytes_def)
    then show ?thesis using m by simp
  qed
  then show ?thesis unfolding prefix_ends_def using assms(2,3) by (intro in_takeWhile_upt) auto
qed

lemma prefix_ends_bounds: "e \<in> set (prefix_ends limit cs) \<Longrightarrow> 0 < e \<and> e \<le> length cs"
  by (auto simp: prefix_ends_def dest!: set_takeWhileD)

definition optimal :: "token_model \<Rightarrow> int \<Rightarrow> utf8_codepoint list \<Rightarrow> cell list \<Rightarrow> bool" where
  "optimal m unk cs cells \<longleftrightarrow> (case c_best (hd cells) of
     None \<Rightarrow> \<not> reach m unk cs \<and> c_id (hd cells) < 0
   | Some v \<Rightarrow> segments m unk cs (read_cells cells) v \<and> (\<forall>ids w. segments m unk cs ids w \<longrightarrow> w \<le> v) \<and> (cs \<noteq> [] \<longrightarrow> 0 \<le> c_id (hd cells)))"

abbreviation table :: "token_model \<Rightarrow> int \<Rightarrow> utf8_codepoint list \<Rightarrow> cell list" where
  "table m unk \<equiv> unigram_cells m (max_token_bytes m) unk"

text \<open>The cell of the front position before the unknown token is considered.\<close>

definition front :: "token_model \<Rightarrow> int \<Rightarrow> utf8_codepoint list \<Rightarrow> cell" where
  "front m unk cs = fold (unigram_try m cs (table m unk (tl cs))) (prefix_ends (max_token_bytes m) cs)
     \<lparr>c_best = None, c_id = -1, c_next = length cs\<rparr>"

lemma table_front:
  assumes "cs \<noteq> []"
  shows "table m unk cs = (case c_best (hd (table m unk (tl cs))) of
      Some b \<Rightarrow> if c_id (front m unk cs) < 0 \<and> 0 \<le> unk
                then \<lparr>c_best = Some (f32 (GetSentencePieceScore m unk + b)), c_id = unk, c_next = 1\<rparr> else front m unk cs
    | None \<Rightarrow> front m unk cs) # table m unk (tl cs)"
  using assms by (cases cs) (auto simp: Let_def unigram_cell_def front_def split: option.split)

lemma front_best: "best_of (offer m cs (table m unk (tl cs))) (set (prefix_ends (max_token_bytes m) cs)) (front m unk cs)"
  using best_of_fold [of m cs "table m unk (tl cs)" "{}"] unfolding front_def by (simp add: best_of_def)

lemma table_tl_nth: "0 < e \<Longrightarrow> e \<le> length cs \<Longrightarrow> table m unk (tl cs) ! (e - 1) = hd (table m unk (drop e cs))"
  by (cases cs; cases e) (auto simp: nth_unigram_cells)

lemma offer_reach:
  assumes "optimal m unk (drop e cs) (table m unk (drop e cs))"
    and "0 < e" "e \<le> length cs" "token_id m (prefix_bytes cs e) = Some i" "reach m unk (drop e cs)"
  shows "\<exists>u. offer m cs (table m unk (tl cs)) e = Some (i, f32 (GetSentencePieceScore m i + u)) \<and> c_best (hd (table m unk (drop e cs))) = Some u"
  using assms table_tl_nth [OF assms(2,3)] by (auto simp: optimal_def offer_def split: option.splits)

lemma stuck_front_optimal:
  assumes ok: "vocab_ok m" and ne: "cs \<noteq> []" and None: "c_best (front m unk cs) = None"
    and sub: "\<And>e. 0 < e \<Longrightarrow> e \<le> length cs \<Longrightarrow> optimal m unk (drop e cs) (table m unk (drop e cs))"
  shows "optimal m unk cs (table m unk cs)"
proof -
  have none: "\<forall>e \<in> set (prefix_ends (max_token_bytes m) cs). offer m cs (table m unk (tl cs)) e = None" and id: "c_id (front m unk cs) = -1"
    using front_best [of m cs unk] None by (simp_all add: best_of_def)
  have st: "stuck m unk cs" unfolding stuck_def
  proof clarify
    fix e
    assume e: "0 < e" "e \<le> length cs" "HasToken m (prefix_bytes cs e)" "reach m unk (drop e cs)"
    then obtain i where i: "token_id m (prefix_bytes cs e) = Some i" by (auto simp: HasToken_def)
    then show False using offer_reach [OF sub [OF e(1,2)] e(1,2) i e(4)] none token_in_prefix_ends [OF ok e(1,2) i] by auto
  qed
  have only: "0 \<le> unk \<and> reach m unk (tl cs)" if "reach m unk cs" using that ne st by cases (auto simp: stuck_def HasToken_def)
  have segs: "\<exists>js u. ids = unk # js \<and> w = f32 (GetSentencePieceScore m unk + u) \<and> segments m unk (tl cs) js u"
    if "segments m unk cs ids w" for ids w
    using that ne st by cases (auto simp: stuck_def HasToken_def dest: segments_reach)
  have tlo: "optimal m unk (tl cs) (table m unk (tl cs))" using sub [of 1] ne by (simp add: drop_Suc Suc_le_eq)
  show ?thesis
  proof (cases "\<exists>u. c_best (hd (table m unk (tl cs))) = Some u \<and> 0 \<le> unk")
    case True
    then obtain u where u: "c_best (hd (table m unk (tl cs))) = Some u" "0 \<le> unk" by blast
    then have cell: "table m unk cs = \<lparr>c_best = Some (f32 (GetSentencePieceScore m unk + u)), c_id = unk, c_next = 1\<rparr> # table m unk (tl cs)"
      using id by (simp add: table_front [OF ne])
    have s: "segments m unk (tl cs) (read_cells (table m unk (tl cs))) u" "\<And>ids w. segments m unk (tl cs) ids w \<Longrightarrow> w \<le> u"
      using tlo u(1) by (auto simp: optimal_def)
    have "read_cells (table m unk cs) = unk # read_cells (table m unk (tl cs))" using u(2) ne unfolding cell by (subst read_cells.simps) simp
    then have "segments m unk cs (read_cells (table m unk cs)) (f32 (GetSentencePieceScore m unk + u))"
      using seg_unknown [OF ne u(2) st s(1)] by simp
    then show ?thesis using s(2) u(2) by (auto simp: optimal_def cell dest!: segs intro: f32_mono)
  next
    case False
    then have "table m unk cs = front m unk cs # table m unk (tl cs)" using id by (auto simp: table_front [OF ne] split: option.split)
    then show ?thesis using None False only tlo id by (auto simp: optimal_def split: option.splits)
  qed
qed

lemma token_front_optimal:
  assumes ok: "vocab_ok m" and ne: "cs \<noteq> []" and v: "c_best (front m unk cs) = Some v"
    and sub: "\<And>e. 0 < e \<Longrightarrow> e \<le> length cs \<Longrightarrow> optimal m unk (drop e cs) (table m unk (drop e cs))"
  shows "optimal m unk cs (table m unk cs)"
proof -
  let ?c = "front m unk cs" and ?E = "set (prefix_ends (max_token_bytes m) cs)" and ?f = "offer m cs (table m unk (tl cs))"
  have e: "c_next ?c \<in> ?E" "?f (c_next ?c) = Some (c_id ?c, v)" and best: "\<And>e i w. e \<in> ?E \<Longrightarrow> ?f e = Some (i, w) \<Longrightarrow> w \<le> v"
    using front_best [of m cs unk] v by (auto simp: best_of_def)
  note eb = prefix_ends_bounds [OF e(1)]
  obtain u where u: "token_id m (prefix_bytes cs (c_next ?c)) = Some (c_id ?c)" "c_best (hd (table m unk (drop (c_next ?c) cs))) = Some u"
    "v = f32 (GetSentencePieceScore m (c_id ?c) + u)"
    using e(2) eb table_tl_nth [of "c_next ?c" cs m unk] by (auto simp: offer_def split: option.splits)
  have pos: "0 \<le> c_id ?c" using vocab_lookup [OF ok u(1)] by simp
  have cell: "table m unk cs = ?c # table m unk (tl cs)" using pos by (auto simp: table_front [OF ne] split: option.split)
  have s: "segments m unk (drop (c_next ?c) cs) (read_cells (table m unk (drop (c_next ?c) cs))) u"
    using sub [of "c_next ?c"] eb u(2) by (simp add: optimal_def)
  have "drop (c_next ?c) (table m unk cs) = table m unk (drop (c_next ?c) cs)" using eb by (simp add: drop_unigram_cells)
  then have "read_cells (table m unk cs) = c_id ?c # read_cells (table m unk (drop (c_next ?c) cs))"
    using pos eb ne by (subst read_cells.simps) (simp add: cell)
  then have seg: "segments m unk cs (read_cells (table m unk cs)) v" using seg_token [OF _ _ u(1) s] eb u(3) by simp
  have "w \<le> v" if "segments m unk cs ids w" for ids w
    using that
  proof cases
    case seg_end
    then show ?thesis using ne by simp
  next
    case (seg_token e i js x)
    obtain y where y: "?f e = Some (i, f32 (GetSentencePieceScore m i + y))" "c_best (hd (table m unk (drop e cs))) = Some y"
      using offer_reach [OF sub [OF seg_token(3,4)] seg_token(3,4,5) segments_reach [OF seg_token(6)]] by blast
    have "x \<le> y" using sub [OF seg_token(3,4)] y(2) seg_token(6) by (auto simp: optimal_def)
    then have "w \<le> f32 (GetSentencePieceScore m i + y)" using seg_token(2) by (simp add: f32_mono)
    also have "\<dots> \<le> v" using best token_in_prefix_ends [OF ok seg_token(3,4,5)] y(1) by blast
    finally show ?thesis .
  next
    case (seg_unknown js x)
    then show ?thesis using eb u(1) segments_reach [OF s] by (auto simp: stuck_def HasToken_def)
  qed
  then show ?thesis using seg pos v by (auto simp: optimal_def cell)
qed

lemma unigram_cells_optimal:
  assumes "vocab_ok m"
  shows "optimal m unk cs (unigram_cells m (max_token_bytes m) unk cs)"
proof (induction "length cs" arbitrary: cs rule: less_induct)
  case less
  show ?case
  proof (cases "cs = []")
    case True
    have "w = 0" if "segments m unk [] ids w" for ids w using that by cases auto
    then show ?thesis using True by (auto simp: optimal_def end_cell_def read_cells.simps intro: seg_end)
  next
    case False
    have "optimal m unk (drop e cs) (table m unk (drop e cs))" if "0 < e" "e \<le> length cs" for e by (rule less) (use that in simp)
    then show ?thesis using stuck_front_optimal [OF assms False] token_front_optimal [OF assms False] by (cases "c_best (front m unk cs)") auto
  qed
qed

lemma unknown_reach: "0 \<le> unk \<Longrightarrow> reach m unk cs"
  by (induction cs) (auto intro: reach.intros)

lemma normalized_nonempty: "s \<noteq> [] \<Longrightarrow> DecodeUtf8Codepoints (NormalizeSentencePieceText s) \<noteq> []"
  by (cases s) (auto simp: NormalizeSentencePieceText_def spaces_to_sp_def sp_space_def)

lemma unigram_result:
  assumes "vocab_ok m" and "s \<noteq> []" and "max_token_bytes m \<noteq> 0"
  defines "unk \<equiv> FindSentencePieceUnkId m" and "cs \<equiv> DecodeUtf8Codepoints (NormalizeSentencePieceText s)"
  shows "if reach m unk cs
    then \<exists>ids v. AppendSentencePieceUnigram m s = Inr ids \<and> segments m unk cs ids v \<and> (\<forall>other w. segments m unk cs other w \<longrightarrow> w \<le> v)
    else AppendSentencePieceUnigram m s =
      (if tm_is_gemma4 m then Inl ''Gemma4 tokenizer could not segment prompt with GGUF sentencepiece metadata'' else Inr [])"
proof -
  have ne: "cs \<noteq> []" using normalized_nonempty [OF assms(2)] by (simp add: cs_def)
  have o: "optimal m unk cs (table m unk cs)" by (rule unigram_cells_optimal [OF assms(1)])
  show ?thesis
  proof (cases "c_best (hd (table m unk cs))")
    case None
    then show ?thesis using o ne assms(3) by (simp add: optimal_def AppendSentencePieceUnigram_def cs_def [symmetric] unk_def [symmetric] Let_def)
  next
    case (Some v)
    then have s: "segments m unk cs (read_cells (table m unk cs)) v" "\<forall>ids w. segments m unk cs ids w \<longrightarrow> w \<le> v" "0 \<le> c_id (hd (table m unk cs))"
      using o ne by (auto simp: optimal_def)
    then show ?thesis using ne assms(3) segments_reach [OF s(1)]
      by (auto simp: AppendSentencePieceUnigram_def cs_def [symmetric] unk_def [symmetric] Let_def)
  qed
qed

section \<open>Identifiers in range\<close>

definition id_ok :: "token_model \<Rightarrow> int \<Rightarrow> bool" where
  "id_ok m i \<longleftrightarrow> 0 \<le> i \<and> i < int (length (vocab_tokens m))"

text \<open>The metadata names only tokens of the vocabulary; an identifier of -1 stands for none.\<close>

definition ids_ok :: "token_model \<Rightarrow> bool" where
  "ids_ok m \<longleftrightarrow> vocab_ok m \<and> length (token_types m) \<le> length (vocab_tokens m) \<and>
     list_all (\<lambda>i. i < int (length (vocab_tokens m))) [bos_token_id m, eos_token_id m, sep_token_id m, unk_token_id m]"

lemma token_id_ok: "ids_ok m \<Longrightarrow> token_id m t = Some i \<Longrightarrow> id_ok m i"
  using vocab_lookup by (auto simp: ids_ok_def id_ok_def)

lemma unk_ids_ok:
  assumes "ids_ok m"
  shows "0 \<le> FindSentencePieceUnkId m \<Longrightarrow> id_ok m (FindSentencePieceUnkId m)" "0 \<le> FindWordPieceUnkId m \<Longrightarrow> id_ok m (FindWordPieceUnkId m)"
proof -
  have s: "id_ok m (FindSentencePieceUnkId m)" if "0 \<le> FindSentencePieceUnkId m"
    using that token_id_ok [OF assms] assms
    by (auto simp: FindSentencePieceUnkId_def ids_ok_def id_ok_def dest!: find_member split: option.splits)
  then show "0 \<le> FindSentencePieceUnkId m \<Longrightarrow> id_ok m (FindSentencePieceUnkId m)" .
  show "0 \<le> FindWordPieceUnkId m \<Longrightarrow> id_ok m (FindWordPieceUnkId m)"
    using s token_id_ok [OF assms] assms by (auto simp: FindWordPieceUnkId_def ids_ok_def id_ok_def split: option.splits if_splits)
qed

text \<open>Every cell of a table refers to a token, or to none.\<close>

definition cell_ok :: "token_model \<Rightarrow> cell \<Rightarrow> bool" where
  "cell_ok m c \<longleftrightarrow> c_id c < 0 \<or> id_ok m (c_id c)"

lemma fold_cell_ok: "(\<And>e c. cell_ok m c \<Longrightarrow> cell_ok m (f e c)) \<Longrightarrow> cell_ok m c \<Longrightarrow> cell_ok m (fold f es c)"
  by (induction es arbitrary: c) auto

lemma unigram_cells_ok:
  assumes "ids_ok m" and "0 \<le> unk \<Longrightarrow> id_ok m unk"
  shows "list_all (cell_ok m) (unigram_cells m limit unk cs)"
proof (induction cs)
  case (Cons c cs)
  have "cell_ok m (fold (unigram_try m ds cells) es \<lparr>c_best = None, c_id = -1, c_next = n\<rparr>)" for ds cells es n
    by (rule fold_cell_ok) (auto simp: cell_ok_def unigram_try_def Let_def token_id_ok [OF assms(1)] split: option.splits)
  then have "cell_ok m (unigram_cell m limit unk ds cells)" for ds cells
    using assms(2) by (auto simp: unigram_cell_def Let_def cell_ok_def split: option.splits)
  then show ?case using Cons by (simp add: Let_def)
qed (simp add: end_cell_def cell_ok_def)

lemma bert_cells_ok:
  assumes "ids_ok m"
  shows "list_all (cell_ok m) (bert_cells log1p m limit cs)"
proof (induction cs)
  case (Cons c cs)
  have "cell_ok m (fold (bert_try log1p m ds cells) es \<lparr>c_best = None, c_id = -1, c_next = n\<rparr>)" for ds cells es n
    by (rule fold_cell_ok) (auto simp: cell_ok_def bert_try_def Let_def token_id_ok [OF assms(1)] split: option.splits)
  then have "cell_ok m (bert_cell log1p m limit ds cells)" for ds cells
    by (auto simp: bert_cell_def Let_def cell_ok_def)
  then show ?case using Cons by (simp add: Let_def)
qed (simp add: end_cell_def cell_ok_def)

lemma list_all_drop: "list_all P xs \<Longrightarrow> list_all P (drop n xs)"
  by (auto simp: list_all_iff dest: in_set_dropD)

lemma read_cells_ok: "list_all (cell_ok m) cells \<Longrightarrow> list_all (id_ok m) (read_cells cells)"
proof (induction cells rule: read_cells.induct)
  case (1 cells)
  then show ?case
    by (subst read_cells.simps) (cases cells, auto simp: cell_ok_def list_all_drop)
qed

lemma read_bert_ok:
  assumes "0 \<le> unk \<Longrightarrow> id_ok m unk" and "list_all (cell_ok m) cells" and "cs \<noteq> [] \<Longrightarrow> length cs < length cells"
  shows "list_all (id_ok m) (read_bert unk cs cells)"
  using assms
proof (induction unk cs cells rule: read_bert.induct)
  case (1 u cs cells)
  show ?case
  proof (cases "cs = []")
    case True
    then show ?thesis by (simp add: read_bert.simps)
  next
    case False
    then obtain d ds c ts where x: "cs = d # ds" "cells = c # ts" "length ds < length ts" using 1(6) by (cases cs; cases cells) auto
    have "length ds - (n - 1) < length ts - (n - 1)" if "drop n cs \<noteq> []" for n using that x by (cases n) auto
    then have dr: "drop n cs \<noteq> [] \<Longrightarrow> length (drop n cs) < length (drop n cells)" for n using x by (cases n) auto
    have "c_id c < 0 \<or> id_ok m (c_id c)" using 1(5) x by (simp add: cell_ok_def)
    then show ?thesis
      by (subst read_bert.simps)
        (use 1(1-3) [OF False] 1(4,5) x dr list_all_drop [OF 1(5)] in \<open>auto simp: Let_def\<close>)
  qed
qed

lemma longest_prefix_ok: "ids_ok m \<Longrightarrow> longest_prefix m mark cs = Some (i, e) \<Longrightarrow> id_ok m i"
  using token_id_ok by (auto simp: longest_prefix_def split: option.splits if_splits)

lemma greedy_pieces_ok: "ids_ok m \<Longrightarrow> greedy_pieces m mark later cs = Some ids \<Longrightarrow> list_all (id_ok m) ids"
proof (induction m mark later cs arbitrary: ids rule: greedy_pieces.induct)
  case (1 m mark later cs)
  then show ?case
    by (subst (asm) (2) greedy_pieces.simps) (auto split: if_splits option.splits prod.splits dest: longest_prefix_ok)
qed

lemma wordpiece_ids_ok: "ids_ok m \<Longrightarrow> list_all (id_ok m) (wordpiece_ids m first later p)"
  using greedy_pieces_ok unk_ids_ok(2) by (auto simp: wordpiece_ids_def split: option.split)

lemma list_all_concat: "(\<And>x. x \<in> set xs \<Longrightarrow> list_all P (f x)) \<Longrightarrow> list_all P (concat (map f xs))"
  by (auto simp: list_all_iff)

lemma map_filter_ok: "(\<And>x i. f x = Some i \<Longrightarrow> P i) \<Longrightarrow> list_all P (List.map_filter f xs)"
  by (auto simp: list_all_iff List.map_filter_def)

lemma symbol_ids_ok: "ids_ok m \<Longrightarrow> list_all (id_ok m) (symbol_ids m s)" "ids_ok m \<Longrightarrow> list_all (id_ok m) (legacy_ids m s)"
  using token_id_ok
  by (auto simp: symbol_ids_def legacy_ids_def AppendByteFallbackTokens_def fallback_id_def intro!: map_filter_ok split: option.splits)

lemma span_ids_ok:
  assumes "ids_ok m" and "tokenize_plain_span lib m s = Inr ids"
  shows "list_all (id_ok m) ids"
proof -
  have "list_all (id_ok m) ids" if "AppendSentencePieceUnigram m s = Inr ids"
    using that read_cells_ok unigram_cells_ok [OF assms(1) unk_ids_ok(1) [OF assms(1)]]
    by (auto simp: AppendSentencePieceUnigram_def Let_def split: if_splits)
  moreover have "list_all (id_ok m) (AppendWordPieceTokens m s)"
    using assms(1)
    by (auto simp: AppendWordPieceTokens_def AppendSentencePieceSurfaceWordPieceTokens_def intro!: list_all_concat wordpiece_ids_ok)
  moreover have "length (bert_cells l m n cs) = Suc (length cs)" for l n cs by (induction cs) (simp_all add: Let_def)
  then have "list_all (id_ok m) (AppendBertBpeTokens (tl_log1p lib) m s)"
    using assms(1) by (auto simp: AppendBertBpeTokens_def Let_def intro!: read_bert_ok unk_ids_ok bert_cells_ok)
  ultimately show ?thesis
    using assms by (auto simp: tokenize_plain_span_def AppendSymbolsToIds_def intro!: list_all_concat symbol_ids_ok split: if_splits)
qed

lemma collect_ids_ok:
  assumes "collect_ids rs = Inr ids" and "\<And>r js. r \<in> set rs \<Longrightarrow> r = Inr js \<Longrightarrow> list_all P js"
  shows "list_all P ids"
  using assms by (induction rs arbitrary: ids rule: collect_ids.induct) (auto split: sum.splits)

lemma tokenize_ids_ok:
  assumes "ids_ok m" and "Tokenize lib (Some m) s add_bos add_eos = Inr ids"
  shows "list_all (id_ok m) ids"
proof -
  have "list_all (id_ok m) js" if "segment_ids lib m g = Inr js" for g js
    using that span_ids_ok [OF assms(1)] token_id_ok [OF assms(1)] by (cases g) (auto split: option.splits)
  then have "list_all (id_ok m) js" if "collect_ids (map (segment_ids lib m) segs) = Inr js" for segs js
    using that by (rule_tac collect_ids_ok [OF that]) auto
  moreover have "0 \<le> bos_token_id m \<Longrightarrow> id_ok m (bos_token_id m)" "0 \<le> ResolveEndTokenId m \<Longrightarrow> id_ok m (ResolveEndTokenId m)"
    using assms(1) by (auto simp: ids_ok_def id_ok_def ResolveEndTokenId_def)
  ultimately show ?thesis using assms(2) by (auto simp: Tokenize_def Let_def split: if_splits sum.splits)
qed

section \<open>The legacy merge\<close>

text \<open>The loop with a bound on its turns.\<close>

fun pq_run :: "nat \<Rightarrow> token_model \<Rightarrow> (merge_pair list \<Rightarrow> nat) \<Rightarrow> string list \<Rightarrow> nat list \<Rightarrow> merge_pair list \<Rightarrow> string list option" where
  "pq_run 0 m tie tokens generation pq = None"
| "pq_run (Suc n) m tie tokens generation pq =
     (if pq = [] then Some tokens
      else let t = pq_top tie pq; pq' = remove1 t pq
           in if pq_stale m tokens generation t then pq_run n m tie tokens generation pq'
              else case pq_merge m (mp_position t) tokens generation pq' of
                     (tokens', generation', pq'') \<Rightarrow> pq_run n m tie tokens' generation' pq'')"

lemma pq_not_stale: "\<not> pq_stale m tokens g t \<Longrightarrow> Suc (mp_position t) < length tokens \<and> HasToken m (tokens ! mp_position t @ tokens ! Suc (mp_position t))"
  by (auto simp: pq_stale_def)

lemma pq_merge_tokens: "pq_merge m pos tokens g pq = (tokens', g', pq') \<Longrightarrow> tokens' = merge_at pos tokens"
  by (auto simp: pq_merge_def Let_def)

lemma pq_run_enough: "2 * length tokens + length pq < n \<Longrightarrow> pq_run n m tie tokens g pq = Some (pq_loop m tie tokens g pq)"
proof (induction m tie tokens g pq arbitrary: n rule: pq_loop.induct)
  case (1 m tie tokens g pq)
  then obtain k where n: "n = Suc k" by (cases n) auto
  let ?t = "pq_top tie pq"
  let ?q = "remove1 ?t pq"
  show ?case
  proof (cases "pq = []")
    case False
    have l: "length ?q < length pq" by (rule length_remove1_less [OF pq_top_mem [OF False]])
    show ?thesis
    proof (cases "pq_stale m tokens g ?t")
      case True
      then show ?thesis using 1(1) [OF False refl refl True, of k] 1(3) l False by (subst pq_loop.simps) (simp add: n Let_def)
    next
      case st: False
      obtain ts g' q' where mg: "pq_merge m (mp_position ?t) tokens g ?q = (ts, g', q')" by (cases "pq_merge m (mp_position ?t) tokens g ?q") auto
      have "length ts = length tokens - 1 \<and> length q' \<le> length ?q + 2" using pq_merge_measure [OF _ mg] pq_not_stale [OF st] by simp
      moreover have "0 < length tokens" using pq_not_stale [OF st] by linarith
      ultimately have "2 * length ts + length q' < k" using 1(3) l n by (cases "length tokens") auto
      then show ?thesis using 1(2) [OF False refl refl st mg [symmetric] refl, of k] mg False st by (subst pq_loop.simps) (simp add: n Let_def)
    qed
  qed (simp add: n pq_loop.simps)
qed

lemma pq_loop_tokens:
  "concat (pq_loop m tie tokens g pq) = concat tokens \<and> (\<forall>t \<in> set (pq_loop m tie tokens g pq). t \<in> set tokens \<or> HasToken m t)"
proof (induction m tie tokens g pq rule: pq_loop.induct)
  case (1 m tie tokens g pq)
  let ?t = "pq_top tie pq"
  let ?q = "remove1 ?t pq"
  show ?case
  proof (cases "pq = [] \<or> pq_stale m tokens g ?t")
    case True
    then show ?thesis using 1(1) by (subst (1 2) pq_loop.simps) (auto simp: Let_def)
  next
    case False
    obtain ts g' q' where mg: "pq_merge m (mp_position ?t) tokens g ?q = (ts, g', q')" by (cases "pq_merge m (mp_position ?t) tokens g ?q") auto
    note ns = pq_not_stale [of m tokens g ?t] and ts = pq_merge_tokens [OF mg]
    have c: "concat ts = concat tokens" using ns False by (simp add: ts concat_merge_at)
    have s: "t \<in> set tokens \<or> HasToken m t" if "t \<in> set ts" for t
      using that ns False by (auto simp: ts merge_at_def dest: in_set_takeD in_set_dropD)
    have "pq_loop m tie tokens g pq = pq_loop m tie ts g' q'" using False mg by (subst pq_loop.simps) (simp add: Let_def)
    then show ?thesis using 1(2) [of ?t ?q, OF _ refl refl _ mg [symmetric] refl] False c s by auto
  qed
qed

lemma length_fold_try: "length (fold (try_add_merge m tokens g) is pq) \<le> length pq + length is"
proof (induction "is" arbitrary: pq)
  case (Cons i xs)
  show ?case using Cons [of "try_add_merge m tokens g i pq"] length_try_add_merge [of m tokens g i pq] by simp
qed simp

end
