(* ===== verification/Tokenizer_Properties.thy ===== *)
theory Tokenizer_Properties
  imports Segmentation
begin

text \<open>The properties of byte-level tokenization, with a small vocabulary that meets their hypotheses.\<close>

section \<open>A sample vocabulary\<close>

definition sample_vocab :: "string list" where
  "sample_vocab = ByteToUnicode @ [''ab'', ''<|end|>'']"

definition sample_tokenizer :: token_model where
  "sample_tokenizer = \<lparr>tm_variant = MV_UNKNOWN, tm_arch = MA_UNKNOWN, tm_is_gemma4 = False, tokenizer_type = ''gpt2'', chat_template = [],
     vocab_tokens = sample_vocab, token_scores = [], token_to_id = zip sample_vocab (map int [0..<258]),
     bpe_merge_ranks = [(MakeMergeKey ''a'' ''b'', 0)], token_types = [], stream_token_pieces = [], bos_token_id = -1, eos_token_id = 257,
     unk_token_id = -1, sep_token_id = -1, pad_token_id = -1\<rparr>"









section \<open>Properties\<close>



text \<open>C37: Merging by rank is byte-pair encoding: the result is reached by steps that each join the leftmost pair of the lowest rank, no
  further step is possible, and the bytes of the symbols are kept.\<close>

theorem merge_is_bpe:
  assumes "ranks_ok m" and "bpe_merge_ranks m \<noteq> []"
  shows "(bpe_step m)\<^sup>*\<^sup>* symbols (MergeWithBpeRanks m symbols) \<and> (\<forall>next. \<not> bpe_step m (MergeWithBpeRanks m symbols) next) \<and>
    concat (MergeWithBpeRanks m symbols) = concat symbols"
proof -
  have c: "(bpe_step m)\<^sup>*\<^sup>* xs ys \<Longrightarrow> concat ys = concat xs" for xs ys
    by (induction rule: rtranclp_induct) (auto elim!: bpe_step.cases simp: concat_merge_at)
  show ?thesis
  proof (cases "length symbols < 2")
    case True
    then have "\<not> bpe_step m symbols ys" for ys by (auto elim: bpe_step.cases)
    then show ?thesis using True by (simp add: MergeWithBpeRanks_def)
  next
    case False
    then have "MergeWithBpeRanks m symbols = merge_loop m symbols" using assms(2) by (simp add: MergeWithBpeRanks_def)
    then show ?thesis using merge_loop_normal_form [OF assms(1), of symbols] c [of symbols "merge_loop m symbols"] by simp
  qed
qed

theorem merge_is_bpe_witness:
  "concat (MergeWithBpeRanks sample_tokenizer [''a'', ''b'', ''c'']) = ''abc'' \<and>
   MergeWithBpeRanks sample_tokenizer [''a'', ''b'', ''c''] = [''ab'', ''c'']"
proof
  show "concat (MergeWithBpeRanks sample_tokenizer [''a'', ''b'', ''c'']) = ''abc''"
    using merge_is_bpe [of sample_tokenizer "[''a'', ''b'', ''c'']"] by (simp add: ranks_ok_def sample_tokenizer_def)
  show "MergeWithBpeRanks sample_tokenizer [''a'', ''b'', ''c''] = [''ab'', ''c'']"
    by (simp add: MergeWithBpeRanks_def sample_tokenizer_def merge_loop.simps best_merge_def consider_pair_def MakeMergeKey_def merge_at_def)
qed

text \<open>C38: The unigram tokenizer returns a best segmentation: among all ways to cut the normalised text into tokens, with the unknown token
  only where no token leads on, none has a higher score, every sum being rounded as the code rounds it. It fails exactly when the
  text cannot be cut, which an unknown token rules out.\<close>

theorem unigram_optimal:
  assumes "vocab_ok m" and "s \<noteq> []" and "max_token_bytes m \<noteq> 0"
  shows "let unk = FindSentencePieceUnkId m; cs = DecodeUtf8Codepoints (NormalizeSentencePieceText s)
    in (if reach m unk cs
        then \<exists>ids v. AppendSentencePieceUnigram m s = Inr ids \<and> segments m unk cs ids v \<and> (\<forall>other w. segments m unk cs other w \<longrightarrow> w \<le> v)
        else AppendSentencePieceUnigram m s =
          (if tm_is_gemma4 m then Inl ''Gemma4 tokenizer could not segment prompt with GGUF sentencepiece metadata'' else Inr [])) \<and>
       (0 \<le> unk \<longrightarrow> reach m unk cs)"
  using unigram_result [OF assms] unknown_reach unfolding Let_def by blast

definition sample_unigram :: token_model where
  "sample_unigram = \<lparr>tm_variant = MV_UNKNOWN, tm_arch = MA_UNKNOWN, tm_is_gemma4 = False, tokenizer_type = ''llama'', chat_template = [],
     vocab_tokens = [''<unk>'', ''a'', ''b'', ''ab''], token_scores = [-10, -2, -2, -3],
     token_to_id = [(''<unk>'', 0), (''a'', 1), (''b'', 2), (''ab'', 3)], bpe_merge_ranks = [], token_types = [2, 1, 1, 1],
     stream_token_pieces = [], bos_token_id = -1, eos_token_id = -1, unk_token_id = -1, sep_token_id = -1, pad_token_id = -1\<rparr>"

theorem unigram_optimal_witness:
  "(\<exists>ids. AppendSentencePieceUnigram sample_unigram ''ab'' = Inr ids) \<and> AppendSentencePieceUnigram sample_unigram ''ab'' = Inr [0, 3]"
proof
  have "vocab_ok sample_unigram" "''ab'' \<noteq> []" "max_token_bytes sample_unigram \<noteq> 0" "0 \<le> FindSentencePieceUnkId sample_unigram"
    by (code_simp, simp, code_simp, code_simp)
  then show "\<exists>ids. AppendSentencePieceUnigram sample_unigram ''ab'' = Inr ids"
    using unigram_optimal [of sample_unigram "''ab''"] by (auto simp: Let_def split: if_splits)
  show "AppendSentencePieceUnigram sample_unigram ''ab'' = Inr [0, 3]" by code_simp
qed

text \<open>C39: Whatever the family of the tokenizer and whatever the text, every identifier that \<^verbatim>\<open>Tokenize\<close> returns is an index of the
  vocabulary, so that the embedding table is never read out of bounds.\<close>

theorem token_ids_in_vocabulary:
  assumes "ids_ok m" and "Tokenize lib (Some m) s add_bos add_eos = Inr ids"
  shows "\<forall>i \<in> set ids. 0 \<le> i \<and> i < int (length (vocab_tokens m))"
  using tokenize_ids_ok [OF assms] by (auto simp: list_all_iff id_ok_def)

theorem token_ids_in_vocabulary_witness:
  "Tokenize \<lparr>tl_tie = \<lambda>_. 0, tl_log1p = \<lambda>_. 0\<rparr> (Some sample_unigram) ''ab'' True True = Inr [0, 3] \<and> set [0, 3] \<subseteq> {0 ..< 4 :: int}"
proof -
  have t: "Tokenize \<lparr>tl_tie = \<lambda>_. 0, tl_log1p = \<lambda>_. 0\<rparr> (Some sample_unigram) ''ab'' True True = Inr [0, 3]" by code_simp
  have "ids_ok sample_unigram" by code_simp
  from token_ids_in_vocabulary [OF this t] show ?thesis using t by (simp add: sample_unigram_def)
qed

text \<open>C40: The legacy merge ends: three turns per token are enough, however the queue breaks ties. It keeps the bytes, and every token of the
  result is an original one or in the vocabulary. It does not reach a normal form, though: after a merge the entries to its right
  point one position too far, and merges they stand for are missed.\<close>

theorem legacy_merge_ends:
  assumes "2 \<le> length tokens"
  shows "pq_run (3 * length tokens) m tie tokens (replicate (length tokens) 0)
      (fold (try_add_merge m tokens (replicate (length tokens) 0)) [0..<length tokens - 1] []) = Some (MergeWithPriorityQueue m tie tokens) \<and>
    concat (MergeWithPriorityQueue m tie tokens) = concat tokens \<and>
    (\<forall>t \<in> set (MergeWithPriorityQueue m tie tokens). t \<in> set tokens \<or> HasToken m t) \<and>
    (\<exists>vocab text. 0 \<le> FindBestMerge vocab (MergeWithPriorityQueue vocab tie text))"
proof -
  let ?v = "sample_unigram\<lparr>token_scores := [], token_to_id := [(''ab'', 0), (''cd'', 1)]\<rparr>"
  have "MergeWithPriorityQueue ?v tie [''a'', ''b'', ''c'', ''d''] = [''ab'', ''c'', ''d'']"
    using f32_of_int [of 1] f32_of_int [of 0]
    by (simp add: MergeWithPriorityQueue_def try_add_merge_def HasToken_def GetTokenScore_def sample_unigram_def pq_loop.simps pq_top_def lowest_def
        pq_stale_def pq_merge_def bump_def merge_at_def Let_def upt_rec numeral_3_eq_3)
  then have miss: "0 \<le> FindBestMerge ?v (MergeWithPriorityQueue ?v tie [''a'', ''b'', ''c'', ''d''])" by simp code_simp
  have "length (fold (try_add_merge m tokens (replicate (length tokens) 0)) [0..<length tokens - 1] []) \<le> length tokens - 1"
    using length_fold_try [of m tokens _ "[0..<length tokens - 1]" "[]"] by simp
  moreover have mw: "MergeWithPriorityQueue m tie tokens = pq_loop m tie tokens (replicate (length tokens) 0)
      (fold (try_add_merge m tokens (replicate (length tokens) 0)) [0..<length tokens - 1] [])"
    using assms by (simp add: MergeWithPriorityQueue_def Let_def)
  ultimately have "pq_run (3 * length tokens) m tie tokens (replicate (length tokens) 0)
      (fold (try_add_merge m tokens (replicate (length tokens) 0)) [0..<length tokens - 1] []) = Some (MergeWithPriorityQueue m tie tokens)"
    unfolding mw using assms by (intro pq_run_enough) simp
  then show ?thesis using pq_loop_tokens miss unfolding mw by blast
qed

theorem legacy_merge_ends_witness:
  "pq_run 6 sample_unigram (\<lambda>_. 0) [''a'', ''b''] [0, 0] [\<lparr>mp_score = -3, mp_position = 0, mp_generation = 0\<rparr>] = Some [''ab''] \<and>
   concat (MergeWithPriorityQueue sample_unigram (\<lambda>_. 0) [''a'', ''b'']) = ''ab''"
proof
  show "pq_run 6 sample_unigram (\<lambda>_. 0) [''a'', ''b''] [0, 0] [\<lparr>mp_score = -3, mp_position = 0, mp_generation = 0\<rparr>] = Some [''ab'']" by code_simp
  show "concat (MergeWithPriorityQueue sample_unigram (\<lambda>_. 0) [''a'', ''b'']) = ''ab''"
    using legacy_merge_ends [of "[''a'', ''b'']" sample_unigram "\<lambda>_. 0"] by simp
qed

end
