(* ===== verification/Spec2Isabelle.thy ===== *)
theory Spec2Isabelle
  imports Scheduler_Properties KV_Block_Allocator Request_Queue Action_Chunker Layer_KV_Cache Graph_Laws Prefill_Policy Storage_Properties
    Text_Laws Worker_Properties Tokenizer_Properties
begin

text \<open>
  A verification development for the runtime core of DenseCore, a C++ inference engine for language models on CPUs.

  \<^bold>\<open>The program.\<close> A client submits a request through the C interface; the engine tokenises it and pushes it
  on a request queue. One worker thread pops requests, registers them with the scheduler, and then loops: the
  scheduler builds a batch (decode steps, prefill chunks, preemptions, swap-ins), the worker turns the batch
  into a compute graph over the paged KV cache, runs it, samples tokens and reports progress back to the
  scheduler. The scheduler owns no memory: it takes blocks from the block manager, which counts references,
  shares blocks between forked sequences, keeps finished prompt blocks in a prefix cache, and evicts idle ones
  on demand. The block manager's identifiers index the K and V arenas of the block allocator. Encoder-decoder
  and robotics models use contiguous caches and an action queue instead; backends see tensors through
  descriptors and can capture operation graphs, which are fused and planned before they run.

  \<^bold>\<open>The theories\<close>, each over the files it names under \<^verbatim>\<open>src/core\<close>:

  \<^item> \<open>Prelude\<close>: encodings of C++ containers, integer division and words, and the generic lemmas on them.
    \<open>Machine_Float\<close> and \<open>Float_Laws\<close>: binary32 and binary64 rounding on rational numbers.
  \<^item> \<open>Block_Manager\<close> (\<^verbatim>\<open>include/densecore/memory/kv_cache.h\<close>, \<^verbatim>\<open>src/runtime/memory/kv_cache_block_manager.cpp\<close>): the
    record \<open>block_manager\<close> with its blocks, sixteen free stacks and prefix-cache tables, and one definition per
    method. \<open>Block_Manager_Laws\<close> and \<open>Prefix_Cache_Laws\<close> show that every method keeps \<open>bm_inv\<close> and what each
    one does; \<open>bm_reachable\<close> closes the methods under composition.
  \<^item> \<open>Block_Pool\<close>: the locale \<open>block_pool\<close> is the contract between a pool of blocks and a client that takes and
    gives back leases. It is interpreted for the block manager and for \<open>KV_Block_Allocator\<close>
    (\<^verbatim>\<open>include/densecore/memory/block_allocator.h\<close>), which also covers the addresses of the blocks.
  \<^item> \<open>Scheduler_Types\<close>, \<open>Scheduler\<close>, \<open>Scheduler_Queue\<close> (\<^verbatim>\<open>include/densecore/runtime/scheduler.h\<close>,
    \<^verbatim>\<open>src/runtime/scheduler.cpp\<close>, \<^verbatim>\<open>scheduler_policy.cpp\<close>, \<^verbatim>\<open>scheduler_queue.cpp\<close>): the configuration, the policy
    functions, the record \<open>scheduler\<close> and all its methods. \<open>Decode_Laws\<close>, \<open>Prefill_Laws\<close>, \<open>Waiting_Laws\<close> and
    \<open>Schedule_Laws\<close> treat the passes of \<^verbatim>\<open>Schedule\<close> one by one; \<open>Scheduler_Reach\<close> is the step relation of the
    public methods with its invariant; \<open>Scheduler_Properties\<close> states what follows for every reachable state.
  \<^item> \<open>Request_Queue\<close> (\<^verbatim>\<open>include/densecore/runtime/lockfree_queue.h\<close>): the sharded priority queue as a refinement
    of a list, and the lock-free queue as an interleaving of atomic steps on an explicit heap.
  \<^item> \<open>Prefill_Policy\<close> (\<^verbatim>\<open>src/runtime/worker_prefix_cache_policy.inl\<close>, \<^verbatim>\<open>worker_prefill_chunking.inl\<close>) with
    \<open>Runtime_Env\<close> (\<^verbatim>\<open>src/runtime/runtime_env.h\<close>): how the worker admits a prompt, from the environment to the size
    of the first chunk.
  \<^item> \<open>Tensor\<close> (\<^verbatim>\<open>include/densecore/hal/tensor.h\<close>), \<open>Layer_KV_Cache\<close> (\<^verbatim>\<open>src/runtime/memory/kv_cache_decoder.cpp\<close>,
    \<^verbatim>\<open>kv_cache_encoder.cpp\<close>): descriptors with 64-bit shapes and strides, and the per-layer caches on an explicit
    heap. The locale \<open>tensor_allocator\<close> is the contract of their constructors, interpreted for both.
  \<^item> \<open>Operation_Graph\<close>, \<open>Graph_Laws\<close> (\<^verbatim>\<open>include/densecore/hal/operation_graph.h\<close>, \<^verbatim>\<open>src/hal/operation_graph.cpp\<close>):
    capture, execution over arbitrary kernels, fusion and buffer reuse.
  \<^item> \<open>Action_Chunker\<close> (\<^verbatim>\<open>src/runtime/action_chunker.cpp\<close>): the queue of predicted robot actions.
  \<^item> \<open>Byte_Memory\<close>, \<open>Paged_Storage\<close> (\<^verbatim>\<open>src/runtime/memory/kv_cache.cpp\<close>, \<^verbatim>\<open>kv_cache_storage.cpp\<close>): the K and V arenas as bytes at
    64-bit addresses, their set-up, the slot operations with their bulk paths, and the copies to and from the host.
    The locale \<open>keyed_store\<close> is the contract of a memory addressed by keys and \<open>ferry\<close> that of a trip between two of
    them; \<open>Storage_Laws\<close> interprets them for the arenas, the host buffers and a swap. \<open>Slot_Laws\<close> shows that all paths of
    a slot operation agree, \<open>Storage_Properties\<close> states what the storage promises.
  \<^item> \<open>Text_Stream\<close>, \<open>Text_Laws\<close> (\<^verbatim>\<open>src/runtime/worker_helpers.cpp\<close> and the emission code of \<^verbatim>\<open>worker.cpp\<close>): UTF-8 boundaries of
    streamed text, stop sequences, suppression of tagged blocks and markers.
  \<^item> \<open>Worker_State\<close>, \<open>Worker_Schedule\<close>, \<open>Worker_Batch\<close>, \<open>Worker_Output\<close>, \<open>Worker_Loop\<close> (\<^verbatim>\<open>src/runtime/worker.cpp\<close>): a turn of
    \<^verbatim>\<open>EngineLoop\<close> step by step: cancellation and admission, the schedule applied to block tables, swaps and prefix hits,
    the batch with its copies on write, the outputs and the ways a request ends. \<open>Worker_Ownership\<close>, \<open>Worker_Writes\<close>
    and \<open>Worker_Phases\<close> show that each step keeps every block accounted for and every write exclusive; \<open>Worker_Properties\<close>
    states it for whole turns and reachable states.
  \<^item> \<open>Model_Descriptor\<close> (\<^verbatim>\<open>src/models/model_descriptor.cpp\<close>): the table of model variants and its lookups by architecture name,
    hints and tokenizer metadata.
  \<^item> \<open>Tokenizer\<close> (\<^verbatim>\<open>src/models/tokenizer.cpp\<close>): pre-tokenizers, byte-pair merging, unigram tables, word pieces, byte fallback,
    control tokens, and the detokenizers. The locale \<open>splitter\<close> of \<open>Tokenizer_Laws\<close> is the contract of a pre-tokenizer that
    cuts a text without losing a byte, interpreted for all three; \<open>Tokenizer_Laws\<close> also relates the merge loop to the
    rewriting relation \<open>bpe_step\<close>. \<open>Segmentation\<close>, over \<open>Float_Mono\<close>, treats the tables and the legacy merge;
    \<open>Tokenizer_Properties\<close> holds the theorems.

  \<^bold>\<open>Modelling.\<close> State is passed explicitly; a class is a record with the code's members. Unordered containers
  are lists in iteration order, so that a theorem about all lists covers every iteration order. What the code
  cannot decide by itself is an argument or a field that the theorems quantify over: the clock, the random start
  shard, the outcome of every \<^verbatim>\<open>try_lock\<close>, the answers of \<^verbatim>\<open>mmap\<close> and of the allocators, the kernels, the
  validators handed in as callbacks, the available memory, the row formats of ggml, the outcome of a compute graph with the
  tokens sampled from it, the choice of \<^verbatim>\<open>std::priority_queue\<close> among entries of equal score, and \<^verbatim>\<open>log1p\<close>. The two patterns handed
  to \<^verbatim>\<open>std::regex\<close> are ordered alternations tried at each position, which is what ECMAScript matching means for them. Sizes, addresses and hashes are 64-bit words; token
  counts, identifiers and reference counts are integers, because the code bounds them far below \<^verbatim>\<open>INT_MAX\<close>, and
  where it does not (the memory usage of the decoder cache) the wrap-around is written out. Methods that hold a
  mutex for their whole body are atomic.

  \<^bold>\<open>Bounds and fuel.\<close> Every definition but the retry loops of the lock-free queue terminates by itself. A thread
  that runs alone gets nine steps to push and twelve to pop, enough for one round of helping and one of work,
  and the theorem on it shows that the push returns; the legacy merge of the tokenizer is shown to end within three turns per
  token; interleaved runs take the schedule as a list. Overflow of floats
  to infinity is not modelled. The interpolation of action chunks is bounded by 4096 steps, so that binary32 holds every
  product of step indices exactly. Tensors of the layer caches stay below \<open>2 ^ 63\<close> bytes and the arena does not wrap around the
  address space. All of these bounds are hypotheses of the theorems that need them.

  \<^bold>\<open>Not modelled.\<close> The numeric kernels, the SIMD layer and the Apple and Qualcomm backends, whose correctness is
  numerical accuracy; the model loader, which reads files through ggml; the graph builders and executors under
  \<^verbatim>\<open>src/llm\<close>, which are sequences of calls into ggml, and with them the part of the worker that fills and runs a graph (its
  outcome is an argument of a worker's turn); sampling, expert routing, the sizing of graph pools and the prompt templates;
  the engine's lifecycle around the worker and its queues; quantisation and pruning tools; the C interface, the Go server, the
  Python package and the operator, which are glue. \<^verbatim>\<open>memory_pool.h\<close> has no caller outside the tests, and
  \<^verbatim>\<open>kv_block_manager.h\<close> is not included anywhere. Threads other than the interleavings of the lock-free queue are not
  modelled: the worker is the only thread that touches the scheduler and the block tables.
\<close>

section \<open>The paged KV cache\<close>

text \<open>C1: Whatever public operations are called on a block manager, in whatever order and with
  whatever arguments, the state stays well formed: reference counts are never negative, a block is
  on its free stack exactly when it is neither referenced nor resident in the prefix cache, no
  block is on a stack twice, and the prefix cache and the blocks agree on who owns which hash.\<close>

theorem bm_reachable_inv:
  assumes "bm_reachable salt bm"
  shows "bm_inv bm"
  using assms by (rule bm_reachable_bm_inv)

theorem bm_reachable_inv_witness:
  "bm_inv (Free [3] (snd (Allocate 2 (BlockManager 4 16 (\<lambda>_. 0) (\<lambda>_ _. False)))))"
proof (rule bm_reachable_inv [of 0])
  have "bm_reachable 0 (BlockManager 4 16 (\<lambda>_. 0) (\<lambda>_ _. False))" by (rule reach_init) simp_all
  from bm_reachable.reach_step [OF bm_reachable.reach_step [OF this step_allocate] step_free]
  show "bm_reachable 0 (Free [3] (snd (Allocate 2 (BlockManager 4 16 (\<lambda>_. 0) (\<lambda>_ _. False)))))" .
qed

text \<open>C2: A request for \<open>n\<close> blocks succeeds exactly when \<open>n\<close> blocks have no reference, whatever the
  lock contention and the random start shard; it then returns \<open>n\<close> distinct unreferenced blocks,
  each now with one reference and empty, and leaves every other block as it was. Otherwise it
  returns nothing and changes no reference count.\<close>

theorem Allocate_all_or_nothing:
  assumes "bm_inv bm" and "0 < n" and "Allocate n bm = (ids, bm')"
  shows "if n \<le> int (card {i. in_range bm i \<and> ref_count (blk bm i) = 0})
    then int (length ids) = n \<and> distinct ids \<and> bm_inv bm' \<and>
      (\<forall>i \<in> set ids. in_range bm i \<and> ref_count (blk bm i) = 0 \<and> ref_count (blk bm' i) = 1 \<and>
         num_filled_slots (blk bm' i) = 0 \<and> \<not> cache_resident (blk bm' i)) \<and>
      (\<forall>i. in_range bm i \<and> i \<notin> set ids \<longrightarrow> blk bm' i = blk bm i)
    else ids = [] \<and> bm_inv bm' \<and>
      (\<forall>i. in_range bm i \<longrightarrow> ref_count (blk bm' i) = ref_count (blk bm i))"
  using Allocate_spec [OF assms] unfolding available_def takes_def unchanged_refs_def by presburger

theorem Allocate_all_or_nothing_witness:
  "length (fst (Allocate 3 (BlockManager 4 16 (\<lambda>_. 5) (\<lambda>_ s. s = 1)))) = 3 \<and>
   fst (Allocate 5 (BlockManager 4 16 (\<lambda>_. 5) (\<lambda>_ s. s = 1))) = []"
proof -
  let ?bm = "BlockManager 4 16 (\<lambda>_. 5) (\<lambda>_ s. s = 1)"
  have inv: "bm_inv ?bm" by (rule BlockManager_inv) simp_all
  show ?thesis
    using Allocate_all_or_nothing [OF inv, of 3 "fst (Allocate 3 ?bm)" "snd (Allocate 3 ?bm)"]
      Allocate_all_or_nothing [OF inv, of 5 "fst (Allocate 5 ?bm)" "snd (Allocate 5 ?bm)"]
    unfolding BlockManager_unreferenced by auto
qed

text \<open>C3: A client that takes leases from a fresh block manager and gives them back, in any order, never
  holds a block twice: the leases are disjoint, exactly the leased blocks carry a reference (one
  each), and the blocks still obtainable are all the others.\<close>

theorem bm_leases_exact:
  assumes "0 \<le> n" and "0 \<le> bs"
    and "serve_all Allocate Free opers ([], BlockManager n bs rnd busy) = (leases, bm)"
  shows "distinct (concat leases) \<and> bm_inv bm \<and>
    (\<forall>i. 0 \<le> i \<and> i < n \<longrightarrow> ref_count (blk bm i) = (if i \<in> set (concat leases) then 1 else 0)) \<and>
    int (card {i. in_range bm i \<and> ref_count (blk bm i) = 0}) + int (length (concat leases)) = n"
proof -
  let ?bm = "BlockManager n bs rnd busy"
  have inv: "bm_inv ?bm" by (rule BlockManager_inv [OF assms(1,2)])
  have zero: "bm_pool_refs ?bm i = 0" if "i \<in> {i. in_range ?bm i}" for i
    using that BlockManager_blk by (simp add: bm_pool_refs_def)
  have L: "bm_inv bm \<and> {i. in_range bm i} = {i. in_range ?bm i} \<and> distinct (leased leases) \<and>
      set (leased leases) \<subseteq> {i. in_range bm i} \<and>
      (\<forall>i \<in> {i. in_range bm i}. bm_pool_refs bm i = (if i \<in> set (leased leases) then 1 else 0))"
    by (rule bm_pool.serve_all_leases [OF inv _ _ _ assms(3)]) (use zero in \<open>simp_all add: leased_def\<close>)
  have "card {i. in_range ?bm i} = nat n" unfolding card_range [OF inv] by (simp add: BlockManager_def)
  then have "card {i. in_range bm i \<and> ref_count (blk bm i) = 0} + length (leased leases) = nat n"
    using bm_pool.serve_all_available [OF inv zero assms(3)] by (simp add: bm_pool_refs_def)
  moreover have "in_range bm i \<longleftrightarrow> 0 \<le> i \<and> i < n" for i using L by (auto simp: BlockManager_in_range)
  ultimately show ?thesis using L assms(1) by (simp add: leased_def bm_pool_refs_def)
qed

theorem bm_leases_exact_witness:
  "\<exists>leases bm. serve_all Allocate Free [Take 2, Take 3, Give 0] ([], BlockManager 8 16 (\<lambda>_. 0) (\<lambda>_ _. False)) = (leases, bm) \<and>
    distinct (concat leases) \<and> int (card {i. in_range bm i \<and> ref_count (blk bm i) = 0}) + int (length (concat leases)) = 8"
proof -
  obtain leases bm where r:
    "serve_all Allocate Free [Take 2, Take 3, Give 0] ([], BlockManager 8 16 (\<lambda>_. 0) (\<lambda>_ _. False)) = (leases, bm)"
    by fastforce
  from bm_leases_exact [OF _ _ r] show ?thesis using r by auto
qed

text \<open>C4: The longest cached prefix of a prompt is found one full block at a time: the match covers a
  whole number of blocks, leaves at least one prompt token to compute, and each matched block was
  registered with exactly the prompt's tokens at its position under the hash of the whole prefix
  up to it. Each matched block gains one reference and nothing else changes; when recurrent state
  is required, the last matched block carries a snapshot the validator accepts.\<close>

theorem longest_prefix_match:
  assumes "bm_inv bm"
    and "FindLongestCachedPrefixWithVerification salt tokens req val bm = (m, bm')"
  shows "bm_inv bm' \<and> cached_tokens m = 16 * int (length (cached_block_ids m)) \<and>
    (cached_block_ids m \<noteq> [] \<longrightarrow> cached_tokens m < int (length tokens)) \<and>
    (\<forall>n < length (cached_block_ids m).
       block_tokens bm (cached_block_ids m ! n) = Some (take 16 (drop (16 * n) tokens)) \<and>
       map_of (prefix_cache bm) (ComputeTokenHash salt (take (16 * Suc n) tokens)) = Some (cached_block_ids m ! n)) \<and>
    (\<forall>j. in_range bm j \<longrightarrow> blk bm' j =
       (blk bm j)\<lparr>ref_count := ref_count (blk bm j) + int (count_list (cached_block_ids m) j)\<rparr>) \<and>
    (req \<and> cached_block_ids m \<noteq> [] \<longrightarrow>
       (\<exists>snap. LoadHybridSSMSnapshotForBlock bm (last (cached_block_ids m)) = Some snap \<and>
          (case val of None \<Rightarrow> True | Some v \<Rightarrow> v snap)))"
  using FindLongest_spec [OF assms] by (auto simp: acquires_def snapshot_valid_def split: option.splits)

theorem longest_prefix_match_witness:
  "\<exists>m bm'. FindLongestCachedPrefixWithVerification 7 (sample_tokens @ [16, 17]) True None sample_bm = (m, bm') \<and>
    cached_block_ids m = [0] \<and> cached_tokens m = 16 \<and> ref_count (blk bm' 0) = 3"
proof -
  obtain m bm' where r: "FindLongestCachedPrefixWithVerification 7 (sample_tokens @ [16, 17]) True None sample_bm = (m, bm')"
    by fastforce
  have "cached_block_ids (fst (FindLongestCachedPrefixWithVerification 7 (sample_tokens @ [16, 17]) True None sample_bm)) = [0]"
    by code_simp
  then have m: "cached_block_ids m = [0]" by (simp add: r)
  have c: "in_range sample_bm 0" "ref_count (blk sample_bm 0) = 2" by code_simp+
  show ?thesis using longest_prefix_match [OF sample_bm_inv r] c r m by auto
qed

text \<open>C5: A live block registered with its tokens is found again under the same hash and tokens, also
  after any releases, even of its last reference, and the lookup takes a reference on it. A lookup under
  the same hash with any other tokens finds nothing and changes nothing.\<close>

theorem register_find_roundtrip:
  assumes "bm_inv bm" and "in_range bm i" and "h \<noteq> 0" and "toks \<noteq> []"
    and "ref_count (blk bm i) > 0 \<or> cache_resident (blk bm i)"
    and "bm' = Free ids (RegisterPrefixBlockWithTokens i h toks snap bm)"
  shows "(\<exists>bm''. FindCachedBlockWithVerification h toks bm' = (i, bm'') \<and> bm_inv bm'' \<and>
      ref_count (blk bm'' i) = ref_count (blk bm' i) + 1) \<and>
    (\<forall>toks'. toks' \<noteq> toks \<longrightarrow> FindCachedBlockWithVerification h toks' bm' = (-1, bm'))"
proof -
  note F = Register_Free_Find [OF assms(1-5) assms(6)]
  have "in_range bm' i" using F(2) by (simp add: acquires_def)
  then have "\<exists>bm''. FindCachedBlockWithVerification h toks bm' = (i, bm'') \<and> bm_inv bm'' \<and>
      ref_count (blk bm'' i) = ref_count (blk bm' i) + 1"
    using F(1,2) by (intro exI [of _ "snd (FindCachedBlockWithVerification h toks bm')"]) (auto simp: acquires_def prod_eq_iff)
  then show ?thesis using F(3) by blast
qed

theorem register_find_roundtrip_witness:
  "(\<exists>bm''. FindCachedBlockWithVerification 99 [4, 2] (Free [1, 1] (RegisterPrefixBlockWithTokens 1 99 [4, 2] [] sample_bm)) =
    (1, bm'') \<and> bm_inv bm'') \<and>
   fst (FindCachedBlockWithVerification 99 [4, 3] (Free [1, 1] (RegisterPrefixBlockWithTokens 1 99 [4, 2] [] sample_bm))) = -1"
proof -
  have c: "in_range sample_bm 1" "ref_count (blk sample_bm 1) = 1" by code_simp+
  have h: "(99 :: u64) \<noteq> 0" "[4, 2 :: int] \<noteq> []" "[4, 3 :: int] \<noteq> [4, 2]" by simp_all
  have l: "ref_count (blk sample_bm 1) > 0 \<or> cache_resident (blk sample_bm 1)" using c by simp
  note T = register_find_roundtrip [OF sample_bm_inv c(1) h(1,2) l, of _ "[1, 1]" "[]", OF refl]
  show ?thesis using T h(3) by fastforce
qed

text \<open>C6: Writing to a shared block copies it: copy-on-write returns another, previously unreferenced
  block holding one reference, calls the copy callback exactly once from the old to the new block,
  drops one reference of the old block, carries over the fill count and leaves all other blocks
  alone. An unshared block is returned as it is, without a copy.\<close>

theorem copy_on_write_isolates:
  assumes "bm_inv bm" and "in_range bm i" and "CopyOnWrite i cb (bm, d) = (k, bm', d')"
  shows "if ref_count (blk bm i) \<le> 1 then k = i \<and> bm' = bm \<and> d' = d
    else if {j. in_range bm j \<and> ref_count (blk bm j) = 0} = {} then k = -1 \<and> d' = d \<and> bm_inv bm'
    else k \<noteq> i \<and> ref_count (blk bm k) = 0 \<and> d' = cb i k d \<and> bm_inv bm' \<and>
      ref_count (blk bm' k) = 1 \<and> ref_count (blk bm' i) = ref_count (blk bm i) - 1 \<and>
      num_filled_slots (blk bm' k) = num_filled_slots (blk bm i) \<and>
      (\<forall>j. in_range bm j \<and> j \<noteq> i \<and> j \<noteq> k \<longrightarrow> blk bm' j = blk bm j)"
  using assms CopyOnWrite_unshared [of bm i cb d] CopyOnWrite_oom [OF assms(1) _ _ assms(3)]
    CopyOnWrite_shared [OF assms(1) _ _ assms(3)]
  by (cases "IsShared bm i"; cases "available bm = {}")
    (auto simp: IsShared_def available_def unchanged_refs_def)

theorem copy_on_write_isolates_witness:
  "\<exists>k bm'. CopyOnWrite 0 (\<lambda>src dst log. (src, dst) # log) (sample_bm, []) = (k, bm', [(0, k)]) \<and>
    k \<noteq> 0 \<and> ref_count (blk bm' 0) = 1"
proof -
  obtain k bm' log where r: "CopyOnWrite 0 (\<lambda>src dst log. (src, dst) # log) (sample_bm, []) = (k, bm', log)"
    by (metis prod_cases3)
  have c: "in_range sample_bm 0" "ref_count (blk sample_bm 0) = 2" "in_range sample_bm 3" "ref_count (blk sample_bm 3) = 0"
    by code_simp+
  have "{j. in_range sample_bm j \<and> ref_count (blk sample_bm j) = 0} \<noteq> {}" using c by blast
  then show ?thesis using copy_on_write_isolates [OF sample_bm_inv c(1) r] c r by auto
qed

text \<open>C7: Leases of a validly constructed arena allocator are disjoint, exactly the leased blocks are
  marked allocated, and the free count and the leased blocks add up to the capacity. In every such
  state a release of any list of identifiers (twice the same, blocks nobody holds, numbers outside the
  arena) stays inside the bitmap and gives back exactly the held ones of the list, each of them once.\<close>

theorem kvb_leases_exact:
  assumes "IsValid (KVBlockAllocator n stride algn node hugep strict out)" and "unat n < 2 ^ 31"
    and "serve_all (\<lambda>k. KVB_AllocateN (nat k)) kvb_release opers
      ([], KVBlockAllocator n stride algn node hugep strict out) = (leases, a)"
  shows "distinct (concat leases) \<and> kvb_inv a \<and> FreeCount a + length (concat leases) = unat n \<and>
    (\<forall>i. 0 \<le> i \<and> i < uint n \<longrightarrow> IsAllocated a i = Some (i \<in> set (concat leases))) \<and>
    (\<forall>ids. \<exists>a'. KVB_FreeN ids a = Some (card (set ids \<inter> set (concat leases)), a') \<and> kvb_inv a' \<and>
       FreeCount a' = FreeCount a + card (set ids \<inter> set (concat leases)) \<and>
       (\<forall>i. 0 \<le> i \<and> i < uint n \<longrightarrow> IsAllocated a' i = Some (i \<in> set (concat leases) - set ids)))"
proof -
  let ?a = "KVBlockAllocator n stride algn node hugep strict out"
  have inv: "kvb_inv ?a" by (rule KVBlockAllocator_inv [OF assms(1,2)])
  have nb: "kvb_num_blocks ?a = n" by (rule KVBlockAllocator_fields(1))
  have zero: "kvb_refs ?a i = 0" if "i \<in> {i. kvb_in_range ?a i}" for i
    using that KVBlockAllocator_lists [OF refl [of ?a]] assms(1) kvb_in_range_nat [of ?a i] by (simp add: kvb_refs_def nb)
  have L: "kvb_inv a \<and> {i. kvb_in_range a i} = {i. kvb_in_range ?a i} \<and> distinct (leased leases) \<and>
      set (leased leases) \<subseteq> {i. kvb_in_range a i} \<and>
      (\<forall>i \<in> {i. kvb_in_range a i}. kvb_refs a i = (if i \<in> set (leased leases) then 1 else 0))"
    by (rule kvb_pool.serve_all_leases [OF inv _ _ _ assms(3)]) (use zero in \<open>simp_all add: leased_def\<close>)
  have inva: "kvb_inv a" using L by simp
  have rng: "kvb_in_range a i \<longleftrightarrow> 0 \<le> i \<and> i < uint n" for i using L by (auto simp: kvb_in_range_def nb)
  have refs: "kvb_refs a i = (if i \<in> set (concat leases) then 1 else 0)" if "kvb_in_range a i" for i
    using L that by (simp add: leased_def)
  have "card {i. kvb_in_range ?a i} = unat n" by (simp add: kvb_range_eq nb)
  then have "FreeCount a + length (leased leases) = unat n"
    using kvb_pool.serve_all_available [OF inv zero assms(3)]
    by (simp add: kvb_free_set [OF inva, simplified] kvb_free_card [OF inva] FreeCount_def)
  moreover have "IsAllocated a i = Some (i \<in> set (concat leases))" if "0 \<le> i" "i < uint n" for i
    using kvb_refs_IsAllocated [OF inva] refs rng that by simp
  moreover have "\<exists>a'. KVB_FreeN ids a = Some (card (set ids \<inter> set (concat leases)), a') \<and> kvb_inv a' \<and>
       FreeCount a' = FreeCount a + card (set ids \<inter> set (concat leases)) \<and>
       (\<forall>i. 0 \<le> i \<and> i < uint n \<longrightarrow> IsAllocated a' i = Some (i \<in> set (concat leases) - set ids))" for ids
  proof -
    have "set (concat leases) \<subseteq> {i. kvb_in_range a i}" using L unfolding leased_def by blast
    from KVB_FreeN_exact [OF inva refs this, of ids] show ?thesis unfolding rng by blast
  qed
  ultimately show ?thesis using L by (simp add: leased_def)
qed

theorem kvb_leases_exact_witness:
  "\<exists>leases a a'. serve_all (\<lambda>k. KVB_AllocateN (nat k)) kvb_release [Take 2, Take 1, Give 0]
      ([], KVBlockAllocator 4 100 64 (-1) False True
        \<lparr>hugepage_arena = 0, hugepage_bytes = 0, numa_arena = 0, mmap_arena = 4096, aligned_arena = 0\<rparr>) = (leases, a) \<and>
    FreeCount a + length (concat leases) = 4 \<and> KVB_FreeN [2, 2, 0] a = Some (card ({2, 0} \<inter> set (concat leases)), a')"
proof -
  let ?a = "KVBlockAllocator 4 100 64 (-1) False True
        \<lparr>hugepage_arena = 0, hugepage_bytes = 0, numa_arena = 0, mmap_arena = 4096, aligned_arena = 0\<rparr>"
  have v: "IsValid ?a" by code_simp
  have four: "unat (4 :: u64) < 2 ^ 31" "unat (4 :: u64) = 4" by simp_all
  obtain leases a where r:
    "serve_all (\<lambda>k. KVB_AllocateN (nat k)) kvb_release [Take 2, Take 1, Give 0] ([], ?a) = (leases, a)" by fastforce
  have s: "set [2, 2, 0] = {2, 0 :: int}" by simp
  note T = kvb_leases_exact [OF v four(1) r]
  obtain a' where "KVB_FreeN [2, 2, 0] a = Some (card (set [2, 2, 0] \<inter> set (concat leases)), a')" using T by meson
  then show ?thesis using T r unfolding s four(2) by blast
qed

text \<open>C8: When the arena does not wrap around the address space, the blocks of an allocator built with a
  power-of-two alignment do not overlap, lie inside the arena, and start at multiples of the
  alignment if the arena does; each holds the requested number of bytes.\<close>

theorem block_addresses_disjoint:
  assumes "a = KVBlockAllocator n stride (2 ^ k) node hugep strict out"
    and "uint stride + 2 ^ k \<le> 2 ^ 64"
    and "uint (arena a) + uint n * uint (block_stride a) < 2 ^ 64"
    and "0 \<le> i" and "i < j" and "j < uint n"
  shows "uint (GetBlockPtr a i) + uint stride \<le> uint (GetBlockPtr a j) \<and>
    uint (arena a) \<le> uint (GetBlockPtr a i) \<and>
    uint (GetBlockPtr a j) + uint (block_stride a) \<le> uint (arena a) + uint n * uint (block_stride a) \<and>
    (2 ^ k dvd uint (arena a) \<longrightarrow> 2 ^ k dvd uint (GetBlockPtr a i))"
proof -
  let ?s = "uint (block_stride a)"
  have f: "kvb_num_blocks a = n" "block_stride a = AlignUp stride (2 ^ k)"
    using KVBlockAllocator_fields assms(1) by simp_all
  have s: "uint stride \<le> ?s" "2 ^ k dvd ?s" using AlignUp_bounds [OF assms(2)] f(2) by simp_all
  have pi: "uint (GetBlockPtr a i) = uint (arena a) + i * ?s" and pj: "uint (GetBlockPtr a j) = uint (arena a) + j * ?s"
    using assms f by (intro uint_GetBlockPtr; simp add: kvb_in_range_def)+
  have "(i + 1) * ?s \<le> j * ?s" "(j + 1) * ?s \<le> uint n * ?s"
    using assms by (intro mult_right_mono; simp)+
  moreover have "0 \<le> i * ?s" using assms(4) by simp
  ultimately show ?thesis using s unfolding pi pj by (auto simp: distrib_right)
qed

theorem block_addresses_disjoint_witness:
  "uint (GetBlockPtr (KVBlockAllocator 4 100 (2 ^ 6) (-1) False True
        \<lparr>hugepage_arena = 0, hugepage_bytes = 0, numa_arena = 0, mmap_arena = 4096, aligned_arena = 0\<rparr>) 1) + 100
    \<le> uint (GetBlockPtr (KVBlockAllocator 4 100 (2 ^ 6) (-1) False True
        \<lparr>hugepage_arena = 0, hugepage_bytes = 0, numa_arena = 0, mmap_arena = 4096, aligned_arena = 0\<rparr>) 2)"
proof -
  let ?a = "KVBlockAllocator 4 100 (2 ^ 6) (-1) False True
        \<lparr>hugepage_arena = 0, hugepage_bytes = 0, numa_arena = 0, mmap_arena = 4096, aligned_arena = 0\<rparr>"
  have "uint (arena ?a) + uint (4 :: u64) * uint (block_stride ?a) < 2 ^ 64" by code_simp
  from block_addresses_disjoint [OF refl _ this, of 1 2] show ?thesis by simp
qed

end
